(* ===== verification/Errors.thy ===== *)
theory Errors imports "HOL-Library.Word" begin

text \<open>
  The error codes of \<^verbatim>\<open>include/gammu-error.h\<close>, in the order of the C enumeration, and the table
  of their names and descriptions in \<^verbatim>\<open>libgammu/gsmcomon.c\<close>.
\<close>

datatype (plugins only: code size) GSM_Error =
    ERR_NONE | ERR_DEVICEOPENERROR | ERR_DEVICELOCKED | ERR_DEVICENOTEXIST | ERR_DEVICEBUSY
  | ERR_DEVICENOPERMISSION | ERR_DEVICENODRIVER | ERR_DEVICENOTWORK | ERR_DEVICEDTRRTSERROR | ERR_DEVICECHANGESPEEDERROR
  | ERR_DEVICEWRITEERROR | ERR_DEVICEREADERROR | ERR_DEVICEPARITYERROR | ERR_TIMEOUT | ERR_FRAMENOTREQUESTED
  | ERR_UNKNOWNRESPONSE | ERR_UNKNOWNFRAME | ERR_UNKNOWNCONNECTIONTYPESTRING | ERR_UNKNOWNMODELSTRING | ERR_SOURCENOTAVAILABLE
  | ERR_NOTSUPPORTED | ERR_EMPTY | ERR_SECURITYERROR | ERR_INVALIDLOCATION | ERR_NOTIMPLEMENTED
  | ERR_FULL | ERR_UNKNOWN | ERR_CANTOPENFILE | ERR_MOREMEMORY | ERR_PERMISSION
  | ERR_EMPTYSMSC | ERR_INSIDEPHONEMENU | ERR_NOTCONNECTED | ERR_WORKINPROGRESS | ERR_PHONEOFF
  | ERR_FILENOTSUPPORTED | ERR_BUG | ERR_CANCELED | ERR_NEEDANOTHERANSWER | ERR_OTHERCONNECTIONREQUIRED
  | ERR_WRONGCRC | ERR_INVALIDDATETIME | ERR_MEMORY | ERR_INVALIDDATA | ERR_FILEALREADYEXIST
  | ERR_FILENOTEXIST | ERR_SHOULDBEFOLDER | ERR_SHOULDBEFILE | ERR_NOSIM | ERR_GNAPPLETWRONG
  | ERR_FOLDERPART | ERR_FOLDERNOTEMPTY | ERR_DATACONVERTED | ERR_UNCONFIGURED | ERR_WRONGFOLDER
  | ERR_PHONE_INTERNAL | ERR_WRITING_FILE | ERR_NONE_SECTION | ERR_USING_DEFAULTS | ERR_CORRUPTED
  | ERR_BADFEATURE | ERR_DISABLED | ERR_SPECIFYCHANNEL | ERR_NOTRUNNING | ERR_NOSERVICE
  | ERR_BUSY | ERR_COULDNT_CONNECT | ERR_COULDNT_RESOLVE | ERR_GETTING_SMSC | ERR_ABORTED
  | ERR_INSTALL_NOT_FOUND | ERR_READ_ONLY | ERR_NETWORK_ERROR | ERR_DB_VERSION | ERR_DB_DRIVER
  | ERR_DB_CONFIG | ERR_DB_CONNECT | ERR_DB_TIMEOUT | ERR_SQL | ERR_INVALID_OPERATION
  | ERR_MEMORY_NOT_AVAILABLE | ERR_NOECHO | ERR_LAST_VALUE

text \<open>\<^verbatim>\<open>PrintErrorEntries\<close> without its closing entry: code, name and description.\<close>

definition PrintErrorEntries :: "(GSM_Error \<times> string \<times> string) list" where
  "PrintErrorEntries = [
    (ERR_NONE, ''NONE'', ''No error.''),
    (ERR_DEVICEOPENERROR, ''DEVICEOPENERROR'', ''Error opening device. Unknown, busy or no permissions.''),
    (ERR_DEVICELOCKED, ''DEVICELOCKED'', ''Error opening device, it is locked.''),
    (ERR_DEVICENOTEXIST, ''DEVICENOTEXIST'', ''Error opening device, it doesn't exist.''),
    (ERR_DEVICEBUSY, ''DEVICEBUSY'', ''Error opening device, it is already opened by another app.''),
    (ERR_DEVICENOPERMISSION, ''DEVICENOPERMISSION'', ''Error opening device, you don't have the required permission.''),
    (ERR_DEVICENODRIVER, ''DEVICENODRIVER'', ''Error opening device. No required driver in operating system.''),
    (ERR_DEVICENOTWORK, ''DEVICENOTWORK'', ''Error opening device. Some hardware not connected/wrongly configured.''),
    (ERR_DEVICEDTRRTSERROR, ''DEVICEDTRRTSERROR'', ''Error setting device DTR or RTS.''),
    (ERR_DEVICECHANGESPEEDERROR, ''DEVICECHANGESPEEDERROR'', ''Error setting device speed. Maybe the speed is not supported?''),
    (ERR_DEVICEWRITEERROR, ''DEVICEWRITEERROR'', ''Error writing to the device.''),
    (ERR_DEVICEREADERROR, ''DEVICEREADERROR'', ''Error during reading from the device.''),
    (ERR_DEVICEPARITYERROR, ''DEVICEPARITYERROR'', ''Can't set parity on the device.''),
    (ERR_TIMEOUT, ''TIMEOUT'', ''No response in specified timeout. Probably the phone is not connected.''),
    (ERR_FRAMENOTREQUESTED, ''FRAMENOTREQUESTED'', ''Frame not requested right now. See <https://wammu.eu/support/bugs/> for information on how to report it.''),
    (ERR_UNKNOWNRESPONSE, ''UNKNOWNRESPONSE'', ''Unknown response from phone. See <https://wammu.eu/support/bugs/> for information on how to report it.''),
    (ERR_UNKNOWNFRAME, ''UNKNOWNFRAME'', ''Unknown frame. See <https://wammu.eu/support/bugs/> for information on how to report it.''),
    (ERR_UNKNOWNCONNECTIONTYPESTRING, ''UNKNOWNCONNECTIONTYPESTRING'', ''Unknown connection type string. Check config file.''),
    (ERR_UNKNOWNMODELSTRING, ''UNKNOWNMODELSTRING'', ''Unknown model type string. Check config file.''),
    (ERR_SOURCENOTAVAILABLE, ''SOURCENOTAVAILABLE'', ''Some functions are not available for your system (disabled in config or not implemented).''),
    (ERR_NOTSUPPORTED, ''NOTSUPPORTED'', ''Function not supported by phone.''),
    (ERR_EMPTY, ''EMPTY'', ''Empty entry.''),
    (ERR_SECURITYERROR, ''SECURITYERROR'', ''Security error. Maybe no PIN?''),
    (ERR_INVALIDLOCATION, ''INVALIDLOCATION'', ''Invalid location. Maybe too high?''),
    (ERR_NOTIMPLEMENTED, ''NOTIMPLEMENTED'', ''Functionality not implemented. You are welcome to help.''),
    (ERR_FULL, ''FULL'', ''Memory full.''),
    (ERR_UNKNOWN, ''UNKNOWN'', ''Unknown error.''),
    (ERR_CANTOPENFILE, ''CANTOPENFILE'', ''Can not open specified file.''),
    (ERR_MOREMEMORY, ''MOREMEMORY'', ''More memory required'' @ [CHR 0xE2, CHR 0x80, CHR 0xA6]),
    (ERR_PERMISSION, ''PERMISSION'', ''Operation not allowed by phone.''),
    (ERR_EMPTYSMSC, ''EMPTYSMSC'', ''No SMSC number given. Provide it manually or use the one configured on the phone.''),
    (ERR_INSIDEPHONEMENU, ''INSIDEPHONEMENU'', ''You're inside the phone menu (maybe editing?). Exit it and try again.''),
    (ERR_NOTCONNECTED, ''NOTCONNECTED'', ''Phone not connected.''),
    (ERR_WORKINPROGRESS, ''WORKINPROGRESS'', ''Function is currently being implemented. If you want to help, please contact authors.''),
    (ERR_PHONEOFF, ''PHONEOFF'', ''Phone disabled and connected to charger.''),
    (ERR_FILENOTSUPPORTED, ''FILENOTSUPPORTED'', ''File format not supported by Gammu.''),
    (ERR_BUG, ''BUG'', ''Nobody is perfect, some bug appeared in protocol implementation. Please contact authors.''),
    (ERR_CANCELED, ''CANCELED'', ''Transfer canceled by phone, maybe you pressed \"Cancel\" on the phone.''),
    (ERR_NEEDANOTHERANSWER, ''NEEDANOTHERANSWER'', ''Phone module need to send another answer frame.''),
    (ERR_OTHERCONNECTIONREQUIRED, ''OTHERCONNECTIONREQUIRED'', ''Current connection type doesn't support called function.''),
    (ERR_WRONGCRC, ''WRONGCRC'', ''CRC error.''),
    (ERR_INVALIDDATETIME, ''INVALIDDATETIME'', ''Invalid date or time specified.''),
    (ERR_MEMORY, ''MEMORY'', ''Phone memory error, maybe it is read only?''),
    (ERR_INVALIDDATA, ''INVALIDDATA'', ''Invalid data given to phone.''),
    (ERR_FILEALREADYEXIST, ''FILEALREADYEXIST'', ''File with specified name already exists.''),
    (ERR_FILENOTEXIST, ''FILENOTEXIST'', ''File with specified name doesn't exist.''),
    (ERR_SHOULDBEFOLDER, ''SHOULDBEFOLDER'', ''You have to supply folder name and not filename.''),
    (ERR_SHOULDBEFILE, ''SHOULDBEFILE'', ''You have to supply filename and not folder name.''),
    (ERR_NOSIM, ''NOSIM'', ''Can not access SIM card.''),
    (ERR_GNAPPLETWRONG, ''GNAPPLETWRONG'', ''Wrong GNAPPLET version in use on phone. Use version from currently used Gammu.''),
    (ERR_FOLDERPART, ''FOLDERPART'', ''Only part of folder has been listed.''),
    (ERR_FOLDERNOTEMPTY, ''FOLDERNOTEMPTY'', ''Folder must be empty.''),
    (ERR_DATACONVERTED, ''DATACONVERTED'', ''Data converted.''),
    (ERR_UNCONFIGURED, ''UNCONFIGURED'', ''Gammu is not configured.''),
    (ERR_WRONGFOLDER, ''WRONGFOLDER'', ''Wrong folder used.''),
    (ERR_PHONE_INTERNAL, ''PHONE_INTERNAL'', ''Internal phone error.''),
    (ERR_WRITING_FILE, ''WRITING_FILE'', ''Error writing file to disk.''),
    (ERR_NONE_SECTION, ''NONE_SECTION'', ''No such section exists.''),
    (ERR_USING_DEFAULTS, ''USING_DEFAULTS'', ''Using default values.''),
    (ERR_CORRUPTED, ''CORRUPTED'', ''Corrupted data returned by phone.''),
    (ERR_BADFEATURE, ''BADFEATURE'', ''Bad feature string in configuration.''),
    (ERR_DISABLED, ''DISABLED'', ''Desired functionality has been disabled on compile time.''),
    (ERR_SPECIFYCHANNEL, ''SPECIFYCHANNEL'', ''Bluetooth configuration requires channel option.''),
    (ERR_NOTRUNNING, ''NOTRUNNING'', ''Service is not running.''),
    (ERR_NOSERVICE, ''NOSERVICE'', ''Service configuration is missing.''),
    (ERR_BUSY, ''BUSY'', ''Command rejected because device was busy. Wait and restart.''),
    (ERR_COULDNT_CONNECT, ''COULDNT_CONNECT'', ''Could not connect to the server.''),
    (ERR_COULDNT_RESOLVE, ''COULDNT_RESOLVE'', ''Could not resolve the host name.''),
    (ERR_GETTING_SMSC, ''GETTING_SMSC'', ''Failed to get SMSC number from phone.''),
    (ERR_ABORTED, ''ABORTED'', ''Operation aborted.''),
    (ERR_INSTALL_NOT_FOUND, ''INSTALL_NOT_FOUND'', ''Installation data not found, please consult debug log and/or documentation for more details.''),
    (ERR_READ_ONLY, ''READ_ONLY'', ''Entry is read only.''),
    (ERR_NETWORK_ERROR, ''NETWORK_ERROR'', ''Network error.''),
    (ERR_DB_VERSION, ''DB_VERSION'', ''Invalid database version.''),
    (ERR_DB_DRIVER, ''DB_DRIVER'', ''Failed to initialize DB driver.''),
    (ERR_DB_CONFIG, ''DB_CONFIG'', ''Failed to configure DB driver.''),
    (ERR_DB_CONNECT, ''DB_CONNECT'', ''Failed to connect to database.''),
    (ERR_DB_TIMEOUT, ''DB_TIMEOUT'', ''Database connection timeout.''),
    (ERR_SQL, ''SQL'', ''Error in executing SQL query.''),
    (ERR_MEMORY_NOT_AVAILABLE, ''MEMORY_NOT_AVAILABLE'', ''The type of memory is not available or has been disabled.''),
    (ERR_INVALID_OPERATION, ''INVALID_OPERATION'', ''The operation cannot be performed.''),
    (ERR_NOECHO, ''NOECHO'', ''The modem responded without AT command echo. Echo may be unsupported or disabled by another program using the modem.'')
  ]"

text \<open>The lookups; \<open>translate\<close> is \<^verbatim>\<open>dgettext\<close>. A missing name is \<^verbatim>\<open>NULL\<close>.\<close>

definition GSM_ErrorName :: "GSM_Error \<Rightarrow> string option" where
  "GSM_ErrorName e = map_option fst (map_of PrintErrorEntries e)"

definition GSM_ErrorString :: "(string \<Rightarrow> string) \<Rightarrow> GSM_Error \<Rightarrow> string" where
  "GSM_ErrorString translate e =
     translate (case map_of PrintErrorEntries e of Some (_, t) \<Rightarrow> t
                | None \<Rightarrow> ''Unknown error description.'')"

lemma error_codes: "map fst PrintErrorEntries = [
    ERR_NONE, ERR_DEVICEOPENERROR, ERR_DEVICELOCKED, ERR_DEVICENOTEXIST, ERR_DEVICEBUSY,
    ERR_DEVICENOPERMISSION, ERR_DEVICENODRIVER, ERR_DEVICENOTWORK, ERR_DEVICEDTRRTSERROR, ERR_DEVICECHANGESPEEDERROR,
    ERR_DEVICEWRITEERROR, ERR_DEVICEREADERROR, ERR_DEVICEPARITYERROR, ERR_TIMEOUT, ERR_FRAMENOTREQUESTED,
    ERR_UNKNOWNRESPONSE, ERR_UNKNOWNFRAME, ERR_UNKNOWNCONNECTIONTYPESTRING, ERR_UNKNOWNMODELSTRING, ERR_SOURCENOTAVAILABLE,
    ERR_NOTSUPPORTED, ERR_EMPTY, ERR_SECURITYERROR, ERR_INVALIDLOCATION, ERR_NOTIMPLEMENTED,
    ERR_FULL, ERR_UNKNOWN, ERR_CANTOPENFILE, ERR_MOREMEMORY, ERR_PERMISSION,
    ERR_EMPTYSMSC, ERR_INSIDEPHONEMENU, ERR_NOTCONNECTED, ERR_WORKINPROGRESS, ERR_PHONEOFF,
    ERR_FILENOTSUPPORTED, ERR_BUG, ERR_CANCELED, ERR_NEEDANOTHERANSWER, ERR_OTHERCONNECTIONREQUIRED, ERR_WRONGCRC,
    ERR_INVALIDDATETIME, ERR_MEMORY, ERR_INVALIDDATA, ERR_FILEALREADYEXIST, ERR_FILENOTEXIST,
    ERR_SHOULDBEFOLDER, ERR_SHOULDBEFILE, ERR_NOSIM, ERR_GNAPPLETWRONG, ERR_FOLDERPART,
    ERR_FOLDERNOTEMPTY, ERR_DATACONVERTED, ERR_UNCONFIGURED, ERR_WRONGFOLDER, ERR_PHONE_INTERNAL,
    ERR_WRITING_FILE, ERR_NONE_SECTION, ERR_USING_DEFAULTS, ERR_CORRUPTED, ERR_BADFEATURE,
    ERR_DISABLED, ERR_SPECIFYCHANNEL, ERR_NOTRUNNING, ERR_NOSERVICE, ERR_BUSY,
    ERR_COULDNT_CONNECT, ERR_COULDNT_RESOLVE, ERR_GETTING_SMSC, ERR_ABORTED, ERR_INSTALL_NOT_FOUND,
    ERR_READ_ONLY, ERR_NETWORK_ERROR, ERR_DB_VERSION, ERR_DB_DRIVER, ERR_DB_CONFIG,
    ERR_DB_CONNECT, ERR_DB_TIMEOUT, ERR_SQL, ERR_MEMORY_NOT_AVAILABLE, ERR_INVALID_OPERATION,
    ERR_NOECHO]"
  by (simp only: PrintErrorEntries_def list.map fst_conv)

lemma error_names: "distinct (map (fst \<circ> snd) PrintErrorEntries)"
  unfolding PrintErrorEntries_def by code_simp

text \<open>
  Claim C35. Every error but the end marker is in the table, and its name is its own: different errors have different names.
\<close>

theorem errors_named:
  "(GSM_ErrorName e = None) = (e = ERR_LAST_VALUE) \<and> (GSM_ErrorName e = GSM_ErrorName e') = (e = e')"
proof -
  have none: "GSM_ErrorName x = None \<longleftrightarrow> x = ERR_LAST_VALUE" for x
  proof -
    have "GSM_ErrorName x = None \<longleftrightarrow> x \<notin> set (map fst PrintErrorEntries)"
      by (simp add: GSM_ErrorName_def map_of_eq_None_iff)
    then show ?thesis unfolding error_codes by (cases x) simp_all
  qed
  have row: "\<exists>t. (x, n, t) \<in> set PrintErrorEntries" if "GSM_ErrorName x = Some n" for x n
    using that by (auto simp: GSM_ErrorName_def dest: map_of_SomeD)
  have "x = y" if n: "GSM_ErrorName x = Some n" "GSM_ErrorName y = Some n" for x y n
  proof -
    obtain t t' where "(x, n, t) \<in> set PrintErrorEntries" "(y, n, t') \<in> set PrintErrorEntries"
      using row [OF n(1)] row [OF n(2)] by blast
    moreover have "inj_on (fst \<circ> snd) (set PrintErrorEntries)" using error_names by (simp add: distinct_map)
    ultimately have "(x, n, t) = (y, n, t')" by (elim inj_onD) simp_all
    then show ?thesis by simp
  qed
  with none [of e] none [of e'] show ?thesis by (cases "GSM_ErrorName e") auto
qed

end
