(* ===== verification/Prelude.thy ===== *)
theory Prelude imports Errors begin

text \<open>
  Shared types, hint collections and generic lemmas. A C buffer is a list of its cells. The types
  are \<open>byte\<close> (\<^verbatim>\<open>unsigned char\<close>), \<open>uchar\<close> (one big-endian UCS-2 unit, the two bytes
  \<^verbatim>\<open>buffer[2*i]\<close> and \<^verbatim>\<open>buffer[2*i+1]\<close> of the sources) and \<open>gammu_char_t\<close> (a code point).
  A NUL-terminated string is the list of its cells: a scanning function stops at the first zero
  cell or at the end of the list, whichever comes first.
\<close>

unbundle bit_operations_syntax

type_synonym byte = "8 word"
type_synonym uchar = "16 word"
type_synonym gammu_char_t = "32 word"

text \<open>Hint collections: facts that rewrite byte arithmetic, and the unfoldings of the models.\<close>

named_theorems byte_simps
named_theorems model_defs

subsection \<open>Bytes and C strings\<close>

text \<open>A C string literal as bytes, and the part of a buffer before its terminator.\<close>

definition bytes_of :: "string \<Rightarrow> byte list" where
  "bytes_of s = map of_char s"

lemma bytes_of_simps [simp]:
  "bytes_of [] = []"
  "bytes_of (c # s) = of_char c # bytes_of s"
  by (simp_all add: bytes_of_def)

lemma length_bytes_of [simp]: "length (bytes_of s) = length s"
  by (simp add: bytes_of_def)

definition cstr :: "('a::zero) list \<Rightarrow> 'a list" where
  "cstr s = takeWhile (\<lambda>c. c \<noteq> 0) s"

lemma cstr_Nil [simp]: "cstr [] = []"
  by (simp add: cstr_def)

lemma cstr_Cons: "cstr (c # s) = (if c = 0 then [] else c # cstr s)"
  by (simp add: cstr_def)

lemma cstr_id: "0 \<notin> set s \<Longrightarrow> cstr s = s"
  by (simp add: cstr_def takeWhile_eq_all_conv) metis

lemma cstr_no_zero [simp]: "0 \<notin> set (cstr s)"
  by (auto simp: cstr_def dest: set_takeWhileD)

lemma cstr_append_zero: "0 \<notin> set s \<Longrightarrow> cstr (s @ 0 # t) = s"
  by (induction s) (auto simp: cstr_Cons)

lemma length_cstr_le: "length (cstr s) \<le> length s"
  by (simp add: cstr_def length_takeWhile_le)

text \<open>A big-endian unit from its two bytes, and back.\<close>

definition unit_of :: "byte \<Rightarrow> byte \<Rightarrow> uchar" where
  "unit_of hi lo = push_bit 8 (ucast hi) OR ucast lo"

definition unit_hi :: "uchar \<Rightarrow> byte" where
  "unit_hi u = ucast (drop_bit 8 u)"

definition unit_lo :: "uchar \<Rightarrow> byte" where
  "unit_lo u = ucast u"

fun units_of_bytes :: "byte list \<Rightarrow> uchar list" where
  "units_of_bytes (h # l # bs) = unit_of h l # units_of_bytes bs"
| "units_of_bytes _ = []"

definition bytes_of_units :: "uchar list \<Rightarrow> byte list" where
  "bytes_of_units us = concat (map (\<lambda>u. [unit_hi u, unit_lo u]) us)"

lemma unit_of_hi_lo [simp]: "unit_of (unit_hi u) (unit_lo u) = u"
  unfolding unit_of_def unit_hi_def unit_lo_def
  by (rule bit_eqI) (auto simp: bit_simps)

lemma unit_hi_of [simp]: "unit_hi (unit_of h l) = h"
  unfolding unit_of_def unit_hi_def
  by (rule bit_eqI) (auto simp: bit_simps dest: bit_imp_le_length)

lemma unit_lo_of [simp]: "unit_lo (unit_of h l) = l"
  unfolding unit_of_def unit_lo_def
  by (rule bit_eqI) (auto simp: bit_simps)

lemma bytes_of_units_simps [simp]:
  "bytes_of_units [] = []"
  "bytes_of_units (u # us) = unit_hi u # unit_lo u # bytes_of_units us"
  by (simp_all add: bytes_of_units_def)

lemma length_bytes_of_units [simp]: "length (bytes_of_units us) = 2 * length us"
  by (induction us) auto

lemma units_of_bytes_of_units [simp]: "units_of_bytes (bytes_of_units us) = us"
  by (induction us) auto

lemma length_units_of_bytes [simp]: "length (units_of_bytes bs) = length bs div 2"
  by (induction bs rule: units_of_bytes.induct) auto

subsection \<open>Words\<close>

lemma unat_byte_less [simp]: "unat (b :: byte) < 256"
  by (rule order.strict_trans2 [OF unsigned_less]) simp

lemma unat_uchar_less [simp]: "unat (u :: uchar) < 65536"
  by (rule order.strict_trans2 [OF unsigned_less]) simp

lemma byte_cases_all: "(\<And>n. n < 256 \<Longrightarrow> P (word_of_nat n :: byte)) \<Longrightarrow> P b"
proof -
  assume P: "\<And>n. n < 256 \<Longrightarrow> P (word_of_nat n :: byte)"
  have "b = word_of_nat (unat b)" by simp
  with P [OF unat_byte_less [of b]] show "P b" by simp
qed

text \<open>Facts about one byte are proved by running through its 256 values.\<close>

definition all_bytes :: "byte list" where
  "all_bytes = map word_of_nat [0..<256]"

lemma set_all_bytes: "b \<in> set all_bytes"
  unfolding all_bytes_def by (rule byte_cases_all) simp

lemma all_byte: "list_all P all_bytes \<Longrightarrow> P b"
  using set_all_bytes by (auto simp: list_all_iff)

lemma all_bytes_list:
  "all_bytes = [0, 1, 2, 3, 4, 5, 6, 7, 8, 9, 10, 11, 12, 13, 14, 15, 16, 17, 18, 19, 20, 21, 22, 23, 24,
    25, 26, 27, 28, 29, 30, 31, 32, 33, 34, 35, 36, 37, 38, 39, 40, 41, 42, 43, 44, 45, 46,
    47, 48, 49, 50, 51, 52, 53, 54, 55, 56, 57, 58, 59, 60, 61, 62, 63, 64, 65, 66, 67, 68,
    69, 70, 71, 72, 73, 74, 75, 76, 77, 78, 79, 80, 81, 82, 83, 84, 85, 86, 87, 88, 89, 90,
    91, 92, 93, 94, 95, 96, 97, 98, 99, 100, 101, 102, 103, 104, 105, 106, 107, 108, 109, 110,
    111, 112, 113, 114, 115, 116, 117, 118, 119, 120, 121, 122, 123, 124, 125, 126, 127, 128,
    129, 130, 131, 132, 133, 134, 135, 136, 137, 138, 139, 140, 141, 142, 143, 144, 145, 146,
    147, 148, 149, 150, 151, 152, 153, 154, 155, 156, 157, 158, 159, 160, 161, 162, 163, 164,
    165, 166, 167, 168, 169, 170, 171, 172, 173, 174, 175, 176, 177, 178, 179, 180, 181, 182,
    183, 184, 185, 186, 187, 188, 189, 190, 191, 192, 193, 194, 195, 196, 197, 198, 199, 200,
    201, 202, 203, 204, 205, 206, 207, 208, 209, 210, 211, 212, 213, 214, 215, 216, 217, 218,
    219, 220, 221, 222, 223, 224, 225, 226, 227, 228, 229, 230, 231, 232, 233, 234, 235, 236,
    237, 238, 239, 240, 241, 242, 243, 244, 245, 246, 247, 248, 249, 250, 251, 252, 253, 254,
    255]"
  by code_simp

lemma byte_eqI:
  assumes "bit a 0 = bit b 0" "bit a 1 = bit b 1" "bit a 2 = bit b 2" "bit a 3 = bit b 3"
    "bit a 4 = bit b 4" "bit a 5 = bit b 5" "bit a 6 = bit b 6" "bit a 7 = bit b 7"
  shows "a = (b :: byte)"
proof (rule bit_word_eqI)
  fix n assume "n < LENGTH(8)"
  then have "n = 0 \<or> n = 1 \<or> n = 2 \<or> n = 3 \<or> n = 4 \<or> n = 5 \<or> n = 6 \<or> n = 7" by auto
  then show "bit a n = bit b n" using assms by (elim disjE) simp_all
qed

text \<open>Shifting, masking and combining words, read as natural numbers.\<close>

lemma or_push_bit_nat: "b < 2 ^ n \<Longrightarrow> push_bit n a OR b = a * 2 ^ n + (b :: nat)"
proof -
  assume "b < 2 ^ n"
  then have "b = take_bit n b" by (simp add: take_bit_nat_eq_self)
  moreover have "push_bit n a OR take_bit n b = push_bit n a + take_bit n b"
    by (rule disjunctive_add [symmetric]) (auto simp: bit_simps)
  ultimately show ?thesis by (simp add: push_bit_eq_mult)
qed

lemma unat_push_bit_or:
  fixes x y :: "'a::len word"
  assumes "unat y < 2 ^ n" and "unat x * 2 ^ n < 2 ^ LENGTH('a)"
  shows "unat (push_bit n x OR y) = unat x * 2 ^ n + unat y"
proof -
  have "push_bit n (unat x) < 2 ^ LENGTH('a)"
    using assms(2) by (simp only: push_bit_eq_mult)
  then have "unat (push_bit n x) = push_bit n (unat x)"
    by (subst unsigned_push_bit_eq) (rule take_bit_nat_eq_self)
  then show ?thesis using or_push_bit_nat [OF assms(1)] by (simp add: unsigned_or_eq)
qed

lemma unat_and_mask: "unat (w AND mask n) = unat (w :: 'a::len word) mod 2 ^ n"
  unfolding take_bit_eq_mask [symmetric] unsigned_take_bit_eq by (rule take_bit_eq_mod)

lemma unat_ucast_byte [simp]: "16 \<le> LENGTH('a) \<Longrightarrow> unat (ucast (b::byte) :: 'a::len word) = unat b"
  by (simp add: unsigned_ucast_eq take_bit_nat_eq_self_iff) (rule order.strict_trans2 [OF unat_byte_less], simp add: order_trans [OF _ power_increasing [of 16 _ 2]])

lemma unat_drop_bit: "unat (drop_bit n (w :: 'a::len word)) = unat w div 2 ^ n"
  unfolding unat_drop_bit_eq by (rule drop_bit_eq_div)

lemma and_mask_numeral:
  "mask 1 = (0x01 :: 'a::len word)" "mask 2 = (0x03 :: 'a::len word)" "mask 3 = (0x07 :: 'a::len word)" "mask 4 = (0x0F :: 'a::len word)"
  "mask 5 = (0x1F :: 'a::len word)" "mask 6 = (0x3F :: 'a::len word)" "mask 7 = (0x7F :: 'a::len word)"
  "mask 8 = (0xFF :: 'a::len word)" "mask 10 = (0x3FF :: 'a::len word)"
  by (simp_all add: mask_eq_exp_minus_1)

lemma unat_and_masks:
  fixes w :: "'a::len word"
  shows "unat (w AND 0x01) = unat w mod 2" "unat (w AND 0x03) = unat w mod 4"
    "unat (w AND 0x07) = unat w mod 8" "unat (w AND 0x0F) = unat w mod 16"
    "unat (w AND 0x1F) = unat w mod 32" "unat (w AND 0x3F) = unat w mod 64"
    "unat (w AND 0x7F) = unat w mod 128" "unat (w AND 0xFF) = unat w mod 256"
    "unat (w AND 0x3FF) = unat w mod 1024"
  unfolding and_mask_numeral [symmetric] unat_and_mask by simp_all
text \<open>Exclusive or over a list, the checksum every binary protocol of the library uses.\<close>

definition xor_list :: "byte list \<Rightarrow> byte" where
  "xor_list bs = foldr (XOR) bs 0"

lemma xor_list_simps [simp]:
  "xor_list [] = 0"
  "xor_list (b # bs) = b XOR xor_list bs"
  by (simp_all add: xor_list_def)

lemma xor_list_append [simp]: "xor_list (xs @ ys) = xor_list xs XOR xor_list ys"
  by (induction xs) (auto simp: xor.assoc)

lemma xor_cancel_left [simp]: "(a :: 'a::len word) XOR (a XOR b) = b"
  by (simp flip: xor.assoc)

subsection \<open>Lists\<close>

lemma nth_append_Cons_length [simp]: "(xs @ x # ys) ! length xs = x"
  by (simp add: nth_append)

lemma take_Suc_append [simp]: "take (Suc (length xs)) (xs @ x # ys) = xs @ [x]"
  by simp

lemma list_update_snoc_beyond: "xs \<noteq> [] \<Longrightarrow> last (xs[length xs - 1 := y]) = y"
  by (cases xs rule: rev_cases) (auto simp: list_update_append)

end
