(* ===== verification/Interfaces.thy ===== *)
theory Interfaces imports Prelude begin

text \<open>
  The interfaces the components share, as locales. \<open>codec\<close> is what a decoder promises its
  encoder, \<open>symbol_code\<close> a decoder that eats one encoded symbol at a time, and \<open>framing\<close> what a
  receiving protocol state machine promises the dispatcher above it: a frame fed byte by byte to
  a synchronised receiver is delivered once and leaves the receiver synchronised.
\<close>

subsection \<open>Encoders with a decoder\<close>

locale codec =
  fixes enc :: "'a \<Rightarrow> 'b"
    and dec :: "'b \<Rightarrow> 'a option"
    and ok :: "'a \<Rightarrow> bool"
  assumes dec_enc: "ok x \<Longrightarrow> dec (enc x) = Some x"
begin

lemma enc_inj: "ok x \<Longrightarrow> ok y \<Longrightarrow> enc x = enc y \<Longrightarrow> x = y"
  by (metis dec_enc option.inject)

lemma enc_inj_on: "inj_on enc (Collect ok)"
  by (rule inj_onI) (auto intro: enc_inj)

end

subsection \<open>Symbol by symbol decoders\<close>

locale symbol_code =
  fixes enc1 :: "'a \<Rightarrow> 'b list"
    and dec :: "'b list \<Rightarrow> 'c"
    and put :: "'a \<Rightarrow> 'c \<Rightarrow> 'c"
    and ok :: "'a \<Rightarrow> bool"
  assumes dec_step: "ok c \<Longrightarrow> dec (enc1 c @ rest) = put c (dec rest)"
begin

lemma dec_concat_append:
  "\<forall>c \<in> set cs. ok c \<Longrightarrow> dec (concat (map enc1 cs) @ rest) = foldr put cs (dec rest)"
  by (induction cs) (auto simp: dec_step)

lemma dec_concat: "\<forall>c \<in> set cs. ok c \<Longrightarrow> dec (concat (map enc1 cs)) = foldr put cs (dec [])"
  using dec_concat_append [of cs "[]"] by simp

end

subsection \<open>Receiving state machines\<close>

text \<open>
  \<open>run rx st bs\<close> feeds the bytes one at a time, as \<^verbatim>\<open>GSM_ReadDevice\<close> does, and collects the
  events (deliveries and acknowledgements) in order.
\<close>

fun run :: "('s \<Rightarrow> byte \<Rightarrow> 's \<times> 'e list) \<Rightarrow> 's \<Rightarrow> byte list \<Rightarrow> 's \<times> 'e list" where
  "run rx st [] = (st, [])"
| "run rx st (b # bs) =
     (let (st1, es1) = rx st b; (st2, es2) = run rx st1 bs in (st2, es1 @ es2))"

lemma run_append:
  "run rx st (xs @ ys) =
     (let (st1, es1) = run rx st xs; (st2, es2) = run rx st1 ys in (st2, es1 @ es2))"
  by (induction xs arbitrary: st) (auto simp: Let_def split: prod.splits)

lemma run_append_fst: "fst (run rx st (xs @ ys)) = fst (run rx (fst (run rx st xs)) ys)"
  by (simp add: run_append Let_def split: prod.splits)

lemma run_append_snd: "snd (run rx st (xs @ ys)) = snd (run rx st xs) @ snd (run rx (fst (run rx st xs)) ys)"
  by (simp add: run_append Let_def split: prod.splits)

lemma run_silent:
  assumes "\<And>st b. P st \<Longrightarrow> b \<in> set bs \<Longrightarrow> P (fst (rx st b)) \<and> snd (rx st b) = []"
    and "P st"
  shows "P (fst (run rx st bs)) \<and> snd (run rx st bs) = []"
  using assms
proof (induction bs arbitrary: st)
  case (Cons b bs)
  from Cons.prems have "P (fst (rx st b))" "snd (rx st b) = []" by auto
  moreover have "P (fst (run rx (fst (rx st b)) bs)) \<and> snd (run rx (fst (rx st b)) bs) = []"
    using Cons.prems calculation by (intro Cons.IH) auto
  ultimately show ?case by (auto simp: Let_def split: prod.splits)
qed auto

locale framing =
  fixes rx :: "'s \<Rightarrow> byte \<Rightarrow> 's \<times> 'e list"
    and frame :: "'m \<Rightarrow> byte list"
    and delivered :: "'m \<Rightarrow> 'e list"
    and sync :: "'s \<Rightarrow> bool"
    and ok :: "'m \<Rightarrow> bool"
  assumes frame_events: "sync st \<Longrightarrow> ok m \<Longrightarrow> snd (run rx st (frame m)) = delivered m"
    and frame_sync: "sync st \<Longrightarrow> ok m \<Longrightarrow> sync (fst (run rx st (frame m)))"
begin

lemma stream_events:
  assumes "sync st" and "\<forall>m \<in> set ms. ok m"
  shows "snd (run rx st (concat (map frame ms))) = concat (map delivered ms)
    \<and> sync (fst (run rx st (concat (map frame ms))))"
  using assms
proof (induction ms arbitrary: st)
  case (Cons m ms)
  let ?st = "fst (run rx st (frame m))"
  from Cons.prems have "snd (run rx st (frame m)) = delivered m" "sync ?st"
    by (auto intro: frame_events frame_sync)
  moreover from Cons.IH [OF \<open>sync ?st\<close>] Cons.prems
  have "snd (run rx ?st (concat (map frame ms))) = concat (map delivered ms)
    \<and> sync (fst (run rx ?st (concat (map frame ms))))" by simp
  ultimately show ?case
    by (auto simp: run_append Let_def split: prod.splits)
qed auto

end

text \<open>A receiver that skips noise until the first byte of a frame.\<close>

locale framing_resync = framing +
  fixes noise :: "byte \<Rightarrow> bool"
  assumes noise_silent: "sync st \<Longrightarrow> noise b \<Longrightarrow> snd (rx st b) = [] \<and> sync (fst (rx st b))"
begin

lemma noise_run:
  "sync st \<Longrightarrow> \<forall>b \<in> set bs. noise b \<Longrightarrow>
     snd (run rx st bs) = [] \<and> sync (fst (run rx st bs))"
  using run_silent [of sync bs rx st] noise_silent by auto

lemma noise_then_frame:
  assumes "sync st" "\<forall>b \<in> set bs. noise b" "ok m"
  shows "snd (run rx st (bs @ frame m)) = delivered m \<and> sync (fst (run rx st (bs @ frame m)))"
proof -
  let ?st = "fst (run rx st bs)"
  have "snd (run rx st bs) = []" "sync ?st" using noise_run [OF assms(1,2)] by auto
  moreover from \<open>sync ?st\<close> assms(3) have "snd (run rx ?st (frame m)) = delivered m"
    "sync (fst (run rx ?st (frame m)))" by (auto intro: frame_events frame_sync)
  ultimately show ?thesis by (auto simp: run_append Let_def split: prod.splits)
qed

lemma noise_then_stream:
  assumes "sync st" "\<forall>b \<in> set bs. noise b" "\<forall>m \<in> set ms. ok m"
  shows "snd (run rx st (bs @ concat (map frame ms))) = concat (map delivered ms)"
proof -
  have "snd (run rx st bs) = []" "sync (fst (run rx st bs))" using noise_run [OF assms(1,2)] by auto
  then show ?thesis using stream_events [of "fst (run rx st bs)" ms] assms(3)
    by (simp add: run_append_snd)
qed

text \<open>Noise before every frame and behind the last one.\<close>

lemma noisy_frames:
  assumes "sync st" "\<forall>(bs, m) \<in> set ms. (\<forall>b \<in> set bs. noise b) \<and> ok m"
  shows "snd (run rx st (concat (map (\<lambda>(bs, m). bs @ frame m) ms))) = concat (map (\<lambda>(bs, m). delivered m) ms)
    \<and> sync (fst (run rx st (concat (map (\<lambda>(bs, m). bs @ frame m) ms))))"
  using assms
proof (induction ms arbitrary: st)
  case (Cons p ms)
  obtain bs m where p: "p = (bs, m)" by fastforce
  let ?st = "fst (run rx st (bs @ frame m))"
  from Cons.prems have first: "snd (run rx st (bs @ frame m)) = delivered m" "sync ?st"
    using noise_then_frame [of st bs m] by (auto simp: p)
  from Cons.IH [OF first(2)] Cons.prems have
    "snd (run rx ?st (concat (map (\<lambda>(bs, m). bs @ frame m) ms))) = concat (map (\<lambda>(bs, m). delivered m) ms)
      \<and> sync (fst (run rx ?st (concat (map (\<lambda>(bs, m). bs @ frame m) ms))))" by simp
  moreover have "concat (map (\<lambda>(bs, m). bs @ frame m) (p # ms)) = (bs @ frame m) @ concat (map (\<lambda>(bs, m). bs @ frame m) ms)"
    by (simp add: p)
  moreover have "snd (run rx st (xs @ ys)) = snd (run rx st xs) @ snd (run rx (fst (run rx st xs)) ys)"
    "fst (run rx st (xs @ ys)) = fst (run rx (fst (run rx st xs)) ys)" for xs ys
    by (simp_all add: run_append Let_def split: prod.splits)
  ultimately show ?case using first(1) by (simp add: p del: append_assoc)
qed auto

lemma noisy_stream:
  assumes "sync st" "\<forall>(bs, m) \<in> set ms. (\<forall>b \<in> set bs. noise b) \<and> ok m" "\<forall>b \<in> set rest. noise b"
  shows "snd (run rx st (concat (map (\<lambda>(bs, m). bs @ frame m) ms) @ rest)) = concat (map (\<lambda>(bs, m). delivered m) ms)"
  using noisy_frames [OF assms(1,2)] noise_run [OF _ assms(3), of "fst (run rx st (concat (map (\<lambda>(bs, m). bs @ frame m) ms)))"]
  by (simp add: run_append_snd)

end

subsection \<open>Bounded queues\<close>

datatype 'a queue_op = Push 'a | Pop
datatype 'a queue_result = Pushed | Full | Popped 'a | Empty

text \<open>A script of operations on a queue, given by its push (\<open>None\<close> when full) and pop, with the results.\<close>

fun run_queue ::
  "('q \<Rightarrow> 'a \<Rightarrow> 'q option) \<Rightarrow> ('q \<Rightarrow> ('a \<times> 'q) option) \<Rightarrow> 'q \<Rightarrow> 'a queue_op list \<Rightarrow> 'a queue_result list \<times> 'q" where
  "run_queue push pop q [] = ([], q)"
| "run_queue push pop q (Push x # ops) =
     (let (r, q1) = (case push q x of None \<Rightarrow> (Full, q) | Some q1 \<Rightarrow> (Pushed, q1)); (rs, q2) = run_queue push pop q1 ops
      in (r # rs, q2))"
| "run_queue push pop q (Pop # ops) =
     (let (r, q1) = (case pop q of None \<Rightarrow> (Empty, q) | Some (x, q1) \<Rightarrow> (Popped x, q1)); (rs, q2) = run_queue push pop q1 ops
      in (r # rs, q2))"

text \<open>The specification: a list of at most \<open>cap\<close> elements, first in first out.\<close>

definition fifo_push :: "nat \<Rightarrow> 'a list \<Rightarrow> 'a \<Rightarrow> 'a list option" where
  "fifo_push cap xs x = (if length xs < cap then Some (xs @ [x]) else None)"

fun fifo_pop :: "'a list \<Rightarrow> ('a \<times> 'a list) option" where
  "fifo_pop [] = None"
| "fifo_pop (x # xs) = Some (x, xs)"

locale bounded_queue =
  fixes push :: "'q \<Rightarrow> 'a \<Rightarrow> 'q option"
    and pop :: "'q \<Rightarrow> ('a \<times> 'q) option"
    and contents :: "'q \<Rightarrow> 'a list"
    and inv :: "'q \<Rightarrow> bool"
    and cap :: nat
  assumes push_contents: "inv q \<Longrightarrow> map_option contents (push q x) = fifo_push cap (contents q) x"
    and push_inv: "inv q \<Longrightarrow> push q x = Some q' \<Longrightarrow> inv q'"
    and pop_contents: "inv q \<Longrightarrow> map_option (map_prod id contents) (pop q) = fifo_pop (contents q)"
    and pop_inv: "inv q \<Longrightarrow> pop q = Some (x, q') \<Longrightarrow> inv q'"
begin

lemma simulates:
  "inv q \<Longrightarrow> run_queue push pop q ops = (rs, q') \<Longrightarrow>
     run_queue (fifo_push cap) fifo_pop (contents q) ops = (rs, contents q') \<and> inv q'"
proof (induction ops arbitrary: q rs)
  case (Cons op ops)
  show ?case
  proof (cases op)
    case (Push x)
    show ?thesis
    proof (cases "push q x")
      case None
      then have "fifo_push cap (contents q) x = None" using push_contents [OF Cons.prems(1), of x] by simp
      then show ?thesis using Cons Push None by (auto simp: Let_def split: prod.splits)
    next
      case (Some q1)
      then have "fifo_push cap (contents q) x = Some (contents q1)" "inv q1"
        using push_contents [OF Cons.prems(1), of x] push_inv [OF Cons.prems(1)] by simp_all
      then show ?thesis using Cons.prems(2) Cons.IH [of q1] Push Some by (auto simp: Let_def split: prod.splits)
    qed
  next
    case Pop
    show ?thesis
    proof (cases "pop q")
      case None
      then have "fifo_pop (contents q) = None" using pop_contents [OF Cons.prems(1)] by simp
      then show ?thesis using Cons Pop None by (auto simp: Let_def split: prod.splits)
    next
      case (Some r)
      obtain x q1 where r: "r = (x, q1)" by (cases r)
      then have "fifo_pop (contents q) = Some (x, contents q1)" "inv q1"
        using pop_contents [OF Cons.prems(1)] pop_inv [OF Cons.prems(1)] Some by simp_all
      then show ?thesis using Cons.prems(2) Cons.IH [of q1] Pop Some r by (auto simp: Let_def split: prod.splits)
    qed
  qed
qed auto

end

end
