(* ===== verification/Escapes.thy ===== *)
theory Escapes imports Interfaces begin

text \<open>
  The backslash escapes of backup files and the tilde escapes of Nokia phones:
  \<^verbatim>\<open>EncodeUnicodeSpecialChars\<close>, \<^verbatim>\<open>EncodeSpecialChars\<close>, their decoders and the
  \<^verbatim>\<open>UnicodeSpecialNOKIAChars\<close> pair of \<^verbatim>\<open>libgammu/misc/coding/coding.c\<close>. The results are the
  cells written before the terminator the functions store.
\<close>

subsection \<open>Backslash escapes\<close>

definition unicode_special_char :: "uchar \<Rightarrow> uchar list" where
  "unicode_special_char c =
     (if c = 10 then [0x5C, 0x6E]
      else if c = 13 then [0x5C, 0x72]
      else if c = 0x5C then [0x5C, 0x5C]
      else if c = 0x3B then [0x5C, 0x3B]
      else if c = 0x2C then [0x5C, 0x2C]
      else [c])"

fun EncodeUnicodeSpecialChars :: "uchar list \<Rightarrow> uchar list" where
  "EncodeUnicodeSpecialChars [] = []"
| "EncodeUnicodeSpecialChars (c # buffer) =
     (if c = 0 then [] else unicode_special_char c @ EncodeUnicodeSpecialChars buffer)"

text \<open>
  The decoders keep \<^verbatim>\<open>level\<close> (1 after a backslash). The cell written for a backslash at level 0
  is overwritten by the next character, because \<^verbatim>\<open>Pos2\<close> does not move.
\<close>

fun decode_unicode_special :: "nat \<Rightarrow> uchar list \<Rightarrow> uchar list" where
  "decode_unicode_special level [] = []"
| "decode_unicode_special level (c # buffer) =
     (if c = 0 then []
      else if level = 0 then
        (if c = 0x5C then decode_unicode_special 1 buffer
         else c # decode_unicode_special 0 buffer)
      else
        (if c = 0x6E then 10 else if c = 0x72 then 13 else if c = 0x5C then 0x5C else c)
          # decode_unicode_special 0 buffer)"

definition DecodeUnicodeSpecialChars :: "uchar list \<Rightarrow> uchar list" where
  "DecodeUnicodeSpecialChars buffer = decode_unicode_special 0 buffer"

definition special_char :: "byte \<Rightarrow> byte list" where
  "special_char c =
     (if c = 10 then [0x5C, 0x6E]
      else if c = 13 then [0x5C, 0x72]
      else if c = 0x5C then [0x5C, 0x5C]
      else [c])"

fun EncodeSpecialChars :: "byte list \<Rightarrow> byte list" where
  "EncodeSpecialChars [] = []"
| "EncodeSpecialChars (c # buffer) =
     (if c = 0 then [] else special_char c @ EncodeSpecialChars buffer)"

fun decode_special :: "nat \<Rightarrow> byte list \<Rightarrow> byte list" where
  "decode_special level [] = []"
| "decode_special level (c # buffer) =
     (if c = 0 then []
      else if level = 0 then
        (if c = 0x5C then decode_special 1 buffer else c # decode_special 0 buffer)
      else
        (if c = 0x6E then 10 else if c = 0x72 then 13 else if c = 0x5C then 0x5C else c)
          # decode_special 0 buffer)"

definition DecodeSpecialChars :: "byte list \<Rightarrow> byte list" where
  "DecodeSpecialChars buffer = decode_special 0 buffer"

subsection \<open>Nokia escapes\<close>

text \<open>
  \<open>special\<close> is the flag of the C loop: a tilde has been read and not yet written. The functions
  take the first \<^verbatim>\<open>len\<close> units of the source.
\<close>

fun encode_nokia :: "bool \<Rightarrow> uchar list \<Rightarrow> uchar list" where
  "encode_nokia special [] = (if special then [1] else [])"
| "encode_nokia special (u # src) =
     (if special then
        (if u = 0x7E then 0x7E # encode_nokia False src else 1 # u # encode_nokia False src)
      else
        (if u = 0x7E then encode_nokia True src else u # encode_nokia False src))"

definition EncodeUnicodeSpecialNOKIAChars :: "uchar list \<Rightarrow> nat \<Rightarrow> uchar list" where
  "EncodeUnicodeSpecialNOKIAChars src len = encode_nokia False (take len src)"

fun decode_nokia :: "uchar list \<Rightarrow> uchar list" where
  "decode_nokia [] = []"
| "decode_nokia (u # src) =
     (if u = 1 then [0x7E] else if u = 0x7E then [0x7E, 0x7E] else [u]) @ decode_nokia src"

definition DecodeUnicodeSpecialNOKIAChars :: "uchar list \<Rightarrow> nat \<Rightarrow> uchar list" where
  "DecodeUnicodeSpecialNOKIAChars src len = decode_nokia (take len src)"

subsection \<open>The decoders eat one escape at a time\<close>

interpretation unicode_escape:
  symbol_code unicode_special_char DecodeUnicodeSpecialChars "(#)" "\<lambda>c. c \<noteq> 0"
  by unfold_locales (auto simp: unicode_special_char_def DecodeUnicodeSpecialChars_def)

interpretation byte_escape:
  symbol_code special_char DecodeSpecialChars "(#)" "\<lambda>c. c \<noteq> 0"
  by unfold_locales (auto simp: special_char_def DecodeSpecialChars_def)

lemma foldr_Cons_Nil [simp]: "foldr (#) xs [] = xs"
  by (induction xs) auto

lemma EncodeUnicodeSpecialChars_concat:
  "EncodeUnicodeSpecialChars s = concat (map unicode_special_char (cstr s))"
  by (induction s) (auto simp: cstr_Cons)

lemma EncodeSpecialChars_concat:
  "EncodeSpecialChars s = concat (map special_char (cstr s))"
  by (induction s) (auto simp: cstr_Cons)

lemma cstr_members: "\<forall>c \<in> set (cstr s). c \<noteq> (0 :: 'a::len word)"
  by (auto dest: set_takeWhileD simp: cstr_def)

lemma decode_encode_unicode: "DecodeUnicodeSpecialChars (EncodeUnicodeSpecialChars s) = cstr s"
  using unicode_escape.dec_concat [OF cstr_members]
  by (simp add: EncodeUnicodeSpecialChars_concat DecodeUnicodeSpecialChars_def)

lemma decode_encode_special: "DecodeSpecialChars (EncodeSpecialChars s) = cstr s"
  using byte_escape.dec_concat [OF cstr_members]
  by (simp add: EncodeSpecialChars_concat DecodeSpecialChars_def)

interpretation unicode_escape_codec:
  codec EncodeUnicodeSpecialChars "\<lambda>s. Some (DecodeUnicodeSpecialChars s)" "\<lambda>s. 0 \<notin> set s"
  by unfold_locales (simp add: decode_encode_unicode cstr_id)

lemma length_EncodeUnicodeSpecialChars:
  "length (EncodeUnicodeSpecialChars s) \<le> 2 * length (cstr s)"
  by (induction s) (auto simp: cstr_Cons unicode_special_char_def)

lemma length_EncodeSpecialChars: "length (EncodeSpecialChars s) \<le> 2 * length (cstr s)"
  by (induction s) (auto simp: cstr_Cons special_char_def)

lemma unicode_special_char_safe:
  "c \<in> set (unicode_special_char d) \<Longrightarrow> d \<noteq> 0 \<Longrightarrow> c \<notin> {0, 10, 13}"
  by (auto simp: unicode_special_char_def split: if_splits)

text \<open>
  Escaping and unescaping a UCS-2 string gives the string back; the escaped form
  holds no line break (so it stays on one line of a backup file) and is at most twice as long.
\<close>

theorem unicode_escape_roundtrip:
  "DecodeUnicodeSpecialChars (EncodeUnicodeSpecialChars s) = cstr s
   \<and> set (EncodeUnicodeSpecialChars s) \<inter> {0, 10, 13} = {}
   \<and> length (EncodeUnicodeSpecialChars s) \<le> 2 * length (cstr s)"
proof -
  have "c \<notin> {0, 10, 13}" if "c \<in> set (EncodeUnicodeSpecialChars s)" for c
    using that cstr_members [of s] unicode_special_char_safe
    by (fastforce simp: EncodeUnicodeSpecialChars_concat)
  then show ?thesis
    using decode_encode_unicode length_EncodeUnicodeSpecialChars by blast
qed

subsection \<open>Nokia escapes: round trip and monotone length\<close>

lemma decode_encode_nokia:
  "1 \<notin> set src \<Longrightarrow> decode_nokia (encode_nokia special src) = (if special then [0x7E] else []) @ src"
  by (induction special src rule: encode_nokia.induct) auto

lemma length_encode_nokia_pos: "0 < length (encode_nokia True src)"
  by (cases src) auto

lemma length_encode_nokia_append:
  "length (encode_nokia special xs) \<le> length (encode_nokia special (xs @ ys))"
proof (induction special xs rule: encode_nokia.induct)
  case (1 special)
  then show ?case using length_encode_nokia_pos [of ys] by (cases special) (auto simp: Suc_le_eq)
qed auto

lemma length_encode_nokia_le:
  "length (encode_nokia special src) \<le> length src + (if special then 1 else 0)"
  by (induction special src rule: encode_nokia.induct) auto

lemma length_encode_nokia_ge:
  "length src + (if special then 1 else 0) \<le> 2 * length (encode_nokia special src)"
  by (induction special src rule: encode_nokia.induct) auto

lemma encoded_length_mono:
  assumes "m \<le> n"
  shows "length (EncodeUnicodeSpecialNOKIAChars src m) \<le> length (EncodeUnicodeSpecialNOKIAChars src n)"
proof -
  from assms have "take n src = take m src @ take (n - m) (drop m src)"
    by (metis le_add_diff_inverse take_add)
  then show ?thesis
    by (simp add: EncodeUnicodeSpecialNOKIAChars_def length_encode_nokia_append)
qed

lemma encoded_length_le: "length (EncodeUnicodeSpecialNOKIAChars src n) \<le> min n (length src)"
  using length_encode_nokia_le [of False "take n src"]
  by (simp add: EncodeUnicodeSpecialNOKIAChars_def min.commute)

lemma encoded_length_take:
  "EncodeUnicodeSpecialNOKIAChars (take n src) n = EncodeUnicodeSpecialNOKIAChars src n"
  by (simp add: EncodeUnicodeSpecialNOKIAChars_def)

text \<open>
  A text without the blinking marker U+0001 survives the Nokia tilde escapes: the
  decoder undoes the encoder, also for lone, doubled and trailing tildes.
\<close>

theorem nokia_escape_roundtrip:
  assumes "1 \<notin> set src" and "len \<le> length src"
  shows "DecodeUnicodeSpecialNOKIAChars (EncodeUnicodeSpecialNOKIAChars src len)
           (length (EncodeUnicodeSpecialNOKIAChars src len)) = take len src"
  using assms decode_encode_nokia [of "take len src" False]
  by (auto simp: EncodeUnicodeSpecialNOKIAChars_def DecodeUnicodeSpecialNOKIAChars_def
      dest: in_set_takeD)

theorem nokia_escape_roundtrip_witness:
  "DecodeUnicodeSpecialNOKIAChars (EncodeUnicodeSpecialNOKIAChars [0x7E, 0x41, 0x7E, 0x7E, 0x7E] 5)
     (length (EncodeUnicodeSpecialNOKIAChars [0x7E, 0x41, 0x7E, 0x7E, 0x7E] 5))
   = [0x7E, 0x41, 0x7E, 0x7E, 0x7E]"
  using nokia_escape_roundtrip [of "[0x7E, 0x41, 0x7E, 0x7E, 0x7E]" 5] by simp

end
