(* ===== verification/Codings.thy ===== *)
theory Codings imports Interfaces begin

text \<open>
  The text encodings of binary data of \<^verbatim>\<open>libgammu/misc/coding/coding.c\<close>: BCD, hexadecimal and
  base 64. A source is the list of the \<^verbatim>\<open>len\<close> cells a function is given; a result is the list
  of the cells it writes, without the terminator it adds.
\<close>

subsection \<open>BCD\<close>

text \<open>\<^verbatim>\<open>div\<close> of C rounds towards zero.\<close>

definition c_quot :: "int \<Rightarrow> int \<Rightarrow> int" where
  "c_quot a b = sgn a * sgn b * (\<bar>a\<bar> div \<bar>b\<bar>)"

definition EncodeWithBCDAlphabet :: "int \<Rightarrow> byte" where
  "EncodeWithBCDAlphabet value =
     (let quot = c_quot value 10
      in word_of_int (push_bit 4 ((value - quot * 10) AND 0x0f) OR (quot AND 0xf)))"

definition DecodeWithBCDAlphabet :: "byte \<Rightarrow> nat" where
  "DecodeWithBCDAlphabet value = 10 * unat (value AND 0x0f) + unat (drop_bit 4 value)"

definition bcd_digit :: "byte \<Rightarrow> byte list" where
  "bcd_digit digit = (if digit < 10 then [digit + 0x30] else [])"

fun DecodeBCD :: "byte list \<Rightarrow> byte list" where
  "DecodeBCD [] = []"
| "DecodeBCD (c # src) = bcd_digit (c AND 0x0f) @ bcd_digit (drop_bit 4 c) @ DecodeBCD src"

fun EncodeBCD :: "byte list \<Rightarrow> bool \<Rightarrow> byte list" where
  "EncodeBCD [] fill = []"
| "EncodeBCD [a] fill = [if fill then (a - 0x30) OR 0xf0 else a - 0x30]"
| "EncodeBCD (a # b # src) fill = ((a - 0x30) OR push_bit 4 (b - 0x30)) # EncodeBCD src fill"

subsection \<open>Hexadecimal\<close>

definition DecodeWithHexBinAlphabet :: "byte \<Rightarrow> int" where
  "DecodeWithHexBinAlphabet mychar =
     (if 0x41 \<le> mychar \<and> mychar \<le> 0x46 then uint mychar - 0x41 + 10
      else if 0x61 \<le> mychar \<and> mychar \<le> 0x66 then uint mychar - 0x61 + 10
      else if 0x30 \<le> mychar \<and> mychar \<le> 0x39 then uint mychar - 0x30
      else -1)"

definition EncodeWithHexBinAlphabet :: "int \<Rightarrow> byte" where
  "EncodeWithHexBinAlphabet digit =
     (if 0 \<le> digit \<and> digit \<le> 9 then word_of_int (0x30 + digit)
      else if 10 \<le> digit \<and> digit \<le> 15 then word_of_int (0x41 + (digit - 10))
      else 0)"

fun EncodeHexBin :: "byte list \<Rightarrow> byte list" where
  "EncodeHexBin [] = []"
| "EncodeHexBin (c # src) =
     EncodeWithHexBinAlphabet (uint (drop_bit 4 c)) # EncodeWithHexBinAlphabet (uint (c AND 0xF))
       # EncodeHexBin src"

text \<open>\<open>None\<close> is the return value \<^verbatim>\<open>FALSE\<close>; a single last cell is not looked at (\<^verbatim>\<open>len/2\<close>).\<close>

fun DecodeHexBin :: "byte list \<Rightarrow> byte list option" where
  "DecodeHexBin (c0 # c1 # src) =
     (let low = DecodeWithHexBinAlphabet c1; high = DecodeWithHexBinAlphabet c0
      in if low < 0 \<or> high < 0 then None
         else map_option ((#) (word_of_int (push_bit 4 high OR low))) (DecodeHexBin src))"
| "DecodeHexBin _ = Some []"

definition EncodeHexUnicode :: "uchar list \<Rightarrow> byte list" where
  "EncodeHexUnicode src = EncodeHexBin (bytes_of_units src)"

text \<open>
  Four digits a unit. With one to three cells left the C code reads the terminator of the string,
  which is no digit, and returns \<^verbatim>\<open>FALSE\<close>.
\<close>

fun DecodeHexUnicode :: "byte list \<Rightarrow> uchar list option" where
  "DecodeHexUnicode [] = Some []"
| "DecodeHexUnicode (c0 # c1 # c2 # c3 # src) =
     (let val0 = DecodeWithHexBinAlphabet c0; val1 = DecodeWithHexBinAlphabet c1;
          val2 = DecodeWithHexBinAlphabet c2; val3 = DecodeWithHexBinAlphabet c3
      in if val0 < 0 \<or> val1 < 0 \<or> val2 < 0 \<or> val3 < 0 then None
         else map_option ((#) (unit_of (word_of_int (push_bit 4 val0 + val1))
                                       (word_of_int (push_bit 4 val2 + val3))))
                (DecodeHexUnicode src))"
| "DecodeHexUnicode _ = None"

subsection \<open>Base 64\<close>

definition cb64 :: "byte list" where
  "cb64 = bytes_of ''ABCDEFGHIJKLMNOPQRSTUVWXYZabcdefghijklmnopqrstuvwxyz0123456789+/''"

definition EncodeBASE64Block :: "byte \<Rightarrow> byte \<Rightarrow> byte \<Rightarrow> nat \<Rightarrow> byte list" where
  "EncodeBASE64Block in0 in1 in2 len =
     [cb64 ! unat (drop_bit 2 in0),
      cb64 ! unat (push_bit 4 (in0 AND 0x03) OR drop_bit 4 (in1 AND 0xf0)),
      (if len > 1 then cb64 ! unat (push_bit 2 (in1 AND 0x0f) OR drop_bit 6 (in2 AND 0xc0)) else 0x3D),
      (if len > 2 then cb64 ! unat (in2 AND 0x3f) else 0x3D)]"

fun EncodeBASE64 :: "byte list \<Rightarrow> byte list" where
  "EncodeBASE64 [] = []"
| "EncodeBASE64 [a] = EncodeBASE64Block a 0 0 1"
| "EncodeBASE64 [a, b] = EncodeBASE64Block a b 0 2"
| "EncodeBASE64 (a # b # c # src) = EncodeBASE64Block a b c 3 @ EncodeBASE64 src"

definition cd64 :: "byte list" where
  "cd64 = bytes_of ''|$$$}rstuvwxyz{$$$$$$$>?@ABCDEFGHIJKLMNOPQRSTUVW$$$$$$XYZ['' @ 0x5C # bytes_of '']^_`abcdefghijklmnopq''"

definition base64_value :: "byte \<Rightarrow> byte" where
  "base64_value c =
     (let v = (if c < 43 \<or> c > 122 then 0 else cd64 ! unat (c - 43))
      in if v \<noteq> 0 then (if v = 0x24 then 0 else v - 61) else 0)"

text \<open>The \<^verbatim>\<open>while (v == 0)\<close> loop: the next value that is not zero, and the input behind it.\<close>

fun base64_next :: "byte list \<Rightarrow> byte \<times> byte list" where
  "base64_next [] = (0, [])"
| "base64_next (c # input) =
     (let v = base64_value c in if v = 0 then base64_next input else (v, input))"

lemma base64_next_length: "length (snd (base64_next input)) \<le> length input"
  by (induction input) (auto simp: Let_def)

lemma base64_next_progress:
  "input \<noteq> [] \<Longrightarrow> length (snd (base64_next input)) < length input"
  by (cases input) (auto simp: Let_def less_Suc_eq_le base64_next_length)

text \<open>The four rounds of a block: \<open>quad\<close> is the array \<^verbatim>\<open>in\<close>, which keeps its old cells.\<close>

fun base64_fill :: "nat \<Rightarrow> nat \<Rightarrow> byte list \<Rightarrow> byte list \<Rightarrow> nat \<times> byte list \<times> byte list" where
  "base64_fill 0 len quad input = (len, quad, input)"
| "base64_fill (Suc k) len quad input =
     (let (v, input') = base64_next input
      in if v \<noteq> 0 then base64_fill k (len + 1) (quad[3 - k := v - 1]) input'
         else base64_fill k len quad input')"

definition DecodeBASE64Block :: "byte list \<Rightarrow> byte list" where
  "DecodeBASE64Block quad =
     [push_bit 2 (quad ! 0) OR drop_bit 4 (quad ! 1),
      push_bit 4 (quad ! 1) OR drop_bit 2 (quad ! 2),
      (push_bit 6 (quad ! 2) AND 0xc0) OR quad ! 3]"

lemma base64_fill_length:
  "length (snd (snd (base64_fill k len quad input))) \<le> length input"
proof (induction k arbitrary: len quad input)
  case (Suc k)
  show ?case
    using base64_next_length [of input] Suc
    by (auto simp: Let_def split: prod.splits intro: order_trans [OF Suc.IH])
qed simp

lemma base64_fill_progress:
  "input \<noteq> [] \<Longrightarrow> length (snd (snd (base64_fill (Suc k) len quad input))) < length input"
  using base64_next_progress [of input]
  by (auto simp: Let_def split: prod.splits intro: le_less_trans [OF base64_fill_length])

lemma base64_fill4_progress:
  "input \<noteq> [] \<Longrightarrow> length (snd (snd (base64_fill 4 len quad input))) < length input"
proof -
  have four: "(4 :: nat) = Suc 3" by simp
  show "input \<noteq> [] \<Longrightarrow> length (snd (snd (base64_fill 4 len quad input))) < length input"
    unfolding four by (rule base64_fill_progress)
qed

function decode_base64 :: "byte list \<Rightarrow> byte list \<Rightarrow> byte list" where
  "decode_base64 quad input =
     (if input = [] then []
      else let (len, quad', input') = base64_fill 4 0 quad input
           in (if len \<noteq> 0 then take (len - 1) (DecodeBASE64Block quad') else [])
                @ decode_base64 quad' input')"
  by pat_completeness auto
termination
  by (relation "measure (length \<circ> snd)")
     (use base64_fill4_progress in \<open>auto, metis snd_conv\<close>)

declare decode_base64.simps [simp del]

text \<open>The array \<^verbatim>\<open>in\<close> of the C function starts uninitialised; its cells are written before they
  are used, so any start value does.\<close>

definition DecodeBASE64 :: "byte list \<Rightarrow> byte list" where
  "DecodeBASE64 Input = decode_base64 [0, 0, 0, 0] Input"

subsection \<open>Round trips\<close>

lemma hex_digit_byte:
  "DecodeWithHexBinAlphabet (EncodeWithHexBinAlphabet (uint (drop_bit 4 c))) = uint (drop_bit 4 c)
   \<and> DecodeWithHexBinAlphabet (EncodeWithHexBinAlphabet (uint (c AND 0xF))) = uint (c AND 0xF)
   \<and> (word_of_int (push_bit 4 (uint (drop_bit 4 c)) OR uint (c AND 0xF)) :: byte) = c
   \<and> (word_of_int (push_bit 4 (uint (drop_bit 4 c)) + uint (c AND 0xF)) :: byte) = c"
  by (rule all_byte [where b=c])
     (simp add: all_bytes_list DecodeWithHexBinAlphabet_def EncodeWithHexBinAlphabet_def)

lemmas hex_digit_simps = hex_digit_byte [THEN conjunct1] hex_digit_byte [THEN conjunct2, THEN conjunct1]
  hex_digit_byte [THEN conjunct2, THEN conjunct2, THEN conjunct1]
  hex_digit_byte [THEN conjunct2, THEN conjunct2, THEN conjunct2]

lemma decode_encode_hex: "DecodeHexBin (EncodeHexBin bs) = Some bs"
  by (induction bs) (simp_all add: hex_digit_simps Let_def not_less)

text \<open>A hexadecimal digit, and its upper case.\<close>

definition hex_upper :: "byte \<Rightarrow> byte" where
  "hex_upper c = (if 0x61 \<le> c \<and> c \<le> 0x66 then c - 0x20 else c)"

lemma hex_value_byte:
  "0 \<le> DecodeWithHexBinAlphabet c \<longrightarrow>
   EncodeWithHexBinAlphabet (DecodeWithHexBinAlphabet c) = hex_upper c \<and> DecodeWithHexBinAlphabet c < 16"
  by (rule all_byte [where b=c])
     (simp add: all_bytes_list DecodeWithHexBinAlphabet_def EncodeWithHexBinAlphabet_def hex_upper_def)

lemma hex_join:
  assumes "0 \<le> h" "h < 16" "0 \<le> l" "l < (16 :: int)"
  shows "uint (drop_bit 4 (word_of_int (push_bit 4 h OR l) :: byte)) = h
    \<and> uint ((word_of_int (push_bit 4 h OR l) :: byte) AND 0xF) = l"
proof -
  have "h \<in> {0..<16}" "l \<in> {0..<16}" using assms by auto
  then have "h \<in> set [0..15]" "l \<in> set [0..15]" by auto
  moreover have "\<forall>h \<in> set [0..15]. \<forall>l \<in> set [0..15]. uint (drop_bit 4 (word_of_int (push_bit 4 h OR l) :: byte)) = h
    \<and> uint ((word_of_int (push_bit 4 h OR l) :: byte) AND 0xF) = l"
    by (simp add: upto_rec1)
  ultimately show ?thesis by blast
qed

lemma encode_decode_hex:
  "DecodeHexBin hs = Some bs \<Longrightarrow> even (length hs) \<Longrightarrow> EncodeHexBin bs = map hex_upper hs"
proof (induction hs arbitrary: bs rule: DecodeHexBin.induct)
  case (1 c0 c1 src)
  define h l where "h = DecodeWithHexBinAlphabet c0" and "l = DecodeWithHexBinAlphabet c1"
  from 1 obtain bs' where b: "\<not> l < 0" "\<not> h < 0" "DecodeHexBin src = Some bs'"
    "bs = word_of_int (push_bit 4 h OR l) # bs'"
    by (auto simp: h_def l_def Let_def split: if_splits)
  then have "EncodeHexBin bs' = map hex_upper src" using 1 by (auto simp: h_def l_def)
  moreover have "h < 16" "l < 16" "EncodeWithHexBinAlphabet h = hex_upper c0"
    "EncodeWithHexBinAlphabet l = hex_upper c1"
    using hex_value_byte [of c0] hex_value_byte [of c1] b by (auto simp: h_def l_def)
  ultimately show ?case using b hex_join [of h l] by simp
qed auto

interpretation hexbin: codec EncodeHexBin DecodeHexBin "\<lambda>_. True"
  by unfold_locales (rule decode_encode_hex)

lemma decode_encode_hex_unicode: "DecodeHexUnicode (EncodeHexUnicode us) = Some us"
  unfolding EncodeHexUnicode_def
  by (induction us) (simp_all add: hex_digit_simps Let_def not_less del: of_int_add)

lemma decode_encode_bcd_value:
  "0 \<le> v \<Longrightarrow> v < 100 \<Longrightarrow> int (DecodeWithBCDAlphabet (EncodeWithBCDAlphabet v)) = v"
proof -
  assume "0 \<le> v" "v < 100"
  then have "v \<in> set [0..99]" by simp
  moreover have "\<forall>v \<in> set [0..99]. int (DecodeWithBCDAlphabet (EncodeWithBCDAlphabet v)) = v"
    by code_simp
  ultimately show ?thesis by blast
qed

definition bcd_char :: "byte \<Rightarrow> bool" where
  "bcd_char d = (0x30 \<le> d \<and> d \<le> 0x39)"

lemma bcd_char_cases:
  "bcd_char d \<Longrightarrow> d \<in> set [0x30, 0x31, 0x32, 0x33, 0x34, 0x35, 0x36, 0x37, 0x38, 0x39]"
proof -
  have "bcd_char d \<longrightarrow> d \<in> set [0x30, 0x31, 0x32, 0x33, 0x34, 0x35, 0x36, 0x37, 0x38, 0x39]"
    by (rule all_byte [where b=d]) (simp add: all_bytes_list bcd_char_def word_le_nat_alt)
  then show "bcd_char d \<Longrightarrow> d \<in> set [0x30, 0x31, 0x32, 0x33, 0x34, 0x35, 0x36, 0x37, 0x38, 0x39]" by blast
qed

lemma bcd_pair:
  assumes "bcd_char a" "bcd_char b"
  shows "bcd_digit (((a - 0x30) OR push_bit 4 (b - 0x30)) AND 0x0f) = [a]
    \<and> bcd_digit (drop_bit 4 ((a - 0x30) OR push_bit 4 (b - 0x30))) = [b]"
proof -
  have "\<forall>a \<in> set [0x30, 0x31, 0x32, 0x33, 0x34, 0x35, 0x36, 0x37, 0x38, 0x39].
    \<forall>b \<in> set [0x30, 0x31, 0x32, 0x33, 0x34, 0x35, 0x36, 0x37, 0x38, 0x39].
     bcd_digit (((a - 0x30) OR push_bit 4 (b - 0x30)) AND 0x0f) = [a]
    \<and> bcd_digit (drop_bit 4 ((a - 0x30) OR push_bit 4 (b - 0x30))) = [b]"
    by (simp add: bcd_digit_def)
  then show ?thesis using bcd_char_cases [OF assms(1)] bcd_char_cases [OF assms(2)] by blast
qed

lemma bcd_fill:
  assumes "bcd_char a"
  shows "bcd_digit (((a - 0x30) OR 0xf0) AND 0x0f) = [a]
    \<and> bcd_digit (drop_bit 4 ((a - 0x30) OR 0xf0)) = []
    \<and> bcd_digit ((a - 0x30) AND 0x0f) = [a] \<and> bcd_digit (drop_bit 4 (a - 0x30)) = [0x30]"
proof -
  have "\<forall>a \<in> set [0x30, 0x31, 0x32, 0x33, 0x34, 0x35, 0x36, 0x37, 0x38, 0x39].
    bcd_digit (((a - 0x30) OR 0xf0) AND 0x0f) = [a]
    \<and> bcd_digit (drop_bit 4 ((a - 0x30) OR 0xf0)) = []
    \<and> bcd_digit ((a - 0x30) AND 0x0f) = [a] \<and> bcd_digit (drop_bit 4 (a - 0x30)) = [0x30]"
    by (simp add: bcd_digit_def)
  then show ?thesis using bcd_char_cases [OF assms] by blast
qed

lemma decode_encode_bcd: "\<forall>d \<in> set ds. bcd_char d \<Longrightarrow> DecodeBCD (EncodeBCD ds True) = ds"
  by (induction ds "True" rule: EncodeBCD.induct) (simp_all add: bcd_pair bcd_fill del: drop_bit_or push_bit_or)

lemma length_EncodeBCD: "length (EncodeBCD ds fill) = (length ds + 1) div 2"
  by (induction ds fill rule: EncodeBCD.induct) auto

subsection \<open>Base 64\<close>

lemma base64_next_char:
  assumes "unat x < 64"
  shows "base64_next (cb64 ! unat x # input) = (x + 1, input) \<and> x + 1 \<noteq> 0"
proof -
  have "map base64_value cb64 = map (\<lambda>s. word_of_nat s + 1) [0..<64]"
    by (simp add: cb64_def base64_value_def cd64_def upt_rec)
  then have "base64_value (cb64 ! s) = word_of_nat s + 1" if "s < 64" for s
  proof -
    have "length cb64 = 64" by (simp add: cb64_def)
    then show ?thesis using \<open>map base64_value cb64 = _\<close> that by (metis (no_types, lifting) nth_map nth_upt length_upt add_0 diff_zero)
  qed
  from this [OF assms] have v: "base64_value (cb64 ! unat x) = x + 1" by simp
  have "x + 1 \<noteq> 0"
  proof
    assume "x + 1 = 0"
    then have "x = 255" by (simp add: eq_neg_iff_add_eq_0 [symmetric])
    with assms show False by simp
  qed
  with v show ?thesis by (simp add: Let_def)
qed

lemma base64_pad: "base64_next (0x3D # input) = base64_next input"
proof -
  have "base64_value 0x3D = 0" by code_simp
  then show ?thesis by (simp add: Let_def)
qed

lemma base64_masks:
  "b AND 0x03 = take_bit 2 b" "b AND 0x0f = take_bit 4 b" "b AND 0x3f = take_bit 6 (b :: byte)"
  unfolding take_bit_eq_mask and_mask_numeral by (rule refl)+

lemma base64_high: "drop_bit 4 (b AND 0xf0) = drop_bit 4 b \<and> drop_bit 6 (b AND 0xc0) = drop_bit 6 (b :: byte)
   \<and> push_bit 6 b AND 0xc0 = push_bit 6 b"
  by (rule all_byte [where b=b]) (simp add: all_bytes_list)

lemma sextets:
  fixes a b c :: byte
  shows "unat (drop_bit 2 a) < 64"
    "unat (push_bit 4 (take_bit 2 a) OR drop_bit 4 b) < 64"
    "unat (push_bit 2 (take_bit 4 b) OR drop_bit 6 c) < 64"
    "unat (take_bit 6 c) < 64"
proof -
  have lt: "unat x < 64" if "x = take_bit 6 x" for x :: byte
  proof -
    have "unat (take_bit 6 x) = take_bit 6 (unat x)" by (rule unsigned_take_bit_eq)
    also have "\<dots> < 2 ^ 6" by (rule take_bit_nat_less_exp)
    finally show ?thesis using that by simp
  qed
  show "unat (drop_bit 2 a) < 64" "unat (push_bit 4 (take_bit 2 a) OR drop_bit 4 b) < 64"
    "unat (push_bit 2 (take_bit 4 b) OR drop_bit 6 c) < 64" "unat (take_bit 6 c) < 64"
    by (intro lt bit_eqI; auto simp: bit_simps dest: bit_imp_le_length)+
qed

lemma octets:
  fixes a b c :: byte
  shows "push_bit 2 (drop_bit 2 a) OR drop_bit 4 (push_bit 4 (take_bit 2 a) OR drop_bit 4 b) = a"
    "push_bit 4 (push_bit 4 (take_bit 2 a) OR drop_bit 4 b) OR drop_bit 2 (push_bit 2 (take_bit 4 b) OR drop_bit 6 c) = b"
    "push_bit 6 (push_bit 2 (take_bit 4 b) OR drop_bit 6 c) OR take_bit 6 c = c"
  by (rule byte_eqI; simp add: bit_simps)+
lemma base64_chars:
  "unat x < 64 \<Longrightarrow> base64_next (cb64 ! unat x # input) = (x + 1, input)"
  "unat x < 64 \<Longrightarrow> x + 1 \<noteq> 0"
  using base64_next_char by blast+

lemma base64_fill_char:
  "unat x < 64 \<Longrightarrow>
     base64_fill (Suc k) len quad (cb64 ! unat x # input) = base64_fill k (len + 1) (quad[3 - k := x]) input"
  by (simp add: base64_chars del: base64_next.simps(2))

lemma base64_fill_end: "base64_fill k len quad [] = (len, quad, [])"
  by (induction k) auto

lemma base64_fill_pad:
  "base64_fill (Suc k) len quad [0x3D] = (len, quad, [])"
  "base64_fill (Suc (Suc k)) len quad [0x3D, 0x3D] = (len, quad, [])"
  by (simp_all add: base64_pad base64_fill_end del: base64_next.simps(2))

lemma decode_block3:
  assumes "length quad = 4" and c: "unat s0 < 64" "unat s1 < 64" "unat s2 < 64" "unat s3 < 64"
  shows "decode_base64 quad (cb64 ! unat s0 # cb64 ! unat s1 # cb64 ! unat s2 # cb64 ! unat s3 # rest)
    = DecodeBASE64Block [s0, s1, s2, s3] @ decode_base64 [s0, s1, s2, s3] rest"
proof -
  from assms(1) obtain q0 q1 q2 q3 where q: "quad = [q0, q1, q2, q3]"
    by (auto simp: numeral_eq_Suc length_Suc_conv)
  have "base64_fill (Suc (Suc (Suc (Suc 0)))) 0 quad
      (cb64 ! unat s0 # cb64 ! unat s1 # cb64 ! unat s2 # cb64 ! unat s3 # rest) = (4, [s0, s1, s2, s3], rest)"
    unfolding base64_fill_char [OF c(1)] base64_fill_char [OF c(2)] base64_fill_char [OF c(3)] base64_fill_char [OF c(4)]
    by (simp add: q numeral_eq_Suc)
  then have "base64_fill 4 0 quad
      (cb64 ! unat s0 # cb64 ! unat s1 # cb64 ! unat s2 # cb64 ! unat s3 # rest) = (4, [s0, s1, s2, s3], rest)"
    by (simp only: numeral_eq_Suc pred_numeral_simps BitM.simps numeral_One One_nat_def)
  then show ?thesis by (subst decode_base64.simps) (simp add: DecodeBASE64Block_def)
qed

lemma decode_block2:
  assumes "length quad = 4" and c: "unat s0 < 64" "unat s1 < 64" "unat s2 < 64"
  shows "decode_base64 quad [cb64 ! unat s0, cb64 ! unat s1, cb64 ! unat s2, 0x3D]
    = take 2 (DecodeBASE64Block [s0, s1, s2, quad ! 3])"
proof -
  from assms(1) obtain q0 q1 q2 q3 where q: "quad = [q0, q1, q2, q3]"
    by (auto simp: numeral_eq_Suc length_Suc_conv)
  have "base64_fill (Suc (Suc (Suc (Suc 0)))) 0 quad
      [cb64 ! unat s0, cb64 ! unat s1, cb64 ! unat s2, 0x3D] = (3, [s0, s1, s2, q3], [])"
    unfolding base64_fill_char [OF c(1)] base64_fill_char [OF c(2)] base64_fill_char [OF c(3)] base64_fill_pad
    by (simp add: q numeral_eq_Suc)
  then have "base64_fill 4 0 quad
      [cb64 ! unat s0, cb64 ! unat s1, cb64 ! unat s2, 0x3D] = (3, [s0, s1, s2, q3], [])"
    by (simp only: numeral_eq_Suc pred_numeral_simps BitM.simps numeral_One One_nat_def)
  then show ?thesis by (subst decode_base64.simps) (simp add: DecodeBASE64Block_def q decode_base64.simps [of _ "[]"])
qed

lemma decode_block1:
  assumes "length quad = 4" and c: "unat s0 < 64" "unat s1 < 64"
  shows "decode_base64 quad [cb64 ! unat s0, cb64 ! unat s1, 0x3D, 0x3D]
    = take 1 (DecodeBASE64Block [s0, s1, quad ! 2, quad ! 3])"
proof -
  from assms(1) obtain q0 q1 q2 q3 where q: "quad = [q0, q1, q2, q3]"
    by (auto simp: numeral_eq_Suc length_Suc_conv)
  have "base64_fill (Suc (Suc (Suc (Suc 0)))) 0 quad
      [cb64 ! unat s0, cb64 ! unat s1, 0x3D, 0x3D] = (2, [s0, s1, q2, q3], [])"
    unfolding base64_fill_char [OF c(1)] base64_fill_char [OF c(2)] base64_fill_pad
    by (simp add: q numeral_eq_Suc)
  then have "base64_fill 4 0 quad
      [cb64 ! unat s0, cb64 ! unat s1, 0x3D, 0x3D] = (2, [s0, s1, q2, q3], [])"
    by (simp only: numeral_eq_Suc pred_numeral_simps BitM.simps numeral_One One_nat_def)
  then show ?thesis by (subst decode_base64.simps) (simp add: DecodeBASE64Block_def q decode_base64.simps [of _ "[]"])
qed

lemmas base64_block_simps = EncodeBASE64Block_def base64_masks
  base64_high [THEN conjunct1] base64_high [THEN conjunct2, THEN conjunct1]
  base64_high [THEN conjunct2, THEN conjunct2]

lemma decode_encode_base64: "length quad = 4 \<Longrightarrow> decode_base64 quad (EncodeBASE64 bs) = bs"
proof (induction bs arbitrary: quad rule: EncodeBASE64.induct)
  case 1
  then show ?case by (simp add: decode_base64.simps)
next
  case (2 a)
  show ?case
    using decode_block1 [OF 2 sextets(1) [of a] sextets(2) [of a 0]] octets(1) [of a 0]
    by (simp only: EncodeBASE64.simps base64_block_simps) (simp add: DecodeBASE64Block_def)
next
  case (3 a b)
  show ?case
    using decode_block2 [OF 3 sextets(1) [of a] sextets(2) [of a b] sextets(3) [of b 0]]
      octets(1) [of a b] octets(2) [of a b 0]
    by (simp only: EncodeBASE64.simps base64_block_simps) (simp add: DecodeBASE64Block_def)
next
  case (4 a b c src)
  have IH: "decode_base64 [drop_bit 2 a, push_bit 4 (take_bit 2 a) OR drop_bit 4 b,
      push_bit 2 (take_bit 4 b) OR drop_bit 6 c, take_bit 6 c] (EncodeBASE64 src) = src"
    by (rule 4(1)) simp
  have d: "DecodeBASE64Block [drop_bit 2 a, push_bit 4 (take_bit 2 a) OR drop_bit 4 b,
      push_bit 2 (take_bit 4 b) OR drop_bit 6 c, take_bit 6 c] = [a, b, c]"
    using octets(1) [of a b] octets(2) [of a b c] octets(3) [of b c]
    by (simp only: DecodeBASE64Block_def base64_block_simps nth_Cons_0 nth_Cons_Suc numeral_2_eq_2 numeral_3_eq_3 One_nat_def)
  have e: "EncodeBASE64 (a # b # c # src) = cb64 ! unat (drop_bit 2 a) # cb64 ! unat (push_bit 4 (take_bit 2 a) OR drop_bit 4 b)
      # cb64 ! unat (push_bit 2 (take_bit 4 b) OR drop_bit 6 c) # cb64 ! unat (take_bit 6 c) # EncodeBASE64 src"
    by (simp only: EncodeBASE64.simps base64_block_simps) simp
  show ?case
    unfolding e decode_block3 [OF 4(2) sextets(1) [of a] sextets(2) [of a b] sextets(3) [of b c] sextets(4) [of c]]
    by (simp only: d IH append_Cons append_Nil)
qed

lemma length_EncodeBASE64: "length (EncodeBASE64 bs) = 4 * ((length bs + 2) div 3)"
proof (induction bs rule: EncodeBASE64.induct)
  case (4 a b c src)
  have "(length src + 5) div 3 = (length src + 2) div 3 + 1" by presburger
  with 4 show ?case by (simp add: EncodeBASE64Block_def add.commute)
qed (simp_all add: EncodeBASE64Block_def)

interpretation base64: codec EncodeBASE64 "\<lambda>s. Some (DecodeBASE64 s)" "\<lambda>_. True"
  by unfold_locales (simp add: DecodeBASE64_def decode_encode_base64)

subsection \<open>Properties\<close>

text \<open>
  Hexadecimal text decodes to the bytes and to the UCS-2 units it was made from, and a
  text of even length that decodes is, up to the case of its digits, the encoding of the result.
\<close>

theorem hexbin_roundtrip:
  "DecodeHexBin (EncodeHexBin bs) = Some bs \<and> DecodeHexUnicode (EncodeHexUnicode us) = Some us
   \<and> (DecodeHexBin hs = Some bs \<and> even (length hs) \<longrightarrow> EncodeHexBin bs = map hex_upper hs)"
  using decode_encode_hex decode_encode_hex_unicode encode_decode_hex by blast

theorem hexbin_roundtrip_witness: "EncodeHexBin [0x3A, 0xFF] = map hex_upper (bytes_of ''3aFf'')"
proof -
  have "DecodeHexBin (bytes_of ''3aFf'') = Some [0x3A, 0xFF] \<and> even (length (bytes_of ''3aFf''))"
    by (simp add: DecodeWithHexBinAlphabet_def)
  then show ?thesis using hexbin_roundtrip [of "[0x3A, 0xFF]" "[]" "bytes_of ''3aFf''"] by blast
qed

text \<open>
  Base 64 text of any byte list, padding included, decodes to that list, and has four
  characters for every started group of three bytes.
\<close>

theorem base64_roundtrip:
  "DecodeBASE64 (EncodeBASE64 bs) = bs \<and> length (EncodeBASE64 bs) = 4 * ((length bs + 2) div 3)"
  by (simp add: DecodeBASE64_def decode_encode_base64 length_EncodeBASE64)

text \<open>
  A number of decimal digits, filled to whole octets, is read back from its BCD form,
  also when the count of digits is odd, and takes one octet for every started pair of digits.
\<close>

theorem bcd_roundtrip:
  assumes "\<forall>d \<in> set ds. bcd_char d"
  shows "DecodeBCD (EncodeBCD ds True) = ds \<and> length (EncodeBCD ds fill) = (length ds + 1) div 2"
  using decode_encode_bcd [OF assms] length_EncodeBCD by blast

theorem bcd_roundtrip_witness:
  "DecodeBCD (EncodeBCD (bytes_of ''12345'') True) = bytes_of ''12345''"
  using bcd_roundtrip [of "bytes_of ''12345''"] by (simp add: bcd_char_def word_le_nat_alt)

end
