(* ===== verification/Septets.thy ===== *)
theory Septets imports Prelude begin

text \<open>
  Packing 7-bit characters into octets and unpacking them (GSM 03.38), from
  \<^verbatim>\<open>libgammu/misc/coding/coding.c\<close>. \<open>offset\<close> is the number of fill bits that align the text
  to a septet boundary behind a user data header. The results are the cells before
  \<^verbatim>\<open>output_pos\<close>, whose number the C functions return.
\<close>

subsection \<open>Operations\<close>

text \<open>
  \<open>first\<close> is \<^verbatim>\<open>input_pos == input\<close>, \<open>out\<close> the cells before \<^verbatim>\<open>output_pos\<close>. The cell written in
  the first round of an offset is not kept, as \<^verbatim>\<open>output_pos\<close> does not move.
\<close>

fun unpack :: "nat \<Rightarrow> bool \<Rightarrow> nat \<Rightarrow> byte \<Rightarrow> byte list \<Rightarrow> byte list \<Rightarrow> byte list" where
  "unpack out_length first Bits Rest out [] = out"
| "unpack out_length first Bits Rest out (c # input) =
     (if length out \<ge> out_length then out
      else let v = push_bit (7 - Bits) (c AND mask Bits) OR Rest;
               Rest' = drop_bit Bits c;
               out' = (if \<not> first \<or> Bits = 7 then out @ [v] else out)
           in if length out' \<ge> out_length then out'
              else if Bits = 1 then unpack out_length False 7 0 (out' @ [Rest']) input
              else unpack out_length False (Bits - 1) Rest' out' input)"

definition GSM_UnpackEightBitsToSeven :: "nat \<Rightarrow> nat \<Rightarrow> nat \<Rightarrow> byte list \<Rightarrow> byte list" where
  "GSM_UnpackEightBitsToSeven offset in_length out_length input =
     unpack out_length True (if offset \<noteq> 0 then offset else 7) 0 [] (take in_length input)"

text \<open>
  \<open>Bits\<close> is the number of the C loop; at -1 it starts again at 7 and \<^verbatim>\<open>output_pos\<close> stays, so the
  cell just written is overwritten by the next character.
\<close>

fun pack :: "nat \<Rightarrow> byte list \<Rightarrow> byte list \<Rightarrow> byte list" where
  "pack Bits out [] = out"
| "pack Bits out (Byte # input) =
     (let cur = drop_bit (7 - Bits) Byte;
          out' = (if Bits \<noteq> 7
                  then out[length out - 1 :=
                         out ! (length out - 1) OR push_bit (Bits + 1) (Byte AND mask (7 - Bits))]
                  else out)
      in if Bits = 0 then pack 7 out' input else pack (Bits - 1) (out' @ [cur]) input)"

definition GSM_PackSevenBitsToEight :: "nat \<Rightarrow> byte list \<Rightarrow> nat \<Rightarrow> byte list" where
  "GSM_PackSevenBitsToEight offset input len =
     pack ((7 + offset) mod 8) (if offset \<noteq> 0 then [0] else []) (take len input)"

subsection \<open>Bit streams\<close>

text \<open>The low \<open>n\<close> bits of a byte, least significant first, and the octets and septets as streams.\<close>

definition low_bits :: "nat \<Rightarrow> byte \<Rightarrow> bool list" where
  "low_bits n w = map (bit w) [0..<n]"

definition octet_stream :: "byte list \<Rightarrow> bool list" where
  "octet_stream bs = concat (map (low_bits 8) bs)"

definition septet_stream :: "byte list \<Rightarrow> bool list" where
  "septet_stream bs = concat (map (low_bits 7) bs)"

fun septets_of :: "bool list \<Rightarrow> byte list" where
  "septets_of (a # b # c # d # e # f # g # bs) =
     horner_sum of_bool 2 [a, b, c, d, e, f, g] # septets_of bs"
| "septets_of _ = []"

lemma length_low_bits [simp]: "length (low_bits n w) = n"
  by (simp add: low_bits_def)

lemma nth_low_bits [simp]: "i < n \<Longrightarrow> low_bits n w ! i = bit w i"
  by (simp add: low_bits_def)

lemma length_octet_stream [simp]: "length (octet_stream bs) = 8 * length bs"
  by (induction bs) (auto simp: octet_stream_def)

lemma length_septet_stream [simp]: "length (septet_stream bs) = 7 * length bs"
  by (induction bs) (auto simp: septet_stream_def)

lemma stream_simps [simp]:
  "octet_stream [] = []" "octet_stream (b # bs) = low_bits 8 b @ octet_stream bs"
  "octet_stream (xs @ ys) = octet_stream xs @ octet_stream ys"
  "septet_stream [] = []" "septet_stream (b # bs) = low_bits 7 b @ septet_stream bs"
  by (simp_all add: octet_stream_def septet_stream_def)

lemma septets_of_chunk:
  assumes "length xs = 7"
  shows "septets_of (xs @ bs) = horner_sum of_bool 2 xs # septets_of bs"
proof -
  obtain a b c d e f g where "xs = [a, b, c, d, e, f, g]"
    using assms by (auto simp: numeral_eq_Suc length_Suc_conv)
  then show ?thesis by simp
qed

lemma septets_of_short: "length bs < 7 \<Longrightarrow> septets_of bs = []"
  by (induction bs rule: septets_of.induct) auto

lemma horner_low_bits: "horner_sum of_bool 2 (low_bits n w) = take_bit n w"
  unfolding low_bits_def by (rule horner_sum_bit_eq_take_bit)

lemma low_bits_split: "m \<le> n \<Longrightarrow> low_bits n w = low_bits m w @ low_bits (n - m) (drop_bit m w)"
  by (rule nth_equalityI) (auto simp: nth_append bit_drop_bit_eq low_bits_def)

lemma septet_take: "s < 128 \<longleftrightarrow> take_bit 7 s = (s :: byte)"
  by (rule all_byte [where b=s]) (simp add: all_bytes_list)

lemma septets_of_septet_stream:
  "\<forall>s \<in> set ss. s < 128 \<Longrightarrow> septets_of (septet_stream ss @ bs) = ss @ septets_of bs"
  by (induction ss) (simp_all add: septets_of_chunk horner_low_bits septet_take)

subsection \<open>Unpacking reads the septets of the stream\<close>

lemma push_or_add:
  assumes "take_bit k r = (r :: byte)"
  shows "push_bit k x OR r = r + 2 ^ k * x"
proof -
  have "push_bit k x OR r = push_bit k x + r"
  proof (rule disjunctive_add [symmetric])
    fix n
    have "bit r n \<Longrightarrow> n < k" using assms by (metis bit_take_bit_iff)
    then show "\<not> bit (push_bit k x) n \<or> \<not> bit r n" by (auto simp: bit_push_bit_iff)
  qed
  then show ?thesis by (simp only: push_bit_eq_mult add.commute mult.commute)
qed

lemma septet_value:
  assumes "take_bit k r = r"
  shows "horner_sum of_bool 2 (low_bits k r @ low_bits n c) = push_bit k (c AND mask n) OR r"
  unfolding push_or_add [OF assms] take_bit_eq_mask [symmetric]
  by (simp add: horner_sum_append horner_low_bits assms)

lemma drop_low: "n \<le> 8 \<Longrightarrow> take_bit (8 - n) (drop_bit n c) = drop_bit n (c :: byte)"
  by (rule bit_eqI) (auto simp: bit_simps dest: bit_imp_le_length)

lemma unpack_stream:
  assumes "1 \<le> Bits" "Bits \<le> 7" "length out \<le> out_length" "take_bit (7 - Bits) Rest = Rest"
  shows "unpack out_length False Bits Rest out input
    = take out_length (out @ septets_of (low_bits (7 - Bits) Rest @ octet_stream input))"
  using assms
proof (induction input arbitrary: Bits Rest out)
  case Nil
  then show ?case by (simp add: septets_of_short)
next
  case (Cons c input)
  let ?v = "push_bit (7 - Bits) (c AND mask Bits) OR Rest"
  let ?R = "drop_bit Bits c"
  have "septets_of (low_bits (7 - Bits) Rest @ octet_stream (c # input))
    = septets_of ((low_bits (7 - Bits) Rest @ low_bits Bits c) @ low_bits (8 - Bits) ?R @ octet_stream input)"
    using Cons.prems low_bits_split [of Bits 8 c] by simp
  also have "\<dots> = ?v # septets_of (low_bits (8 - Bits) ?R @ octet_stream input)"
    using Cons.prems by (subst septets_of_chunk) (simp_all add: septet_value)
  finally have s: "septets_of (low_bits (7 - Bits) Rest @ octet_stream (c # input))
    = ?v # septets_of (low_bits (8 - Bits) ?R @ octet_stream input)" .
  have R: "take_bit (8 - Bits) ?R = ?R" using Cons.prems by (intro drop_low) simp
  show ?case
  proof (cases "length out + 1 < out_length")
    case True
    show ?thesis
    proof (cases "Bits = 1")
      case True
      have "septets_of (low_bits 7 ?R @ octet_stream input) = ?R # septets_of (octet_stream input)"
        using R True by (subst septets_of_chunk) (simp_all add: horner_low_bits)
      with True s \<open>length out + 1 < out_length\<close> show ?thesis
        using Cons.IH [of 7 "out @ [?v] @ [?R]" 0] by (simp add: low_bits_def Let_def)
    next
      case False
      then have "7 - (Bits - 1) = 8 - Bits" using Cons.prems by simp
      then show ?thesis
        using False s Cons.IH [of "Bits - 1" "out @ [?v]" ?R] R Cons.prems True by (simp add: Let_def)
    qed
  next
    case False
    then consider "length out = out_length" | "out_length = Suc (length out)"
      using Cons.prems by linarith
    then show ?thesis by cases (use s in \<open>simp_all add: Let_def\<close>)
  qed
qed

lemma unpack_first:
  assumes "offset \<le> 6"
  shows "GSM_UnpackEightBitsToSeven offset in_length out_length input
    = take out_length (septets_of (drop offset (octet_stream (take in_length input))))"
proof (cases "take in_length input")
  case Nil
  show ?thesis unfolding GSM_UnpackEightBitsToSeven_def Nil by simp
next
  case (Cons c rest)
  show ?thesis
  proof (cases "offset = 0")
    case True
    have "unpack out_length True 7 0 [] (c # rest) = unpack out_length False 7 0 [] (c # rest)" by simp
    with True Cons show ?thesis
      using unpack_stream [of 7 "[]" out_length 0 "c # rest"]
      by (simp add: GSM_UnpackEightBitsToSeven_def low_bits_def)
  next
    case False
    have R: "take_bit (8 - offset) (drop_bit offset c) = drop_bit offset c" using assms by (intro drop_low) simp
    have d: "drop offset (octet_stream (c # rest)) = low_bits (8 - offset) (drop_bit offset c) @ octet_stream rest"
      using assms low_bits_split [of offset 8 c] by simp
    show ?thesis
    proof (cases "offset = 1 \<or> out_length = 0")
      case True
      have "septets_of (low_bits 7 (drop_bit 1 c) @ octet_stream rest) = drop_bit 1 c # septets_of (octet_stream rest)"
        using drop_low [of 1 c] by (subst septets_of_chunk) (simp_all add: horner_low_bits)
      with True False Cons d show ?thesis
        using unpack_stream [of 7 "[drop_bit 1 c]" out_length 0 rest]
        by (auto simp: GSM_UnpackEightBitsToSeven_def low_bits_def Let_def simp del: septets_of.simps)
    next
      case f: False
      then have "7 - (offset - 1) = 8 - offset" "1 \<le> offset - 1" using assms False by auto
      with f False assms Cons d R show ?thesis
        using unpack_stream [of "offset - 1" "[]" out_length "drop_bit offset c" rest]
        by (simp add: GSM_UnpackEightBitsToSeven_def Let_def)
    qed
  qed
qed

subsection \<open>Packing writes the septets of the text to the stream\<close>

text \<open>
  What the loop has written: \<open>S\<close> is the stream so far; for \<open>Bits\<close> below 7 the last cell holds its
  end in the low \<open>Bits + 1\<close> bits and is zero above.
\<close>

definition packed :: "nat \<Rightarrow> byte list \<Rightarrow> bool list \<Rightarrow> bool" where
  "packed Bits out S =
     (if Bits = 7 then octet_stream out = S
      else Bits < 7 \<and> out \<noteq> [] \<and> S = octet_stream (butlast out) @ low_bits (Bits + 1) (last out)
           \<and> take_bit (Bits + 1) (last out) = last out)"

lemma low_bits_zero: "take_bit n w = w \<Longrightarrow> n \<le> m \<Longrightarrow> low_bits m w = low_bits n w @ replicate (m - n) False"
proof -
  assume "take_bit n w = w"
  then have "\<not> bit w i" if "n \<le> i" for i using that by (metis bit_take_bit_iff not_less)
  moreover assume "n \<le> m"
  ultimately show ?thesis by (intro nth_equalityI) (auto simp: nth_append)
qed

lemma packed_end:
  assumes "packed Bits out S"
  shows "\<exists>pad < 8. octet_stream out = S @ replicate pad False"
proof (cases "Bits = 7")
  case True
  with assms show ?thesis by (auto simp: packed_def intro: exI [of _ 0])
next
  case False
  have "octet_stream out = octet_stream (butlast out) @ low_bits 8 (last out)"
    using assms False by (metis packed_def append_butlast_last_id stream_simps(1,2,3) append_Nil2)
  with False assms low_bits_zero [of "Bits + 1" "last out" 8] show ?thesis
    by (auto simp: packed_def intro!: exI [of _ "7 - Bits"])
qed

lemma merged_cell:
  assumes "k \<le> 7" "take_bit k x = x"
  shows "low_bits 8 (x OR push_bit k (c AND mask (8 - k))) = low_bits k x @ low_bits (8 - k) c"
proof -
  have x: "\<not> bit x i" if "k \<le> i" for i
    using assms(2) that by (metis bit_take_bit_iff not_less)
  show ?thesis unfolding take_bit_eq_mask [symmetric]
    by (rule nth_equalityI) (use assms(1) x in \<open>auto simp: nth_append bit_simps not_less\<close>)
qed

lemma pack_stream:
  assumes "packed Bits out S" "\<forall>s \<in> set input. s < 128"
  shows "\<exists>pad < 8. octet_stream (pack Bits out input) = S @ septet_stream input @ replicate pad False"
  using assms
proof (induction input arbitrary: Bits out S)
  case Nil
  then show ?case using packed_end by simp
next
  case (Cons c input)
  have c: "take_bit 7 c = c" using Cons.prems(2) by (simp add: septet_take)
  have step: ?case if "packed B' out' (S @ low_bits 7 c)" "pack Bits out (c # input) = pack B' out' input" for B' out'
    using Cons.IH [OF that(1)] Cons.prems(2) that(2) by simp
  show ?case
  proof (cases "Bits = 7")
    case True
    with Cons.prems(1) c show ?thesis
      by (intro step [of 6 "out @ [c]"]) (simp_all add: packed_def Let_def)
  next
    case False
    define y x where "y = butlast out" and "x = last out"
    with False Cons.prems(1) have B: "Bits < 7" "out = y @ [x]" "S = octet_stream y @ low_bits (Bits + 1) x"
      "take_bit (Bits + 1) x = x" by (auto simp: packed_def)
    define x' cur where "x' = x OR push_bit (Bits + 1) (c AND mask (7 - Bits))" and "cur = drop_bit (7 - Bits) c"
    have m: "low_bits 8 x' = low_bits (Bits + 1) x @ low_bits (7 - Bits) c"
      unfolding x'_def using merged_cell [of "Bits + 1" x c] B(1,4) by simp
    have l: "low_bits 7 c = low_bits (7 - Bits) c @ low_bits Bits cur"
      using low_bits_split [of "7 - Bits" 7 c] B(1) by (simp add: cur_def)
    have p: "pack Bits out (c # input) = (if Bits = 0 then pack 7 (y @ [x']) input else pack (Bits - 1) (y @ [x'] @ [cur]) input)"
      using B False by (simp add: x'_def cur_def Let_def)
    show ?thesis
    proof (cases "Bits = 0")
      case True
      show ?thesis by (rule step [of 7 "y @ [x']"]) (use True B m p in \<open>simp_all add: packed_def\<close>)
    next
      case f: False
      have "take_bit Bits cur = cur" unfolding cur_def using B(1)
        by (subst c [symmetric]) (rule bit_eqI, auto simp: bit_simps)
      moreover have "Bits - 1 < 7" "Bits - 1 \<noteq> 7" using B(1) by auto
      ultimately show ?thesis
        by (intro step [of "Bits - 1" "y @ [x'] @ [cur]"]) (use f B m p l in \<open>simp_all add: packed_def butlast_append\<close>)
    qed
  qed
qed

lemma low_bits_0: "low_bits n 0 = replicate n False"
  by (rule nth_equalityI) simp_all

lemma pack_start:
  assumes "offset \<le> 7" "\<forall>s \<in> set input. s < 128"
  shows "\<exists>pad < 8. octet_stream (GSM_PackSevenBitsToEight offset input (length input))
    = replicate offset False @ septet_stream input @ replicate pad False"
proof -
  have "packed ((7 + offset) mod 8) (if offset \<noteq> 0 then [0] else []) (replicate offset False)"
  proof (cases "offset = 0")
    case False
    then have "7 + offset = (offset - 1) + 8" by simp
    then have "(7 + offset) mod 8 = offset - 1" using assms(1) by (simp only: mod_add_self2) simp
    with False assms(1) show ?thesis
      by (auto simp: packed_def low_bits_0)
  qed (simp add: packed_def)
  from pack_stream [OF this assms(2)] show ?thesis by (simp add: GSM_PackSevenBitsToEight_def)
qed

subsection \<open>Properties\<close>

lemma length_pack:
  assumes "offset \<le> 7" "\<forall>s \<in> set input. s < 128"
  shows "length (GSM_PackSevenBitsToEight offset input (length input)) = (offset + 7 * length input + 7) div 8"
proof -
  let ?p = "GSM_PackSevenBitsToEight offset input (length input)"
  obtain pad where "pad < 8"
    "octet_stream ?p = replicate offset False @ septet_stream input @ replicate pad False"
    using pack_start [OF assms] by blast
  then have "8 * length ?p = offset + 7 * length input + pad" "pad < 8"
    using length_octet_stream [of ?p] by auto
  then show ?thesis by linarith
qed

text \<open>
  Claim C27. Septets packed behind at most six fill bits are unpacked unchanged when the number
  of characters is given, and take exactly the octets their bits need.
\<close>

theorem pack_unpack_septets:
  assumes "offset \<le> 6" and "\<forall>s \<in> set input. s < 128"
  shows "GSM_UnpackEightBitsToSeven offset
           (length (GSM_PackSevenBitsToEight offset input (length input))) (length input)
           (GSM_PackSevenBitsToEight offset input (length input)) = input
    \<and> length (GSM_PackSevenBitsToEight offset input (length input))
        = (offset + 7 * length input + 7) div 8"
proof -
  let ?p = "GSM_PackSevenBitsToEight offset input (length input)"
  obtain pad where
    p: "octet_stream ?p = replicate offset False @ septet_stream input @ replicate pad False"
    using pack_start [OF _ assms(2), of offset] assms(1) by auto
  have "GSM_UnpackEightBitsToSeven offset (length ?p) (length input) ?p
    = take (length input) (septets_of (septet_stream input @ replicate pad False))"
    using unpack_first [OF assms(1)] p by simp
  with length_pack [of offset input] assms show ?thesis by (simp add: septets_of_septet_stream)
qed

theorem pack_unpack_septets_witness:
  "GSM_UnpackEightBitsToSeven 3 (length (GSM_PackSevenBitsToEight 3 (bytes_of ''hello'') (length (bytes_of ''hello''))))
     (length (bytes_of ''hello'')) (GSM_PackSevenBitsToEight 3 (bytes_of ''hello'') (length (bytes_of ''hello'')))
   = bytes_of ''hello''"
proof -
  have "(3 :: nat) \<le> 6" "\<forall>s \<in> set (bytes_of ''hello''). s < 128" by simp_all
  from pack_unpack_septets [OF this] show ?thesis by blast
qed

text \<open>
  Unpacking never returns more than the room or the input allows, and what it returns
  is a function of the bit stream behind the fill bits: its successive groups of seven bits.
\<close>

theorem unpack_is_septets_of_stream:
  assumes "offset \<le> 6"
  shows "GSM_UnpackEightBitsToSeven offset in_length out_length input
      = take out_length (septets_of (drop offset (octet_stream (take in_length input))))
    \<and> length (GSM_UnpackEightBitsToSeven offset in_length out_length input) \<le> out_length
    \<and> 7 * length (GSM_UnpackEightBitsToSeven offset in_length out_length input) \<le> 8 * in_length"
proof -
  have "7 * length (septets_of bs) \<le> length bs" for bs
    by (induction bs rule: septets_of.induct) auto
  from this [of "drop offset (octet_stream (take in_length input))"]
  have "7 * length (septets_of (drop offset (octet_stream (take in_length input)))) \<le> 8 * in_length"
    by simp
  then show ?thesis using unpack_first [OF assms] by (auto simp: min_def)
qed

theorem unpack_is_septets_of_stream_witness:
  "length (GSM_UnpackEightBitsToSeven 0 2 9 [0xE8, 0x32]) \<le> 9"
  using unpack_is_septets_of_stream [of 0 2 9 "[0xE8, 0x32]"] by simp

end
