(* ===== verification/Unicode.thy ===== *)
theory Unicode imports Interfaces begin

text \<open>
  UCS-2, UTF-16 and UTF-8 conversion of \<^verbatim>\<open>libgammu/misc/coding/coding.c\<close>. A unit list is the
  buffer the C code indexes in steps of two bytes. \<^verbatim>\<open>unsigned long\<close> code points are \<open>nat\<close>;
  \<^verbatim>\<open>gammu_char_t\<close> is a 32-bit word.
\<close>

subsection \<open>Units and code points\<close>

fun UnicodeLength :: "uchar list \<Rightarrow> nat" where
  "UnicodeLength [] = 0"
| "UnicodeLength (u # str) = (if u = 0 then 0 else 1 + UnicodeLength str)"

definition StoreUTF16 :: "gammu_char_t \<Rightarrow> uchar list" where
  "StoreUTF16 wc =
     (if wc > 0xffff then
        let wc' = wc - 0x10000 in
          [ucast (0xD800 OR drop_bit 10 wc'), ucast (0xDC00 OR (wc' AND 0x3ff))]
      else [ucast wc])"

fun DecodeISO88591 :: "byte list \<Rightarrow> uchar list" where
  "DecodeISO88591 [] = []"
| "DecodeISO88591 (c # src) = (if c = 0x80 then 0x20ac else ucast c) # DecodeISO88591 src"

subsection \<open>UTF-8\<close>

definition EncodeWithUTF8Alphabet :: "nat \<Rightarrow> byte list" where
  "EncodeWithUTF8Alphabet src =
     (if src < 0x80 then [word_of_nat src]
      else if src < 0x800 then
        [word_of_nat (192 + src div 64), word_of_nat (128 + src mod 64)]
      else if src < 0x10000 then
        [word_of_nat (224 + src div (64 * 64)), word_of_nat (128 + src div 64 mod 64),
         word_of_nat (128 + src mod 64)]
      else if src < 0x200000 then
        [word_of_nat (240 + src div (64 * 64 * 64)), word_of_nat (128 + src div (64 * 64) mod 64),
         word_of_nat (128 + src div 64 mod 64), word_of_nat (128 + src mod 64)]
      else if src < 0x4000000 then
        [word_of_nat (248 + src div (64 * 64 * 64 * 64)),
         word_of_nat (128 + src div (64 * 64 * 64) mod 64),
         word_of_nat (128 + src div (64 * 64) mod 64),
         word_of_nat (128 + src div 64 mod 64), word_of_nat (128 + src mod 64)]
      else if src < 0x80000000 then
        [word_of_nat (252 + src div (64 * 64 * 64 * 64 * 64)),
         word_of_nat (128 + src div (64 * 64 * 64 * 64) mod 64),
         word_of_nat (128 + src div (64 * 64 * 64) mod 64),
         word_of_nat (128 + src div (64 * 64) mod 64),
         word_of_nat (128 + src div 64 mod 64), word_of_nat (128 + src mod 64)]
      else [word_of_nat src])"

text \<open>The value of a unit pair read as a surrogate pair.\<close>

definition surrogate_value :: "nat \<Rightarrow> nat \<Rightarrow> nat" where
  "surrogate_value value second = (value - 0xD800) * 2 ^ 10 + (second - 0xDC00) + 0x010000"

definition utf8_put :: "nat \<Rightarrow> byte list \<times> bool \<Rightarrow> byte list \<times> bool" where
  "utf8_put value r =
     (let mychar = EncodeWithUTF8Alphabet value
      in (mychar @ fst r, length mychar > 1 \<or> snd r))"

fun encode_utf8_units :: "uchar list \<Rightarrow> byte list \<times> bool" where
  "encode_utf8_units [] = ([], False)"
| "encode_utf8_units [u] =
     (if 0xD800 \<le> unat u \<and> unat u \<le> 0xDBFF then utf8_put 0xFFFD ([], False)
      else utf8_put (unat u) ([], False))"
| "encode_utf8_units (u # s # src) =
     (if 0xD800 \<le> unat u \<and> unat u \<le> 0xDBFF \<and> 0xDC00 \<le> unat s \<and> unat s \<le> 0xDFFF
      then utf8_put (surrogate_value (unat u) (unat s)) (encode_utf8_units src)
      else utf8_put (unat u) (encode_utf8_units (s # src)))"

definition EncodeUTF8 :: "uchar list \<Rightarrow> byte list \<times> bool" where
  "EncodeUTF8 src = encode_utf8_units (take (UnicodeLength src) src)"

text \<open>
  The decoder of one character: \<open>None\<close> where the C function returns 0, else the number of
  bytes used and the code point. \<^verbatim>\<open>len\<close> is the length of the list.
\<close>

definition utf8_cont :: "byte \<Rightarrow> bool" where
  "utf8_cont b = ((ucast b :: gammu_char_t) AND 0xC0 = 0x80)"

definition utf8_dest2 :: "byte \<Rightarrow> byte \<Rightarrow> gammu_char_t" where
  "utf8_dest2 src0 src1 = push_bit 6 (ucast src0 AND 0x1F) OR (ucast src1 AND 0x3f)"

definition utf8_dest3 :: "byte \<Rightarrow> byte \<Rightarrow> byte \<Rightarrow> gammu_char_t" where
  "utf8_dest3 src0 src1 src2 =
     push_bit 12 (ucast src0 AND 0x0F) OR push_bit 6 (ucast src1 AND 0x3f) OR (ucast src2 AND 0x3f)"

definition utf8_dest4 :: "byte \<Rightarrow> byte \<Rightarrow> byte \<Rightarrow> byte \<Rightarrow> gammu_char_t" where
  "utf8_dest4 src0 src1 src2 src3 =
     push_bit 0x12 (ucast src0 AND 0x07) OR push_bit 0x0C (ucast src1 AND 0x3f)
     OR push_bit 0x06 (ucast src2 AND 0x3f) OR (ucast src3 AND 0x3f)"

fun DecodeWithUTF8Alphabet :: "byte list \<Rightarrow> (nat \<times> gammu_char_t) option" where
  "DecodeWithUTF8Alphabet [] = None"
| "DecodeWithUTF8Alphabet (src0 # src) =
    (if (ucast src0 :: gammu_char_t) AND 0x80 = 0 then Some (1, ucast src0)
     else case src of [] \<Rightarrow> None | src1 # src' \<Rightarrow>
       (if \<not> utf8_cont src1 then None
        else if (ucast src0 :: gammu_char_t) AND 0xE0 = 0xC0 then
          (if utf8_dest2 src0 src1 \<ge> 0x80 then Some (2, utf8_dest2 src0 src1) else None)
        else case src' of [] \<Rightarrow> None | src2 # src'' \<Rightarrow>
          (if \<not> utf8_cont src2 then None
           else if (ucast src0 :: gammu_char_t) AND 0xF0 = 0xE0 \<and> utf8_dest3 src0 src1 src2 \<ge> 0x0800
           then (if utf8_dest3 src0 src1 src2 \<ge> 0xD800 \<and> utf8_dest3 src0 src1 src2 \<le> 0xDFFF then None
                 else Some (3, utf8_dest3 src0 src1 src2))
           else case src'' of [] \<Rightarrow> None | src3 # _ \<Rightarrow>
             (if \<not> utf8_cont src3 then None
              else if (ucast src0 :: gammu_char_t) AND 0xF8 = 0xF0
                \<and> utf8_dest4 src0 src1 src2 src3 \<ge> 0x010000
                \<and> utf8_dest4 src0 src1 src2 src3 \<le> 0x10FFFF
              then Some (4, utf8_dest4 src0 src1 src2 src3)
              else None))))"

lemma DecodeWithUTF8Alphabet_size:
  "DecodeWithUTF8Alphabet src = Some (z, c) \<Longrightarrow> 0 < z \<and> z \<le> length src"
  by (induction src rule: DecodeWithUTF8Alphabet.induct)
     (auto simp: Let_def split: if_splits list.splits)

text \<open>The first component is the returned \<^verbatim>\<open>gboolean\<close>, the second the units stored.\<close>

function DecodeUTF8Checked :: "byte list \<Rightarrow> bool \<times> uchar list" where
  "DecodeUTF8Checked src =
     (if src = [] then (True, [])
      else case DecodeWithUTF8Alphabet src of
        None \<Rightarrow> (False, [])
      | Some (z, ret) \<Rightarrow>
          (let r = DecodeUTF8Checked (drop z src) in (fst r, StoreUTF16 ret @ snd r)))"
  by pat_completeness auto
termination
  by (relation "measure length") (auto dest!: DecodeWithUTF8Alphabet_size)

declare DecodeUTF8Checked.simps [simp del]

subsection \<open>One character\<close>

definition scalar :: "nat \<Rightarrow> bool" where
  "scalar n = (n < 0x110000 \<and> \<not> (0xD800 \<le> n \<and> n \<le> 0xDFFF))"

declare DecodeWithUTF8Alphabet.simps(2) [simp del]

lemma utf8_lead:
  "((ucast b :: gammu_char_t) AND 0x80 = 0 \<longleftrightarrow> unat b < 128)
   \<and> (utf8_cont b \<longleftrightarrow> unat b div 64 = 2)
   \<and> ((ucast b :: gammu_char_t) AND 0xE0 = 0xC0 \<longleftrightarrow> unat b div 32 = 6)
   \<and> ((ucast b :: gammu_char_t) AND 0xF0 = 0xE0 \<longleftrightarrow> unat b div 16 = 14)
   \<and> ((ucast b :: gammu_char_t) AND 0xF8 = 0xF0 \<longleftrightarrow> unat b div 8 = 30)"
  unfolding utf8_cont_def by (rule all_byte [where b=b]) (simp add: all_bytes_list)

lemmas utf8_lead_simps = utf8_lead [THEN conjunct1] utf8_lead [THEN conjunct2, THEN conjunct1]
  utf8_lead [THEN conjunct2, THEN conjunct2, THEN conjunct1]
  utf8_lead [THEN conjunct2, THEN conjunct2, THEN conjunct2, THEN conjunct1]
  utf8_lead [THEN conjunct2, THEN conjunct2, THEN conjunct2, THEN conjunct2]

lemma unat_six:
  "unat (push_bit 6 (x :: gammu_char_t) OR (ucast (b::byte) AND 0x3f)) = unat x * 64 + unat b mod 64"
  if "unat x < 2 ^ 26"
  using that unat_push_bit_or [of "ucast b AND 0x3f :: gammu_char_t" 6 x]
  by (simp add: unat_and_masks)

lemma push_bit_push: "push_bit 12 (x :: gammu_char_t) = push_bit 6 (push_bit 6 x)"
  "push_bit 18 x = push_bit 6 (push_bit 6 (push_bit 6 x))"
  by (simp_all add: push_bit_push_bit)

lemma unat_dest2: "unat (utf8_dest2 b0 b1)
   = unat b0 mod 32 * 64 + unat b1 mod 64"
  unfolding utf8_dest2_def
  by (subst unat_six) (auto simp: unat_and_masks intro: order.strict_trans1 [OF less_imp_le [OF mod_less_divisor]])

lemma unat_dest3:
  "unat (utf8_dest3 b0 b1 b2) = (unat b0 mod 16 * 64 + unat b1 mod 64) * 64 + unat b2 mod 64"
proof -
  let ?x = "push_bit 6 ((ucast b0 :: gammu_char_t) AND 0x0F) OR (ucast b1 AND 0x3f)"
  have x: "unat ?x = unat b0 mod 16 * 64 + unat b1 mod 64"
    using mod_less_divisor [of 16 "unat b0"] by (subst unat_six) (auto simp: unat_and_masks)
  have "utf8_dest3 b0 b1 b2 = push_bit 6 ?x OR (ucast b2 AND 0x3f)"
    by (simp only: push_bit_or push_bit_push utf8_dest3_def or.assoc)
  moreover have "unat ?x < 2 ^ 26"
    using mod_less_divisor [of 16 "unat b0"] mod_less_divisor [of 64 "unat b1"] unfolding x by simp
  ultimately show ?thesis using unat_six [of ?x b2] by (simp only: x)
qed

lemma unat_dest4:
  "unat (utf8_dest4 b0 b1 b2 b3)
   = ((unat b0 mod 8 * 64 + unat b1 mod 64) * 64 + unat b2 mod 64) * 64 + unat b3 mod 64"
proof -
  let ?y = "push_bit 6 ((ucast b0 :: gammu_char_t) AND 0x07) OR (ucast b1 AND 0x3f)"
  let ?x = "push_bit 6 ?y OR (ucast b2 AND 0x3f)"
  have y: "unat ?y = unat b0 mod 8 * 64 + unat b1 mod 64"
    using mod_less_divisor [of 8 "unat b0"] by (subst unat_six) (auto simp: unat_and_masks)
  have "unat ?y < 2 ^ 26"
    using mod_less_divisor [of 8 "unat b0"] mod_less_divisor [of 64 "unat b1"] unfolding y by simp
  then have x: "unat ?x = (unat b0 mod 8 * 64 + unat b1 mod 64) * 64 + unat b2 mod 64"
    using unat_six [of ?y b2] by (simp only: y)
  have "utf8_dest4 b0 b1 b2 b3 = push_bit 6 ?x OR (ucast b3 AND 0x3f)"
    by (simp only: push_bit_or push_bit_push utf8_dest4_def or.assoc)
  moreover have "unat ?x < 2 ^ 26"
    using mod_less_divisor [of 8 "unat b0"] mod_less_divisor [of 64 "unat b1"]
      mod_less_divisor [of 64 "unat b2"] unfolding x by simp
  ultimately show ?thesis using unat_six [of ?x b3] by (simp only: x)
qed

lemma utf8_decode_values:
  "DecodeWithUTF8Alphabet (b0 # src) = (let n0 = unat b0 in
     if n0 < 128 then Some (1, ucast b0)
     else case src of [] \<Rightarrow> None | b1 # src' \<Rightarrow>
       (if unat b1 div 64 \<noteq> 2 then None
        else if n0 div 32 = 6 then
          (let d = utf8_dest2 b0 b1 in if 0x80 \<le> unat d then Some (2, d) else None)
        else case src' of [] \<Rightarrow> None | b2 # src'' \<Rightarrow>
          (let d = utf8_dest3 b0 b1 b2 in
           if unat b2 div 64 \<noteq> 2 then None
           else if n0 div 16 = 14 \<and> 0x800 \<le> unat d then
             (if 0xD800 \<le> unat d \<and> unat d \<le> 0xDFFF then None else Some (3, d))
           else case src'' of [] \<Rightarrow> None | b3 # _ \<Rightarrow>
             (let d = utf8_dest4 b0 b1 b2 b3 in
              if unat b3 div 64 \<noteq> 2 then None
              else if n0 div 8 = 30 \<and> 0x10000 \<le> unat d \<and> unat d \<le> 0x10FFFF then Some (4, d)
              else None))))"
proof -
  have n: "unat (0x80 :: gammu_char_t) = 0x80" "unat (0x0800 :: gammu_char_t) = 0x0800"
    "unat (0xD800 :: gammu_char_t) = 0xD800" "unat (0xDFFF :: gammu_char_t) = 0xDFFF"
    "unat (0x10000 :: gammu_char_t) = 0x10000" "unat (0x10FFFF :: gammu_char_t) = 0x10FFFF"
    by simp_all
  show ?thesis
    unfolding DecodeWithUTF8Alphabet.simps utf8_lead_simps Let_def word_le_nat_alt n by (rule refl)
qed

lemma utf8_decode_nat:
  "DecodeWithUTF8Alphabet (b0 # src) = (let n0 = unat b0 in
     if n0 < 128 then Some (1, ucast b0)
     else case src of [] \<Rightarrow> None | b1 # src' \<Rightarrow>
       (if unat b1 div 64 \<noteq> 2 then None
        else if n0 div 32 = 6 then
          (let d = n0 mod 32 * 64 + unat b1 mod 64 in if 0x80 \<le> d then Some (2, utf8_dest2 b0 b1) else None)
        else case src' of [] \<Rightarrow> None | b2 # src'' \<Rightarrow>
          (let d = (n0 mod 16 * 64 + unat b1 mod 64) * 64 + unat b2 mod 64 in
           if unat b2 div 64 \<noteq> 2 then None
           else if n0 div 16 = 14 \<and> 0x800 \<le> d then
             (if 0xD800 \<le> d \<and> d \<le> 0xDFFF then None else Some (3, utf8_dest3 b0 b1 b2))
           else case src'' of [] \<Rightarrow> None | b3 # _ \<Rightarrow>
             (let d = ((n0 mod 8 * 64 + unat b1 mod 64) * 64 + unat b2 mod 64) * 64 + unat b3 mod 64 in
              if unat b3 div 64 \<noteq> 2 then None
              else if n0 div 8 = 30 \<and> 0x10000 \<le> d \<and> d \<le> 0x10FFFF then Some (4, utf8_dest4 b0 b1 b2 b3)
              else None))))"
  unfolding utf8_decode_values Let_def unat_dest2 unat_dest3 unat_dest4 by (rule refl)

text \<open>The bytes of a continuation and of the lead, from the value.\<close>

lemma unat_byte_of_nat: "n < 256 \<Longrightarrow> unat (word_of_nat n :: byte) = n"
  by (simp add: unat_of_nat)

lemma base64_digit: "r < 64 \<Longrightarrow> (x * 64 + r) div 64 = (x :: nat)" "r < 64 \<Longrightarrow> (x * 64 + r) mod 64 = (r :: nat)"
  by simp_all

lemma base64_digits3:
  assumes "q < 64" "r < (64 :: nat)"
  shows "(4096 * p + q * 64 + r) div 4096 = p" "(4096 * p + q * 64 + r) div 64 mod 64 = q"
    "(4096 * p + q * 64 + r) mod 64 = r"
proof -
  have h: "4096 * p + q * 64 + r = (p * 64 + q) * 64 + r" by simp
  have d: "n div 4096 = n div 64 div 64" for n :: nat by (simp flip: div_mult2_eq)
  show "(4096 * p + q * 64 + r) mod 64 = r" "(4096 * p + q * 64 + r) div 64 mod 64 = q"
    "(4096 * p + q * 64 + r) div 4096 = p"
    unfolding h d by (simp_all only: base64_digit assms)
qed

lemma base64_digits4:
  assumes "p < 64" "q < 64" "r < (64 :: nat)"
  shows "(262144 * m + 4096 * p + q * 64 + r) div 262144 = m"
    "(262144 * m + 4096 * p + q * 64 + r) div 4096 mod 64 = p"
    "(262144 * m + 4096 * p + q * 64 + r) div 64 mod 64 = q"
    "(262144 * m + 4096 * p + q * 64 + r) mod 64 = r"
proof -
  have h: "262144 * m + 4096 * p + q * 64 + r = ((m * 64 + p) * 64 + q) * 64 + r" by simp
  have d: "n div 4096 = n div 64 div 64" "n div 262144 = n div 64 div 64 div 64" for n :: nat
    by (simp_all flip: div_mult2_eq)
  show "(262144 * m + 4096 * p + q * 64 + r) mod 64 = r"
    "(262144 * m + 4096 * p + q * 64 + r) div 64 mod 64 = q"
    "(262144 * m + 4096 * p + q * 64 + r) div 4096 mod 64 = p"
    "(262144 * m + 4096 * p + q * 64 + r) div 262144 = m"
    unfolding h d by (simp_all only: base64_digit assms)
qed

lemma base64_split:
  "(n div 4096 * 64 + n div 64 mod 64) * 64 + n mod 64 = (n :: nat)"
  "((n div 262144 * 64 + n div 4096 mod 64) * 64 + n div 64 mod 64) * 64 + n mod 64 = (n :: nat)"
proof -
  have d: "n div 4096 = n div 64 div 64" "n div 262144 = n div 64 div 64 div 64" by (simp_all flip: div_mult2_eq)
  show "(n div 4096 * 64 + n div 64 mod 64) * 64 + n mod 64 = (n :: nat)"
    "((n div 262144 * 64 + n div 4096 mod 64) * 64 + n div 64 mod 64) * 64 + n mod 64 = (n :: nat)"
    unfolding d div_mult_mod_eq by (rule refl)+
qed

lemma utf8_divs:
  "p < 32 \<Longrightarrow> (192 + p) div 32 = (6 :: nat)" "p < 16 \<Longrightarrow> (224 + p) div 16 = (14 :: nat)"
  "p < 8 \<Longrightarrow> (240 + p) div 8 = (30 :: nat)" "p < 64 \<Longrightarrow> (128 + p) div 64 = (2 :: nat)"
  "p < 16 \<Longrightarrow> (224 + p) div 32 = (7 :: nat)" "p < 8 \<Longrightarrow> (240 + p) div 32 = (7 :: nat)"
  "p < 8 \<Longrightarrow> (240 + p) div 16 = (15 :: nat)"
  by (auto intro: div_nat_eqI)

lemma utf8_mods:
  "p < 32 \<Longrightarrow> (192 + p) mod 32 = (p :: nat)" "p < 16 \<Longrightarrow> (224 + p) mod 16 = (p :: nat)"
  "p < 8 \<Longrightarrow> (240 + p) mod 8 = (p :: nat)" "p < 64 \<Longrightarrow> (128 + p) mod 64 = (p :: nat)"
  by (simp_all add: modulo_nat_def utf8_divs)

lemma utf8_bytes:
  "unat (b :: byte) div 64 = 2 \<Longrightarrow> b = word_of_nat (128 + unat b mod 64)"
  "unat b div 32 = 6 \<Longrightarrow> b = word_of_nat (192 + unat b mod 32)"
  "unat b div 16 = 14 \<Longrightarrow> b = word_of_nat (224 + unat b mod 16)"
  "unat b div 8 = 30 \<Longrightarrow> b = word_of_nat (240 + unat b mod 8)"
proof -
  have w: "unat b = n \<Longrightarrow> b = word_of_nat n" for n by auto
  have *: "unat b div k = m \<Longrightarrow> b = word_of_nat (m * k + unat b mod k)" for k m
    by (rule w) (use div_mult_mod_eq [of "unat b" k] in simp)
  show "unat (b :: byte) div 64 = 2 \<Longrightarrow> b = word_of_nat (128 + unat b mod 64)"
    "unat b div 32 = 6 \<Longrightarrow> b = word_of_nat (192 + unat b mod 32)"
    "unat b div 16 = 14 \<Longrightarrow> b = word_of_nat (224 + unat b mod 16)"
    "unat b div 8 = 30 \<Longrightarrow> b = word_of_nat (240 + unat b mod 8)"
    using * [of 64 2] * [of 32 6] * [of 16 14] * [of 8 30] by (simp_all del: of_nat_add)
qed

lemma decode_encode_utf8_char:
  assumes "scalar n"
  shows "DecodeWithUTF8Alphabet (EncodeWithUTF8Alphabet n @ rest)
    = Some (length (EncodeWithUTF8Alphabet n), word_of_nat n)"
proof -
  consider "n < 0x80" | "0x80 \<le> n" "n < 0x800" | "0x800 \<le> n" "n < 0x10000"
    | "0x10000 \<le> n" "n < 0x110000"
    using assms unfolding scalar_def by linarith
  then show ?thesis
  proof cases
    case 1
    then have "(ucast (word_of_nat n :: byte) :: gammu_char_t) = word_of_nat n"
      by (simp add: word_unat_eq_iff unat_of_nat unsigned_ucast_eq take_bit_nat_eq_self)
    with 1 show ?thesis by (simp add: EncodeWithUTF8Alphabet_def utf8_decode_nat unat_byte_of_nat)
  next
    case 2
    define q r where "q = n div 64" and "r = n mod 64"
    then have q: "n = q * 64 + r" "r < 64" "2 \<le> q" "q < 32" using 2 by auto
    have "utf8_dest2 (word_of_nat (192 + q)) (word_of_nat (128 + r)) = word_of_nat n"
      using q by (simp add: word_unat_eq_iff unat_dest2 unat_of_nat utf8_mods del: of_nat_add of_nat_mult)
    moreover have "EncodeWithUTF8Alphabet n = [word_of_nat (192 + q), word_of_nat (128 + r)]"
      using 2 by (simp add: EncodeWithUTF8Alphabet_def q_def r_def del: of_nat_add of_nat_mult)
    ultimately show ?thesis using q 2 by (simp add: utf8_decode_nat unat_byte_of_nat utf8_mods utf8_divs Let_def del: of_nat_add of_nat_mult)
  next
    case 3
    define p q r where "p = n div 4096" and "q = n div 64 mod 64" and "r = n mod 64"
    then have "n = (p * 64 + q) * 64 + r" using base64_split(1) [of n] by simp
    moreover have "r < 64" "q < 64" "p < 16" using 3 by (auto simp: p_def q_def r_def)
    ultimately have q: "n = (p * 64 + q) * 64 + r" "r < 64" "q < 64" "p < 16" by blast+
    have "utf8_dest3 (word_of_nat (224 + p)) (word_of_nat (128 + q)) (word_of_nat (128 + r)) = word_of_nat n"
      using q by (simp add: word_unat_eq_iff unat_dest3 unat_of_nat utf8_mods del: of_nat_add of_nat_mult)
    moreover have "EncodeWithUTF8Alphabet n = [word_of_nat (224 + p), word_of_nat (128 + q), word_of_nat (128 + r)]"
      using 3 by (simp add: EncodeWithUTF8Alphabet_def p_def q_def r_def del: of_nat_add of_nat_mult)
    moreover have "\<not> (0xD800 \<le> n \<and> n \<le> 0xDFFF)" using assms unfolding scalar_def by blast
    ultimately show ?thesis using q 3 by (simp add: utf8_decode_nat unat_byte_of_nat utf8_mods utf8_divs Let_def del: of_nat_add of_nat_mult)
  next
    case 4
    define m p q r where "m = n div 262144" and "p = n div 4096 mod 64" and "q = n div 64 mod 64" and "r = n mod 64"
    then have "n = ((m * 64 + p) * 64 + q) * 64 + r" using base64_split(2) [of n] by simp
    moreover have "r < 64" "q < 64" "p < 64" "m < 8" using 4 by (auto simp: m_def p_def q_def r_def)
    ultimately have q: "n = ((m * 64 + p) * 64 + q) * 64 + r" "r < 64" "q < 64" "p < 64" "m < 8" by blast+
    have "utf8_dest4 (word_of_nat (240 + m)) (word_of_nat (128 + p)) (word_of_nat (128 + q)) (word_of_nat (128 + r)) = word_of_nat n"
      using q by (simp add: word_unat_eq_iff unat_dest4 unat_of_nat utf8_mods del: of_nat_add of_nat_mult)
    moreover have "EncodeWithUTF8Alphabet n = [word_of_nat (240 + m), word_of_nat (128 + p), word_of_nat (128 + q), word_of_nat (128 + r)]"
      using 4 by (simp add: EncodeWithUTF8Alphabet_def m_def p_def q_def r_def del: of_nat_add of_nat_mult)
    ultimately show ?thesis using q 4 by (simp add: utf8_decode_nat unat_byte_of_nat utf8_mods utf8_divs Let_def del: of_nat_add of_nat_mult)
  qed
qed

lemma length_EncodeWithUTF8Alphabet: "scalar n \<Longrightarrow> length (EncodeWithUTF8Alphabet n) \<in> {1..4}"
  by (auto simp: EncodeWithUTF8Alphabet_def scalar_def)

text \<open>The decoder takes canonical encodings of scalar values only.\<close>

lemma encode_utf8_dest2:
  assumes "(ucast b0 :: gammu_char_t) AND 0xE0 = 0xC0" "utf8_cont b1" "0x80 \<le> utf8_dest2 b0 b1"
  shows "scalar (unat (utf8_dest2 b0 b1)) \<and> EncodeWithUTF8Alphabet (unat (utf8_dest2 b0 b1)) = [b0, b1]"
proof -
  from assms have b: "unat b0 div 32 = 6" "unat b1 div 64 = 2" "0x80 \<le> unat (utf8_dest2 b0 b1)"
    by (simp_all add: utf8_lead_simps word_le_nat_alt)
  define p q where "p = unat b0 mod 32" and "q = unat b1 mod 64"
  from b(1,2) have e: "b0 = word_of_nat (192 + p)" "b1 = word_of_nat (128 + q)"
    unfolding p_def q_def by (intro utf8_bytes b)+
  have n: "unat (utf8_dest2 b0 b1) = p * 64 + q" by (simp add: unat_dest2 p_def q_def)
  have q: "p < 32" "q < 64" by (auto simp: p_def q_def)
  then have "2 \<le> p" using b(3) n by simp
  then have "scalar (p * 64 + q) \<and> EncodeWithUTF8Alphabet (p * 64 + q) = [word_of_nat (192 + p), word_of_nat (128 + q)]"
    using q by (simp add: EncodeWithUTF8Alphabet_def scalar_def del: of_nat_add)
  then show ?thesis unfolding n using e by simp
qed

lemma encode_utf8_dest3:
  assumes "(ucast b0 :: gammu_char_t) AND 0xF0 = 0xE0" "utf8_cont b1" "utf8_cont b2"
    "0x800 \<le> utf8_dest3 b0 b1 b2" "0xD800 \<le> utf8_dest3 b0 b1 b2 \<longrightarrow> \<not> utf8_dest3 b0 b1 b2 \<le> 0xDFFF"
  shows "scalar (unat (utf8_dest3 b0 b1 b2))
    \<and> EncodeWithUTF8Alphabet (unat (utf8_dest3 b0 b1 b2)) = [b0, b1, b2]"
proof -
  from assms have b: "unat b0 div 16 = 14" "unat b1 div 64 = 2" "unat b2 div 64 = 2" and
    v: "0x800 \<le> unat (utf8_dest3 b0 b1 b2)"
       "0xD800 \<le> unat (utf8_dest3 b0 b1 b2) \<longrightarrow> \<not> unat (utf8_dest3 b0 b1 b2) \<le> 0xDFFF"
    by (simp_all add: utf8_lead_simps word_le_nat_alt)
  define p q r where "p = unat b0 mod 16" and "q = unat b1 mod 64" and "r = unat b2 mod 64"
  from b have e: "b0 = word_of_nat (224 + p)" "b1 = word_of_nat (128 + q)" "b2 = word_of_nat (128 + r)"
    unfolding p_def q_def r_def by (intro utf8_bytes b)+
  have n: "unat (utf8_dest3 b0 b1 b2) = (p * 64 + q) * 64 + r" by (simp add: unat_dest3 p_def q_def r_def)
  have q: "p < 16" "q < 64" "r < 64" by (auto simp: p_def q_def r_def)
  have "EncodeWithUTF8Alphabet ((p * 64 + q) * 64 + r)
      = [word_of_nat (224 + p), word_of_nat (128 + q), word_of_nat (128 + r)]"
    using q v(1) unfolding n by (simp add: EncodeWithUTF8Alphabet_def base64_digits3 base64_digits4 del: of_nat_add)
  moreover have "scalar ((p * 64 + q) * 64 + r)"
    using q v(2) unfolding n scalar_def by simp
  ultimately show ?thesis unfolding n using e by simp
qed

lemma encode_utf8_dest4:
  assumes "(ucast b0 :: gammu_char_t) AND 0xF8 = 0xF0" "utf8_cont b1" "utf8_cont b2" "utf8_cont b3"
    "0x10000 \<le> utf8_dest4 b0 b1 b2 b3" "utf8_dest4 b0 b1 b2 b3 \<le> 0x10FFFF"
  shows "scalar (unat (utf8_dest4 b0 b1 b2 b3))
    \<and> EncodeWithUTF8Alphabet (unat (utf8_dest4 b0 b1 b2 b3)) = [b0, b1, b2, b3]"
proof -
  from assms have b: "unat b0 div 8 = 30" "unat b1 div 64 = 2" "unat b2 div 64 = 2" "unat b3 div 64 = 2" and
    v: "0x10000 \<le> unat (utf8_dest4 b0 b1 b2 b3)" "unat (utf8_dest4 b0 b1 b2 b3) \<le> 0x10FFFF"
    by (simp_all add: utf8_lead_simps word_le_nat_alt)
  define m p q r where "m = unat b0 mod 8" and "p = unat b1 mod 64" and "q = unat b2 mod 64" and "r = unat b3 mod 64"
  from b have e: "b0 = word_of_nat (240 + m)" "b1 = word_of_nat (128 + p)" "b2 = word_of_nat (128 + q)" "b3 = word_of_nat (128 + r)"
    unfolding m_def p_def q_def r_def by (intro utf8_bytes b)+
  have n: "unat (utf8_dest4 b0 b1 b2 b3) = ((m * 64 + p) * 64 + q) * 64 + r"
    by (simp add: unat_dest4 m_def p_def q_def r_def)
  have q: "m < 8" "p < 64" "q < 64" "r < 64" by (auto simp: m_def p_def q_def r_def)
  have "EncodeWithUTF8Alphabet (((m * 64 + p) * 64 + q) * 64 + r)
      = [word_of_nat (240 + m), word_of_nat (128 + p), word_of_nat (128 + q), word_of_nat (128 + r)]"
    using q v(1) unfolding n by (simp add: EncodeWithUTF8Alphabet_def base64_digits3 base64_digits4 del: of_nat_add)
  moreover have "scalar (((m * 64 + p) * 64 + q) * 64 + r)"
    using q v unfolding n scalar_def by simp
  ultimately show ?thesis unfolding n using e by simp
qed

lemma encode_decode_utf8_char:
  assumes "DecodeWithUTF8Alphabet src = Some (z, c)"
  shows "scalar (unat c) \<and> EncodeWithUTF8Alphabet (unat c) = take z src"
proof -
  from assms obtain b0 src' where src: "src = b0 # src'" by (cases src) auto
  have "scalar (unat b0) \<and> EncodeWithUTF8Alphabet (unat b0) = [b0]"
    if "(ucast b0 :: gammu_char_t) AND 0x80 = 0"
    using that by (simp add: utf8_lead_simps scalar_def EncodeWithUTF8Alphabet_def)
  then show ?thesis
    using assms unfolding src DecodeWithUTF8Alphabet.simps
    by (auto simp: encode_utf8_dest2 encode_utf8_dest3 encode_utf8_dest4
        split: if_split_asm list.split_asm)
qed
subsection \<open>Strings\<close>

definition high_surrogate :: "uchar \<Rightarrow> bool" where
  "high_surrogate u = (0xD800 \<le> unat u \<and> unat u \<le> 0xDBFF)"

definition low_surrogate :: "uchar \<Rightarrow> bool" where
  "low_surrogate u = (0xDC00 \<le> unat u \<and> unat u \<le> 0xDFFF)"

text \<open>A unit list without unpaired surrogates.\<close>

fun utf16_ok :: "uchar list \<Rightarrow> bool" where
  "utf16_ok [] = True"
| "utf16_ok [u] = (\<not> high_surrogate u \<and> \<not> low_surrogate u)"
| "utf16_ok (u # s # us) =
     (if high_surrogate u then low_surrogate s \<and> utf16_ok us
      else \<not> low_surrogate u \<and> utf16_ok (s # us))"

fun code_points :: "uchar list \<Rightarrow> nat list" where
  "code_points [] = []"
| "code_points [u] = [if high_surrogate u then 0xFFFD else unat u]"
| "code_points (u # s # us) =
     (if high_surrogate u \<and> low_surrogate s then surrogate_value (unat u) (unat s) # code_points us
      else unat u # code_points (s # us))"

lemma encode_utf8_code_points:
  "encode_utf8_units us =
     (concat (map EncodeWithUTF8Alphabet (code_points us)),
      \<exists>n \<in> set (code_points us). length (EncodeWithUTF8Alphabet n) > 1)"
  by (induction us rule: code_points.induct)
     (auto simp: high_surrogate_def low_surrogate_def utf8_put_def Let_def)

lemma surrogate_parts:
  assumes "high_surrogate u" "low_surrogate s"
  obtains h l where "unat u = 0xD800 + h" "h < 1024" "unat s = 0xDC00 + l" "l < 1024"
    "surrogate_value (unat u) (unat s) = 0x10000 + (h * 1024 + l)"
proof
  show "unat u = 0xD800 + (unat u - 0xD800)" "unat s = 0xDC00 + (unat s - 0xDC00)"
    "unat u - 0xD800 < 1024" "unat s - 0xDC00 < 1024"
    using assms unfolding high_surrogate_def low_surrogate_def by auto
  show "surrogate_value (unat u) (unat s) = 0x10000 + ((unat u - 0xD800) * 1024 + (unat s - 0xDC00))"
    by (simp add: surrogate_value_def)
qed

lemma surrogate_value_range:
  "high_surrogate u \<Longrightarrow> low_surrogate s \<Longrightarrow> 0x10000 \<le> surrogate_value (unat u) (unat s) \<and> surrogate_value (unat u) (unat s) < 0x110000"
  by (erule (1) surrogate_parts) simp

lemma code_points_scalar: "utf16_ok us \<Longrightarrow> \<forall>n \<in> set (code_points us). scalar n"
proof (induction us rule: utf16_ok.induct)
  case (2 u)
  have "unat u < 0x110000" by (rule order.strict_trans [OF unat_uchar_less]) simp
  with 2 show ?case by (auto simp: scalar_def high_surrogate_def low_surrogate_def)
next
  case (3 u s us)
  have "unat u < 0x110000" by (rule order.strict_trans [OF unat_uchar_less]) simp
  with 3 surrogate_value_range [of u s] show ?case
    by (auto simp: scalar_def high_surrogate_def low_surrogate_def split: if_splits)
qed simp

lemma StoreUTF16_nat:
  "n < 0x10000 \<Longrightarrow> StoreUTF16 (word_of_nat n) = [word_of_nat n]"
  "0x10000 \<le> n \<Longrightarrow> n < 0x110000 \<Longrightarrow> StoreUTF16 (word_of_nat n) =
     [word_of_nat (0xD800 + (n - 0x10000) div 1024), word_of_nat (0xDC00 + (n - 0x10000) mod 1024)]"
proof -
  assume "n < 0x10000"
  then show "StoreUTF16 (word_of_nat n) = [word_of_nat n]"
    by (auto simp: StoreUTF16_def word_less_nat_alt unat_of_nat word_unat_eq_iff unsigned_ucast_eq take_bit_nat_eq_self)
next
  assume n: "0x10000 \<le> n" "n < 0x110000"
  define m where "m = n - 0x10000"
  define w where "w = (word_of_nat n - 0x10000 :: gammu_char_t)"
  have m: "m < 0x100000" using n by (simp add: m_def)
  have "w = word_of_nat m" using n by (simp add: w_def m_def of_nat_diff)
  then have w: "unat w = m" using m by (simp add: unat_of_nat)
  have "unat (drop_bit 10 w) = m div 1024" using w by (simp add: unat_drop_bit)
  then have "unat (push_bit 10 54 OR drop_bit 10 w) = 0xD800 + m div 1024"
    using m unat_push_bit_or [of "drop_bit 10 w" 10 54] by simp
  then have h: "unat (0xD800 OR drop_bit 10 w) = 0xD800 + m div 1024" by simp
  have "unat (w AND 0x3ff) = m mod 1024" using w by (simp add: unat_and_masks)
  then have "unat (push_bit 10 55 OR (w AND 0x3ff)) = 0xDC00 + m mod 1024"
    using unat_push_bit_or [of "w AND 0x3ff" 10 55] by simp
  then have l: "unat (0xDC00 OR (w AND 0x3ff)) = 0xDC00 + m mod 1024" by simp
  have "(0xffff :: gammu_char_t) < word_of_nat n" using n by (simp add: word_less_nat_alt unat_of_nat)
  moreover have "0xD800 + m div 1024 < 0x10000" using m by simp
  moreover have "0xDC00 + m mod 1024 < 0x10000" using mod_less_divisor [of 1024 m] by linarith
  ultimately show "StoreUTF16 (word_of_nat n) =
     [word_of_nat (0xD800 + (n - 0x10000) div 1024), word_of_nat (0xDC00 + (n - 0x10000) mod 1024)]"
    unfolding m_def [symmetric]
    by (simp add: StoreUTF16_def w_def [symmetric] Let_def word_unat_eq_iff unsigned_ucast_eq h l
        unat_of_nat take_bit_nat_eq_self del: of_nat_add)
qed

lemma StoreUTF16_unit: "StoreUTF16 (ucast u) = [u]" for u :: uchar
  using StoreUTF16_nat(1) [of "unat u"] by simp

lemma store_code_points:
  "utf16_ok us \<Longrightarrow> concat (map (\<lambda>n. StoreUTF16 (word_of_nat n)) (code_points us)) = us"
proof (induction us rule: utf16_ok.induct)
  case (3 u s us)
  show ?case
  proof (cases "high_surrogate u")
    case True
    with 3 have l: "low_surrogate s" by simp
    obtain h k where *: "unat u = 0xD800 + h" "h < 1024" "unat s = 0xDC00 + k" "k < 1024"
      "surrogate_value (unat u) (unat s) = 0x10000 + (h * 1024 + k)"
      by (rule surrogate_parts [OF True l])
    then have "StoreUTF16 (word_of_nat (surrogate_value (unat u) (unat s))) = [word_of_nat (unat u), word_of_nat (unat s)]"
      unfolding *(5) by (subst StoreUTF16_nat) (simp_all add: *(1,3) del: of_nat_add)
    then have "StoreUTF16 (word_of_nat (surrogate_value (unat u) (unat s))) = [u, s]" by simp
    with 3 True l show ?thesis by simp
  next
    case False
    with 3 show ?thesis by (simp add: StoreUTF16_unit)
  qed
qed (auto simp: StoreUTF16_unit)

interpretation utf8:
  symbol_code EncodeWithUTF8Alphabet DecodeUTF8Checked
    "\<lambda>n r. (fst r, StoreUTF16 (word_of_nat n) @ snd r)" scalar
proof
  fix n rest assume n: "scalar n"
  have "EncodeWithUTF8Alphabet n \<noteq> []" using length_EncodeWithUTF8Alphabet [OF n] by auto
  then show "DecodeUTF8Checked (EncodeWithUTF8Alphabet n @ rest)
    = (fst (DecodeUTF8Checked rest), StoreUTF16 (word_of_nat n) @ snd (DecodeUTF8Checked rest))"
    by (subst DecodeUTF8Checked.simps) (simp add: decode_encode_utf8_char [OF n] Let_def)
qed

lemma foldr_store: "foldr (\<lambda>n r. (fst r, f n @ snd r)) ns (b, []) = (b, concat (map f ns))"
  by (induction ns) auto

lemma decode_encode_utf8:
  "utf16_ok us \<Longrightarrow> DecodeUTF8Checked (fst (encode_utf8_units us)) = (True, us)"
  using utf8.dec_concat [OF code_points_scalar]
  by (simp add: encode_utf8_code_points foldr_store store_code_points DecodeUTF8Checked.simps [of "[]"])

lemma take_UnicodeLength: "take (UnicodeLength s) s = cstr s"
  by (induction s) (auto simp: cstr_Cons)

lemma code_points_Cons:
  "scalar n \<Longrightarrow> code_points (StoreUTF16 (word_of_nat n) @ us) = n # code_points us
    \<and> utf16_ok (StoreUTF16 (word_of_nat n) @ us) = utf16_ok us"
proof (cases "n < 0x10000")
  case True
  assume "scalar n"
  with True have n: "\<not> high_surrogate (word_of_nat n)" "\<not> low_surrogate (word_of_nat n)"
    "unat (word_of_nat n :: uchar) = n"
    by (auto simp: scalar_def high_surrogate_def low_surrogate_def unat_of_nat)
  then show ?thesis by (cases us) (simp_all add: StoreUTF16_nat True)
next
  case False
  assume n: "scalar n"
  define h l where "h = (n - 0x10000) div 1024" and "l = (n - 0x10000) mod 1024"
  have e: "n = 0x10000 + (h * 1024 + l)"
    using False div_mult_mod_eq [of "n - 0x10000" 1024] by (simp add: h_def l_def)
  have l: "l < 1024" by (simp add: l_def)
  have "n - 0x10000 < 1024 * 1024" using n False by (simp add: scalar_def)
  then have h: "h < 1024" unfolding h_def by (rule less_mult_imp_div_less)
  have s: "StoreUTF16 (word_of_nat n) = [word_of_nat (0xD800 + h), word_of_nat (0xDC00 + l)]"
    using False n unfolding h_def l_def scalar_def by (intro StoreUTF16_nat) auto
  have u: "unat (word_of_nat (0xD800 + h) :: uchar) = 0xD800 + h" "unat (word_of_nat (0xDC00 + l) :: uchar) = 0xDC00 + l"
    using h l by (simp_all add: unat_of_nat del: of_nat_add)
  then have "high_surrogate (word_of_nat (0xD800 + h))" "low_surrogate (word_of_nat (0xDC00 + l))"
    using h l unfolding high_surrogate_def low_surrogate_def u by auto
  then show ?thesis unfolding s using u e by (simp add: surrogate_value_def del: of_nat_add)
qed

lemma encode_decode_utf8:
  "DecodeUTF8Checked bs = (True, us) \<Longrightarrow> utf16_ok us \<and> fst (encode_utf8_units us) = bs"
proof (induction bs arbitrary: us rule: DecodeUTF8Checked.induct)
  case (1 src)
  show ?case
  proof (cases "src = []")
    case True
    with 1 show ?thesis by (simp add: DecodeUTF8Checked.simps)
  next
    case False
    with 1(2) obtain z c where d: "DecodeWithUTF8Alphabet src = Some (z, c)"
      by (subst (asm) DecodeUTF8Checked.simps) (auto split: option.splits)
    with False 1(2) obtain us' where u: "us = StoreUTF16 c @ us'" "DecodeUTF8Checked (drop z src) = (True, us')"
      by (subst (asm) DecodeUTF8Checked.simps) (auto simp: Let_def prod_eq_iff)
    have IH: "utf16_ok us' \<and> fst (encode_utf8_units us') = drop z src"
      by (rule 1(1) [OF False d refl u(2)])
    note c = encode_decode_utf8_char [OF d]
    have "take z src @ drop z src = src" by simp
    with IH c code_points_Cons [of "unat c" us'] u(1) show ?thesis
      by (simp add: encode_utf8_code_points)
  qed
qed

lemma EncodeUTF8_cstr: "EncodeUTF8 s = encode_utf8_units (cstr s)"
  by (simp add: EncodeUTF8_def take_UnicodeLength)

text \<open>
  Claim C30. Every UCS-2 string without unpaired surrogates, up to its terminator, survives
  encoding to UTF-8 and decoding, and the decoder reports it valid.
\<close>

theorem utf8_roundtrip:
  assumes "utf16_ok (cstr s)"
  shows "DecodeUTF8Checked (fst (EncodeUTF8 s)) = (True, cstr s)"
  using decode_encode_utf8 [OF assms] by (simp add: EncodeUTF8_cstr)

theorem utf8_roundtrip_witness:
  "DecodeUTF8Checked (fst (EncodeUTF8 [0x41, 0xE9, 0x20AC, 0xD83D, 0xDE00, 0, 0x42]))
   = (True, [0x41, 0xE9, 0x20AC, 0xD83D, 0xDE00])"
  using utf8_roundtrip [of "[0x41, 0xE9, 0x20AC, 0xD83D, 0xDE00, 0, 0x42]"]
  by (simp add: cstr_Cons high_surrogate_def low_surrogate_def)

text \<open>
  What the checked decoder accepts is exactly canonical UTF-8: the result has no
  unpaired surrogate and encoding it gives the input bytes back, so overlong forms, encoded
  surrogates, truncated sequences and values above U+10FFFF are all rejected.
\<close>

theorem utf8_decode_canonical:
  assumes "DecodeUTF8Checked bs = (True, us)" and "0 \<notin> set us"
  shows "utf16_ok us \<and> fst (EncodeUTF8 us) = bs"
  using encode_decode_utf8 [OF assms(1)] assms(2) by (simp add: EncodeUTF8_cstr cstr_id)

theorem utf8_decode_canonical_witness:
  "utf16_ok [0xE9, 0x7A] \<and> fst (EncodeUTF8 [0xE9, 0x7A]) = [0xC3, 0xA9, 0x7A]"
  by (rule utf8_decode_canonical)
     (simp_all add: DecodeUTF8Checked.simps DecodeWithUTF8Alphabet.simps utf8_cont_def utf8_dest2_def StoreUTF16_def)

end
