(* ===== verification/CLocale.thy ===== *)
theory CLocale imports Unicode begin

text \<open>
  Conversion between UCS-2 and the multibyte strings of the C locale
  (\<^verbatim>\<open>libgammu/misc/coding/coding.c\<close>). The encoding is chosen by the environment at run time, so
  \<^verbatim>\<open>mbtowc\<close>, \<^verbatim>\<open>wctomb\<close> and \<^verbatim>\<open>MB_CUR_MAX\<close> are a record of functions each operation takes.
  \<open>None\<close> stands for their return value -1. Encodings are taken to be stateless, so the calls that
  reset the shift state have no counterpart.
\<close>

record c_locale =
  mbtowc :: "byte list \<Rightarrow> (nat \<times> gammu_char_t) option"
  wctomb :: "gammu_char_t \<Rightarrow> byte list option"
  MB_CUR_MAX :: nat

subsection \<open>Operations\<close>

text \<open>The bytes used, the character, and whether the sequence was valid.\<close>

definition EncodeWithUnicodeAlphabetChecked ::
  "c_locale \<Rightarrow> byte list \<Rightarrow> nat \<times> gammu_char_t \<times> bool" where
  "EncodeWithUnicodeAlphabetChecked loc src =
     (case mbtowc loc (take (MB_CUR_MAX loc) src) of
        None \<Rightarrow> (1, 0xFFFD, False)
      | Some (retval, out) \<Rightarrow> if retval = 0 then (1, out, True) else (retval, out, True))"

lemma EncodeWithUnicodeAlphabetChecked_pos:
  "EncodeWithUnicodeAlphabetChecked loc src = (n, wc, v) \<Longrightarrow> 0 < n"
  by (auto simp: EncodeWithUnicodeAlphabetChecked_def split: option.splits if_splits)

function EncodeUnicodeChecked :: "c_locale \<Rightarrow> byte list \<Rightarrow> bool \<times> uchar list" where
  "EncodeUnicodeChecked loc src =
     (if src = [] then (True, [])
      else let (n, wc, valid) = EncodeWithUnicodeAlphabetChecked loc src;
               r = EncodeUnicodeChecked loc (drop n src)
           in (valid \<and> fst r, StoreUTF16 wc @ snd r))"
  by pat_completeness auto
termination
  by (relation "measure (length \<circ> snd)")
     (auto dest!: EncodeWithUnicodeAlphabetChecked_pos [OF sym])

declare EncodeUnicodeChecked.simps [simp del]

definition EncodeUnicode :: "c_locale \<Rightarrow> byte list \<Rightarrow> uchar list" where
  "EncodeUnicode loc src = snd (EncodeUnicodeChecked loc src)"

definition DecodeWithUnicodeAlphabet :: "c_locale \<Rightarrow> gammu_char_t \<Rightarrow> byte list" where
  "DecodeWithUnicodeAlphabet loc src =
     (case wctomb loc src of None \<Rightarrow> [0x3F] | Some bs \<Rightarrow> bs)"

fun DecodeUnicode :: "c_locale \<Rightarrow> uchar list \<Rightarrow> byte list" where
  "DecodeUnicode loc [] = []"
| "DecodeUnicode loc [u] =
     (if u = 0 then []
      else DecodeWithUnicodeAlphabet loc (if high_surrogate u then 0xFFFD else ucast u))"
| "DecodeUnicode loc (u # s # src) =
     (if u = 0 then []
      else if high_surrogate u then
        (if low_surrogate s then
           DecodeWithUnicodeAlphabet loc (word_of_nat (surrogate_value (unat u) (unat s)))
             @ DecodeUnicode loc src
         else DecodeWithUnicodeAlphabet loc (if s = 0 then 0xFFFD else ucast u)
             @ DecodeUnicode loc (s # src))
      else DecodeWithUnicodeAlphabet loc (ucast u) @ DecodeUnicode loc (s # src))"

subsection \<open>Locales that extend ASCII\<close>

text \<open>What every locale in use documents of the characters 1 to 127.\<close>

definition ascii_locale :: "c_locale \<Rightarrow> bool" where
  "ascii_locale loc \<longleftrightarrow>
     (\<forall>b rest. 0 < b \<and> b < 128 \<longrightarrow> mbtowc loc (b # rest) = Some (1, ucast b))
     \<and> (\<forall>b :: byte. 0 < b \<and> b < 128 \<longrightarrow> wctomb loc (ucast b) = Some [b])
     \<and> 0 < MB_CUR_MAX loc"

definition posix_locale :: c_locale where
  "posix_locale =
     \<lparr>mbtowc = (\<lambda>bs. case bs of [] \<Rightarrow> None
               | b # _ \<Rightarrow> if b = 0 then Some (0, 0) else if b < 128 then Some (1, ucast b) else None),
      wctomb = (\<lambda>c. if c < 128 then Some [ucast c] else None),
      MB_CUR_MAX = 1\<rparr>"

lemma ucast_byte_less_128: "(ucast (b :: byte) :: gammu_char_t) < 128 \<longleftrightarrow> b < 128"
  by (simp add: word_less_nat_alt)

lemma ucast_byte_twice:
  "(ucast (ucast (b :: byte) :: gammu_char_t) :: byte) = b"
  "(ucast (ucast (b :: byte) :: uchar) :: gammu_char_t) = ucast b"
  by (rule bit_eqI; auto simp: bit_simps dest: bit_imp_le_length)+

lemma StoreUTF16_byte: "StoreUTF16 (ucast (b :: byte)) = [ucast b]"
  using StoreUTF16_unit [of "ucast b"] unfolding ucast_byte_twice .

lemma ascii_posix: "ascii_locale posix_locale"
proof -
  have "b \<noteq> 0" if "0 < b" for b :: byte using that by auto
  then show ?thesis unfolding ascii_locale_def posix_locale_def
    by (auto simp: ucast_byte_less_128 ucast_byte_twice)
qed

lemma EncodeUnicode_ascii:
  assumes "ascii_locale loc" "\<forall>b \<in> set s. 0 < b \<and> b < 128"
  shows "EncodeUnicodeChecked loc s = (True, map ucast s)"
  using assms(2)
proof (induction s)
  case (Cons b s)
  from assms(1) have "0 < MB_CUR_MAX loc" by (simp add: ascii_locale_def)
  then obtain m where "MB_CUR_MAX loc = Suc m" by (cases "MB_CUR_MAX loc") auto
  then have "EncodeWithUnicodeAlphabetChecked loc (b # s) = (1, ucast b, True)"
    using Cons.prems assms(1) by (simp add: EncodeWithUnicodeAlphabetChecked_def ascii_locale_def)
  then show ?case
    using Cons StoreUTF16_byte [of b] by (subst EncodeUnicodeChecked.simps) simp
qed (simp add: EncodeUnicodeChecked.simps)

lemma DecodeUnicode_ascii:
  assumes "ascii_locale loc" "\<forall>b \<in> set s. 0 < b \<and> b < (128 :: byte)"
  shows "DecodeUnicode loc (map ucast s) = s"
  using assms(2)
proof (induction s)
  case (Cons b s)
  have "unat (ucast b :: uchar) < 128" using Cons.prems by (simp add: word_less_nat_alt)
  then have h: "\<not> high_surrogate (ucast b)" by (simp add: high_surrogate_def)
  have n: "(ucast b :: uchar) \<noteq> 0"
    using Cons.prems by (auto simp: word_unat_eq_iff word_less_nat_alt)
  have "DecodeWithUnicodeAlphabet loc (ucast (ucast b :: uchar)) = [b]"
    using Cons.prems assms(1) unfolding ucast_byte_twice
    by (simp add: DecodeWithUnicodeAlphabet_def ascii_locale_def)
  then show ?case using Cons h n by (cases s) simp_all
qed simp

end
