(* ===== verification/Checked.thy ===== *)
theory Checked imports Prelude begin

text \<open>
  Code that parses a buffer it does not own, with its memory accesses in view. A step ends with
  an out of range read or write, with an error and what it had stored by then, or goes on.
\<close>

datatype ('f, 'a) stage = OobRead | OobWrite | Fail 'f | Go 'a

fun andthen :: "('f, 'a) stage \<Rightarrow> ('a \<Rightarrow> ('f, 'b) stage) \<Rightarrow> ('f, 'b) stage" where
  "andthen OobRead k = OobRead"
| "andthen OobWrite k = OobWrite"
| "andthen (Fail f) k = Fail f"
| "andthen (Go a) k = k a"

lemma andthen_Go: "andthen r k = Go b \<longleftrightarrow> (\<exists>a. r = Go a \<and> k a = Go b)"
  by (cases r) auto

text \<open>One cell, and a run of cells, of a buffer of \<open>length buffer\<close> cells.\<close>

definition rd :: "'c list \<Rightarrow> nat \<Rightarrow> ('c \<Rightarrow> ('f, 'a) stage) \<Rightarrow> ('f, 'a) stage" where
  "rd buffer pos k = (if pos < length buffer then k (buffer ! pos) else OobRead)"

definition rds :: "'c list \<Rightarrow> nat \<Rightarrow> nat \<Rightarrow> ('c list \<Rightarrow> ('f, 'a) stage) \<Rightarrow> ('f, 'a) stage" where
  "rds buffer pos n k =
     (if n = 0 \<or> pos + n \<le> length buffer then k (take n (drop pos buffer)) else OobRead)"

text \<open>A result all of whose reads are in range, and that satisfies \<open>P\<close> when it goes on.\<close>

definition reads_ok :: "('a \<Rightarrow> bool) \<Rightarrow> ('f, 'a) stage \<Rightarrow> bool" where
  "reads_ok P s = (case s of OobRead \<Rightarrow> False | Go a \<Rightarrow> P a | _ \<Rightarrow> True)"

lemma reads_ok_simps [simp]:
  "\<not> reads_ok P OobRead" "reads_ok P OobWrite" "reads_ok P (Fail f)" "reads_ok P (Go a) = P a"
  by (simp_all add: reads_ok_def)

lemma reads_ok_andthen:
  "reads_ok Q s \<Longrightarrow> (\<And>a. Q a \<Longrightarrow> reads_ok P (k a)) \<Longrightarrow> reads_ok P (andthen s k)"
  by (cases s) auto

lemma reads_ok_rd: "pos < length buffer \<Longrightarrow> reads_ok P (k (buffer ! pos)) \<Longrightarrow> reads_ok P (rd buffer pos k)"
  by (simp add: rd_def)

lemma reads_ok_rds:
  "n = 0 \<or> pos + n \<le> length buffer \<Longrightarrow> reads_ok P (k (take n (drop pos buffer))) \<Longrightarrow>
   reads_ok P (rds buffer pos n k)"
  by (auto simp: rds_def)

lemma reads_ok_mono: "reads_ok P s \<Longrightarrow> (\<And>a. P a \<Longrightarrow> Q a) \<Longrightarrow> reads_ok Q s"
  by (cases s) auto

lemmas reads_ok_intros = reads_ok_andthen reads_ok_rd reads_ok_rds

text \<open>The same for writes.\<close>

definition writes_ok :: "('a \<Rightarrow> bool) \<Rightarrow> ('f, 'a) stage \<Rightarrow> bool" where
  "writes_ok P s = (case s of OobWrite \<Rightarrow> False | Go a \<Rightarrow> P a | _ \<Rightarrow> True)"

lemma writes_ok_simps [simp]:
  "writes_ok P OobRead" "\<not> writes_ok P OobWrite" "writes_ok P (Fail f)" "writes_ok P (Go a) = P a"
  by (simp_all add: writes_ok_def)

lemma writes_ok_andthen:
  "writes_ok Q s \<Longrightarrow> (\<And>a. Q a \<Longrightarrow> writes_ok P (k a)) \<Longrightarrow> writes_ok P (andthen s k)"
  by (cases s) auto

lemma writes_ok_rd:
  "(pos < length buffer \<Longrightarrow> writes_ok P (k (buffer ! pos))) \<Longrightarrow> writes_ok P (rd buffer pos k)"
  by (simp add: rd_def)

text \<open>
  Both at once: reads are in range, a write out of range happens only under \<open>W\<close>, errors satisfy
  \<open>E\<close> and results \<open>P\<close>.
\<close>

fun safe :: "bool \<Rightarrow> ('f \<Rightarrow> bool) \<Rightarrow> ('a \<Rightarrow> bool) \<Rightarrow> ('f, 'a) stage \<Rightarrow> bool" where
  "safe W E P OobRead = False"
| "safe W E P OobWrite = W"
| "safe W E P (Fail f) = E f"
| "safe W E P (Go a) = P a"

lemma safe_andthen: "safe W E Q s \<Longrightarrow> (\<And>a. Q a \<Longrightarrow> safe W E P (k a)) \<Longrightarrow> safe W E P (andthen s k)"
  by (cases s) auto

lemma safe_rd: "pos < length buffer \<Longrightarrow> safe W E P (k (buffer ! pos)) \<Longrightarrow> safe W E P (rd buffer pos k)"
  by (simp add: rd_def)

lemma safe_rds:
  "pos + n \<le> length buffer \<Longrightarrow>
   (\<And>payload. length payload = n \<Longrightarrow> payload = take n (drop pos buffer) \<Longrightarrow> safe W E P (k payload)) \<Longrightarrow>
   safe W E P (rds buffer pos n k)"
  by (auto simp: rds_def)

lemma safe_mono:
  "safe W E P s \<Longrightarrow> (W \<Longrightarrow> W') \<Longrightarrow> (\<And>f. E f \<Longrightarrow> E' f) \<Longrightarrow> (\<And>a. P a \<Longrightarrow> Q a) \<Longrightarrow> safe W' E' Q s"
  by (cases s) auto

lemma safe_if: "(b \<Longrightarrow> safe W E P s) \<Longrightarrow> (\<not> b \<Longrightarrow> safe W E P t) \<Longrightarrow> safe W E P (if b then s else t)"
  by simp

lemmas safe_intros = safe_andthen safe_rd safe_rds safe_if

end
