(* ===== verification/Numbers.thy ===== *)
theory Numbers imports Codings Septets CLocale Checked begin

text \<open>
  Phone numbers in PDUs (GSM 03.40 9.1.2.5): \<^verbatim>\<open>GSM_UnpackSemiOctetNumber\<close> and
  \<^verbatim>\<open>GSM_PackSemiOctetNumber\<close> of \<^verbatim>\<open>libgammu/misc/coding/coding.c\<close>.
\<close>

definition GSM_MAX_NUMBER_LENGTH :: nat where
  "GSM_MAX_NUMBER_LENGTH = 200"

definition NUMBER_UNKNOWN_NUMBERING_PLAN_ISDN :: byte where
  "NUMBER_UNKNOWN_NUMBERING_PLAN_ISDN = 0x81"

definition NUMBER_INTERNATIONAL_NUMBERING_PLAN_ISDN :: byte where
  "NUMBER_INTERNATIONAL_NUMBERING_PLAN_ISDN = 0x91"

definition NUMBER_ALPHANUMERIC_NUMBERING_PLAN_UNKNOWN :: byte where
  "NUMBER_ALPHANUMERIC_NUMBERING_PLAN_UNKNOWN = 0xD0"

lemmas number_plan_defs [model_defs] = NUMBER_UNKNOWN_NUMBERING_PLAN_ISDN_def
  NUMBER_INTERNATIONAL_NUMBERING_PLAN_ISDN_def NUMBER_ALPHANUMERIC_NUMBERING_PLAN_UNKNOWN_def
  GSM_MAX_NUMBER_LENGTH_def

subsection \<open>Unpacking\<close>

text \<open>
  The octets the field takes, the octets of its payload, and the length the decoded text is
  announced with.
\<close>

definition number_consumed :: "bool \<Rightarrow> nat \<Rightarrow> nat" where
  "number_consumed semioctet field_length =
     (if semioctet then 2 + (field_length + 1) div 2 else 1 + field_length)"

definition number_payload :: "bool \<Rightarrow> nat \<Rightarrow> nat" where
  "number_payload semioctet field_length =
     (if semioctet then (field_length + 1) div 2 else field_length - 1)"

definition number_decoded_length :: "bool \<Rightarrow> nat \<Rightarrow> byte \<Rightarrow> nat" where
  "number_decoded_length semioctet field_length ty =
     (if ty AND 0x70 = NUMBER_ALPHANUMERIC_NUMBERING_PLAN_UNKNOWN AND 0x70 then
        (if semioctet then field_length * 4 div 7 else number_payload semioctet field_length * 8 div 7)
      else
        (if semioctet then field_length else number_payload semioctet field_length * 2)
          + (if ty AND 0x70 = NUMBER_INTERNATIONAL_NUMBERING_PLAN_ISDN AND 0x70 then 1 else 0))"

text \<open>The text put into \<^verbatim>\<open>Buffer\<close>, before its terminator.\<close>

definition number_text :: "bool \<Rightarrow> nat \<Rightarrow> byte \<Rightarrow> byte list \<Rightarrow> byte list" where
  "number_text semioctet field_length ty payload =
     (if ty AND 0x70 = NUMBER_ALPHANUMERIC_NUMBERING_PLAN_UNKNOWN AND 0x70 then
        GSM_UnpackEightBitsToSeven 0 (number_payload semioctet field_length)
          (number_decoded_length semioctet field_length ty) payload
      else if ty AND 0x70 = NUMBER_INTERNATIONAL_NUMBERING_PLAN_ISDN AND 0x70 then
        0x2B # DecodeBCD payload
      else DecodeBCD payload)"

text \<open>
  The result holds the return value, the number stored in \<^verbatim>\<open>retval\<close> and the new \<^verbatim>\<open>*pos\<close>; where the
  function returns early with \<^verbatim>\<open>ERR_CORRUPTED\<close> it stores neither. \<^verbatim>\<open>Buffer\<close> has
  \<open>GSM_MAX_NUMBER_LENGTH + 1\<close> cells, and \<^verbatim>\<open>strlen(Buffer)\<close> ends at the first zero.
\<close>

definition GSM_UnpackSemiOctetNumber ::
  "c_locale \<Rightarrow> byte list \<Rightarrow> nat \<Rightarrow> nat \<Rightarrow> bool \<Rightarrow> (GSM_Error, GSM_Error \<times> uchar list \<times> nat) stage" where
  "GSM_UnpackSemiOctetNumber loc Number pos bufferlength semioctet =
     (if pos \<ge> bufferlength then Fail ERR_CORRUPTED
      else rd Number pos (\<lambda>b0.
        let field_length = unat b0; consumed = number_consumed semioctet field_length in
        if consumed > bufferlength - pos then Fail ERR_CORRUPTED
        else if field_length = 0 then Go (ERR_NONE, EncodeUnicode loc [], pos + consumed)
        else rd Number (pos + 1) (\<lambda>ty.
          if number_decoded_length semioctet field_length ty > GSM_MAX_NUMBER_LENGTH
          then Fail ERR_CORRUPTED
          else if ty AND 0x80 = 0
          then Go (ERR_UNKNOWN, EncodeUnicode loc (bytes_of ''<NOT DECODED>''), pos + consumed)
          else rds Number (pos + 2) (number_payload semioctet field_length) (\<lambda>payload.
            let Buffer = number_text semioctet field_length ty payload in
            if length Buffer + 1 > GSM_MAX_NUMBER_LENGTH + 1 then OobWrite
            else Go (ERR_NONE, EncodeUnicode loc (cstr Buffer), pos + consumed)))))"

subsection \<open>Packing\<close>

text \<open>The number format and the count of leading characters it skips.\<close>

definition number_format :: "byte list \<Rightarrow> byte \<times> nat" where
  "number_format buffer =
     (if buffer ! 0 = 0x2B then (NUMBER_INTERNATIONAL_NUMBERING_PLAN_ISDN, 1)
      else if buffer ! 0 = 0x30 \<and> buffer ! 1 = 0x30 \<and> buffer ! 2 = 0x30
      then (NUMBER_UNKNOWN_NUMBERING_PLAN_ISDN, 0)
      else if buffer ! 0 = 0x30 \<and> buffer ! 1 = 0x30
      then (NUMBER_INTERNATIONAL_NUMBERING_PLAN_ISDN, 2)
      else if buffer ! 0 = 0x2B \<and> buffer ! 1 = 0x30 \<and> buffer ! 2 = 0x30
      then (NUMBER_INTERNATIONAL_NUMBERING_PLAN_ISDN, 3)
      else (NUMBER_UNKNOWN_NUMBERING_PLAN_ISDN, 0))"

text \<open>\<^verbatim>\<open>strchr\<close> finds the terminator too.\<close>

definition number_char :: "byte \<Rightarrow> bool" where
  "number_char c = (c \<in> set (0 # bytes_of ''+0123456789*#pP''))"

text \<open>
  \<open>None\<close>: the text does not fit the \<^verbatim>\<open>malloc(length + 2)\<close> buffer, or is so short that the loops
  read cells that were never written. Else the returned length and the octets of \<^verbatim>\<open>Output\<close>.
\<close>

definition GSM_PackSemiOctetNumber ::
  "c_locale \<Rightarrow> uchar list \<Rightarrow> bool \<Rightarrow> (nat \<times> byte list) option" where
  "GSM_PackSemiOctetNumber loc Number semioctet =
     (let len = UnicodeLength Number; text = DecodeUnicode loc Number; buffer = text @ [0] in
      if length buffer > len + 2 \<or> length buffer < len then None
      else
        let (format0, skip) = number_format buffer;
            format = (if \<forall>c \<in> set (take len buffer). number_char c then format0
                      else NUMBER_ALPHANUMERIC_NUMBERING_PLAN_UNKNOWN);
            (len', octets) =
              (if format = NUMBER_ALPHANUMERIC_NUMBERING_PLAN_UNKNOWN then
                 let s = cstr buffer; packed = GSM_PackSevenBitsToEight 0 s (length s)
                 in (length packed * 2 - (if length s = 7 then 1 else 0), packed)
               else if format = NUMBER_INTERNATIONAL_NUMBERING_PLAN_ISDN then
                 (len - skip, EncodeBCD (take (len - skip) (drop skip buffer)) True)
               else (len, EncodeBCD (take len buffer) True))
        in Some (if semioctet then len' else (len' + len' mod 2) div 2 + 1, format # octets))"

subsection \<open>Bounds\<close>

lemma consumed_payload:
  "field_length \<noteq> 0 \<Longrightarrow> number_consumed semioctet field_length = 2 + number_payload semioctet field_length"
  by (auto simp: number_consumed_def number_payload_def)

lemma unpack_number_reads:
  assumes "bufferlength \<le> length Number"
  shows "reads_ok (\<lambda>(err, num, pos'). pos < pos' \<and> pos' \<le> bufferlength)
    (GSM_UnpackSemiOctetNumber loc Number pos bufferlength semioctet)"
proof (cases "pos \<ge> bufferlength \<or> number_consumed semioctet (unat (Number ! pos)) > bufferlength - pos")
  case True
  then show ?thesis
    using assms by (auto simp: GSM_UnpackSemiOctetNumber_def Let_def intro!: reads_ok_rd)
next
  case False
  define f where "f = unat (Number ! pos)"
  have c: "pos + number_consumed semioctet f \<le> bufferlength" "0 < number_consumed semioctet f"
    using False by (auto simp: f_def number_consumed_def)
  show ?thesis
  proof (cases "f = 0")
    case True
    then show ?thesis using False assms c
      by (auto simp: GSM_UnpackSemiOctetNumber_def rd_def f_def [symmetric])
  next
    case f: False
    with False assms c consumed_payload [OF f, of semioctet] show ?thesis
      by (auto simp: GSM_UnpackSemiOctetNumber_def Let_def f_def [symmetric] intro!: reads_ok_rd reads_ok_rds)
  qed
qed

lemma length_DecodeBCD: "length (DecodeBCD bs) \<le> 2 * length bs"
  by (induction bs) (auto simp: bcd_digit_def)

lemma septet_byte: "list_all (\<lambda>c. c < 128) (septets_of bs)"
proof (induction bs rule: septets_of.induct)
  case (1 a b c d e f g bs)
  have "horner_sum of_bool 2 [a, b, c, d, e, f, g] < (128 :: byte)"
    by (cases a; cases b; cases c; cases d; cases e; cases f; cases g) simp_all
  with 1 show ?case by (simp only: septets_of.simps list.pred_inject)
qed simp_all

lemma bcd_byte: "list_all (\<lambda>c. c < 128) (DecodeBCD bs)"
proof -
  have d: "list_all (\<lambda>c. c < 128) (bcd_digit b)" for b
    by (rule all_byte [where b=b]) (simp add: all_bytes_list bcd_digit_def)
  then show ?thesis by (induction bs) (simp_all del: list_all_iff)
qed

lemma number_text_byte: "list_all (\<lambda>c. c < 128) (number_text s f ty payload)"
proof -
  have "list_all (\<lambda>c. c < 128) (take n (septets_of bs))" for n bs
    using septet_byte [of bs] by (auto simp: list_all_iff dest: in_set_takeD)
  then show ?thesis
    using bcd_byte by (simp add: number_text_def unpack_first)
qed

lemma number_text_length:
  assumes "number_decoded_length s f ty \<le> GSM_MAX_NUMBER_LENGTH" "length payload = number_payload s f"
    "f \<noteq> 0" "\<not> (s \<and> f = 199 \<and> ty AND 0x70 = 0x10)"
  shows "length (number_text s f ty payload) \<le> GSM_MAX_NUMBER_LENGTH"
proof -
  have p: "ty AND 0x70 = 0x10 \<Longrightarrow> \<not> ty AND 0x70 = 0x50" by simp
  have "f \<le> 200 \<Longrightarrow> 2 * (Suc f div 2) \<le> 200" using div_le_mono [of "Suc f" 201 2] by simp
  then show ?thesis
    using assms length_DecodeBCD [of payload] p
    by (auto simp: number_text_def number_decoded_length_def number_payload_def model_defs unpack_first split: if_splits)
qed

subsection \<open>Round trip\<close>

lemma UnicodeLength_map: "\<forall>b \<in> set s. 0 < b \<and> b < (128 :: byte) \<Longrightarrow> UnicodeLength (map ucast s) = length s"
proof (induction s)
  case (Cons b s)
  have "(ucast b :: uchar) \<noteq> 0" using Cons.prems by (auto simp: word_unat_eq_iff word_less_nat_alt)
  with Cons show ?case by simp
qed simp

lemma bcd_char_number: "bcd_char d \<Longrightarrow> number_char d \<and> 0 < d \<and> d < 128 \<and> d \<noteq> 0x2B"
  using bcd_char_cases [of d] by (auto simp: number_char_def)

text \<open>
  What comes back for a number: two leading zeros, if no third follows, are taken for a plus sign.
\<close>

definition read_back :: "byte list \<Rightarrow> byte list" where
  "read_back s = (if take 2 s = [0x30, 0x30] \<and> take 3 s \<noteq> [0x30, 0x30, 0x30] then 0x2B # drop 2 s else s)"

lemma digits_format:
  assumes "0x2B \<notin> set ds" "ds \<noteq> []" "0 \<notin> set ds"
  shows "number_format (ds @ [0]) = (if take 2 ds = [0x30, 0x30] \<and> take 3 ds \<noteq> [0x30, 0x30, 0x30] then (0x91, 2) else (0x81, 0))"
proof -
  obtain a r where a: "ds = a # r" using assms(2) by (cases ds) auto
  show ?thesis
  proof (cases r)
    case Nil
    then show ?thesis using assms a by (auto simp: number_format_def model_defs)
  next
    case (Cons b t)
    then show ?thesis using assms a by (cases t) (auto simp: number_format_def model_defs numeral_3_eq_3)
  qed
qed

lemma pack_digits:
  assumes "ascii_locale loc" "\<forall>d \<in> set ds. bcd_char d" "ds \<noteq> []"
  shows "read_back ds = ds \<Longrightarrow> GSM_PackSemiOctetNumber loc (map ucast ds) semioctet =
      Some (if semioctet then length ds else (length ds + length ds mod 2) div 2 + 1, 0x81 # EncodeBCD ds True)"
    "ds = 0x30 # 0x30 # ds' \<Longrightarrow> take 3 ds \<noteq> [0x30, 0x30, 0x30] \<Longrightarrow> GSM_PackSemiOctetNumber loc (map ucast ds) semioctet =
      Some (if semioctet then length ds' else (length ds' + length ds' mod 2) div 2 + 1, 0x91 # EncodeBCD ds' True)"
    "GSM_PackSemiOctetNumber loc (map ucast (0x2B # ds)) semioctet =
      Some (if semioctet then length ds else (length ds + length ds mod 2) div 2 + 1, 0x91 # EncodeBCD ds True)"
proof -
  have c: "\<forall>d \<in> set ds. number_char d \<and> 0 < d \<and> d < 128 \<and> d \<noteq> 0x2B" using assms(2) bcd_char_number by blast
  then have "0x2B \<notin> set ds" "0 \<notin> set ds" by (blast, metis less_irrefl)
  note f = digits_format [OF this(1) assms(3) this(2)]
  have l: "UnicodeLength (map ucast ds) = length ds" "DecodeUnicode loc (map ucast ds) = ds"
    using c by (simp_all add: UnicodeLength_map DecodeUnicode_ascii [OF assms(1)])
  show "GSM_PackSemiOctetNumber loc (map ucast ds) semioctet =
      Some (if semioctet then length ds else (length ds + length ds mod 2) div 2 + 1, 0x81 # EncodeBCD ds True)" if "read_back ds = ds"
  proof -
    have "\<not> (take 2 ds = [0x30, 0x30] \<and> take 3 ds \<noteq> [0x30, 0x30, 0x30])"
      using that assms(3) arg_cong [OF that, of length] unfolding read_back_def by (cases ds; cases "tl ds") (auto split: if_splits)
    then have "number_format (ds @ [0]) = (0x81, 0)" unfolding f by auto
    then show ?thesis using c by (simp add: GSM_PackSemiOctetNumber_def l Let_def model_defs)
  qed
  show "GSM_PackSemiOctetNumber loc (map ucast ds) semioctet =
      Some (if semioctet then length ds' else (length ds' + length ds' mod 2) div 2 + 1, 0x91 # EncodeBCD ds' True)"
    if ds: "ds = 0x30 # 0x30 # ds'" "take 3 ds \<noteq> [0x30, 0x30, 0x30]"
  proof -
    have "number_format (ds @ [0]) = (0x91, 2)" unfolding f using ds by simp
    then show ?thesis using c l unfolding ds(1) by (simp add: GSM_PackSemiOctetNumber_def Let_def model_defs)
  qed
  have a: "\<forall>b \<in> set (0x2B # ds). 0 < b \<and> b < 128" using c by simp
  have n: "number_char 0x2B" by (simp add: number_char_def)
  show "GSM_PackSemiOctetNumber loc (map ucast (0x2B # ds)) semioctet =
      Some (if semioctet then length ds else (length ds + length ds mod 2) div 2 + 1, 0x91 # EncodeBCD ds True)"
    using c n unfolding GSM_PackSemiOctetNumber_def UnicodeLength_map [OF a] DecodeUnicode_ascii [OF assms(1) a]
    by (simp add: Let_def model_defs number_format_def)
qed

definition number_field :: "(nat \<times> byte list) option \<Rightarrow> byte list" where
  "number_field p = (case p of None \<Rightarrow> [] | Some (n, octets) \<Rightarrow> word_of_nat n # octets)"

lemma unpack_digits:
  assumes "ascii_locale loc" "\<forall>d \<in> set ds. bcd_char d" "ds \<noteq> []" "length ds \<le> 198"
  shows "GSM_UnpackSemiOctetNumber loc
      (word_of_nat (if semioctet then length ds else (length ds + length ds mod 2) div 2 + 1)
        # (if intl then 0x91 else 0x81) # EncodeBCD ds True)
      0 (2 + (length ds + 1) div 2) semioctet
    = Go (ERR_NONE, map ucast ((if intl then [0x2B] else []) @ ds), 2 + (length ds + 1) div 2)"
proof -
  have e: "(length ds + length ds mod 2) div 2 = (length ds + 1) div 2" by presburger
  define f where "f = (if semioctet then length ds else (length ds + length ds mod 2) div 2 + 1)"
  have f: "f < 256" "f \<noteq> 0" "number_payload semioctet f = (length ds + 1) div 2"
    "number_consumed semioctet f = 2 + (length ds + 1) div 2"
    using assms(3,4) by (auto simp: f_def e number_payload_def number_consumed_def)
  then have u: "unat (word_of_nat f :: byte) = f" by (simp add: unat_of_nat)
  have d: "number_decoded_length semioctet f (if intl then 0x91 else 0x81) \<le> GSM_MAX_NUMBER_LENGTH"
    using assms(4) f(3) by (auto simp: number_decoded_length_def model_defs f_def)
  have t: "number_text semioctet f (if intl then 0x91 else 0x81) (EncodeBCD ds True) = (if intl then [0x2B] else []) @ ds"
    by (simp add: number_text_def model_defs decode_encode_bcd [OF assms(2)])
  have c: "\<forall>b \<in> set ((if intl then [0x2B] else []) @ ds). 0 < b \<and> b < 128"
    using assms(2) bcd_char_number by auto
  have "0 \<notin> set ((if intl then [0x2B] else []) @ ds)" using c by (metis less_irrefl)
  then have s: "cstr ((if intl then [0x2B] else []) @ ds) = (if intl then [0x2B] else []) @ ds" by (rule cstr_id)
  show ?thesis
    unfolding f_def [symmetric] GSM_UnpackSemiOctetNumber_def
    using f u d t s EncodeUnicode_ascii [OF assms(1) c] assms(4)
    by (simp add: rd_def rds_def length_EncodeBCD Let_def EncodeUnicode_def model_defs)
qed

lemma unpack_number_write:
  assumes "GSM_UnpackSemiOctetNumber loc Number pos bufferlength semioctet = OobWrite"
    "bufferlength \<le> length Number"
  shows "semioctet \<and> Number ! pos = 199 \<and> Number ! (pos + 1) AND 0x70 = 0x10"
proof -
  define f ty where "f = unat (Number ! pos)" and "ty = Number ! (pos + 1)"
  define payload where "payload = take (number_payload semioctet f) (drop (pos + 2) Number)"
  from assms have f: "f \<noteq> 0" "number_consumed semioctet f \<le> bufferlength - pos" "pos < bufferlength"
    and d: "number_decoded_length semioctet f ty \<le> GSM_MAX_NUMBER_LENGTH"
    and t: "\<not> length (number_text semioctet f ty payload) \<le> GSM_MAX_NUMBER_LENGTH"
    by (auto simp: GSM_UnpackSemiOctetNumber_def rd_def rds_def Let_def f_def ty_def payload_def
        split: if_splits)
  have "length payload = number_payload semioctet f"
    using f consumed_payload [OF f(1), of semioctet] assms(2) by (simp add: payload_def)
  from number_text_length [OF d this f(1)] t have "semioctet \<and> f = 199 \<and> ty AND 0x70 = 0x10" by blast
  moreover from this have "Number ! pos = 199" by (simp add: f_def word_unat_eq_iff)
  ultimately show ?thesis by (simp add: ty_def)
qed

lemma number_buffer_overflow:
  "GSM_UnpackSemiOctetNumber loc ([199, 0x91] @ replicate 100 0x11) 0 102 True = OobWrite"
proof -
  have "length (DecodeBCD (replicate n 0x11)) = 2 * n" for n
    by (induction n) (simp_all add: bcd_digit_def)
  from this [of 100] show ?thesis
    by (simp add: GSM_UnpackSemiOctetNumber_def rd_def rds_def number_consumed_def number_payload_def
        number_decoded_length_def number_text_def model_defs Let_def)
qed

subsection \<open>Properties\<close>

text \<open>
  Claim C29. Unpacking a number never reads behind the given length, whatever the octets say, and
  on success moves the position forward within it; the text buffer can only overflow for an
  international number of exactly 199 semi-octets (which the check \<^verbatim>\<open>decoded_length\<close> lets
  through, as the lemma \<open>number_buffer_overflow\<close> shows).
\<close>

theorem unpack_number_safe:
  assumes "bufferlength \<le> length Number"
  shows "GSM_UnpackSemiOctetNumber loc Number pos bufferlength semioctet \<noteq> OobRead
    \<and> (\<forall>err num pos'. GSM_UnpackSemiOctetNumber loc Number pos bufferlength semioctet = Go (err, num, pos')
          \<longrightarrow> pos < pos' \<and> pos' \<le> bufferlength)
    \<and> (GSM_UnpackSemiOctetNumber loc Number pos bufferlength semioctet = OobWrite
          \<longrightarrow> semioctet \<and> Number ! pos = 199 \<and> Number ! (pos + 1) AND 0x70 = 0x10)"
  using unpack_number_reads [OF assms, of pos loc semioctet]
    unpack_number_write [OF _ assms, of loc pos semioctet]
  by (auto simp: reads_ok_def split: stage.splits)

theorem unpack_number_safe_witness:
  "GSM_UnpackSemiOctetNumber posix_locale [4, 0x81, 0x21, 0x43] 0 4 True \<noteq> OobRead"
  using unpack_number_safe [of 4 "[4, 0x81, 0x21, 0x43]" posix_locale 0 True] by simp

text \<open>
  Claim C31. A number of 1 to 198 digits (and the other characters of semi-octets), with or without a leading plus
  sign, comes back from the field packed from it, in the semi-octet form of the PDU and in the octet form of the SMSC address,
  except that two leading zeros come back as a plus sign (\<open>read_back\<close>), unless a third one follows. The number of
  two zeros alone is left out: nothing is packed of it.
\<close>

theorem number_roundtrip:
  assumes "ascii_locale loc" "\<forall>d \<in> set ds. bcd_char d" "ds \<noteq> []" "length ds \<le> 198" "s = ds \<or> s = 0x2B # ds" "s \<noteq> [0x30, 0x30]"
  shows "GSM_UnpackSemiOctetNumber loc
      (number_field (GSM_PackSemiOctetNumber loc (map ucast s) semioctet)) 0
      (length (number_field (GSM_PackSemiOctetNumber loc (map ucast s) semioctet))) semioctet
    = Go (ERR_NONE, map ucast (read_back s), length (number_field (GSM_PackSemiOctetNumber loc (map ucast s) semioctet)))"
proof -
  have l: "length (EncodeBCD ds True) = (length ds + 1) div 2" for ds by (rule length_EncodeBCD)
  from assms(5) show ?thesis
  proof
    assume s: "s = ds"
    show ?thesis
    proof (cases "read_back ds = ds")
      case True
      then show ?thesis
        using unpack_digits [OF assms(1,2,3,4), of semioctet False] l pack_digits(1) [OF assms(1-3)] s
        by (simp add: number_field_def)
    next
      case False
      then have z: "take 2 ds = [0x30, 0x30]" "take 3 ds \<noteq> [0x30, 0x30, 0x30]" by (auto simp: read_back_def split: if_splits)
      then obtain ds' where ds: "ds = 0x30 # 0x30 # ds'" by (cases ds; cases "tl ds") auto
      have ds': "\<forall>d \<in> set ds'. bcd_char d" "ds' \<noteq> []" "length ds' \<le> 198" using assms(2,4,6) s ds by auto
      have "read_back ds = 0x2B # ds'" using z ds by (simp add: read_back_def)
      then show ?thesis
        using unpack_digits [OF assms(1) ds', of semioctet True] l pack_digits(2) [OF assms(1-3) ds z(2)] s
        by (simp add: number_field_def)
    qed
  next
    assume s: "s = 0x2B # ds"
    then have "read_back s = s" by (simp add: read_back_def)
    then show ?thesis
      using unpack_digits [OF assms(1,2,3,4), of semioctet True] l pack_digits(3) [OF assms(1-3)] s
      by (simp add: number_field_def)
  qed
qed

theorem number_roundtrip_witness:
  "GSM_UnpackSemiOctetNumber posix_locale
      (number_field (GSM_PackSemiOctetNumber posix_locale (map ucast (bytes_of ''00420123456'')) True)) 0
      (length (number_field (GSM_PackSemiOctetNumber posix_locale (map ucast (bytes_of ''00420123456'')) True))) True
    = Go (ERR_NONE, map ucast (bytes_of ''+420123456''),
        length (number_field (GSM_PackSemiOctetNumber posix_locale (map ucast (bytes_of ''00420123456'')) True)))"
proof -
  have "read_back (bytes_of ''00420123456'') = bytes_of ''+420123456''" by (simp add: read_back_def)
  moreover have "\<forall>d \<in> set (bytes_of ''00420123456''). bcd_char d" "bytes_of ''00420123456'' \<noteq> []"
    "length (bytes_of ''00420123456'') \<le> 198" "bytes_of ''00420123456'' \<noteq> [0x30, 0x30]"
    by (simp_all add: bcd_char_def word_le_nat_alt)
  ultimately show ?thesis
    using number_roundtrip [OF ascii_posix, of "bytes_of ''00420123456''" "bytes_of ''00420123456''" True] by simp
qed

end
