(* ===== verification/Alphabet.thy ===== *)
theory Alphabet imports Escapes begin

text \<open>
  The GSM 03.38 default alphabet of \<^verbatim>\<open>libgammu/misc/coding/coding.c\<close>: the tables,
  \<^verbatim>\<open>DecodeDefault\<close>, \<^verbatim>\<open>EncodeDefault\<close> and \<^verbatim>\<open>FindDefaultAlphabetLen\<close>. A table row is a
  pair of a key and a UCS-2 unit; the terminating rows are left out, as the ends of the lists.
\<close>

subsection \<open>Tables\<close>

definition GSM_DefaultAlphabetUnicode :: "uchar list" where
  "GSM_DefaultAlphabetUnicode =
    [0x40, 0xa3, 0x24, 0xa5, 0xe8, 0xe9, 0xf9, 0xec, 0xf2, 0xc7, 0xa, 0xd8, 0xf8, 0xd, 0xc5,
     0xe5, 0x394, 0x5f, 0x3a6, 0x393, 0x39b, 0x3a9, 0x3a0, 0x3a8, 0x3a3, 0x398, 0x39e, 0xb9,
     0xc6, 0xe6, 0xdf, 0xc9, 0x20, 0x21, 0x22, 0x23, 0xa4, 0x25, 0x26, 0x27, 0x28, 0x29, 0x2a,
     0x2b, 0x2c, 0x2d, 0x2e, 0x2f, 0x30, 0x31, 0x32, 0x33, 0x34, 0x35, 0x36, 0x37, 0x38, 0x39,
     0x3a, 0x3b, 0x3c, 0x3d, 0x3e, 0x3f, 0xa1, 0x41, 0x42, 0x43, 0x44, 0x45, 0x46, 0x47, 0x48,
     0x49, 0x4a, 0x4b, 0x4c, 0x4d, 0x4e, 0x4f, 0x50, 0x51, 0x52, 0x53, 0x54, 0x55, 0x56, 0x57,
     0x58, 0x59, 0x5a, 0xc4, 0xd6, 0xd1, 0xdc, 0xa7, 0xbf, 0x61, 0x62, 0x63, 0x64, 0x65, 0x66,
     0x67, 0x68, 0x69, 0x6a, 0x6b, 0x6c, 0x6d, 0x6e, 0x6f, 0x70, 0x71, 0x72, 0x73, 0x74, 0x75,
     0x76, 0x77, 0x78, 0x79, 0x7a, 0xe4, 0xf6, 0xf1, 0xfc, 0xe0, 0]"

definition GSM_DefaultAlphabetCharsExtension :: "(byte \<times> uchar) list" where
  "GSM_DefaultAlphabetCharsExtension =
    [(0x0a, 0x0c), (0x14, 0x5e), (0x28, 0x7b), (0x29, 0x7d), (0x2f, 0x5c), (0x3c, 0x5b),
     (0x3d, 0x7E), (0x3e, 0x5d), (0x40, 0x7C), (0x65, 0x20AC)]"

text \<open>Pairs of a national character and the plain Latin character that replaces it.\<close>

definition ConvertTable :: "(uchar \<times> uchar) list" where
  "ConvertTable =
    [(0xc0, 0x41), (0xe0, 0x61), (0xc1, 0x41), (0xe1, 0x61), (0xc2, 0x41), (0xe2, 0x61), (0xc3,
     0x41), (0xe3, 0x61), (0x1ea0, 0x41), (0x1ea1, 0x61), (0x1ea2, 0x41), (0x1ea3, 0x61),
     (0x1ea4, 0x41), (0x1ea5, 0x61), (0x1ea6, 0x41), (0x1ea7, 0x61), (0x1ea8, 0x41), (0x1ea9,
     0x61), (0x1eaa, 0x41), (0x1eab, 0x61), (0x1eac, 0x41), (0x1ead, 0x61), (0x1eae, 0x41),
     (0x1eaf, 0x61), (0x1eb0, 0x41), (0x1eb1, 0x61), (0x1eb2, 0x41), (0x1eb3, 0x61), (0x1eb4,
     0x41), (0x1eb5, 0x61), (0x1eb6, 0x41), (0x1eb7, 0x61), (0x1cd, 0x41), (0x1ce, 0x61), (0x100,
     0x41), (0x101, 0x61), (0x102, 0x41), (0x103, 0x61), (0x104, 0x41), (0x105, 0x61), (0x1fb,
     0x61), (0x106, 0x43), (0x107, 0x63), (0x108, 0x43), (0x109, 0x63), (0x10a, 0x43), (0x10b,
     0x63), (0x10c, 0x43), (0x10d, 0x63), (0xe7, 0x63), (0x10e, 0x44), (0x10f, 0x64), (0x110,
     0x44), (0x111, 0x64), (0xc8, 0x45), (0xca, 0x45), (0xea, 0x65), (0xcb, 0x45), (0xeb, 0x65),
     (0x1eb8, 0x45), (0x1eb9, 0x65), (0x1eba, 0x45), (0x1ebb, 0x65), (0x1ebc, 0x45), (0x1ebd,
     0x65), (0x1ebe, 0x45), (0x1ebf, 0x65), (0x1ec0, 0x45), (0x1ec1, 0x65), (0x1ec2, 0x45),
     (0x1ec3, 0x65), (0x1ec4, 0x45), (0x1ec5, 0x65), (0x1ec6, 0x45), (0x1ec7, 0x65), (0x112,
     0x45), (0x113, 0x65), (0x114, 0x45), (0x115, 0x65), (0x116, 0x45), (0x117, 0x65), (0x118,
     0x45), (0x119, 0x65), (0x11a, 0x45), (0x11b, 0x65), (0x11c, 0x47), (0x11d, 0x67), (0x11e,
     0x47), (0x11f, 0x67), (0x120, 0x47), (0x121, 0x67), (0x122, 0x47), (0x123, 0x67), (0x124,
     0x48), (0x125, 0x68), (0x126, 0x48), (0x127, 0x68), (0xcc, 0x49), (0xcd, 0x49), (0xed,
     0x69), (0xce, 0x49), (0xee, 0x69), (0xcf, 0x49), (0xef, 0x69), (0x128, 0x49), (0x129, 0x69),
     (0x12a, 0x49), (0x12b, 0x69), (0x12c, 0x49), (0x12d, 0x69), (0x12e, 0x49), (0x12f, 0x69),
     (0x130, 0x49), (0x131, 0x69), (0x1cf, 0x49), (0x1d0, 0x69), (0x1ec8, 0x49), (0x1ec9, 0x69),
     (0x1eca, 0x49), (0x1ecb, 0x69), (0x134, 0x4a), (0x135, 0x6a), (0x136, 0x4b), (0x137, 0x6b),
     (0x139, 0x4c), (0x13a, 0x6c), (0x13b, 0x4c), (0x13c, 0x6c), (0x13d, 0x4c), (0x13e, 0x6c),
     (0x13f, 0x4c), (0x140, 0x6c), (0x141, 0x4c), (0x142, 0x6c), (0x143, 0x4e), (0x144, 0x6e),
     (0x145, 0x4e), (0x146, 0x6e), (0x147, 0x4e), (0x148, 0x6e), (0x149, 0x6e), (0xd2, 0x4f),
     (0xd3, 0x4f), (0xf3, 0x6f), (0xd4, 0x4f), (0xf4, 0x6f), (0xd5, 0x4f), (0xf5, 0x6f), (0x14c,
     0x4f), (0x14d, 0x6f), (0x14e, 0x4f), (0x14f, 0x6f), (0x150, 0x4f), (0x151, 0x6f), (0x1a0,
     0x4f), (0x1a1, 0x6f), (0x1d1, 0x4f), (0x1d2, 0x6f), (0x1ecc, 0x4f), (0x1ecd, 0x6f), (0x1ece,
     0x4f), (0x1ecf, 0x6f), (0x1ed0, 0x4f), (0x1ed1, 0x6f), (0x1ed2, 0x4f), (0x1ed3, 0x6f),
     (0x1ed4, 0x4f), (0x1ed5, 0x6f), (0x1ed6, 0x4f), (0x1ed7, 0x6f), (0x1ed8, 0x4f), (0x1ed9,
     0x6f), (0x1eda, 0x4f), (0x1edb, 0x6f), (0x1edc, 0x4f), (0x1edd, 0x6f), (0x1ede, 0x4f),
     (0x1edf, 0x6f), (0x1ee0, 0x4f), (0x1ee1, 0x6f), (0x1ee2, 0x4f), (0x1ee3, 0x6f), (0x154,
     0x52), (0x155, 0x72), (0x156, 0x52), (0x157, 0x72), (0x158, 0x52), (0x159, 0x72), (0x15a,
     0x53), (0x15b, 0x73), (0x15c, 0x53), (0x15d, 0x73), (0x15e, 0x53), (0x15f, 0x73), (0x160,
     0x53), (0x161, 0x73), (0x162, 0x54), (0x163, 0x74), (0x164, 0x54), (0x165, 0x74), (0x166,
     0x54), (0x167, 0x74), (0xd9, 0x55), (0xda, 0x55), (0xfa, 0x75), (0xdb, 0x55), (0xfb, 0x75),
     (0x168, 0x55), (0x169, 0x75), (0x16a, 0x55), (0x16b, 0x75), (0x16c, 0x55), (0x16d, 0x75),
     (0x16e, 0x55), (0x16f, 0x75), (0x170, 0x55), (0x171, 0x75), (0x172, 0x55), (0x173, 0x75),
     (0x1af, 0x55), (0x1b0, 0x75), (0x1d3, 0x55), (0x1d4, 0x75), (0x1d5, 0x55), (0x1d6, 0x75),
     (0x1d7, 0x55), (0x1d8, 0x75), (0x1d9, 0x55), (0x1da, 0x75), (0x1db, 0x55), (0x1dc, 0x75),
     (0x1ee4, 0x55), (0x1ee5, 0x75), (0x1ee6, 0x55), (0x1ee7, 0x75), (0x1ee8, 0x55), (0x1ee9,
     0x75), (0x1eea, 0x55), (0x1eeb, 0x75), (0x1eec, 0x55), (0x1eed, 0x75), (0x1eee, 0x55),
     (0x1eef, 0x75), (0x1ef0, 0x55), (0x1ef1, 0x75), (0x174, 0x57), (0x175, 0x77), (0x1e80,
     0x57), (0x1e81, 0x77), (0x1e82, 0x57), (0x1e83, 0x77), (0x1e84, 0x57), (0x1e85, 0x77),
     (0xdd, 0x59), (0xfd, 0x79), (0xff, 0x79), (0x176, 0x59), (0x177, 0x79), (0x178, 0x59),
     (0x1ef2, 0x59), (0x1ef3, 0x75), (0x1ef4, 0x59), (0x1ef5, 0x79), (0x1ef6, 0x59), (0x1ef7,
     0x79), (0x1ef8, 0x59), (0x1ef9, 0x79), (0x179, 0x5a), (0x17a, 0x7a), (0x17b, 0x5a), (0x17c,
     0x7a), (0x17d, 0x5a), (0x17e, 0x7a), (0x1fc, 0xc6), (0x1fd, 0xe6), (0x1fe, 0xd8), (0x1ff,
     0xf8)]"

subsection \<open>Searches\<close>

fun unit_of_code :: "byte \<Rightarrow> (byte \<times> uchar) list \<Rightarrow> uchar option" where
  "unit_of_code c [] = None"
| "unit_of_code c ((k, u) # rows) = (if k = c then Some u else unit_of_code c rows)"

fun code_of_unit :: "uchar \<Rightarrow> (byte \<times> uchar) list \<Rightarrow> byte option" where
  "code_of_unit u [] = None"
| "code_of_unit u ((k, v) # rows) = (if v = u then Some k else code_of_unit u rows)"

text \<open>The index search stops at the first row whose low byte is 0, the terminator.\<close>

fun index_from :: "nat \<Rightarrow> uchar \<Rightarrow> uchar list \<Rightarrow> nat option" where
  "index_from j u [] = None"
| "index_from j u (v # table) =
     (if unit_lo v = 0 then None else if v = u then Some j else index_from (j + 1) u table)"

definition default_index :: "uchar \<Rightarrow> nat option" where
  "default_index u = index_from 0 u GSM_DefaultAlphabetUnicode"

fun convert_search :: "uchar \<Rightarrow> (uchar \<times> uchar) list \<Rightarrow> nat option" where
  "convert_search u [] = None"
| "convert_search u ((v, w) # table) =
     (if v = u then (case default_index w of Some z \<Rightarrow> Some z | None \<Rightarrow> convert_search u table)
      else convert_search u table)"

subsection \<open>Conversions\<close>

text \<open>
  \<open>extra\<close> is \<^verbatim>\<open>ExtraAlphabet\<close>, \<open>None\<close> for \<^verbatim>\<open>NULL\<close>. Its decoder loop ends at a row with code 0,
  its encoder loop at a row of zeros. Codes from 129 index the default table behind its end.
\<close>

definition decode_default_char :: "(byte \<times> uchar) list option \<Rightarrow> byte \<Rightarrow> uchar" where
  "decode_default_char extra c =
     (case (case extra of None \<Rightarrow> None | Some rows \<Rightarrow> unit_of_code c (takeWhile (\<lambda>r. fst r \<noteq> 0) rows)) of
        Some u \<Rightarrow> u
      | None \<Rightarrow> GSM_DefaultAlphabetUnicode ! unat c)"

fun DecodeDefault :: "byte list \<Rightarrow> bool \<Rightarrow> (byte \<times> uchar) list option \<Rightarrow> uchar list" where
  "DecodeDefault [] UseExtensions extra = []"
| "DecodeDefault [c] UseExtensions extra = [decode_default_char extra c]"
| "DecodeDefault (c # d # src) UseExtensions extra =
     (case (if UseExtensions \<and> c = 0x1b then unit_of_code d GSM_DefaultAlphabetCharsExtension else None) of
        Some u \<Rightarrow> u # DecodeDefault src UseExtensions extra
      | None \<Rightarrow> decode_default_char extra c # DecodeDefault (d # src) UseExtensions extra)"

definition encode_default_char :: "bool \<Rightarrow> (byte \<times> uchar) list option \<Rightarrow> uchar \<Rightarrow> byte list" where
  "encode_default_char UseExtensions extra u =
     (case (if UseExtensions then code_of_unit u GSM_DefaultAlphabetCharsExtension else None) of
        Some k \<Rightarrow> [0x1b, k]
      | None \<Rightarrow>
        (case default_index u of
           Some j \<Rightarrow> [word_of_nat j]
         | None \<Rightarrow>
           (case (case extra of None \<Rightarrow> None
                  | Some rows \<Rightarrow> code_of_unit u (takeWhile (\<lambda>r. r \<noteq> (0, 0)) rows)) of
              Some k \<Rightarrow> [k]
            | None \<Rightarrow>
              (case convert_search u ConvertTable of
                 Some z \<Rightarrow> [word_of_nat z]
               | None \<Rightarrow> [0x3F]))))"

definition EncodeDefault :: "uchar list \<Rightarrow> nat \<Rightarrow> bool \<Rightarrow> (byte \<times> uchar) list option \<Rightarrow> byte list" where
  "EncodeDefault src len UseExtensions extra =
     concat (map (encode_default_char UseExtensions extra) (take len src))"

text \<open>\<open>i\<close> counts the units taken, \<open>current\<close> the septets they need; the result is the pair stored
  through \<^verbatim>\<open>srclen\<close> and \<^verbatim>\<open>smslen\<close>.\<close>

fun find_default_len :: "uchar list \<Rightarrow> nat \<Rightarrow> nat \<Rightarrow> nat \<Rightarrow> nat \<times> nat" where
  "find_default_len [] i current maxlen = (i, current)"
| "find_default_len (u # src) i current maxlen =
     (if u = 0 then (i, current)
      else case code_of_unit u GSM_DefaultAlphabetCharsExtension of
        Some _ \<Rightarrow> if current + 2 > maxlen then (i, current)
                  else find_default_len src (i + 1) (current + 2) maxlen
      | None \<Rightarrow> if current + 1 > maxlen then (i, current)
                else find_default_len src (i + 1) (current + 1) maxlen)"

definition FindDefaultAlphabetLen :: "uchar list \<Rightarrow> nat \<Rightarrow> nat \<times> nat" where
  "FindDefaultAlphabetLen src maxlen = find_default_len src 0 0 maxlen"

subsection \<open>The tables\<close>

lemma default_table_length: "length GSM_DefaultAlphabetUnicode = 129"
  by (simp add: GSM_DefaultAlphabetUnicode_def)

lemma default_table_distinct: "distinct GSM_DefaultAlphabetUnicode"
  by (simp add: GSM_DefaultAlphabetUnicode_def)

lemma default_table_rows: "list_all (\<lambda>v. unit_lo v \<noteq> 0) (take 128 GSM_DefaultAlphabetUnicode)"
  by (simp add: GSM_DefaultAlphabetUnicode_def unit_lo_def)

lemma index_from_nth:
  "distinct table \<Longrightarrow> j < length table \<Longrightarrow> list_all (\<lambda>v. unit_lo v \<noteq> 0) (take (Suc j) table) \<Longrightarrow>
   index_from k (table ! j) table = Some (k + j)"
proof (induction table arbitrary: j k)
  case (Cons v table)
  show ?case
  proof (cases j)
    case (Suc i)
    with Cons.prems have "v \<noteq> table ! i" by (auto simp: in_set_conv_nth)
    with Cons Suc show ?thesis using Cons.IH [of i "k + 1"] by simp
  qed (use Cons.prems in simp)
qed simp

lemma index_from_Some:
  "index_from k u table = Some j \<Longrightarrow> k \<le> j \<and> j - k < length table \<and> table ! (j - k) = u \<and> unit_lo u \<noteq> 0"
proof (induction k u table rule: index_from.induct)
  case (2 j' u v table)
  show ?case
  proof (cases "v = u")
    case False
    with 2 have "j' + 1 \<le> j \<and> j - (j' + 1) < length table \<and> table ! (j - (j' + 1)) = u \<and> unit_lo u \<noteq> 0"
      by (auto split: if_splits)
    moreover then have "j - j' = Suc (j - (j' + 1))" by linarith
    ultimately show ?thesis by simp
  qed (use 2 in \<open>auto split: if_splits\<close>)
qed simp

lemma default_index_nth: "j < 128 \<Longrightarrow> default_index (GSM_DefaultAlphabetUnicode ! j) = Some j"
proof -
  assume j: "j < 128"
  have "set (take (Suc j) GSM_DefaultAlphabetUnicode) \<subseteq> set (take 128 GSM_DefaultAlphabetUnicode)"
    using j by (intro set_take_subset_set_take) simp
  then have "list_all (\<lambda>v. unit_lo v \<noteq> 0) (take (Suc j) GSM_DefaultAlphabetUnicode)"
    using default_table_rows by (auto simp: list_all_iff)
  then show ?thesis
    using index_from_nth [of GSM_DefaultAlphabetUnicode j 0] j default_table_distinct default_table_length
    by (simp add: default_index_def)
qed

lemma default_last: "GSM_DefaultAlphabetUnicode ! 128 = 0"
  by (simp add: GSM_DefaultAlphabetUnicode_def)

lemma default_index_Some: "default_index u = Some j \<Longrightarrow> j < 128 \<and> GSM_DefaultAlphabetUnicode ! j = u"
proof -
  assume "default_index u = Some j"
  then have j: "j < 129" "GSM_DefaultAlphabetUnicode ! j = u" "unit_lo u \<noteq> 0"
    using index_from_Some [of 0 u GSM_DefaultAlphabetUnicode j] default_table_length
    by (auto simp: default_index_def)
  have "j \<noteq> 128"
  proof
    assume "j = 128"
    with j default_last have "u = 0" by simp
    with j(3) show False by (simp add: unit_lo_def)
  qed
  with j show ?thesis by auto
qed

lemma extension_rows:
  "code_of_unit u GSM_DefaultAlphabetCharsExtension = Some k \<Longrightarrow>
     unit_of_code k GSM_DefaultAlphabetCharsExtension = Some u \<and> k < 128 \<and> k \<noteq> 0"
  by (auto simp: GSM_DefaultAlphabetCharsExtension_def split: if_splits)

subsection \<open>Round trip\<close>

text \<open>
  A unit the alphabet can carry: in the default table or its extension. The superscript one,
  U+00B9, is left out: the table gives it the escape code itself, so it can swallow its successor.
\<close>

definition gsm_unit :: "uchar \<Rightarrow> bool" where
  "gsm_unit u = ((default_index u \<noteq> None \<and> u \<noteq> 0xB9)
     \<or> code_of_unit u GSM_DefaultAlphabetCharsExtension \<noteq> None)"

lemma escape_index: "GSM_DefaultAlphabetUnicode ! 27 = 0xB9"
  by (simp add: GSM_DefaultAlphabetUnicode_def)

lemma decode_plain:
  assumes "c \<noteq> 0x1b"
  shows "DecodeDefault (c # rest) x extra = decode_default_char extra c # DecodeDefault rest x extra"
  using assms by (cases rest) auto

interpretation gsm7: symbol_code "encode_default_char True None" "\<lambda>bs. DecodeDefault bs True None" "(#)" gsm_unit
proof
  fix u rest assume u: "gsm_unit u"
  show "DecodeDefault (encode_default_char True None u @ rest) True None = u # DecodeDefault rest True None"
  proof (cases "code_of_unit u GSM_DefaultAlphabetCharsExtension")
    case (Some k)
    with extension_rows [OF Some] show ?thesis by (simp add: encode_default_char_def)
  next
    case None
    with u obtain j where j: "default_index u = Some j" "u \<noteq> 0xB9" by (auto simp: gsm_unit_def)
    from default_index_Some [OF j(1)] have J: "j < 128" "GSM_DefaultAlphabetUnicode ! j = u" by auto
    then have "unat (word_of_nat j :: byte) = j" by (simp add: unat_of_nat)
    moreover have "word_of_nat j \<noteq> (0x1b :: byte)"
    proof
      assume "word_of_nat j = (0x1b :: byte)"
      with calculation have "j = 27" by simp
      with J escape_index j(2) show False by simp
    qed
    ultimately show ?thesis
      using None j J by (simp add: encode_default_char_def decode_plain decode_default_char_def)
  qed
qed

lemma encode_default_septets: "\<forall>c \<in> set (encode_default_char x None u). c < 128"
proof -
  have d: "word_of_nat j < (128 :: byte)" if "j < 128" for j
    using that by (simp add: word_less_nat_alt unat_of_nat)
  have c: "convert_search v table = Some z \<Longrightarrow> z < 128" for v table z
    by (induction v table rule: convert_search.induct)
       (auto dest: default_index_Some split: if_splits option.splits)
  show ?thesis
    using d c default_index_Some extension_rows
    by (auto simp: encode_default_char_def split: option.splits if_splits)
qed

lemma length_encode_default:
  "length (encode_default_char True extra u) =
     (if code_of_unit u GSM_DefaultAlphabetCharsExtension = None then 1 else 2)"
  by (auto simp: encode_default_char_def split: option.splits)

lemma EncodeDefault_append:
  "n \<le> length xs \<Longrightarrow> EncodeDefault (xs @ ys) n x e = EncodeDefault xs n x e"
  by (simp add: EncodeDefault_def)

subsection \<open>The prefix that fits\<close>

lemma find_default_len_spec:
  assumes "current \<le> maxlen"
  shows "\<exists>k. find_default_len src i current maxlen = (i + k, current + length (EncodeDefault src k True extra))
    \<and> k \<le> length (cstr src) \<and> current + length (EncodeDefault src k True extra) \<le> maxlen
    \<and> (k < length (cstr src) \<longrightarrow> maxlen < current + length (EncodeDefault src (k + 1) True extra))"
  using assms
proof (induction src arbitrary: i current)
  case Nil
  then show ?case by (simp add: EncodeDefault_def)
next
  case (Cons u src)
  define n where "n = length (encode_default_char True extra u)"
  have step: "u \<noteq> 0 \<Longrightarrow> find_default_len (u # src) i current maxlen
    = (if maxlen < current + n then (i, current) else find_default_len src (i + 1) (current + n) maxlen)"
    by (auto simp: n_def length_encode_default split: option.splits)
  have enc: "length (EncodeDefault (u # src) (Suc k) True extra) = n + length (EncodeDefault src k True extra)" for k
    by (simp add: EncodeDefault_def n_def)
  show ?case
  proof (cases "u = 0 \<or> maxlen < current + n")
    case True
    have "length (EncodeDefault (u # src) 1 True extra) = n" using enc [of 0] by (simp add: EncodeDefault_def)
    with True step Cons.prems show ?thesis
      by (cases "u = 0") (auto simp: EncodeDefault_def cstr_Cons n_def intro!: exI [of _ 0])
  next
    case False
    then have "current + n \<le> maxlen" by simp
    from Cons.IH [OF this, of "i + 1"] obtain k where
      "find_default_len src (i + 1) (current + n) maxlen = (i + 1 + k, current + n + length (EncodeDefault src k True extra))"
      "k \<le> length (cstr src)" "current + n + length (EncodeDefault src k True extra) \<le> maxlen"
      "k < length (cstr src) \<longrightarrow> maxlen < current + n + length (EncodeDefault src (k + 1) True extra)"
      by blast
    with False step enc show ?thesis by (intro exI [of _ "Suc k"]) (simp add: cstr_Cons add.assoc)
  qed
qed

subsection \<open>Properties\<close>

text \<open>
  Claim C32. A text of units the default alphabet or its extension table can carry is decoded
  back from the septets it was encoded to; any text at all encodes to values below 128, at most
  two for a unit.
\<close>

theorem default_alphabet_roundtrip:
  assumes "\<forall>u \<in> set s. gsm_unit u"
  shows "DecodeDefault (EncodeDefault s (length s) True None) True None = s
    \<and> (\<forall>c \<in> set (EncodeDefault t n True None). c < 128)
    \<and> length (EncodeDefault t n True None) \<le> 2 * length t"
proof -
  have "length (EncodeDefault t n True None) = sum_list (map (\<lambda>u. length (encode_default_char True None u)) (take n t))"
    by (simp add: EncodeDefault_def length_concat comp_def)
  also have "\<dots> \<le> sum_list (map (\<lambda>u. 2) (take n t))"
    by (rule sum_list_mono) (simp add: length_encode_default)
  also have "\<dots> \<le> 2 * length t" by (simp add: sum_list_triv)
  finally have "length (EncodeDefault t n True None) \<le> 2 * length t" .
  moreover have "\<forall>c \<in> set (EncodeDefault t n True None). c < 128"
    using encode_default_septets by (auto simp: EncodeDefault_def)
  ultimately show ?thesis using gsm7.dec_concat [OF assms] by (simp add: EncodeDefault_def)
qed

theorem default_alphabet_roundtrip_witness:
  "DecodeDefault (EncodeDefault [0x48, 0x20AC, 0x7B, 0xE9] (length [0x48, 0x20AC, 0x7B, 0xE9 :: uchar]) True None) True None
   = [0x48, 0x20AC, 0x7B, 0xE9]"
proof -
  have "\<forall>u \<in> set [0x48, 0x20AC, 0x7B, 0xE9]. gsm_unit u"
    by (simp add: gsm_unit_def GSM_DefaultAlphabetCharsExtension_def default_index_def
        GSM_DefaultAlphabetUnicode_def unit_lo_def)
  from default_alphabet_roundtrip [OF this] show ?thesis by blast
qed

text \<open>The superscript one takes the escape code, so with the letter e behind it it reads as a Euro sign.\<close>

lemma superscript_one_escapes:
  "DecodeDefault (EncodeDefault [0xB9, 0x65] 2 True None) True None = [0x20AC]"
  by (simp add: EncodeDefault_def encode_default_char_def GSM_DefaultAlphabetCharsExtension_def
      default_index_def GSM_DefaultAlphabetUnicode_def unit_lo_def)

text \<open>
  \<open>FindDefaultAlphabetLen\<close> finds the longest prefix of a string whose encoding fits
  into \<open>maxlen\<close> septets, and reports the exact length of that encoding.
\<close>

theorem find_default_len_maximal:
  assumes "FindDefaultAlphabetLen src maxlen = (srclen, smslen)"
  shows "smslen = length (EncodeDefault src srclen True extra) \<and> smslen \<le> maxlen
    \<and> srclen \<le> length (cstr src)
    \<and> (srclen < length (cstr src) \<longrightarrow> maxlen < length (EncodeDefault src (srclen + 1) True extra))"
  using find_default_len_spec [of 0 maxlen src 0 extra] assms
  by (auto simp: FindDefaultAlphabetLen_def)

theorem find_default_len_maximal_witness:
  "(2 :: nat) = length (EncodeDefault [0x41, 0x42, 0x7B] 2 True None)
    \<and> (3 :: nat) < length (EncodeDefault [0x41, 0x42, 0x7B] 3 True None)"
proof -
  have "FindDefaultAlphabetLen [0x41, 0x42, 0x7B] 3 = (2, 2)"
    by (simp add: FindDefaultAlphabetLen_def GSM_DefaultAlphabetCharsExtension_def)
  from find_default_len_maximal [OF this, of None] show ?thesis by (simp add: cstr_Cons)
qed

end
