(* ===== verification/BitBuffer.thy ===== *)
theory BitBuffer imports Prelude begin

text \<open>
  The bit buffer of \<^verbatim>\<open>libgammu/misc/coding/coding.c\<close> that Smart Messaging ringtones and pictures
  are packed with. Bit 0 is the most significant bit of the first byte. A buffer is the list of
  its bytes; the functions index it without a bound of their own, so each property states the
  room it needs.
\<close>

subsection \<open>Operations\<close>

definition GetBit :: "byte list \<Rightarrow> nat \<Rightarrow> byte" where
  "GetBit Buffer BitNum = Buffer ! (BitNum div 8) AND push_bit (7 - BitNum mod 8) 1"

definition SetBit :: "byte list \<Rightarrow> nat \<Rightarrow> byte list" where
  "SetBit Buffer BitNum =
     Buffer[BitNum div 8 := Buffer ! (BitNum div 8) OR push_bit (7 - BitNum mod 8) 1]"

definition ClearBit :: "byte list \<Rightarrow> nat \<Rightarrow> byte list" where
  "ClearBit Buffer BitNum =
     Buffer[BitNum div 8 := Buffer ! (BitNum div 8) AND (255 - push_bit (7 - BitNum mod 8) 1)]"

text \<open>\<open>n\<close> is \<^verbatim>\<open>(*CurrentBit) + i\<close>; the result holds the buffer and the new \<^verbatim>\<open>CurrentBit\<close>.\<close>

function BufferAlign :: "byte list \<Rightarrow> nat \<Rightarrow> byte list \<times> nat" where
  "BufferAlign Destination n =
     (if n mod 8 \<noteq> 0 then BufferAlign (ClearBit Destination n) (n + 1) else (Destination, n))"
  by pat_completeness auto
termination
  by (relation "measure (\<lambda>(_, n). if n mod 8 = 0 then 0 else 8 - n mod 8)") (auto simp: mod_Suc)

function BufferAlignNumber :: "nat \<Rightarrow> nat" where
  "BufferAlignNumber n = (if n mod 8 \<noteq> 0 then BufferAlignNumber (n + 1) else n)"
  by pat_completeness auto
termination
  by (relation "measure (\<lambda>n. if n mod 8 = 0 then 0 else 8 - n mod 8)") (auto simp: mod_Suc)

declare BufferAlign.simps [simp del] BufferAlignNumber.simps [simp del]

definition AddBuffer :: "byte list \<Rightarrow> nat \<Rightarrow> byte list \<Rightarrow> nat \<Rightarrow> byte list \<times> nat" where
  "AddBuffer Destination CurrentBit Source BitsToProcess =
     (fold (\<lambda>i d. if GetBit Source i \<noteq> 0 then SetBit d (CurrentBit + i)
                  else ClearBit d (CurrentBit + i)) [0..<BitsToProcess] Destination,
      CurrentBit + BitsToProcess)"

definition AddBufferByte :: "byte list \<Rightarrow> nat \<Rightarrow> byte \<Rightarrow> nat \<Rightarrow> byte list \<times> nat" where
  "AddBufferByte Destination CurrentBit Source BitsToProcess =
     AddBuffer Destination CurrentBit [Source] BitsToProcess"

definition GetBuffer :: "byte list \<Rightarrow> nat \<Rightarrow> byte list \<Rightarrow> nat \<Rightarrow> byte list \<times> nat" where
  "GetBuffer Source CurrentBit Destination BitsToProcess =
     (fold (\<lambda>i d. if GetBit Source (CurrentBit + i) \<noteq> 0 then SetBit d i else ClearBit d i)
        [0..<BitsToProcess] Destination,
      CurrentBit + BitsToProcess)"

text \<open>The loop of the two readers of numbers: \<open>z\<close> is the weight, \<open>l\<close> the sum.\<close>

fun get_weighted :: "byte list \<Rightarrow> nat \<Rightarrow> nat \<Rightarrow> nat \<Rightarrow> nat \<Rightarrow> nat" where
  "get_weighted Source n 0 z l = l"
| "get_weighted Source n (Suc k) z l =
     get_weighted Source (n + 1) k (z div 2) (if GetBit Source n \<noteq> 0 then l + z else l)"

definition GetBufferInt :: "byte list \<Rightarrow> nat \<Rightarrow> nat \<Rightarrow> nat \<times> nat" where
  "GetBufferInt Source CurrentBit BitsToProcess =
     (get_weighted Source CurrentBit BitsToProcess 128 0, CurrentBit + BitsToProcess)"

definition GetBufferI :: "byte list \<Rightarrow> nat \<Rightarrow> nat \<Rightarrow> nat \<times> nat" where
  "GetBufferI Source CurrentBit BitsToProcess =
     (get_weighted Source CurrentBit BitsToProcess (2 ^ (BitsToProcess - 1)) 0,
      CurrentBit + BitsToProcess)"

subsection \<open>The buffer as a sequence of bits\<close>

definition bit_at :: "byte list \<Rightarrow> nat \<Rightarrow> bool" where
  "bit_at Buffer n = bit (Buffer ! (n div 8)) (7 - n mod 8)"

lemma GetBit_bit_at: "GetBit Buffer n \<noteq> 0 \<longleftrightarrow> bit_at Buffer n"
  by (simp add: GetBit_def bit_at_def bit_iff_and_push_bit_not_eq_0)

lemma length_SetBit [simp]: "length (SetBit Buffer n) = length Buffer"
  by (simp add: SetBit_def)

lemma length_ClearBit [simp]: "length (ClearBit Buffer n) = length Buffer"
  by (simp add: ClearBit_def)

lemma same_bit: "7 - m mod 8 = 7 - n mod 8 \<Longrightarrow> m div 8 = n div 8 \<Longrightarrow> m = (n :: nat)"
proof -
  assume a: "7 - m mod 8 = 7 - n mod 8" "m div 8 = n div 8"
  have "m mod 8 < 8" "n mod 8 < 8" by simp_all
  with a have "m mod 8 = n mod 8" by linarith
  with a(2) show "m = n" by (metis div_mult_mod_eq)
qed

lemma bit_at_SetBit:
  "n < 8 * length Buffer \<Longrightarrow> bit_at (SetBit Buffer n) m = (m = n \<or> bit_at Buffer m)"
proof -
  assume "n < 8 * length Buffer"
  then have "n div 8 < length Buffer" by (simp add: less_mult_imp_div_less mult.commute)
  then show ?thesis
    using same_bit [of m n]
    by (cases "m div 8 = n div 8") (auto simp: bit_at_def SetBit_def bit_simps)
qed

lemma clear_mask: "255 - push_bit k 1 = NOT (push_bit k 1 :: byte)"
  by (simp add: not_eq_complement)

lemma bit_clear: "bit (x AND (255 - push_bit k 1)) j \<longleftrightarrow> j \<noteq> k \<and> bit (x :: byte) j"
  unfolding clear_mask
  by (cases "j = k") (auto simp: bit_and_iff bit_not_iff bit_push_bit_iff bit_1_iff
      simp del: push_bit_of_1 dest: bit_imp_le_length)

lemma bit_at_ClearBit:
  assumes "n < 8 * length Buffer"
  shows "bit_at (ClearBit Buffer n) m = (m \<noteq> n \<and> bit_at Buffer m)"
proof -
  have i: "n div 8 < length Buffer" using assms by (simp add: less_mult_imp_div_less mult.commute)
  show ?thesis
  proof (cases "m div 8 = n div 8 \<and> m \<noteq> n")
    case True
    then have "7 - m mod 8 \<noteq> 7 - n mod 8" using same_bit by blast
    moreover have "m mod 8 < 8" "n mod 8 < 8" by simp_all
    ultimately show ?thesis using True i
      by (auto simp: bit_at_def ClearBit_def bit_clear simp del: push_bit_of_1)
  next
    case False
    with i show ?thesis
      by (auto simp: bit_at_def ClearBit_def bit_clear simp del: push_bit_of_1)
  qed
qed

text \<open>Writing a run of bits.\<close>

definition put_bits :: "(nat \<Rightarrow> bool) \<Rightarrow> nat \<Rightarrow> nat \<Rightarrow> byte list \<Rightarrow> byte list" where
  "put_bits f start n d =
     fold (\<lambda>i d. if f i then SetBit d (start + i) else ClearBit d (start + i)) [0..<n] d"

lemma length_put_bits [simp]: "length (put_bits f start n d) = length d"
  unfolding put_bits_def by (induction n) auto

lemma bit_at_put_bits:
  "start + n \<le> 8 * length d \<Longrightarrow>
   bit_at (put_bits f start n d) k =
     (if start \<le> k \<and> k < start + n then f (k - start) else bit_at d k)"
proof (induction n)
  case (Suc n)
  have "put_bits f start (Suc n) d =
     (if f n then SetBit (put_bits f start n d) (start + n)
      else ClearBit (put_bits f start n d) (start + n))"
    by (simp add: put_bits_def)
  with Suc show ?case by (auto simp: bit_at_SetBit bit_at_ClearBit less_Suc_eq)
qed (auto simp: put_bits_def)

lemma AddBuffer_put_bits: "AddBuffer d cur s n = (put_bits (bit_at s) cur n d, cur + n)"
  by (simp add: AddBuffer_def put_bits_def GetBit_bit_at)

lemma GetBuffer_put_bits:
  "GetBuffer s cur d n = (put_bits (\<lambda>i. bit_at s (cur + i)) 0 n d, cur + n)"
  by (simp add: GetBuffer_def put_bits_def GetBit_bit_at cong: if_cong)

text \<open>The number of a run of bits, the first bit being the most significant.\<close>

fun bits_value :: "(nat \<Rightarrow> bool) \<Rightarrow> nat \<Rightarrow> nat \<Rightarrow> nat" where
  "bits_value f start 0 = 0"
| "bits_value f start (Suc n) = (if f start then 2 ^ n else 0) + bits_value f (start + 1) n"

lemma bits_value_less: "bits_value f start n < 2 ^ n"
proof (induction n arbitrary: start)
  case (Suc n)
  show ?case using Suc [of "start + 1"] by simp
qed simp

lemma get_weighted_value:
  "get_weighted s start n (2 ^ (n + e) div 2) l = l + bits_value (bit_at s) start n * 2 ^ e"
proof (induction n arbitrary: start l)
  case (Suc n)
  have "(2 :: nat) ^ (Suc n + e) div 2 div 2 = 2 ^ (n + e) div 2" by simp
  then have "get_weighted s start (Suc n) (2 ^ (Suc n + e) div 2) l =
    (if bit_at s start then l + 2 ^ (n + e) else l) + bits_value (bit_at s) (start + 1) n * 2 ^ e"
    by (simp only: get_weighted.simps Suc GetBit_bit_at) simp
  then show ?case by (simp add: add_mult_distrib power_add)
qed simp

lemma GetBufferI_value: "0 < n \<Longrightarrow> GetBufferI s cur n = (bits_value (bit_at s) cur n, cur + n)"
  using get_weighted_value [of s cur n 0 0] by (cases n) (simp_all add: GetBufferI_def)

lemma GetBufferInt_value:
  "n \<le> 8 \<Longrightarrow> GetBufferInt s cur n = (bits_value (bit_at s) cur n * 2 ^ (8 - n), cur + n)"
  using get_weighted_value [of s cur n "8 - n" 0] by (simp add: GetBufferInt_def)

lemma bits_value_cong:
  "(\<And>i. i < n \<Longrightarrow> f (a + i) = g (b + i)) \<Longrightarrow> bits_value f a n = bits_value g b n"
proof (induction n arbitrary: a b)
  case (Suc n)
  have "bits_value f (a + 1) n = bits_value g (b + 1) n"
    using Suc.prems [of "Suc _"] by (intro Suc.IH) simp
  with Suc.prems [of 0] show ?case by simp
qed simp

lemma BufferAlignNumber_eq: "BufferAlignNumber n = 8 * ((n + 7) div 8)"
proof (induction n rule: BufferAlignNumber.induct)
  case (1 n)
  show ?case
  proof (cases "n mod 8 = 0")
    case True
    then obtain q where "n = 8 * q" by (metis mod_0_imp_dvd dvd_def)
    with True show ?thesis by (subst BufferAlignNumber.simps) simp
  next
    case False
    have "Suc (n + 7) mod 8 \<noteq> 0" using False by simp
    then have "Suc (n + 7) div 8 = (n + 7) div 8" by (subst div_Suc) simp
    with 1 False show ?thesis by (simp add: BufferAlignNumber.simps [of n])
  qed
qed

lemma BufferAlign_spec:
  "BufferAlignNumber n \<le> 8 * length d \<Longrightarrow>
   snd (BufferAlign d n) = BufferAlignNumber n \<and> length (fst (BufferAlign d n)) = length d
   \<and> (\<forall>k. bit_at (fst (BufferAlign d n)) k =
         (\<not> (n \<le> k \<and> k < BufferAlignNumber n) \<and> bit_at d k))"
proof (induction d n rule: BufferAlign.induct)
  case (1 d n)
  show ?case
  proof (cases "n mod 8 = 0")
    case True
    then show ?thesis by (simp add: BufferAlign.simps [of d n] BufferAlignNumber.simps [of n])
  next
    case False
    then have e: "BufferAlignNumber (n + 1) = BufferAlignNumber n"
      by (simp add: BufferAlignNumber.simps [of n])
    have "n + 1 \<le> BufferAlignNumber (n + 1)" unfolding BufferAlignNumber_eq by linarith
    then have n: "n < 8 * length d" "n < BufferAlignNumber n" using 1(2) e by auto
    have s: "BufferAlign d n = BufferAlign (ClearBit d n) (n + 1)"
      using False by (simp add: BufferAlign.simps [of d n])
    have k: "(\<not> (n + 1 \<le> k \<and> k < BufferAlignNumber n) \<and> k \<noteq> n \<and> b)
      = (\<not> (n \<le> k \<and> k < BufferAlignNumber n) \<and> b)" for k b
      using n(2) by auto
    show ?thesis using 1(1) [OF False] 1(2) unfolding s e by (simp add: bit_at_ClearBit [OF n(1)] k [simplified])
  qed
qed

subsection \<open>Properties\<close>

text \<open>
  Adding a run of bits at any position changes exactly those bits of the buffer, and
  reading as many bits from that position into another buffer gives the added bits back.
\<close>

theorem add_get_buffer:
  assumes "cur + n \<le> 8 * length d" and "n \<le> 8 * length e"
  shows "snd (AddBuffer d cur s n) = cur + n
    \<and> bit_at (fst (AddBuffer d cur s n)) k =
      (if cur \<le> k \<and> k < cur + n then bit_at s (k - cur) else bit_at d k)
    \<and> bit_at (fst (GetBuffer (fst (AddBuffer d cur s n)) cur e n)) k =
      (if k < n then bit_at s k else bit_at e k)"
  using assms by (simp_all add: AddBuffer_put_bits GetBuffer_put_bits bit_at_put_bits)

theorem add_get_buffer_witness:
  "bit_at (fst (AddBuffer [0xFF, 0xFF] 3 [0x00] 5)) 9
   \<and> \<not> bit_at (fst (GetBuffer (fst (AddBuffer [0xFF, 0xFF] 3 [0x00] 5)) 3 [0xFF] 5)) 4"
  using add_get_buffer [of 3 5 "[0xFF, 0xFF]" "[0xFF]" "[0]" 9]
    add_get_buffer [of 3 5 "[0xFF, 0xFF]" "[0xFF]" "[0]" 4]
  by (simp add: bit_at_def)

text \<open>
  The number readers: \<open>n\<close> bits written from a byte read back as the number those bits
  spell, most significant first; \<open>GetBufferI\<close> is always below \<open>2 ^ n\<close>, and for up to eight bits
  \<open>GetBufferInt\<close> is the same number aligned to the top of a byte.
\<close>

theorem get_buffer_number:
  assumes "cur + n \<le> 8 * length d" and "0 < n"
  shows "GetBufferI (fst (AddBuffer d cur s n)) cur n = (bits_value (bit_at s) 0 n, cur + n)
    \<and> fst (GetBufferI d cur n) < 2 ^ n
    \<and> (n \<le> 8 \<longrightarrow> fst (GetBufferInt d cur n) = fst (GetBufferI d cur n) * 2 ^ (8 - n))"
proof -
  have "bits_value (bit_at (fst (AddBuffer d cur s n))) cur n = bits_value (bit_at s) 0 n"
    using assms by (intro bits_value_cong) (simp add: AddBuffer_put_bits bit_at_put_bits)
  then show ?thesis
    using assms by (simp add: GetBufferI_value GetBufferInt_value bits_value_less)
qed

theorem get_buffer_number_witness:
  "GetBufferI (fst (AddBuffer [0xFF, 0xFF] 6 [0xA0] 3)) 6 3 = (5, 9)"
  using get_buffer_number [of 6 3 "[0xFF, 0xFF]" "[0xA0]"]
  by (simp add: numeral_3_eq_3 bit_at_def)

end
