(* ===== verification/DateTime.thy ===== *)
theory DateTime imports Codings begin

text \<open>
  Dates: the checks and the calendar arithmetic of \<^verbatim>\<open>libgammu/misc/misc.c\<close> and the SMS time
  stamp of \<^verbatim>\<open>libgammu/service/sms/gsmsms.c\<close>. \<^verbatim>\<open>int\<close> is \<open>int\<close>; the values stay small.
\<close>

record GSM_DateTime =
  Timezone :: int
  Second :: int
  Minute :: int
  Hour :: int
  Day :: int
  Month :: int
  Year :: int

definition days :: "int list" where
  "days = [31, 28, 31, 30, 31, 30, 31, 31, 30, 31, 30, 31]"

subsection \<open>Checks\<close>

definition leap_year :: "int \<Rightarrow> bool" where
  "leap_year y \<longleftrightarrow> (y mod 4 = 0 \<and> y mod 100 \<noteq> 0) \<or> y mod 400 = 0"

definition CheckDate :: "GSM_DateTime \<Rightarrow> bool" where
  "CheckDate date =
     (if Year date \<noteq> 0 \<and> leap_year (Year date) \<and> Month date = 2 then Day date \<le> 29
      else Year date \<noteq> 0 \<and> 1 \<le> Month date \<and> Month date \<le> 12
        \<and> 1 \<le> Day date \<and> Day date \<le> days ! nat (Month date - 1))"

definition CheckTime :: "GSM_DateTime \<Rightarrow> bool" where
  "CheckTime date \<longleftrightarrow> Hour date \<le> 23 \<and> Minute date \<le> 59 \<and> Second date \<le> 59"

subsection \<open>Calendar arithmetic\<close>

record c_tm =
  tm_sec :: int
  tm_min :: int
  tm_hour :: int
  tm_mday :: int
  tm_mon :: int
  tm_year :: int
  tm_wday :: int
  tm_yday :: int
  tm_isdst :: int

definition weekday :: "int \<Rightarrow> int \<Rightarrow> int \<Rightarrow> int" where
  "weekday year month day =
     (let p = (14 - month) div 12; q = month + 12 * p - 2; r = year - p
      in (day + (31 * q) div 12 + r + r div 4 - r div 100 + r div 400) mod 7)"

text \<open>\<open>None\<close> is the return value 0: the date is refused and \<^verbatim>\<open>st\<close> keeps what it held. The loop
  adds the lengths of the months before \<open>month\<close>. The quotients are of positive numbers for the
  years from 1 on.\<close>

definition RecalcDateTime ::
  "int \<Rightarrow> int \<Rightarrow> int \<Rightarrow> int \<Rightarrow> int \<Rightarrow> int \<Rightarrow> c_tm option" where
  "RecalcDateTime year month day hour minute second =
     (let Date = \<lparr>Timezone = 0, Second = second, Minute = minute, Hour = hour,
                  Day = day, Month = month, Year = year\<rparr>
      in if \<not> CheckDate Date \<or> \<not> CheckTime Date then None
         else Some \<lparr>tm_sec = second, tm_min = minute, tm_hour = hour, tm_mday = day,
                    tm_mon = month - 1, tm_year = year - 1900, tm_wday = weekday year month day,
                    tm_yday = day + sum_list (take (nat (month - 1)) days), tm_isdst = -1\<rparr>)"

definition RecalcDate :: "int \<Rightarrow> int \<Rightarrow> int \<Rightarrow> c_tm option" where
  "RecalcDate year month day = RecalcDateTime year month day 0 0 0"

definition GetDayOfYear :: "int \<Rightarrow> int \<Rightarrow> int \<Rightarrow> int option" where
  "GetDayOfYear year month day = map_option tm_yday (RecalcDate year month day)"

definition GetWeekOfMonth :: "int \<Rightarrow> int \<Rightarrow> int \<Rightarrow> int option" where
  "GetWeekOfMonth year month day =
     map_option (\<lambda>st. 1 + c_quot (day - tm_wday st) 7) (RecalcDate year month day)"

definition GetDayOfWeek :: "int \<Rightarrow> int \<Rightarrow> int \<Rightarrow> int option" where
  "GetDayOfWeek year month day = map_option tm_wday (RecalcDate year month day)"

definition DayOfWeek :: "int \<Rightarrow> int \<Rightarrow> int \<Rightarrow> string option" where
  "DayOfWeek year month day =
     map_option (\<lambda>d. [''Sun'', ''Mon'', ''Tue'', ''Wed'', ''Thu'', ''Fri'', ''Sat''] ! nat d)
       (GetDayOfWeek year month day)"

subsection \<open>SMS time stamps\<close>

text \<open>The seven octets of GSM 03.40 9.2.3.11. A date that fails the checks is marked by year 0.\<close>

definition GSM_DecodeSMSDateTime :: "byte list \<Rightarrow> GSM_DateTime" where
  "GSM_DecodeSMSDateTime req =
     (let year = int (DecodeWithBCDAlphabet (req ! 0));
          tz = int (10 * unat (req ! 6 AND 0x07) + unat (drop_bit 4 (req ! 6))) * 3600 div 4;
          DT = \<lparr>Timezone = (if req ! 6 AND 0x08 \<noteq> 0 then - tz else tz),
                Second = int (DecodeWithBCDAlphabet (req ! 5)),
                Minute = int (DecodeWithBCDAlphabet (req ! 4)),
                Hour = int (DecodeWithBCDAlphabet (req ! 3)),
                Day = int (DecodeWithBCDAlphabet (req ! 2)),
                Month = int (DecodeWithBCDAlphabet (req ! 1)),
                Year = (if year < 90 then year + 2000 else year + 1990)\<rparr>
      in if \<not> CheckDate DT \<or> \<not> CheckTime DT then DT\<lparr>Year := 0\<rparr> else DT)"

definition GSM_EncodeSMSDateTime :: "GSM_DateTime \<Rightarrow> byte list" where
  "GSM_EncodeSMSDateTime DT =
     (let year = (if Year DT > 1900 then (if Year DT < 2000 then Year DT - 1900 else Year DT - 2000)
                  else Year DT)
      in [EncodeWithBCDAlphabet year, EncodeWithBCDAlphabet (Month DT),
          EncodeWithBCDAlphabet (Day DT), EncodeWithBCDAlphabet (Hour DT),
          EncodeWithBCDAlphabet (Minute DT), EncodeWithBCDAlphabet (Second DT), 0])"

subsection \<open>Weekdays\<close>

text \<open>The day after a date, and the length of a month, as the calendar has them.\<close>

definition month_days :: "int \<Rightarrow> int \<Rightarrow> int" where
  "month_days y m = (if m = 2 \<and> leap_year y then 29 else days ! nat (m - 1))"

definition next_day :: "int \<times> int \<times> int \<Rightarrow> int \<times> int \<times> int" where
  "next_day date = (case date of (y, m, d) \<Rightarrow>
     if d < month_days y m then (y, m, d + 1)
     else if m < 12 then (y, m + 1, 1) else (y + 1, 1, 1))"

lemma div_step: "0 < k \<Longrightarrow> (y :: int) div k = (y - 1) div k + (if y mod k = 0 then 1 else 0)"
proof -
  assume k: "0 < k"
  have y: "y = k * (y div k) + y mod k" by simp
  show ?thesis
  proof (cases "y mod k = 0")
    case True
    then have "y - 1 = k * (y div k - 1) + (k - 1)" using y by (simp add: algebra_simps)
    then have "(y - 1) div k = y div k - 1" using k by (metis div_mult_self4 zdiv_eq_0_iff add.right_neutral diff_ge_0_iff_ge int_one_le_iff_zero_less less_add_same_cancel2 diff_less_eq zero_less_one add.commute div_mult_self2 less_irrefl)
    with True show ?thesis by simp
  next
    case False
    then have r: "0 \<le> y mod k - 1" "y mod k - 1 < k" using k pos_mod_sign [of k y] pos_mod_bound [of k y] by linarith+
    have "y - 1 = (y mod k - 1) + k * (y div k)" using y by simp
    then have "(y - 1) div k = y div k" using r k by (metis div_mult_self2 zdiv_eq_0_iff add.left_neutral less_irrefl add.right_neutral)
    with False show ?thesis by simp
  qed
qed


definition leap_sum :: "int \<Rightarrow> int" where
  "leap_sum r = r + r div 4 - r div 100 + r div 400"

definition day_number :: "int \<Rightarrow> int \<Rightarrow> int \<Rightarrow> int" where
  "day_number year month day =
     (let p = (14 - month) div 12; q = month + 12 * p - 2 in day + (31 * q) div 12 + leap_sum (year - p))"

lemma weekday_day_number: "weekday y m d = day_number y m d mod 7"
  unfolding weekday_def day_number_def leap_sum_def Let_def
  by (simp only: add_diff_eq add.assoc [symmetric])

lemma leap_count: "leap_sum y = leap_sum (y - 1) + 1 + (if leap_year y then 1 else 0)"
proof -
  define A B C where "A \<longleftrightarrow> y mod 4 = 0" and "B \<longleftrightarrow> y mod 100 = 0" and "C \<longleftrightarrow> y mod 400 = 0"
  have "400 dvd y \<Longrightarrow> 100 dvd y" by (rule dvd_trans [of 100 400]) simp_all
  moreover have "100 dvd y \<Longrightarrow> 4 dvd y" by (rule dvd_trans [of 4 100]) simp_all
  ultimately have l1: "C \<Longrightarrow> B" "B \<Longrightarrow> A" by (auto simp: A_def B_def C_def dvd_eq_mod_eq_0)
  have l2: "leap_year y \<longleftrightarrow> (A \<and> \<not> B) \<or> C" by (simp add: leap_year_def A_def B_def C_def)
  define a b c a' b' c' where "a = y div 4" and "b = y div 100" and "c = y div 400"
    and "a' = (y - 1) div 4" and "b' = (y - 1) div 100" and "c' = (y - 1) div 400"
  have d: "a = a' + (if A then 1 else 0)" "b = b' + (if B then 1 else 0)" "c = c' + (if C then 1 else 0)"
    unfolding A_def B_def C_def a_def b_def c_def a'_def b'_def c'_def by (rule div_step; simp)+
  have "y + a - b + c = (y - 1) + a' - b' + c' + 1 + (if leap_year y then 1 else 0)"
    unfolding d l2 using l1 by (cases A; cases B; cases C) simp_all
  then show ?thesis unfolding leap_sum_def a_def b_def c_def a'_def b'_def c'_def .
qed

lemma month_cases:
  assumes "1 \<le> m" "m \<le> (12 :: int)"
  shows "m = 1 \<or> m = 2 \<or> m = 3 \<or> m = 4 \<or> m = 5 \<or> m = 6 \<or> m = 7 \<or> m = 8 \<or> m = 9 \<or> m = 10 \<or> m = 11 \<or> m = 12"
proof -
  have "m \<in> set [1..12]" using assms by simp
  then show ?thesis by (simp add: upto_rec1)
qed

lemma day_number_month_end:
  assumes "1 \<le> m" "m \<le> 12"
  shows "day_number y m (month_days y m) + 1 - (if m = 2 then 56 else 28)
       = (if m < 12 then day_number y (m + 1) 1 else day_number (y + 1) 1 1)"
  using month_cases [OF assms]
proof (elim disjE)
  assume "m = 2"
  then show ?thesis using leap_count [of y]
    by (cases "leap_year y") (simp_all add: day_number_def month_days_def days_def Let_def)
qed (simp_all add: day_number_def month_days_def days_def Let_def)

lemma weekday_next:
  assumes "1 \<le> m" "m \<le> 12" "d \<le> month_days y m"
  shows "(case next_day (y, m, d) of (y', m', d') \<Rightarrow> weekday y' m' d') = (weekday y m d + 1) mod 7"
proof (cases "d < month_days y m")
  case True
  have "day_number y m (d + 1) = day_number y m d + 1" by (simp add: day_number_def Let_def)
  with True show ?thesis by (simp add: next_day_def weekday_day_number mod_add_left_eq)
next
  case False
  with assms have d: "d = month_days y m" by simp
  have m: "(n + 1 - 28) mod 7 = (n mod 7 + 1) mod (7 :: int)" "(n + 1 - 56) mod 7 = (n mod 7 + 1) mod (7 :: int)" for n
  proof -
    have "(n + 1 + 7 * k) mod 7 = (n mod 7 + 1) mod (7 :: int)" for k by (simp add: mod_add_left_eq)
    from this [of "-4"] this [of "-8"]
    show "(n + 1 - 28) mod 7 = (n mod 7 + 1) mod (7 :: int)" "(n + 1 - 56) mod 7 = (n mod 7 + 1) mod (7 :: int)"
      by simp_all
  qed
  have "(if m < 12 then day_number y (m + 1) 1 else day_number (y + 1) 1 1)
      = day_number y m d + 1 - (if m = 2 then 56 else 28)"
    unfolding d by (rule day_number_month_end [OF assms(1,2), symmetric])
  then have "(if m < 12 then day_number y (m + 1) 1 else day_number (y + 1) 1 1) mod 7 = (day_number y m d mod 7 + 1) mod 7"
    by (cases "m = 2") (simp_all only: m if_True if_False simp_thms)
  then show ?thesis using False by (simp add: next_day_def weekday_day_number split: if_splits)
qed

subsection \<open>Properties\<close>

lemma month_days_bounds: "1 \<le> m \<Longrightarrow> m \<le> 12 \<Longrightarrow> 28 \<le> month_days y m \<and> month_days y m \<le> 31"
  using month_cases [of m] by (auto simp: month_days_def days_def)

lemma GetDayOfWeek_valid:
  "1 \<le> y \<Longrightarrow> 1 \<le> m \<Longrightarrow> m \<le> 12 \<Longrightarrow> 1 \<le> d \<Longrightarrow> d \<le> month_days y m \<Longrightarrow> GetDayOfWeek y m d = Some (weekday y m d)"
  by (auto simp: GetDayOfWeek_def RecalcDate_def RecalcDateTime_def CheckDate_def CheckTime_def month_days_def
      split: if_splits)

text \<open>
  The weekday of every date from year 1 on: 1 January 2000 is a Saturday, and the day
  after a date, across month ends, leap days and year ends, has the next weekday.
\<close>

theorem day_of_week_correct:
  assumes "1 \<le> y" "1 \<le> m" "m \<le> 12" "1 \<le> d" "d \<le> month_days y m"
  shows "GetDayOfWeek 2000 1 1 = Some 6
    \<and> (\<exists>w. GetDayOfWeek y m d = Some w \<and> 0 \<le> w \<and> w < 7
        \<and> (case next_day (y, m, d) of (y', m', d') \<Rightarrow> GetDayOfWeek y' m' d' = Some ((w + 1) mod 7)))"
proof -
  obtain y' m' d' where n: "next_day (y, m, d) = (y', m', d')" by (cases "next_day (y, m, d)")
  have v: "1 \<le> y'" "1 \<le> m'" "m' \<le> 12" "1 \<le> d'" "d' \<le> month_days y' m'"
    using n assms month_days_bounds [of m' y'] month_days_bounds [of m y]
    by (auto simp: next_day_def split: if_splits)
  have "weekday y' m' d' = (weekday y m d + 1) mod 7"
    using weekday_next [OF assms(2,3,5)] n by simp
  moreover have "0 \<le> weekday y m d" "weekday y m d < 7" by (simp_all add: weekday_day_number)
  moreover have "GetDayOfWeek 2000 1 1 = Some 6"
    using GetDayOfWeek_valid [of 2000 1 1] by (simp add: month_days_def days_def weekday_def)
  ultimately show ?thesis using n GetDayOfWeek_valid [OF assms] GetDayOfWeek_valid [OF v] by simp
qed

theorem day_of_week_correct_witness:
  "\<exists>w. GetDayOfWeek 2024 2 29 = Some w \<and> GetDayOfWeek 2024 3 1 = Some ((w + 1) mod 7)"
  using day_of_week_correct [of 2024 2 29]
  by (auto simp: next_day_def month_days_def leap_year_def)

lemma bcd_value: "0 \<le> v \<Longrightarrow> v < 100 \<Longrightarrow> int (DecodeWithBCDAlphabet (EncodeWithBCDAlphabet v)) = v"
  by (rule decode_encode_bcd_value)

text \<open>
  Claim C33. A valid date and time of the years 2000 to 2089 survives the SMS time stamp; the
  encoder drops the time zone, so the decoded one is that of GMT.
\<close>

theorem sms_datetime_roundtrip:
  assumes "CheckDate DT" "CheckTime DT" "2000 \<le> Year DT" "Year DT < 2090"
    "1 \<le> Day DT" "0 \<le> Hour DT" "0 \<le> Minute DT" "0 \<le> Second DT"
  shows "GSM_DecodeSMSDateTime (GSM_EncodeSMSDateTime DT) = DT\<lparr>Timezone := 0\<rparr>"
proof -
  have b: "1 \<le> Month DT" "Month DT \<le> 12" using assms(1) by (auto simp: CheckDate_def split: if_splits)
  have d: "Day DT \<le> 31"
  proof -
    from b have "days ! nat (Month DT - 1) \<le> 31" using month_cases [of "Month DT"] by (auto simp: days_def)
    then show ?thesis using assms(1) by (auto simp: CheckDate_def split: if_splits)
  qed
  have c: "CheckDate (DT\<lparr>Timezone := 0\<rparr>)" "CheckTime (DT\<lparr>Timezone := 0\<rparr>)"
    using assms(1,2) by (auto simp: CheckDate_def CheckTime_def split: if_splits)
  have t: "Hour DT \<le> 23" "Minute DT \<le> 59" "Second DT \<le> 59" using assms(2) by (simp_all add: CheckTime_def)
  have e: "DT\<lparr>Timezone := 0\<rparr> = \<lparr>Timezone = 0, Second = Second DT, Minute = Minute DT, Hour = Hour DT,
      Day = Day DT, Month = Month DT, Year = Year DT\<rparr>" by (cases DT) simp
  show ?thesis
    using assms b d t c unfolding e
    by (simp add: GSM_DecodeSMSDateTime_def GSM_EncodeSMSDateTime_def Let_def bcd_value)
qed

theorem sms_datetime_roundtrip_witness:
  "GSM_DecodeSMSDateTime (GSM_EncodeSMSDateTime
     \<lparr>Timezone = 3600, Second = 59, Minute = 30, Hour = 23, Day = 29, Month = 2, Year = 2024\<rparr>)
   = \<lparr>Timezone = 0, Second = 59, Minute = 30, Hour = 23, Day = 29, Month = 2, Year = 2024\<rparr>"
  using sms_datetime_roundtrip [of "\<lparr>Timezone = 3600, Second = 59, Minute = 30, Hour = 23, Day = 29, Month = 2, Year = 2024\<rparr>"]
  by (simp add: CheckDate_def CheckTime_def leap_year_def)

text \<open>A stamp of 1995 decodes to 2085: the century of the years from 90 on is 1990, not 1900.\<close>

lemma sms_datetime_nineties:
  "Year (GSM_DecodeSMSDateTime (GSM_EncodeSMSDateTime
     \<lparr>Timezone = 0, Second = 0, Minute = 0, Hour = 0, Day = 1, Month = 1, Year = 1995\<rparr>)) = 2085"
  by (simp add: GSM_DecodeSMSDateTime_def GSM_EncodeSMSDateTime_def bcd_value CheckDate_def CheckTime_def
      leap_year_def days_def Let_def)

text \<open>Two quirks of the checks: day 0 of a leap February passes, and \<^verbatim>\<open>tm_yday\<close> never counts the
  leap day.\<close>

lemma leap_february_day_zero:
  "CheckDate \<lparr>Timezone = 0, Second = 0, Minute = 0, Hour = 0, Day = 0, Month = 2, Year = 2000\<rparr>"
  by (simp add: CheckDate_def leap_year_def)

lemma day_of_year_leap: "GetDayOfYear 2000 3 1 = Some 60 \<and> GetDayOfYear 2000 2 29 = Some 60"
  by (simp add: GetDayOfYear_def RecalcDate_def RecalcDateTime_def CheckDate_def CheckTime_def days_def
      leap_year_def numeral_eq_Suc)

end
