(* ===== verification/SmsTypes.thy ===== *)
theory SmsTypes imports DateTime begin

text \<open>
  The message record of \<^verbatim>\<open>include/gammu-message.h\<close> and the operations on its plain fields from
  \<^verbatim>\<open>libgammu/service/sms/gsmsms.c\<close>. Numbers and names are UCS-2 strings without their
  terminators. \<open>SMS_Text\<close> and \<open>UDH_Text\<close> are the arrays, one cell a byte. Fields that occur in
  several structs have the struct's name in front.
\<close>

definition GSM_MAX_UDH_LENGTH :: nat where "GSM_MAX_UDH_LENGTH = 140"
definition GSM_MAX_SMS_LENGTH :: nat where "GSM_MAX_SMS_LENGTH = 650"
definition GSM_MAX_SMS_CHARS_LENGTH :: nat where "GSM_MAX_SMS_CHARS_LENGTH = 160"
definition GSM_MAX_8BIT_SMS_LENGTH :: nat where "GSM_MAX_8BIT_SMS_LENGTH = 140"

lemmas sms_limits = GSM_MAX_UDH_LENGTH_def GSM_MAX_SMS_LENGTH_def GSM_MAX_SMS_CHARS_LENGTH_def
  GSM_MAX_8BIT_SMS_LENGTH_def

subsection \<open>Enumerations and records\<close>

datatype GSM_SMSFormat = SMS_FORMAT_Pager | SMS_FORMAT_Fax | SMS_FORMAT_Email | SMS_FORMAT_Text

datatype GSM_ValidityPeriodFormat = SMS_Validity_NotAvailable | SMS_Validity_RelativeFormat

datatype GSM_SMS_State = SMS_Sent | SMS_UnSent | SMS_Read | SMS_UnRead

datatype GSM_Coding_Type =
    SMS_Coding_Unicode_No_Compression | SMS_Coding_Unicode_Compression
  | SMS_Coding_Default_No_Compression | SMS_Coding_Default_Compression | SMS_Coding_8bit

datatype GSM_SMSMessageType = SMS_Deliver | SMS_Status_Report | SMS_Submit

datatype GSM_UDH =
    UDH_NoUDH | UDH_ConcatenatedMessages | UDH_ConcatenatedMessages16bit | UDH_DisableVoice
  | UDH_DisableFax | UDH_DisableEmail | UDH_EnableVoice | UDH_EnableFax | UDH_EnableEmail
  | UDH_VoidSMS | UDH_NokiaRingtone | UDH_NokiaRingtoneLong | UDH_NokiaOperatorLogo
  | UDH_NokiaOperatorLogoLong | UDH_NokiaCallerLogo | UDH_NokiaWAP | UDH_NokiaWAPLong
  | UDH_NokiaCalendarLong | UDH_NokiaProfileLong | UDH_NokiaPhonebookLong | UDH_UserUDH
  | UDH_MMSIndicatorLong

text \<open>The period is the octet of the PDU, as the C enumeration is stored from it.\<close>

record GSM_SMSValidity =
  Validity_Format :: GSM_ValidityPeriodFormat
  Relative :: byte

record GSM_SMSC =
  SMSC_Location :: int
  SMSC_Name :: "uchar list"
  SMSC_Number :: "uchar list"
  Validity :: GSM_SMSValidity
  Format :: GSM_SMSFormat
  DefaultNumber :: "uchar list"

record GSM_UDHHeader =
  UDH_Type :: GSM_UDH
  UDH_Length :: int
  UDH_Text :: "byte list"
  ID8bit :: int
  ID16bit :: int
  PartNumber :: int
  AllParts :: int

record GSM_SMSMessage =
  ReplaceMessage :: byte
  RejectDuplicates :: bool
  UDH :: GSM_UDHHeader
  SMS_Number :: "uchar list"
  OtherNumbers :: "uchar list list"
  OtherNumbersNum :: int
  SMSC :: GSM_SMSC
  Memory :: int
  Location :: int
  Folder :: int
  InboxFolder :: bool
  SMS_Length :: int
  State :: GSM_SMS_State
  SMS_Name :: "uchar list"
  SMS_Text :: "byte list"
  PDU :: GSM_SMSMessageType
  Coding :: GSM_Coding_Type
  DateTime :: GSM_DateTime
  SMSCTime :: GSM_DateTime
  DeliveryStatus :: byte
  ReplyViaSameSMSC :: bool
  Class :: int
  MessageReference :: byte

text \<open>Not a memory: the bound of the enumeration in \<^verbatim>\<open>gammu-memory.h\<close>.\<close>

definition MEM_INVALID :: int where "MEM_INVALID = 13"

record GSM_SMSMessageLayout =
  Layout_Text :: nat
  Layout_Number :: nat
  Layout_SMSCNumber :: nat
  Layout_TPDCS :: nat
  Layout_DateTime :: nat
  Layout_SMSCTime :: nat
  Layout_TPStatus :: nat
  Layout_TPUDL :: nat
  Layout_TPVP :: nat
  Layout_firstbyte :: nat
  Layout_TPMR :: nat
  Layout_TPPID :: nat

subsection \<open>Arrays\<close>

text \<open>\<open>overlay new old\<close> is the array after a \<^verbatim>\<open>memcpy\<close> of \<open>new\<close> to its start.\<close>

definition overlay :: "'a list \<Rightarrow> 'a list \<Rightarrow> 'a list" where
  "overlay new old = new @ drop (length new) old"

lemma length_overlay [simp]: "length new \<le> length old \<Longrightarrow> length (overlay new old) = length old"
  by (simp add: overlay_def)

lemma take_overlay [simp]: "n \<le> length new \<Longrightarrow> take n (overlay new old) = take n new"
  by (simp add: overlay_def)

subsection \<open>Defaults\<close>

definition GSM_SetDefaultReceivedSMSData :: "GSM_SMSMessage \<Rightarrow> GSM_SMSMessage" where
  "GSM_SetDefaultReceivedSMSData SMS = SMS\<lparr>
     UDH := (UDH SMS)\<lparr>UDH_Type := UDH_NoUDH, UDH_Length := 0,
              UDH_Text := (UDH_Text (UDH SMS))[0 := 0], ID8bit := 0, ID16bit := 0,
              PartNumber := -1, AllParts := 0\<rparr>,
     Coding := SMS_Coding_8bit,
     SMS_Length := 0,
     SMSC := (SMSC SMS)\<lparr>SMSC_Location := 0, DefaultNumber := [], SMSC_Number := [], SMSC_Name := [],
              Validity := \<lparr>Validity_Format = SMS_Validity_NotAvailable, Relative = 0xff\<rparr>,
              Format := SMS_FORMAT_Text\<rparr>,
     SMS_Number := [],
     OtherNumbersNum := 0,
     SMS_Name := [],
     ReplyViaSameSMSC := False,
     Class := 0,
     SMS_Text := (SMS_Text SMS)[0 := 0, 1 := 0],
     RejectDuplicates := False,
     MessageReference := 0,
     ReplaceMessage := 0,
     DeliveryStatus := 0,
     DateTime := (DateTime SMS)\<lparr>Year := 0\<rparr>\<rparr>"

text \<open>The clock \<^verbatim>\<open>GSM_GetCurrentDateTime\<close> reads twice is the two arguments \<open>now\<close> and \<open>later\<close>.\<close>

definition GSM_SetDefaultSMSData ::
  "GSM_DateTime \<Rightarrow> GSM_DateTime \<Rightarrow> GSM_SMSMessage \<Rightarrow> GSM_SMSMessage" where
  "GSM_SetDefaultSMSData now later SMS0 =
     (let SMS = GSM_SetDefaultReceivedSMSData SMS0 in SMS\<lparr>
        SMSC := (SMSC SMS)\<lparr>
          Validity := \<lparr>Validity_Format = SMS_Validity_RelativeFormat, Relative = 0xff\<rparr>,
          SMSC_Location := 1\<rparr>,
        State := SMS_UnSent, PDU := SMS_Submit, Location := 0, Memory := 0, Folder := 2,
        InboxFolder := False, DateTime := now, SMSCTime := later\<rparr>)"

subsection \<open>Coding\<close>

text \<open>TP-DCS of GSM 03.40 9.2.3.10.\<close>

definition GSM_GetMessageCoding :: "byte \<Rightarrow> GSM_Coding_Type" where
  "GSM_GetMessageCoding TPDCS =
     (if TPDCS AND 0xC0 = 0 \<or> TPDCS AND 0xC0 = 0x40 then
        (if TPDCS AND 0xC = 0xC then SMS_Coding_8bit
         else if TPDCS = 0 then SMS_Coding_Default_No_Compression
         else if TPDCS AND 0x2C = 0x00 then SMS_Coding_Default_No_Compression
         else if TPDCS AND 0x2C = 0x20 then SMS_Coding_Default_Compression
         else if TPDCS AND 0x2C = 0x08 then SMS_Coding_Unicode_No_Compression
         else if TPDCS AND 0x2C = 0x28 then SMS_Coding_Unicode_Compression
         else SMS_Coding_8bit)
      else if TPDCS AND 0xF0 \<ge> 0x40 \<and> TPDCS AND 0xF0 \<le> 0xB0 then SMS_Coding_8bit
      else if TPDCS AND 0xF0 = 0xC0 \<or> TPDCS AND 0xF0 = 0xD0 then
        (if TPDCS AND 4 = 4 then SMS_Coding_8bit else SMS_Coding_Default_No_Compression)
      else if TPDCS AND 0xF0 = 0xE0 then
        (if TPDCS AND 4 = 4 then SMS_Coding_8bit else SMS_Coding_Unicode_No_Compression)
      else if TPDCS AND 0xF0 = 0xF0 then
        (if TPDCS AND 8 = 8 then SMS_Coding_8bit
         else if TPDCS AND 4 = 0 then SMS_Coding_Default_No_Compression else SMS_Coding_8bit)
      else SMS_Coding_8bit)"

text \<open>
  The same classification read from the tables of GSM 03.38 chapter 4: the coding group is the
  high nibble, bit 5 marks compression in the groups 00xx and 01xx.
\<close>

definition tpdcs_spec :: "nat \<Rightarrow> GSM_Coding_Type" where
  "tpdcs_spec n =
     (let grp = n div 16; alphabet = n div 4 mod 4; compressed = n div 32 mod 2 = 1 in
      if grp < 8 then
        (if alphabet = 0 then
           (if compressed then SMS_Coding_Default_Compression else SMS_Coding_Default_No_Compression)
         else if alphabet = 2 then
           (if compressed then SMS_Coding_Unicode_Compression else SMS_Coding_Unicode_No_Compression)
         else SMS_Coding_8bit)
      else if grp < 12 then SMS_Coding_8bit
      else if grp < 14 then
        (if alphabet mod 2 = 0 then SMS_Coding_Default_No_Compression else SMS_Coding_8bit)
      else if grp = 14 then
        (if alphabet mod 2 = 0 then SMS_Coding_Unicode_No_Compression else SMS_Coding_8bit)
      else (if alphabet = 0 then SMS_Coding_Default_No_Compression else SMS_Coding_8bit))"

text \<open>
  For every octet the coding read from TP-DCS is the one the coding groups of GSM 03.38
  give it; reserved values are 8 bit data.
\<close>

theorem message_coding_spec: "GSM_GetMessageCoding TPDCS = tpdcs_spec (unat TPDCS)"
  by (rule all_byte [where b=TPDCS])
     (simp add: all_bytes_list GSM_GetMessageCoding_def tpdcs_spec_def Let_def)

text \<open>The names of the codings in backup files; \<open>None\<close> is the value 0, which is no coding.\<close>

definition GSM_StringToSMSCoding :: "string option \<Rightarrow> GSM_Coding_Type option" where
  "GSM_StringToSMSCoding s =
     (case s of None \<Rightarrow> Some SMS_Coding_Default_No_Compression
      | Some n \<Rightarrow>
        if n = ''Unicode'' then Some SMS_Coding_Unicode_No_Compression
        else if n = ''Unicode_No_Compression'' then Some SMS_Coding_Unicode_No_Compression
        else if n = ''Unicode_Compression'' then Some SMS_Coding_Unicode_Compression
        else if n = ''Default'' then Some SMS_Coding_Default_No_Compression
        else if n = ''Default_No_Compression'' then Some SMS_Coding_Default_No_Compression
        else if n = ''Default_Compression'' then Some SMS_Coding_Default_Compression
        else if n = ''8bit'' then Some SMS_Coding_8bit
        else None)"

fun GSM_SMSCodingToString :: "GSM_Coding_Type \<Rightarrow> string" where
  "GSM_SMSCodingToString SMS_Coding_Unicode_No_Compression = ''Unicode_No_Compression''"
| "GSM_SMSCodingToString SMS_Coding_Unicode_Compression = ''Unicode_Compression''"
| "GSM_SMSCodingToString SMS_Coding_Default_No_Compression = ''Default_No_Compression''"
| "GSM_SMSCodingToString SMS_Coding_Default_Compression = ''Default_Compression''"
| "GSM_SMSCodingToString SMS_Coding_8bit = ''8bit''"

interpretation coding_names:
  Interfaces.codec GSM_SMSCodingToString "\<lambda>s. GSM_StringToSMSCoding (Some s)" "\<lambda>_. True"
proof
  fix c show "GSM_StringToSMSCoding (Some (GSM_SMSCodingToString c)) = Some c"
    by (cases c) (simp_all add: GSM_StringToSMSCoding_def)
qed

end
