(* ===== verification/SmsUdh.thy ===== *)
theory SmsUdh imports SmsTypes begin

text \<open>
  User data headers (GSM 03.40 9.2.3.24): the table, \<^verbatim>\<open>GSM_DecodeUDHHeader\<close>,
  \<^verbatim>\<open>GSM_EncodeUDHHeader\<close> and \<^verbatim>\<open>GSM_IsValidUDH\<close> of \<^verbatim>\<open>libgammu/service/sms/gsmsms.c\<close>.
  \<open>UDH_Text\<close> is the array of 140 cells; cell 0 is the length octet.
\<close>

subsection \<open>Operations\<close>

definition udh_row :: "GSM_UDH \<Rightarrow> byte list \<Rightarrow> int \<Rightarrow> int \<Rightarrow> int \<Rightarrow> int \<Rightarrow> GSM_UDHHeader" where
  "udh_row type text id8 id16 part parts =
     \<lparr>UDH_Type = type, UDH_Length = int (length text), UDH_Text = text, ID8bit = id8, ID16bit = id16,
      PartNumber = part, AllParts = parts\<rparr>"

definition UDHHeaders :: "GSM_UDHHeader list" where
  "UDHHeaders =
    [udh_row UDH_ConcatenatedMessages [0x00, 0x03, 0x01, 0x00, 0x00] 2 (-1) 4 3,
     udh_row UDH_DisableVoice [0x01, 0x02, 0x00, 0x00] (-1) (-1) (-1) (-1),
     udh_row UDH_DisableFax [0x01, 0x02, 0x01, 0x00] (-1) (-1) (-1) (-1),
     udh_row UDH_DisableEmail [0x01, 0x02, 0x02, 0x00] (-1) (-1) (-1) (-1),
     udh_row UDH_EnableVoice [0x01, 0x02, 0x00, 0x01] (-1) (-1) (-1) (-1),
     udh_row UDH_EnableFax [0x01, 0x02, 0x01, 0x01] (-1) (-1) (-1) (-1),
     udh_row UDH_EnableEmail [0x01, 0x02, 0x02, 0x01] (-1) (-1) (-1) (-1),
     udh_row UDH_VoidSMS [0x01, 0x02, 0x02, 0x01, 0x01, 0x02, 0x02, 0x00] (-1) (-1) (-1) (-1),
     udh_row UDH_NokiaRingtone [0x05, 0x04, 0x15, 0x81, 0x00, 0x00] (-1) (-1) (-1) (-1),
     udh_row UDH_NokiaOperatorLogo [0x05, 0x04, 0x15, 0x82, 0x00, 0x00] (-1) (-1) (-1) (-1),
     udh_row UDH_NokiaCallerLogo [0x05, 0x04, 0x15, 0x83, 0x00, 0x00] (-1) (-1) (-1) (-1),
     udh_row UDH_NokiaWAP [0x05, 0x04, 0xc3, 0x4f, 0x00, 0x00] (-1) (-1) (-1) (-1),
     udh_row UDH_NokiaCalendarLong
       [0x05, 0x04, 0x00, 0xe4, 0x00, 0x00, 0x00, 0x03, 0xc7, 0x00, 0x00] 8 (-1) 10 9,
     udh_row UDH_MMSIndicatorLong
       [0x05, 0x04, 0x0b, 0x84, 0x23, 0xf0, 0x00, 0x03, 0xe5, 0x00, 0x00] 8 (-1) 10 9,
     udh_row UDH_NokiaRingtoneLong
       [0x05, 0x04, 0x15, 0x81, 0x00, 0x00, 0x00, 0x03, 0x01, 0x00, 0x00] 8 (-1) 10 9,
     udh_row UDH_NokiaOperatorLogoLong
       [0x05, 0x04, 0x15, 0x82, 0x00, 0x00, 0x00, 0x03, 0x02, 0x00, 0x00] 8 (-1) 10 9,
     udh_row UDH_NokiaProfileLong
       [0x05, 0x04, 0x15, 0x8a, 0x00, 0x00, 0x00, 0x03, 0xce, 0x00, 0x00] 8 (-1) 10 9,
     udh_row UDH_NokiaPhonebookLong
       [0x05, 0x04, 0x23, 0xf4, 0x00, 0x00, 0x00, 0x03, 0x01, 0x00, 0x00] 8 (-1) 10 9,
     udh_row UDH_NokiaWAPLong
       [0x05, 0x04, 0xc3, 0x4f, 0x00, 0x00, 0x00, 0x03, 0x7f, 0x00, 0x00] 8 (-1) 10 9,
     udh_row UDH_ConcatenatedMessages16bit [0x08, 0x04, 0x00, 0x00, 0x00, 0x00] (-1) 2 5 4,
     udh_row UDH_NoUDH [] (-1) (-1) (-1) (-1)]"

text \<open>The number of cells that have to agree, and the test of one row.\<close>

definition udh_compared :: "GSM_UDHHeader \<Rightarrow> byte list \<Rightarrow> nat" where
  "udh_compared row text =
     (let tmp = nat (UDH_Length row);
          tmp = (if tmp = 0x05 then tmp - 3 else tmp);
          tmp = (if tmp = 0x0b then tmp - 3 else tmp)
      in if tmp = 0x06 \<and> text ! 1 = 0x08 then tmp - 4 else tmp)"

definition udh_matches :: "GSM_UDHHeader \<Rightarrow> byte list \<Rightarrow> bool" where
  "udh_matches row text \<longleftrightarrow>
     UDH_Length row = int (unat (text ! 0))
     \<and> take (udh_compared row text) (UDH_Text row) = take (udh_compared row text) (drop 1 text)"

definition udh_cell :: "byte list \<Rightarrow> int \<Rightarrow> int" where
  "udh_cell text i = int (unat (text ! nat i))"

definition udh_read :: "GSM_UDHHeader \<Rightarrow> GSM_UDHHeader \<Rightarrow> GSM_UDHHeader" where
  "udh_read row UDH0 =
     (let text = UDH_Text UDH0 in UDH0\<lparr>
        UDH_Type := UDH_Type row,
        ID8bit := (if ID8bit row \<noteq> -1 then udh_cell text (ID8bit row + 1) else -1),
        ID16bit := (if ID16bit row \<noteq> -1
                    then udh_cell text (ID16bit row + 1) * 256 + udh_cell text (ID16bit row + 2)
                    else -1),
        PartNumber := (if PartNumber row \<noteq> -1 then udh_cell text (PartNumber row + 1) else -1),
        AllParts := (if AllParts row \<noteq> -1 then udh_cell text (AllParts row + 1) else -1)\<rparr>)"

fun udh_decode_loop :: "GSM_UDHHeader list \<Rightarrow> GSM_UDHHeader \<Rightarrow> GSM_UDHHeader" where
  "udh_decode_loop [] UDH0 = UDH0"
| "udh_decode_loop (row # rows) UDH0 =
     (if UDH_Type row = UDH_NoUDH then UDH0
      else if udh_matches row (UDH_Text UDH0) then udh_read row UDH0
      else udh_decode_loop rows UDH0)"

definition GSM_DecodeUDHHeader :: "GSM_UDHHeader \<Rightarrow> GSM_UDHHeader" where
  "GSM_DecodeUDHHeader UDH0 =
     udh_decode_loop UDHHeaders
       (UDH0\<lparr>UDH_Type := UDH_UserUDH, ID8bit := -1, ID16bit := -1, PartNumber := -1, AllParts := -1\<rparr>)"

text \<open>\<^verbatim>\<open>GSM_IsValidUDH\<close>: the walk over the information elements, from \<open>pos\<close>.\<close>

function udh_walk :: "byte list \<Rightarrow> nat \<Rightarrow> nat \<Rightarrow> bool" where
  "udh_walk text len pos =
     (if pos < len then
        (if len - pos < 2 then False
         else if unat (text ! (pos + 1)) > len - pos - 2 then False
         else udh_walk text len (pos + (2 + unat (text ! (pos + 1)))))
      else pos = len)"
  by pat_completeness auto
termination
  by (relation "measure (\<lambda>(_, len, pos). len - pos)") auto

declare udh_walk.simps [simp del]

definition GSM_IsValidUDH :: "GSM_UDHHeader \<Rightarrow> bool" where
  "GSM_IsValidUDH UDH0 =
     (if UDH_Length UDH0 < 1 \<or> UDH_Length UDH0 > int GSM_MAX_UDH_LENGTH
         \<or> int (unat (UDH_Text UDH0 ! 0)) + 1 \<noteq> UDH_Length UDH0
      then False
      else udh_walk (UDH_Text UDH0) (nat (UDH_Length UDH0)) 1)"

definition udh_put :: "int \<Rightarrow> int \<Rightarrow> byte list \<Rightarrow> byte list" where
  "udh_put i v text = text[nat i := word_of_int v]"

definition udh_write :: "GSM_UDHHeader \<Rightarrow> GSM_UDHHeader \<Rightarrow> GSM_UDHHeader" where
  "udh_write row UDH0 =
     (let text0 = overlay (word_of_int (UDH_Length row) # UDH_Text row) (UDH_Text UDH0);
          text1 = (if ID8bit row \<noteq> -1 then udh_put (ID8bit row + 1) (ID8bit UDH0) text0 else text0);
          text2 = (if ID16bit row \<noteq> -1
                   then udh_put (ID16bit row + 2) (ID16bit UDH0)
                          (udh_put (ID16bit row + 1) (c_quot (ID16bit UDH0) 256) text1)
                   else text1);
          text3 = (if PartNumber row \<noteq> -1 then udh_put (PartNumber row + 1) (PartNumber UDH0) text2
                   else text2);
          text4 = (if AllParts row \<noteq> -1 then udh_put (AllParts row + 1) (AllParts UDH0) text3 else text3)
      in UDH0\<lparr>
        UDH_Text := text4,
        UDH_Length := UDH_Length row + 1,
        ID8bit := (if ID8bit row \<noteq> -1 then ID8bit UDH0 else -1),
        ID16bit := (if ID16bit row \<noteq> -1 then ID16bit UDH0 else -1),
        PartNumber := (if PartNumber row \<noteq> -1 then PartNumber UDH0 else -1),
        AllParts := (if AllParts row \<noteq> -1 then AllParts UDH0 else -1)\<rparr>)"

fun udh_encode_loop :: "GSM_UDHHeader list \<Rightarrow> GSM_UDHHeader \<Rightarrow> GSM_UDHHeader" where
  "udh_encode_loop [] UDH0 = UDH0"
| "udh_encode_loop (row # rows) UDH0 =
     (if UDH_Type row = UDH_NoUDH then UDH0
      else if UDH_Type row \<noteq> UDH_Type UDH0 then udh_encode_loop rows UDH0
      else udh_write row UDH0)"

definition GSM_EncodeUDHHeader :: "GSM_UDHHeader \<Rightarrow> GSM_UDHHeader" where
  "GSM_EncodeUDHHeader UDH0 =
     (if UDH_Type UDH0 = UDH_NoUDH then UDH0\<lparr>UDH_Length := 0\<rparr>
      else if UDH_Type UDH0 = UDH_UserUDH
      then UDH0\<lparr>UDH_Length := int (unat (UDH_Text UDH0 ! 0)) + 1\<rparr>
      else udh_encode_loop UDHHeaders UDH0)"

subsection \<open>Encoded headers\<close>

text \<open>The first twelve cells of the array, which hold every header of the table.\<close>

lemma udh_array:
  assumes "length text = GSM_MAX_UDH_LENGTH"
  obtains a b c d e f g h i j k l rest where "text = a # b # c # d # e # f # g # h # i # j # k # l # rest"
proof -
  have "Suc (Suc (Suc (Suc (Suc (Suc (Suc (Suc (Suc (Suc (Suc (Suc 0))))))))))) \<le> length text"
    using assms by (simp add: GSM_MAX_UDH_LENGTH_def)
  then show thesis unfolding Suc_le_length_iff using that by blast
qed

definition table_type :: "GSM_UDH \<Rightarrow> bool" where
  "table_type t \<longleftrightarrow> t \<noteq> UDH_NoUDH \<and> t \<noteq> UDH_UserUDH"

lemma byte_mod: "int (unat (word_of_int v :: byte)) = v mod 256"
  by (simp add: uint_word_of_int flip: uint_nat)

text \<open>The row a type is encoded with.\<close>

definition row_of :: "GSM_UDH \<Rightarrow> GSM_UDHHeader" where
  "row_of t = hd (filter (\<lambda>row. UDH_Type row = t) UDHHeaders)"

definition udh_in_range :: "GSM_UDHHeader \<Rightarrow> bool" where
  "udh_in_range u \<longleftrightarrow> ID8bit u \<in> {0..<256} \<and> ID16bit u \<in> {0..<65536}
     \<and> PartNumber u \<in> {0..<256} \<and> AllParts u \<in> {0..<256}"

lemmas udh_unfold = table_type_def GSM_EncodeUDHHeader_def UDHHeaders_def udh_row_def udh_write_def udh_put_def
  overlay_def Let_def

text \<open>
  Claim C34. A header of any type of the table, encoded into an array of the size the library
  declares, is one that \<^verbatim>\<open>GSM_IsValidUDH\<close> accepts.
\<close>

theorem udh_encode_valid:
  assumes "table_type (UDH_Type u)" "length (UDH_Text u) = GSM_MAX_UDH_LENGTH"
  shows "GSM_IsValidUDH (GSM_EncodeUDHHeader u)"
  using assms
  by (rule_tac udh_array [OF assms(2)]; cases "UDH_Type u")
     (simp_all add: udh_unfold GSM_IsValidUDH_def GSM_MAX_UDH_LENGTH_def udh_walk.simps)

definition sample_udh :: GSM_UDHHeader where
  "sample_udh = udh_row UDH_ConcatenatedMessages16bit (replicate GSM_MAX_UDH_LENGTH 0) 0 1000 2 3"

lemma udh_encode_valid_witness: "GSM_IsValidUDH (GSM_EncodeUDHHeader sample_udh)"
  by (rule udh_encode_valid) (simp_all add: sample_udh_def udh_row_def table_type_def)

lemma uint_cell: "0 \<le> v \<Longrightarrow> v < 256 \<Longrightarrow> uint (word_of_int v :: byte) = v"
  by (simp add: uint_word_of_int)

lemma uint_high_low:
  assumes "0 \<le> v" "v < 65536"
  shows "uint (word_of_int (c_quot v 256) :: byte) * 256 + uint (word_of_int v :: byte) = v"
proof -
  have "v div 256 < 256" using assms zdiv_mono1 [of v 65535 256] by simp
  then have "v div 256 mod 256 = v div 256" using assms by (simp add: pos_imp_zdiv_nonneg_iff)
  moreover have "c_quot v 256 = v div 256" using assms by (cases "v = 0") (auto simp: c_quot_def)
  ultimately show ?thesis by (simp add: uint_word_of_int)
qed

text \<open>
  Encoding a header of the table and reading the array back finds the same type, and
  every identifier and part number the type has; the others are marked absent.
\<close>

theorem udh_roundtrip:
  assumes "table_type (UDH_Type u)" "length (UDH_Text u) = GSM_MAX_UDH_LENGTH" "udh_in_range u"
  defines "row \<equiv> row_of (UDH_Type u)"
  shows "GSM_DecodeUDHHeader (GSM_EncodeUDHHeader u) = (GSM_EncodeUDHHeader u)\<lparr>
      UDH_Type := UDH_Type u,
      ID8bit := (if ID8bit row = -1 then -1 else ID8bit u),
      ID16bit := (if ID16bit row = -1 then -1 else ID16bit u),
      PartNumber := (if PartNumber row = -1 then -1 else PartNumber u),
      AllParts := (if AllParts row = -1 then -1 else AllParts u)\<rparr>"
  using assms
  by (rule_tac udh_array [OF assms(2)]; cases "UDH_Type u")
     (simp_all add: udh_unfold row_of_def udh_in_range_def GSM_DecodeUDHHeader_def udh_matches_def
       udh_compared_def udh_read_def udh_cell_def uint_cell uint_high_low del: of_int_mult of_int_div)

lemma udh_roundtrip_witness: "ID16bit (GSM_DecodeUDHHeader (GSM_EncodeUDHHeader sample_udh)) = 1000"
  by (subst udh_roundtrip)
     (simp_all add: sample_udh_def udh_row_def table_type_def udh_in_range_def row_of_def UDHHeaders_def)

end
