(* ===== verification/SmsDecode.thy ===== *)
theory SmsDecode imports SmsUdh Alphabet Escapes Numbers begin

text \<open>
  Decoding of SMS PDUs: \<^verbatim>\<open>GSM_DecodePDUFrame\<close>, \<^verbatim>\<open>GSM_DecodeSMSFrame\<close>, \<^verbatim>\<open>GSM_DecodeSMSFrameText\<close> and
  \<^verbatim>\<open>GSM_DecodeSMSStatusReportData\<close> of \<^verbatim>\<open>libgammu/service/sms/gsmsms.c\<close>. Each part of the big
  function is a stage; a failing stage carries the error and the message as stored by then.
\<close>

type_synonym 'a decoding = "(GSM_Error \<times> GSM_SMSMessage, 'a) stage"

subsection \<open>User data text\<close>

text \<open>A store to the start of \<^verbatim>\<open>SMS->Text\<close>, and a UCS-2 string with its terminator.\<close>

definition put_text :: "byte list \<Rightarrow> GSM_SMSMessage \<Rightarrow> GSM_SMSMessage decoding" where
  "put_text bs SMS =
     (if length bs \<le> length (SMS_Text SMS) then Go (SMS\<lparr>SMS_Text := overlay bs (SMS_Text SMS)\<rparr>) else OobWrite)"

definition ucs2z :: "uchar list \<Rightarrow> byte list" where
  "ucs2z us = bytes_of_units us @ [0, 0]"

definition c_rem :: "int \<Rightarrow> int \<Rightarrow> int" where
  "c_rem a b = sgn a * (\<bar>a\<bar> mod \<bar>b\<bar>)"

lemma c_rem_nonneg: "0 \<le> a \<Longrightarrow> 0 \<le> c_rem a b"
  by (cases "b = 0") (auto simp: c_rem_def sgn_if)

text \<open>The fill bits behind a header of \<open>off\<close> octets: the \<^verbatim>\<open>do\<close> loop over \<open>i\<close>.\<close>

function fill_bits :: "int \<Rightarrow> int \<Rightarrow> int" where
  "fill_bits off i = (let w = c_rem (i - off) i in if w < 0 then fill_bits off (i + 7) else w)"
  by pat_completeness auto
termination
proof (relation "measure (\<lambda>(off, i). nat (off - i))", goal_cases)
  case (2 off i w)
  then have "\<not> 0 \<le> i - off" using c_rem_nonneg [of "i - off" i] by auto
  then show ?case by simp
qed simp

declare fill_bits.simps [simp del]

text \<open>
  The three codings. \<open>room\<close> is the size of the local array \<^verbatim>\<open>output\<close>; a text shorter than
  announced would leave cells of it unwritten that \<^verbatim>\<open>DecodeDefault\<close> reads.
\<close>

definition text_7bit ::
  "nat \<Rightarrow> byte list \<Rightarrow> nat \<Rightarrow> int \<Rightarrow> int \<Rightarrow> GSM_SMSMessage \<Rightarrow> GSM_SMSMessage decoding" where
  "text_7bit room buffer start udl off SMS =
     (let w = fill_bits off 7; len = udl - (off * 8 + w) div 7; n = nat ((udl * 7 + 7) div 8 - off) in
      if len < 0 then Go (SMS\<lparr>SMS_Length := 0\<rparr>)
      else rds buffer start n (\<lambda>payload.
        let output = GSM_UnpackEightBitsToSeven (nat w) n (nat len) payload in
        if length output > room then OobWrite
        else if length output < nat len then OobRead
        else put_text (ucs2z (DecodeDefault output True None)) (SMS\<lparr>SMS_Length := len\<rparr>)))"

definition text_8bit :: "byte list \<Rightarrow> nat \<Rightarrow> int \<Rightarrow> int \<Rightarrow> GSM_SMSMessage \<Rightarrow> GSM_SMSMessage decoding" where
  "text_8bit buffer start udl off SMS =
     (let len = udl - off in
      rds buffer start (nat len) (\<lambda>payload. put_text payload (SMS\<lparr>SMS_Length := len\<rparr>)))"

definition text_unicode :: "byte list \<Rightarrow> nat \<Rightarrow> int \<Rightarrow> int \<Rightarrow> GSM_SMSMessage \<Rightarrow> GSM_SMSMessage decoding" where
  "text_unicode buffer start udl off SMS =
     (let len = c_quot (udl - off) 2 in
      rds buffer start (2 * nat len) (\<lambda>payload.
        put_text (ucs2z (DecodeUnicodeSpecialNOKIAChars (units_of_bytes payload) (nat len)))
          (SMS\<lparr>SMS_Length := len\<rparr>)))"

subsection \<open>Status reports\<close>

definition GSM_DecodeSMSStatusReportData :: "c_locale \<Rightarrow> byte \<Rightarrow> GSM_SMSMessage \<Rightarrow> GSM_SMSMessage decoding" where
  "GSM_DecodeSMSStatusReportData loc TP_ST SMS0 =
     (let SMS = SMS0\<lparr>DeliveryStatus := TP_ST, Coding := SMS_Coding_Unicode_No_Compression\<rparr>;
          text = (if TP_ST < 0x03 then bytes_of ''Delivered''
                  else if TP_ST AND 0x40 \<noteq> 0 then bytes_of ''Failed''
                  else if TP_ST AND 0x20 \<noteq> 0 then bytes_of ''Pending''
                  else bytes_of ''Unknown'')
      in put_text (ucs2z (EncodeUnicode loc text)) (SMS\<lparr>SMS_Length := int (length text)\<rparr>))"

subsection \<open>The PDU, part by part\<close>

text \<open>A number field whose result goes into the message.\<close>

fun number_stage ::
  "(uchar list \<Rightarrow> GSM_SMSMessage) \<Rightarrow> GSM_SMSMessage \<Rightarrow> (GSM_Error, GSM_Error \<times> uchar list \<times> nat) stage
   \<Rightarrow> (GSM_SMSMessage \<times> nat) decoding" where
  "number_stage store SMS OobRead = OobRead"
| "number_stage store SMS OobWrite = OobWrite"
| "number_stage store SMS (Fail err) = Fail (err, SMS)"
| "number_stage store SMS (Go (err, num, pos)) =
     (if err \<noteq> ERR_NONE then Fail (err, store num) else Go (store num, pos))"

definition store_smsc :: "GSM_SMSMessage \<Rightarrow> uchar list \<Rightarrow> GSM_SMSMessage" where
  "store_smsc SMS num = SMS\<lparr>SMSC := (SMSC SMS)\<lparr>SMSC_Number := num\<rparr>\<rparr>"

definition pdu_smsc ::
  "c_locale \<Rightarrow> byte list \<Rightarrow> nat \<Rightarrow> bool \<Rightarrow> GSM_SMSMessage \<Rightarrow> (GSM_SMSMessage \<times> nat) decoding" where
  "pdu_smsc loc buffer len with_smsc SMS =
     (if with_smsc
      then number_stage (store_smsc SMS) SMS (GSM_UnpackSemiOctetNumber loc buffer 0 len False)
      else Go (SMS, 0))"

definition pdu_type ::
  "byte list \<Rightarrow> nat \<Rightarrow> nat \<Rightarrow> GSM_SMSMessage \<Rightarrow> (GSM_SMSMessage \<times> nat \<times> bool \<times> nat) decoding" where
  "pdu_type buffer len pos SMS =
     (if pos \<ge> len then Fail (ERR_CORRUPTED, SMS)
      else rd buffer pos (\<lambda>ty.
        let kind = unat (ty AND 0x3); vpf = unat (drop_bit 3 (ty AND 0x18)); udh = (ty AND 0x40 \<noteq> 0) in
        if kind = 3 then Fail (ERR_UNKNOWN, SMS)
        else if kind = 0 then Go (SMS\<lparr>PDU := SMS_Deliver\<rparr>, pos + 1, udh, 0)
        else if kind = 1 then
          (if vpf = 1 then Fail (ERR_UNKNOWN, SMS\<lparr>PDU := SMS_Submit\<rparr>)
           else Go (SMS\<lparr>PDU := SMS_Submit\<rparr>, pos + 1, udh, vpf))
        else Go (SMS\<lparr>PDU := SMS_Status_Report\<rparr>, pos + 1, False, 0)))"

definition pdu_reference ::
  "byte list \<Rightarrow> nat \<Rightarrow> GSM_SMSMessage \<times> nat \<Rightarrow> (GSM_SMSMessage \<times> nat) decoding" where
  "pdu_reference buffer len = (\<lambda>(SMS, pos).
     if PDU SMS = SMS_Submit \<or> PDU SMS = SMS_Status_Report then
       (if pos \<ge> len then Fail (ERR_CORRUPTED, SMS)
        else rd buffer pos (\<lambda>b. Go (SMS\<lparr>MessageReference := b\<rparr>, pos + 1)))
     else Go (SMS, pos))"

definition pdu_number ::
  "c_locale \<Rightarrow> byte list \<Rightarrow> nat \<Rightarrow> GSM_SMSMessage \<times> nat \<Rightarrow> (GSM_SMSMessage \<times> nat) decoding" where
  "pdu_number loc buffer len = (\<lambda>(SMS, pos).
     number_stage (\<lambda>num. SMS\<lparr>SMS_Number := num\<rparr>) SMS (GSM_UnpackSemiOctetNumber loc buffer pos len True))"

text \<open>The protocol identifier and the class, shared with the status report.\<close>

definition store_pid :: "byte \<Rightarrow> GSM_SMSMessage \<Rightarrow> GSM_SMSMessage" where
  "store_pid b SMS = (if b > 0x40 \<and> b < 0x48 then SMS\<lparr>ReplaceMessage := b - 0x40\<rparr> else SMS)"

definition pdu_pid_dcs ::
  "byte list \<Rightarrow> nat \<Rightarrow> GSM_SMSMessage \<times> nat \<Rightarrow> (GSM_SMSMessage \<times> nat) decoding" where
  "pdu_pid_dcs buffer len = (\<lambda>(SMS, pos).
     if PDU SMS = SMS_Submit \<or> PDU SMS = SMS_Deliver then
       (if pos \<ge> len then Fail (ERR_CORRUPTED, SMS)
        else rd buffer pos (\<lambda>pid. let SMS1 = store_pid pid SMS in
          if pos + 1 \<ge> len then Fail (ERR_CORRUPTED, SMS1)
          else rd buffer (pos + 1) (\<lambda>dcs.
            Go (SMS1\<lparr>Coding := GSM_GetMessageCoding dcs,
                     Class := (if dcs AND 0xD0 = 0x10 \<or> dcs AND 0xF0 = 0xF0
                               then int (unat (dcs AND 3)) else -1)\<rparr>, pos + 2))))
     else Go (SMS, pos))"

text \<open>The seven octets of a time stamp.\<close>

definition pdu_stamp ::
  "(GSM_DateTime \<Rightarrow> GSM_SMSMessage) \<Rightarrow> byte list \<Rightarrow> nat \<Rightarrow> GSM_SMSMessage \<Rightarrow> nat
   \<Rightarrow> (GSM_SMSMessage \<times> nat) decoding" where
  "pdu_stamp store buffer len SMS pos =
     (if pos > len \<or> len - pos < 7 then Fail (ERR_CORRUPTED, SMS)
      else rds buffer pos 7 (\<lambda>octets. Go (store (GSM_DecodeSMSDateTime octets), pos + 7)))"

definition pdu_time ::
  "byte list \<Rightarrow> nat \<Rightarrow> GSM_SMSMessage \<times> nat \<Rightarrow> (GSM_SMSMessage \<times> nat) decoding" where
  "pdu_time buffer len = (\<lambda>(SMS, pos).
     if PDU SMS = SMS_Status_Report \<or> PDU SMS = SMS_Deliver
     then pdu_stamp (\<lambda>t. SMS\<lparr>DateTime := t\<rparr>) buffer len SMS pos
     else Go (SMS, pos))"

text \<open>The parts a status report has behind the first time stamp; the flag is \<^verbatim>\<open>have_data\<close>.\<close>

definition pdu_optional ::
  "byte list \<Rightarrow> nat \<Rightarrow> GSM_SMSMessage \<times> nat \<Rightarrow> (GSM_SMSMessage \<times> nat \<times> bool) decoding" where
  "pdu_optional buffer len = (\<lambda>(SMS, pos).
     if pos < len then rd buffer pos (\<lambda>tp_pi.
       if tp_pi = 0xff then Go (SMS, pos, False)
       else
         andthen
           (if tp_pi AND 1 \<noteq> 0 then
              (if pos + 1 \<ge> len then Fail (ERR_CORRUPTED, SMS)
               else rd buffer (pos + 1) (\<lambda>pid. Go (store_pid pid SMS, pos + 2)))
            else Go (SMS, pos + 1))
           (\<lambda>(SMS1, pos1).
             andthen
               (if tp_pi AND 2 \<noteq> 0 then
                  (if pos1 \<ge> len then Fail (ERR_CORRUPTED, SMS1)
                   else rd buffer pos1 (\<lambda>dcs. Go (SMS1\<lparr>Coding := GSM_GetMessageCoding dcs\<rparr>, pos1 + 1)))
                else Go (SMS1\<lparr>Coding := GSM_GetMessageCoding 0\<rparr>, pos1))
               (\<lambda>(SMS2, pos2). Go (SMS2, pos2, tp_pi AND 4 \<noteq> 0))))
     else Go (SMS, pos, False))"

definition pdu_report ::
  "c_locale \<Rightarrow> byte list \<Rightarrow> nat \<Rightarrow> GSM_SMSMessage \<times> nat \<Rightarrow> (GSM_SMSMessage \<times> nat \<times> bool) decoding" where
  "pdu_report loc buffer len = (\<lambda>(SMS, pos).
     if PDU SMS = SMS_Status_Report then
       andthen (pdu_stamp (\<lambda>t. SMS\<lparr>SMSCTime := t\<rparr>) buffer len SMS pos) (\<lambda>(SMS1, pos1).
         if pos1 \<ge> len then Fail (ERR_CORRUPTED, SMS1)
         else rd buffer pos1 (\<lambda>status.
           andthen (GSM_DecodeSMSStatusReportData loc status SMS1) (\<lambda>SMS2.
             pdu_optional buffer len (SMS2, pos1 + 1))))
     else Go (SMS, pos, False))"

definition pdu_validity ::
  "byte list \<Rightarrow> nat \<Rightarrow> nat \<Rightarrow> GSM_SMSMessage \<times> nat \<Rightarrow> (GSM_SMSMessage \<times> nat) decoding" where
  "pdu_validity buffer len vpf = (\<lambda>(SMS, pos).
     if PDU SMS = SMS_Submit \<and> vpf = 2 then
       (if pos \<ge> len then Fail (ERR_CORRUPTED, SMS)
        else rd buffer pos (\<lambda>b.
          Go (SMS\<lparr>SMSC := (SMSC SMS)\<lparr>Validity :=
                \<lparr>Validity_Format = SMS_Validity_RelativeFormat, Relative = b\<rparr>\<rparr>\<rparr>, pos + 1)))
     else if PDU SMS = SMS_Submit \<and> vpf = 3 then
       (if pos > len \<or> len - pos < 7 then Fail (ERR_CORRUPTED, SMS) else Go (SMS, pos + 7))
     else Go (SMS, pos))"

subsection \<open>User data\<close>

text \<open>
  The user data length, the octets it stands for, and whether it was cut because only \<open>avail\<close>
  octets follow.
\<close>

definition septet_octets :: "nat \<Rightarrow> nat" where
  "septet_octets udl = (if udl * 7 mod 8 \<noteq> 0 then udl * 7 div 8 + 1 else udl * 7 div 8)"

definition pdu_data_length :: "GSM_Coding_Type \<Rightarrow> nat \<Rightarrow> nat \<Rightarrow> nat \<times> nat \<times> bool" where
  "pdu_data_length coding udl avail =
     (let datalength = (if coding = SMS_Coding_Default_No_Compression then septet_octets udl else udl) in
      if datalength > avail then
        (if coding = SMS_Coding_Default_No_Compression
         then (avail * 8 div 7, septet_octets (avail * 8 div 7), True)
         else (avail, avail, True))
      else (udl, datalength, False))"

text \<open>The header; \<open>SMS\<close> has \<^verbatim>\<open>UDH.Length\<close> 0. \<open>start\<close> is the position behind the length octet.\<close>

definition pdu_udh :: "byte list \<Rightarrow> nat \<Rightarrow> nat \<Rightarrow> bool \<Rightarrow> GSM_SMSMessage \<Rightarrow> GSM_SMSMessage decoding" where
  "pdu_udh buffer start datalength udh SMS =
     (if udh then
        (if datalength < 1 then Fail (ERR_CORRUPTED, SMS)
         else rd buffer start (\<lambda>b.
           let n = unat b + 1; SMS1 = SMS\<lparr>UDH := (UDH SMS)\<lparr>UDH_Length := int n\<rparr>\<rparr> in
           if n > GSM_MAX_UDH_LENGTH \<or> n > datalength then Fail (ERR_CORRUPTED, SMS1)
           else rds buffer start n (\<lambda>octets.
             if n > length (UDH_Text (UDH SMS)) then OobWrite
             else
               let header = (UDH SMS1)\<lparr>UDH_Text := overlay octets (UDH_Text (UDH SMS1))\<rparr> in
               if \<not> GSM_IsValidUDH header then Fail (ERR_CORRUPTED, SMS1\<lparr>UDH := header\<rparr>)
               else Go (SMS1\<lparr>UDH := GSM_DecodeUDHHeader header\<rparr>))))
      else Go SMS)"

definition pdu_text :: "byte list \<Rightarrow> nat \<Rightarrow> int \<Rightarrow> GSM_SMSMessage \<Rightarrow> GSM_SMSMessage decoding" where
  "pdu_text buffer start udl SMS =
     (let off = UDH_Length (UDH SMS) in
      if Coding SMS = SMS_Coding_Default_No_Compression then text_7bit 161 buffer start udl off SMS
      else if Coding SMS = SMS_Coding_8bit then
        (if udl - off < 0 then Fail (ERR_CORRUPTED, SMS\<lparr>SMS_Length := udl - off\<rparr>)
         else text_8bit buffer start udl off SMS)
      else if Coding SMS = SMS_Coding_Unicode_No_Compression then
        (if c_quot (udl - off) 2 < 0 then Fail (ERR_CORRUPTED, SMS\<lparr>SMS_Length := c_quot (udl - off) 2\<rparr>)
         else text_unicode buffer start udl off SMS)
      else Go (SMS\<lparr>SMS_Length := 0\<rparr>))"

text \<open>Header and text behind the length octet at \<open>pos\<close>; half a character is dropped only when the
  data was cut.\<close>

definition pdu_content ::
  "byte list \<Rightarrow> nat \<Rightarrow> bool \<Rightarrow> nat \<Rightarrow> nat \<Rightarrow> bool \<Rightarrow> GSM_SMSMessage \<Rightarrow> (GSM_SMSMessage \<times> nat) decoding" where
  "pdu_content buffer pos udh udl datalength truncated SMS =
     andthen (pdu_udh buffer (pos + 1) datalength udh (SMS\<lparr>UDH := (UDH SMS)\<lparr>UDH_Length := 0\<rparr>\<rparr>)) (\<lambda>SMS1.
       let odd_text = (Coding SMS1 = SMS_Coding_Unicode_No_Compression
                       \<and> (int udl - UDH_Length (UDH SMS1)) mod 2 \<noteq> 0) in
       if odd_text \<and> \<not> truncated then Fail (ERR_CORRUPTED, SMS1)
       else
         andthen (pdu_text buffer (pos + 1 + nat (UDH_Length (UDH SMS1)))
                    (if odd_text then int udl - 1 else int udl) SMS1) (\<lambda>SMS2.
           Go (SMS2, pos + datalength + 1)))"

definition pdu_data ::
  "byte list \<Rightarrow> nat \<Rightarrow> bool \<Rightarrow> GSM_SMSMessage \<Rightarrow> nat \<Rightarrow> (GSM_SMSMessage \<times> nat) decoding" where
  "pdu_data buffer len udh SMS pos =
     (if pos \<ge> len then Fail (ERR_CORRUPTED, SMS)
      else rd buffer pos (\<lambda>b.
        if (Coding SMS = SMS_Coding_Default_No_Compression \<and> unat b > GSM_MAX_SMS_CHARS_LENGTH)
           \<or> (Coding SMS \<noteq> SMS_Coding_Default_No_Compression \<and> unat b > GSM_MAX_8BIT_SMS_LENGTH)
        then Fail (ERR_CORRUPTED, SMS)
        else if Coding SMS = SMS_Coding_Unicode_Compression \<or> Coding SMS = SMS_Coding_Default_Compression
        then Fail (ERR_NOTSUPPORTED, SMS)
        else
          let (udl, datalength, truncated) = pdu_data_length (Coding SMS) (unat b) (len - pos - 1)
          in pdu_content buffer pos udh udl datalength truncated SMS))"

definition GSM_DecodePDUFrame ::
  "c_locale \<Rightarrow> GSM_SMSMessage \<Rightarrow> byte list \<Rightarrow> nat \<Rightarrow> bool \<Rightarrow> (GSM_SMSMessage \<times> nat) decoding" where
  "GSM_DecodePDUFrame loc SMS0 buffer len with_smsc =
     (let SMS = GSM_SetDefaultReceivedSMSData SMS0 in
      if len = 0 then Fail (ERR_CORRUPTED, SMS)
      else
        andthen (pdu_smsc loc buffer len with_smsc SMS) (\<lambda>(SMS1, pos1).
        andthen (pdu_type buffer len pos1 SMS1) (\<lambda>(SMS2, pos2, udh, vpf).
        andthen (andthen (andthen (andthen (pdu_reference buffer len (SMS2, pos2))
                  (pdu_number loc buffer len)) (pdu_pid_dcs buffer len)) (pdu_time buffer len)) (\<lambda>r3.
        andthen (pdu_report loc buffer len r3) (\<lambda>(SMS4, pos4, have_data).
        andthen (pdu_validity buffer len vpf (SMS4, pos4)) (\<lambda>(SMS5, pos5).
          if PDU SMS5 = SMS_Submit \<or> PDU SMS5 = SMS_Deliver \<or> have_data
          then pdu_data buffer len udh SMS5 pos5
          else Go (SMS5, pos5)))))))"

subsection \<open>Frames whose parts lie at the offsets of a layout\<close>

text \<open>255 marks a part the frame does not have. The header is copied before its length is
  compared with the size of \<^verbatim>\<open>UDH.Text\<close>.\<close>

definition frame_udh ::
  "byte list \<Rightarrow> GSM_SMSMessageLayout \<Rightarrow> byte \<Rightarrow> byte \<Rightarrow> GSM_SMSMessage \<Rightarrow> (GSM_SMSMessage \<times> nat) decoding" where
  "frame_udh buffer Layout fb tpudl SMS =
     (if fb AND 64 \<noteq> 0 then
        rd buffer (Layout_Text Layout) (\<lambda>b. let off = unat b + 1 in
          if off > unat tpudl then Fail (ERR_CORRUPTED, SMS)
          else rds buffer (Layout_Text Layout) off (\<lambda>octets.
            if off > length (UDH_Text (UDH SMS)) then OobWrite
            else Go (SMS\<lparr>UDH := GSM_DecodeUDHHeader ((UDH SMS)\<lparr>UDH_Length := int off,
                        UDH_Text := overlay octets (UDH_Text (UDH SMS))\<rparr>)\<rparr>, off)))
      else Go (SMS, 0))"

definition GSM_DecodeSMSFrameText ::
  "byte list \<Rightarrow> GSM_SMSMessageLayout \<Rightarrow> GSM_SMSMessage \<Rightarrow> GSM_SMSMessage decoding" where
  "GSM_DecodeSMSFrameText buffer Layout SMS =
     rd buffer (Layout_firstbyte Layout) (\<lambda>fb. rd buffer (Layout_TPUDL Layout) (\<lambda>tpudl.
       andthen (frame_udh buffer Layout fb tpudl (SMS\<lparr>UDH := (UDH SMS)\<lparr>UDH_Length := 0\<rparr>\<rparr>)) (\<lambda>(SMS1, off).
         let start = Layout_Text Layout + off; udl = int (unat tpudl) in
         if Layout_Text Layout \<noteq> 255 \<and> Layout_TPUDL Layout \<noteq> 255 \<and> Layout_Text Layout + unat tpudl > 256
         then Fail (ERR_CORRUPTED, SMS1)
         else if Coding SMS1 = SMS_Coding_Default_No_Compression
         then text_7bit 1024 buffer start udl (int off) SMS1
         else if Coding SMS1 = SMS_Coding_8bit then text_8bit buffer start udl (int off) SMS1
         else if Coding SMS1 = SMS_Coding_Unicode_No_Compression
         then text_unicode buffer start udl (int off) SMS1
         else Go (SMS1\<lparr>SMS_Length := 0\<rparr>))))"

text \<open>\<^verbatim>\<open>GSM_DecodeSMSFrame\<close> goes on with what the text decoder stored, whatever it returns.\<close>

fun ignore_error :: "GSM_SMSMessage decoding \<Rightarrow> GSM_SMSMessage decoding" where
  "ignore_error (Fail (e, SMS)) = Go SMS"
| "ignore_error s = s"

definition zerodt :: GSM_DateTime where
  "zerodt = \<lparr>Timezone = 0, Second = 0, Minute = 0, Hour = 0, Day = 0, Month = 0, Year = 0\<rparr>"

definition frame_number ::
  "(uchar list \<Rightarrow> GSM_SMSMessage) \<Rightarrow> c_locale \<Rightarrow> byte list \<Rightarrow> nat \<Rightarrow> bool \<Rightarrow> GSM_SMSMessage
   \<Rightarrow> GSM_SMSMessage decoding" where
  "frame_number store loc buffer pos semioctet SMS =
     (if pos \<noteq> 255
      then andthen (number_stage store SMS (GSM_UnpackSemiOctetNumber loc buffer pos 1000 semioctet))
             (\<lambda>(SMS', pos'). Go SMS')
      else Go SMS)"

definition frame_text :: "byte list \<Rightarrow> GSM_SMSMessageLayout \<Rightarrow> GSM_SMSMessage \<Rightarrow> GSM_SMSMessage decoding" where
  "frame_text buffer Layout SMS =
     andthen
       (if Layout_TPDCS Layout \<noteq> 255
        then rd buffer (Layout_TPDCS Layout) (\<lambda>dcs. Go (SMS\<lparr>Coding := GSM_GetMessageCoding dcs\<rparr>))
        else Go SMS) (\<lambda>SMS1.
       if Layout_Text Layout \<noteq> 255 \<and> Layout_TPDCS Layout \<noteq> 255 \<and> Layout_TPUDL Layout \<noteq> 255
       then rd buffer (Layout_TPUDL Layout) (\<lambda>tpudl.
         if tpudl > 0 then ignore_error (GSM_DecodeSMSFrameText buffer Layout SMS1) else Go SMS1)
       else Go SMS1)"

definition frame_times ::
  "c_locale \<Rightarrow> byte list \<Rightarrow> GSM_SMSMessageLayout \<Rightarrow> GSM_SMSMessage \<Rightarrow> GSM_SMSMessage decoding" where
  "frame_times loc buffer Layout SMS =
     andthen
       (if Layout_DateTime Layout \<noteq> 255
        then rds buffer (Layout_DateTime Layout) 7 (\<lambda>t. Go (SMS\<lparr>DateTime := GSM_DecodeSMSDateTime t\<rparr>))
        else Go (SMS\<lparr>DateTime := zerodt\<rparr>)) (\<lambda>SMS1.
       if Layout_SMSCTime Layout \<noteq> 255 \<and> Layout_TPStatus Layout \<noteq> 255
       then rds buffer (Layout_SMSCTime Layout) 7 (\<lambda>t. rd buffer (Layout_TPStatus Layout) (\<lambda>st.
         GSM_DecodeSMSStatusReportData loc st (SMS1\<lparr>SMSCTime := GSM_DecodeSMSDateTime t\<rparr>)))
       else Go (SMS1\<lparr>SMSCTime := zerodt\<rparr>))"

definition frame_class :: "byte \<Rightarrow> int" where
  "frame_class dcs =
     (if dcs AND 0xD0 = 0x10 then (if dcs AND 0xC = 0xC then -1 else int (unat (dcs AND 3)))
      else if dcs AND 0xF0 = 0xF0 then (if dcs AND 8 = 8 then -1 else int (unat (dcs AND 3)))
      else -1)"

text \<open>A field read from an optional cell of the frame.\<close>

definition optional_cell :: "byte list \<Rightarrow> nat \<Rightarrow> 'a \<Rightarrow> (byte \<Rightarrow> 'a) \<Rightarrow> ('a \<Rightarrow> ('f, 'b) stage) \<Rightarrow> ('f, 'b) stage" where
  "optional_cell buffer pos d f k = (if pos \<noteq> 255 then rd buffer pos (\<lambda>b. k (f b)) else k d)"

definition GSM_DecodeSMSFrame ::
  "c_locale \<Rightarrow> GSM_SMSMessage \<Rightarrow> byte list \<Rightarrow> GSM_SMSMessageLayout \<Rightarrow> GSM_SMSMessage decoding" where
  "GSM_DecodeSMSFrame loc SMS0 buffer Layout =
     (let SMS = GSM_SetDefaultReceivedSMSData SMS0 in
      andthen (frame_number (store_smsc SMS) loc buffer (Layout_SMSCNumber Layout) False SMS) (\<lambda>SMS1.
      rd buffer (Layout_firstbyte Layout) (\<lambda>fb.
      let SMS2 = (if fb AND 0x80 \<noteq> 0 then SMS1\<lparr>ReplyViaSameSMSC := True\<rparr> else SMS1) in
      andthen (frame_number (\<lambda>num. SMS2\<lparr>SMS_Number := num\<rparr>) loc buffer (Layout_Number Layout) True SMS2) (\<lambda>SMS3.
      andthen (frame_text buffer Layout SMS3) (\<lambda>SMS4.
      andthen (frame_times loc buffer Layout SMS4) (\<lambda>SMS5.
      optional_cell buffer (Layout_TPDCS Layout) (-1) frame_class (\<lambda>class.
      optional_cell buffer (Layout_TPMR Layout) 0 (\<lambda>b. b) (\<lambda>ref.
      optional_cell buffer (Layout_TPPID Layout) 0 (\<lambda>b. if b > 0x40 \<and> b < 0x48 then b - 0x40 else 0) (\<lambda>replace.
      Go (SMS5\<lparr>Class := class, MessageReference := ref, ReplaceMessage := replace,
                RejectDuplicates := (fb AND 0x04 = 0x04)\<rparr>))))))))))"

subsection \<open>Fill bits and the septets behind a header\<close>

lemma fill_bits_from:
  "0 < i \<Longrightarrow> i mod 7 = 0 \<Longrightarrow> i \<le> off + 6 \<Longrightarrow> 0 \<le> off \<Longrightarrow> fill_bits off i = (- off) mod 7"
proof (induction off i rule: fill_bits.induct)
  case (1 off i)
  define w where "w = c_rem (i - off) i"
  have f: "fill_bits off i = (if w < 0 then fill_bits off (i + 7) else w)"
    by (subst fill_bits.simps) (simp add: w_def Let_def)
  show ?case
  proof (cases "0 \<le> i - off")
    case True
    have "i - off < i" if "off > 0" using that by simp
    moreover have "i \<ge> 7" using 1(2,3) by (cases "i < 7") (auto simp: mod_pos_pos_trivial)
    ultimately have "w = i - off" if "off > 0"
      using that True mod_pos_pos_trivial [of "i - off" i]
      by (simp add: w_def c_rem_def sgn_if del: minus_mod_self1)
    moreover have "off = 0 \<Longrightarrow> w = 0" using 1(2) by (simp add: w_def c_rem_def)
    moreover have "off > 0 \<Longrightarrow> i - off = (- off) mod 7"
    proof -
      have "(i - off) mod 7 = (- off) mod 7" using 1(3) by (metis diff_0 mod_diff_left_eq)
      moreover have "(i - off) mod 7 = i - off" using True 1(4) by (intro mod_pos_pos_trivial) auto
      ultimately show "i - off = (- off) mod 7" by simp
    qed
    ultimately show ?thesis using f 1(5) True by (cases "off = 0") auto
  next
    case False
    then have w: "w = - ((off - i) mod i)" using 1(2) by (simp add: w_def c_rem_def sgn_if)
    show ?thesis
    proof (cases "w < 0")
      case True
      have "(i + 7) mod 7 = 0" using 1(3) by simp
      with True False f 1 show ?thesis by (simp add: w_def)
    next
      case nn: False
      then have "(off - i) mod i = 0" using w 1(2) by (metis neg_0_le_iff_le not_less order_antisym pos_mod_sign)
      then have "i dvd off" by (simp add: dvd_diff_right_iff flip: dvd_eq_mod_eq_0)
      moreover have "7 dvd i" using 1(3) by (simp add: dvd_eq_mod_eq_0)
      ultimately have "7 dvd off" by (rule dvd_trans [rotated])
      with \<open>(off - i) mod i = 0\<close> f w nn show ?thesis by (simp add: dvd_eq_mod_eq_0 [symmetric])
    qed
  qed
qed

lemma fill_bits_eq: "0 \<le> off \<Longrightarrow> fill_bits off 7 = (- off) mod 7"
proof (cases "off = 0")
  case True
  then show ?thesis by (simp add: fill_bits.simps [of 0 7] c_rem_def)
qed (simp add: fill_bits_from)

lemma length_septets_of: "length (septets_of bs) = length bs div 7"
  by (induction bs rule: septets_of.induct) (simp_all add: div_add_self1 [symmetric] del: div_add_self1)

lemma seven_eighths: "u * 7 \<le> 8 * ((u * 7 + 7) div 8)" for u :: int
  using div_mult_mod_eq [of "u * 7 + 7" 8] pos_mod_bound [of 8 "u * 7 + 7"] by simp

text \<open>The septets in front of the text, and that the octets behind the header hold all the text.\<close>

lemma text_room:
  fixes off udl :: int
  assumes "0 \<le> off" "0 \<le> udl" "0 \<le> udl - (off * 8 + w) div 7" "w = (- off) mod 7"
  defines "n \<equiv> (udl * 7 + 7) div 8 - off"
  shows "0 \<le> n" "7 * (udl - (off * 8 + w) div 7) \<le> 8 * n - w"
proof -
  define k where "k = - ((- off) div 7)"
  have w: "w = 7 * k - off" "0 \<le> w"
    using minus_mult_div_eq_mod [of "- off" 7] assms(4) by (simp_all add: k_def)
  then have "off * 8 + w = (off + k) * 7" by simp
  then have d: "(off * 8 + w) div 7 = off + k" by (simp only: nonzero_mult_div_cancel_right)
  have n: "udl * 7 \<le> 8 * (n + off)" using seven_eighths [of udl] by (simp add: n_def)
  have u: "off + k \<le> udl" using assms(3) unfolding d by simp
  have "8 * n - w \<ge> 7 * (udl - (off + k))" using n w(1) by (simp add: algebra_simps)
  then show "7 * (udl - (off * 8 + w) div 7) \<le> 8 * n - w" unfolding d .
  with u w(2) show "0 \<le> n" unfolding d by simp
qed

subsection \<open>Every access is in range\<close>

text \<open>The arrays of a message, as the library declares them.\<close>

definition sms_arrays :: "GSM_SMSMessage \<Rightarrow> bool" where
  "sms_arrays SMS \<longleftrightarrow> length (SMS_Text SMS) = 2 * (GSM_MAX_SMS_LENGTH + 1)
     \<and> length (UDH_Text (UDH SMS)) = GSM_MAX_UDH_LENGTH"

text \<open>What a failing stage leaves behind, and a number field whose text overflows its buffer.\<close>

definition failed :: "GSM_Error \<times> GSM_SMSMessage \<Rightarrow> bool" where
  "failed f \<longleftrightarrow> fst f \<noteq> ERR_NONE \<and> sms_arrays (snd f)"

definition long_number :: "byte list \<Rightarrow> bool" where
  "long_number buffer \<longleftrightarrow> (\<exists>p. buffer ! p = 199 \<and> buffer ! (p + 1) AND 0x70 = 0x10)"

abbreviation stage_ok :: "byte list \<Rightarrow> ('a \<Rightarrow> bool) \<Rightarrow> 'a decoding \<Rightarrow> bool" where
  "stage_ok buffer \<equiv> safe (long_number buffer) failed"

lemma length_ucs2z [simp]: "length (ucs2z us) = 2 * length us + 2"
  by (simp add: ucs2z_def)

lemma put_text_ok:
  assumes "sms_arrays SMS" "length bs \<le> 2 * (GSM_MAX_SMS_LENGTH + 1)" "P (SMS\<lparr>SMS_Text := overlay bs (SMS_Text SMS)\<rparr>)"
  shows "safe W E P (put_text bs SMS)"
  using assms by (simp add: put_text_def sms_arrays_def)

lemma length_DecodeDefault: "length (DecodeDefault bs ext extra) \<le> length bs"
  by (induction bs ext extra rule: DecodeDefault.induct) (auto split: option.splits)

lemma length_decode_nokia: "length (decode_nokia us) \<le> 2 * length us"
  by (induction us) auto

text \<open>What the text stages change: the text and its length.\<close>

definition text_stored :: "int \<Rightarrow> GSM_SMSMessage \<Rightarrow> GSM_SMSMessage \<Rightarrow> bool" where
  "text_stored m SMS SMS' \<longleftrightarrow>
     sms_arrays SMS' \<and> SMS' = SMS\<lparr>SMS_Length := SMS_Length SMS', SMS_Text := SMS_Text SMS'\<rparr>
     \<and> 0 \<le> SMS_Length SMS' \<and> SMS_Length SMS' \<le> m"

lemma text_storedI:
  assumes "sms_arrays SMS" "length bs \<le> 2 * (GSM_MAX_SMS_LENGTH + 1)" "0 \<le> n" "n \<le> m"
  shows "safe W E (text_stored m SMS) (put_text bs (SMS\<lparr>SMS_Length := n\<rparr>))"
  using assms by (intro put_text_ok) (auto simp: sms_arrays_def text_stored_def)

lemma text_7bit_ok:
  assumes "sms_arrays SMS" "0 \<le> off" "0 \<le> udl" "udl \<le> m" "m \<le> 320" "m \<le> int room"
    "int start + ((udl * 7 + 7) div 8 - off) \<le> int (length buffer)"
  shows "safe W E (text_stored m SMS) (text_7bit room buffer start udl off SMS)"
proof -
  define w len n where "w = fill_bits off 7" and "len = udl - (off * 8 + w) div 7"
    and "n = nat ((udl * 7 + 7) div 8 - off)"
  have w: "w = (- off) mod 7" "0 \<le> w" "w < 7" using fill_bits_eq assms(2) by (simp_all add: w_def)
  show ?thesis
  proof (cases "len < 0")
    case True
    then show ?thesis using assms(1,3,4)
      by (auto simp: text_7bit_def Let_def w_def len_def text_stored_def sms_arrays_def)
  next
    case False
    note r = text_room [OF assms(2,3) _ w(1)]
    have r: "0 \<le> (udl * 7 + 7) div 8 - off" "7 * len \<le> 8 * int n - w"
      using r False by (simp_all add: len_def n_def)
    have s: "start + n \<le> length buffer" using assms(7) r(1) by (simp add: n_def)
    have l: "length (GSM_UnpackEightBitsToSeven (nat w) n (nat len) payload) = nat len" if "length payload = n" for payload
    proof -
      have "nat len * 7 \<le> 8 * n - nat w" using r(2) w False by linarith
      then have "nat len \<le> (8 * n - nat w) div 7" using div_le_mono [of "nat len * 7" _ 7] by simp
      then show ?thesis using that w by (simp add: unpack_first length_septets_of)
    qed
    have "0 \<le> (off * 8 + w) div 7" using assms(2) w by (simp add: pos_imp_zdiv_nonneg_iff)
    then have m: "len \<le> m" using assms(4) by (simp add: len_def sms_limits)
    show ?thesis
      unfolding text_7bit_def Let_def w_def [symmetric] len_def [symmetric] n_def [symmetric]
      using False m s l order_trans [OF length_DecodeDefault] assms(5,6)
      by (auto intro!: safe_rds text_storedI simp: sms_limits assms(1))
  qed
qed

lemma text_8bit_ok:
  assumes "sms_arrays SMS" "0 \<le> udl - off" "udl - off \<le> m" "m \<le> 320"
    "int start + (udl - off) \<le> int (length buffer)"
  shows "safe W E (text_stored m SMS) (text_8bit buffer start udl off SMS)"
  unfolding text_8bit_def Let_def using assms by (intro safe_rds text_storedI) (auto simp: sms_limits)

lemma text_unicode_ok:
  assumes "sms_arrays SMS" "0 \<le> udl - off" "udl - off \<le> m" "m \<le> 320"
    "int start + (udl - off) \<le> int (length buffer)"
  shows "safe W E (text_stored m SMS) (text_unicode buffer start udl off SMS)"
proof -
  define h where "h = (udl - off) div 2"
  have q: "c_quot (udl - off) 2 = h" using assms(2) by (cases "udl - off = 0") (auto simp: c_quot_def h_def)
  have h: "0 \<le> h" "2 * h \<le> udl - off" using assms(2) by (simp_all add: h_def)
  have l: "length (DecodeUnicodeSpecialNOKIAChars us (nat h)) \<le> 320" for us
  proof -
    have "length (decode_nokia (take (nat h) us)) \<le> 2 * nat h"
      by (rule order_trans [OF length_decode_nokia]) simp
    moreover have "2 * nat h \<le> 320" using h assms(3,4) by (simp add: sms_limits)
    ultimately show ?thesis by (simp add: DecodeUnicodeSpecialNOKIAChars_def)
  qed
  show ?thesis
    unfolding text_unicode_def Let_def q
    using h assms order_trans [OF l, of 650] by (intro safe_rds text_storedI) (auto simp: sms_limits)
qed

lemma length_EncodeUnicodeChecked: "length (snd (EncodeUnicodeChecked loc src)) \<le> 2 * length src"
proof (induction loc src rule: EncodeUnicodeChecked.induct)
  case (1 loc src)
  obtain n wc v where e: "EncodeWithUnicodeAlphabetChecked loc src = (n, wc, v)" by (metis prod_cases3)
  then have "0 < n" by (rule EncodeWithUnicodeAlphabetChecked_pos)
  moreover have "length (StoreUTF16 wc) \<le> 2" by (simp add: StoreUTF16_def Let_def)
  moreover have "src \<noteq> [] \<Longrightarrow> length (snd (EncodeUnicodeChecked loc (drop n src))) \<le> 2 * (length src - n)"
    using 1 e by simp
  ultimately show ?case using e EncodeUnicodeChecked.simps [of loc src]
    by (cases src) (auto simp: Let_def)
qed

lemma length_EncodeUnicode: "length (EncodeUnicode loc src) \<le> 2 * length src"
  unfolding EncodeUnicode_def by (rule length_EncodeUnicodeChecked)

subsubsection \<open>The stages\<close>

text \<open>What the stages keep: the arrays, and a header that is absent or valid.\<close>

definition udh_ok :: "GSM_UDHHeader \<Rightarrow> bool" where
  "udh_ok u \<longleftrightarrow> UDH_Length u = 0 \<or> GSM_IsValidUDH u"

definition sms_ok :: "GSM_SMSMessage \<Rightarrow> bool" where
  "sms_ok SMS \<longleftrightarrow> sms_arrays SMS \<and> udh_ok (UDH SMS)"

lemma failed_ok: "sms_ok SMS \<Longrightarrow> e \<noteq> ERR_NONE \<Longrightarrow> failed (e, SMS)"
  by (simp add: failed_def sms_ok_def)

lemma number_stage_ok:
  assumes "\<And>num. sms_arrays (store num)" "sms_arrays SMS" "len \<le> length buffer"
  shows "stage_ok buffer (\<lambda>(SMS', pos'). (\<exists>num. SMS' = store num) \<and> pos' \<le> len)
    (number_stage store SMS (GSM_UnpackSemiOctetNumber loc buffer pos len semioctet))"
proof (cases "GSM_UnpackSemiOctetNumber loc buffer pos len semioctet")
  case OobRead
  then show ?thesis using unpack_number_reads [OF assms(3), of pos loc semioctet] by simp
next
  case OobWrite
  then show ?thesis using unpack_number_write [OF OobWrite assms(3)] by (auto simp: long_number_def)
next
  case (Fail err)
  then have "err = ERR_CORRUPTED" using unpack_number_reads [OF assms(3), of pos loc semioctet]
    by (auto simp: GSM_UnpackSemiOctetNumber_def rd_def rds_def Let_def split: if_splits)
  with Fail assms show ?thesis by (simp add: failed_def)
next
  case (Go r)
  then show ?thesis using unpack_number_reads [OF assms(3), of pos loc semioctet] assms(1)
    by (cases r) (auto simp: failed_def)
qed

lemma default_arrays: "sms_arrays SMS \<Longrightarrow> sms_ok (GSM_SetDefaultReceivedSMSData SMS)"
  by (simp add: GSM_SetDefaultReceivedSMSData_def sms_ok_def sms_arrays_def udh_ok_def)

lemma pdu_smsc_ok:
  assumes "sms_ok SMS" "len \<le> length buffer"
  shows "stage_ok buffer (\<lambda>(SMS', pos). sms_ok SMS' \<and> pos \<le> len) (pdu_smsc loc buffer len with_smsc SMS)"
  using number_stage_ok [of "store_smsc SMS" SMS len buffer loc 0 False] assms
  by (auto simp: pdu_smsc_def sms_ok_def sms_arrays_def store_smsc_def elim!: safe_mono)

lemma pdu_type_ok:
  assumes "sms_ok SMS" "len \<le> length buffer"
  shows "stage_ok buffer (\<lambda>(SMS', pos', udh, vpf). sms_ok SMS' \<and> pos' \<le> len) (pdu_type buffer len pos SMS)"
  unfolding pdu_type_def Let_def
  using assms by (auto simp: sms_ok_def sms_arrays_def failed_def intro!: safe_rd)

lemma pdu_reference_ok:
  assumes "sms_ok (fst r)" "snd r \<le> len" "len \<le> length buffer"
  shows "stage_ok buffer (\<lambda>(SMS', pos'). sms_ok SMS' \<and> pos' \<le> len) (pdu_reference buffer len r)"
  using assms by (auto simp: pdu_reference_def sms_ok_def sms_arrays_def failed_def intro!: safe_rd split: prod.splits)

lemma pdu_number_ok:
  assumes "sms_ok (fst r)" "len \<le> length buffer"
  shows "stage_ok buffer (\<lambda>(SMS', pos'). sms_ok SMS' \<and> pos' \<le> len) (pdu_number loc buffer len r)"
  using number_stage_ok [of "\<lambda>num. (fst r)\<lparr>SMS_Number := num\<rparr>" "fst r" len buffer loc "snd r" True] assms
  by (auto simp: pdu_number_def sms_ok_def sms_arrays_def elim!: safe_mono split: prod.splits)

lemma store_pid_arrays [simp]: "sms_ok (store_pid b SMS) = sms_ok SMS" "sms_arrays (store_pid b SMS) = sms_arrays SMS"
  by (simp_all add: store_pid_def sms_ok_def sms_arrays_def)

lemma pdu_pid_dcs_ok:
  assumes "sms_ok (fst r)" "snd r \<le> len" "len \<le> length buffer"
  shows "stage_ok buffer (\<lambda>(SMS', pos'). sms_ok SMS' \<and> pos' \<le> len) (pdu_pid_dcs buffer len r)"
  using assms by (auto simp: pdu_pid_dcs_def Let_def sms_ok_def sms_arrays_def store_pid_def failed_def intro!: safe_rd split: prod.splits)

lemma pdu_stamp_ok:
  assumes "sms_ok SMS" "\<And>t. sms_ok (store t)" "len \<le> length buffer"
  shows "stage_ok buffer (\<lambda>(SMS', pos'). sms_ok SMS' \<and> pos' \<le> len) (pdu_stamp store buffer len SMS pos)"
  using assms by (auto simp: pdu_stamp_def failed_ok intro!: safe_rds)

lemma pdu_time_ok:
  assumes "sms_ok (fst r)" "snd r \<le> len" "len \<le> length buffer"
  shows "stage_ok buffer (\<lambda>(SMS', pos'). sms_ok SMS' \<and> pos' \<le> len) (pdu_time buffer len r)"
proof (cases r)
  case (Pair SMS pos)
  with assms pdu_stamp_ok [of SMS "\<lambda>t. SMS\<lparr>DateTime := t\<rparr>" len buffer pos] show ?thesis
    by (auto simp: pdu_time_def sms_ok_def sms_arrays_def)
qed

lemma status_report_ok:
  assumes "sms_arrays SMS"
  shows "safe W E (\<lambda>S. sms_arrays S \<and> UDH S = UDH SMS) (GSM_DecodeSMSStatusReportData loc TP_ST SMS)"
proof -
  have "safe W E (\<lambda>S'. sms_arrays S' \<and> UDH S' = UDH S) (put_text (ucs2z (EncodeUnicode loc t)) (S\<lparr>SMS_Length := n\<rparr>))"
    if "sms_arrays S" "length t < 10" for S t n
    using length_EncodeUnicode [of loc t] that
    by (intro put_text_ok) (simp_all add: sms_arrays_def sms_limits)
  then show ?thesis
    unfolding GSM_DecodeSMSStatusReportData_def Let_def using assms
    by (elim meta_allE [of _ "SMS\<lparr>DeliveryStatus := TP_ST, Coding := SMS_Coding_Unicode_No_Compression\<rparr>"])
       (simp add: sms_arrays_def)
qed

lemma pdu_optional_ok:
  assumes "sms_ok (fst r)" "snd r \<le> len" "len \<le> length buffer"
  shows "stage_ok buffer (\<lambda>(SMS', pos', d). sms_ok SMS' \<and> pos' \<le> len) (pdu_optional buffer len r)"
proof (cases r)
  case (Pair SMS pos)
  have c: "sms_ok (S\<lparr>Coding := c\<rparr>) = sms_ok S" for S c by (simp add: sms_ok_def sms_arrays_def)
  let ?ok = "\<lambda>(SMS', pos'). sms_ok SMS' \<and> pos' \<le> len"
  show ?thesis
    using assms unfolding Pair pdu_optional_def
    by (auto simp: failed_ok c intro!: safe_rd safe_andthen [where Q = ?ok])
qed

lemma pdu_report_ok:
  assumes "sms_ok (fst r)" "snd r \<le> len" "len \<le> length buffer"
  shows "stage_ok buffer (\<lambda>(SMS', pos', d). sms_ok SMS' \<and> pos' \<le> len) (pdu_report loc buffer len r)"
proof (cases r)
  case (Pair SMS pos)
  have t: "sms_ok (SMS\<lparr>SMSCTime := t\<rparr>)" for t using assms(1) Pair by (simp add: sms_ok_def sms_arrays_def)
  have "stage_ok buffer (\<lambda>(SMS', pos', d). sms_ok SMS' \<and> pos' \<le> len)
      (andthen (GSM_DecodeSMSStatusReportData loc status SMS1) (\<lambda>SMS2. pdu_optional buffer len (SMS2, pos1)))"
    if "sms_ok SMS1" "pos1 \<le> len" for SMS1 pos1 status
    using that assms(3) by (intro safe_andthen [OF status_report_ok] pdu_optional_ok) (auto simp: sms_ok_def)
  then show ?thesis
    using assms pdu_stamp_ok [of SMS "\<lambda>t. SMS\<lparr>SMSCTime := t\<rparr>", OF _ t assms(3), of pos] unfolding Pair pdu_report_def
    by (auto simp: failed_ok intro!: safe_rd elim!: safe_andthen)
qed

lemma pdu_validity_ok:
  assumes "sms_ok (fst r)" "snd r \<le> len" "len \<le> length buffer"
  shows "stage_ok buffer (\<lambda>(SMS', pos'). sms_ok SMS' \<and> pos' \<le> len) (pdu_validity buffer len vpf r)"
  using assms by (auto simp: pdu_validity_def sms_ok_def sms_arrays_def failed_def intro!: safe_rd split: prod.splits)

subsubsection \<open>The user data\<close>

lemma decode_header_frame:
  "UDH_Length (udh_decode_loop rows u) = UDH_Length u \<and> UDH_Text (udh_decode_loop rows u) = UDH_Text u"
  by (induction rows u rule: udh_decode_loop.induct) (simp_all add: udh_read_def Let_def)

lemma GSM_DecodeUDHHeader_frame [simp]:
  "UDH_Length (GSM_DecodeUDHHeader u) = UDH_Length u" "UDH_Text (GSM_DecodeUDHHeader u) = UDH_Text u"
  using decode_header_frame by (simp_all add: GSM_DecodeUDHHeader_def)

lemma GSM_IsValidUDH_decode [simp]: "GSM_IsValidUDH (GSM_DecodeUDHHeader u) = GSM_IsValidUDH u"
  by (simp add: GSM_IsValidUDH_def)

lemma header_fits: "1 + uint (b :: byte) \<le> int d \<longleftrightarrow> Suc (unat b) \<le> d"
proof -
  have "1 + uint b = int (Suc (unat b))" by simp
  then show ?thesis by (simp only: of_nat_le_iff)
qed

lemma pdu_udh_ok:
  assumes "sms_ok SMS" "UDH_Length (UDH SMS) = 0" "start + datalength \<le> length buffer"
  shows "stage_ok buffer (\<lambda>SMS'. sms_ok SMS' \<and> 0 \<le> UDH_Length (UDH SMS') \<and> UDH_Length (UDH SMS') \<le> int datalength
       \<and> Coding SMS' = Coding SMS)
    (pdu_udh buffer start datalength udh SMS)"
  using assms unfolding pdu_udh_def Let_def
  by (auto simp: sms_ok_def sms_arrays_def udh_ok_def failed_def sms_limits header_fits intro!: safe_rd safe_rds)

lemma septet_octets_eq: "septet_octets u = (u * 7 + 7) div 8"
proof -
  define q r where "q = u * 7 div 8" and "r = u * 7 mod 8"
  have "u * 7 = q * 8 + r" "r < 8" by (simp_all add: q_def r_def)
  then have "(u * 7 + 7) div 8 = (if r \<noteq> 0 then q + 1 else q)"
    by (intro div_nat_eqI) (simp_all split: if_splits)
  then show ?thesis by (simp add: septet_octets_def q_def r_def)
qed

lemma pdu_data_length_ok:
  assumes "pdu_data_length coding u avail = (udl, datalength, truncated)"
  shows "datalength \<le> avail" "udl \<le> u"
    "datalength = (if coding = SMS_Coding_Default_No_Compression then (udl * 7 + 7) div 8 else udl)"
proof -
  have m: "7 * (avail * 8 div 7) \<le> avail * 8" by simp
  have "(avail * 8 div 7 * 7 + 7) div 8 \<le> avail"
    using div_le_mono [of "avail * 8 div 7 * 7 + 7" "avail * 8 + 7" 8] m by simp
  moreover have "avail * 8 div 7 \<le> u" if "avail < (u * 7 + 7) div 8"
  proof -
    have "8 * ((u * 7 + 7) div 8) \<le> u * 7 + 7" by simp
    with that have "avail * 8 \<le> u * 7" by linarith
    then show ?thesis using div_le_mono [of "avail * 8" "u * 7" 7] by simp
  qed
  ultimately show "datalength \<le> avail" "udl \<le> u"
    "datalength = (if coding = SMS_Coding_Default_No_Compression then (udl * 7 + 7) div 8 else udl)"
    using assms by (auto simp: pdu_data_length_def Let_def septet_octets_eq split: if_splits)
qed

text \<open>The result of a decoded user data field.\<close>

lemma text_stored_ok:
  assumes "sms_ok SMS" "text_stored 160 SMS SMS'"
  shows "sms_ok SMS' \<and> 0 \<le> SMS_Length SMS' \<and> SMS_Length SMS' \<le> 160"
proof -
  from assms(2) obtain n t where "SMS' = SMS\<lparr>SMS_Length := n, SMS_Text := t\<rparr>"
    unfolding text_stored_def by blast
  then have "UDH SMS' = UDH SMS" by simp
  then show ?thesis using assms by (simp add: text_stored_def sms_ok_def sms_limits)
qed

text \<open>The user data of a message whose fields are in order, and how far it may reach.\<close>

definition text_ok :: "GSM_SMSMessage \<Rightarrow> bool" where
  "text_ok SMS \<longleftrightarrow> sms_ok SMS \<and> 0 \<le> SMS_Length SMS \<and> SMS_Length SMS \<le> 160"

lemma pdu_text_ok:
  fixes udl :: int
  assumes "sms_ok SMS" "off = UDH_Length (UDH SMS)" "0 \<le> off" "0 \<le> udl" "udl \<le> 160"
    "Coding SMS \<noteq> SMS_Coding_Default_No_Compression \<Longrightarrow> off \<le> udl \<and> int start + (udl - off) \<le> int (length buffer)"
    "Coding SMS = SMS_Coding_Default_No_Compression \<Longrightarrow> int start + ((udl * 7 + 7) div 8 - off) \<le> int (length buffer)"
  shows "stage_ok buffer text_ok (pdu_text buffer start udl SMS)"
proof -
  have a: "sms_arrays SMS" using assms(1) by (simp add: sms_ok_def)
  have k: "safe W E (text_stored 160 SMS) s \<Longrightarrow> safe W E text_ok s" for W E s
    using text_stored_ok [OF assms(1)] by (auto simp: text_ok_def elim!: safe_mono)
  have q: "off \<le> udl \<Longrightarrow> 0 \<le> c_quot (udl - off) 2" by (simp add: c_quot_def sgn_if)
  have d: "text_ok (SMS\<lparr>SMS_Length := 0\<rparr>)" using assms(1) by (simp add: text_ok_def sms_ok_def sms_arrays_def)
  show ?thesis
    unfolding pdu_text_def Let_def assms(2) [symmetric]
    using assms(3-) q d
    by (auto intro!: k text_7bit_ok text_8bit_ok text_unicode_ok a simp: sms_limits)
qed

lemma pdu_content_ok:
  assumes "sms_ok SMS" "len \<le> length buffer" "pos < len" "udl \<le> 160"
    and d: "datalength \<le> len - pos - 1"
      "datalength = (if Coding SMS = SMS_Coding_Default_No_Compression then (udl * 7 + 7) div 8 else udl)"
  shows "stage_ok buffer (\<lambda>(SMS', pos'). text_ok SMS' \<and> pos' \<le> len)
    (pdu_content buffer pos udh udl datalength truncated SMS)"
proof -
  let ?SMS = "SMS\<lparr>UDH := (UDH SMS)\<lparr>UDH_Length := 0\<rparr>\<rparr>"
  let ?odd = "\<lambda>SMS1. Coding SMS1 = SMS_Coding_Unicode_No_Compression \<and> (int udl - UDH_Length (UDH SMS1)) mod 2 \<noteq> 0"
  let ?u = "\<lambda>SMS1 :: GSM_SMSMessage. if ?odd SMS1 then int udl - 1 else int udl"
  have s: "sms_ok ?SMS" using assms(1) by (simp add: sms_ok_def sms_arrays_def udh_ok_def)
  have h: "stage_ok buffer (\<lambda>SMS'. sms_ok SMS' \<and> 0 \<le> UDH_Length (UDH SMS') \<and> UDH_Length (UDH SMS') \<le> int datalength
       \<and> Coding SMS' = Coding SMS) (pdu_udh buffer (pos + 1) datalength udh ?SMS)"
    using pdu_udh_ok [OF s, of "pos + 1" datalength buffer udh] d(1) assms(2,3) by simp
  have t: "stage_ok buffer text_ok (pdu_text buffer (pos + 1 + nat (UDH_Length (UDH SMS1))) (?u SMS1) SMS1)"
    if S: "sms_ok SMS1" "0 \<le> UDH_Length (UDH SMS1)" "UDH_Length (UDH SMS1) \<le> int datalength" "Coding SMS1 = Coding SMS"
    for SMS1
  proof (rule pdu_text_ok [OF S(1) refl S(2)])
    have "udl = 0 \<Longrightarrow> Coding SMS = SMS_Coding_Unicode_No_Compression \<Longrightarrow> UDH_Length (UDH SMS1) = 0"
      using d(2) S by simp
    then show "0 \<le> ?u SMS1" using S(4) by (cases "udl = 0") auto
    show "?u SMS1 \<le> 160" using assms(4) by simp
    show "UDH_Length (UDH SMS1) \<le> ?u SMS1
        \<and> int (pos + 1 + nat (UDH_Length (UDH SMS1))) + (?u SMS1 - UDH_Length (UDH SMS1)) \<le> int (length buffer)"
      if c: "Coding SMS1 \<noteq> SMS_Coding_Default_No_Compression"
    proof -
      have "udl = datalength" using c S(4) d(2) by simp
      moreover have "(int udl - UDH_Length (UDH SMS1)) mod 2 \<noteq> 0 \<Longrightarrow> UDH_Length (UDH SMS1) \<noteq> int udl" by auto
      ultimately show ?thesis using S(2,3) d(1) assms(2,3) by auto
    qed
    show "int (pos + 1 + nat (UDH_Length (UDH SMS1))) + ((?u SMS1 * 7 + 7) div 8 - UDH_Length (UDH SMS1)) \<le> int (length buffer)"
      if c: "Coding SMS1 = SMS_Coding_Default_No_Compression"
    proof -
      have "int datalength = (?u SMS1 * 7 + 7) div 8" using c S(4) d(2) by (simp add: zdiv_int)
      then show ?thesis using S(2) d(1) assms(2,3) by simp
    qed
  qed
  have p: "pos + datalength + 1 \<le> len" using d(1) assms(3) by simp
  show ?thesis
    unfolding pdu_content_def Let_def
  proof (rule safe_andthen [OF h], rule safe_if, goal_cases)
    case (1 SMS1)
    then show ?case by (simp add: failed_ok)
  next
    case (2 SMS1)
    then have "sms_ok SMS1" "0 \<le> UDH_Length (UDH SMS1)" "UDH_Length (UDH SMS1) \<le> int datalength" "Coding SMS1 = Coding SMS"
      by simp_all
    from t [OF this] show ?case by (rule safe_andthen) (use p in simp)
  qed
qed

lemma pdu_data_ok:
  assumes "sms_ok SMS" "len \<le> length buffer"
  shows "stage_ok buffer (\<lambda>(SMS', pos'). text_ok SMS' \<and> pos' \<le> len) (pdu_data buffer len udh SMS pos)"
proof (cases "pos < len")
  case True
  define b where "b = buffer ! pos"
  obtain udl datalength truncated where
    d: "pdu_data_length (Coding SMS) (unat b) (len - pos - 1) = (udl, datalength, truncated)"
    by (metis prod_cases3)
  have c: "stage_ok buffer (\<lambda>(SMS', pos'). text_ok SMS' \<and> pos' \<le> len)
      (pdu_content buffer pos udh udl datalength truncated SMS)" if "unat b \<le> 160"
    using pdu_data_length_ok [OF d] that True assms by (intro pdu_content_ok) auto
  have e: "failed (ERR_CORRUPTED, SMS)" "failed (ERR_NOTSUPPORTED, SMS)" by (rule failed_ok; use assms in simp)+
  show ?thesis
    unfolding pdu_data_def Let_def using True assms(2) e c d
    by (auto intro!: safe_rd simp: b_def [symmetric] sms_limits)
next
  case False
  then show ?thesis using assms by (simp add: pdu_data_def failed_ok)
qed

lemma pdu_frame_stages:
  assumes "sms_arrays SMS" "len \<le> length buffer"
  shows "stage_ok buffer (\<lambda>(SMS', pos'). sms_ok SMS' \<and> pos' \<le> len) (GSM_DecodePDUFrame loc SMS buffer len with_smsc)"
proof -
  have d: "sms_ok (GSM_SetDefaultReceivedSMSData SMS)"
    using assms(1) by (simp add: sms_ok_def udh_ok_def sms_arrays_def GSM_SetDefaultReceivedSMSData_def)
  have l: "stage_ok buffer (\<lambda>(SMS', pos'). sms_ok SMS' \<and> pos' \<le> len)
      (if PDU SMS5 = SMS_Submit \<or> PDU SMS5 = SMS_Deliver \<or> have_data
       then pdu_data buffer len udh SMS5 pos5 else Go (SMS5, pos5))"
    if "sms_ok SMS5" "pos5 \<le> len" for SMS5 pos5 udh have_data
    using pdu_data_ok [OF that(1) assms(2), of udh pos5] that by (auto simp: text_ok_def elim!: safe_mono)
  show ?thesis
    unfolding GSM_DecodePDUFrame_def Let_def
    by (intro safe_if safe_andthen [OF pdu_smsc_ok] safe_andthen [OF pdu_type_ok]
          safe_andthen [OF safe_andthen [OF safe_andthen [OF safe_andthen [OF pdu_reference_ok pdu_number_ok] pdu_pid_dcs_ok] pdu_time_ok]]
          safe_andthen [OF pdu_report_ok] safe_andthen [OF pdu_validity_ok])
       (use d assms(2) l in \<open>auto intro!: failed_ok
          safe_andthen [OF pdu_smsc_ok] safe_andthen [OF pdu_type_ok]
          safe_andthen [OF safe_andthen [OF safe_andthen [OF safe_andthen [OF pdu_reference_ok pdu_number_ok] pdu_pid_dcs_ok] pdu_time_ok]]
          safe_andthen [OF pdu_report_ok] safe_andthen [OF pdu_validity_ok]\<close>)
qed

subsubsection \<open>Frames\<close>

text \<open>The offsets are octets; a header longer than \<^verbatim>\<open>UDH.Text\<close> is copied all the same.\<close>

definition layout_ok :: "GSM_SMSMessageLayout \<Rightarrow> bool" where
  "layout_ok L \<longleftrightarrow> Layout_Text L < 256 \<and> Layout_Number L < 256 \<and> Layout_SMSCNumber L < 256 \<and> Layout_TPDCS L < 256
     \<and> Layout_DateTime L < 256 \<and> Layout_SMSCTime L < 256 \<and> Layout_TPStatus L < 256 \<and> Layout_TPUDL L < 256
     \<and> Layout_TPVP L < 256 \<and> Layout_firstbyte L < 256 \<and> Layout_TPMR L < 256 \<and> Layout_TPPID L < 256"

definition frame_overflow :: "byte list \<Rightarrow> GSM_SMSMessageLayout \<Rightarrow> bool" where
  "frame_overflow buffer L \<longleftrightarrow> long_number buffer \<or> GSM_MAX_UDH_LENGTH \<le> unat (buffer ! Layout_Text L)"

abbreviation frame_ok :: "byte list \<Rightarrow> GSM_SMSMessageLayout \<Rightarrow> ('a \<Rightarrow> bool) \<Rightarrow> 'a decoding \<Rightarrow> bool" where
  "frame_ok buffer L \<equiv> safe (frame_overflow buffer L) failed"

lemma frame_udh_ok:
  assumes "sms_arrays SMS" "layout_ok L" "1000 \<le> length buffer"
  shows "frame_ok buffer L (\<lambda>(SMS', off). sms_arrays SMS' \<and> off \<le> unat tpudl) (frame_udh buffer L fb tpudl SMS)"
proof -
  have "Suc (Layout_Text L + unat (buffer ! Layout_Text L)) \<le> length buffer"
    using assms(2,3) unat_byte_less [of "buffer ! Layout_Text L"] by (simp add: layout_ok_def del: unat_byte_less)
  then show ?thesis
    using assms unfolding frame_udh_def Let_def
    by (auto simp: failed_def frame_overflow_def sms_arrays_def layout_ok_def intro!: safe_rd safe_rds)
qed

lemma frame_text_ok:
  assumes "sms_arrays SMS" "layout_ok L" "1000 \<le> length buffer"
  shows "frame_ok buffer L sms_arrays (GSM_DecodeSMSFrameText buffer L SMS)"
proof -
  have k: "safe W E (text_stored 255 SMS1) s \<Longrightarrow> safe W E sms_arrays s" for W E s SMS1
    by (auto simp: text_stored_def elim!: safe_mono)
  have a: "sms_arrays (SMS\<lparr>UDH := (UDH SMS)\<lparr>UDH_Length := 0\<rparr>\<rparr>)" using assms(1) by (simp add: sms_arrays_def)
  have z: "sms_arrays SMS1 \<Longrightarrow> sms_arrays (SMS1\<lparr>SMS_Length := 0\<rparr>)" for SMS1 by (simp add: sms_arrays_def)
  have f: "sms_arrays SMS1 \<Longrightarrow> failed (ERR_CORRUPTED, SMS1)" for SMS1 by (simp add: failed_def)
  have o: "off \<le> unat tpudl \<Longrightarrow> int off \<le> uint tpudl" for off and tpudl :: byte
    using of_nat_mono [of off "unat tpudl", where 'a=int] by simp
  have l: "Layout_Text L < 256" "Layout_firstbyte L < 256" "Layout_TPUDL L < 256"
    using assms(2) by (simp_all add: layout_ok_def)
  have c: "(int (unat tpudl) * 7 + 7) div 8 \<le> 255" for tpudl :: byte
  proof -
    have "(int n * 7 + 7) div 8 \<le> 255" if "n < 256" for n using zdiv_mono1 [of "int n * 7 + 7" 2047 8] that by simp
    from this [OF unat_byte_less [of tpudl]] show ?thesis .
  qed
  have t: "frame_ok buffer L sms_arrays
      (if Coding SMS1 = SMS_Coding_Default_No_Compression
       then text_7bit 1024 buffer (Layout_Text L + off) v (int off) SMS1
       else if Coding SMS1 = SMS_Coding_8bit
       then text_8bit buffer (Layout_Text L + off) v (int off) SMS1
       else if Coding SMS1 = SMS_Coding_Unicode_No_Compression
       then text_unicode buffer (Layout_Text L + off) v (int off) SMS1
       else Go (SMS1\<lparr>SMS_Length := 0\<rparr>))"
    if "sms_arrays SMS1" "int off \<le> v" "v \<le> 255" "(v * 7 + 7) div 8 \<le> 255" for SMS1 off v
    using that z l assms(3)
    by (auto intro!: k [OF text_7bit_ok] k [OF text_8bit_ok] k [OF text_unicode_ok])
  show ?thesis
    unfolding GSM_DecodeSMSFrameText_def Let_def
  proof (intro safe_rd safe_andthen [OF frame_udh_ok [OF a assms(2,3)]], goal_cases)
    case (3 r)
    have v: "int (unat tpudl) \<le> 255" for tpudl :: byte
      using of_nat_mono [of "unat tpudl" 255, where 'a=int] unat_byte_less [of tpudl] by simp
    obtain SMS1 off where r: "r = (SMS1, off)" by (cases r)
    show ?case unfolding r prod.case
      by (intro safe_if t f [simplified safe.simps] iffD2 [OF safe.simps(3)])
         (use 3 o c v in \<open>auto simp: r f simp del: of_nat_unat\<close>)
  qed (use l assms(3) in simp_all)
qed

lemma number_frame_ok:
  assumes "\<And>num. sms_arrays (store num)" "sms_arrays SMS" "1000 \<le> length buffer"
  shows "frame_ok buffer L sms_arrays (frame_number store loc buffer pos semioctet SMS)"
proof -
  have "frame_ok buffer L (\<lambda>(SMS', pos'). (\<exists>num. SMS' = store num) \<and> pos' \<le> 1000)
      (number_stage store SMS (GSM_UnpackSemiOctetNumber loc buffer pos 1000 semioctet))"
    by (rule number_stage_ok [OF assms, THEN safe_mono]) (auto simp: frame_overflow_def)
  then show ?thesis
    unfolding frame_number_def using assms(1,2) by (auto intro!: safe_andthen)
qed

lemma ignore_error_ok: "safe W failed sms_arrays s \<Longrightarrow> safe W E sms_arrays (ignore_error s)"
  by (cases s rule: ignore_error.cases) (auto simp: failed_def)

lemma frame_times_ok:
  assumes "sms_arrays SMS" "layout_ok L" "1000 \<le> length buffer"
  shows "frame_ok buffer L sms_arrays (frame_times loc buffer L SMS)"
proof -
  have t: "sms_arrays (S\<lparr>DateTime := d\<rparr>) = sms_arrays S" "sms_arrays (S\<lparr>SMSCTime := d\<rparr>) = sms_arrays S" for S d
    by (simp_all add: sms_arrays_def)
  show ?thesis
    unfolding frame_times_def
    using assms
    by (intro safe_andthen [where Q = sms_arrays])
       (auto simp: t layout_ok_def intro!: safe_rds safe_rd status_report_ok [THEN safe_mono])
qed

lemma frame_body_ok:
  assumes "sms_arrays SMS" "layout_ok L" "1000 \<le> length buffer"
  shows "frame_ok buffer L sms_arrays (frame_text buffer L SMS)"
proof -
  have c: "sms_arrays (S\<lparr>Coding := c\<rparr>) = sms_arrays S" for S c by (simp add: sms_arrays_def)
  show ?thesis
    unfolding frame_text_def using assms
    by (intro safe_andthen [where Q = sms_arrays])
       (auto simp: c layout_ok_def intro!: safe_rd ignore_error_ok frame_text_ok)
qed

lemma optional_cell_ok:
  assumes "\<And>v. safe W E P (k v)" "pos < length buffer"
  shows "safe W E P (optional_cell buffer pos d f k)"
  using assms by (auto simp: optional_cell_def intro!: safe_rd)

lemma sms_frame_stages:
  assumes "sms_arrays SMS" "layout_ok L" "1000 \<le> length buffer"
  shows "frame_ok buffer L sms_arrays (GSM_DecodeSMSFrame loc SMS buffer L)"
proof -
  have u: "sms_arrays (S\<lparr>ReplyViaSameSMSC := True\<rparr>) = sms_arrays S" "sms_arrays (S\<lparr>SMS_Number := num\<rparr>) = sms_arrays S"
    "sms_arrays (store_smsc S num) = sms_arrays S"
    "sms_arrays (S\<lparr>Class := c, MessageReference := ref, ReplaceMessage := rep, RejectDuplicates := rej\<rparr>) = sms_arrays S"
    for S num c ref rep rej
    by (simp_all add: sms_arrays_def store_smsc_def)
  have l: "Layout_TPDCS L < length buffer" "Layout_TPMR L < length buffer" "Layout_TPPID L < length buffer"
    "Layout_firstbyte L < length buffer"
    using assms(2,3) by (auto simp: layout_ok_def)
  show ?thesis
    unfolding GSM_DecodeSMSFrame_def Let_def
    by (intro safe_andthen [OF number_frame_ok] safe_rd safe_andthen [OF frame_body_ok]
          safe_andthen [OF frame_times_ok] optional_cell_ok)
       (use assms l default_arrays in \<open>auto simp: u sms_ok_def\<close>)
qed

subsection \<open>Properties\<close>

text \<open>
  Claim C1. For any octets at all, decoding the first \<open>len\<close> of them as a PDU reads no other cell;
  what it stores fits the arrays of the message unless a number has the 199 semi-octets of the
  number decoder's own overflow. On success the reported end lies within the octets and the
  header is absent or well-formed; on failure the arrays are still whole.
\<close>

theorem pdu_decode_safe:
  assumes "sms_arrays SMS" "len \<le> length buffer"
  shows "let r = GSM_DecodePDUFrame loc SMS buffer len with_smsc in r \<noteq> OobRead \<and> (r = OobWrite \<longrightarrow> long_number buffer)
    \<and> (\<forall>SMS' pos. r = Go (SMS', pos) \<longrightarrow> pos \<le> len \<and> sms_arrays SMS'
          \<and> (UDH_Length (UDH SMS') = 0 \<or> GSM_IsValidUDH (UDH SMS')))
    \<and> (\<forall>e SMS'. r = Fail (e, SMS') \<longrightarrow> e \<noteq> ERR_NONE \<and> sms_arrays SMS')"
  using pdu_frame_stages [OF assms(1,2), of loc with_smsc] unfolding Let_def
  by (auto simp: sms_ok_def udh_ok_def failed_def)

definition blank_sms :: GSM_SMSMessage where
  "blank_sms =
     \<lparr>ReplaceMessage = 0, RejectDuplicates = False,
      UDH = udh_row UDH_NoUDH (replicate GSM_MAX_UDH_LENGTH 0) 0 0 0 0,
      SMS_Number = [], OtherNumbers = [], OtherNumbersNum = 0,
      SMSC = \<lparr>SMSC_Location = 0, SMSC_Name = [], SMSC_Number = [],
              Validity = \<lparr>Validity_Format = SMS_Validity_NotAvailable, Relative = 0\<rparr>,
              Format = SMS_FORMAT_Text, DefaultNumber = []\<rparr>,
      Memory = 0, Location = 0, Folder = 0, InboxFolder = False, SMS_Length = 0, State = SMS_UnSent,
      SMS_Name = [], SMS_Text = replicate (2 * (GSM_MAX_SMS_LENGTH + 1)) 0, PDU = SMS_Submit,
      Coding = SMS_Coding_8bit, DateTime = zerodt, SMSCTime = zerodt, DeliveryStatus = 0,
      ReplyViaSameSMSC = False, Class = 0, MessageReference = 0\<rparr>"

lemma blank_arrays: "sms_arrays blank_sms"
  by (simp add: sms_arrays_def blank_sms_def udh_row_def)

theorem pdu_decode_safe_witness:
  "GSM_DecodePDUFrame posix_locale blank_sms [0, 0x44, 2, 0x81, 0x21, 0, 4] 7 True \<noteq> OobRead"
  using pdu_decode_safe [OF blank_arrays, of 7 "[0, 0x44, 2, 0x81, 0x21, 0, 4]" posix_locale True] unfolding Let_def by simp

text \<open>
  Claim C28. A frame read through a layout stays within the 1000 cells the number decoder is told
  of; it overflows an array only for that number or for a header of 140 octets or more, which
  nothing checks before the copy (lemma \<open>frame_udh_overflow\<close>).
\<close>

theorem sms_frame_safe:
  assumes "sms_arrays SMS" "layout_ok L" "1000 \<le> length buffer"
  shows "let r = GSM_DecodeSMSFrame loc SMS buffer L in r \<noteq> OobRead \<and> (r = OobWrite \<longrightarrow> long_number buffer \<or> 140 \<le> unat (buffer ! Layout_Text L))
    \<and> (\<forall>SMS'. r = Go SMS' \<longrightarrow> sms_arrays SMS')"
  using sms_frame_stages [OF assms(1-3), of loc] unfolding Let_def
  by (auto simp: frame_overflow_def sms_limits)

definition text_layout :: GSM_SMSMessageLayout where
  "text_layout = \<lparr>Layout_Text = 2, Layout_Number = 255, Layout_SMSCNumber = 255, Layout_TPDCS = 255,
     Layout_DateTime = 255, Layout_SMSCTime = 255, Layout_TPStatus = 255, Layout_TPUDL = 1,
     Layout_TPVP = 255, Layout_firstbyte = 0, Layout_TPMR = 255, Layout_TPPID = 255\<rparr>"

theorem sms_frame_safe_witness:
  "GSM_DecodeSMSFrame posix_locale blank_sms (replicate 1000 0) text_layout \<noteq> OobRead"
  using sms_frame_safe [OF blank_arrays, of text_layout "replicate 1000 0" posix_locale]
  unfolding Let_def by (simp add: text_layout_def layout_ok_def)

lemma frame_udh_overflow:
  "GSM_DecodeSMSFrameText ([0x40, 0xFF, 0xFE] @ replicate 997 0) text_layout blank_sms = OobWrite"
  by (simp add: GSM_DecodeSMSFrameText_def frame_udh_def text_layout_def rd_def rds_def blank_sms_def udh_row_def
      sms_limits)

end
