(* ===== verification/SmsEncode.thy ===== *)
theory SmsEncode imports SmsDecode begin

text \<open>
  Encoding of SMS frames: \<^verbatim>\<open>GSM_EncodeSMSFrameText\<close>, \<^verbatim>\<open>GSM_SMSLayoutFieldCapacity\<close>,
  \<^verbatim>\<open>GSM_EncodeSMSNumberField\<close> and \<^verbatim>\<open>GSM_EncodeSMSFrame\<close> of \<^verbatim>\<open>libgammu/service/sms/gsmsms.c\<close>. The
  buffer is the caller's array; every store is checked against its size. An error ends the
  encoder with the code alone, as no caller uses the half-written buffer.
\<close>

type_synonym 'a encoding = "(GSM_Error, 'a) stage"

subsection \<open>Stores\<close>

definition overwrite :: "nat \<Rightarrow> 'a list \<Rightarrow> 'a list \<Rightarrow> 'a list" where
  "overwrite pos bs buffer = take pos buffer @ bs @ drop (pos + length bs) buffer"

definition poke :: "nat \<Rightarrow> byte list \<Rightarrow> byte list \<Rightarrow> byte list encoding" where
  "poke pos bs buffer = (if pos + length bs \<le> length buffer then Go (overwrite pos bs buffer) else OobWrite)"

definition or_cell :: "nat \<Rightarrow> byte \<Rightarrow> byte list \<Rightarrow> byte list encoding" where
  "or_cell pos v buffer = (if pos < length buffer then Go (buffer[pos := buffer ! pos OR v]) else OobWrite)"

lemma length_overwrite [simp]: "pos + length bs \<le> length buffer \<Longrightarrow> length (overwrite pos bs buffer) = length buffer"
  by (simp add: overwrite_def)

subsection \<open>The user data\<close>

text \<open>The length of the header, 0 for none.\<close>

definition encode_header :: "GSM_SMSMessage \<Rightarrow> nat encoding" where
  "encode_header SMS =
     (let u = UDH SMS in
      if UDH_Type u = UDH_NoUDH then Go 0
      else
        let off = (if UDH_Length u = 0 then 1 + int (unat (UDH_Text u ! 0)) else UDH_Length u) in
        if off < 1 \<or> off > int GSM_MAX_UDH_LENGTH \<or> off > int GSM_MAX_8BIT_SMS_LENGTH
           \<or> int (unat (UDH_Text u ! 0)) + 1 \<noteq> off then Fail ERR_INVALIDDATA
        else if \<not> GSM_IsValidUDH (u\<lparr>UDH_Length := off\<rparr>) then Fail ERR_INVALIDDATA
        else Go (nat off))"

text \<open>
  The bits for TP-DCS, the octets of the text, the cells written behind them (one the packer may
  write, or the two of the terminator of a Unicode text), and the value of TP-UDL. A text without a
  terminator in its array is read beyond the end of it by \<^verbatim>\<open>UnicodeLength\<close>.
\<close>

definition encode_7bit :: "nat \<Rightarrow> uchar list \<Rightarrow> (byte \<times> byte list \<times> byte list \<times> nat) encoding" where
  "encode_7bit off units =
     (let w = (7 - off mod 7) mod 7; header_septets = (off * 8 + w) div 7 in
      if header_septets > GSM_MAX_SMS_CHARS_LENGTH then Fail ERR_INVALIDDATA
      else if 0 \<notin> set units then OobRead
      else
        let (p, septets) = FindDefaultAlphabetLen units (GSM_MAX_SMS_CHARS_LENGTH - header_septets) in
        if p \<noteq> UnicodeLength units then Fail ERR_INVALIDDATA
        else
          let buff = EncodeDefault units p True None; n = length buff in
          if n + 1 > GSM_MAX_SMS_CHARS_LENGTH + 1 then OobWrite
          else if n \<noteq> septets \<or> n > GSM_MAX_SMS_CHARS_LENGTH then Fail ERR_INVALIDDATA
          else Go (0, GSM_PackSevenBitsToEight w buff n,
                   if 0 < n \<and> n mod 8 = w mod 8 then [0] else [], header_septets + n))"

definition encode_8bit :: "nat \<Rightarrow> byte list \<Rightarrow> int \<Rightarrow> (byte \<times> byte list \<times> byte list \<times> nat) encoding" where
  "encode_8bit off data len =
     (if len < 0 \<or> len > int GSM_MAX_8BIT_SMS_LENGTH - int off then Fail ERR_INVALIDDATA
      else rds data 0 (nat len) (\<lambda>octets. Go (4, octets, [], nat len + off)))"

definition encode_unicode :: "nat \<Rightarrow> uchar list \<Rightarrow> (byte \<times> byte list \<times> byte list \<times> nat) encoding" where
  "encode_unicode off units =
     (let encoded = EncodeUnicodeSpecialNOKIAChars units (UnicodeLength units) in
      if 0 \<notin> set units then OobRead
      else if length encoded > (GSM_MAX_8BIT_SMS_LENGTH - off) div 2 then Fail ERR_INVALIDDATA
      else Go (8, bytes_of_units encoded, [0, 0], length encoded * 2 + off))"

definition encode_text :: "nat \<Rightarrow> GSM_SMSMessage \<Rightarrow> (byte \<times> byte list \<times> byte list \<times> nat) encoding" where
  "encode_text off SMS =
     (case Coding SMS of
        SMS_Coding_8bit \<Rightarrow> encode_8bit off (SMS_Text SMS) (SMS_Length SMS)
      | SMS_Coding_Default_No_Compression \<Rightarrow> encode_7bit off (units_of_bytes (SMS_Text SMS))
      | SMS_Coding_Unicode_No_Compression \<Rightarrow> encode_unicode off (units_of_bytes (SMS_Text SMS))
      | _ \<Rightarrow> Fail ERR_INVALIDDATA)"

definition GSM_EncodeSMSFrameText ::
  "GSM_SMSMessage \<Rightarrow> byte list \<Rightarrow> GSM_SMSMessageLayout \<Rightarrow> (byte list \<times> nat) encoding" where
  "GSM_EncodeSMSFrameText SMS buffer0 L =
     andthen (encode_header SMS) (\<lambda>off.
     andthen (if UDH_Type (UDH SMS) \<noteq> UDH_NoUDH
              then andthen (or_cell (Layout_firstbyte L) 0x40 buffer0)
                     (poke (Layout_Text L) (take off (UDH_Text (UDH SMS))))
              else Go buffer0) (\<lambda>buffer1.
     andthen (encode_text off SMS) (\<lambda>(dcs, octets, spill, size2).
     andthen (if dcs \<noteq> 0 then or_cell (Layout_TPDCS L) dcs buffer1 else Go buffer1) (\<lambda>buffer2.
     andthen (poke (Layout_Text L + off) (octets @ spill) buffer2) (\<lambda>buffer3.
       let size = length octets + off in
       if Coding SMS = SMS_Coding_Default_No_Compression \<and> size > GSM_MAX_8BIT_SMS_LENGTH
       then Fail ERR_INVALIDDATA
       else andthen (poke (Layout_TPUDL L) [word_of_nat size2] buffer3) (\<lambda>buffer4. Go (buffer4, size)))))))"

subsection \<open>Numbers\<close>

text \<open>The cells from \<open>start\<close> to the next part of the layout, 0 when it is the last one.\<close>

definition layout_offsets :: "GSM_SMSMessageLayout \<Rightarrow> nat list" where
  "layout_offsets L =
     [Layout_Text L, Layout_Number L, Layout_SMSCNumber L, Layout_TPDCS L, Layout_DateTime L, Layout_SMSCTime L,
      Layout_TPStatus L, Layout_TPUDL L, Layout_TPVP L, Layout_firstbyte L, Layout_TPMR L, Layout_TPPID L]"

definition GSM_SMSLayoutFieldCapacity :: "GSM_SMSMessageLayout \<Rightarrow> nat \<Rightarrow> nat" where
  "GSM_SMSLayoutFieldCapacity L start =
     (let end' = foldl (\<lambda>e x. if x \<noteq> 255 \<and> x > start \<and> x < e then x else e) 255 (layout_offsets L)
      in if end' = 255 then 0 else end' - start)"

text \<open>\<^verbatim>\<open>packed\<close> has \<open>GSM_MAX_NUMBER_LENGTH + 2\<close> cells, zero at first.\<close>

definition GSM_EncodeSMSNumberField ::
  "c_locale \<Rightarrow> GSM_SMSMessageLayout \<Rightarrow> nat \<Rightarrow> uchar list \<Rightarrow> bool \<Rightarrow> byte list \<Rightarrow> byte list encoding" where
  "GSM_EncodeSMSNumberField loc L field number semioctet buffer =
     (case GSM_PackSemiOctetNumber loc number semioctet of
        None \<Rightarrow> OobWrite
      | Some (packed_length, octets) \<Rightarrow>
        if length octets > GSM_MAX_NUMBER_LENGTH + 2 then OobWrite
        else if packed_length > 255 then Fail ERR_INVALIDDATA
        else
          let packed = octets @ replicate (GSM_MAX_NUMBER_LENGTH + 2 - length octets) 0;
              field_length = (if semioctet then 2 + (packed_length + 1) div 2 else 1 + packed_length);
              capacity = GSM_SMSLayoutFieldCapacity L field in
          if capacity \<noteq> 0 \<and> field_length > capacity then Fail ERR_INVALIDDATA
          else rds packed 0 (field_length - 1) (\<lambda>bs. poke field (word_of_nat packed_length # bs) buffer))"

subsection \<open>The frame\<close>

definition encode_type :: "GSM_SMSMessage \<Rightarrow> byte" where
  "encode_type SMS =
     (case PDU SMS of SMS_Submit \<Rightarrow> 0x01 | SMS_Status_Report \<Rightarrow> 0x21 | SMS_Deliver \<Rightarrow> 0x00)
       OR (if ReplyViaSameSMSC SMS then 0x80 else 0)"

definition when_part :: "nat \<Rightarrow> (byte list \<Rightarrow> byte list encoding) \<Rightarrow> byte list \<Rightarrow> byte list encoding" where
  "when_part pos f buffer = (if pos \<noteq> 255 then f buffer else Go buffer)"

definition encode_class :: "GSM_SMSMessage \<Rightarrow> byte" where
  "encode_class SMS =
     (if Class SMS \<ge> 0 \<and> Class SMS \<le> 3
      then word_of_int (Class SMS) OR (if Coding SMS = SMS_Coding_Unicode_No_Compression then 0x10 else 0xf0)
      else 0)"

text \<open>\<^verbatim>\<open>*length\<close> comes back as the size of the data plus the offset of the text.\<close>

definition GSM_EncodeSMSFrame ::
  "c_locale \<Rightarrow> GSM_SMSMessage \<Rightarrow> byte list \<Rightarrow> GSM_SMSMessageLayout \<Rightarrow> bool \<Rightarrow> (byte list \<times> nat) encoding" where
  "GSM_EncodeSMSFrame loc SMS buffer L clear =
     andthen (if clear then poke 0 (replicate (Layout_Text L) 0) buffer else Go buffer) (\<lambda>b0.
     andthen (or_cell (Layout_firstbyte L) (encode_type SMS) b0) (\<lambda>b1.
     andthen (when_part (Layout_Number L)
                (GSM_EncodeSMSNumberField loc L (Layout_Number L) (SMS_Number SMS) True) b1) (\<lambda>b2.
     andthen (when_part (Layout_SMSCNumber L)
                (GSM_EncodeSMSNumberField loc L (Layout_SMSCNumber L) (SMSC_Number (SMSC SMS)) False) b2) (\<lambda>b3.
     andthen (when_part (Layout_TPDCS L) (or_cell (Layout_TPDCS L) (encode_class SMS)) b3) (\<lambda>b4.
     andthen (when_part (Layout_TPVP L) (\<lambda>b. andthen (or_cell (Layout_firstbyte L) 0x10 b)
                (poke (Layout_TPVP L) [Relative (Validity (SMSC SMS))])) b4) (\<lambda>b5.
     andthen (when_part (Layout_DateTime L) (poke (Layout_DateTime L) (GSM_EncodeSMSDateTime (DateTime SMS))) b5) (\<lambda>b6.
     andthen (when_part (Layout_TPMR L) (poke (Layout_TPMR L) [MessageReference SMS]) b6) (\<lambda>b7.
     andthen (if RejectDuplicates SMS then or_cell (Layout_firstbyte L) 0x04 b7 else Go b7) (\<lambda>b8.
     andthen (when_part (Layout_TPPID L) (poke (Layout_TPPID L)
                [if ReplaceMessage SMS > 0 \<and> ReplaceMessage SMS < 8 then 0x40 + ReplaceMessage SMS else 0]) b8) (\<lambda>b9.
     andthen (GSM_EncodeSMSFrameText SMS b9 L) (\<lambda>(b10, size).
     Go (b10, size + Layout_Text L))))))))))))"

subsection \<open>What the text encoders produce\<close>

lemma encode_header_ok:
  "safe W E P (encode_header SMS) \<longleftrightarrow>
     (case encode_header SMS of Go off \<Rightarrow> P off | Fail e \<Rightarrow> E e | _ \<Rightarrow> False)"
  by (auto simp: encode_header_def Let_def)

lemma encode_header_length: "encode_header SMS = Go off \<Longrightarrow> off \<le> 140"
  by (auto simp: encode_header_def Let_def sms_limits nat_le_iff split: if_splits)

lemma fill_octets: "(7 - off mod 7) mod 7 = nat ((- int off) mod 7)"
proof -
  have "(- int off) mod 7 = (7 - int off mod 7) mod 7"
    by (metis minus_mod_self1 mod_diff_right_eq diff_0 mod_self mod_diff_left_eq)
  also have "\<dots> = int ((7 - off mod 7) mod 7)"
    by (simp add: of_nat_mod of_nat_diff zmod_int less_imp_le)
  finally show ?thesis by simp
qed

text \<open>The text of a message, and the septets it encodes to.\<close>

definition sms_units :: "GSM_SMSMessage \<Rightarrow> uchar list" where
  "sms_units SMS = cstr (units_of_bytes (SMS_Text SMS))"

definition text_septets :: "uchar list \<Rightarrow> byte list" where
  "text_septets units = EncodeDefault units (length (cstr units)) True None"

lemma UnicodeLength_cstr: "UnicodeLength s = length (cstr s)"
  by (induction s) (auto simp: cstr_Cons)

lemma text_septets_small: "\<forall>c \<in> set (text_septets units). c < 128"
  using encode_default_septets by (auto simp: text_septets_def EncodeDefault_def)

definition header_fill :: "nat \<Rightarrow> nat" where
  "header_fill off = (7 - off mod 7) mod 7"

definition header_septets :: "nat \<Rightarrow> nat" where
  "header_septets off = (off * 8 + header_fill off) div 7"

lemma header_septets_exact: "7 * header_septets off = off * 8 + header_fill off"
proof -
  define k r where "k = off div 7" and "r = off mod 7"
  have o: "off = 7 * k + r" "r < 7" by (simp_all add: k_def r_def)
  have "header_fill off = (if r = 0 then 0 else 7 - r)" using o(2) by (simp add: header_fill_def r_def [symmetric])
  then have "off * 8 + header_fill off = 7 * (if r = 0 then 8 * k else 8 * k + r + 1)" using o by simp
  then show ?thesis unfolding header_septets_def by simp
qed

lemma header_fill_small [simp]: "header_fill off < 7"
  by (simp add: header_fill_def)

lemma header_fill_le: "header_fill off \<le> 6"
  using header_fill_small [of off] by linarith

lemma encode_7bit_cases:
  assumes "0 \<in> set units"
  shows "encode_7bit off units = Fail ERR_INVALIDDATA
   \<or> (let s = text_septets units in
        header_septets off + length s \<le> 160
        \<and> encode_7bit off units = Go (0, GSM_PackSevenBitsToEight (header_fill off) s (length s),
            if 0 < length s \<and> length s mod 8 = header_fill off mod 8 then [0] else [],
            header_septets off + length s))"
proof (cases "header_septets off > 160")
  case False
  obtain k where f: "FindDefaultAlphabetLen units (160 - header_septets off) = (k, length (EncodeDefault units k True None))"
    "length (EncodeDefault units k True None) \<le> 160 - header_septets off"
    using find_default_len_spec [of 0 "160 - header_septets off" units 0 None] by (auto simp: FindDefaultAlphabetLen_def)
  show ?thesis
    using False f assms
    by (auto simp: encode_7bit_def Let_def sms_limits text_septets_def UnicodeLength_cstr
        header_fill_def [symmetric] header_septets_def [symmetric])
qed (simp add: encode_7bit_def header_fill_def [symmetric] header_septets_def [symmetric] sms_limits Let_def)

lemma packed_size:
  assumes "header_septets off + n \<le> 160" "\<forall>c \<in> set s. c < 128" "length s = n"
  shows "length (GSM_PackSevenBitsToEight (header_fill off) s n) + off \<le> 140"
    "((header_septets off + n) * 7 + 7) div 8 = length (GSM_PackSevenBitsToEight (header_fill off) s n) + off"
proof -
  have l: "length (GSM_PackSevenBitsToEight (header_fill off) s n) = (header_fill off + 7 * n + 7) div 8"
    using length_pack [of "header_fill off" s] assms(2,3) less_imp_le [OF header_fill_small [of off]] by simp
  have e: "(header_septets off + n) * 7 + 7 = off * 8 + (header_fill off + 7 * n + 7)"
    using header_septets_exact [of off] by simp
  show b: "((header_septets off + n) * 7 + 7) div 8 = length (GSM_PackSevenBitsToEight (header_fill off) s n) + off"
    unfolding e l by simp
  have "((header_septets off + n) * 7 + 7) div 8 \<le> 1127 div 8" using assms(1) by (intro div_le_mono) simp
  then show "length (GSM_PackSevenBitsToEight (header_fill off) s n) + off \<le> 140" unfolding b by simp
qed

lemma length_units_encoded: "length (bytes_of_units us) = 2 * length us"
  by simp

definition text_fits :: "nat \<Rightarrow> byte \<times> byte list \<times> byte list \<times> nat \<Rightarrow> bool" where
  "text_fits off = (\<lambda>(dcs, octets, spill, size2). length octets + off \<le> 140 \<and> length spill \<le> 2 \<and> size2 \<le> 160)"

definition text_ended :: "GSM_SMSMessage \<Rightarrow> bool" where
  "text_ended SMS \<longleftrightarrow>
     Coding SMS = SMS_Coding_Default_No_Compression \<or> Coding SMS = SMS_Coding_Unicode_No_Compression \<longrightarrow>
     0 \<in> set (units_of_bytes (SMS_Text SMS))"

lemma encoded_text_ended: "encode_text off SMS = Go r \<Longrightarrow> text_ended SMS"
  by (auto simp: encode_text_def encode_7bit_def encode_unicode_def text_ended_def Let_def split: GSM_Coding_Type.splits if_splits)

lemma text_not_ended: "\<not> text_ended SMS \<Longrightarrow> encode_text off SMS \<in> {OobRead, Fail ERR_INVALIDDATA}"
  by (auto simp: encode_text_def encode_7bit_def encode_unicode_def text_ended_def Let_def)

lemma encode_text_fits:
  assumes "sms_arrays SMS" "off \<le> 140" "text_ended SMS"
  shows "safe False (\<lambda>e. e = ERR_INVALIDDATA) (text_fits off) (encode_text off SMS)"
proof -
  have a: "safe False (\<lambda>e. e = ERR_INVALIDDATA) (text_fits off) (encode_7bit off units)" if "0 \<in> set units" for units
    using encode_7bit_cases [OF that, of off] packed_size [OF _ text_septets_small refl, of off units]
    by (auto simp: Let_def text_fits_def)
  have b: "safe False (\<lambda>e. e = ERR_INVALIDDATA) (text_fits off) (encode_8bit off (SMS_Text SMS) n)" for n
    using assms unfolding encode_8bit_def
    by (auto simp: text_fits_def sms_limits sms_arrays_def nat_le_iff intro!: safe_rds)
  have c: "safe False (\<lambda>e. e = ERR_INVALIDDATA) (text_fits off) (encode_unicode off units)" if "0 \<in> set units" for units
  proof -
    have "l \<le> (140 - off) div 2 \<Longrightarrow> l * 2 + off \<le> 140" for l using assms(2) by linarith
    note l = this order_trans [OF this, of _ 160] this [unfolded mult.commute [of _ 2]]
    show ?thesis using l that by (auto simp: encode_unicode_def Let_def text_fits_def sms_limits not_less)
  qed
  show ?thesis using assms(3) unfolding encode_text_def text_ended_def by (cases "Coding SMS") (simp_all add: a b c)
qed

subsection \<open>Where the encoder writes\<close>

text \<open>The cells the text encoder may change, and that a buffer differs from \<open>buffer\<close> there only.\<close>

definition text_cells :: "GSM_SMSMessageLayout \<Rightarrow> nat set" where
  "text_cells L = {Layout_firstbyte L, Layout_TPDCS L, Layout_TPUDL L} \<union> {Layout_Text L..Layout_Text L + 141}"

definition agrees :: "nat set \<Rightarrow> byte list \<Rightarrow> byte list \<Rightarrow> bool" where
  "agrees X b0 b \<longleftrightarrow> length b = length b0 \<and> (\<forall>i < length b0. i \<notin> X \<longrightarrow> b ! i = b0 ! i)"

lemma agrees_refl [simp]: "agrees X b b"
  by (simp add: agrees_def)

lemma agrees_trans: "agrees X a b \<Longrightarrow> agrees X b c \<Longrightarrow> agrees X a c"
  by (simp add: agrees_def)

lemma nth_overwrite:
  "pos + length bs \<le> length b \<Longrightarrow> i < length b \<Longrightarrow>
   overwrite pos bs b ! i = (if i < pos then b ! i else if i < pos + length bs then bs ! (i - pos) else b ! i)"
  by (auto simp: overwrite_def nth_append min_def not_less add.commute)

lemma poke_agrees:
  assumes "{pos..<pos + length bs} \<subseteq> X" "pos + length bs \<le> length b"
  shows "safe False E (\<lambda>b'. agrees X b b' \<and> b' = overwrite pos bs b) (poke pos bs b)"
proof -
  have "b' ! i = b ! i" if "b' = overwrite pos bs b" "i < length b" "i \<notin> X" for b' i
  proof -
    have "i \<notin> {pos..<pos + length bs}" using that(3) assms(1) by blast
    then show ?thesis using that assms(2) by (auto simp: nth_overwrite)
  qed
  then show ?thesis using assms(2) by (simp add: poke_def agrees_def)
qed

lemma or_cell_agrees:
  assumes "pos \<in> X" "pos < length b"
  shows "safe False E (\<lambda>b'. agrees X b b' \<and> b' = b[pos := b ! pos OR v]) (or_cell pos v b)"
  using assms by (auto simp: or_cell_def agrees_def nth_list_update)

text \<open>The buffer the text encoder ends with.\<close>

definition encoded_frame ::
  "GSM_SMSMessage \<Rightarrow> byte list \<Rightarrow> GSM_SMSMessageLayout \<Rightarrow> nat \<Rightarrow> byte \<Rightarrow> byte list \<Rightarrow> nat \<Rightarrow> byte list" where
  "encoded_frame SMS b0 L off dcs octets size2 =
     (let b1 = (if UDH_Type (UDH SMS) \<noteq> UDH_NoUDH
                then overwrite (Layout_Text L) (take off (UDH_Text (UDH SMS)))
                       (b0[Layout_firstbyte L := b0 ! Layout_firstbyte L OR 0x40])
                else b0);
          b2 = (if dcs \<noteq> 0 then b1[Layout_TPDCS L := b1 ! Layout_TPDCS L OR dcs] else b1)
      in overwrite (Layout_TPUDL L) [word_of_nat size2] (overwrite (Layout_Text L + off) octets b2))"

lemma encode_frame_text_ok:
  assumes "layout_ok L" "400 \<le> length b0" "sms_arrays SMS" "text_ended SMS"
  shows "safe False (\<lambda>e. e = ERR_INVALIDDATA)
    (\<lambda>(b, size). agrees (text_cells L) b0 b \<and> size \<le> 140
       \<and> (\<exists>off dcs octets spill size2. encode_header SMS = Go off
            \<and> encode_text off SMS = Go (dcs, octets, spill, size2) \<and> size2 \<le> 160
            \<and> size = length octets + off
            \<and> b = encoded_frame SMS b0 L off dcs (octets @ spill) size2))
    (GSM_EncodeSMSFrameText SMS b0 L)"
proof -
  have l: "Layout_firstbyte L < 256" "Layout_TPDCS L < 256" "Layout_TPUDL L < 256" "Layout_Text L < 256"
    using assms(1) by (simp_all add: layout_ok_def)
  have x: "Layout_firstbyte L \<in> text_cells L" "Layout_TPDCS L \<in> text_cells L" "Layout_TPUDL L \<in> text_cells L"
    by (simp_all add: text_cells_def)
  have h: "safe False (\<lambda>e. e = ERR_INVALIDDATA) (\<lambda>off. off \<le> 140 \<and> encode_header SMS = Go off) (encode_header SMS)"
    using encode_header_length [of SMS]
    by (cases "encode_header SMS") (auto simp: encode_header_def Let_def split: if_splits)
  let ?b1 = "\<lambda>off. if UDH_Type (UDH SMS) \<noteq> UDH_NoUDH
                then overwrite (Layout_Text L) (take off (UDH_Text (UDH SMS)))
                       (b0[Layout_firstbyte L := b0 ! Layout_firstbyte L OR 0x40]) else b0"
  have f: "safe False (\<lambda>e. e = ERR_INVALIDDATA) (\<lambda>b. agrees (text_cells L) b0 b \<and> b = ?b1 off)
      (if UDH_Type (UDH SMS) \<noteq> UDH_NoUDH
       then andthen (or_cell (Layout_firstbyte L) 0x40 b0) (poke (Layout_Text L) (take off (UDH_Text (UDH SMS))))
       else Go b0)" if "off \<le> 140" for off
  proof -
    have "safe False (\<lambda>e. e = ERR_INVALIDDATA) (\<lambda>b'. agrees (text_cells L) b0 b' \<and> b' = overwrite (Layout_Text L) (take off (UDH_Text (UDH SMS))) b)
        (poke (Layout_Text L) (take off (UDH_Text (UDH SMS))) b)" if "agrees (text_cells L) b0 b" for b
      by (rule poke_agrees [THEN safe_mono])
         (use that l assms(2) \<open>off \<le> 140\<close> agrees_trans in \<open>auto simp: text_cells_def agrees_def\<close>)
    then show ?thesis
      using or_cell_agrees [OF x(1), of b0 "\<lambda>e. e = ERR_INVALIDDATA" "0x40"] l assms(2)
      by (auto intro!: safe_andthen [where s = "or_cell (Layout_firstbyte L) 0x40 b0"])
  qed
  have d: "safe False (\<lambda>e. e = ERR_INVALIDDATA)
      (\<lambda>b. agrees (text_cells L) b0 b \<and> b = (if dcs \<noteq> 0 then b1[Layout_TPDCS L := b1 ! Layout_TPDCS L OR dcs] else b1))
      (if dcs \<noteq> 0 then or_cell (Layout_TPDCS L) dcs b1 else Go b1)" if "agrees (text_cells L) b0 b1" for dcs b1
  proof (cases "dcs = 0")
    case False
    have "Layout_TPDCS L < length b1" using that l assms(2) by (simp add: agrees_def)
    from or_cell_agrees [OF x(2) this] have "safe False (\<lambda>e. e = ERR_INVALIDDATA)
        (\<lambda>b. agrees (text_cells L) b0 b \<and> b = b1[Layout_TPDCS L := b1 ! Layout_TPDCS L OR dcs]) (or_cell (Layout_TPDCS L) dcs b1)"
      by (rule safe_mono) (use agrees_trans [OF that] in auto)
    then show ?thesis using False by simp
  qed (use that in simp)
  have w: "safe False (\<lambda>e. e = ERR_INVALIDDATA) (\<lambda>b'. agrees (text_cells L) b0 b' \<and> b' = overwrite pos bs b)
      (poke pos bs b)" if "agrees (text_cells L) b0 b" "{pos..<pos + length bs} \<subseteq> text_cells L" "pos + length bs \<le> 400" for pos bs b
    by (rule poke_agrees [OF that(2), THEN safe_mono])
       (use that(1,3) assms(2) agrees_trans [OF that(1)] in \<open>auto simp: agrees_def\<close>)
  show ?thesis
    unfolding GSM_EncodeSMSFrameText_def Let_def
  proof (rule safe_andthen [OF h], rule safe_andthen [OF f], goal_cases)
    case (2 off b1)
    then have o: "off \<le> 140" "encode_header SMS = Go off" by simp_all
    note b1 = \<open>agrees (text_cells L) b0 b1 \<and> b1 = ?b1 off\<close>
    show ?case
    proof (rule safe_andthen [where Q = "\<lambda>r. text_fits off r \<and> encode_text off SMS = Go r"], goal_cases)
      case 1
      show ?case using encode_text_fits [OF assms(3) o(1) assms(4)] by (cases "encode_text off SMS") auto
    next
      case (2 r)
      obtain dcs octets spill size2 where r: "r = (dcs, octets, spill, size2)" by (metis prod_cases4)
      with 2 have t: "length octets + off \<le> 140" "length spill \<le> 2" "size2 \<le> 160"
        "encode_text off SMS = Go (dcs, octets, spill, size2)" by (simp_all add: text_fits_def)
      show ?case
        unfolding r prod.case
      proof (rule safe_andthen [OF d], goal_cases)
        case (2 b2)
        note b2 = 2
        show ?case
        proof (rule safe_andthen [OF w], goal_cases)
          case (4 b3)
          show ?case
          proof (rule safe_if, goal_cases)
            case 1
            then show ?case using t(1) by (simp add: sms_limits)
          next
            case 2
            have b4: "overwrite (Layout_TPUDL L) [word_of_nat size2] b3
                = encoded_frame SMS b0 L off dcs (octets @ spill) size2"
              using 4 b2 b1 by (simp only: encoded_frame_def Let_def)
            show ?case
              by (rule safe_andthen [OF w])
                 (use 4 t o l b4 in \<open>auto simp: text_cells_def simp del: UnE\<close>)
          qed
        qed (use 2 t l in \<open>auto simp: text_cells_def\<close>)
      qed (rule conjunct1 [OF b1])
    qed
  qed simp
qed

subsection \<open>Decoding what was encoded\<close>

definition cells :: "nat \<Rightarrow> nat \<Rightarrow> byte list \<Rightarrow> byte list" where
  "cells pos n b = take n (drop pos b)"

lemma cells_overwrite: "pos + length bs \<le> length b \<Longrightarrow> n \<le> length bs \<Longrightarrow> cells pos n (overwrite pos bs b) = take n bs"
  by (simp add: cells_def overwrite_def min_def)

lemma cells_elsewhere:
  assumes "pos + length bs \<le> length b" "p + n \<le> length b" "p + n \<le> pos \<or> pos + length bs \<le> p"
  shows "cells p n (overwrite pos bs b) = cells p n b"
  using assms by (intro nth_equalityI) (auto simp: cells_def nth_overwrite)

lemma cells_update: "p + n \<le> i \<or> i < p \<Longrightarrow> cells p n (b[i := v]) = cells p n b"
  by (intro nth_equalityI) (auto simp: cells_def nth_list_update)

lemma rds_cells: "pos + n \<le> length b \<Longrightarrow> rds b pos n k = k (cells pos n b)"
  by (simp add: rds_def cells_def)

text \<open>The text and the length the decoder should find.\<close>

definition expected_text :: "GSM_SMSMessage \<Rightarrow> byte list" where
  "expected_text SMS =
     (if Coding SMS = SMS_Coding_8bit then take (nat (SMS_Length SMS)) (SMS_Text SMS) else ucs2z (sms_units SMS))"

definition expected_length :: "GSM_SMSMessage \<Rightarrow> int" where
  "expected_length SMS =
     (if Coding SMS = SMS_Coding_8bit then SMS_Length SMS
      else if Coding SMS = SMS_Coding_Default_No_Compression then int (length (text_septets (sms_units SMS)))
      else int (length (encode_nokia False (sms_units SMS))))"

definition encodable :: "GSM_SMSMessage \<Rightarrow> bool" where
  "encodable SMS \<longleftrightarrow>
     (Coding SMS = SMS_Coding_Default_No_Compression \<longrightarrow> (\<forall>u \<in> set (sms_units SMS). gsm_unit u))
     \<and> (Coding SMS = SMS_Coding_Unicode_No_Compression \<longrightarrow> 1 \<notin> set (sms_units SMS))"

lemma cstr_idem [simp]: "cstr (cstr s) = cstr s"
  by (rule cstr_id) simp

lemma take_length_cstr: "take (length (cstr s)) s = cstr s"
  by (induction s) (auto simp: cstr_Cons)

lemma text_septets_units: "text_septets (cstr units) = text_septets units"
  by (simp add: text_septets_def EncodeDefault_def take_length_cstr)

lemma decode_text_septets: "\<forall>u \<in> set s. gsm_unit u \<Longrightarrow> 0 \<notin> set s \<Longrightarrow> DecodeDefault (text_septets s) True None = s"
  using gsm7.dec_concat [of s] by (simp add: text_septets_def EncodeDefault_def cstr_id)

lemma unpack_packed:
  assumes "offset \<le> 6" "\<forall>s \<in> set input. s < 128" "n = length (GSM_PackSevenBitsToEight offset input (length input))"
  shows "GSM_UnpackEightBitsToSeven offset n (length input) (GSM_PackSevenBitsToEight offset input (length input)) = input"
proof -
  obtain pad where "octet_stream (GSM_PackSevenBitsToEight offset input (length input))
      = replicate offset False @ septet_stream input @ replicate pad False"
    using pack_start [OF _ assms(2), of offset] assms(1) by auto
  then show ?thesis using unpack_first [OF assms(1)] assms(2,3) by (simp add: septets_of_septet_stream)
qed

lemma decode_7bit:
  assumes "s = text_septets units" "header_septets off + length s \<le> 160"
    "octets = GSM_PackSevenBitsToEight (header_fill off) s (length s)"
    "cells start (length octets) b = octets" "start + length octets \<le> length b"
  shows "text_7bit 1024 b start (int (header_septets off + length s)) (int off) SMS
    = put_text (ucs2z (DecodeDefault s True None)) (SMS\<lparr>SMS_Length := int (length s)\<rparr>)"
proof -
  have w: "fill_bits (int off) 7 = int (header_fill off)"
    using fill_bits_eq [of "int off"] by (simp add: header_fill_def fill_octets)
  have h: "(int off * 8 + int (header_fill off)) div 7 = int (header_septets off)"
    using arg_cong [OF header_septets_exact [of off], of "\<lambda>n. int n div 7"] by simp
  have small: "\<forall>c \<in> set s. c < 128" using text_septets_small assms(1) by blast
  note p = packed_size [OF assms(2) small refl]
  have n: "(int (header_septets off + length s) * 7 + 7) div 8 - int off = int (length octets)"
    using arg_cong [OF p(2), of int] assms(3) by (simp add: zdiv_int)
  have u: "GSM_UnpackEightBitsToSeven (header_fill off) (length octets) (length s) octets = s"
    unfolding assms(3) using header_fill_le small by (intro unpack_packed) simp_all
  have l: "length s \<le> 160" using assms(2) by simp
  show ?thesis
    unfolding text_7bit_def Let_def w h n using u l assms(4,5) by (simp add: rds_cells)
qed

lemma encode_text_7bit:
  assumes "Coding SMS = SMS_Coding_Default_No_Compression" "encode_text off SMS = Go (dcs, octets, spill, size2)"
  defines "s \<equiv> text_septets (units_of_bytes (SMS_Text SMS))"
  shows "header_septets off + length s \<le> 160" "octets = GSM_PackSevenBitsToEight (header_fill off) s (length s)"
    "size2 = header_septets off + length s"
  using encode_7bit_cases [of "units_of_bytes (SMS_Text SMS)" off] encoded_text_ended [OF assms(2)] assms(1,2)
  by (auto simp: encode_text_def text_ended_def s_def Let_def)

lemma decode_encoded_text:
  assumes e: "encode_text off SMS = Go (dcs, octets, spill, size2)" "encodable SMS"
    and c: "cells start (length octets) b = octets" "start + length octets \<le> length b" "off \<le> 140"
  shows "(if Coding SMS = SMS_Coding_Default_No_Compression then text_7bit 1024 b start (int size2) (int off) S
      else if Coding SMS = SMS_Coding_8bit then text_8bit b start (int size2) (int off) S
      else if Coding SMS = SMS_Coding_Unicode_No_Compression then text_unicode b start (int size2) (int off) S
      else Go (S\<lparr>SMS_Length := 0\<rparr>))
    = put_text (expected_text SMS) (S\<lparr>SMS_Length := expected_length SMS\<rparr>)"
proof (cases "Coding SMS")
  case SMS_Coding_Default_No_Compression
  note t = encode_text_7bit [OF this e(1)]
  have "DecodeDefault (text_septets (units_of_bytes (SMS_Text SMS))) True None = sms_units SMS"
    using decode_text_septets [of "sms_units SMS"] e(2) SMS_Coding_Default_No_Compression
    by (simp add: encodable_def sms_units_def text_septets_units)
  with decode_7bit [OF refl t(1,2) c(1,2), of S] show ?thesis
    using SMS_Coding_Default_No_Compression
    by (simp add: t(3) expected_text_def expected_length_def sms_units_def text_septets_units)
next
  case SMS_Coding_8bit
  then have o: "0 \<le> SMS_Length SMS" "octets = take (nat (SMS_Length SMS)) (SMS_Text SMS)"
    "length octets = nat (SMS_Length SMS)" "size2 = nat (SMS_Length SMS) + off"
    using e(1) by (auto simp: encode_text_def encode_8bit_def rds_def split: if_splits)
  with SMS_Coding_8bit c show ?thesis
    by (simp add: text_8bit_def Let_def rds_cells expected_text_def expected_length_def)
next
  case SMS_Coding_Unicode_No_Compression
  define enc where "enc = encode_nokia False (sms_units SMS)"
  have "EncodeUnicodeSpecialNOKIAChars (units_of_bytes (SMS_Text SMS)) (UnicodeLength (units_of_bytes (SMS_Text SMS))) = enc"
    by (simp add: EncodeUnicodeSpecialNOKIAChars_def UnicodeLength_cstr take_length_cstr enc_def sms_units_def)
  with SMS_Coding_Unicode_No_Compression e(1) have o: "octets = bytes_of_units enc" "size2 = length enc * 2 + off"
    by (auto simp: encode_text_def encode_unicode_def Let_def split: if_splits)
  have d: "decode_nokia enc = sms_units SMS"
    using decode_encode_nokia [of "sms_units SMS" False] e(2) SMS_Coding_Unicode_No_Compression
    by (simp add: enc_def encodable_def)
  have q: "c_quot (int (length enc * 2)) 2 = int (length enc)" by (cases "length enc = 0") (simp_all add: c_quot_def)
  show ?thesis
    using SMS_Coding_Unicode_No_Compression c o d q
    by (simp add: text_unicode_def Let_def rds_cells expected_text_def expected_length_def enc_def [symmetric]
        DecodeUnicodeSpecialNOKIAChars_def)
qed (use e in \<open>simp_all add: encode_text_def\<close>)

text \<open>A layout whose control cells lie in front of the text, each in a cell of its own.\<close>

definition text_last :: "GSM_SMSMessageLayout \<Rightarrow> bool" where
  "text_last L \<longleftrightarrow> Layout_firstbyte L < Layout_Text L \<and> Layout_TPDCS L < Layout_Text L \<and> Layout_TPUDL L < Layout_Text L
     \<and> Layout_Text L \<le> 96 \<and> distinct [Layout_firstbyte L, Layout_TPDCS L, Layout_TPUDL L]"

lemma encoded_frame_cells:
  assumes "text_last L" "400 \<le> length b0" "off \<le> 140" "length octets + off \<le> 142" "length (UDH_Text (UDH SMS)) = 140"
    and b_def: "b = encoded_frame SMS b0 L off dcs octets size2"
  shows "length b = length b0" "b ! Layout_TPUDL L = word_of_nat size2"
    "b ! Layout_firstbyte L = (if UDH_Type (UDH SMS) \<noteq> UDH_NoUDH then b0 ! Layout_firstbyte L OR 0x40 else b0 ! Layout_firstbyte L)"
    "cells (Layout_Text L + off) (length octets) b = octets"
    "UDH_Type (UDH SMS) \<noteq> UDH_NoUDH \<Longrightarrow> cells (Layout_Text L) off b = take off (UDH_Text (UDH SMS))"
proof -
  have l: "Layout_firstbyte L < Layout_Text L" "Layout_TPDCS L < Layout_Text L" "Layout_TPUDL L < Layout_Text L" "Layout_Text L \<le> 96"
    "Layout_firstbyte L \<noteq> Layout_TPDCS L" "Layout_firstbyte L \<noteq> Layout_TPUDL L" "Layout_TPDCS L \<noteq> Layout_TPUDL L"
    using assms(1) by (auto simp: text_last_def)
  show "length b = length b0" "b ! Layout_TPUDL L = word_of_nat size2"
    "b ! Layout_firstbyte L = (if UDH_Type (UDH SMS) \<noteq> UDH_NoUDH then b0 ! Layout_firstbyte L OR 0x40 else b0 ! Layout_firstbyte L)"
    using l assms(2-5) by (auto simp: b_def encoded_frame_def Let_def nth_overwrite nth_list_update)
  show "cells (Layout_Text L + off) (length octets) b = octets"
    using l assms(2-5) by (auto simp: b_def encoded_frame_def Let_def cells_elsewhere cells_overwrite)
  show "UDH_Type (UDH SMS) \<noteq> UDH_NoUDH \<Longrightarrow> cells (Layout_Text L) off b = take off (UDH_Text (UDH SMS))"
    using l assms(2-5) by (auto simp: b_def encoded_frame_def Let_def cells_elsewhere cells_overwrite cells_update)
qed

subsection \<open>Properties\<close>

lemma text_septets_length: "length (cstr units) \<le> length (text_septets units)"
proof -
  have "length us \<le> length (concat (map (encode_default_char True None) us))" for us
  proof (induction us)
    case (Cons u us)
    have "1 \<le> length (encode_default_char True None u)" by (simp add: length_encode_default)
    with Cons show ?case by simp
  qed simp
  from this [of "take (length (cstr units)) units"]
  show ?thesis by (simp add: text_septets_def EncodeDefault_def take_length_cstr)
qed

lemma expected_text_fits:
  assumes "encode_text off SMS = Go (dcs, octets, spill, size2)"
  shows "length (expected_text SMS) \<le> 1302"
proof -
  let ?u = "units_of_bytes (SMS_Text SMS)"
  have "length (sms_units SMS) \<le> 160" if "Coding SMS = SMS_Coding_Default_No_Compression"
    using encode_text_7bit(1) [OF that assms] text_septets_length [of ?u] by (simp add: sms_units_def)
  moreover have "length (sms_units SMS) \<le> 160" if "Coding SMS = SMS_Coding_Unicode_No_Compression"
  proof -
    have "length (encode_nokia False (sms_units SMS)) \<le> (140 - off) div 2"
      using assms that by (auto simp: encode_text_def encode_unicode_def Let_def sms_limits sms_units_def
          EncodeUnicodeSpecialNOKIAChars_def UnicodeLength_cstr take_length_cstr split: if_splits)
    then show ?thesis using length_encode_nokia_ge [of "sms_units SMS" False] by simp
  qed
  moreover have "length (expected_text SMS) \<le> 140" if "Coding SMS = SMS_Coding_8bit"
    using assms that by (auto simp: encode_text_def encode_8bit_def sms_limits expected_text_def min_def split: if_splits)
  ultimately show ?thesis
    using assms by (cases "Coding SMS") (auto simp: expected_text_def encode_text_def)
qed

lemma encode_text_size:
  assumes "encode_text off SMS = Go (dcs, octets, spill, size2)"
  shows "off \<le> size2"
proof (cases "Coding SMS")
  case SMS_Coding_Default_No_Compression
  have "off \<le> header_septets off" using header_septets_exact [of off] by simp
  then show ?thesis using encode_text_7bit(3) [OF SMS_Coding_Default_No_Compression assms] by simp
qed (use assms in \<open>auto simp: encode_text_def encode_8bit_def encode_unicode_def rds_def Let_def split: if_splits\<close>)

text \<open>The header comes back as far as it was encoded.\<close>

lemma frame_udh_roundtrip:
  assumes e: "encode_header SMS = Go off" and "sms_arrays SMS2" "off \<le> unat tpudl" "Layout_Text L + off \<le> length b"
    and f: "fb AND 64 \<noteq> 0 \<longleftrightarrow> UDH_Type (UDH SMS) \<noteq> UDH_NoUDH" "UDH_Length (UDH SMS2) = 0"
      "UDH_Type (UDH SMS) \<noteq> UDH_NoUDH \<Longrightarrow> cells (Layout_Text L) off b = take off (UDH_Text (UDH SMS))"
      "length (UDH_Text (UDH SMS)) = 140"
  shows "\<exists>u. frame_udh b L fb tpudl SMS2 = Go (SMS2\<lparr>UDH := u\<rparr>, off) \<and> UDH_Length u = int off
    \<and> take off (UDH_Text u) = take off (UDH_Text (UDH SMS)) \<and> length (UDH_Text u) = 140"
proof (cases "UDH_Type (UDH SMS) = UDH_NoUDH")
  case True
  then have "off = 0" using e by (simp add: encode_header_def Let_def)
  with True f assms(2) show ?thesis
    by (intro exI [of _ "UDH SMS2"]) (simp add: frame_udh_def sms_arrays_def sms_limits)
next
  case False
  have i: "1 + uint x = int n \<longleftrightarrow> n = Suc (unat x)" "uint x + 1 = int n \<longleftrightarrow> n = Suc (unat x)" for x :: byte and n
  proof -
    have "1 + uint x = int (Suc (unat x))" by simp
    then show "1 + uint x = int n \<longleftrightarrow> n = Suc (unat x)" "uint x + 1 = int n \<longleftrightarrow> n = Suc (unat x)"
      by (auto simp only: of_nat_eq_iff add.commute [of "uint x"])
  qed
  have o: "off = unat (UDH_Text (UDH SMS) ! 0) + 1" "off \<le> 140"
    using False e encode_header_length [OF e] by (auto simp: encode_header_def Let_def nat_eq_iff i split: if_splits)
  have "b ! Layout_Text L = cells (Layout_Text L) off b ! 0" using o assms(4) by (simp add: cells_def)
  also have "\<dots> = UDH_Text (UDH SMS) ! 0" using f(3) [OF False] o f(4) by simp
  finally have "unat (b ! Layout_Text L) + 1 = off" using o by simp
  with False f o assms(2,3,4) show ?thesis
    by (auto simp: frame_udh_def rd_def Let_def rds_cells sms_arrays_def sms_limits)
qed

lemma encoded_frame_ended: "GSM_EncodeSMSFrameText SMS b0 L = Go r \<Longrightarrow> text_ended SMS"
proof -
  assume "GSM_EncodeSMSFrameText SMS b0 L = Go r"
  then obtain off x where "encode_text off SMS = Go x"
    unfolding GSM_EncodeSMSFrameText_def andthen_Go by blast
  then show ?thesis by (rule encoded_text_ended)
qed

text \<open>
  Claim C14. The text encoder keeps to its cells: whatever the message, if its text ends within its array (a text
  that does not is read beyond it), with a buffer of 400 cells it reads and writes in range, changes only the three control
  cells and the 142 cells from the text offset, the last two of them for the terminator of a Unicode text of
  140 octets, and on success reports at most 140 octets and a TP-UDL of at most 160; its only error is invalid data.
\<close>

theorem encode_frame_text_bounds:
  assumes "layout_ok L" "400 \<le> length b0" "sms_arrays SMS" "text_ended SMS"
  shows "(\<exists>b n size2. GSM_EncodeSMSFrameText SMS b0 L = Go (b, n) \<and> length b = length b0
        \<and> n \<le> 140 \<and> size2 \<le> 160 \<and> b ! Layout_TPUDL L = word_of_nat size2
        \<and> (\<forall>i < length b. i \<notin> text_cells L \<longrightarrow> b ! i = b0 ! i))
    \<or> GSM_EncodeSMSFrameText SMS b0 L = Fail ERR_INVALIDDATA"
proof (cases "GSM_EncodeSMSFrameText SMS b0 L")
  case (Go r)
  with encode_frame_text_ok [OF assms] obtain b n off dcs octets spill size2 where
    r: "r = (b, n)" "agrees (text_cells L) b0 b" "n \<le> 140" "size2 \<le> 160"
      "b = encoded_frame SMS b0 L off dcs (octets @ spill) size2"
    by (cases r) auto
  have "b ! Layout_TPUDL L = word_of_nat size2"
  proof -
    obtain b' where b: "b = overwrite (Layout_TPUDL L) [word_of_nat size2] b'"
      using r(5) by (auto simp: encoded_frame_def Let_def)
    moreover have "Layout_TPUDL L < length b" using assms(1,2) r(2) by (simp add: layout_ok_def agrees_def)
    ultimately show ?thesis by (auto simp: overwrite_def nth_append min_def split: if_splits)
  qed
  with Go r show ?thesis by (auto simp: agrees_def)
qed (use encode_frame_text_ok [OF assms] in simp_all)

text \<open>With a Unicode text of 140 octets the last of the cells is written.\<close>

lemma unicode_terminator_written:
  assumes "layout_ok L" "400 \<le> length b0" "sms_arrays SMS" "Coding SMS = SMS_Coding_Unicode_No_Compression"
    "GSM_EncodeSMSFrameText SMS b0 L = Go (b, 140)" "Layout_TPUDL L < Layout_Text L"
  shows "b ! (Layout_Text L + 140) = 0 \<and> b ! (Layout_Text L + 141) = 0"
proof -
  obtain off dcs octets spill size2 where e: "encode_header SMS = Go off" "encode_text off SMS = Go (dcs, octets, spill, size2)"
    "length octets + off = 140" "b = encoded_frame SMS b0 L off dcs (octets @ spill) size2" "length b = length b0"
    using encode_frame_text_ok [OF assms(1-3) encoded_frame_ended [OF assms(5)]] assms(5) by (auto simp: agrees_def)
  have sp: "spill = [0, 0]" using e(2) assms(4) by (auto simp: encode_text_def encode_unicode_def Let_def split: if_splits)
  obtain b2 where b: "b = overwrite (Layout_TPUDL L) [word_of_nat size2] (overwrite (Layout_Text L + off) (octets @ spill) b2)"
    "length b2 = length b0"
    using e(4) encode_header_length [OF e(1)] assms(1-3) by (auto simp: encoded_frame_def Let_def layout_ok_def sms_arrays_def sms_limits)
  have l: "Layout_Text L < 256" using assms(1) by (simp add: layout_ok_def)
  have i: "140 - off = length octets" "141 - off = Suc (length octets)" using e(3) by simp_all
  show ?thesis using b e(3) sp l assms(2,6) by (simp add: nth_overwrite i nth_append)
qed

text \<open>
  Claim C2. What the text encoder writes into a frame, the text decoder reads out of it, in the
  three codings and with or without a user data header: the text, its length and the header.
\<close>

theorem frame_text_roundtrip:
  assumes "GSM_EncodeSMSFrameText SMS b0 L = Go (b, n)" "encodable SMS" "sms_arrays SMS" "sms_arrays SMS2"
    "Coding SMS2 = Coding SMS" "layout_ok L" "text_last L" "400 \<le> length b0" "b0 ! Layout_firstbyte L AND 0x40 = 0"
  shows "\<exists>SMS3. GSM_DecodeSMSFrameText b L SMS2 = Go SMS3
    \<and> SMS_Text SMS3 = overlay (expected_text SMS) (SMS_Text SMS2) \<and> SMS_Length SMS3 = expected_length SMS
    \<and> Go (nat (UDH_Length (UDH SMS3))) = encode_header SMS
    \<and> take (nat (UDH_Length (UDH SMS3))) (UDH_Text (UDH SMS3)) = take (nat (UDH_Length (UDH SMS3))) (UDH_Text (UDH SMS))"
proof -
  obtain off dcs octets spill size2 where e: "encode_header SMS = Go off"
    "encode_text off SMS = Go (dcs, octets, spill, size2)" "size2 \<le> 160"
    "b = encoded_frame SMS b0 L off dcs (octets @ spill) size2"
    using encode_frame_text_ok [OF assms(6,8,3) encoded_frame_ended [OF assms(1)]] assms(1) by auto
  have o: "off \<le> 140" using e(1) by (rule encode_header_length)
  have t: "length octets + off \<le> 140" "length spill \<le> 2"
    using encode_text_fits [OF assms(3) o encoded_frame_ended [OF assms(1)]] e(2) by (simp_all add: text_fits_def)
  have u: "length (UDH_Text (UDH SMS)) = 140" using assms(3) by (simp add: sms_arrays_def sms_limits)
  have s: "length (octets @ spill) + off \<le> 142" using t by simp
  note c = encoded_frame_cells [OF assms(7,8) o s u e(4)]
  have l: "Layout_Text L \<le> 96" "Layout_firstbyte L < Layout_Text L" "Layout_TPUDL L < Layout_Text L"
    using assms(7) by (simp_all add: text_last_def)
  have v: "unat (word_of_nat size2 :: byte) = size2" using e(3) by (simp add: unat_of_nat)
  have oc: "cells (Layout_Text L + off) (length octets) b = octets"
    using arg_cong [OF c(4), of "take (length octets)"] by (simp add: cells_def min_def)
  define SMS1 where "SMS1 = SMS2\<lparr>UDH := (UDH SMS2)\<lparr>UDH_Length := 0\<rparr>\<rparr>"
  have a1: "sms_arrays SMS1" "UDH_Length (UDH SMS1) = 0" using assms(4) by (simp_all add: SMS1_def sms_arrays_def)
  have fb: "b ! Layout_firstbyte L AND 64 \<noteq> 0 \<longleftrightarrow> UDH_Type (UDH SMS) \<noteq> UDH_NoUDH"
    using assms(9) unfolding c(3) by (simp add: word_ao_dist)
  obtain udh where h: "frame_udh b L (b ! Layout_firstbyte L) (word_of_nat size2) SMS1 = Go (SMS1\<lparr>UDH := udh\<rparr>, off)"
    "UDH_Length udh = int off" "take off (UDH_Text udh) = take off (UDH_Text (UDH SMS))" "length (UDH_Text udh) = 140"
    using frame_udh_roundtrip [OF e(1) a1(1) _ _ fb a1(2) c(5) u, of "word_of_nat size2"] v encode_text_size [OF e(2)]
      c(1) assms(8) l o by auto
  define S where "S = (SMS1\<lparr>UDH := udh\<rparr>)\<lparr>SMS_Length := expected_length SMS\<rparr>"
  have k: "Coding (SMS1\<lparr>UDH := udh\<rparr>) = Coding SMS" using assms(5) by (simp add: SMS1_def)
  have g: "Layout_Text L + off + length octets \<le> length b" using c(1) assms(8) l(1) t o by simp
  note d = decode_encoded_text [OF e(2) assms(2) oc g o, of "SMS1\<lparr>UDH := udh\<rparr>", folded S_def]
  have d: "GSM_DecodeSMSFrameText b L SMS2 = put_text (expected_text SMS) S"
    unfolding GSM_DecodeSMSFrameText_def SMS1_def [symmetric]
    using c(1) assms(8) l v e(3) h(1) d k by (simp add: rd_def Let_def c(2) del: of_nat_unat cong: if_cong)
  have x: "length (expected_text SMS) \<le> length (SMS_Text S)"
    using expected_text_fits [OF e(2)] assms(4) by (simp add: S_def SMS1_def sms_arrays_def sms_limits)
  show ?thesis
    unfolding d put_text_def using x h e(1) by (simp add: S_def SMS1_def)
qed

definition submit_layout :: GSM_SMSMessageLayout where
  "submit_layout = \<lparr>Layout_Text = 19, Layout_Number = 255, Layout_SMSCNumber = 255, Layout_TPDCS = 16,
     Layout_DateTime = 255, Layout_SMSCTime = 255, Layout_TPStatus = 255, Layout_TPUDL = 18,
     Layout_TPVP = 255, Layout_firstbyte = 0, Layout_TPMR = 255, Layout_TPPID = 255\<rparr>"

lemma submit_layout_ok: "layout_ok submit_layout" "text_last submit_layout"
  by (simp_all add: submit_layout_def layout_ok_def text_last_def)

theorem encode_frame_text_bounds_witness:
  "(\<exists>b n size2. GSM_EncodeSMSFrameText blank_sms (replicate 400 0) submit_layout = Go (b, n) \<and> n \<le> 140
     \<and> size2 \<le> 160 \<and> b ! 18 = word_of_nat size2)
   \<or> GSM_EncodeSMSFrameText blank_sms (replicate 400 0) submit_layout = Fail ERR_INVALIDDATA"
proof -
  have "text_ended blank_sms" by (simp add: text_ended_def blank_sms_def)
  from encode_frame_text_bounds [OF submit_layout_ok(1) _ blank_arrays this, of "replicate 400 0"] show ?thesis
    by (fastforce simp: submit_layout_def)
qed

text \<open>A message of two octets of 8 bit data behind the cells of the submit layout.\<close>

definition data_sms :: GSM_SMSMessage where
  "data_sms = blank_sms\<lparr>SMS_Length := 2, SMS_Text := [7, 9] @ replicate 1300 0\<rparr>"

lemma data_arrays: "sms_arrays data_sms"
  using blank_arrays by (simp add: data_sms_def sms_arrays_def sms_limits)

lemma data_encodes:
  "GSM_EncodeSMSFrameText data_sms (replicate 400 0) submit_layout
   = Go ((replicate 400 0)[16 := 4, 18 := 2, 19 := 7, 20 := 9], 2)"
proof -
  have u: "UDH_Type (UDH data_sms) = UDH_NoUDH" "Coding data_sms = SMS_Coding_8bit" "SMS_Length data_sms = 2"
    "take 2 (SMS_Text data_sms) = [7, 9]" "length (SMS_Text data_sms) = 1302"
    by (simp_all add: data_sms_def blank_sms_def udh_row_def)
  have e: "encode_text 0 data_sms = Go (4, [7, 9], [], 2)"
    using u by (simp add: encode_text_def encode_8bit_def rds_def sms_limits)
  show ?thesis
    using u e
    by (simp add: GSM_EncodeSMSFrameText_def encode_header_def or_cell_def poke_def submit_layout_def
        overwrite_def numeral_eq_Suc)
qed

theorem frame_text_roundtrip_witness:
  "\<exists>SMS3. GSM_DecodeSMSFrameText ((replicate 400 0)[16 := 4, 18 := 2, 19 := 7, 20 := 9]) submit_layout blank_sms
      = Go SMS3 \<and> SMS_Text SMS3 = overlay [7, 9] (SMS_Text blank_sms)"
proof -
  have "encodable data_sms" "Coding blank_sms = Coding data_sms" "expected_text data_sms = [7, 9]"
    by (simp_all add: encodable_def data_sms_def blank_sms_def expected_text_def)
  with frame_text_roundtrip [OF data_encodes _ data_arrays blank_arrays _ submit_layout_ok] show ?thesis
    by (fastforce simp: submit_layout_def)
qed

end
