(* ===== verification/MultiSms.thy ===== *)
theory MultiSms imports SmsEncode begin

text \<open>
  Long messages: \<^verbatim>\<open>GSM_Find_Free_Used_SMS2\<close>, the segment alignment, \<^verbatim>\<open>GSM_AddSMS_Text_UDH\<close>,
  \<^verbatim>\<open>GSM_MakeMultiPartSMS\<close> and \<^verbatim>\<open>GSM_SMSCounter\<close> of \<^verbatim>\<open>libgammu/service/sms/gsmmulti.c\<close>. Values of
  type \<^verbatim>\<open>size_t\<close> are naturals below \<open>2 ^ 64\<close>; \<open>size_t\<close> is the conversion of an integer to it.
\<close>

definition GSM_MAX_MULTI_SMS :: nat where "GSM_MAX_MULTI_SMS = 50"

record GSM_MultiSMSMessage =
  Multi_Number :: nat
  Multi_SMS :: "GSM_SMSMessage list"
  Multi_Processed :: bool

definition size_t :: "int \<Rightarrow> nat" where
  "size_t v = nat (v mod 2 ^ 64)"

lemma size_t_id: "0 \<le> v \<Longrightarrow> v < 2 ^ 64 \<Longrightarrow> size_t v = nat v"
  by (simp add: size_t_def)

subsection \<open>Operations\<close>

text \<open>The identifier is an \<^verbatim>\<open>unsigned char\<close> in its caller.\<close>

definition GSM_MakeSMSIDFromTime :: "GSM_DateTime \<Rightarrow> int" where
  "GSM_MakeSMSIDFromTime Date =
     (let m = c_quot (Minute Date) 10;
          add = (if m = 2 \<or> m = 7 then 60 else if m = 4 \<or> m = 8 then 120
                 else if m = 9 \<or> m = 5 \<or> m = 0 then 180 else 0)
      in (Second Date + add + m) mod 256)"

text \<open>The triple is \<^verbatim>\<open>*UsedText\<close>, \<^verbatim>\<open>*FreeText\<close>, \<^verbatim>\<open>*FreeBytes\<close>, which other codings leave alone.\<close>

definition GSM_Find_Free_Used_SMS2 ::
  "GSM_Coding_Type \<Rightarrow> GSM_SMSMessage \<Rightarrow> nat \<times> nat \<times> nat \<Rightarrow> nat \<times> nat \<times> nat" where
  "GSM_Find_Free_Used_SMS2 coding SMS old =
     (let units = units_of_bytes (SMS_Text SMS); room = int GSM_MAX_8BIT_SMS_LENGTH - UDH_Length (UDH SMS) in
      case coding of
        SMS_Coding_Default_No_Compression \<Rightarrow>
          (let used = snd (FindDefaultAlphabetLen units 500);
               b = used * 7 div 8;
               bytes = (if b * 8 div 7 \<noteq> used then b + 1 else b)
           in (used, size_t (c_quot (room * 8) 7 - int used), size_t (room - int bytes)))
      | SMS_Coding_Unicode_No_Compression \<Rightarrow>
          (let used = UnicodeLength units;
               bytes = length (EncodeUnicodeSpecialNOKIAChars units used) * 2;
               free = size_t (room - int bytes)
           in (used, free div 2, free))
      | SMS_Coding_8bit \<Rightarrow>
          (let used = size_t (SMS_Length SMS); free = size_t (room - int used) in (used, free, free))
      | _ \<Rightarrow> old)"

text \<open>Alignment of the end of a segment; the buffer is the list of its UCS-2 units.\<close>

definition ReassembleCharacter :: "uchar list \<Rightarrow> nat \<Rightarrow> nat" where
  "ReassembleCharacter Buffer i = unat (Buffer ! i)"

definition AlignIfSurrogatePair :: "nat \<Rightarrow> uchar list \<Rightarrow> nat \<Rightarrow> nat \<times> nat" where
  "AlignIfSurrogatePair Copy Buffer BufferLen =
     (if Copy \<le> 1 then (Copy, 0)
      else let n = ReassembleCharacter Buffer (Copy - 1) in
           if n \<ge> 0xd800 \<and> n \<le> 0xdbff then (Copy - 1, 1) else (Copy, 0))"

definition combining :: "nat \<Rightarrow> bool" where
  "combining n \<longleftrightarrow> (n \<ge> 0xfe20 \<and> n \<le> 0xfe2f) \<or> (n \<ge> 0x300 \<and> n \<le> 0x36f) \<or> (n \<ge> 0x1ab0 \<and> n \<le> 0x1aff)
     \<or> (n \<ge> 0x1dc0 \<and> n \<le> 0x1dff) \<or> (n \<ge> 0x20d0 \<and> n \<le> 0x20ff)"

definition AlignIfCombinedCharacter :: "nat \<Rightarrow> uchar list \<Rightarrow> nat \<Rightarrow> nat \<times> nat" where
  "AlignIfCombinedCharacter Copy Buffer BufferLen =
     (if Copy \<le> 1 \<or> Copy \<ge> BufferLen then (Copy, 0)
      else if combining (ReassembleCharacter Buffer Copy) then (Copy - 1, 1) else (Copy, 0))"

definition AlignIfCombinedSurrogate :: "nat \<Rightarrow> uchar list \<Rightarrow> nat \<Rightarrow> nat \<times> nat" where
  "AlignIfCombinedSurrogate Copy Buffer BufferLen =
     (if Copy \<le> 2 \<or> Copy + 2 \<ge> BufferLen then (Copy, 0)
      else
        let l1 = ReassembleCharacter Buffer (Copy - 2); l2 = ReassembleCharacter Buffer (Copy - 1);
            r1 = ReassembleCharacter Buffer Copy; r2 = ReassembleCharacter Buffer (Copy + 1) in
        if l1 = 0xd83c \<and> r1 = 0xd83c \<and> l2 \<ge> 0xdde6 \<and> l2 \<le> 0xddff \<and> r2 \<ge> 0xdde6 \<and> r2 \<le> 0xddff
        then (Copy - 2, 2) else (Copy, 0))"

definition AlignSegmentForContent :: "nat \<Rightarrow> uchar list \<Rightarrow> nat \<Rightarrow> nat \<times> nat" where
  "AlignSegmentForContent Copy0 Buffer BufferLen =
     (let (Copy1, rv1) = AlignIfSurrogatePair Copy0 Buffer BufferLen;
          (Copy2, rv2) = (if rv1 = 0 then AlignIfCombinedCharacter Copy1 Buffer BufferLen else (Copy1, 0));
          (Copy3, rv3) = AlignIfCombinedSurrogate Copy2 Buffer BufferLen
      in (Copy3, rv1 + rv2 + rv3))"

text \<open>The binary search for the longest prefix that fits.\<close>

function copy_search :: "(nat \<Rightarrow> bool) \<Rightarrow> nat \<Rightarrow> nat \<Rightarrow> nat" where
  "copy_search fits low high =
     (if low < high then
        let candidate = low + (high - low + 1) div 2 in
        if fits candidate then copy_search fits candidate high else copy_search fits low (candidate - 1)
      else low)"
  by pat_completeness auto
termination
  by (relation "measure (\<lambda>(_, low, high). high - low)") auto

declare copy_search.simps [simp del]

definition nokia_fits :: "uchar list \<Rightarrow> nat \<Rightarrow> uchar list \<Rightarrow> nat \<Rightarrow> nat \<Rightarrow> bool" where
  "nokia_fits text current Buffer capacity candidate \<longleftrightarrow>
     length (EncodeUnicodeSpecialNOKIAChars (take current text @ take candidate Buffer @ [0]) (current + candidate))
       \<le> capacity"

definition GSM_UnicodeNokiaCopyLength :: "GSM_SMSMessage \<Rightarrow> uchar list \<Rightarrow> nat \<Rightarrow> nat \<Rightarrow> nat" where
  "GSM_UnicodeNokiaCopyLength SMS Buffer BufferLen capacity =
     (let text = units_of_bytes (SMS_Text SMS); current = UnicodeLength text; limit = (2 * (GSM_MAX_SMS_LENGTH + 1) - 2) div 2 in
      if current > limit then 0
      else copy_search (nokia_fits text current Buffer capacity) 0 (min BufferLen (limit - current)))"

text \<open>
  Adding to the current message. \<open>Buffer\<close> are the octets the pointer shows; the result holds the
  messages, \<^verbatim>\<open>*UsedText\<close>, \<^verbatim>\<open>*CopiedText\<close> and \<^verbatim>\<open>*CopiedSMSText\<close>.
\<close>

definition current_sms :: "GSM_MultiSMSMessage \<Rightarrow> GSM_SMSMessage" where
  "current_sms M = Multi_SMS M ! Multi_Number M"

definition set_current :: "GSM_MultiSMSMessage \<Rightarrow> GSM_SMSMessage \<Rightarrow> GSM_MultiSMSMessage" where
  "set_current M SMS = M\<lparr>Multi_SMS := (Multi_SMS M)[Multi_Number M := SMS]\<rparr>"

text \<open>The next message, when there is one.\<close>

definition next_sms :: "GSM_MultiSMSMessage \<Rightarrow> (GSM_Error, GSM_MultiSMSMessage) stage" where
  "next_sms M =
     (if Multi_Number M + 1 \<ge> GSM_MAX_MULTI_SMS then Fail ERR_INVALIDDATA
      else Go (M\<lparr>Multi_Number := Multi_Number M + 1\<rparr>))"

definition header_too_big :: "GSM_SMSMessage \<Rightarrow> nat \<Rightarrow> nat \<Rightarrow> bool" where
  "header_too_big SMS FreeBytes BufferLen =
     (let overhead = (if UDH_Length (UDH SMS) = 0 then 1 else 0) in
      FreeBytes < overhead \<or> BufferLen > FreeBytes - overhead)"

definition add_header ::
  "GSM_SMSMessage \<Rightarrow> byte list \<Rightarrow> nat \<Rightarrow> (GSM_Error, GSM_SMSMessage) stage" where
  "add_header SMS Buffer BufferLen =
     (let u = (if UDH_Length (UDH SMS) = 0 then (UDH SMS)\<lparr>UDH_Length := 1, UDH_Text := (UDH_Text (UDH SMS))[0 := 0]\<rparr>
               else UDH SMS) in
      rds Buffer 0 BufferLen (\<lambda>bs. andthen (poke (nat (UDH_Length u)) bs (UDH_Text u)) (\<lambda>text.
        Go (SMS\<lparr>UDH := u\<lparr>UDH_Type := UDH_UserUDH, UDH_Length := UDH_Length u + int BufferLen,
                          UDH_Text := text[0 := text ! 0 + word_of_nat BufferLen]\<rparr>\<rparr>))))"

text \<open>UCS-2 units appended to the text with a new terminator.\<close>

definition append_units :: "GSM_SMSMessage \<Rightarrow> uchar list \<Rightarrow> (GSM_Error, GSM_SMSMessage) stage" where
  "append_units SMS us =
     andthen (poke (2 * UnicodeLength (units_of_bytes (SMS_Text SMS))) (ucs2z us) (SMS_Text SMS)) (\<lambda>text.
       Go (SMS\<lparr>SMS_Text := text, SMS_Length := SMS_Length SMS + int (length us)\<rparr>))"

definition add_text ::
  "GSM_Coding_Type \<Rightarrow> GSM_SMSMessage \<Rightarrow> byte list \<Rightarrow> nat \<Rightarrow> nat
   \<Rightarrow> (GSM_Error, GSM_SMSMessage \<times> (nat \<times> nat) option) stage" where
  "add_text coding SMS Buffer BufferLen FreeText =
     (let units = units_of_bytes Buffer in
      case coding of
        SMS_Coding_Default_No_Compression \<Rightarrow>
          (let (i, j) = FindDefaultAlphabetLen units FreeText in
           andthen (append_units SMS (take i units)) (\<lambda>SMS'. Go (SMS', Some (i, j))))
      | SMS_Coding_Unicode_No_Compression \<Rightarrow>
          (let Copy0 = GSM_UnicodeNokiaCopyLength SMS units BufferLen
                         (size_t (c_quot (int GSM_MAX_8BIT_SMS_LENGTH - UDH_Length (UDH SMS)) 2));
               Copy = fst (AlignSegmentForContent Copy0 units BufferLen) in
           andthen (append_units SMS (take Copy units)) (\<lambda>SMS'. Go (SMS', Some (Copy, Copy))))
      | SMS_Coding_8bit \<Rightarrow>
          (let Copy = min FreeText BufferLen in
           rds Buffer 0 Copy (\<lambda>bs. andthen (poke (nat (SMS_Length SMS)) bs (SMS_Text SMS)) (\<lambda>text.
             Go (SMS\<lparr>SMS_Text := text, SMS_Length := SMS_Length SMS + int Copy\<rparr>, Some (Copy, Copy)))))
      | _ \<Rightarrow> Go (SMS, None))"

definition GSM_AddSMS_Text_UDH ::
  "GSM_MultiSMSMessage \<Rightarrow> GSM_Coding_Type \<Rightarrow> byte list \<Rightarrow> nat \<Rightarrow> bool \<Rightarrow> nat \<times> nat \<times> nat
   \<Rightarrow> (GSM_Error, GSM_MultiSMSMessage \<times> nat \<times> nat \<times> nat) stage" where
  "GSM_AddSMS_Text_UDH M0 coding Buffer BufferLen udh = (\<lambda>(UsedText0, CopiedText0, CopiedSMSText0).
     if Multi_Number M0 \<ge> GSM_MAX_MULTI_SMS then Fail ERR_INVALIDDATA
     else
       let S0 = current_sms M0 in
       if SMS_Length S0 < 0 \<or> SMS_Length S0 > int GSM_MAX_SMS_LENGTH
          \<or> UDH_Length (UDH S0) < 0 \<or> UDH_Length (UDH S0) > int GSM_MAX_UDH_LENGTH
       then Fail ERR_INVALIDDATA
       else
         let (used, FreeText, FreeBytes) = GSM_Find_Free_Used_SMS2 coding S0 (UsedText0, 0, 0) in
         andthen
           (if udh then
              andthen (if header_too_big S0 FreeBytes BufferLen then next_sms M0 else Go M0) (\<lambda>M1.
                let S1 = current_sms M1;
                    (used1, FreeText1, FreeBytes1) = GSM_Find_Free_Used_SMS2 coding S1 (used, FreeText, FreeBytes);
                    overhead = (if UDH_Length (UDH S1) = 0 then 1 else 0 :: nat) in
                if header_too_big S1 FreeBytes1 BufferLen
                   \<or> BufferLen > size_t (int GSM_MAX_UDH_LENGTH - UDH_Length (UDH S1) - int overhead)
                then Fail ERR_INVALIDDATA
                else andthen (add_header S1 Buffer BufferLen) (\<lambda>S2.
                  Go (set_current M1 S2, used1, CopiedText0, CopiedSMSText0)))
            else
              andthen (if FreeText = 0 then next_sms M0 else Go M0) (\<lambda>M1.
                let S1 = current_sms M1;
                    (used1, FreeText1, FreeBytes1) = GSM_Find_Free_Used_SMS2 coding S1 (used, FreeText, FreeBytes) in
                andthen (add_text coding S1 Buffer BufferLen FreeText1) (\<lambda>(S2, copied).
                  Go (set_current M1 S2, used1,
                      case copied of None \<Rightarrow> (CopiedText0, CopiedSMSText0) | Some c \<Rightarrow> c))))
           (\<lambda>(M2, used2, copied).
             Go (M2, fst (GSM_Find_Free_Used_SMS2 coding (current_sms M2) (used2, 0, 0)), copied)))"

text \<open>
  The loop of \<^verbatim>\<open>GSM_MakeMultiPartSMS\<close>. \<open>now\<close> is the clock the defaults are stamped with; \<open>Message\<close>
  the octets from \<^verbatim>\<open>MessageBuffer\<close> on. A fresh message is the default one with class, coding and
  an encoded header; an added text that is empty ends the loop with an error, so it terminates.
\<close>

definition fresh_part ::
  "GSM_DateTime \<Rightarrow> GSM_UDH \<Rightarrow> GSM_Coding_Type \<Rightarrow> int \<Rightarrow> GSM_SMSMessage \<Rightarrow> GSM_SMSMessage" where
  "fresh_part now type coding cls SMS0 =
     (let SMS = GSM_SetDefaultSMSData now now SMS0 in
      SMS\<lparr>Class := cls, Coding := coding, UDH := GSM_EncodeUDHHeader ((UDH SMS)\<lparr>UDH_Type := type\<rparr>)\<rparr>)"

definition unit_size :: "GSM_Coding_Type \<Rightarrow> nat" where
  "unit_size coding = (if coding = SMS_Coding_8bit then 1 else 2)"

function make_parts ::
  "GSM_DateTime \<Rightarrow> GSM_UDH \<Rightarrow> GSM_Coding_Type \<Rightarrow> int \<Rightarrow> byte list \<Rightarrow> nat
   \<Rightarrow> GSM_MultiSMSMessage \<Rightarrow> nat \<Rightarrow> nat \<times> nat \<times> nat \<Rightarrow> (GSM_Error, GSM_MultiSMSMessage) stage" where
  "make_parts now type coding cls Message MessageLength M Len counts =
     (if Len < MessageLength \<or> (MessageLength = 0 \<and> Multi_Number M = 0) then
        if Multi_Number M \<ge> GSM_MAX_MULTI_SMS then Fail ERR_INVALIDDATA
        else
          case GSM_AddSMS_Text_UDH (set_current M (fresh_part now type coding cls (current_sms M))) coding
                 (drop (unit_size coding * Len) Message) (MessageLength - Len) False counts of
            OobRead \<Rightarrow> OobRead
          | OobWrite \<Rightarrow> OobWrite
          | Fail e \<Rightarrow> Fail e
          | Go (M', used, copied, copied_sms) \<Rightarrow>
              if MessageLength \<noteq> 0 \<and> copied = 0 then Fail ERR_INVALIDDATA
              else
                let M'' = M'\<lparr>Multi_Number := Multi_Number M' + 1\<rparr> in
                if Len + copied = MessageLength then Go M''
                else make_parts now type coding cls Message MessageLength M'' (Len + copied)
                       (used, copied, copied_sms)
      else Go M)"
  by pat_completeness auto
termination
  by (relation "measure (\<lambda>(_, _, _, _, _, ml, M, len, _). (ml - len) + (if ml = 0 \<and> Multi_Number M = 0 then 1 else 0))") auto

declare make_parts.simps [simp del]

definition number_part :: "GSM_UDH \<Rightarrow> int \<Rightarrow> int \<Rightarrow> nat \<Rightarrow> nat \<Rightarrow> GSM_SMSMessage \<Rightarrow> GSM_SMSMessage" where
  "number_part type udhid hour parts j SMS =
     SMS\<lparr>UDH := GSM_EncodeUDHHeader ((UDH SMS)\<lparr>UDH_Type := type, ID8bit := udhid, ID16bit := udhid + 256 * hour,
            PartNumber := int j + 1, AllParts := int parts\<rparr>)\<rparr>"

definition number_parts :: "GSM_UDH \<Rightarrow> int \<Rightarrow> int \<Rightarrow> GSM_MultiSMSMessage \<Rightarrow> GSM_MultiSMSMessage" where
  "number_parts type udhid hour M =
     M\<lparr>Multi_SMS := map (\<lambda>j. number_part type udhid hour (Multi_Number M) j (Multi_SMS M ! j)) [0..<Multi_Number M]
                    @ drop (Multi_Number M) (Multi_SMS M)\<rparr>"

definition GSM_MakeMultiPartSMS ::
  "GSM_DateTime \<Rightarrow> GSM_MultiSMSMessage \<Rightarrow> byte list \<Rightarrow> nat \<Rightarrow> GSM_UDH \<Rightarrow> GSM_Coding_Type \<Rightarrow> int \<Rightarrow> byte
   \<Rightarrow> (GSM_Error, GSM_MultiSMSMessage) stage" where
  "GSM_MakeMultiPartSMS now M0 Message MessageLength type coding cls replace =
     andthen (make_parts now type coding cls Message MessageLength M0 0 (0, 0, 0)) (\<lambda>M.
       let M1 = number_parts type (GSM_MakeSMSIDFromTime now) (Hour now) M in
       if Multi_Number M1 = 1
       then Go (M1\<lparr>Multi_SMS := (Multi_SMS M1)[0 := (Multi_SMS M1 ! 0)\<lparr>ReplaceMessage := replace\<rparr>]\<rparr>)
       else Go M1)"

text \<open>The counter of a text editor: messages and free characters; \<open>M0\<close> is its local variable.\<close>

definition GSM_SMSCounter ::
  "GSM_DateTime \<Rightarrow> GSM_MultiSMSMessage \<Rightarrow> byte list \<Rightarrow> GSM_UDH \<Rightarrow> GSM_Coding_Type \<Rightarrow> (unit, nat \<times> nat) stage" where
  "GSM_SMSCounter now M0 Message type coding =
     (case GSM_MakeMultiPartSMS now (M0\<lparr>Multi_Number := 0\<rparr>) Message (UnicodeLength (units_of_bytes Message)) type coding (-1) 0 of
        OobRead \<Rightarrow> OobRead
      | OobWrite \<Rightarrow> OobWrite
      | Fail e \<Rightarrow> Go (GSM_MAX_MULTI_SMS, 0)
      | Go M \<Rightarrow>
          Go (Multi_Number M,
              fst (snd (GSM_Find_Free_Used_SMS2 coding (Multi_SMS M ! (Multi_Number M - 1)) (0, 0, 0)))))"

subsection \<open>The binary search\<close>

lemma copy_search_spec:
  assumes mono: "\<And>m n. m \<le> n \<Longrightarrow> fits n \<Longrightarrow> fits m"
  shows "low \<le> high \<Longrightarrow> low = 0 \<or> fits low \<Longrightarrow>
    low \<le> copy_search fits low high \<and> copy_search fits low high \<le> high
    \<and> (copy_search fits low high = 0 \<or> fits (copy_search fits low high))
    \<and> (\<forall>m. copy_search fits low high < m \<and> m \<le> high \<longrightarrow> \<not> fits m)"
  using mono
proof (induction fits low high rule: copy_search.induct)
  case (1 fits low high)
  define c where "c = low + (high - low + 1) div 2"
  have step: "copy_search fits low high =
      (if low < high then if fits c then copy_search fits c high else copy_search fits low (c - 1) else low)"
    by (subst copy_search.simps) (simp add: c_def)
  show ?case
  proof (cases "low < high")
    case True
    then have c: "low < c" "c \<le> high" by (auto simp: c_def)
    show ?thesis
    proof (cases "fits c")
      case True
      have "c \<le> copy_search fits c high \<and> copy_search fits c high \<le> high
          \<and> (copy_search fits c high = 0 \<or> fits (copy_search fits c high))
          \<and> (\<forall>m. copy_search fits c high < m \<and> m \<le> high \<longrightarrow> \<not> fits m)"
        using 1(1) [OF \<open>low < high\<close> c_def True c(2)] True 1(5) by blast
      then show ?thesis using step True \<open>low < high\<close> c by auto
    next
      case False
      have "low \<le> c - 1" using c by simp
      have r: "low \<le> copy_search fits low (c - 1) \<and> copy_search fits low (c - 1) \<le> c - 1
          \<and> (copy_search fits low (c - 1) = 0 \<or> fits (copy_search fits low (c - 1)))
          \<and> (\<forall>m. copy_search fits low (c - 1) < m \<and> m \<le> c - 1 \<longrightarrow> \<not> fits m)"
        using 1(2) [OF \<open>low < high\<close> c_def False \<open>low \<le> c - 1\<close> 1(4)] 1(5) by blast
      have "\<not> fits m" if "c \<le> m" for m using False 1(5) that by blast
      then have "\<not> fits m" if "copy_search fits low (c - 1) < m" "m \<le> high" for m
        using r that by (cases "m \<le> c - 1") (auto simp: not_le)
      then show ?thesis using step False \<open>low < high\<close> r c by auto
    qed
  next
    case False
    then show ?thesis using step 1(3,4) by auto
  qed
qed

lemma nokia_fits_encoded:
  assumes "current \<le> length text"
  shows "nokia_fits text current Buffer capacity k \<longleftrightarrow>
    length (encode_nokia False (take current text @ take k (Buffer @ [0]))) \<le> capacity"
proof -
  have "take (current + k) (take current text @ take k Buffer @ [0]) = take current text @ take k (Buffer @ [0])"
    using assms by (cases "k \<le> length Buffer") (auto simp: min_def)
  then show ?thesis by (simp add: nokia_fits_def EncodeUnicodeSpecialNOKIAChars_def)
qed

lemma nokia_fits_mono:
  assumes "current \<le> length text" "m \<le> n" "nokia_fits text current Buffer capacity n"
  shows "nokia_fits text current Buffer capacity m"
proof -
  have "take n (Buffer @ [0]) = take m (Buffer @ [0]) @ take (n - m) (drop m (Buffer @ [0]))"
    using assms(2) by (metis le_add_diff_inverse take_add)
  then have "length (encode_nokia False (take current text @ take m (Buffer @ [0])))
      \<le> length (encode_nokia False (take current text @ take n (Buffer @ [0])))"
    using length_encode_nokia_append [of False "take current text @ take m (Buffer @ [0])"]
    by (simp only: append_assoc)
  then show ?thesis
    using assms(3) unfolding nokia_fits_encoded [OF assms(1)] by (rule order_trans)
qed

lemma copy_length_spec:
  assumes "current = UnicodeLength (units_of_bytes (SMS_Text SMS))" "current \<le> 650"
    and k_def: "k = GSM_UnicodeNokiaCopyLength SMS Buffer BufferLen capacity"
  shows "k \<le> BufferLen \<and> current + k \<le> 650
    \<and> (k = 0 \<or> nokia_fits (units_of_bytes (SMS_Text SMS)) current Buffer capacity k)
    \<and> (\<forall>m. k < m \<and> m \<le> BufferLen \<and> current + m \<le> 650 \<longrightarrow>
          \<not> nokia_fits (units_of_bytes (SMS_Text SMS)) current Buffer capacity m)"
proof -
  have "current \<le> length (units_of_bytes (SMS_Text SMS))"
    using assms(1) length_cstr_le by (simp only: UnicodeLength_cstr)
  note m = nokia_fits_mono [OF this, of _ _ Buffer capacity]
  have "k = copy_search (nokia_fits (units_of_bytes (SMS_Text SMS)) current Buffer capacity) 0 (min BufferLen (650 - current))"
    using assms(1,2) by (simp add: k_def GSM_UnicodeNokiaCopyLength_def Let_def sms_limits)
  with copy_search_spec [of "nokia_fits (units_of_bytes (SMS_Text SMS)) current Buffer capacity" 0
      "min BufferLen (650 - current)"] m assms(2) show ?thesis by auto
qed

lemma align_bounds:
  assumes "fst (AlignSegmentForContent Copy Buffer BufferLen) = k"
  shows "k \<le> Copy" "0 < Copy \<Longrightarrow> 0 < k"
  using assms
  by (auto simp: AlignSegmentForContent_def AlignIfSurrogatePair_def AlignIfCombinedCharacter_def
      AlignIfCombinedSurrogate_def Let_def split: if_splits prod.splits)

subsection \<open>One part\<close>

text \<open>The length of the header of a type, and a message just set up.\<close>

definition header_length :: "GSM_UDH \<Rightarrow> nat" where
  "header_length t = (if t = UDH_NoUDH then 0 else nat (UDH_Length (row_of t)) + 1)"

definition fresh :: "GSM_UDH \<Rightarrow> GSM_Coding_Type \<Rightarrow> GSM_SMSMessage \<Rightarrow> bool" where
  "fresh type coding S \<longleftrightarrow> sms_arrays S \<and> UDH_Length (UDH S) = int (header_length type) \<and> sms_units S = []
     \<and> SMS_Length S = 0 \<and> Coding S = coding"

lemma encoded_header_length:
  assumes "UDH_Type u \<noteq> UDH_UserUDH" "length (UDH_Text u) = GSM_MAX_UDH_LENGTH"
  shows "UDH_Length (GSM_EncodeUDHHeader u) = int (header_length (UDH_Type u))
    \<and> length (UDH_Text (GSM_EncodeUDHHeader u)) = GSM_MAX_UDH_LENGTH \<and> header_length (UDH_Type u) \<le> 12
    \<and> UDH_Type (GSM_EncodeUDHHeader u) = UDH_Type u"
  using assms
  by (rule_tac udh_array [OF assms(2)]; cases "UDH_Type u")
     (simp_all add: udh_unfold row_of_def header_length_def)

lemma units_after_zero:
  assumes "length text \<ge> 2" shows "cstr (units_of_bytes (text[0 := 0, 1 := 0])) = []"
proof -
  obtain a b t where "text = a # b # t" using assms by (metis Suc_le_length_iff numeral_2_eq_2)
  then show ?thesis by (simp add: cstr_Cons unit_of_def)
qed

lemma fresh_part_fresh:
  assumes "sms_arrays S" "type \<noteq> UDH_UserUDH"
  shows "fresh type coding (fresh_part now type coding cls S)"
proof -
  have l: "length (SMS_Text S) = 1302" "length (UDH_Text (UDH S)) = 140" using assms(1) by (simp_all add: sms_arrays_def sms_limits)
  define u where "u = (UDH (GSM_SetDefaultSMSData now now S))\<lparr>UDH_Type := type\<rparr>"
  have u: "UDH_Type u = type" "length (UDH_Text u) = GSM_MAX_UDH_LENGTH"
    using l by (simp_all add: u_def GSM_SetDefaultSMSData_def GSM_SetDefaultReceivedSMSData_def Let_def sms_limits)
  show ?thesis
    using encoded_header_length [of u] u assms(2) l units_after_zero [of "SMS_Text S"]
    by (simp add: fresh_part_def Let_def u_def [symmetric] fresh_def sms_arrays_def sms_units_def sms_limits)
       (simp add: GSM_SetDefaultSMSData_def GSM_SetDefaultReceivedSMSData_def Let_def)
qed

text \<open>A part that carries the octets \<open>bs\<close> of the message and can be encoded.\<close>

definition part_octets :: "GSM_SMSMessage \<Rightarrow> byte list" where
  "part_octets S =
     (if Coding S = SMS_Coding_8bit then take (nat (SMS_Length S)) (SMS_Text S) else bytes_of_units (sms_units S))"

definition carries :: "GSM_UDH \<Rightarrow> GSM_Coding_Type \<Rightarrow> GSM_SMSMessage \<Rightarrow> byte list \<Rightarrow> bool" where
  "carries type coding S bs \<longleftrightarrow> sms_arrays S \<and> Coding S = coding \<and> UDH_Length (UDH S) = int (header_length type)
     \<and> part_octets S = bs \<and> (\<exists>r. encode_text (header_length type) S = Go r)"

lemma units_of_bytes_append: "units_of_bytes (bytes_of_units us @ bs) = us @ units_of_bytes bs"
  by (induction us) simp_all

lemma appended_units:
  assumes "fresh type coding S" "0 \<notin> set us" "length us \<le> 650"
  shows "\<exists>S'. append_units S us = Go S' \<and> sms_arrays S' \<and> UDH S' = UDH S \<and> Coding S' = coding \<and> sms_units S' = us"
proof -
  have l: "length (SMS_Text S) = 1302" using assms(1) by (simp add: fresh_def sms_arrays_def sms_limits)
  have "UnicodeLength (units_of_bytes (SMS_Text S)) = 0"
    using assms(1) by (simp add: UnicodeLength_cstr fresh_def sms_units_def)
  moreover have "cstr (units_of_bytes (overwrite 0 (ucs2z us) (SMS_Text S))) = us"
    using assms(2) by (simp add: overwrite_def ucs2z_def units_of_bytes_append unit_of_def cstr_append_zero)
  ultimately show ?thesis
    using assms(1,3) l by (simp add: append_units_def poke_def fresh_def sms_arrays_def sms_units_def)
qed

lemma find_default_all:
  assumes "length (text_septets units) \<le> maxlen"
  shows "FindDefaultAlphabetLen units maxlen = (length (cstr units), length (text_septets units))"
proof -
  obtain k where k: "FindDefaultAlphabetLen units maxlen = (k, length (EncodeDefault units k True None))"
    "k \<le> length (cstr units)" "k < length (cstr units) \<longrightarrow> maxlen < length (EncodeDefault units (k + 1) True None)"
    using find_default_len_spec [of 0 maxlen units 0 None] by (auto simp: FindDefaultAlphabetLen_def)
  have "length (EncodeDefault units (k + 1) True None) \<le> length (text_septets units)" if "k < length (cstr units)"
  proof -
    have "take (length (cstr units)) units = take (k + 1) units @ take (length (cstr units) - (k + 1)) (drop (k + 1) units)"
      using that by (metis Suc_eq_plus1 Suc_leI le_add_diff_inverse take_add)
    then show ?thesis unfolding text_septets_def EncodeDefault_def by simp
  qed
  then show ?thesis using k assms by (cases "k < length (cstr units)") (auto simp: text_septets_def)
qed

lemma room_septets: "h \<le> 140 \<Longrightarrow> (140 - h) * 8 div 7 = 160 - header_septets h"
proof -
  assume h: "h \<le> 140"
  have "header_septets h \<le> 160" using header_septets_exact [of h] header_fill_small [of h] h by linarith
  then have "(140 - h) * 8 = 7 * (160 - header_septets h) + header_fill h"
    using header_septets_exact [of h] h by (simp add: diff_mult_distrib2)
  then show ?thesis using header_fill_small [of h] by simp
qed

text \<open>What a message buffer may hold: any octets, or UCS-2 units without a terminator.\<close>

definition message_data :: "GSM_Coding_Type \<Rightarrow> byte list \<Rightarrow> bool" where
  "message_data coding data \<longleftrightarrow>
     coding = SMS_Coding_8bit
     \<or> (coding \<in> {SMS_Coding_Default_No_Compression, SMS_Coding_Unicode_No_Compression}
        \<and> (\<exists>us. data = bytes_of_units us \<and> 0 \<notin> set us))"

definition free_text :: "GSM_UDH \<Rightarrow> GSM_Coding_Type \<Rightarrow> nat" where
  "free_text type coding =
     (let room = 140 - header_length type in
      if coding = SMS_Coding_Default_No_Compression then room * 8 div 7
      else if coding = SMS_Coding_Unicode_No_Compression then room div 2 else room)"

lemma free_of_fresh:
  assumes "fresh type coding S" "header_length type \<le> 12" "message_data coding data"
  shows "fst (snd (GSM_Find_Free_Used_SMS2 coding S old)) = free_text type coding"
proof -
  define h where "h = header_length type"
  have S: "UDH_Length (UDH S) = int h" "cstr (units_of_bytes (SMS_Text S)) = []" "SMS_Length S = 0" "h \<le> 12"
    using assms(1,2) by (simp_all add: fresh_def sms_units_def h_def)
  have z: "text_septets (units_of_bytes (SMS_Text S)) = []" using S(2) by (simp add: text_septets_def EncodeDefault_def)
  have f: "FindDefaultAlphabetLen (units_of_bytes (SMS_Text S)) 500 = (0, 0)"
    using find_default_all [of "units_of_bytes (SMS_Text S)" 500] z S(2) by simp
  have n: "EncodeUnicodeSpecialNOKIAChars (units_of_bytes (SMS_Text S)) 0 = []"
    by (simp add: EncodeUnicodeSpecialNOKIAChars_def)
  have i: "140 - int h = int (140 - h)" using S(4) by simp
  have q: "c_quot (int (140 - h) * 8) 7 = int ((140 - h) * 8 div 7)" using S(4) by (simp add: c_quot_def zdiv_int)
  have "(140 - h) * 8 div 7 < 1121" by (rule le_less_trans [OF div_le_dividend]) simp
  then have b: "size_t (int ((140 - h) * 8 div 7)) = (140 - h) * 8 div 7" "size_t (int (140 - h)) = 140 - h"
    by (simp_all add: size_t_id del: of_nat_div of_nat_mult)
  have u: "UnicodeLength (units_of_bytes (SMS_Text S)) = 0" using S(2) by (simp add: UnicodeLength_cstr)
  show ?thesis
    using assms(3) f n b q u
    by (cases coding)
       (simp_all add: message_data_def GSM_Find_Free_Used_SMS2_def S i free_text_def h_def [symmetric] sms_limits Let_def
          size_t_id [of 0, simplified] del: of_nat_div of_nat_mult of_nat_diff)
qed

lemma short_text_ended:
  assumes "sms_arrays S" "length (sms_units S) \<le> 650"
  shows "text_ended S"
proof -
  have "length (units_of_bytes (SMS_Text S)) = 651" using assms(1) by (simp add: sms_arrays_def sms_limits)
  then have "cstr (units_of_bytes (SMS_Text S)) \<noteq> units_of_bytes (SMS_Text S)" using assms(2) unfolding sms_units_def by auto
  then have "0 \<in> set (units_of_bytes (SMS_Text S))" using cstr_id by blast
  then show ?thesis by (simp add: text_ended_def)
qed

lemma carried_units:
  assumes "fresh type coding S" "0 \<notin> set us" "length us \<le> 650" "coding \<noteq> SMS_Coding_8bit"
    "\<And>S'. Coding S' = coding \<Longrightarrow> sms_units S' = us \<Longrightarrow> text_ended S' \<Longrightarrow> \<exists>r. encode_text (header_length type) S' = Go r"
  shows "\<exists>S'. append_units S us = Go S' \<and> carries type coding S' (bytes_of_units us)"
proof -
  from appended_units [OF assms(1-3)] obtain S' where
    "append_units S us = Go S'" "sms_arrays S'" "UDH S' = UDH S" "Coding S' = coding" "sms_units S' = us" by blast
  moreover from this have "text_ended S'" using assms(3) by (auto intro: short_text_ended)
  ultimately show ?thesis using assms by (auto simp: carries_def fresh_def part_octets_def)
qed

lemma part_7bit:
  assumes "text_ended S" "header_length type \<le> 12" "Coding S = SMS_Coding_Default_No_Compression"
    "length (text_septets (sms_units S)) \<le> free_text type SMS_Coding_Default_No_Compression"
  shows "\<exists>r. encode_text (header_length type) S = Go r"
proof -
  define h where "h = header_length type"
  let ?u = "units_of_bytes (SMS_Text S)"
  have l: "length (text_septets ?u) \<le> 160 - header_septets h"
    using assms room_septets [of h] by (simp add: free_text_def h_def sms_units_def text_septets_units)
  have "h \<le> 12" using assms(2) by (simp add: h_def)
  then have h: "header_septets h \<le> 160" using header_septets_exact [of h] header_fill_small [of h] by linarith
  have "EncodeDefault ?u (length (cstr ?u)) True None = text_septets ?u" by (simp add: text_septets_def)
  with l h find_default_all [OF l] assms(1,3) show ?thesis
    by (simp add: text_ended_def encode_text_def encode_7bit_def Let_def sms_limits UnicodeLength_cstr h_def [symmetric]
        header_fill_def [symmetric] header_septets_def [symmetric])
qed

lemma part_unicode:
  assumes "text_ended S" "Coding S = SMS_Coding_Unicode_No_Compression"
    "length (encode_nokia False (sms_units S)) \<le> free_text type SMS_Coding_Unicode_No_Compression"
  shows "\<exists>r. encode_text (header_length type) S = Go r"
  using assms
  by (simp add: text_ended_def encode_text_def encode_unicode_def Let_def sms_limits free_text_def sms_units_def
      EncodeUnicodeSpecialNOKIAChars_def UnicodeLength_cstr take_length_cstr)

text \<open>One call adds a part that is not empty, unless nothing is left.\<close>

definition one_part ::
  "GSM_UDH \<Rightarrow> GSM_Coding_Type \<Rightarrow> byte list \<Rightarrow> (GSM_Error, GSM_SMSMessage \<times> (nat \<times> nat) option) stage \<Rightarrow> bool" where
  "one_part type coding data r \<longleftrightarrow>
     (\<exists>S' k j. r = Go (S', Some (k, j)) \<and> unit_size coding * k \<le> length data \<and> (data \<noteq> [] \<longrightarrow> 0 < k)
        \<and> carries type coding S' (take (unit_size coding * k) data))"

lemma take_bytes_of_units: "take (2 * k) (bytes_of_units us) = bytes_of_units (take k us)"
proof (induction us arbitrary: k)
  case (Cons u us)
  then show ?case by (cases k) simp_all
qed simp

lemma bytes_of_units_empty [simp]: "bytes_of_units us = [] \<longleftrightarrow> us = []"
  by (cases us) simp_all

lemma find_default_prefix:
  assumes "0 \<notin> set us" "us = [] \<or> 2 \<le> maxlen"
  obtains k where "FindDefaultAlphabetLen (us @ 0 # zs) maxlen = (k, length (text_septets (take k us)))"
    "k \<le> length us" "length (text_septets (take k us)) \<le> maxlen" "us \<noteq> [] \<Longrightarrow> 0 < k"
proof -
  have c: "cstr (us @ 0 # zs) = us" using assms(1) by (rule cstr_append_zero)
  obtain k where k: "FindDefaultAlphabetLen (us @ 0 # zs) maxlen = (k, length (EncodeDefault (us @ 0 # zs) k True None))"
    "k \<le> length us" "length (EncodeDefault (us @ 0 # zs) k True None) \<le> maxlen"
    "k < length us \<longrightarrow> maxlen < length (EncodeDefault (us @ 0 # zs) (k + 1) True None)"
    using find_default_len_spec [of 0 maxlen "us @ 0 # zs" 0 None] c by (auto simp: FindDefaultAlphabetLen_def)
  have t: "EncodeDefault (us @ 0 # zs) m True None = text_septets (take m us)" if "m \<le> length us" for m
  proof -
    have "0 \<notin> set (take m us)" using assms(1) by (auto dest: in_set_takeD)
    then show ?thesis using that by (simp add: text_septets_def EncodeDefault_def cstr_id)
  qed
  have "0 < k" if "us \<noteq> []"
  proof (rule ccontr)
    assume "\<not> 0 < k"
    obtain u us' where us: "us = u # us'" using \<open>us \<noteq> []\<close> by (cases us) auto
    with k(4) \<open>\<not> 0 < k\<close> have "maxlen < length (EncodeDefault (us @ 0 # zs) 1 True None)" by simp
    moreover have "length (encode_default_char True None u) \<le> 2" by (simp add: length_encode_default)
    ultimately show False using assms(2) us by (simp add: EncodeDefault_def)
  qed
  then show thesis using that [of k] k(1-3) t [OF k(2)] by simp
qed

lemma free_text_bounds:
  assumes "header_length type \<le> 12"
  shows "free_text type coding \<le> 160 \<and> 64 \<le> free_text type coding"
proof -
  define r where "r = 140 - header_length type"
  have r: "128 \<le> r" "r \<le> 140" using assms by (simp_all add: r_def)
  have "r * 8 div 7 \<le> 160" "146 \<le> r * 8 div 7" "64 \<le> r div 2" "r div 2 \<le> 160"
    using div_le_mono [of "r * 8" 1120 7] div_le_mono [of 1024 "r * 8" 7] div_le_mono [OF r(1), of 2]
      div_le_mono [OF r(2), of 2] r by simp_all
  then show ?thesis using r by (auto simp: free_text_def Let_def r_def [symmetric])
qed

lemma add_text_7bit:
  assumes "fresh type coding S" "header_length type \<le> 12" "coding = SMS_Coding_Default_No_Compression" "0 \<notin> set us"
  shows "one_part type coding (bytes_of_units us)
    (add_text coding S (bytes_of_units us @ [0, 0]) n (free_text type coding))"
proof -
  note b = free_text_bounds [OF assms(2), of coding]
  obtain k where k: "FindDefaultAlphabetLen (us @ [0]) (free_text type coding) = (k, length (text_septets (take k us)))"
    "k \<le> length us" "length (text_septets (take k us)) \<le> free_text type coding" "us \<noteq> [] \<Longrightarrow> 0 < k"
    using find_default_prefix [OF assms(4), of "free_text type coding" "[]"] b by auto
  have z: "0 \<notin> set (take k us)" using assms(4) by (auto dest: in_set_takeD)
  have "length (take k us) \<le> 650"
    using text_septets_length [of "take k us"] k(3) b z by (simp add: cstr_id)
  from carried_units [OF assms(1) z this] assms(2,3) k(3) obtain S' where
    "append_units S (take k us) = Go S'" "carries type coding S' (bytes_of_units (take k us))"
    using part_7bit by force
  then show ?thesis
    using assms(3) k
    by (auto simp: one_part_def add_text_def units_of_bytes_append unit_of_def unit_size_def take_bytes_of_units
        Let_def intro!: exI [of _ k])
qed

lemma add_text_unicode:
  assumes "fresh type coding S" "header_length type \<le> 12" "coding = SMS_Coding_Unicode_No_Compression" "0 \<notin> set us"
  shows "one_part type coding (bytes_of_units us)
    (add_text coding S (bytes_of_units us @ [0, 0]) (length us) (free_text type coding))"
proof -
  define cap where "cap = size_t (c_quot (140 - UDH_Length (UDH S)) 2)"
  have h: "UDH_Length (UDH S) = int (header_length type)" "cstr (units_of_bytes (SMS_Text S)) = []"
    using assms(1) by (simp_all add: fresh_def sms_units_def)
  have "c_quot (140 - UDH_Length (UDH S)) 2 = int ((140 - header_length type) div 2)"
    using assms(2) h by (simp add: c_quot_def zdiv_int of_nat_diff)
  then have cap: "cap = free_text type coding"
    using assms(3) size_t_id [of "int ((140 - header_length type) div 2)"] by (simp add: cap_def free_text_def del: of_nat_div)
  note b = free_text_bounds [OF assms(2), of coding]
  define k0 where "k0 = GSM_UnicodeNokiaCopyLength S (us @ [0]) (length us) cap"
  have c: "UnicodeLength (units_of_bytes (SMS_Text S)) = 0" using h(2) by (simp add: UnicodeLength_cstr)
  have f: "nokia_fits t 0 B cap m \<longleftrightarrow> length (encode_nokia False (take m (B @ [0]))) \<le> cap" for t B m
    using nokia_fits_encoded [of 0 t B cap m] by simp
  have k0: "k0 \<le> length us" "k0 = 0 \<or> length (encode_nokia False (take k0 us)) \<le> cap" "us \<noteq> [] \<longrightarrow> 0 < k0"
  proof -
    note s = copy_length_spec [OF c [symmetric] _ k0_def, simplified f, simplified]
    show 1: "k0 \<le> length us" "k0 = 0 \<or> length (encode_nokia False (take k0 us)) \<le> cap" using s by auto
    have "length (encode_nokia False (take 1 us)) \<le> 1" using length_encode_nokia_le [of False "take 1 us"] by simp
    then show "us \<noteq> [] \<longrightarrow> 0 < k0" using s b cap by (cases us) (auto simp: not_le dest: spec [of _ 1])
  qed
  define k where "k = fst (AlignSegmentForContent k0 (us @ [0]) (length us))"
  have k: "k \<le> k0" "0 < k0 \<Longrightarrow> 0 < k" using align_bounds [OF k_def [symmetric]] by auto
  have z: "0 \<notin> set (take k us)" using assms(4) by (auto dest: in_set_takeD)
  have e: "length (encode_nokia False (take k us)) \<le> cap"
  proof (cases "k0 = 0")
    case False
    have "take k0 us = take k us @ take (k0 - k) (drop k us)" using k(1) by (metis le_add_diff_inverse take_add)
    then show ?thesis using k0(2) False length_encode_nokia_append [of False "take k us" "take (k0 - k) (drop k us)"] by simp
  qed (use k in simp)
  have "length (take k us) \<le> 650" using length_encode_nokia_ge [of "take k us" False] e cap b by simp
  from carried_units [OF assms(1) z this] assms(3) e cap obtain S' where
    "append_units S (take k us) = Go S'" "carries type coding S' (bytes_of_units (take k us))"
    using part_unicode by force
  moreover have "k \<le> length us" "us \<noteq> [] \<longrightarrow> 0 < k" using k k0 by auto
  ultimately show ?thesis
    using assms(3)
    by (auto simp: one_part_def add_text_def units_of_bytes_append unit_of_def unit_size_def take_bytes_of_units
        Let_def sms_limits cap_def [symmetric] k0_def [symmetric] k_def [symmetric] intro!: exI [of _ k])
qed

lemma add_text_8bit:
  assumes "fresh type coding S" "header_length type \<le> 12" "coding = SMS_Coding_8bit"
  shows "one_part type coding data (add_text coding S (data @ z) (length data) (free_text type coding))"
proof -
  define k where "k = min (free_text type coding) (length data)"
  note b = free_text_bounds [OF assms(2), of coding]
  have S: "SMS_Length S = 0" "length (SMS_Text S) = 1302" "Coding S = SMS_Coding_8bit" "sms_arrays S"
    "UDH_Length (UDH S) = int (header_length type)"
    using assms(1,3) by (simp_all add: fresh_def sms_arrays_def sms_limits)
  have k: "k \<le> length data" "k \<le> 140 - header_length type" "data \<noteq> [] \<Longrightarrow> 0 < k"
    using b assms(3) by (auto simp: k_def free_text_def)
  have m: "min (free_text type SMS_Coding_8bit) (length data) = k" using assms(3) by (simp add: k_def)
  show ?thesis
    using assms(2,3) S k
    by (simp add: one_part_def add_text_def rds_def poke_def m carries_def sms_arrays_def part_octets_def
        overwrite_def unit_size_def encode_text_def encode_8bit_def sms_limits Let_def)
qed

subsection \<open>The loop\<close>

lemma add_part:
  assumes "fresh type coding (current_sms M)" "header_length type \<le> 12" "message_data coding data"
    "n = length data div unit_size coding" "Multi_Number M < 50" "Multi_Number M < length (Multi_SMS M)"
  shows "\<exists>S' used k j. GSM_AddSMS_Text_UDH M coding (data @ [0, 0]) n False counts = Go (set_current M S', used, k, j)
    \<and> unit_size coding * k \<le> length data \<and> (data \<noteq> [] \<longrightarrow> 0 < k)
    \<and> carries type coding S' (take (unit_size coding * k) data)"
proof -
  obtain u0 c0 d0 where counts: "counts = (u0, c0, d0)" by (metis prod_cases3)
  have "one_part type coding data (add_text coding (current_sms M) (data @ [0, 0]) n (free_text type coding))"
    using assms(1-4) add_text_7bit [OF assms(1,2)] add_text_unicode [OF assms(1,2)] add_text_8bit [OF assms(1,2)]
    by (auto simp: message_data_def unit_size_def)
  then obtain S' k j where r: "add_text coding (current_sms M) (data @ [0, 0]) n (free_text type coding) = Go (S', Some (k, j))"
    "unit_size coding * k \<le> length data" "data \<noteq> [] \<longrightarrow> 0 < k" "carries type coding S' (take (unit_size coding * k) data)"
    by (auto simp: one_part_def)
  obtain used fb where g: "GSM_Find_Free_Used_SMS2 coding (current_sms M) (u0, 0, 0) = (used, free_text type coding, fb)"
    using free_of_fresh [OF assms(1-3), of "(u0, 0, 0)"] by (metis fst_conv prod.exhaust snd_conv)
  obtain used1 fb1 where g1: "GSM_Find_Free_Used_SMS2 coding (current_sms M) (used, free_text type coding, fb)
      = (used1, free_text type coding, fb1)"
    using free_of_fresh [OF assms(1-3), of "(used, free_text type coding, fb)"] by (metis fst_conv prod.exhaust snd_conv)
  have "free_text type coding \<noteq> 0" using free_text_bounds [OF assms(2), of coding] by auto
  then show ?thesis
    using assms(1,2,5) r g g1
    by (simp add: GSM_AddSMS_Text_UDH_def counts fresh_def GSM_MAX_MULTI_SMS_def sms_limits Let_def) blast
qed

text \<open>The messages made so far carry the octets before \<open>Len\<close>.\<close>

definition parts_so_far ::
  "GSM_UDH \<Rightarrow> GSM_Coding_Type \<Rightarrow> byte list \<Rightarrow> GSM_MultiSMSMessage \<Rightarrow> nat \<Rightarrow> bool" where
  "parts_so_far type coding data M Len \<longleftrightarrow>
     Multi_Number M \<le> 50 \<and> length (Multi_SMS M) = 50 \<and> (\<forall>S \<in> set (Multi_SMS M). sms_arrays S)
     \<and> unit_size coding * Len \<le> length data \<and> (data = [] \<or> Multi_Number M \<le> Len)
     \<and> (\<exists>chunks. length chunks = Multi_Number M \<and> concat chunks = take (unit_size coding * Len) data
          \<and> (\<forall>j < Multi_Number M. carries type coding (Multi_SMS M ! j) (chunks ! j)))"

definition all_parts :: "GSM_UDH \<Rightarrow> GSM_Coding_Type \<Rightarrow> byte list \<Rightarrow> GSM_MultiSMSMessage \<Rightarrow> bool" where
  "all_parts type coding data M \<longleftrightarrow>
     1 \<le> Multi_Number M \<and> (\<exists>Len. unit_size coding * Len = length data \<and> parts_so_far type coding data M Len)"

lemma parts_step:
  assumes "parts_so_far type coding data M Len" "Multi_Number M < 50"
    "carries type coding S' (take (unit_size coding * k) (drop (unit_size coding * Len) data))"
    "unit_size coding * k \<le> length data - unit_size coding * Len" "data = [] \<or> 0 < k"
  shows "parts_so_far type coding data
    ((set_current (set_current M S) S')\<lparr>Multi_Number := Multi_Number M + 1\<rparr>) (Len + k)"
proof -
  from assms(1) obtain chunks where c: "length chunks = Multi_Number M" "concat chunks = take (unit_size coding * Len) data"
    "\<forall>j < Multi_Number M. carries type coding (Multi_SMS M ! j) (chunks ! j)"
    by (auto simp: parts_so_far_def)
  let ?bs = "take (unit_size coding * k) (drop (unit_size coding * Len) data)"
  have "concat (chunks @ [?bs]) = take (unit_size coding * (Len + k)) data"
    using c(2) by (simp add: take_add distrib_left)
  moreover have "\<forall>j < Multi_Number M + 1. carries type coding ((Multi_SMS M)[Multi_Number M := S'] ! j) ((chunks @ [?bs]) ! j)"
    using c assms(1-3) by (auto simp: nth_append less_Suc_eq parts_so_far_def)
  moreover have "\<forall>T \<in> set ((Multi_SMS M)[Multi_Number M := S']). sms_arrays T"
    using assms(1,3) by (auto simp: parts_so_far_def carries_def dest!: subsetD [OF set_update_subset_insert])
  ultimately show ?thesis
    using assms(1,2,4,5) c(1)
    by (auto simp: parts_so_far_def set_current_def distrib_left intro!: exI [of _ "chunks @ [?bs]"])
qed

lemma drop_message:
  assumes "message_data coding data" "unit_size coding * Len \<le> length data"
  shows "message_data coding (drop (unit_size coding * Len) data)"
    "drop (unit_size coding * Len) (data @ [0, 0]) = drop (unit_size coding * Len) data @ [0, 0]"
proof -
  have "drop (2 * m) (bytes_of_units us) = bytes_of_units (drop m us)" for m us
  proof (induction us arbitrary: m)
    case (Cons u us)
    then show ?case by (cases m) simp_all
  qed simp
  then show "message_data coding (drop (unit_size coding * Len) data)"
    using assms(1) by (auto simp: message_data_def unit_size_def dest: in_set_dropD)
qed (use assms(2) in simp)

lemma make_parts_all:
  assumes "type \<noteq> UDH_UserUDH" "message_data coding data" "length data = unit_size coding * MessageLength"
  shows "parts_so_far type coding data M Len \<Longrightarrow>
    safe False (\<lambda>e. e = ERR_INVALIDDATA \<and> 50 < MessageLength) (all_parts type coding data)
      (make_parts now type coding cls (data @ [0, 0]) MessageLength M Len counts)"
proof (induction "MessageLength - Len" arbitrary: M Len counts rule: less_induct)
  case less
  let ?z = "unit_size coding"
  have z: "0 < ?z" by (simp add: unit_size_def)
  have L: "Len \<le> MessageLength" using less.prems assms(3) z by (simp add: parts_so_far_def)
  note step = make_parts.simps [of now type coding cls "data @ [0, 0]" MessageLength M Len counts]
  show ?case
  proof (cases "Len < MessageLength \<or> (MessageLength = 0 \<and> Multi_Number M = 0)")
    case False
    then have "Len = MessageLength" "MessageLength = 0 \<Longrightarrow> 1 \<le> Multi_Number M" using L by auto
    moreover have "1 \<le> Multi_Number M" if "0 < MessageLength"
      using that less.prems assms(3) z \<open>Len = MessageLength\<close> by (cases "Multi_Number M") (auto simp: parts_so_far_def)
    ultimately show ?thesis
      using False step less.prems assms(3) by (auto simp: all_parts_def)
  next
    case run: True
    show ?thesis
    proof (cases "Multi_Number M \<ge> 50")
      case True
      with less.prems run assms(3) z have "50 < MessageLength" by (auto simp: parts_so_far_def)
      then show ?thesis using True run step by (simp add: GSM_MAX_MULTI_SMS_def)
    next
      case False
      define S where "S = fresh_part now type coding cls (current_sms M)"
      define M1 where "M1 = set_current M S"
      define rest where "rest = drop (?z * Len) data"
      have m: "Multi_Number M < length (Multi_SMS M)" "sms_arrays (current_sms M)" "?z * Len \<le> length data"
        using False less.prems by (auto simp: parts_so_far_def current_sms_def)
      have S: "fresh type coding (current_sms M1)" "header_length type \<le> 12"
      proof -
        show "fresh type coding (current_sms M1)"
          using fresh_part_fresh [OF m(2) assms(1)] m(1) by (simp add: M1_def S_def set_current_def current_sms_def)
        show "header_length type \<le> 12" using assms(1) by (cases type) (simp_all add: header_length_def row_of_def UDHHeaders_def udh_row_def)
      qed
      have d: "message_data coding rest" "drop (?z * Len) (data @ [0, 0]) = rest @ [0, 0]"
        using drop_message [OF assms(2) m(3)] by (simp_all add: rest_def)
      have n: "MessageLength - Len = length rest div ?z"
        using assms(3) z by (simp add: rest_def flip: diff_mult_distrib2)
      have M1: "Multi_Number M1 < 50" "Multi_Number M1 < length (Multi_SMS M1)" using False m(1) by (simp_all add: M1_def set_current_def)
      obtain S' used k j where r: "GSM_AddSMS_Text_UDH M1 coding (rest @ [0, 0]) (MessageLength - Len) False counts
          = Go (set_current M1 S', used, k, j)"
        "?z * k \<le> length rest" "rest \<noteq> [] \<longrightarrow> 0 < k" "carries type coding S' (take (?z * k) rest)"
        using add_part [OF S d(1) n M1] by blast
      define M2 where "M2 = (set_current M1 S')\<lparr>Multi_Number := Multi_Number M + 1\<rparr>"
      have k: "data = [] \<or> 0 < k" using run r(3) assms(3) z by (auto simp: rest_def)
      have p: "parts_so_far type coding data M2 (Len + k)"
        unfolding M2_def M1_def
        by (rule parts_step [OF less.prems]) (use False r(2,4) k in \<open>simp_all add: rest_def\<close>)
      have N: "Multi_Number (set_current M1 S') = Multi_Number M" by (simp add: M1_def set_current_def)
      have e: "make_parts now type coding cls (data @ [0, 0]) MessageLength M Len counts
          = (if MessageLength \<noteq> 0 \<and> k = 0 then Fail ERR_INVALIDDATA
             else if Len + k = MessageLength then Go M2
             else make_parts now type coding cls (data @ [0, 0]) MessageLength M2 (Len + k) (used, k, j))"
        using step run False r(1) d(2) N
        by (simp add: GSM_MAX_MULTI_SMS_def S_def [symmetric] M1_def [symmetric] M2_def Let_def)
      have f: "Len + k = MessageLength \<Longrightarrow> all_parts type coding data M2"
        using p assms(3) by (auto simp: all_parts_def M2_def)
      have g: "safe False (\<lambda>e. e = ERR_INVALIDDATA \<and> 50 < MessageLength) (all_parts type coding data)
          (make_parts now type coding cls (data @ [0, 0]) MessageLength M2 (Len + k) (used, k, j))"
        if "k \<noteq> 0" "Len + k \<noteq> MessageLength"
      proof -
        have "Len + k \<le> MessageLength" using p assms(3) z by (simp add: parts_so_far_def)
        then show ?thesis using that p by (intro less.hyps) auto
      qed
      have h: "MessageLength = 0 \<Longrightarrow> Len + k = MessageLength"
        using p assms(3) z by (simp add: parts_so_far_def)
      have "MessageLength \<noteq> 0 \<Longrightarrow> k \<noteq> 0" using k assms(3) z by auto
      then show ?thesis unfolding e using f g h by (cases "k = 0") auto
    qed
  qed
qed

subsection \<open>Numbering\<close>

lemma numbered_header:
  assumes "UDH_Type u \<noteq> UDH_UserUDH" "UDH_Type u \<noteq> UDH_NoUDH" "length (UDH_Text u) = GSM_MAX_UDH_LENGTH"
  shows "PartNumber (GSM_EncodeUDHHeader u) = (if PartNumber (row_of (UDH_Type u)) = -1 then -1 else PartNumber u)
    \<and> AllParts (GSM_EncodeUDHHeader u) = (if AllParts (row_of (UDH_Type u)) = -1 then -1 else AllParts u)"
  using assms
  by (rule_tac udh_array [OF assms(3)]; cases "UDH_Type u") (simp_all add: udh_unfold row_of_def)

text \<open>The numbers of part \<open>j\<close> of \<open>n\<close>, for the types that have them.\<close>

definition numbered :: "GSM_UDH \<Rightarrow> nat \<Rightarrow> nat \<Rightarrow> GSM_SMSMessage \<Rightarrow> bool" where
  "numbered type n j S \<longleftrightarrow>
     UDH_Type (UDH S) = type
     \<and> (type = UDH_NoUDH \<or> PartNumber (UDH S) = (if PartNumber (row_of type) = -1 then -1 else int j + 1))
     \<and> (type = UDH_NoUDH \<or> AllParts (UDH S) = (if AllParts (row_of type) = -1 then -1 else int n))"

text \<open>The identifiers of a part, made from the time.\<close>

definition identified :: "GSM_UDH \<Rightarrow> int \<Rightarrow> int \<Rightarrow> GSM_SMSMessage \<Rightarrow> bool" where
  "identified type udhid hour S \<longleftrightarrow>
     type = UDH_NoUDH
     \<or> ID8bit (UDH S) = (if ID8bit (row_of type) = -1 then -1 else udhid)
       \<and> ID16bit (UDH S) = (if ID16bit (row_of type) = -1 then -1 else udhid + 256 * hour)"

lemma identified_header:
  assumes "UDH_Type u \<noteq> UDH_UserUDH" "UDH_Type u \<noteq> UDH_NoUDH" "length (UDH_Text u) = GSM_MAX_UDH_LENGTH"
  shows "ID8bit (GSM_EncodeUDHHeader u) = (if ID8bit (row_of (UDH_Type u)) = -1 then -1 else ID8bit u)
    \<and> ID16bit (GSM_EncodeUDHHeader u) = (if ID16bit (row_of (UDH_Type u)) = -1 then -1 else ID16bit u)"
  using assms
  by (rule_tac udh_array [OF assms(3)]; cases "UDH_Type u") (simp_all add: udh_unfold row_of_def)

lemma encode_text_cong:
  "SMS_Text S' = SMS_Text S \<Longrightarrow> SMS_Length S' = SMS_Length S \<Longrightarrow> Coding S' = Coding S \<Longrightarrow>
   encode_text off S' = encode_text off S"
  by (cases "Coding S") (simp_all add: encode_text_def)

lemma carries_cong:
  assumes "carries type coding S bs" "SMS_Text S' = SMS_Text S" "SMS_Length S' = SMS_Length S" "Coding S' = Coding S"
    "UDH_Length (UDH S') = UDH_Length (UDH S)" "length (UDH_Text (UDH S')) = length (UDH_Text (UDH S))"
  shows "carries type coding S' bs"
  using assms encode_text_cong [OF assms(2-4)]
  by (auto simp: carries_def part_octets_def sms_units_def sms_arrays_def)

lemma number_part_ok:
  assumes "carries type coding S bs" "type \<noteq> UDH_UserUDH"
  shows "carries type coding (number_part type udhid hour n j S) bs \<and> numbered type n j (number_part type udhid hour n j S)
    \<and> identified type udhid hour (number_part type udhid hour n j S)"
proof -
  define u where "u = (UDH S)\<lparr>UDH_Type := type, ID8bit := udhid, ID16bit := udhid + 256 * hour,
      PartNumber := int j + 1, AllParts := int n\<rparr>"
  have u: "UDH_Type u = type" "length (UDH_Text u) = GSM_MAX_UDH_LENGTH" "PartNumber u = int j + 1" "AllParts u = int n"
    "ID8bit u = udhid" "ID16bit u = udhid + 256 * hour"
    using assms(1) by (simp_all add: u_def carries_def sms_arrays_def)
  note e = encoded_header_length [of u, unfolded u(1), OF assms(2) u(2)]
  have "carries type coding (number_part type udhid hour n j S) bs"
    by (rule carries_cong [OF assms(1)])
       (use e assms(1) in \<open>simp_all add: number_part_def u_def [symmetric] carries_def sms_arrays_def\<close>)
  moreover have enc: "UDH (number_part type udhid hour n j S) = GSM_EncodeUDHHeader u" by (simp add: number_part_def u_def)
  then have "numbered type n j (number_part type udhid hour n j S)"
    using e u assms(2) numbered_header [of u] by (cases "type = UDH_NoUDH") (simp_all add: numbered_def)
  moreover have "identified type udhid hour (number_part type udhid hour n j S)"
    using enc u assms(2) identified_header [of u] by (cases "type = UDH_NoUDH") (simp_all add: identified_def)
  ultimately show ?thesis by blast
qed

lemma multipart_parts:
  assumes "type \<noteq> UDH_UserUDH" "message_data coding data" "length data = unit_size coding * MessageLength"
    "Multi_Number M0 = 0" "length (Multi_SMS M0) = 50" "\<forall>S \<in> set (Multi_SMS M0). sms_arrays S"
  shows "(\<exists>M chunks. GSM_MakeMultiPartSMS now M0 (data @ [0, 0]) MessageLength type coding cls replace = Go M
        \<and> 1 \<le> Multi_Number M \<and> Multi_Number M \<le> 50
        \<and> length chunks = Multi_Number M \<and> concat chunks = data
        \<and> (\<forall>j < Multi_Number M. carries type coding (Multi_SMS M ! j) (chunks ! j)
              \<and> numbered type (Multi_Number M) j (Multi_SMS M ! j)
              \<and> identified type (GSM_MakeSMSIDFromTime now) (Hour now) (Multi_SMS M ! j)))
    \<or> (GSM_MakeMultiPartSMS now M0 (data @ [0, 0]) MessageLength type coding cls replace = Fail ERR_INVALIDDATA
        \<and> 50 < MessageLength)"
proof -
  have "parts_so_far type coding data M0 0" using assms(4-6) by (simp add: parts_so_far_def)
  note parts = make_parts_all [OF assms(1-3) this, of now cls "(0, 0, 0)"]
  show ?thesis
  proof (cases "make_parts now type coding cls (data @ [0, 0]) MessageLength M0 0 (0, 0, 0)")
    case (Go M)
    with parts obtain chunks where c: "1 \<le> Multi_Number M" "Multi_Number M \<le> 50" "length (Multi_SMS M) = 50"
      "length chunks = Multi_Number M" "concat chunks = data"
      "\<forall>j < Multi_Number M. carries type coding (Multi_SMS M ! j) (chunks ! j)"
      by (auto simp: all_parts_def parts_so_far_def)
    define N where "N = number_parts type (GSM_MakeSMSIDFromTime now) (Hour now) M"
    define R where "R = (if Multi_Number N = 1
      then N\<lparr>Multi_SMS := (Multi_SMS N)[0 := (Multi_SMS N ! 0)\<lparr>ReplaceMessage := replace\<rparr>]\<rparr> else N)"
    have N: "Multi_Number N = Multi_Number M" "Multi_Number R = Multi_Number M" "0 < length (Multi_SMS N)"
      using c by (simp_all add: N_def R_def number_parts_def)
    have "carries type coding (Multi_SMS N ! j) (chunks ! j) \<and> numbered type (Multi_Number M) j (Multi_SMS N ! j)
        \<and> identified type (GSM_MakeSMSIDFromTime now) (Hour now) (Multi_SMS N ! j)"
      if "j < Multi_Number M" for j
      using number_part_ok [OF c(6) [rule_format, OF that] assms(1)] that
      by (simp add: N_def number_parts_def nth_append)
    moreover have "carries type coding (S\<lparr>ReplaceMessage := replace\<rparr>) bs = carries type coding S bs"
      "numbered type n j (S\<lparr>ReplaceMessage := replace\<rparr>) = numbered type n j S"
      "identified type u h (S\<lparr>ReplaceMessage := replace\<rparr>) = identified type u h S" for S bs n j u h
      by (auto simp: numbered_def identified_def elim!: carries_cong)
    ultimately have "carries type coding (Multi_SMS R ! j) (chunks ! j) \<and> numbered type (Multi_Number M) j (Multi_SMS R ! j)
        \<and> identified type (GSM_MakeSMSIDFromTime now) (Hour now) (Multi_SMS R ! j)"
      if "j < Multi_Number M" for j
      using that N by (auto simp: R_def nth_list_update)
    moreover have "GSM_MakeMultiPartSMS now M0 (data @ [0, 0]) MessageLength type coding cls replace = Go R"
      using Go by (simp add: GSM_MakeMultiPartSMS_def N_def R_def Let_def)
    ultimately show ?thesis using c N by auto
  qed (use parts in \<open>simp_all add: GSM_MakeMultiPartSMS_def\<close>)
qed

subsection \<open>Properties\<close>

text \<open>
  Claim C3. A message split into parts is carried whole: the parts, in order, hold exactly the
  octets of the message, each fits a single SMS behind its header and can be encoded, and they
  are numbered 1 to n of n. The only failure is a message too long for fifty parts, which no
  message of at most fifty characters is.
\<close>

theorem multipart_carries_message:
  assumes "type \<noteq> UDH_UserUDH" "message_data coding data" "length data = unit_size coding * MessageLength"
    "Multi_Number M0 = 0" "length (Multi_SMS M0) = 50" "\<forall>S \<in> set (Multi_SMS M0). sms_arrays S"
  shows "(\<exists>M chunks. GSM_MakeMultiPartSMS now M0 (data @ [0, 0]) MessageLength type coding cls replace = Go M
        \<and> 1 \<le> Multi_Number M \<and> Multi_Number M \<le> 50
        \<and> length chunks = Multi_Number M \<and> concat chunks = data
        \<and> (\<forall>j < Multi_Number M. carries type coding (Multi_SMS M ! j) (chunks ! j)
              \<and> numbered type (Multi_Number M) j (Multi_SMS M ! j)))
    \<or> (GSM_MakeMultiPartSMS now M0 (data @ [0, 0]) MessageLength type coding cls replace = Fail ERR_INVALIDDATA
        \<and> 50 < MessageLength)"
  using multipart_parts [OF assms, of now cls replace] by blast

text \<open>
  The binary search of the Nokia copy length finds the longest piece of the buffer
  that still fits the frame with the text already there, escapes included.
\<close>

theorem nokia_copy_length_maximal:
  assumes "current = UnicodeLength (units_of_bytes (SMS_Text SMS))" "current \<le> 650"
  shows "GSM_UnicodeNokiaCopyLength SMS Buffer BufferLen capacity \<le> BufferLen
    \<and> (GSM_UnicodeNokiaCopyLength SMS Buffer BufferLen capacity = 0
       \<or> nokia_fits (units_of_bytes (SMS_Text SMS)) current Buffer capacity
            (GSM_UnicodeNokiaCopyLength SMS Buffer BufferLen capacity))
    \<and> (\<forall>m. GSM_UnicodeNokiaCopyLength SMS Buffer BufferLen capacity < m \<and> m \<le> BufferLen \<and> current + m \<le> 650
          \<longrightarrow> \<not> nokia_fits (units_of_bytes (SMS_Text SMS)) current Buffer capacity m)"
  using copy_length_spec [OF assms refl, of Buffer BufferLen capacity] by blast

definition blank_multi :: GSM_MultiSMSMessage where
  "blank_multi = \<lparr>Multi_Number = 0, Multi_SMS = replicate 50 blank_sms, Multi_Processed = False\<rparr>"

lemma blank_multi: "Multi_Number blank_multi = 0" "length (Multi_SMS blank_multi) = 50"
  "\<forall>S \<in> set (Multi_SMS blank_multi). sms_arrays S"
  using blank_arrays by (simp_all add: blank_multi_def)

theorem multipart_carries_message_witness:
  "\<exists>M chunks. GSM_MakeMultiPartSMS zerodt blank_multi (bytes_of_units [0x48, 0x69] @ [0, 0]) 2
      UDH_ConcatenatedMessages SMS_Coding_Unicode_No_Compression (-1) 0 = Go M
    \<and> concat chunks = bytes_of_units [0x48, 0x69]"
proof -
  have d: "message_data SMS_Coding_Unicode_No_Compression (bytes_of_units [0x48, 0x69])"
    unfolding message_data_def by (intro disjI2 conjI exI [of _ "[0x48, 0x69]"]) simp_all
  have "length (bytes_of_units [0x48, 0x69]) = unit_size SMS_Coding_Unicode_No_Compression * 2" by (simp add: unit_size_def)
  from multipart_carries_message [OF _ d this blank_multi, of UDH_ConcatenatedMessages zerodt "-1" 0] show ?thesis by auto
qed

theorem nokia_copy_length_maximal_witness:
  "GSM_UnicodeNokiaCopyLength blank_sms [0x41, 0x42] 2 1 \<le> 2"
  using nokia_copy_length_maximal [of 0 blank_sms "[0x41, 0x42]" 2 1]
  by (simp add: UnicodeLength_cstr blank_sms_def numeral_eq_Suc unit_of_def cstr_Cons)

end
