(* ===== verification/Protocol.thy ===== *)
theory Protocol imports Interfaces begin

text \<open>
  What the protocol layers of \<^verbatim>\<open>libgammu/protocol/\<close> share (\<^verbatim>\<open>protocol.h\<close>): receiver states, the
  message under construction and the events a received byte can cause. A heap buffer is the list
  of its cells, \<open>[]\<close> for \<^verbatim>\<open>NULL\<close>; the cells a fresh allocation holds are taken as 0.
\<close>

datatype GSM_Protocol_RXState =
    RX_Sync | RX_GetDestination | RX_GetSource | RX_GetType | RX_GetLength1 | RX_GetLength2 | RX_GetMessage

record GSM_Protocol_Message =
  Msg_Length :: nat
  Msg_Count :: nat
  Msg_Type :: int
  Source :: byte
  Destination :: byte
  Buffer :: "byte list"
  BufferUsed :: nat
  CheckSum0 :: byte
  CheckSum1 :: byte

definition blank_message :: GSM_Protocol_Message where
  "blank_message = \<lparr>Msg_Length = 0, Msg_Count = 0, Msg_Type = 0, Source = 0, Destination = 0, Buffer = [], BufferUsed = 0,
     CheckSum0 = 0, CheckSum1 = 0\<rparr>"

text \<open>The requests of \<^verbatim>\<open>gsmreply.h\<close> the modelled code tells apart; the others by their number.\<close>

datatype GSM_Phone_RequestID =
  ID_None | ID_All | ID_Reset | ID_IncomingFrame | ID_EachFrame | ID_GetNetworkInfo | ID_SetOBEX | ID_DialVoice
  | ID_Other nat

text \<open>
  What a received octet can cause: a delivery to \<^verbatim>\<open>DispatchMessage\<close> with type and payload, octets
  sent back, a new initialisation of the link, and a read or write outside a buffer.
\<close>

datatype rx_event = Deliver int "byte list" | Send "byte list" | Reinit | OutOfRange

lemma concat_deliveries [simp]:
  "concat (map (\<lambda>(type, payload). [Deliver (uint type) payload]) ms) = map (\<lambda>(type, payload). Deliver (uint type) payload) ms"
  by (induction ms) auto

text \<open>\<^verbatim>\<open>realloc\<close> keeps the old cells; requests of \<^verbatim>\<open>PTRDIFF_MAX\<close> octets or more fail.\<close>

definition reallocate :: "nat \<Rightarrow> byte list \<Rightarrow> byte list" where
  "reallocate n old = (if n < 2 ^ 63 then take n old @ replicate (n - length old) 0 else [])"

definition malloc :: "nat \<Rightarrow> byte list" where
  "malloc n = reallocate n []"

lemma length_reallocate [simp]: "n < 2 ^ 63 \<Longrightarrow> length (reallocate n old) = n"
  by (simp add: reallocate_def min_def)

lemma length_malloc [simp]: "n < 2 ^ 63 \<Longrightarrow> length (malloc n) = n"
  by (simp add: malloc_def)

text \<open>\<^verbatim>\<open>Msg.Buffer[Msg.Count] = rx_char; Msg.Count++\<close>.\<close>

definition store_byte :: "GSM_Protocol_Message \<Rightarrow> byte \<Rightarrow> GSM_Protocol_Message \<times> rx_event list" where
  "store_byte m b =
     (m\<lparr>Buffer := (Buffer m)[Msg_Count m := b], Msg_Count := Msg_Count m + 1\<rparr>,
      if Msg_Count m < length (Buffer m) then [] else [OutOfRange])"

definition deliver :: "GSM_Protocol_Message \<Rightarrow> rx_event" where
  "deliver m = Deliver (Msg_Type m) (take (Msg_Length m) (Buffer m))"

text \<open>The two octets of a length, most significant first.\<close>

definition length_octets :: "nat \<Rightarrow> byte list" where
  "length_octets n = [word_of_nat (n div 256), word_of_nat (n mod 256)]"

lemma length_octets_value:
  "n < 65536 \<Longrightarrow> unat (word_of_nat (n div 256) :: byte) * 256 + unat (word_of_nat (n mod 256) :: byte) = n"
proof -
  assume "n < 65536"
  then have "n div 256 < 256" by (simp add: less_mult_imp_div_less)
  then show ?thesis by (simp add: unat_of_nat)
qed

text \<open>Sending succeeds when the device took every octet.\<close>

definition write_result :: "nat \<Rightarrow> byte list \<Rightarrow> GSM_Error" where
  "write_result sent octets = (if sent \<noteq> length octets then ERR_DEVICEWRITEERROR else ERR_NONE)"

text \<open>
  Calls of the device functions, with the result looked at or not; \<open>dev\<close> is the device, which
  answers a call with an error code. The first error that is looked at ends a sequence of calls.
\<close>

datatype device_op =
  DeviceSetParity bool | DeviceSetDtrRts bool bool | DeviceSetSpeed nat | WriteDevice "byte list" | ReadReply

datatype device_call = Checked device_op | Unchecked device_op

fun run_calls :: "(device_op \<Rightarrow> GSM_Error) \<Rightarrow> device_call list \<Rightarrow> GSM_Error" where
  "run_calls dev [] = ERR_NONE"
| "run_calls dev (Checked c # cs) = (if dev c \<noteq> ERR_NONE then dev c else run_calls dev cs)"
| "run_calls dev (Unchecked c # cs) = run_calls dev cs"

lemma run_calls_ok: "run_calls dev cs = ERR_NONE \<longleftrightarrow> (\<forall>c. Checked c \<in> set cs \<longrightarrow> dev c = ERR_NONE)"
  by (induction dev cs rule: run_calls.induct) auto

definition crlf :: string where "crlf = [CHR 0x0D, CHR 0x0A]"

subsection \<open>Checksums\<close>

text \<open>
  The two checksums of a frame are the exclusive or of its octets at even and at odd places:
  \<^verbatim>\<open>for (i = 0; i < length; i += 2) checksum ^= buffer[i]\<close> and the same from 1.
\<close>

fun xor_even :: "byte list \<Rightarrow> byte" where
  "xor_even [] = 0"
| "xor_even [b] = b"
| "xor_even (b # c # bs) = b XOR xor_even bs"

definition xor_odd :: "byte list \<Rightarrow> byte" where
  "xor_odd bs = xor_even (tl bs)"

lemma xor_odd_simps [simp]:
  "xor_odd [] = 0" "xor_odd [b] = 0" "xor_odd (b # c # bs) = c XOR xor_odd bs"
  by (cases bs; simp add: xor_odd_def)+

lemma xor_even_append: "even (length as) \<Longrightarrow> xor_even (as @ bs) = xor_even as XOR xor_even bs"
  by (induction as rule: xor_even.induct) (simp_all add: xor.assoc)

lemma xor_odd_append: "even (length as) \<Longrightarrow> xor_odd (as @ bs) = xor_odd as XOR xor_odd bs"
  by (induction as rule: xor_even.induct) (simp_all add: xor.assoc)

lemma xor_even_snoc: "xor_even (as @ [b]) = (if even (length as) then xor_even as XOR b else xor_even as)"
  by (induction as rule: xor_even.induct) (simp_all add: xor.assoc)

lemma xor_odd_snoc: "xor_odd (as @ [b]) = (if even (length as) then xor_odd as else xor_odd as XOR b)"
  by (induction as rule: xor_even.induct) (simp_all add: xor.assoc)

fun xor_all :: "byte list \<Rightarrow> byte" where
  "xor_all [] = 0"
| "xor_all (b # bs) = b XOR xor_all bs"

lemma xor_all_append: "xor_all (as @ bs) = xor_all as XOR xor_all bs"
  by (induction as) (simp_all add: xor.assoc)

lemma xor_all_split: "xor_all bs = xor_even bs XOR xor_odd bs"
  by (induction bs rule: xor_even.induct) (simp_all add: xor.assoc xor.commute xor.left_commute)

lemma xor_all_update:
  "i < length bs \<Longrightarrow> xor_all (bs[i := b]) = xor_all bs XOR (bs ! i) XOR b"
  by (induction bs arbitrary: i) (auto simp: nth_Cons' list_update.simps xor.assoc xor.commute xor.left_commute split: nat.splits)

text \<open>The checksums appended by the writers: the second loop already runs over the first checksum.\<close>

definition with_checksums :: "byte list \<Rightarrow> byte list" where
  "with_checksums frame = (let f = frame @ [xor_even frame] in f @ [xor_odd f])"

lemma with_checksums_even:
  "even (length frame) \<Longrightarrow> with_checksums frame = frame @ [xor_even frame, xor_odd frame]"
  by (simp add: with_checksums_def xor_odd_snoc)

text \<open>\<^verbatim>\<open>Msg.CheckSum[Msg.Count & 1] ^= rx_char\<close>.\<close>

definition sum_byte :: "GSM_Protocol_Message \<Rightarrow> byte \<Rightarrow> GSM_Protocol_Message" where
  "sum_byte m b =
     (if even (Msg_Count m) then m\<lparr>CheckSum0 := CheckSum0 m XOR b\<rparr> else m\<lparr>CheckSum1 := CheckSum1 m XOR b\<rparr>)"

subsection \<open>Collecting a payload\<close>

text \<open>The buffer after the octets \<open>cs\<close> have been stored from the start on.\<close>

definition filled :: "GSM_Protocol_Message \<Rightarrow> byte list \<Rightarrow> GSM_Protocol_Message" where
  "filled m cs = m\<lparr>Buffer := cs @ drop (length cs) (Buffer m), Msg_Count := length cs\<rparr>"

lemma filled_Nil: "Msg_Count m = 0 \<Longrightarrow> filled m [] = m"
  by (simp add: filled_def)

lemma store_filled:
  "length cs < length (Buffer m) \<Longrightarrow> store_byte (filled m cs) b = (filled m (cs @ [b]), [])"
  by (simp add: store_byte_def filled_def Cons_nth_drop_Suc [symmetric])

lemma filled_simps [simp]:
  "Msg_Count (filled m cs) = length cs" "Msg_Length (filled m cs) = Msg_Length m" "Msg_Type (filled m cs) = Msg_Type m"
  "length cs \<le> length (Buffer m) \<Longrightarrow> length (Buffer (filled m cs)) = length (Buffer m)"
  "n \<le> length cs \<Longrightarrow> take n (Buffer (filled m cs)) = take n cs"
  "i < length cs \<Longrightarrow> Buffer (filled m cs) ! i = cs ! i"
  "CheckSum0 (filled m cs) = CheckSum0 m" "CheckSum1 (filled m cs) = CheckSum1 m"
  "BufferUsed (filled m cs) = BufferUsed m" "Source (filled m cs) = Source m" "Destination (filled m cs) = Destination m"
  by (simp_all add: filled_def nth_append)

text \<open>The same with checksums.\<close>

definition summed :: "GSM_Protocol_Message \<Rightarrow> byte list \<Rightarrow> GSM_Protocol_Message" where
  "summed m cs = (filled m cs)\<lparr>CheckSum0 := CheckSum0 m XOR xor_even cs, CheckSum1 := CheckSum1 m XOR xor_odd cs\<rparr>"

lemma summed_Nil: "Msg_Count m = 0 \<Longrightarrow> summed m [] = m"
  by (simp add: summed_def filled_Nil)

lemma store_summed:
  "length cs < length (Buffer m) \<Longrightarrow> store_byte (sum_byte (summed m cs) b) b = (summed m (cs @ [b]), [])"
  by (simp add: summed_def sum_byte_def store_byte_def filled_def Cons_nth_drop_Suc [symmetric]
      xor_even_snoc xor_odd_snoc xor.assoc)

lemma summed_simps [simp]:
  "Msg_Count (summed m cs) = length cs" "Msg_Length (summed m cs) = Msg_Length m" "Msg_Type (summed m cs) = Msg_Type m"
  "Buffer (summed m cs) = Buffer (filled m cs)" "BufferUsed (summed m cs) = BufferUsed m"
  "CheckSum0 (summed m cs) = CheckSum0 m XOR xor_even cs" "CheckSum1 (summed m cs) = CheckSum1 m XOR xor_odd cs"
  "Source (summed m cs) = Source m" "Destination (summed m cs) = Destination m"
  by (simp_all add: summed_def)

text \<open>
  The receivers start with the sum of the whole header in the first one; they accept exactly when
  all octets of the frame together give zero.
\<close>

lemma word_eq_xor: "a = b \<longleftrightarrow> a XOR b = (0 :: byte)"
  by (metis xor.assoc xor.right_neutral xor_self_eq)

lemma sums_agree: "x XOR xor_even cs = xor_odd cs \<longleftrightarrow> x XOR xor_all cs = 0"
  by (subst word_eq_xor) (simp add: xor_all_split xor.assoc)

lemma written_sum_zero:
  "even (length frame) \<Longrightarrow> xor_all (frame @ [xor_even frame, xor_odd frame]) = 0"
  by (simp add: xor_all_append) (simp add: xor_all_split xor.assoc xor.commute xor.left_commute)

lemma run_collect:
  assumes "\<And>cs b. length cs + 1 < n \<Longrightarrow> rx (st cs) b = (st (cs @ [b]), [])"
  shows "length cs + length bs < n \<Longrightarrow> run rx (st cs) bs = (st (cs @ bs), [])"
  using assms
proof (induction bs arbitrary: cs)
  case (Cons b bs)
  then have "rx (st cs) b = (st (cs @ [b]), [])" "run rx (st (cs @ [b])) bs = (st ((cs @ [b]) @ bs), [])"
    by simp_all
  then show ?case by simp
qed simp

lemma run_collect_all:
  assumes "\<And>cs b. length cs + 1 < n \<Longrightarrow> rx (st cs) b = (st (cs @ [b]), [])"
    "\<And>cs b. length cs + 1 = n \<Longrightarrow> rx (st cs) b = fin (cs @ [b])"
    "length bs = n" "0 < n"
  shows "run rx (st []) bs = fin bs"
proof -
  obtain cs b where bs: "bs = cs @ [b]" using assms(3,4) by (cases bs rule: rev_cases) auto
  then have "run rx (st []) cs = (st cs, [])"
    using run_collect [where n = n and rx = rx and st = st and cs = "[]", OF assms(1)] assms(3) by simp
  then show ?thesis using bs assms(2) [of cs b] assms(3) by (simp add: run_append split: prod.splits)
qed

end
