(* ===== verification/Phonet.thy ===== *)
theory Phonet imports Protocol begin

text \<open>
  The PHONET layer of \<^verbatim>\<open>libgammu/protocol/nokia/phonet.c\<close>: frames of identifier, destination,
  source, type, length and payload, over a link without errors.
\<close>

record GSM_Protocol_PHONETData =
  Phonet_RXState :: GSM_Protocol_RXState
  Phonet_Msg :: GSM_Protocol_Message
  frame_id :: byte
  device_pc :: byte
  device_phone :: byte

definition PHONET_WriteMessage ::
  "GSM_Protocol_PHONETData \<Rightarrow> byte list \<Rightarrow> byte \<Rightarrow> byte list" where
  "PHONET_WriteMessage d MsgBuffer MsgType =
     [frame_id d, device_phone d, device_pc d, MsgType] @ length_octets (length MsgBuffer) @ MsgBuffer"

definition PHONET_StateMachine ::
  "GSM_Protocol_PHONETData \<Rightarrow> byte \<Rightarrow> GSM_Protocol_PHONETData \<times> rx_event list" where
  "PHONET_StateMachine d rx_char =
     (let m = Phonet_Msg d in
      case Phonet_RXState d of
        RX_GetMessage \<Rightarrow>
          (let (m1, es) = store_byte m rx_char in
           if Msg_Count m1 \<noteq> Msg_Length m1 then (d\<lparr>Phonet_Msg := m1\<rparr>, es)
           else (d\<lparr>Phonet_Msg := m1\<lparr>Buffer := [], Msg_Length := 0\<rparr>, Phonet_RXState := RX_Sync\<rparr>, es @ [deliver m1]))
      | RX_GetLength2 \<Rightarrow>
          (let n = Msg_Length m + unat rx_char in
           (d\<lparr>Phonet_Msg := m\<lparr>Msg_Length := n, Buffer := malloc n\<rparr>, Phonet_RXState := RX_GetMessage\<rparr>, []))
      | RX_GetLength1 \<Rightarrow>
          (d\<lparr>Phonet_Msg := m\<lparr>Msg_Length := unat rx_char * 256\<rparr>, Phonet_RXState := RX_GetLength2\<rparr>, [])
      | RX_GetType \<Rightarrow> (d\<lparr>Phonet_Msg := m\<lparr>Msg_Type := uint rx_char\<rparr>, Phonet_RXState := RX_GetLength1\<rparr>, [])
      | RX_GetSource \<Rightarrow>
          (if rx_char \<noteq> device_phone d then (d\<lparr>Phonet_RXState := RX_Sync\<rparr>, [])
           else (d\<lparr>Phonet_Msg := m\<lparr>Source := rx_char\<rparr>, Phonet_RXState := RX_GetType\<rparr>, []))
      | RX_GetDestination \<Rightarrow>
          (if rx_char \<noteq> device_pc d then (d\<lparr>Phonet_RXState := RX_Sync\<rparr>, [])
           else (d\<lparr>Phonet_Msg := m\<lparr>Destination := rx_char\<rparr>, Phonet_RXState := RX_GetSource\<rparr>, []))
      | RX_Sync \<Rightarrow>
          (if rx_char \<noteq> frame_id d then (d, [])
           else (d\<lparr>Phonet_Msg := m\<lparr>Msg_Count := 0\<rparr>, Phonet_RXState := RX_GetDestination\<rparr>, [])))"

text \<open>The identifiers of the connection types, and the handshake of the Bluetooth ones.\<close>

datatype phonet_connection = Phonet_Bluetooth | Phonet_DKU2 | Phonet_IrDA

definition phonet_ids :: "phonet_connection \<Rightarrow> byte \<times> byte \<times> byte" where
  "phonet_ids c =
     (case c of Phonet_Bluetooth \<Rightarrow> (0x19, 0x00, 0x10) | Phonet_DKU2 \<Rightarrow> (0x1b, 0x00, 0x0c)
      | Phonet_IrDA \<Rightarrow> (0x14, 0x00, 0x0c))"

definition PHONET_Initialise :: "phonet_connection \<Rightarrow> GSM_Protocol_PHONETData \<Rightarrow> GSM_Protocol_PHONETData" where
  "PHONET_Initialise c d =
     (let (fid, phone, pc) = phonet_ids c in
      d\<lparr>Phonet_Msg := (Phonet_Msg d)\<lparr>Msg_Length := 0, Buffer := []\<rparr>, Phonet_RXState := RX_Sync,
        frame_id := fid, device_phone := phone, device_pc := pc\<rparr>)"

text \<open>The request sent at start, and the check of the seven octets answered.\<close>

definition phonet_hello :: "GSM_Protocol_PHONETData \<Rightarrow> byte list" where
  "phonet_hello d = [frame_id d, device_phone d, device_pc d, 0xD0, 0x00, 0x01, 0x04]"

definition phonet_check_answer :: "GSM_Protocol_PHONETData \<Rightarrow> byte list \<Rightarrow> GSM_Error" where
  "phonet_check_answer d req =
     (if req ! 0 \<noteq> frame_id d \<or> req ! 1 \<noteq> device_pc d \<or> req ! 2 \<noteq> device_phone d \<or> req ! 3 \<noteq> 0xD0
         \<or> req ! 4 \<noteq> 0x00 \<or> req ! 5 \<noteq> 0x01 \<or> req ! 6 \<noteq> 0x05
      then ERR_UNKNOWN else ERR_NONE)"

subsection \<open>Deliveries\<close>

text \<open>The other end of the link: the same frames with the two devices exchanged.\<close>

definition phonet_peer :: "GSM_Protocol_PHONETData \<Rightarrow> GSM_Protocol_PHONETData" where
  "phonet_peer d = d\<lparr>device_phone := device_pc d, device_pc := device_phone d\<rparr>"

definition phonet_sync :: "byte \<Rightarrow> byte \<Rightarrow> byte \<Rightarrow> GSM_Protocol_PHONETData \<Rightarrow> bool" where
  "phonet_sync fid pc phone d \<longleftrightarrow>
     Phonet_RXState d = RX_Sync \<and> frame_id d = fid \<and> device_pc d = pc \<and> device_phone d = phone"

definition phonet_frame :: "byte \<Rightarrow> byte \<Rightarrow> byte \<Rightarrow> byte \<times> byte list \<Rightarrow> byte list" where
  "phonet_frame fid dst src = (\<lambda>(type, payload). [fid, dst, src, type] @ length_octets (length payload) @ payload)"

definition sized :: "byte \<times> byte list \<Rightarrow> bool" where
  "sized m \<longleftrightarrow> 0 < length (snd m) \<and> length (snd m) < 65536"

lemma write_is_frame:
  "PHONET_WriteMessage d payload type = phonet_frame (frame_id d) (device_phone d) (device_pc d) (type, payload)"
  by (simp add: PHONET_WriteMessage_def phonet_frame_def)

lemma phonet_collect:
  assumes "Phonet_RXState d = RX_GetMessage" "Msg_Count (Phonet_Msg d) = 0" "length bs = Msg_Length (Phonet_Msg d)"
    "length bs \<le> length (Buffer (Phonet_Msg d))" "0 < length bs"
  shows "run PHONET_StateMachine d bs =
    (let m = filled (Phonet_Msg d) bs in
     (d\<lparr>Phonet_Msg := m\<lparr>Buffer := [], Msg_Length := 0\<rparr>, Phonet_RXState := RX_Sync\<rparr>, [deliver m]))"
proof -
  define st where "st cs = d\<lparr>Phonet_Msg := filled (Phonet_Msg d) cs\<rparr>" for cs
  have "d = st []" using assms(2) by (simp add: st_def filled_Nil)
  moreover have "run PHONET_StateMachine (st []) bs =
    (let m = filled (Phonet_Msg d) bs in
     (d\<lparr>Phonet_Msg := m\<lparr>Buffer := [], Msg_Length := 0\<rparr>, Phonet_RXState := RX_Sync\<rparr>, [deliver m]))"
    by (rule run_collect_all [where n = "length bs"])
       (use assms in \<open>auto simp: st_def PHONET_StateMachine_def store_filled Let_def\<close>)
  ultimately show ?thesis by simp
qed

interpretation phonet: framing_resync PHONET_StateMachine "phonet_frame fid pc phone" "\<lambda>(type, payload). [Deliver (uint type) payload]"
    "phonet_sync fid pc phone" sized "\<lambda>b. b \<noteq> fid"
  for fid pc phone
proof
  fix st :: GSM_Protocol_PHONETData and m :: "byte \<times> byte list"
  assume sync: "phonet_sync fid pc phone st" and ok: "sized m"
  obtain type payload where m: "m = (type, payload)" by (cases m)
  define n where "n = length payload"
  have n: "0 < n" "n < 65536" using ok m by (simp_all add: sized_def n_def)
  define d where "d = st\<lparr>Phonet_Msg := (Phonet_Msg st)\<lparr>Msg_Count := 0, Destination := pc, Source := phone, Msg_Type := uint type,
      Msg_Length := n, Buffer := malloc n\<rparr>, Phonet_RXState := RX_GetMessage\<rparr>"
  have h: "run PHONET_StateMachine st ([fid, pc, phone, type] @ length_octets n) = (d, [])"
    using sync length_octets_value [OF n(2)]
    by (simp add: d_def length_octets_def phonet_sync_def PHONET_StateMachine_def Let_def)
  have "run PHONET_StateMachine d payload =
    (let m = filled (Phonet_Msg d) payload in
     (d\<lparr>Phonet_Msg := m\<lparr>Buffer := [], Msg_Length := 0\<rparr>, Phonet_RXState := RX_Sync\<rparr>, [deliver m]))"
    by (rule phonet_collect) (use n in \<open>auto simp: d_def n_def\<close>)
  then have p: "run PHONET_StateMachine st (phonet_frame fid pc phone m) =
    (let m = filled (Phonet_Msg d) payload in
     (d\<lparr>Phonet_Msg := m\<lparr>Buffer := [], Msg_Length := 0\<rparr>, Phonet_RXState := RX_Sync\<rparr>, [deliver m]))"
    using run_append [of PHONET_StateMachine st "[fid, pc, phone, type] @ length_octets n" payload] h
    by (simp add: phonet_frame_def m n_def [symmetric])
  show "snd (run PHONET_StateMachine st (phonet_frame fid pc phone m)) = (case m of (type, payload) \<Rightarrow> [Deliver (uint type) payload])"
    unfolding p by (simp add: m deliver_def Let_def) (simp add: d_def n_def)
  show "phonet_sync fid pc phone (fst (run PHONET_StateMachine st (phonet_frame fid pc phone m)))"
    unfolding p using sync by (simp add: phonet_sync_def Let_def d_def)
next
  fix st :: GSM_Protocol_PHONETData and b :: byte
  assume "phonet_sync fid pc phone st" "b \<noteq> fid"
  then show "snd (PHONET_StateMachine st b) = [] \<and> phonet_sync fid pc phone (fst (PHONET_StateMachine st b))"
    by (simp add: phonet_sync_def PHONET_StateMachine_def Let_def)
qed

lemma phonet_init_sync: "phonet_sync (fst (phonet_ids c)) (snd (snd (phonet_ids c))) (fst (snd (phonet_ids c))) (PHONET_Initialise c d)"
  by (simp add: phonet_sync_def PHONET_Initialise_def split_beta)

text \<open>
  After the initialisation of any connection type the receiver skips octets until the
  identifier of the connection, and then delivers the messages the peer writes, each once, in
  order, with its type and payload.
\<close>

theorem phonet_delivers:
  fixes d :: GSM_Protocol_PHONETData
  assumes "d0 = PHONET_Initialise c d" "\<forall>b \<in> set junk. b \<noteq> frame_id d0"
    "\<forall>(type, payload) \<in> set ms. 0 < length payload \<and> length payload < 65536"
  shows "snd (run PHONET_StateMachine d0
      (junk @ concat (map (\<lambda>(type, payload). PHONET_WriteMessage (phonet_peer d0) payload type) ms)))
    = map (\<lambda>(type, payload). Deliver (uint type) payload) ms"
proof -
  define fid phone pc where "fid = frame_id d0" and "phone = device_phone d0" and "pc = device_pc d0"
  have sync: "phonet_sync fid pc phone d0"
    by (simp add: assms(1) fid_def phone_def pc_def phonet_sync_def PHONET_Initialise_def split_beta)
  have f: "(\<lambda>(type, payload). PHONET_WriteMessage (phonet_peer d0) payload type) = phonet_frame fid pc phone"
    by (auto simp: fun_eq_iff write_is_frame phonet_peer_def fid_def phone_def pc_def)
  have "snd (run PHONET_StateMachine d0 (junk @ concat (map (phonet_frame fid pc phone) ms)))
      = concat (map (\<lambda>(type, payload). [Deliver (uint type) payload]) ms)"
    by (rule phonet.noise_then_stream [OF sync]) (use assms(2,3) in \<open>auto simp: sized_def fid_def\<close>)
  then show ?thesis unfolding f by simp
qed

definition phonet_blank :: GSM_Protocol_PHONETData where
  "phonet_blank = \<lparr>Phonet_RXState = RX_GetType, Phonet_Msg = blank_message, frame_id = 0, device_pc = 0, device_phone = 0\<rparr>"

theorem phonet_delivers_witness:
  "snd (run PHONET_StateMachine (PHONET_Initialise Phonet_DKU2 phonet_blank)
      ([0x55, 0x00] @ PHONET_WriteMessage (phonet_peer (PHONET_Initialise Phonet_DKU2 phonet_blank)) [7, 8, 9] 0x14))
    = [Deliver 0x14 [7, 8, 9]]"
  using phonet_delivers [of "PHONET_Initialise Phonet_DKU2 phonet_blank" Phonet_DKU2 phonet_blank "[0x55, 0x00]" "[(0x14, [7, 8, 9])]"]
  by (simp add: PHONET_Initialise_def phonet_ids_def)

text \<open>A frame without payload: the buffer has no octets, but the next octet is stored.\<close>

lemma phonet_empty_frame:
  "snd (run PHONET_StateMachine (PHONET_Initialise Phonet_IrDA d) [0x14, 0x0c, 0x00, type, 0, 0, b]) = [OutOfRange]"
  by (simp add: PHONET_Initialise_def phonet_ids_def PHONET_StateMachine_def Let_def malloc_def reallocate_def store_byte_def)

end
