(* ===== verification/Obex.thy ===== *)
theory Obex imports Protocol begin

text \<open>
  The OBEX layer of \<^verbatim>\<open>libgammu/protocol/obex/obex.c\<close>: blocks of identifier, length and data. The
  length counts the three octets before the data.
\<close>

record GSM_Protocol_OBEXData =
  Obex_Msg :: GSM_Protocol_Message
  Obex_RXState :: GSM_Protocol_RXState

definition OBEXAddBlock :: "byte list \<Rightarrow> byte \<Rightarrow> byte list option \<Rightarrow> nat \<Rightarrow> byte list" where
  "OBEXAddBlock old ID AddData AddLength =
     old @ [ID] @ length_octets (AddLength + 3) @ (case AddData of None \<Rightarrow> [] | Some bs \<Rightarrow> take AddLength bs)"

definition OBEX_WriteMessage :: "byte list \<Rightarrow> byte \<Rightarrow> byte list" where
  "OBEX_WriteMessage MsgBuffer type = OBEXAddBlock [] type (Some MsgBuffer) (length MsgBuffer)"

text \<open>\<^verbatim>\<open>Msg.Length\<close> is a \<^verbatim>\<open>size_t\<close>: a length field below 3 wraps around.\<close>

definition obex_length :: "nat \<Rightarrow> nat" where
  "obex_length n = nat ((int n - 3) mod 2 ^ 64)"

definition OBEX_StateMachine ::
  "GSM_Protocol_OBEXData \<Rightarrow> byte \<Rightarrow> GSM_Protocol_OBEXData \<times> rx_event list" where
  "OBEX_StateMachine d rx_char =
     (let m = Obex_Msg d in
      case Obex_RXState d of
        RX_Sync \<Rightarrow> (d\<lparr>Obex_Msg := m\<lparr>Msg_Type := uint rx_char\<rparr>, Obex_RXState := RX_GetLength1\<rparr>, [])
      | RX_GetLength1 \<Rightarrow> (d\<lparr>Obex_Msg := m\<lparr>Msg_Length := unat rx_char * 256\<rparr>, Obex_RXState := RX_GetLength2\<rparr>, [])
      | RX_GetLength2 \<Rightarrow>
          (let n = obex_length (Msg_Length m + unat rx_char); m1 = m\<lparr>Msg_Length := n, Msg_Count := 0\<rparr> in
           if n = 0 then (d\<lparr>Obex_Msg := m1, Obex_RXState := RX_Sync\<rparr>, [deliver m1])
           else
             (d\<lparr>Obex_Msg := (if BufferUsed m1 < n then m1\<lparr>BufferUsed := n, Buffer := reallocate n (Buffer m1)\<rparr> else m1),
                Obex_RXState := RX_GetMessage\<rparr>, []))
      | RX_GetMessage \<Rightarrow>
          (let (m1, es) = store_byte m rx_char in
           if Msg_Count m1 = Msg_Length m1 then (d\<lparr>Obex_Msg := m1, Obex_RXState := RX_Sync\<rparr>, es @ [deliver m1])
           else (d\<lparr>Obex_Msg := m1\<rparr>, es))
      | _ \<Rightarrow> (d, []))"

definition OBEX_Initialise :: "GSM_Protocol_OBEXData \<Rightarrow> GSM_Protocol_OBEXData" where
  "OBEX_Initialise d =
     d\<lparr>Obex_Msg := (Obex_Msg d)\<lparr>BufferUsed := 0, Buffer := [], Msg_Length := 0\<rparr>, Obex_RXState := RX_Sync\<rparr>"

subsection \<open>Deliveries\<close>

text \<open>Between messages; the buffer has the size it is said to have.\<close>

definition obex_sync :: "GSM_Protocol_OBEXData \<Rightarrow> bool" where
  "obex_sync d \<longleftrightarrow> Obex_RXState d = RX_Sync \<and> BufferUsed (Obex_Msg d) \<le> length (Buffer (Obex_Msg d))"

definition obex_sized :: "byte \<times> byte list \<Rightarrow> bool" where
  "obex_sized = (\<lambda>(type, payload). length payload + 3 < 65536)"

lemma obex_init_sync: "obex_sync (OBEX_Initialise d)"
  by (simp add: obex_sync_def OBEX_Initialise_def)

lemma obex_length_ok [simp]: "obex_length (Suc (Suc (Suc n))) = n" if "n < 2 ^ 64"
  using that by (simp add: obex_length_def)

lemma obex_collect:
  assumes "Obex_RXState d = RX_GetMessage" "Msg_Count (Obex_Msg d) = 0" "length bs = Msg_Length (Obex_Msg d)"
    "length bs \<le> length (Buffer (Obex_Msg d))" "0 < length bs"
  shows "run OBEX_StateMachine d bs =
    (let m = filled (Obex_Msg d) bs in (d\<lparr>Obex_Msg := m, Obex_RXState := RX_Sync\<rparr>, [deliver m]))"
proof -
  define st where "st cs = d\<lparr>Obex_Msg := filled (Obex_Msg d) cs\<rparr>" for cs
  have "d = st []" using assms(2) by (simp add: st_def filled_Nil)
  moreover have "run OBEX_StateMachine (st []) bs =
    (let m = filled (Obex_Msg d) bs in (d\<lparr>Obex_Msg := m, Obex_RXState := RX_Sync\<rparr>, [deliver m]))"
    by (rule run_collect_all [where n = "length bs"])
       (use assms in \<open>auto simp: st_def OBEX_StateMachine_def store_filled Let_def\<close>)
  ultimately show ?thesis by simp
qed

interpretation obex: framing OBEX_StateMachine "\<lambda>(type, payload). OBEX_WriteMessage payload type"
    "\<lambda>(type, payload). [Deliver (uint type) payload]" obex_sync obex_sized
proof
  fix st :: GSM_Protocol_OBEXData and m :: "byte \<times> byte list"
  assume sync: "obex_sync st" and ok: "obex_sized m"
  obtain type payload where m: "m = (type, payload)" by (cases m)
  define n where "n = length payload"
  have n: "n + 3 < 65536" using ok m by (simp add: obex_sized_def n_def)
  have f: "(case m of (type, payload) \<Rightarrow> OBEX_WriteMessage payload type) = [type] @ length_octets (n + 3) @ payload"
    by (simp add: m OBEX_WriteMessage_def OBEXAddBlock_def n_def)
  have len: "unat (word_of_nat ((n + 3) div 256) :: byte) * 256 + unat (word_of_nat ((n + 3) mod 256) :: byte) = n + 3"
    using length_octets_value [OF n] .
  have "snd (run OBEX_StateMachine st ([type] @ length_octets (n + 3) @ payload)) = [Deliver (uint type) payload]
    \<and> obex_sync (fst (run OBEX_StateMachine st ([type] @ length_octets (n + 3) @ payload)))"
  proof (cases "n = 0")
    case True
    then show ?thesis using sync n_def len
      by (simp add: OBEX_StateMachine_def obex_sync_def length_octets_def Let_def deliver_def obex_length_def)
  next
    case False
    define m0 where "m0 = (Obex_Msg st)\<lparr>Msg_Type := uint type, Msg_Length := n, Msg_Count := 0\<rparr>"
    define d where "d = st\<lparr>Obex_Msg := (if BufferUsed m0 < n then m0\<lparr>BufferUsed := n, Buffer := reallocate n (Buffer m0)\<rparr> else m0),
      Obex_RXState := RX_GetMessage\<rparr>"
    have h: "run OBEX_StateMachine st ([type] @ length_octets (n + 3)) = (d, [])"
      using sync len False n
      by (simp add: d_def m0_def length_octets_def obex_sync_def OBEX_StateMachine_def Let_def obex_length_def)
    have b: "n \<le> length (Buffer (Obex_Msg d))" "Msg_Length (Obex_Msg d) = n" "Msg_Count (Obex_Msg d) = 0"
        "Obex_RXState d = RX_GetMessage" "Msg_Type (Obex_Msg d) = uint type"
        "BufferUsed (Obex_Msg d) \<le> length (Buffer (Obex_Msg d))"
      using sync n by (auto simp: d_def m0_def obex_sync_def)
    have "run OBEX_StateMachine d payload =
        (let m = filled (Obex_Msg d) payload in (d\<lparr>Obex_Msg := m, Obex_RXState := RX_Sync\<rparr>, [deliver m]))"
      by (rule obex_collect) (use b False n_def in auto)
    then have p: "run OBEX_StateMachine st ([type] @ length_octets (n + 3) @ payload) =
        (let m = filled (Obex_Msg d) payload in (d\<lparr>Obex_Msg := m, Obex_RXState := RX_Sync\<rparr>, [deliver m]))"
      using run_append [of OBEX_StateMachine st "[type] @ length_octets (n + 3)" payload] h by simp
    show ?thesis unfolding p using b n_def by (simp add: deliver_def obex_sync_def Let_def)
  qed
  then show "snd (run OBEX_StateMachine st (case m of (type, payload) \<Rightarrow> OBEX_WriteMessage payload type)) =
      (case m of (type, payload) \<Rightarrow> [Deliver (uint type) payload])"
    "obex_sync (fst (run OBEX_StateMachine st (case m of (type, payload) \<Rightarrow> OBEX_WriteMessage payload type)))"
    unfolding f by (simp_all add: m)
qed

text \<open>
  An initialised receiver delivers the blocks \<^verbatim>\<open>OBEX_WriteMessage\<close> makes, empty ones
  included, each once, in order, with identifier and data; the shared buffer only grows.
\<close>

theorem obex_delivers:
  fixes d :: GSM_Protocol_OBEXData
  assumes "\<forall>(type, payload) \<in> set ms. length payload + 3 < 65536"
  shows "snd (run OBEX_StateMachine (OBEX_Initialise d)
      (concat (map (\<lambda>(type, payload). OBEX_WriteMessage payload type) ms)))
    = map (\<lambda>(type, payload). Deliver (uint type) payload) ms"
proof -
  have "snd (run OBEX_StateMachine (OBEX_Initialise d)
      (concat (map (\<lambda>(type, payload). OBEX_WriteMessage payload type) ms)))
    = concat (map (\<lambda>(type, payload). [Deliver (uint type) payload]) ms)"
    using obex.stream_events [OF obex_init_sync, of ms] assms by (auto simp: obex_sized_def)
  then show ?thesis by simp
qed

theorem obex_delivers_witness:
  "snd (run OBEX_StateMachine (OBEX_Initialise \<lparr>Obex_Msg = blank_message, Obex_RXState = RX_Sync\<rparr>)
      (OBEX_WriteMessage [1, 2] 0x80 @ OBEX_WriteMessage [] 0x81))
    = [Deliver 0x80 [1, 2], Deliver 0x81 []]"
  using obex_delivers [of "[(0x80, [1, 2]), (0x81, [])]" "\<lparr>Obex_Msg = blank_message, Obex_RXState = RX_Sync\<rparr>"] by simp

text \<open>
  A length field below 3 makes the receiver ask for almost \<open>2 ^ 64\<close> octets; the next one is
  stored outside.
\<close>

lemma obex_short_length:
  "snd (run OBEX_StateMachine (OBEX_Initialise d) [0xA0, 0, 2, 0]) = [OutOfRange]"
  by (simp add: OBEX_StateMachine_def OBEX_Initialise_def obex_length_def reallocate_def Let_def store_byte_def)

end
