(* ===== verification/Gnapbus.thy ===== *)
theory Gnapbus imports Protocol begin

text \<open>
  The GNAPBUS layer of \<^verbatim>\<open>libgammu/protocol/symbian/gnapbus.c\<close>, the link to the applet for Symbian
  phones: a header of six octets, the payload filled to an even length and two checksums.
\<close>

abbreviation GNAPBUS_FRAME_ID :: byte where "GNAPBUS_FRAME_ID \<equiv> 0x5A"

record GSM_Protocol_GNAPBUSData =
  Gnap_RXState :: GSM_Protocol_RXState
  Gnap_Msg :: GSM_Protocol_Message

definition GNAPBUS_WriteMessage :: "byte list \<Rightarrow> byte \<Rightarrow> byte list" where
  "GNAPBUS_WriteMessage MsgBuffer MsgType =
     with_checksums ([GNAPBUS_FRAME_ID, 0x00] @ length_octets (length MsgBuffer) @ [MsgType, 0x00] @ MsgBuffer
       @ (if odd (length MsgBuffer) then [0x00] else []))"

definition gnap_reset :: "GSM_Protocol_GNAPBUSData \<Rightarrow> GSM_Protocol_Message \<Rightarrow> GSM_Protocol_GNAPBUSData" where
  "gnap_reset d m = d\<lparr>Gnap_Msg := m\<lparr>Buffer := [], Msg_Length := 0\<rparr>, Gnap_RXState := RX_Sync\<rparr>"

definition GNAPBUS_StateMachine ::
  "GSM_Protocol_GNAPBUSData \<Rightarrow> byte \<Rightarrow> GSM_Protocol_GNAPBUSData \<times> rx_event list" where
  "GNAPBUS_StateMachine d rx_char =
     (let m = sum_byte (Gnap_Msg d) rx_char in
      case Gnap_RXState d of
        RX_Sync \<Rightarrow>
          (if rx_char = GNAPBUS_FRAME_ID
           then (d\<lparr>Gnap_RXState := RX_GetDestination,
                   Gnap_Msg := m\<lparr>Msg_Count := 0, Msg_Length := 0, CheckSum0 := rx_char, CheckSum1 := 0\<rparr>\<rparr>, [])
           else (d\<lparr>Gnap_Msg := m\<rparr>, []))
      | RX_GetDestination \<Rightarrow> (d\<lparr>Gnap_Msg := m, Gnap_RXState := RX_GetLength1\<rparr>, [])
      | RX_GetLength1 \<Rightarrow>
          (d\<lparr>Gnap_Msg := m\<lparr>Msg_Length := unat rx_char * 256\<rparr>, Gnap_RXState := RX_GetLength2\<rparr>, [])
      | RX_GetLength2 \<Rightarrow>
          (let n = Msg_Length m + unat rx_char in
           (d\<lparr>Gnap_Msg := m\<lparr>Msg_Length := n, Buffer := malloc (n + 3)\<rparr>, Gnap_RXState := RX_GetType\<rparr>, []))
      | RX_GetType \<Rightarrow> (d\<lparr>Gnap_Msg := m\<lparr>Msg_Type := uint rx_char\<rparr>, Gnap_RXState := RX_GetSource\<rparr>, [])
      | RX_GetSource \<Rightarrow> (d\<lparr>Gnap_Msg := m, Gnap_RXState := RX_GetMessage\<rparr>, [])
      | RX_GetMessage \<Rightarrow>
          (let (m1, es) = store_byte m rx_char in
           if Msg_Count m1 \<noteq> 2 * ((Msg_Length m1 + 3) div 2) then (d\<lparr>Gnap_Msg := m1\<rparr>, es)
           else if CheckSum0 m1 \<noteq> CheckSum1 m1 then (gnap_reset d m1, es)
           else (gnap_reset d m1, es @ [deliver m1])))"

definition GNAPBUS_Initialise :: "GSM_Protocol_GNAPBUSData \<Rightarrow> GSM_Protocol_GNAPBUSData" where
  "GNAPBUS_Initialise d =
     d\<lparr>Gnap_Msg := (Gnap_Msg d)\<lparr>BufferUsed := 0, Buffer := [], Msg_Length := 0\<rparr>, Gnap_RXState := RX_Sync\<rparr>"

subsection \<open>Frames\<close>

definition gnap_sync :: "GSM_Protocol_GNAPBUSData \<Rightarrow> bool" where
  "gnap_sync d \<longleftrightarrow> Gnap_RXState d = RX_Sync"

text \<open>A header with a length field of \<open>n\<close> and any body of the right length.\<close>

definition gnap_header :: "nat \<Rightarrow> byte \<Rightarrow> byte list" where
  "gnap_header n type = [GNAPBUS_FRAME_ID, 0x00] @ length_octets n @ [type, 0x00]"

definition body_length :: "nat \<Rightarrow> nat" where
  "body_length n = 2 * ((n + 3) div 2)"

lemma gnap_collect:
  assumes "Gnap_RXState d = RX_GetMessage" "Msg_Count (Gnap_Msg d) = 0" "length bs = body_length (Msg_Length (Gnap_Msg d))"
    "length bs \<le> length (Buffer (Gnap_Msg d))"
  shows "run GNAPBUS_StateMachine d bs =
    (let m = summed (Gnap_Msg d) bs in
     (gnap_reset d m, if CheckSum0 m \<noteq> CheckSum1 m then [] else [deliver m]))"
proof -
  define st where "st cs = d\<lparr>Gnap_Msg := summed (Gnap_Msg d) cs\<rparr>" for cs
  have "d = st []" using assms(2) by (simp add: st_def summed_Nil)
  moreover have "run GNAPBUS_StateMachine (st []) bs =
    (let m = summed (Gnap_Msg d) bs in
     (gnap_reset d m, if CheckSum0 m \<noteq> CheckSum1 m then [] else [deliver m]))"
    by (rule run_collect_all [where n = "length bs"])
       (use assms in \<open>auto simp: st_def GNAPBUS_StateMachine_def store_summed Let_def body_length_def gnap_reset_def\<close>)
  ultimately show ?thesis by simp
qed

lemma gnap_frame:
  assumes "gnap_sync d" "n < 65536" "length body = body_length n"
  shows "snd (run GNAPBUS_StateMachine d (gnap_header n type @ body)) =
      (if xor_all (gnap_header n type @ body) = 0 then [Deliver (uint type) (take n body)] else [])
    \<and> gnap_sync (fst (run GNAPBUS_StateMachine d (gnap_header n type @ body)))"
proof -
  define c where "c = xor_all (gnap_header n type)"
  define m where "m = (Gnap_Msg d)\<lparr>Msg_Count := 0, Msg_Length := n, Msg_Type := uint type, Buffer := malloc (n + 3),
    CheckSum0 := c, CheckSum1 := 0\<rparr>"
  have h: "run GNAPBUS_StateMachine d (gnap_header n type) = (d\<lparr>Gnap_Msg := m, Gnap_RXState := RX_GetMessage\<rparr>, [])"
    using assms(1) length_octets_value [OF assms(2)]
    by (simp add: m_def c_def gnap_header_def length_octets_def gnap_sync_def GNAPBUS_StateMachine_def Let_def
        sum_byte_def xor.assoc)
  have b: "body_length n \<le> n + 3" by (simp add: body_length_def)
  have "run GNAPBUS_StateMachine (d\<lparr>Gnap_Msg := m, Gnap_RXState := RX_GetMessage\<rparr>) body =
    (let m' = summed m body in (gnap_reset (d\<lparr>Gnap_Msg := m, Gnap_RXState := RX_GetMessage\<rparr>) m',
       if CheckSum0 m' \<noteq> CheckSum1 m' then [] else [deliver m']))"
    using gnap_collect [of "d\<lparr>Gnap_Msg := m, Gnap_RXState := RX_GetMessage\<rparr>" body] assms b by (simp add: m_def)
  moreover have "CheckSum0 (summed m body) = CheckSum1 (summed m body) \<longleftrightarrow> xor_all (gnap_header n type @ body) = 0"
    using sums_agree [of c body] by (simp add: m_def c_def xor_all_append)
  moreover have "deliver (summed m body) = Deliver (uint type) (take n body)"
    using assms(3) b by (simp add: deliver_def m_def body_length_def)
  ultimately show ?thesis using h
    by (auto simp: run_append Let_def gnap_sync_def gnap_reset_def)
qed

lemma gnap_written:
  assumes "length payload < 65536"
  shows "\<exists>body. GNAPBUS_WriteMessage payload type = gnap_header (length payload) type @ body
    \<and> length body = body_length (length payload) \<and> take (length payload) body = payload
    \<and> xor_all (gnap_header (length payload) type @ body) = 0"
proof -
  define f where "f = gnap_header (length payload) type @ payload @ (if odd (length payload) then [0x00] else [])"
  have e: "even (length f)" by (simp add: f_def gnap_header_def length_octets_def)
  have "GNAPBUS_WriteMessage payload type = f @ [xor_even f, xor_odd f]"
    using with_checksums_even [OF e] by (simp add: GNAPBUS_WriteMessage_def f_def gnap_header_def)
  then show ?thesis using written_sum_zero [OF e]
    by (intro exI [of _ "payload @ (if odd (length payload) then [0x00] else []) @ [xor_even f, xor_odd f]"])
       (auto simp: f_def body_length_def elim!: oddE evenE)
qed

lemma gnap_noise:
  "gnap_sync st \<Longrightarrow> b \<noteq> GNAPBUS_FRAME_ID \<Longrightarrow> snd (GNAPBUS_StateMachine st b) = [] \<and> gnap_sync (fst (GNAPBUS_StateMachine st b))"
  by (simp add: gnap_sync_def GNAPBUS_StateMachine_def Let_def)

interpretation gnap: framing_resync GNAPBUS_StateMachine "\<lambda>(type, payload). GNAPBUS_WriteMessage payload type"
    "\<lambda>(type, payload). [Deliver (uint type) payload]" gnap_sync "\<lambda>(type, payload). length payload < 65536" "\<lambda>b. b \<noteq> GNAPBUS_FRAME_ID"
proof
  fix st :: GSM_Protocol_GNAPBUSData and m :: "byte \<times> byte list"
  assume sync: "gnap_sync st" and ok: "case m of (type, payload) \<Rightarrow> length payload < 65536"
  obtain type payload where m: "m = (type, payload)" by (cases m)
  from ok m gnap_written [of payload type] obtain body where
    "GNAPBUS_WriteMessage payload type = gnap_header (length payload) type @ body"
    "length body = body_length (length payload)" "take (length payload) body = payload"
    "xor_all (gnap_header (length payload) type @ body) = 0" by auto
  with gnap_frame [OF sync, of "length payload" body type] ok m
  show "snd (run GNAPBUS_StateMachine st (case m of (type, payload) \<Rightarrow> GNAPBUS_WriteMessage payload type)) =
      (case m of (type, payload) \<Rightarrow> [Deliver (uint type) payload])"
    "gnap_sync (fst (run GNAPBUS_StateMachine st (case m of (type, payload) \<Rightarrow> GNAPBUS_WriteMessage payload type)))"
    by simp_all
qed (auto simp: gnap_noise)

text \<open>
  A written frame with one octet behind the header altered on the way is dropped
  without a delivery, and the messages after it are delivered unharmed.
\<close>

theorem gnap_altered_octet_dropped:
  assumes frame: "frame = GNAPBUS_WriteMessage payload type"
    and "length payload < 65536" "6 \<le> i" "i < length frame" "b \<noteq> frame ! i"
    "\<forall>(type, payload) \<in> set ms. length payload < 65536"
  shows "snd (run GNAPBUS_StateMachine (GNAPBUS_Initialise d)
      (frame[i := b] @ concat (map (\<lambda>(type, payload). GNAPBUS_WriteMessage payload type) ms)))
    = map (\<lambda>(type, payload). Deliver (uint type) payload) ms"
proof -
  let ?n = "length payload" and ?ms = "concat (map (\<lambda>(type, payload). GNAPBUS_WriteMessage payload type) ms)"
  obtain body where f: "frame = gnap_header ?n type @ body" "length body = body_length ?n"
    "xor_all (gnap_header ?n type @ body) = 0" using gnap_written [OF assms(2), of type] frame by auto
  define body' where "body' = body[i - 6 := b]"
  have h: "length (gnap_header ?n type) = 6" by (simp add: gnap_header_def length_octets_def)
  have f': "frame[i := b] = gnap_header ?n type @ body'" "length body' = body_length ?n"
    using assms(3) f(2) h by (simp_all add: f(1) body'_def list_update_append)
  have "xor_all (frame[i := b]) = frame ! i XOR b"
    using xor_all_update [OF assms(4), of b] f(1,3) by simp
  then have "xor_all (gnap_header ?n type @ body') \<noteq> 0" using assms(5) f' word_eq_xor [of "frame ! i" b] by auto
  then have s: "snd (run GNAPBUS_StateMachine (GNAPBUS_Initialise d) (frame[i := b])) = []"
    "gnap_sync (fst (run GNAPBUS_StateMachine (GNAPBUS_Initialise d) (frame[i := b])))"
    using gnap_frame [of "GNAPBUS_Initialise d" ?n body' type] assms(2) f' by (simp_all add: gnap_sync_def GNAPBUS_Initialise_def)
  show ?thesis using gnap.stream_events [OF s(2), of ms] assms(6) s(1) by (simp add: run_append_snd)
qed

definition gnap_blank :: GSM_Protocol_GNAPBUSData where
  "gnap_blank = \<lparr>Gnap_RXState = RX_Sync, Gnap_Msg = blank_message\<rparr>"

theorem gnap_altered_octet_dropped_witness:
  "snd (run GNAPBUS_StateMachine (GNAPBUS_Initialise gnap_blank)
      ((GNAPBUS_WriteMessage [1, 2, 3] 5)[7 := 9] @ GNAPBUS_WriteMessage [4] 6)) = [Deliver 6 [4]]"
  using gnap_altered_octet_dropped [OF refl, where payload = "[1, 2, 3]" and type = 5 and i = 7 and b = 9
    and ms = "[(6, [4])]" and d = gnap_blank]
  by (simp add: GNAPBUS_WriteMessage_def with_checksums_def length_octets_def del: run.simps)

end
