(* ===== verification/Fbus2.thy ===== *)
theory Fbus2 imports Protocol begin

text \<open>
  The FBUS2 layer of \<^verbatim>\<open>libgammu/protocol/nokia/fbus2.c\<close>: messages are cut into frames of at most
  120 octets, each with the count of frames left and a sequence number, checksums and an
  acknowledgement; the receiver puts the frames together again.
\<close>

datatype fbus2_connection =
  GCT_FBUS2 | GCT_FBUS2DLR3 | GCT_DKU5FBUS2 | GCT_FBUS2PL2303 | GCT_FBUS2BLUE | GCT_BLUEFBUS2 | GCT_FBUS2IRDA

abbreviation FBUS2_DEVICE_PHONE :: byte where "FBUS2_DEVICE_PHONE \<equiv> 0x00"
abbreviation FBUS2_DEVICE_PC :: byte where "FBUS2_DEVICE_PC \<equiv> 0x0c"
abbreviation FBUS2_ACK_BYTE :: byte where "FBUS2_ACK_BYTE \<equiv> 0x7f"
abbreviation FBUS2_MAX_TRANSMIT_LENGTH :: nat where "FBUS2_MAX_TRANSMIT_LENGTH \<equiv> 120"

definition fbus2_id :: "fbus2_connection \<Rightarrow> byte" where
  "fbus2_id conn = (if conn = GCT_FBUS2IRDA then 0x1c else 0x1e)"

record GSM_Protocol_FBUS2Data =
  MsgSequenceNumber :: nat
  Fbus_RXState :: GSM_Protocol_RXState
  FramesToGo :: int
  MultiMsg :: GSM_Protocol_Message
  Fbus_Msg :: GSM_Protocol_Message

subsection \<open>Sending\<close>

definition fbus2_frame :: "byte \<Rightarrow> byte \<Rightarrow> byte \<Rightarrow> byte list \<Rightarrow> byte \<Rightarrow> byte list" where
  "fbus2_frame fid dst src MsgBuffer MsgType =
     with_checksums ([fid, dst, src, MsgType] @ length_octets (length MsgBuffer) @ MsgBuffer
       @ (if odd (length MsgBuffer) then [0x00] else []))"

definition FBUS2_WriteFrame :: "fbus2_connection \<Rightarrow> byte list \<Rightarrow> byte \<Rightarrow> byte list" where
  "FBUS2_WriteFrame conn = fbus2_frame (fbus2_id conn) FBUS2_DEVICE_PHONE FBUS2_DEVICE_PC"

text \<open>
  The loop over the frames with \<open>k\<close> still to go; \<open>mk\<close> makes the frame and \<open>dev\<close> is the count of
  octets the device takes. The result has the frames handed to the device.
\<close>

fun fbus2_write_parts ::
  "(byte list \<Rightarrow> nat) \<Rightarrow> (byte list \<Rightarrow> byte list) \<Rightarrow> nat \<Rightarrow> bool \<Rightarrow> byte list \<Rightarrow> GSM_Protocol_FBUS2Data
   \<Rightarrow> GSM_Error \<times> byte list list \<times> GSM_Protocol_FBUS2Data" where
  "fbus2_write_parts dev mk 0 first rest d = (ERR_NONE, [], d)"
| "fbus2_write_parts dev mk (Suc k) first rest d =
     (let seqnum = word_of_nat (MsgSequenceNumber d) + (if first then 0x40 else 0 :: byte);
          d1 = d\<lparr>MsgSequenceNumber := (MsgSequenceNumber d + 1) mod 8\<rparr>;
          frame = mk (take FBUS2_MAX_TRANSMIT_LENGTH rest @ [word_of_nat (Suc k), seqnum]);
          error = write_result (dev frame) frame in
      if error \<noteq> ERR_NONE then (error, [frame], d1)
      else let (e, fs, d2) = fbus2_write_parts dev mk k False (drop FBUS2_MAX_TRANSMIT_LENGTH rest) d1
           in (e, frame # fs, d2))"

definition frame_count :: "nat \<Rightarrow> nat" where
  "frame_count n = (n + FBUS2_MAX_TRANSMIT_LENGTH - 1) div FBUS2_MAX_TRANSMIT_LENGTH"

definition FBUS2_WriteMessage ::
  "(byte list \<Rightarrow> nat) \<Rightarrow> fbus2_connection \<Rightarrow> byte list \<Rightarrow> byte \<Rightarrow> GSM_Protocol_FBUS2Data
   \<Rightarrow> GSM_Error \<times> byte list list \<times> GSM_Protocol_FBUS2Data" where
  "FBUS2_WriteMessage dev conn MsgBuffer MsgType d =
     fbus2_write_parts dev (\<lambda>part. FBUS2_WriteFrame conn part MsgType)
       (frame_count (length MsgBuffer)) True MsgBuffer d"

definition FBUS2_SendAck :: "fbus2_connection \<Rightarrow> byte \<Rightarrow> byte \<Rightarrow> byte list" where
  "FBUS2_SendAck conn MsgType MsgSequence = FBUS2_WriteFrame conn [MsgType, MsgSequence] FBUS2_ACK_BYTE"

subsection \<open>Receiving\<close>

text \<open>The state \<^verbatim>\<open>FBUS2_Initialise\<close> sets before it talks to the device.\<close>

definition FBUS2_Initialise :: "GSM_Protocol_FBUS2Data \<Rightarrow> GSM_Protocol_FBUS2Data" where
  "FBUS2_Initialise d =
     d\<lparr>Fbus_Msg := (Fbus_Msg d)\<lparr>Msg_Length := 0, Buffer := []\<rparr>,
       MultiMsg := (MultiMsg d)\<lparr>BufferUsed := 0, Msg_Length := 0, Buffer := []\<rparr>,
       MsgSequenceNumber := 0, FramesToGo := 0, Fbus_RXState := RX_Sync\<rparr>"

definition fbus2_drop :: "GSM_Protocol_FBUS2Data \<Rightarrow> GSM_Protocol_Message \<Rightarrow> GSM_Protocol_FBUS2Data" where
  "fbus2_drop d m = d\<lparr>Fbus_Msg := m\<lparr>Buffer := [], Msg_Length := 0\<rparr>, Fbus_RXState := RX_Sync\<rparr>"

text \<open>Appending the payload of a frame, less its two last octets, to the message.\<close>

definition multi_append :: "GSM_Protocol_Message \<Rightarrow> GSM_Protocol_Message \<Rightarrow> GSM_Protocol_Message \<times> rx_event list" where
  "multi_append mm m =
     (let n = Msg_Length mm + Msg_Length m - 2;
          mm1 = (if BufferUsed mm < n then mm\<lparr>BufferUsed := n, Buffer := reallocate n (Buffer mm)\<rparr> else mm);
          cells = Buffer mm1 in
      (mm1\<lparr>Buffer := take (Msg_Length mm) cells @ take (Msg_Length m - 2) (Buffer m) @ drop n cells, Msg_Length := n\<rparr>,
       if length cells < n then [OutOfRange] else []))"

text \<open>
  The end of a frame. Frames of length 0, and of length 1 that are no acknowledgement, make the
  code read in front of the buffer; the model stops there.
\<close>

definition fbus2_frame_end ::
  "fbus2_connection \<Rightarrow> GSM_Protocol_FBUS2Data \<Rightarrow> GSM_Protocol_Message \<Rightarrow> GSM_Protocol_FBUS2Data \<times> rx_event list" where
  "fbus2_frame_end conn d m =
     (if CheckSum0 m \<noteq> CheckSum1 m then (fbus2_drop d m, [])
      else if Msg_Length m = 0 then (fbus2_drop d m, [OutOfRange])
      else let seq_num = Buffer m ! (Msg_Length m - 1) in
      if Msg_Type m = uint FBUS2_ACK_BYTE then (fbus2_drop d m, [])
      else if Msg_Length m = 1 then (fbus2_drop d m, [OutOfRange])
      else
        let frm_num = Buffer m ! (Msg_Length m - 2); start = (seq_num AND 0x40 = 0x40);
            d1 = (if start
                  then d\<lparr>FramesToGo := uint frm_num,
                         MultiMsg := (MultiMsg d)\<lparr>Msg_Length := 0, Msg_Type := Msg_Type m,
                                       Destination := Destination m, Source := Source m\<rparr>\<rparr>
                  else d) in
        if \<not> start \<and> FramesToGo d1 \<noteq> uint frm_num then (fbus2_drop d1 m, [])
        else if \<not> start \<and> Msg_Type m \<noteq> Msg_Type (MultiMsg d1) then (fbus2_drop d1 m, [])
        else
          let (mm, es) = multi_append (MultiMsg d1) m;
              d2 = (fbus2_drop d1 m)\<lparr>MultiMsg := mm, FramesToGo := FramesToGo d1 - 1\<rparr> in
          (d2,
           es
           @ (if Msg_Type m \<noteq> 0
              then [Send (FBUS2_SendAck conn (word_of_int (Msg_Type m)) (seq_num AND 0x0f))] else [])
           @ (if FramesToGo d2 = 0 then [deliver mm] else [])))"

definition FBUS2_StateMachine ::
  "fbus2_connection \<Rightarrow> GSM_Protocol_FBUS2Data \<Rightarrow> byte \<Rightarrow> GSM_Protocol_FBUS2Data \<times> rx_event list" where
  "FBUS2_StateMachine conn d rx_char =
     (let m = sum_byte (Fbus_Msg d) rx_char in
      case Fbus_RXState d of
        RX_GetMessage \<Rightarrow>
          (let (m1, es) = store_byte m rx_char in
           if Msg_Count m1 \<noteq> Msg_Length m1 + Msg_Length m1 mod 2 + 2 then (d\<lparr>Fbus_Msg := m1\<rparr>, es)
           else let (d1, es1) = fbus2_frame_end conn d m1 in (d1, es @ es1))
      | RX_GetLength2 \<Rightarrow>
          (let n = Msg_Length m + unat rx_char in
           (d\<lparr>Fbus_Msg := m\<lparr>Msg_Length := n, Buffer := malloc (n + 3)\<rparr>, Fbus_RXState := RX_GetMessage\<rparr>, []))
      | RX_GetLength1 \<Rightarrow>
          (d\<lparr>Fbus_Msg := m\<lparr>Msg_Length := unat rx_char * 256\<rparr>, Fbus_RXState := RX_GetLength2\<rparr>, [])
      | RX_GetType \<Rightarrow> (d\<lparr>Fbus_Msg := m\<lparr>Msg_Type := uint rx_char\<rparr>, Fbus_RXState := RX_GetLength1\<rparr>, [])
      | RX_GetSource \<Rightarrow>
          (if rx_char \<noteq> FBUS2_DEVICE_PHONE then (d\<lparr>Fbus_Msg := m, Fbus_RXState := RX_Sync\<rparr>, [])
           else (d\<lparr>Fbus_Msg := m\<lparr>Source := rx_char\<rparr>, Fbus_RXState := RX_GetType\<rparr>, []))
      | RX_GetDestination \<Rightarrow>
          (if rx_char \<noteq> FBUS2_DEVICE_PC then (d\<lparr>Fbus_Msg := m, Fbus_RXState := RX_Sync\<rparr>, [])
           else (d\<lparr>Fbus_Msg := m\<lparr>Destination := rx_char\<rparr>, Fbus_RXState := RX_GetSource\<rparr>, []))
      | RX_Sync \<Rightarrow>
          (if rx_char \<noteq> fbus2_id conn then
             (if rx_char = 0x20 then (FBUS2_Initialise (d\<lparr>Fbus_Msg := m\<rparr>), [Reinit]) else (d\<lparr>Fbus_Msg := m\<rparr>, []))
           else (d\<lparr>Fbus_Msg := m\<lparr>CheckSum0 := rx_char, CheckSum1 := 0, Msg_Count := 0\<rparr>,
                   Fbus_RXState := RX_GetDestination\<rparr>, [])))"

subsection \<open>Initialisation\<close>

text \<open>
  The calls \<^verbatim>\<open>FBUS2_Initialise\<close> makes to the device once the state is set. The result of an AT
  command is not looked at; waiting is left out.
\<close>

definition FBUS2_WriteDLR3 :: "string \<Rightarrow> device_call list" where
  "FBUS2_WriteDLR3 command = [Unchecked (WriteDevice (bytes_of command)), Unchecked ReadReply]"

definition FBUS2_ATSwitch :: "device_call list" where
  "FBUS2_ATSwitch = FBUS2_WriteDLR3 (''AT'' @ crlf) @ FBUS2_WriteDLR3 (''AT&F'' @ crlf) @ FBUS2_WriteDLR3 (''AT*NOKIAFBUS'' @ crlf)"

definition FBUS2_InitSequence :: "nat \<Rightarrow> bool \<Rightarrow> device_call list" where
  "FBUS2_InitSequence repeats terminate =
     replicate repeats (Checked (WriteDevice [0x55])) @ (if terminate then [Checked (WriteDevice [0xc1])] else [])"

definition fbus2_switch :: "bool \<Rightarrow> fbus2_connection \<Rightarrow> device_call list" where
  "fbus2_switch NoPowerCable conn =
     (case conn of
        GCT_FBUS2BLUE \<Rightarrow> FBUS2_ATSwitch
      | GCT_BLUEFBUS2 \<Rightarrow> FBUS2_ATSwitch
      | GCT_FBUS2 \<Rightarrow>
          [Checked (DeviceSetSpeed 115200), Checked (DeviceSetDtrRts (\<not> NoPowerCable) False)]
          @ FBUS2_InitSequence 32 True
      | GCT_FBUS2IRDA \<Rightarrow>
          [Checked (DeviceSetSpeed 9600)] @ FBUS2_InitSequence 32 True @ [Checked (DeviceSetSpeed 115200)]
      | _ \<Rightarrow>
          [Checked (DeviceSetDtrRts False False)]
          @ (if NoPowerCable then [] else [Checked (DeviceSetDtrRts True True)])
          @ [Checked (DeviceSetSpeed 19200)] @ FBUS2_ATSwitch
          @ [Checked (DeviceSetSpeed 115200)] @ FBUS2_InitSequence 32 True)"

definition fbus2_init_calls :: "bool \<Rightarrow> fbus2_connection \<Rightarrow> device_call list" where
  "fbus2_init_calls NoPowerCable conn =
     [Checked (DeviceSetParity False)] @ fbus2_switch NoPowerCable conn
     @ (if conn \<noteq> GCT_FBUS2BLUE \<and> conn \<noteq> GCT_BLUEFBUS2 then FBUS2_InitSequence 250 False else [])
     @ [Unchecked ReadReply]"

subsection \<open>One frame\<close>

definition fbus2_header :: "fbus2_connection \<Rightarrow> nat \<Rightarrow> byte \<Rightarrow> byte list" where
  "fbus2_header conn n type = [fbus2_id conn, FBUS2_DEVICE_PC, FBUS2_DEVICE_PHONE, type] @ length_octets n"

definition fbus2_got :: "fbus2_connection \<Rightarrow> GSM_Protocol_FBUS2Data \<Rightarrow> nat \<Rightarrow> byte \<Rightarrow> byte list \<Rightarrow> GSM_Protocol_Message" where
  "fbus2_got conn d n type body =
     summed ((Fbus_Msg d)\<lparr>Msg_Count := 0, Msg_Length := n, Msg_Type := uint type, Buffer := malloc (n + 3),
       CheckSum0 := xor_all (fbus2_header conn n type), CheckSum1 := 0,
       Destination := FBUS2_DEVICE_PC, Source := FBUS2_DEVICE_PHONE\<rparr>) body"

lemma fbus2_end_cong:
  "fbus2_frame_end conn (d\<lparr>Fbus_Msg := x, Fbus_RXState := y\<rparr>) m = fbus2_frame_end conn d m"
  by (simp add: fbus2_frame_end_def fbus2_drop_def Let_def split: prod.splits)

lemma fbus2_id_not_sync [simp]: "fbus2_id conn \<noteq> 0x20"
  by (simp add: fbus2_id_def)

lemma fbus2_collect:
  assumes "Fbus_RXState d = RX_GetMessage" "Msg_Count (Fbus_Msg d) = 0"
    "length bs = Msg_Length (Fbus_Msg d) + Msg_Length (Fbus_Msg d) mod 2 + 2" "length bs \<le> length (Buffer (Fbus_Msg d))"
  shows "run (FBUS2_StateMachine conn) d bs = fbus2_frame_end conn d (summed (Fbus_Msg d) bs)"
proof -
  define st where "st cs = d\<lparr>Fbus_Msg := summed (Fbus_Msg d) cs\<rparr>" for cs
  have c: "fbus2_frame_end conn (d\<lparr>Fbus_Msg := x\<rparr>) m = fbus2_frame_end conn d m" for x m
    using fbus2_end_cong [where conn = conn and d = d and x = x and y = "Fbus_RXState d" and m = m] by simp
  have "d = st []" using assms(2) by (simp add: st_def summed_Nil)
  moreover have "run (FBUS2_StateMachine conn) (st []) bs = fbus2_frame_end conn d (summed (Fbus_Msg d) bs)"
    by (rule run_collect_all [where n = "length bs"])
       (use assms in \<open>auto simp: st_def FBUS2_StateMachine_def store_summed Let_def c split: prod.splits\<close>)
  ultimately show ?thesis by simp
qed

lemma fbus2_frame_run:
  assumes "Fbus_RXState d = RX_Sync" "n < 65536" "length body = n + n mod 2 + 2"
  shows "run (FBUS2_StateMachine conn) d (fbus2_header conn n type @ body) =
    fbus2_frame_end conn d (fbus2_got conn d n type body)"
proof -
  define m where "m = (Fbus_Msg d)\<lparr>Msg_Count := 0, Msg_Length := n, Msg_Type := uint type, Buffer := malloc (n + 3),
       CheckSum0 := xor_all (fbus2_header conn n type), CheckSum1 := 0,
       Destination := FBUS2_DEVICE_PC, Source := FBUS2_DEVICE_PHONE\<rparr>"
  have h: "run (FBUS2_StateMachine conn) d (fbus2_header conn n type) =
      (d\<lparr>Fbus_Msg := m, Fbus_RXState := RX_GetMessage\<rparr>, [])"
    using assms(1) length_octets_value [OF assms(2)]
    by (simp add: m_def fbus2_header_def length_octets_def FBUS2_StateMachine_def Let_def sum_byte_def xor.assoc)
  have "run (FBUS2_StateMachine conn) (d\<lparr>Fbus_Msg := m, Fbus_RXState := RX_GetMessage\<rparr>) body =
      fbus2_frame_end conn d (summed m body)"
    using fbus2_collect [of "d\<lparr>Fbus_Msg := m, Fbus_RXState := RX_GetMessage\<rparr>" body conn] assms(2,3)
    by (simp add: m_def fbus2_end_cong)
  then show ?thesis using h by (simp add: run_append Let_def fbus2_got_def m_def [symmetric] split: prod.splits)
qed

lemma fbus2_got_sums:
  "CheckSum0 (fbus2_got conn d n type body) = CheckSum1 (fbus2_got conn d n type body)
     \<longleftrightarrow> xor_all (fbus2_header conn n type @ body) = 0"
  using sums_agree [of "xor_all (fbus2_header conn n type)" body]
  by (simp add: fbus2_got_def xor_all_append)

lemma fbus2_written:
  assumes "n = length payload"
  shows "\<exists>body. fbus2_frame (fbus2_id conn) FBUS2_DEVICE_PC FBUS2_DEVICE_PHONE payload type = fbus2_header conn n type @ body
    \<and> length body = n + n mod 2 + 2 \<and> take n body = payload \<and> xor_all (fbus2_header conn n type @ body) = 0"
proof -
  define f where "f = fbus2_header conn n type @ payload @ (if odd (length payload) then [0x00] else [])"
  have e: "even (length f)" using assms by (simp add: f_def fbus2_header_def length_octets_def)
  have "fbus2_frame (fbus2_id conn) FBUS2_DEVICE_PC FBUS2_DEVICE_PHONE payload type = f @ [xor_even f, xor_odd f]"
    using with_checksums_even [OF e] assms by (simp add: fbus2_frame_def f_def fbus2_header_def)
  then show ?thesis using written_sum_zero [OF e] assms
    by (intro exI [of _ "payload @ (if odd (length payload) then [0x00] else []) @ [xor_even f, xor_odd f]"])
       (cases "even n"; simp add: f_def odd_iff_mod_2_eq_one)
qed

subsection \<open>Messages\<close>

text \<open>Between frames: the octets of the message so far and the size of its buffer.\<close>

definition fbus2_sync :: "GSM_Protocol_FBUS2Data \<Rightarrow> bool" where
  "fbus2_sync d \<longleftrightarrow> Fbus_RXState d = RX_Sync \<and> BufferUsed (MultiMsg d) \<le> length (Buffer (MultiMsg d))
     \<and> Msg_Length (MultiMsg d) \<le> length (Buffer (MultiMsg d))"

definition multi_octets :: "GSM_Protocol_FBUS2Data \<Rightarrow> byte list" where
  "multi_octets d = take (Msg_Length (MultiMsg d)) (Buffer (MultiMsg d))"

lemma fbus2_init_sync: "fbus2_sync (FBUS2_Initialise d)"
  by (simp add: fbus2_sync_def FBUS2_Initialise_def)

text \<open>Appending keeps the octets in front and the invariant.\<close>

lemma multi_append_spec:
  assumes "Msg_Length mm \<le> length (Buffer mm)" "BufferUsed mm \<le> length (Buffer mm)"
    "Msg_Length mm + length chunk < 2 ^ 63" "Msg_Length m = length chunk + 2" "take (length chunk) (Buffer m) = chunk"
  obtains mm' where "multi_append mm m = (mm', [])" "Msg_Length mm' = Msg_Length mm + length chunk"
    "take (Msg_Length mm') (Buffer mm') = take (Msg_Length mm) (Buffer mm) @ chunk" "Msg_Type mm' = Msg_Type mm"
    "Msg_Length mm' \<le> length (Buffer mm')" "BufferUsed mm' \<le> length (Buffer mm')"
proof -
  define n where "n = Msg_Length mm + length chunk"
  define mm1 where "mm1 = (if BufferUsed mm < n then mm\<lparr>BufferUsed := n, Buffer := reallocate n (Buffer mm)\<rparr> else mm)"
  have l: "n \<le> length (Buffer mm1)" "BufferUsed mm1 \<le> length (Buffer mm1)" "Msg_Type mm1 = Msg_Type mm"
    using assms(2,3) by (auto simp: mm1_def n_def)
  have k: "take (Msg_Length mm) (Buffer mm1) = take (Msg_Length mm) (Buffer mm)"
    using assms(1,3) by (auto simp: mm1_def n_def reallocate_def)
  define mm' where "mm' = mm1\<lparr>Buffer := take (Msg_Length mm) (Buffer mm1) @ chunk @ drop n (Buffer mm1), Msg_Length := n\<rparr>"
  have e: "multi_append mm m = (mm', [])"
    using l(1) assms(4,5) by (simp add: multi_append_def Let_def mm1_def [symmetric] n_def [symmetric] mm'_def)
  have len: "length (take (Msg_Length mm) (Buffer mm1) @ chunk) = n"
    using l(1) by (simp add: n_def)
  have b: "Buffer mm' = (take (Msg_Length mm) (Buffer mm1) @ chunk) @ drop n (Buffer mm1)" by (simp add: mm'_def)
  have prefix: "take (length A) (A @ B) = A" for A B :: "byte list" by simp
  have "take n (Buffer mm') = take (Msg_Length mm) (Buffer mm) @ chunk"
    using prefix [of "take (Msg_Length mm) (Buffer mm1) @ chunk" "drop n (Buffer mm1)"] unfolding b using len unfolding k by simp
  moreover have "length (Buffer mm') = length (Buffer mm1)" using len l(1) unfolding b by simp
  moreover have "Msg_Length mm' = n" "Msg_Type mm' = Msg_Type mm1" "BufferUsed mm' = BufferUsed mm1" by (simp_all add: mm'_def)
  ultimately show thesis using e l by (intro that [of mm']) (simp_all add: n_def)
qed

text \<open>A frame that starts a message, or one that is expected, is appended and acknowledged.\<close>

definition ack :: "fbus2_connection \<Rightarrow> byte \<Rightarrow> byte \<Rightarrow> rx_event list" where
  "ack conn type seq = (if type = 0 then [] else [Send (FBUS2_SendAck conn type (seq AND 0x0f))])"

lemma fbus2_part:
  assumes sync: "fbus2_sync d" and len: "length chunk < 65000" and type: "type \<noteq> FBUS2_ACK_BYTE"
    and old: "old = (if seq AND 0x40 = 0x40 then [] else multi_octets d)" "length old + length chunk < 2 ^ 63"
    and expected: "seq AND 0x40 \<noteq> 0x40 \<Longrightarrow> FramesToGo d = uint frm \<and> Msg_Type (MultiMsg d) = uint type"
    and f: "f = fbus2_frame (fbus2_id conn) FBUS2_DEVICE_PC FBUS2_DEVICE_PHONE (chunk @ [frm, seq]) type"
  obtains d' where "run (FBUS2_StateMachine conn) d f =
      (d', ack conn type seq @ (if frm = 1 then [Deliver (uint type) (old @ chunk)] else []))"
    "fbus2_sync d'" "multi_octets d' = old @ chunk" "FramesToGo d' = uint frm - 1" "Msg_Type (MultiMsg d') = uint type"
proof -
  define n where "n = length chunk + 2"
  obtain body where body: "f = fbus2_header conn n type @ body" "length body = n + n mod 2 + 2"
      "take n body = chunk @ [frm, seq]" "xor_all (fbus2_header conn n type @ body) = 0"
    using fbus2_written [of n "chunk @ [frm, seq]" conn type] f by (auto simp: n_def)
  define m where "m = fbus2_got conn d n type body"
  have run: "run (FBUS2_StateMachine conn) d f = fbus2_frame_end conn d m"
    using fbus2_frame_run [of d n body conn type] sync len body by (simp add: fbus2_sync_def n_def m_def)
  have nb: "n \<le> length body" using body(2) by simp
  have cells: "Buffer m ! i = (chunk @ [frm, seq]) ! i" if "i < n" for i
    using that nb body(3) by (simp add: m_def fbus2_got_def) (metis nth_take)
  have m: "Msg_Length m = n" "Msg_Type m = uint type" "CheckSum0 m = CheckSum1 m" "take (length chunk) (Buffer m) = chunk"
      "Buffer m ! (n - 1) = seq" "Buffer m ! (n - 2) = frm"
  proof -
    show "Msg_Length m = n" "Msg_Type m = uint type" by (simp_all add: m_def fbus2_got_def)
    show "CheckSum0 m = CheckSum1 m" using fbus2_got_sums body(4) m_def by simp
    have "take (length chunk) (take n body) = chunk" unfolding body(3) by simp
    then show "take (length chunk) (Buffer m) = chunk"
      using nb by (simp add: m_def fbus2_got_def n_def min_def)
    show "Buffer m ! (n - 1) = seq" "Buffer m ! (n - 2) = frm" using cells [of "n - 1"] cells [of "n - 2"] by (simp_all add: n_def nth_append)
  qed
  define start where "start \<longleftrightarrow> seq AND 0x40 = 0x40"
  define d1 where "d1 = (if start
      then d\<lparr>FramesToGo := uint frm, MultiMsg := (MultiMsg d)\<lparr>Msg_Length := 0, Msg_Type := Msg_Type m,
             Destination := Destination m, Source := Source m\<rparr>\<rparr> else d)"
  have d1: "FramesToGo d1 = uint frm" "Msg_Type (MultiMsg d1) = uint type" "fbus2_sync d1" "multi_octets d1 = old"
    using expected sync old(1) m(2) by (auto simp: d1_def start_def fbus2_sync_def multi_octets_def)
  have ol: "Msg_Length (MultiMsg d1) = length old" using d1(3,4) by (auto simp: fbus2_sync_def multi_octets_def)
  obtain mm' where mm: "multi_append (MultiMsg d1) m = (mm', [])" "Msg_Length mm' = length old + length chunk"
      "take (Msg_Length mm') (Buffer mm') = old @ chunk" "Msg_Type mm' = uint type"
      "Msg_Length mm' \<le> length (Buffer mm')" "BufferUsed mm' \<le> length (Buffer mm')"
    using multi_append_spec [of "MultiMsg d1" chunk m] d1 old(2) m ol
    by (auto simp: fbus2_sync_def multi_octets_def n_def)
  define d' where "d' = (fbus2_drop d1 m)\<lparr>MultiMsg := mm', FramesToGo := FramesToGo d1 - 1\<rparr>"
  have ft: "FramesToGo d' = uint frm - 1" "(uint frm = 1) = (frm = 1)"
    by (simp_all add: d'_def d1(1) word_uint_eq_iff)
  have t7: "uint type \<noteq> 127" using type by (simp add: word_uint_eq_iff)
  have "fbus2_frame_end conn d m = (d', ack conn type seq @ (if frm = 1 then [Deliver (uint type) (old @ chunk)] else []))"
    using m expected mm ft type t7
    by (simp add: fbus2_frame_end_def Let_def n_def start_def [symmetric] d1_def [symmetric] d1 d'_def ack_def deliver_def uint_0_iff)
  moreover have "fbus2_sync d'" "multi_octets d' = old @ chunk" "Msg_Type (MultiMsg d') = uint type"
    using mm by (simp_all add: d'_def fbus2_sync_def fbus2_drop_def multi_octets_def)
  ultimately show thesis using that run ft(1) by simp
qed

text \<open>The acknowledgements of \<open>k\<close> frames from sequence number \<open>s\<close> on.\<close>

fun acks :: "fbus2_connection \<Rightarrow> byte \<Rightarrow> nat \<Rightarrow> nat \<Rightarrow> rx_event list" where
  "acks conn type 0 s = []"
| "acks conn type (Suc k) s = ack conn type (word_of_nat s) @ acks conn type k ((s + 1) mod 8)"

text \<open>The frames of a message as the phone sends them, with a device that takes everything.\<close>

definition phone_parts ::
  "fbus2_connection \<Rightarrow> byte \<Rightarrow> nat \<Rightarrow> bool \<Rightarrow> byte list \<Rightarrow> GSM_Protocol_FBUS2Data \<Rightarrow> GSM_Error \<times> byte list list \<times> GSM_Protocol_FBUS2Data" where
  "phone_parts conn type =
     fbus2_write_parts length (\<lambda>part. fbus2_frame (fbus2_id conn) FBUS2_DEVICE_PC FBUS2_DEVICE_PHONE part type)"

lemma sequence_bits:
  assumes "s < 8"
  shows "(word_of_nat s + 0x40 :: byte) AND 0x40 = 0x40" "(word_of_nat s :: byte) AND 0x40 = 0"
    "(word_of_nat s + 0x40 :: byte) AND 0xf = word_of_nat s AND 0xf"
proof -
  have "s = 0 \<or> s = 1 \<or> s = 2 \<or> s = 3 \<or> s = 4 \<or> s = 5 \<or> s = 6 \<or> s = 7" using assms by auto
  then show "(word_of_nat s + 0x40 :: byte) AND 0x40 = 0x40" "(word_of_nat s :: byte) AND 0x40 = 0"
    "(word_of_nat s + 0x40 :: byte) AND 0xf = word_of_nat s AND 0xf" by (elim disjE; simp)+
qed

lemma frame_count_step: "0 < n \<Longrightarrow> frame_count n = Suc (frame_count (n - 120))"
proof (cases "n \<le> 120")
  case True
  assume "0 < n"
  then have "(n + 119) div 120 = 1" using True by (intro div_nat_eqI) auto
  then show ?thesis using True by (simp add: frame_count_def)
next
  case False
  then have "n + 119 = (n - 120 + 119) + 120" by simp
  then have "(n + 119) div 120 = Suc ((n - 120 + 119) div 120)" by (metis Suc_eq_plus1 div_add_self2 zero_neq_numeral)
  then show ?thesis by (simp add: frame_count_def add.commute)
qed

lemma phone_parts_run:
  assumes "frame_count (length rest) = k" "k < 256" "MsgSequenceNumber p < 8" "fbus2_sync r" "type \<noteq> FBUS2_ACK_BYTE"
    "old = (if first then [] else multi_octets r)" "length old + length rest < 2 ^ 63"
    "\<not> first \<Longrightarrow> FramesToGo r = int k \<and> Msg_Type (MultiMsg r) = uint type"
    "phone_parts conn type k first rest p = (e, fs, p')"
  shows "\<exists>r'. run (FBUS2_StateMachine conn) r (concat fs) =
      (r', acks conn type k (MsgSequenceNumber p) @ (if k = 0 then [] else [Deliver (uint type) (old @ rest)]))
    \<and> fbus2_sync r' \<and> e = ERR_NONE \<and> MsgSequenceNumber p' < 8"
  using assms
proof (induction k arbitrary: first rest p r old e fs p')
  case 0
  then show ?case by (auto simp: phone_parts_def)
next
  case (Suc k)
  define s where "s = MsgSequenceNumber p"
  define seq where "seq = word_of_nat s + (if first then 0x40 else 0 :: byte)"
  define chunk where "chunk = take 120 rest"
  define f where "f = fbus2_frame (fbus2_id conn) FBUS2_DEVICE_PC FBUS2_DEVICE_PHONE (chunk @ [word_of_nat (Suc k), seq]) type"
  define p1 where "p1 = p\<lparr>MsgSequenceNumber := (s + 1) mod 8\<rparr>"
  obtain e1 fs1 p2 where rec: "phone_parts conn type k False (drop 120 rest) p1 = (e1, fs1, p2)" by (metis prod_cases3)
  have fs: "fs = f # fs1" "e = e1" "p' = p2"
    using Suc.prems(9) rec by (simp_all add: phone_parts_def Let_def write_result_def f_def seq_def chunk_def s_def p1_def)
  have s: "s < 8" using Suc.prems(3) by (simp add: s_def)
  have bits: "seq AND 0x40 = 0x40 \<longleftrightarrow> first" "seq AND 0xf = word_of_nat s AND 0xf"
    using sequence_bits [OF s] by (auto simp: seq_def)
  have frm: "uint (word_of_nat (Suc k) :: byte) = int (Suc k)" using Suc.prems(2) by (simp del: of_nat_Suc add: unsigned_of_nat take_bit_nat_eq_self)
  obtain r1 where r1: "run (FBUS2_StateMachine conn) r f =
      (r1, ack conn type seq @ (if (word_of_nat (Suc k) :: byte) = 1 then [Deliver (uint type) (old @ chunk)] else []))"
    "fbus2_sync r1" "multi_octets r1 = old @ chunk" "FramesToGo r1 = uint (word_of_nat (Suc k) :: byte) - 1"
    "Msg_Type (MultiMsg r1) = uint type"
    by (rule fbus2_part [of r chunk type old seq "word_of_nat (Suc k)" f conn])
       (use Suc.prems bits(1) frm in \<open>auto simp: f_def chunk_def\<close>)
  have "0 < length rest" using Suc.prems(1) by (cases rest) (simp_all add: frame_count_def)
  then have kc: "frame_count (length (drop 120 rest)) = k" using frame_count_step [of "length rest"] Suc.prems(1) by simp
  have "\<exists>r'. run (FBUS2_StateMachine conn) r1 (concat fs1) =
      (r', acks conn type k (MsgSequenceNumber p1) @ (if k = 0 then [] else [Deliver (uint type) ((old @ chunk) @ drop 120 rest)]))
    \<and> fbus2_sync r' \<and> e1 = ERR_NONE \<and> MsgSequenceNumber p2 < 8"
    by (rule Suc.IH [OF kc _ _ r1(2) Suc.prems(5) _ _ _ rec])
       (use Suc.prems(2,7) r1(3,4,5) frm in \<open>auto simp: p1_def chunk_def\<close>)
  moreover have "ack conn type seq = ack conn type (word_of_nat s)" using bits(2) by (simp add: ack_def)
  moreover have "(word_of_nat (Suc k) :: byte) = 1 \<longleftrightarrow> k = 0" using frm by (simp add: word_uint_eq_iff)
  moreover have "k = 0 \<Longrightarrow> drop 120 rest = []" using kc by (simp add: frame_count_def)
  ultimately show ?case using r1(1) fs
    by (auto simp: run_append s_def [symmetric] p1_def chunk_def Let_def)
qed

text \<open>A message the phone starts with sequence number \<open>s\<close>, and what it causes.\<close>

definition fbus2_blank :: GSM_Protocol_FBUS2Data where
  "fbus2_blank = \<lparr>MsgSequenceNumber = 0, Fbus_RXState = RX_Sync, FramesToGo = 0, MultiMsg = blank_message, Fbus_Msg = blank_message\<rparr>"

definition phone_message :: "fbus2_connection \<Rightarrow> byte \<times> byte list \<times> nat \<Rightarrow> byte list" where
  "phone_message conn = (\<lambda>(type, payload, s).
     concat (fst (snd (phone_parts conn type (frame_count (length payload)) True payload (fbus2_blank\<lparr>MsgSequenceNumber := s\<rparr>)))))"

definition phone_events :: "fbus2_connection \<Rightarrow> byte \<times> byte list \<times> nat \<Rightarrow> rx_event list" where
  "phone_events conn = (\<lambda>(type, payload, s). acks conn type (frame_count (length payload)) s @ [Deliver (uint type) payload])"

definition phone_ok :: "byte \<times> byte list \<times> nat \<Rightarrow> bool" where
  "phone_ok = (\<lambda>(type, payload, s). type \<noteq> FBUS2_ACK_BYTE \<and> 0 < length payload \<and> length payload \<le> 30600 \<and> s < 8)"

lemma fbus2_noise:
  "fbus2_sync d \<Longrightarrow> b \<noteq> fbus2_id conn \<Longrightarrow> b \<noteq> 0x20 \<Longrightarrow>
     snd (FBUS2_StateMachine conn d b) = [] \<and> fbus2_sync (fst (FBUS2_StateMachine conn d b))"
  by (simp add: fbus2_sync_def FBUS2_StateMachine_def Let_def)

lemma phone_message_run:
  assumes "fbus2_sync r" "phone_ok m"
  shows "snd (run (FBUS2_StateMachine conn) r (phone_message conn m)) = phone_events conn m
    \<and> fbus2_sync (fst (run (FBUS2_StateMachine conn) r (phone_message conn m)))"
proof -
  obtain type payload s where m: "m = (type, payload, s)" by (cases m)
  let ?k = "frame_count (length payload)" and ?p = "fbus2_blank\<lparr>MsgSequenceNumber := s\<rparr>"
  have ok: "type \<noteq> FBUS2_ACK_BYTE" "0 < length payload" "length payload \<le> 30600" "s < 8"
    using assms(2) by (simp_all add: m phone_ok_def)
  have "(length payload + 119) div 120 \<le> 30719 div 120" using ok(3) by (intro div_le_mono) simp
  then have k: "?k < 256" by (simp add: frame_count_def)
  have k0: "?k \<noteq> 0" using frame_count_step [OF ok(2)] by simp
  obtain e fs p' where w: "phone_parts conn type ?k True payload ?p = (e, fs, p')" by (metis prod_cases3)
  have "\<exists>r'. run (FBUS2_StateMachine conn) r (concat fs) =
      (r', acks conn type ?k (MsgSequenceNumber ?p) @ (if ?k = 0 then [] else [Deliver (uint type) ([] @ payload)]))
    \<and> fbus2_sync r' \<and> e = ERR_NONE \<and> MsgSequenceNumber p' < 8"
    by (rule phone_parts_run [OF refl k _ assms(1) ok(1) _ _ _ w]) (use ok in auto)
  then show ?thesis using w k0 by (auto simp: m phone_message_def phone_events_def)
qed

interpretation fbus2: framing_resync "FBUS2_StateMachine conn" "phone_message conn" "phone_events conn"
    fbus2_sync phone_ok "\<lambda>b. b \<noteq> fbus2_id conn \<and> b \<noteq> 0x20"
  for conn
  by unfold_locales (auto simp: phone_message_run fbus2_noise)



text \<open>
  Claim C37. A frame with one octet behind its header altered causes nothing: no delivery, no
  acknowledgement, and the message under construction stays as it was.
\<close>

theorem fbus2_altered_frame_dropped:
  fixes d :: GSM_Protocol_FBUS2Data
  assumes f: "f = fbus2_frame (fbus2_id conn) FBUS2_DEVICE_PC FBUS2_DEVICE_PHONE payload type"
    and "Fbus_RXState d = RX_Sync" "length payload < 65536" "6 \<le> i" "i < length f" "b \<noteq> f ! i"
    and d': "(d', es) = run (FBUS2_StateMachine conn) d (f[i := b])"
  shows "es = [] \<and> Fbus_RXState d' = RX_Sync \<and> MultiMsg d' = MultiMsg d \<and> FramesToGo d' = FramesToGo d
    \<and> MsgSequenceNumber d' = MsgSequenceNumber d"
proof -
  define n where "n = length payload"
  obtain body where w: "f = fbus2_header conn n type @ body" "length body = n + n mod 2 + 2"
    "xor_all (fbus2_header conn n type @ body) = 0" using fbus2_written [OF n_def] f by auto
  have h: "length (fbus2_header conn n type) = 6" by (simp add: fbus2_header_def length_octets_def)
  define body' where "body' = body[i - 6 := b]"
  have f': "f[i := b] = fbus2_header conn n type @ body'" using assms(4) h by (simp add: w(1) body'_def list_update_append)
  have "xor_all (f[i := b]) = f ! i XOR b" using xor_all_update [OF assms(5), of b] w(1,3) by simp
  then have "CheckSum0 (fbus2_got conn d n type body') \<noteq> CheckSum1 (fbus2_got conn d n type body')"
    using assms(6) word_eq_xor [of "f ! i" b] fbus2_got_sums f' by simp
  then have "run (FBUS2_StateMachine conn) d (f[i := b]) = (fbus2_drop d (fbus2_got conn d n type body'), [])"
    using fbus2_frame_run [OF assms(2), of n body' conn type] assms(3) w(2) f'
    by (simp add: n_def body'_def fbus2_frame_end_def)
  then show ?thesis using d' by (simp add: fbus2_drop_def)
qed

theorem fbus2_altered_frame_dropped_witness:
  "snd (run (FBUS2_StateMachine GCT_FBUS2) fbus2_blank
     ((fbus2_frame 0x1e FBUS2_DEVICE_PC FBUS2_DEVICE_PHONE [1, 2, 1, 0x40] 0x14)[7 := 3])) = []"
proof -
  define f where "f = fbus2_frame (fbus2_id GCT_FBUS2) FBUS2_DEVICE_PC FBUS2_DEVICE_PHONE [1, 2, 1, 0x40] 0x14"
  obtain d' es where r: "(d', es) = run (FBUS2_StateMachine GCT_FBUS2) fbus2_blank (f[7 := 3])" by (metis surj_pair)
  have "es = []"
    using fbus2_altered_frame_dropped [OF f_def _ _ _ _ _ r]
    by (simp add: f_def fbus2_blank_def fbus2_frame_def with_checksums_def length_octets_def)
  then show ?thesis using r by (simp add: f_def fbus2_id_def del: run.simps) (metis snd_conv)
qed

lemma fbus2_frame_length: "length (fbus2_frame fid dst src payload type) = 8 + length payload + length payload mod 2"
  by (simp add: fbus2_frame_def with_checksums_def length_octets_def odd_iff_mod_2_eq_one)

lemma write_parts_spec:
  assumes "\<And>p. length p \<le> 122 \<Longrightarrow> length (mk p) \<le> 130" "fbus2_write_parts dev mk k first rest d = (e, fs, d')"
  shows "(\<forall>f \<in> set fs. length f \<le> 130)
    \<and> (if e = ERR_NONE then length fs = k \<and> (\<forall>f \<in> set fs. dev f = length f)
       else e = ERR_DEVICEWRITEERROR \<and> fs \<noteq> [] \<and> dev (last fs) \<noteq> length (last fs) \<and> (\<forall>f \<in> set (butlast fs). dev f = length f))"
  using assms(2)
proof (induction k arbitrary: first rest d e fs d')
  case (Suc k)
  define frame where "frame = mk (take 120 rest @ [word_of_nat (Suc k), word_of_nat (MsgSequenceNumber d) + (if first then 0x40 else 0)])"
  define d1 where "d1 = d\<lparr>MsgSequenceNumber := (MsgSequenceNumber d + 1) mod 8\<rparr>"
  have len: "length frame \<le> 130" unfolding frame_def by (rule assms(1)) simp
  obtain e1 fs1 d2 where rec: "fbus2_write_parts dev mk k False (drop 120 rest) d1 = (e1, fs1, d2)" by (metis prod_cases3)
  show ?case
  proof (cases "dev frame = length frame")
    case True
    then have r: "e = e1" "fs = frame # fs1"
      using Suc.prems rec by (simp_all add: Let_def write_result_def frame_def d1_def)
    show ?thesis using Suc.IH [OF rec] len True r by auto
  next
    case False
    then have "e = ERR_DEVICEWRITEERROR" "fs = [frame]"
      using Suc.prems by (simp_all add: Let_def write_result_def frame_def)
    then show ?thesis using len False by simp
  qed
qed simp

text \<open>
  \<^verbatim>\<open>FBUS2_WriteMessage\<close> stays within its frame buffer of 130 octets, and stops with an
  error at the first frame the device does not take whole; else all frames are sent.
\<close>

theorem fbus2_write_message:
  assumes "FBUS2_WriteMessage dev conn MsgBuffer MsgType d = (e, fs, d')"
  shows "(\<forall>f \<in> set fs. length f \<le> FBUS2_MAX_TRANSMIT_LENGTH + 10)
    \<and> (if e = ERR_NONE then length fs = frame_count (length MsgBuffer) \<and> (\<forall>f \<in> set fs. dev f = length f)
       else e = ERR_DEVICEWRITEERROR \<and> fs \<noteq> [] \<and> dev (last fs) \<noteq> length (last fs) \<and> (\<forall>f \<in> set (butlast fs). dev f = length f))"
proof -
  have "length (FBUS2_WriteFrame conn p MsgType) \<le> 130" if "length p \<le> 122" for p
    using that by (cases "length p = 122") (simp_all add: FBUS2_WriteFrame_def fbus2_frame_length)
  from write_parts_spec [OF this assms [unfolded FBUS2_WriteMessage_def]] show ?thesis by simp
qed

theorem fbus2_write_message_witness:
  "fst (FBUS2_WriteMessage (\<lambda>f. 3) GCT_FBUS2 [1, 2] 0x14 fbus2_blank) = ERR_DEVICEWRITEERROR
   \<and> fst (FBUS2_WriteMessage length GCT_FBUS2 [1, 2] 0x14 fbus2_blank) = ERR_NONE"
proof -
  have c: "frame_count (length [1, 2 :: byte]) = Suc 0" by (simp add: frame_count_def)
  obtain e fs d' where w: "FBUS2_WriteMessage (\<lambda>f. 3) GCT_FBUS2 [1, 2] 0x14 fbus2_blank = (e, fs, d')" by (metis prod_cases3)
  obtain e2 fs2 d2 where w2: "FBUS2_WriteMessage length GCT_FBUS2 [1, 2] 0x14 fbus2_blank = (e2, fs2, d2)" by (metis prod_cases3)
  have "\<exists>f \<in> set fs. length f \<noteq> 3"
    using w unfolding FBUS2_WriteMessage_def c by (auto simp: FBUS2_WriteFrame_def fbus2_frame_length Let_def split: if_splits)
  then have "e = ERR_DEVICEWRITEERROR" using fbus2_write_message [OF w] by (auto split: if_splits)
  moreover have "e2 = ERR_NONE" using fbus2_write_message [OF w2] by (auto split: if_splits)
  ultimately show ?thesis using w w2 by simp
qed

end
