(* ===== verification/Mbus2.thy ===== *)
theory Mbus2 imports Protocol begin

text \<open>
  The MBUS2 layer of \<^verbatim>\<open>libgammu/protocol/nokia/mbus2.c\<close>: frames on a shared line, on which the
  sender also reads its own frames back, with a sequence number and one checksum.
\<close>

abbreviation MBUS2_FRAME_ID :: byte where "MBUS2_FRAME_ID \<equiv> 0x1f"
abbreviation MBUS2_DEVICE_PHONE :: byte where "MBUS2_DEVICE_PHONE \<equiv> 0x00"
abbreviation MBUS2_DEVICE_PC :: byte where "MBUS2_DEVICE_PC \<equiv> 0x10"
abbreviation MBUS2_ACK_BYTE :: byte where "MBUS2_ACK_BYTE \<equiv> 0x7f"

record GSM_Protocol_MBUS2Data =
  Mbus_SequenceNumber :: int
  Mbus_RXState :: GSM_Protocol_RXState
  Mbus_Msg :: GSM_Protocol_Message

subsection \<open>Sending\<close>

lemma mbus2_sequence_once:
  "base XOR word_of_int (n + 1) = 0x1f \<Longrightarrow> base XOR word_of_int (n + 1 + 1) \<noteq> (0x1f :: byte)"
proof
  assume "base XOR word_of_int (n + 1) = 0x1f" "base XOR word_of_int (n + 1 + 1) = 0x1f"
  then have "base XOR (base XOR word_of_int (n + 1)) = base XOR (base XOR word_of_int (n + 1 + 1))" by simp
  then show False by (simp add: xor.assoc [symmetric])
qed

text \<open>
  The loop that counts the sequence number on until the checksum is not 0x1f; \<open>base\<close> is the
  exclusive or of the octets before it.
\<close>

function mbus2_sequence :: "byte \<Rightarrow> int \<Rightarrow> int" where
  "mbus2_sequence base n =
     (if base XOR word_of_int (n + 1) = 0x1f then mbus2_sequence base (n + 1) else n + 1)"
  by pat_completeness auto
termination
  by (relation "measure (\<lambda>(base, n). if base XOR word_of_int (n + 1) = 0x1f then 1 else 0)")
     (auto dest: mbus2_sequence_once simp del: of_int_add)

declare mbus2_sequence.simps [simp del]

definition mbus2_octets :: "byte \<Rightarrow> byte \<Rightarrow> byte list \<Rightarrow> byte \<Rightarrow> byte list" where
  "mbus2_octets dst src MsgBuffer MsgType =
     [MBUS2_FRAME_ID, dst, src, MsgType] @ length_octets (length MsgBuffer) @ MsgBuffer"

definition mbus2_frame :: "byte \<Rightarrow> byte \<Rightarrow> byte list \<Rightarrow> byte \<Rightarrow> byte \<Rightarrow> byte list" where
  "mbus2_frame dst src MsgBuffer MsgType seq =
     (let f = mbus2_octets dst src MsgBuffer MsgType @ [seq] in f @ [xor_all f])"

definition MBUS2_WriteMessage ::
  "GSM_Protocol_MBUS2Data \<Rightarrow> byte list \<Rightarrow> byte \<Rightarrow> byte list \<times> GSM_Protocol_MBUS2Data" where
  "MBUS2_WriteMessage d MsgBuffer MsgType =
     (let seq = mbus2_sequence (xor_all (mbus2_octets MBUS2_DEVICE_PHONE MBUS2_DEVICE_PC MsgBuffer MsgType)) (Mbus_SequenceNumber d)
      in (mbus2_frame MBUS2_DEVICE_PHONE MBUS2_DEVICE_PC MsgBuffer MsgType (word_of_int seq), d\<lparr>Mbus_SequenceNumber := seq\<rparr>))"

text \<open>The length of an acknowledgement is taken with \<^verbatim>\<open>strlen\<close>.\<close>

definition MBUS2_SendAck :: "byte \<Rightarrow> byte list" where
  "MBUS2_SendAck sequence =
     (let buffer = [MBUS2_FRAME_ID, MBUS2_DEVICE_PHONE, MBUS2_DEVICE_PC, MBUS2_ACK_BYTE, sequence, 0];
          n = length (takeWhile (\<lambda>b. b \<noteq> 0) buffer)
      in take n (buffer[5 := xor_all (take n buffer)]))"

subsection \<open>Receiving\<close>

definition track :: "GSM_Protocol_Message \<Rightarrow> byte \<Rightarrow> GSM_Protocol_Message" where
  "track m b = m\<lparr>CheckSum0 := CheckSum1 m, CheckSum1 := CheckSum1 m XOR b\<rparr>"

definition MBUS2_StateMachine ::
  "GSM_Protocol_MBUS2Data \<Rightarrow> byte \<Rightarrow> GSM_Protocol_MBUS2Data \<times> rx_event list" where
  "MBUS2_StateMachine d rx_char =
     (let m = track (Mbus_Msg d) rx_char in
      case Mbus_RXState d of
        RX_GetMessage \<Rightarrow>
          (let (m1, es) = store_byte m rx_char in
           if Msg_Count m1 \<noteq> Msg_Length m1 + 2 then (d\<lparr>Mbus_Msg := m1\<rparr>, es)
           else if CheckSum0 m1 \<noteq> rx_char then (d\<lparr>Mbus_Msg := m1, Mbus_RXState := RX_Sync\<rparr>, es)
           else (d\<lparr>Mbus_Msg := m1, Mbus_RXState := RX_Sync\<rparr>,
                 es @ (if Destination m1 \<noteq> MBUS2_DEVICE_PHONE
                       then [Send (MBUS2_SendAck (Buffer m1 ! (Msg_Count m1 - 2))), deliver m1] else [])))
      | RX_GetLength2 \<Rightarrow>
          (if Msg_Type m = uint MBUS2_ACK_BYTE then (d\<lparr>Mbus_Msg := m, Mbus_RXState := RX_Sync\<rparr>, [])
           else
             let n = Msg_Length m + unat rx_char; m1 = m\<lparr>Msg_Length := n\<rparr> in
             (d\<lparr>Mbus_Msg := (if BufferUsed m1 < n + 2 then m1\<lparr>BufferUsed := n + 2, Buffer := reallocate (n + 2) (Buffer m1)\<rparr>
                             else m1),
                Mbus_RXState := RX_GetMessage\<rparr>, []))
      | RX_GetLength1 \<Rightarrow> (d\<lparr>Mbus_Msg := m\<lparr>Msg_Length := unat rx_char * 256\<rparr>, Mbus_RXState := RX_GetLength2\<rparr>, [])
      | RX_GetType \<Rightarrow> (d\<lparr>Mbus_Msg := m\<lparr>Msg_Type := uint rx_char\<rparr>, Mbus_RXState := RX_GetLength1\<rparr>, [])
      | RX_GetSource \<Rightarrow>
          (if rx_char \<noteq> MBUS2_DEVICE_PHONE \<and> rx_char \<noteq> MBUS2_DEVICE_PC
           then (d\<lparr>Mbus_Msg := m, Mbus_RXState := RX_Sync\<rparr>, [])
           else (d\<lparr>Mbus_Msg := m\<lparr>Source := rx_char\<rparr>, Mbus_RXState := RX_GetType\<rparr>, []))
      | RX_GetDestination \<Rightarrow>
          (if rx_char \<noteq> MBUS2_DEVICE_PC \<and> rx_char \<noteq> MBUS2_DEVICE_PHONE
           then (d\<lparr>Mbus_Msg := m, Mbus_RXState := RX_Sync\<rparr>, [])
           else (d\<lparr>Mbus_Msg := m\<lparr>Destination := rx_char\<rparr>, Mbus_RXState := RX_GetSource\<rparr>, []))
      | RX_Sync \<Rightarrow>
          (if rx_char \<noteq> MBUS2_FRAME_ID then (d\<lparr>Mbus_Msg := m\<rparr>, [])
           else (d\<lparr>Mbus_Msg := m\<lparr>CheckSum1 := MBUS2_FRAME_ID, Msg_Count := 0\<rparr>, Mbus_RXState := RX_GetDestination\<rparr>, [])))"

definition MBUS2_Initialise :: "GSM_Protocol_MBUS2Data \<Rightarrow> GSM_Protocol_MBUS2Data" where
  "MBUS2_Initialise d =
     d\<lparr>Mbus_Msg := (Mbus_Msg d)\<lparr>Msg_Length := 0, BufferUsed := 0, Buffer := []\<rparr>, Mbus_SequenceNumber := 0, Mbus_RXState := RX_Sync\<rparr>"

definition mbus2_init_calls :: "device_call list" where
  "mbus2_init_calls = [Checked (DeviceSetSpeed 9600), Checked (DeviceSetParity True), Checked (DeviceSetDtrRts False True)]"

subsection \<open>Frames\<close>

definition mbus2_sync :: "GSM_Protocol_MBUS2Data \<Rightarrow> bool" where
  "mbus2_sync d \<longleftrightarrow> Mbus_RXState d = RX_Sync \<and> BufferUsed (Mbus_Msg d) \<le> length (Buffer (Mbus_Msg d))"

text \<open>The message with its checksums after the octets \<open>cs\<close>.\<close>

definition tracked :: "GSM_Protocol_Message \<Rightarrow> byte list \<Rightarrow> GSM_Protocol_Message" where
  "tracked m cs = (filled m cs)\<lparr>CheckSum0 := (if cs = [] then CheckSum0 m else CheckSum1 m XOR xor_all (butlast cs)),
     CheckSum1 := CheckSum1 m XOR xor_all cs\<rparr>"

lemma tracked_Nil: "Msg_Count m = 0 \<Longrightarrow> tracked m [] = m"
  by (simp add: tracked_def filled_Nil)

lemma store_tracked:
  "length cs < length (Buffer m) \<Longrightarrow> store_byte (track (tracked m cs) b) b = (tracked m (cs @ [b]), [])"
  by (simp add: tracked_def track_def store_byte_def filled_def Cons_nth_drop_Suc [symmetric] xor_all_append xor.assoc)

lemma tracked_simps [simp]:
  "Msg_Count (tracked m cs) = length cs" "Msg_Length (tracked m cs) = Msg_Length m" "Msg_Type (tracked m cs) = Msg_Type m"
  "Buffer (tracked m cs) = Buffer (filled m cs)" "BufferUsed (tracked m cs) = BufferUsed m"
  "Source (tracked m cs) = Source m" "Destination (tracked m cs) = Destination m"
  by (simp_all add: tracked_def)

lemma tracked_sum: "bs \<noteq> [] \<Longrightarrow> CheckSum0 (tracked m bs) = last bs \<longleftrightarrow> CheckSum1 m XOR xor_all bs = 0"
  by (subst word_eq_xor) (cases bs rule: rev_cases; simp add: tracked_def xor_all_append xor.assoc)

definition mbus2_end :: "GSM_Protocol_MBUS2Data \<Rightarrow> GSM_Protocol_Message \<Rightarrow> byte list \<Rightarrow> GSM_Protocol_MBUS2Data \<times> rx_event list" where
  "mbus2_end d m bs =
     (d\<lparr>Mbus_Msg := tracked m bs, Mbus_RXState := RX_Sync\<rparr>,
      if CheckSum1 m XOR xor_all bs = 0 \<and> Destination m \<noteq> MBUS2_DEVICE_PHONE
      then [Send (MBUS2_SendAck (bs ! (length bs - 2))), deliver (tracked m bs)] else [])"

lemma mbus2_collect:
  assumes "Mbus_RXState d = RX_GetMessage" "Msg_Count (Mbus_Msg d) = 0" "length bs = Msg_Length (Mbus_Msg d) + 2"
    "length bs \<le> length (Buffer (Mbus_Msg d))"
  shows "run MBUS2_StateMachine d bs = mbus2_end d (Mbus_Msg d) bs"
proof -
  define st where "st cs = d\<lparr>Mbus_Msg := tracked (Mbus_Msg d) cs\<rparr>" for cs
  have "d = st []" using assms(2) by (simp add: st_def tracked_Nil)
  moreover have "run MBUS2_StateMachine (st []) bs = mbus2_end d (Mbus_Msg d) bs"
  proof (rule run_collect_all [where n = "length bs"])
    fix cs :: "byte list" and b assume l: "length cs + 1 < length bs"
    then show "MBUS2_StateMachine (st cs) b = (st (cs @ [b]), [])"
      using assms by (simp add: st_def MBUS2_StateMachine_def store_tracked Let_def)
  next
    fix cs :: "byte list" and b assume l: "length cs + 1 = length bs"
    have "CheckSum0 (tracked (Mbus_Msg d) (cs @ [b])) = b \<longleftrightarrow> CheckSum1 (Mbus_Msg d) XOR xor_all (cs @ [b]) = 0"
      using tracked_sum [of "cs @ [b]" "Mbus_Msg d"] by simp
    then show "MBUS2_StateMachine (st cs) b = mbus2_end d (Mbus_Msg d) (cs @ [b])"
      using assms l by (simp add: st_def MBUS2_StateMachine_def store_tracked Let_def mbus2_end_def)
  qed (use assms in simp_all)
  ultimately show ?thesis by simp
qed

text \<open>The header, octet by octet.\<close>

lemma mbus2_header_steps:
  "Mbus_RXState d = RX_Sync \<Longrightarrow> MBUS2_StateMachine d MBUS2_FRAME_ID =
     (d\<lparr>Mbus_Msg := (track (Mbus_Msg d) MBUS2_FRAME_ID)\<lparr>CheckSum1 := MBUS2_FRAME_ID, Msg_Count := 0\<rparr>, Mbus_RXState := RX_GetDestination\<rparr>, [])"
  "Mbus_RXState d = RX_GetDestination \<Longrightarrow> b = MBUS2_DEVICE_PC \<or> b = MBUS2_DEVICE_PHONE \<Longrightarrow> MBUS2_StateMachine d b =
     (d\<lparr>Mbus_Msg := (track (Mbus_Msg d) b)\<lparr>Destination := b\<rparr>, Mbus_RXState := RX_GetSource\<rparr>, [])"
  "Mbus_RXState d = RX_GetSource \<Longrightarrow> b = MBUS2_DEVICE_PC \<or> b = MBUS2_DEVICE_PHONE \<Longrightarrow> MBUS2_StateMachine d b =
     (d\<lparr>Mbus_Msg := (track (Mbus_Msg d) b)\<lparr>Source := b\<rparr>, Mbus_RXState := RX_GetType\<rparr>, [])"
  "Mbus_RXState d = RX_GetType \<Longrightarrow> MBUS2_StateMachine d b =
     (d\<lparr>Mbus_Msg := (track (Mbus_Msg d) b)\<lparr>Msg_Type := uint b\<rparr>, Mbus_RXState := RX_GetLength1\<rparr>, [])"
  "Mbus_RXState d = RX_GetLength1 \<Longrightarrow> MBUS2_StateMachine d b =
     (d\<lparr>Mbus_Msg := (track (Mbus_Msg d) b)\<lparr>Msg_Length := unat b * 256\<rparr>, Mbus_RXState := RX_GetLength2\<rparr>, [])"
  by (auto simp: MBUS2_StateMachine_def Let_def)

definition mbus2_room :: "GSM_Protocol_Message \<Rightarrow> nat \<Rightarrow> GSM_Protocol_Message" where
  "mbus2_room m n =
     (if BufferUsed m < n + 2 then m\<lparr>BufferUsed := n + 2, Buffer := reallocate (n + 2) (Buffer m)\<rparr> else m)"

lemma mbus2_length_step:
  "Mbus_RXState d = RX_GetLength2 \<Longrightarrow> Msg_Type (Mbus_Msg d) \<noteq> uint MBUS2_ACK_BYTE \<Longrightarrow>
     Msg_Length (Mbus_Msg d) + unat b = n \<Longrightarrow>
     MBUS2_StateMachine d b =
       (d\<lparr>Mbus_Msg := mbus2_room ((track (Mbus_Msg d) b)\<lparr>Msg_Length := n\<rparr>) n, Mbus_RXState := RX_GetMessage\<rparr>, [])"
  by (auto simp: MBUS2_StateMachine_def Let_def track_def mbus2_room_def)

lemma mbus2_frame_run:
  assumes "mbus2_sync d" "length payload < 65000" "type \<noteq> MBUS2_ACK_BYTE" "dst = MBUS2_DEVICE_PC \<or> dst = MBUS2_DEVICE_PHONE"
    "src = MBUS2_DEVICE_PC \<or> src = MBUS2_DEVICE_PHONE" "length trailer = 2"
  shows "snd (run MBUS2_StateMachine d (mbus2_octets dst src payload type @ trailer)) =
      (if xor_all (mbus2_octets dst src payload type @ trailer) = 0 \<and> dst = MBUS2_DEVICE_PC
       then [Send (MBUS2_SendAck (trailer ! 0)), Deliver (uint type) payload] else [])
    \<and> mbus2_sync (fst (run MBUS2_StateMachine d (mbus2_octets dst src payload type @ trailer)))"
proof -
  define n where "n = length payload"
  have n: "n < 65536" using assms(2) by (simp add: n_def)
  define h where "h = [MBUS2_FRAME_ID, dst, src, type] @ length_octets n"
  define m0 where "m0 = (Mbus_Msg d)\<lparr>Msg_Count := 0, Destination := dst, Source := src, Msg_Type := uint type,
      CheckSum0 := xor_all (butlast h), CheckSum1 := xor_all h, Msg_Length := n\<rparr>"
  define m where "m = mbus2_room m0 n"
  have t: "uint type \<noteq> uint MBUS2_ACK_BYTE" using assms(3) by (simp add: word_uint_eq_iff)
  have run_h: "run MBUS2_StateMachine d h = (d\<lparr>Mbus_Msg := m, Mbus_RXState := RX_GetMessage\<rparr>, [])"
    using assms(1) t length_octets_value [OF n] unfolding h_def length_octets_def m_def m0_def
    by (simp add: mbus2_header_steps assms(4,5) mbus2_length_step [where n = n] track_def xor.assoc mbus2_sync_def)
  have m: "n + 2 \<le> length (Buffer m)" "Msg_Length m = n" "Msg_Count m = 0" "Destination m = dst" "CheckSum1 m = xor_all h"
      "Msg_Type m = uint type" "BufferUsed m \<le> length (Buffer m)"
    using assms(1) n by (auto simp: m_def mbus2_room_def m0_def mbus2_sync_def)
  have f: "mbus2_octets dst src payload type @ trailer = h @ (payload @ trailer)"
    by (simp add: mbus2_octets_def h_def n_def)
  have c: "run MBUS2_StateMachine (d\<lparr>Mbus_Msg := m, Mbus_RXState := RX_GetMessage\<rparr>) (payload @ trailer) =
      mbus2_end (d\<lparr>Mbus_Msg := m, Mbus_RXState := RX_GetMessage\<rparr>) m (payload @ trailer)"
    using mbus2_collect [of "d\<lparr>Mbus_Msg := m, Mbus_RXState := RX_GetMessage\<rparr>" "payload @ trailer"] m assms(6)
    by (simp add: n_def)
  have "(payload @ trailer) ! (length (payload @ trailer) - 2) = trailer ! 0" using assms(6) by (simp add: nth_append)
  moreover have "deliver (tracked m (payload @ trailer)) = Deliver (uint type) payload"
    using m by (simp add: deliver_def n_def)
  moreover have "dst \<noteq> MBUS2_DEVICE_PHONE \<longleftrightarrow> dst = MBUS2_DEVICE_PC" using assms(4) by auto
  moreover have "run MBUS2_StateMachine d (h @ (payload @ trailer)) =
      mbus2_end (d\<lparr>Mbus_Msg := m, Mbus_RXState := RX_GetMessage\<rparr>) m (payload @ trailer)"
    unfolding run_append [of _ d h "payload @ trailer"] run_h by (simp only: c Let_def split_conv append_Nil) (simp add: mbus2_end_def)
  moreover have "xor_all (h @ (payload @ trailer)) = CheckSum1 m XOR xor_all (payload @ trailer)"
    by (simp add: m(5) xor_all_append)
  moreover have "length (Buffer (tracked m (payload @ trailer))) = length (Buffer m)"
    using m(1) assms(6) by (simp add: n_def)
  ultimately show ?thesis using m(4,7) unfolding f
    by (simp add: mbus2_end_def mbus2_sync_def)
qed

lemma mbus2_frame_sum: "xor_all (mbus2_octets dst src payload type @ [seq, xor_all (mbus2_octets dst src payload type @ [seq])]) = 0"
  by (simp add: xor_all_append xor.assoc xor.left_commute)

text \<open>
  Messages on the line: of the phone, with any sequence number, and our own, which come back.
\<close>

datatype mbus2_traffic = Phone byte "byte list" byte | Echo byte "byte list" byte

fun mbus2_line :: "mbus2_traffic \<Rightarrow> byte list" where
  "mbus2_line (Phone type payload seq) = mbus2_frame MBUS2_DEVICE_PC MBUS2_DEVICE_PHONE payload type seq"
| "mbus2_line (Echo type payload seq) = mbus2_frame MBUS2_DEVICE_PHONE MBUS2_DEVICE_PC payload type seq"

fun mbus2_events :: "mbus2_traffic \<Rightarrow> rx_event list" where
  "mbus2_events (Phone type payload seq) = [Send (MBUS2_SendAck seq), Deliver (uint type) payload]"
| "mbus2_events (Echo type payload seq) = []"

fun mbus2_ok :: "mbus2_traffic \<Rightarrow> bool" where
  "mbus2_ok (Phone type payload seq) \<longleftrightarrow> type \<noteq> MBUS2_ACK_BYTE \<and> length payload < 65000"
| "mbus2_ok (Echo type payload seq) \<longleftrightarrow> type \<noteq> MBUS2_ACK_BYTE \<and> length payload < 65000"

lemma mbus2_frame_trailer:
  "mbus2_frame dst src payload type seq =
     mbus2_octets dst src payload type @ [seq, xor_all (mbus2_octets dst src payload type @ [seq])]"
  by (simp add: mbus2_frame_def Let_def)

interpretation mbus2: framing_resync MBUS2_StateMachine mbus2_line mbus2_events mbus2_sync mbus2_ok "\<lambda>b. b \<noteq> MBUS2_FRAME_ID"
proof
  fix st :: GSM_Protocol_MBUS2Data and m :: mbus2_traffic
  assume "mbus2_sync st" "mbus2_ok m"
  then show "snd (run MBUS2_StateMachine st (mbus2_line m)) = mbus2_events m"
    "mbus2_sync (fst (run MBUS2_StateMachine st (mbus2_line m)))"
    by (cases m; simp add: mbus2_frame_trailer mbus2_frame_run mbus2_frame_sum)+
next
  fix st :: GSM_Protocol_MBUS2Data and b :: byte
  assume "mbus2_sync st" "b \<noteq> MBUS2_FRAME_ID"
  then show "snd (MBUS2_StateMachine st b) = [] \<and> mbus2_sync (fst (MBUS2_StateMachine st b))"
    by (simp add: mbus2_sync_def MBUS2_StateMachine_def Let_def track_def)
qed

text \<open>
  On the shared line the messages of the phone are delivered once, in order, each
  after an acknowledgement, and our own frames read back cause nothing.
\<close>

theorem mbus2_delivers:
  fixes d :: GSM_Protocol_MBUS2Data
  assumes "\<forall>b \<in> set junk. b \<noteq> MBUS2_FRAME_ID" "\<forall>m \<in> set ms. mbus2_ok m"
  shows "snd (run MBUS2_StateMachine (MBUS2_Initialise d) (junk @ concat (map mbus2_line ms))) = concat (map mbus2_events ms)"
  by (rule mbus2.noise_then_stream) (use assms in \<open>simp_all add: mbus2_sync_def MBUS2_Initialise_def\<close>)

definition mbus2_blank :: GSM_Protocol_MBUS2Data where
  "mbus2_blank = \<lparr>Mbus_SequenceNumber = 0, Mbus_RXState = RX_Sync, Mbus_Msg = blank_message\<rparr>"

theorem mbus2_delivers_witness:
  "snd (run MBUS2_StateMachine (MBUS2_Initialise mbus2_blank)
      ([0] @ mbus2_line (Echo 1 [2] 3) @ mbus2_line (Phone 4 [5, 6] 7))) = [Send (MBUS2_SendAck 7), Deliver 4 [5, 6]]"
  using mbus2_delivers [of "[0]" "[Echo 1 [2] 3, Phone 4 [5, 6] 7]" mbus2_blank] by (simp del: run.simps mbus2_line.simps)

text \<open>
  The loop for the sequence number ends after at most two rounds, and the frame sent
  has a checksum other than 0x1f, the octet that some phones cannot take there.
\<close>

theorem mbus2_sequence_number:
  "mbus2_sequence base n \<in> {n + 1, n + 2} \<and> base XOR word_of_int (mbus2_sequence base n) \<noteq> 0x1f
   \<and> last (fst (MBUS2_WriteMessage d MsgBuffer MsgType)) \<noteq> 0x1f"
proof -
  have s: "mbus2_sequence base n \<in> {n + 1, n + 2} \<and> base XOR word_of_int (mbus2_sequence base n) \<noteq> 0x1f" for base n
  proof (cases "base XOR word_of_int (n + 1) = 0x1f")
    case True
    then have "mbus2_sequence base n = n + 1 + 1"
      using mbus2_sequence_once [OF True] by (simp add: mbus2_sequence.simps del: of_int_add)
    then show ?thesis using mbus2_sequence_once [OF True] by (simp del: of_int_add)
  qed (simp add: mbus2_sequence.simps del: of_int_add)
  show ?thesis
    using s [of base n] s [of "xor_all (mbus2_octets MBUS2_DEVICE_PHONE MBUS2_DEVICE_PC MsgBuffer MsgType)" "Mbus_SequenceNumber d"]
    by (simp add: MBUS2_WriteMessage_def mbus2_frame_trailer Let_def xor_all_append)
qed

text \<open>The acknowledgement has a zero octet in second place, so only its first octet is sent.\<close>

lemma mbus2_ack_cut: "MBUS2_SendAck sequence = [MBUS2_FRAME_ID]"
  by (simp add: MBUS2_SendAck_def Let_def)

end
