(* ===== verification/AtProto.thy ===== *)
theory AtProto imports Protocol begin

text \<open>
  The AT layer of \<^verbatim>\<open>libgammu/protocol/at/at.c\<close>: the text a modem sends is collected line by line
  until a line that ends an answer; unsolicited lines in between are delivered on their own and
  cut out of the answer.
\<close>

record GSM_Protocol_ATData =
  At_Msg :: GSM_Protocol_Message
  wascrlf :: bool
  LineStart :: nat
  LineEnd :: nat
  SpecialAnswerLines :: nat
  SpecialAnswerStart :: nat
  EditMode :: bool
  FastWrite :: bool
  CPINNoOK :: bool
  At_RequestID :: GSM_Phone_RequestID

text \<open>
  \<open>At_RequestID\<close> is \<^verbatim>\<open>Phone.Data.RequestID\<close>. The reply functions of the phone modules are a
  parameter \<open>h\<close>: for the type and octets of a message, what they make of edit mode and request.
\<close>

type_synonym at_handler = "int \<Rightarrow> byte list \<Rightarrow> bool \<times> GSM_Phone_RequestID \<Rightarrow> bool \<times> GSM_Phone_RequestID"

definition size_max :: nat where "size_max = 2 ^ 64 - 1"

subsection \<open>Sending\<close>

text \<open>\<open>dev\<close> is the count of octets \<^verbatim>\<open>WriteDevice\<close> takes of those offered, negative on errors.\<close>

function at_fast_write :: "(byte list \<Rightarrow> int) \<Rightarrow> byte list \<Rightarrow> GSM_Error" where
  "at_fast_write dev octets =
     (if octets = [] then ERR_NONE
      else if dev octets \<le> 0 then ERR_DEVICEWRITEERROR
      else at_fast_write dev (drop (nat (dev octets)) octets))"
  by pat_completeness auto
termination
  by (relation "measure (\<lambda>(dev, octets). length octets)") auto

declare at_fast_write.simps [simp del]

fun at_slow_write :: "(byte list \<Rightarrow> int) \<Rightarrow> byte list \<Rightarrow> GSM_Error" where
  "at_slow_write dev [] = ERR_NONE"
| "at_slow_write dev (b # bs) = (if dev [b] \<noteq> 1 then ERR_DEVICEWRITEERROR else at_slow_write dev bs)"

definition AT_WriteMessage :: "GSM_Protocol_ATData \<Rightarrow> (byte list \<Rightarrow> int) \<Rightarrow> byte list \<Rightarrow> GSM_Error" where
  "AT_WriteMessage d dev octets = (if FastWrite d then at_fast_write dev octets else at_slow_write dev octets)"

subsection \<open>Tables\<close>

definition StatusStrings :: "byte list list" where
  "StatusStrings = map bytes_of [''OK'' @ [CHR 0x0D], ''ERROR'' @ [CHR 0x0D], ''OK'' @ [CHR 0x0A], ''ERROR'' @ [CHR 0x0A],
     ''+CME ERROR:'', ''+CMS ERROR:'', ''MODEM ERROR:'', ''COMMAND NOT SUPPORT'']"

definition SpecialAnswers :: "(byte list \<times> nat \<times> GSM_Phone_RequestID) list" where
  "SpecialAnswers = map (apfst bytes_of) [
    (''+CGREG:'', 1, ID_GetNetworkInfo),
    (''+CBM:'', 2, ID_All),
    (''+CMT:'', 2, ID_All),
    (''+CMTI:'', 1, ID_All),
    (''+CDS:'', 2, ID_All),
    (''+CDSI:'', 1, ID_All),
    (''+CREG:'', 1, ID_GetNetworkInfo),
    (''+CUSD'', 1, ID_All),
    (''+COLP'', 1, ID_All),
    (''+CLIP'', 1, ID_All),
    (''+CRING'', 1, ID_All),
    (''+CCWA'', 1, ID_All),
    (''+CLCC'', 1, ID_All),
    (''RING'', 1, ID_All),
    (''NO CARRIER'', 1, ID_All),
    (''NO ANSWER'', 1, ID_All),
    (''+ECIND:'', 1, ID_All),
    (''+QIND: SMS DONE'', 1, ID_All),
    (''_OSIGQ:'', 1, ID_All),
    (''_OBS:'', 1, ID_All),
    (''^SCN:'', 1, ID_All),
    (''*EBCA'', 1, ID_All),
    (''SDNDCRC ='', 1, ID_All),
    (''SAMSUNG PTS DG Test'', 1, ID_All),
    (''NOT FOND ^,NOT CUSTOM AT'', 1, ID_All),
    (''+MBAN:'', 1, ID_All),
    (''+ZEND'', 1, ID_All),
    (''^RSSI:'', 1, ID_All),
    (''^HCSQ:'', 1, ID_All),
    (''^DSFLOWRPT:'', 1, ID_All),
    (''^BOOT:'', 1, ID_All),
    (''^MODE:'', 1, ID_All),
    (''^CSNR:'', 1, ID_All),
    (''^HCSQ:'', 1, ID_All),
    (''^SRVST:'', 1, ID_All),
    (''^SIMST:'', 1, ID_All),
    (''^STIN:'', 1, ID_All),
    (''^NWTIME:'', 1, ID_All),
    (''+SPNWNAME:'', 1, ID_All),
    (''+PSBEARER:'', 1, ID_All),
    (''+ZUSIMR:'', 1, ID_All),
    (''#STN:'', 1, ID_All)
  ]"

subsection \<open>Receiving\<close>

text \<open>\<^verbatim>\<open>strncmp(text, Buffer + start, strlen(text)) == 0\<close> for a text without zero octets.\<close>

definition buffer_has :: "byte list \<Rightarrow> GSM_Protocol_Message \<Rightarrow> nat \<Rightarrow> bool" where
  "buffer_has txt m start \<longleftrightarrow> take (length txt) (drop start (Buffer m)) = txt"

text \<open>\<^verbatim>\<open>strcmp(Buffer + start, text) == 0\<close>.\<close>

definition buffer_is :: "byte list \<Rightarrow> GSM_Protocol_Message \<Rightarrow> nat \<Rightarrow> bool" where
  "buffer_is txt m start \<longleftrightarrow> take (length txt + 1) (drop start (Buffer m)) = txt @ [0]"

definition at_dispatch :: "at_handler \<Rightarrow> GSM_Protocol_ATData \<Rightarrow> GSM_Protocol_Message \<Rightarrow> GSM_Protocol_ATData \<times> rx_event list" where
  "at_dispatch h d m =
     (let (edit, request) = h (Msg_Type m) (take (Msg_Length m) (Buffer m)) (EditMode d, At_RequestID d) in
      (d\<lparr>EditMode := edit, At_RequestID := request\<rparr>, [deliver m]))"

definition at_empty :: "GSM_Protocol_ATData \<Rightarrow> GSM_Protocol_ATData" where
  "at_empty d = d\<lparr>At_Msg := (At_Msg d)\<lparr>Msg_Length := 0\<rparr>\<rparr>"

text \<open>
  The search in the table of special answers. An entry that is the answer to the current request
  makes the loop skip the entry after it too; behind the last one it would leave the table.
\<close>

fun special_search ::
  "GSM_Protocol_Message \<Rightarrow> nat \<Rightarrow> GSM_Phone_RequestID \<Rightarrow> (byte list \<times> nat \<times> GSM_Phone_RequestID) list
   \<Rightarrow> nat option \<Rightarrow> nat option option" where
  "special_search m start req [] found = Some found"
| "special_search m start req ((txt, n, rid) # rest) found =
     (if buffer_has txt m start then
        if req = rid \<or> ((req = ID_SetOBEX \<or> req = ID_DialVoice) \<and> txt = bytes_of ''NO CARRIER'')
        then (case rest of [] \<Rightarrow> None | _ # rest' \<Rightarrow> special_search m start req rest' found)
        else special_search m start req rest (Some n)
      else special_search m start req rest found)"

text \<open>The new scan of what is left: \<^verbatim>\<open>LineEnd\<close> and \<^verbatim>\<open>LineStart\<close> are set to the length of it.\<close>

fun rescan :: "byte list \<Rightarrow> nat \<Rightarrow> bool \<times> nat \<times> nat \<Rightarrow> bool \<times> nat \<times> nat" where
  "rescan [] n st = st"
| "rescan (b # bs) n (seen, start, end1) =
     rescan bs n
       (if b = 0 then (seen, start, end1)
        else if b = 10 \<or> b = 13 then (True, start, if seen then end1 else n)
        else if seen then (False, n, end1) else (seen, start, end1))"

definition special_end :: "at_handler \<Rightarrow> GSM_Protocol_ATData \<Rightarrow> GSM_Protocol_ATData \<times> rx_event list" where
  "special_end h d =
     (let m = At_Msg d; n = LineEnd d + 2 - SpecialAnswerStart d in
      if LineEnd d < SpecialAnswerStart d \<or> SpecialAnswerStart d + n > length (Buffer m) then (d, [OutOfRange])
      else
        let (d1, es) = at_dispatch h d (blank_message\<lparr>Msg_Length := n, Buffer := take n (drop (SpecialAnswerStart d) (Buffer m))\<rparr>);
            cut = SpecialAnswerStart d;
            (seen, start, end1) = rescan (take cut (Buffer m)) cut (False, 0, LineEnd d) in
        (d1\<lparr>At_Msg := m\<lparr>Msg_Length := cut, Buffer := (Buffer m)[cut := 0]\<rparr>,
            wascrlf := seen, LineStart := start, LineEnd := end1\<rparr>, es))"

definition special_step :: "at_handler \<Rightarrow> GSM_Protocol_ATData \<Rightarrow> GSM_Protocol_ATData \<times> rx_event list" where
  "special_step h d =
     (case special_search (At_Msg d) (LineStart d) (At_RequestID d) SpecialAnswers None of
        None \<Rightarrow> (d, [OutOfRange])
      | Some found \<Rightarrow>
          (let d1 = (case found of None \<Rightarrow> d
                     | Some n \<Rightarrow> d\<lparr>SpecialAnswerStart := LineStart d, SpecialAnswerLines := n\<rparr>);
               (d2, es) = (if SpecialAnswerLines d1 = 1 then special_end h d1 else (d1, []))
           in (d2\<lparr>SpecialAnswerLines := SpecialAnswerLines d2 - 1\<rparr>, es)))"

text \<open>A line is complete.\<close>

definition at_line :: "at_handler \<Rightarrow> GSM_Protocol_ATData \<Rightarrow> GSM_Protocol_ATData \<times> rx_event list" where
  "at_line h d =
     (let m = At_Msg d in
      if EditMode d \<and> LineStart d < Msg_Length m \<and> LineEnd d > LineStart d \<and> LineEnd d - LineStart d = 1
         \<and> buffer_has (bytes_of ''>'') m (LineStart d)
      then at_dispatch h d m
      else
        let (d1, es1) = (if \<exists>s \<in> set StatusStrings. buffer_has s m (LineStart d)
                         then let (d', es) = at_dispatch h d m in (at_empty d', es) else (d, []));
            (d2, es2) = (if CPINNoOK d1 \<and> buffer_has (bytes_of ''+CPIN: '') (At_Msg d1) (LineStart d1)
                         then let (d', es) = at_dispatch h d1 (At_Msg d1) in (at_empty d', es)
                         else special_step h d1)
        in (d2, es1 @ es2))"

definition at_store :: "GSM_Protocol_ATData \<Rightarrow> byte \<Rightarrow> GSM_Protocol_ATData" where
  "at_store d rx_char =
     (let m = At_Msg d; n = Msg_Length m;
          m1 = (if BufferUsed m < n + 2 then m\<lparr>BufferUsed := n + 200, Buffer := reallocate (n + 200) (Buffer m)\<rparr> else m) in
      d\<lparr>At_Msg := m1\<lparr>Buffer := (Buffer m1)[n := rx_char, n + 1 := 0], Msg_Length := n + 1\<rparr>\<rparr>)"

definition at_text :: "at_handler \<Rightarrow> GSM_Protocol_ATData \<Rightarrow> GSM_Protocol_ATData \<times> rx_event list" where
  "at_text h d =
     (let d1 = (if wascrlf d then d\<lparr>LineStart := Msg_Length (At_Msg d) - 1, wascrlf := False\<rparr> else d) in
      if EditMode d1 \<and> buffer_is (bytes_of ''> '') (At_Msg d1) (LineStart d1) then at_dispatch h d1 (At_Msg d1)
      else (d1, []))"

definition AT_StateMachine ::
  "at_handler \<Rightarrow> GSM_Protocol_ATData \<Rightarrow> byte \<Rightarrow> GSM_Protocol_ATData \<times> rx_event list" where
  "AT_StateMachine h d0 rx_char =
     (if Msg_Length (At_Msg d0) = 0 \<and> rx_char \<in> {10, 13, 27} then (d0, [])
      else
        let d = at_store (if Msg_Length (At_Msg d0) = 0 then d0\<lparr>LineStart := 0\<rparr> else d0) rx_char; m = At_Msg d in
        if rx_char = 0 then (d, [])
        else if rx_char = 10 \<or> rx_char = 13 then
          (let d1 = (if wascrlf d then d else d\<lparr>LineEnd := Msg_Length m - 1, wascrlf := True\<rparr>) in
           if rx_char = 10 \<and> Buffer m ! (Msg_Length m - 2) = 13 then at_line h d1 else (d1, []))
        else if rx_char = 84 \<and> buffer_has (bytes_of ''CONNECT'') m (LineStart d) then
          (let (d1, es) = at_dispatch h d m in ((at_empty d1)\<lparr>LineStart := size_max\<rparr>, es))
        else at_text h d)"

definition AT_Initialise :: "bool \<Rightarrow> GSM_Protocol_ATData \<Rightarrow> GSM_Protocol_ATData" where
  "AT_Initialise cable d =
     d\<lparr>At_Msg := (At_Msg d)\<lparr>Buffer := [], BufferUsed := 0, Msg_Length := 0, Msg_Type := 0\<rparr>,
       SpecialAnswerLines := 0, LineStart := size_max, LineEnd := size_max, wascrlf := False, EditMode := False,
       FastWrite := \<not> cable, CPINNoOK := False\<rparr>"

definition at_init_calls :: "nat \<Rightarrow> device_call list" where
  "at_init_calls Speed = [Checked (DeviceSetParity False), Checked (DeviceSetDtrRts True True), Checked (DeviceSetSpeed Speed)]"

subsection \<open>The collected text\<close>

text \<open>The buffer holds \<open>txt\<close> with a terminator; an emptied buffer keeps old cells.\<close>

definition at_holds :: "GSM_Protocol_ATData \<Rightarrow> byte list \<Rightarrow> bool" where
  "at_holds d txt \<longleftrightarrow> Msg_Length (At_Msg d) = length txt \<and> BufferUsed (At_Msg d) = length (Buffer (At_Msg d))
     \<and> Msg_Type (At_Msg d) = 0 \<and> (txt \<noteq> [] \<longrightarrow> (\<exists>rest. Buffer (At_Msg d) = txt @ 0 # rest))"

definition starts :: "byte list \<Rightarrow> byte list \<Rightarrow> bool" where
  "starts p l \<longleftrightarrow> take (length p) l = p"

lemma starts_iff: "starts p l \<longleftrightarrow> (\<exists>r. l = p @ r)"
  unfolding starts_def by (metis append_eq_conv_conj append_take_drop_id)

lemma starts_append: "starts p l \<Longrightarrow> starts p (l @ r)"
  by (auto simp: starts_iff)

lemma starts_stop:
  assumes "b \<notin> set p"
  shows "starts p (l @ b # r) \<longleftrightarrow> starts p l"
proof (cases "length p \<le> length l")
  case True
  then show ?thesis by (simp add: starts_def)
next
  case False
  have "b \<in> set p" if eq: "l @ b # r = p @ s" for s
  proof -
    have "p ! length l = b" using arg_cong [OF eq, of "\<lambda>x. x ! length l"] False by (simp add: nth_append)
    then show ?thesis using False nth_mem [of "length l" p] by simp
  qed
  then have "\<not> starts p (l @ b # r)" using assms by (auto simp: starts_iff)
  moreover have "\<not> starts p l" using False by (auto simp: starts_iff)
  ultimately show ?thesis by simp
qed

lemma list_poke:
  assumes "n + 2 \<le> length xs"
  shows "xs[n := a, n + 1 := b] = take n xs @ a # b # drop (n + 2) xs"
proof -
  obtain y ys where y: "drop (Suc n) xs = y # ys" using assms by (cases "drop (Suc n) xs") auto
  then have "ys = drop (n + 2) xs" using drop_Suc_Cons [of "Suc n" "hd xs" "tl xs"] by (metis add_2_eq_Suc' drop_Suc list.sel(3) tl_drop)
  moreover have "xs[n := a] = take n xs @ a # y # ys" using assms y by (simp add: upd_conv_take_nth_drop)
  ultimately show ?thesis using assms by (simp add: list_update_append)
qed

lemma at_store_holds:
  assumes "at_holds d txt" "length txt < 2 ^ 62"
  shows "at_holds (at_store d b) (txt @ [b])"
proof -
  let ?n = "length txt" and ?m = "At_Msg d"
  define m1 where "m1 = (if BufferUsed ?m < ?n + 2 then ?m\<lparr>BufferUsed := ?n + 200, Buffer := reallocate (?n + 200) (Buffer ?m)\<rparr> else ?m)"
  have l: "?n + 2 \<le> length (Buffer m1)" "BufferUsed m1 = length (Buffer m1)" "Msg_Type m1 = 0"
    using assms by (auto simp: m1_def at_holds_def)
  have "take ?n (Buffer m1) = txt"
    using assms by (auto simp: m1_def at_holds_def reallocate_def)
  then have b: "(Buffer m1)[?n := b, ?n + 1 := 0] = txt @ b # 0 # drop (?n + 2) (Buffer m1)"
    using list_poke [OF l(1), of b 0] by simp
  have "At_Msg (at_store d b) = m1\<lparr>Buffer := (Buffer m1)[?n := b, ?n + 1 := 0], Msg_Length := ?n + 1\<rparr>"
    using assms(1) by (simp add: at_store_def Let_def m1_def at_holds_def)
  then show ?thesis using l b by (simp add: at_holds_def)
qed

lemma at_store_simps [simp]:
  "wascrlf (at_store d b) = wascrlf d" "LineStart (at_store d b) = LineStart d" "LineEnd (at_store d b) = LineEnd d"
  "SpecialAnswerLines (at_store d b) = SpecialAnswerLines d" "SpecialAnswerStart (at_store d b) = SpecialAnswerStart d"
  "EditMode (at_store d b) = EditMode d" "CPINNoOK (at_store d b) = CPINNoOK d" "At_RequestID (at_store d b) = At_RequestID d"
  by (simp_all add: at_store_def Let_def)

lemma at_holds_cong: "At_Msg d = At_Msg d' \<Longrightarrow> at_holds d txt = at_holds d' txt"
  by (simp add: at_holds_def)

text \<open>What comparing with the buffer means for the text in it.\<close>

lemma buffer_has_iff:
  assumes "at_holds d txt" "txt \<noteq> []" "start \<le> length txt" "0 \<notin> set p"
  shows "buffer_has p (At_Msg d) start \<longleftrightarrow> starts p (drop start txt)"
proof -
  obtain rest where "Buffer (At_Msg d) = txt @ 0 # rest" using assms(1,2) by (auto simp: at_holds_def)
  then have "drop start (Buffer (At_Msg d)) = drop start txt @ 0 # rest" using assms(3) by simp
  then show ?thesis using starts_stop [OF assms(4), of "drop start txt" rest] by (simp add: buffer_has_def starts_def)
qed

lemma buffer_has_msg [simp]:
  "buffer_has p (m\<lparr>Msg_Length := n\<rparr>) start = buffer_has p m start"
  by (simp add: buffer_has_def)

text \<open>The fields a line of text leaves alone.\<close>

definition at_same :: "GSM_Protocol_ATData \<Rightarrow> GSM_Protocol_ATData \<Rightarrow> bool" where
  "at_same d d' \<longleftrightarrow> SpecialAnswerLines d' = SpecialAnswerLines d \<and> SpecialAnswerStart d' = SpecialAnswerStart d
     \<and> EditMode d' = EditMode d \<and> CPINNoOK d' = CPINNoOK d \<and> At_RequestID d' = At_RequestID d"

definition line_octets :: "byte list \<Rightarrow> bool" where
  "line_octets l \<longleftrightarrow> l \<noteq> [] \<and> hd l \<noteq> 27 \<and> (\<forall>b \<in> set l. b \<noteq> 0 \<and> b \<noteq> 10 \<and> b \<noteq> 13) \<and> \<not> starts (bytes_of ''CONNECT'') l"

abbreviation CONNECT :: "byte list" where "CONNECT \<equiv> bytes_of ''CONNECT''"

lemma connect_no_nul [simp]: "0 \<notin> set CONNECT" "13 \<notin> set CONNECT"
  by (simp_all add: bytes_of_def)

lemma at_char:
  assumes "at_holds d txt" "b \<noteq> 0" "b \<noteq> 10" "b \<noteq> 13" "txt = [] \<longrightarrow> b \<noteq> 27" "\<not> EditMode d" "length txt < 2 ^ 62"
    "start = (if txt = [] then 0 else LineStart d)" "start \<le> length txt" "\<not> starts CONNECT (drop start txt @ [b])"
  shows "\<exists>d'. AT_StateMachine h d b = (d', []) \<and> at_holds d' (txt @ [b]) \<and> \<not> wascrlf d' \<and> at_same d d'
    \<and> LineStart d' = (if wascrlf d then length txt else start)"
proof -
  define d0 where "d0 = (if txt = [] then d\<lparr>LineStart := 0\<rparr> else d)"
  define d1 where "d1 = at_store d0 b"
  have n: "Msg_Length (At_Msg d) = length txt" using assms(1) by (simp add: at_holds_def)
  have h0: "at_holds d0 txt" using assms(1) at_holds_cong [of d d0] by (simp add: d0_def)
  have h1: "at_holds d1 (txt @ [b])" unfolding d1_def by (rule at_store_holds [OF h0 assms(7)])
  have s1: "LineStart d1 = start" "wascrlf d1 = wascrlf d" "\<not> EditMode d1" "at_same d d1"
    using assms(6,8) by (simp_all add: d1_def d0_def at_same_def)
  have "\<not> buffer_has CONNECT (At_Msg d1) start"
    using buffer_has_iff [OF h1, of start CONNECT] assms(9,10) by simp
  moreover have g: "\<not> (Msg_Length (At_Msg d) = 0 \<and> b \<in> {10, 13, 27})" using assms(3,4,5) n by auto
  ultimately have r: "AT_StateMachine h d b = at_text h d1"
    unfolding AT_StateMachine_def if_not_P [OF g] using assms(2,3,4) n s1(1)
    by (simp add: Let_def d1_def d0_def del: bytes_of_simps)
  define d2 where "d2 = (if wascrlf d1 then d1\<lparr>LineStart := Msg_Length (At_Msg d1) - 1, wascrlf := False\<rparr> else d1)"
  have "Msg_Length (At_Msg d1) - 1 = length txt" using h1 by (simp add: at_holds_def)
  then have "at_text h d1 = (d2, [])" "at_holds d2 (txt @ [b])" "\<not> wascrlf d2" "at_same d d2"
      "LineStart d2 = (if wascrlf d then length txt else start)"
    using s1 h1 at_holds_cong [of d1 d2] by (auto simp: at_text_def d2_def at_same_def Let_def)
  then show ?thesis using r by auto
qed

lemma starts_prefix: "starts p (l @ [b]) \<Longrightarrow> starts p (l @ b # r)"
  using starts_append [of p "l @ [b]" r] by simp

lemma at_more:
  assumes "at_holds d (txt @ l0)" "l0 \<noteq> []" "LineStart d = length txt" "\<not> wascrlf d" "\<not> EditMode d"
    "\<forall>b \<in> set r. b \<noteq> 0 \<and> b \<noteq> 10 \<and> b \<noteq> 13" "\<not> starts CONNECT (l0 @ r)" "length (txt @ l0 @ r) < 2 ^ 62"
  shows "\<exists>d'. run (AT_StateMachine h) d r = (d', []) \<and> at_holds d' (txt @ l0 @ r) \<and> LineStart d' = length txt
    \<and> \<not> wascrlf d' \<and> at_same d d'"
  using assms
proof (induction r arbitrary: d l0)
  case Nil
  then show ?case by (auto simp: at_same_def)
next
  case (Cons b r)
  have nc: "\<not> starts CONNECT (l0 @ [b])" using starts_prefix [of CONNECT l0 b r] Cons.prems(7) by (auto simp del: bytes_of_simps)
  have "\<exists>d1. AT_StateMachine h d b = (d1, []) \<and> at_holds d1 ((txt @ l0) @ [b]) \<and> \<not> wascrlf d1 \<and> at_same d d1
    \<and> LineStart d1 = (if wascrlf d then length (txt @ l0) else length txt)"
  proof (rule at_char)
    show "at_holds d (txt @ l0)" "\<not> EditMode d" by (fact Cons.prems)+
    show "b \<noteq> 0" "b \<noteq> 10" "b \<noteq> 13" using Cons.prems(6) by auto
    show "txt @ l0 = [] \<longrightarrow> b \<noteq> 27" "length txt = (if txt @ l0 = [] then 0 else LineStart d)"
      "length (txt @ l0) < 2 ^ 62" "length txt \<le> length (txt @ l0)" using Cons.prems(2,3,8) by simp_all
    show "\<not> starts CONNECT (drop (length txt) (txt @ l0) @ [b])" using nc by simp
  qed
  then obtain d1 where d1: "AT_StateMachine h d b = (d1, [])" "at_holds d1 ((txt @ l0) @ [b])" "\<not> wascrlf d1" "at_same d d1"
      "LineStart d1 = length txt" using Cons.prems(4) by auto
  have "\<exists>d'. run (AT_StateMachine h) d1 r = (d', []) \<and> at_holds d' (txt @ (l0 @ [b]) @ r) \<and> LineStart d' = length txt
    \<and> \<not> wascrlf d' \<and> at_same d1 d'"
  proof (rule Cons.IH [OF _ _ d1(5) d1(3)])
    show "at_holds d1 (txt @ (l0 @ [b]))" "l0 @ [b] \<noteq> []" using d1(2) by simp_all
    show "\<not> EditMode d1" using Cons.prems(5) d1(4) by (simp add: at_same_def)
    show "\<forall>b \<in> set r. b \<noteq> 0 \<and> b \<noteq> 10 \<and> b \<noteq> 13" using Cons.prems(6) by simp
    show "\<not> starts CONNECT ((l0 @ [b]) @ r)" using Cons.prems(7) by (simp del: bytes_of_simps)
    show "length (txt @ (l0 @ [b]) @ r) < 2 ^ 62" using Cons.prems(8) by simp
  qed
  then obtain d' where d': "run (AT_StateMachine h) d1 r = (d', [])" "at_holds d' (txt @ (l0 @ [b]) @ r)" "LineStart d' = length txt"
      "\<not> wascrlf d'" "at_same d1 d'" by auto
  have "at_same d d'" using d1(4) d'(5) by (auto simp: at_same_def)
  then show ?case using d1(1) d' by auto
qed

text \<open>A whole line, at the start of the text or behind a line end.\<close>

definition boundary :: "GSM_Protocol_ATData \<Rightarrow> byte list \<Rightarrow> bool" where
  "boundary d txt \<longleftrightarrow> txt = [] \<or> wascrlf d \<and> LineStart d \<le> length txt
     \<and> (drop (LineStart d) txt = [] \<or> 13 \<in> set (drop (LineStart d) txt) \<and> \<not> starts CONNECT (drop (LineStart d) txt))"

lemma connect_completed:
  assumes "starts CONNECT (xs @ [b])" "\<not> starts CONNECT xs" "xs = [] \<or> 13 \<in> set xs"
  shows False
proof -
  obtain r where r: "xs @ [b] = CONNECT @ r" using assms(1) by (auto simp: starts_iff)
  have "r = []"
  proof (rule ccontr)
    assume "r \<noteq> []"
    then have "xs = CONNECT @ butlast r" using r by (metis butlast_append butlast_snoc)
    then show False using assms(2) by (simp add: starts_iff)
  qed
  then have c: "CONNECT = xs @ [b]" using r by simp
  then have "xs \<noteq> []" by (cases xs) simp_all
  then have "13 \<in> set CONNECT" using assms(3) unfolding c by auto
  then show False by (simp add: bytes_of_def)
qed

lemma at_line_run:
  assumes "at_holds d txt" "line_octets l" "boundary d txt" "\<not> EditMode d" "length (txt @ l) < 2 ^ 62"
  shows "\<exists>d'. run (AT_StateMachine h) d l = (d', []) \<and> at_holds d' (txt @ l) \<and> LineStart d' = length txt
    \<and> \<not> wascrlf d' \<and> at_same d d'"
proof -
  obtain b r where l: "l = b # r" using assms(2) by (cases l) (auto simp: line_octets_def)
  define start where "start = (if txt = [] then 0 else LineStart d)"
  have b: "b \<noteq> 0" "b \<noteq> 10" "b \<noteq> 13" "b \<noteq> 27" "\<forall>b \<in> set r. b \<noteq> 0 \<and> b \<noteq> 10 \<and> b \<noteq> 13" "\<not> starts CONNECT ([b] @ r)"
    using assms(2) l by (auto simp: line_octets_def simp del: bytes_of_simps)
  have x: "start \<le> length txt" "drop start txt = [] \<or> 13 \<in> set (drop start txt)" "\<not> starts CONNECT (drop start txt)"
    using assms(3) by (auto simp: boundary_def start_def starts_def)
  have "\<exists>d1. AT_StateMachine h d b = (d1, []) \<and> at_holds d1 (txt @ [b]) \<and> \<not> wascrlf d1 \<and> at_same d d1
    \<and> LineStart d1 = (if wascrlf d then length txt else start)"
    by (rule at_char [OF assms(1) b(1,2,3) _ assms(4) _ start_def x(1)])
       (use b(4) assms(5) connect_completed [of "drop start txt" b] x in auto)
  then obtain d1 where d1: "AT_StateMachine h d b = (d1, [])" "at_holds d1 (txt @ [b])" "\<not> wascrlf d1" "at_same d d1"
      "LineStart d1 = length txt"
    using assms(3) by (cases "txt = []") (auto simp: start_def boundary_def)
  have e: "\<not> EditMode d1" using assms(4) d1(4) by (simp add: at_same_def)
  have n: "length (txt @ [b] @ r) < 2 ^ 62" using assms(5) l by simp
  obtain d' where d': "run (AT_StateMachine h) d1 r = (d', [])" "at_holds d' (txt @ [b] @ r)" "LineStart d' = length txt"
      "\<not> wascrlf d'" "at_same d1 d'"
    using at_more [OF d1(2) _ d1(5,3) e b(5,6) n, of h] by auto
  have "at_same d d'" using d1(4) d'(5) by (auto simp: at_same_def)
  then show ?thesis using d1(1) d' l by auto
qed

text \<open>The line end: \<^verbatim>\<open>at_line\<close> runs on the text with the new line marked.\<close>

lemma at_crlf_run:
  assumes "at_holds d (txt @ l)" "l \<noteq> []" "\<not> wascrlf d" "LineStart d = length txt" "length (txt @ l) + 2 < 2 ^ 62"
  shows "\<exists>d2. run (AT_StateMachine h) d [13, 10] = at_line h d2 \<and> at_holds d2 (txt @ l @ [13, 10]) \<and> LineStart d2 = length txt
    \<and> LineEnd d2 = length (txt @ l) \<and> wascrlf d2 \<and> at_same d d2"
proof -
  have n: "Msg_Length (At_Msg d) = length txt + length l" using assms(1) by (simp add: at_holds_def)
  define d1 where "d1 = (at_store d 13)\<lparr>LineEnd := length (txt @ l), wascrlf := True\<rparr>"
  have h1: "at_holds (at_store d 13) (txt @ l @ [13])" using at_store_holds [OF assms(1)] assms(5) by simp
  have g: "\<not> (Msg_Length (At_Msg d) = 0 \<and> (b :: byte) \<in> {10, 13, 27})" for b using n assms(2) by auto
  have n1: "Msg_Length (At_Msg (at_store d 13)) - 1 = length (txt @ l)" using h1 by (simp add: at_holds_def)
  have s1: "AT_StateMachine h d 13 = (d1, [])"
    unfolding AT_StateMachine_def if_not_P [OF g] using n n1 assms(2,3) by (simp add: Let_def d1_def)
  have h1': "at_holds d1 (txt @ l @ [13])" using h1 at_holds_cong [of "at_store d 13" d1] by (simp add: d1_def)
  then have g1: "\<not> (Msg_Length (At_Msg d1) = 0 \<and> (b :: byte) \<in> {10, 13, 27})" for b by (auto simp: at_holds_def)
  define d2 where "d2 = at_store d1 10"
  have h2: "at_holds d2 (txt @ l @ [13, 10])" using at_store_holds [OF h1', of 10] assms(5) by (simp add: d2_def)
  have m2: "Msg_Length (At_Msg d2) = length txt + length l + 2" using h2 by (simp add: at_holds_def)
  obtain rest where "Buffer (At_Msg d2) = (txt @ l) @ 13 # 10 # 0 # rest" using h2 by (auto simp: at_holds_def)
  then have "Buffer (At_Msg d2) ! (Msg_Length (At_Msg d2) - 2) = 13" using m2 by (metis add_diff_cancel_right' length_append nth_append_length)
  moreover have "Msg_Length (At_Msg d1) \<noteq> 0" using h1' by (simp add: at_holds_def)
  ultimately have s2: "AT_StateMachine h d1 10 = at_line h d2"
    unfolding AT_StateMachine_def if_not_P [OF g1] by (simp add: Let_def d2_def) (simp add: d1_def)
  have "run (AT_StateMachine h) d [13, 10] = at_line h d2" using s1 s2 by (simp split: prod.splits)
  moreover have "LineStart d2 = length txt" "LineEnd d2 = length (txt @ l)" "wascrlf d2" "at_same d d2"
    using assms(4) by (simp_all add: d2_def d1_def at_same_def)
  ultimately show ?thesis using h2 by auto
qed

subsection \<open>Lines by their kind\<close>

abbreviation eol :: "byte list" where "eol \<equiv> [13, 10]"

definition ends_answer :: "byte list \<Rightarrow> bool" where
  "ends_answer l \<longleftrightarrow> (\<exists>s \<in> set StatusStrings. starts s (l @ eol))"

definition plain_line :: "byte list \<Rightarrow> bool" where
  "plain_line l \<longleftrightarrow> line_octets l \<and> (\<forall>e \<in> set SpecialAnswers. \<not> starts (fst e) l)"

text \<open>A line of the table that takes \<open>n\<close> lines and answers no request.\<close>

definition unsolicited :: "nat \<Rightarrow> byte list \<Rightarrow> bool" where
  "unsolicited n l \<longleftrightarrow> line_octets l \<and> \<not> ends_answer l \<and> (\<exists>e \<in> set SpecialAnswers. starts (fst e) l)
     \<and> (\<forall>e \<in> set SpecialAnswers. starts (fst e) l \<longrightarrow> snd e = (n, ID_All) \<and> fst e \<noteq> bytes_of ''NO CARRIER'')"

lemma special_octets: "\<forall>e \<in> set SpecialAnswers. 0 \<notin> set (fst e) \<and> 13 \<notin> set (fst e)"
  by (simp add: SpecialAnswers_def)

lemma status_octets: "\<forall>s \<in> set StatusStrings. 0 \<notin> set s"
  by (simp add: StatusStrings_def)

lemma special_search_none:
  "\<forall>e \<in> set tbl. \<not> buffer_has (fst e) m start \<Longrightarrow> special_search m start req tbl found = Some found"
  by (induction m start req tbl found rule: special_search.induct) (auto split: list.splits)

lemma special_search_some:
  "\<forall>e \<in> set tbl. buffer_has (fst e) m start \<longrightarrow> snd e = (n, ID_All) \<and> fst e \<noteq> bytes_of ''NO CARRIER'' \<Longrightarrow> req \<noteq> ID_All \<Longrightarrow>
     special_search m start req tbl found = Some (if \<exists>e \<in> set tbl. buffer_has (fst e) m start then Some n else found)"
  by (induction m start req tbl found rule: special_search.induct) (auto simp del: bytes_of_simps split: list.splits)

text \<open>Reply functions that leave the edit mode off and set no request for everything.\<close>

definition quiet :: "at_handler \<Rightarrow> bool" where
  "quiet h \<longleftrightarrow> (\<forall>type msg req. req \<noteq> ID_All \<longrightarrow> \<not> fst (h type msg (False, req)) \<and> snd (h type msg (False, req)) \<noteq> ID_All)"

lemma quietD:
  assumes "quiet h" "req \<noteq> ID_All" "h type msg (False, req) = (edit, req')"
  shows "\<not> edit \<and> req' \<noteq> ID_All"
proof -
  have "\<not> fst (h type msg (False, req)) \<and> snd (h type msg (False, req)) \<noteq> ID_All"
    using assms(1,2) unfolding quiet_def by blast
  then show ?thesis using assms(3) by simp
qed

definition whole_lines :: "byte list \<Rightarrow> bool" where
  "whole_lines txt \<longleftrightarrow> txt = [] \<or> (\<exists>t. txt = t @ eol) \<and> \<not> starts CONNECT txt"

text \<open>Between lines, with the text \<open>txt\<close> of the answer so far and \<open>n\<close> lines of a special answer to come.\<close>

definition at_ready :: "GSM_Protocol_ATData \<Rightarrow> byte list \<Rightarrow> bool" where
  "at_ready d txt \<longleftrightarrow> at_holds d txt \<and> boundary d txt \<and> \<not> EditMode d \<and> \<not> CPINNoOK d \<and> At_RequestID d \<noteq> ID_All"

lemma rescan_snoc: "rescan (xs @ [b]) n st = rescan [b] n (rescan xs n st)"
  by (induction xs arbitrary: st) (auto split: prod.splits)

lemma rescan_start: "fst (snd (rescan bs n (seen, s, e))) \<in> {s, n}"
  by (induction bs arbitrary: seen s e) (auto split: if_splits)

lemma rescan_seen: "fst (rescan (t @ eol) n st)"
  using rescan_snoc [of "t @ [13]" 10 n st] by (cases "rescan (t @ [13]) n st") simp

lemma special_end_run:
  assumes "at_holds d (txt @ u @ eol)" "SpecialAnswerStart d = length txt" "LineEnd d = length (txt @ u)"
    "\<not> EditMode d" "\<not> CPINNoOK d" "At_RequestID d \<noteq> ID_All" "quiet h" "whole_lines txt"
  shows "\<exists>d'. special_end h d = (d', [Deliver 0 (u @ eol)]) \<and> at_ready d' txt \<and> SpecialAnswerLines d' = SpecialAnswerLines d"
proof -
  let ?m = "At_Msg d" and ?n = "length (u @ eol)"
  obtain rest where b: "Buffer ?m = txt @ (u @ eol) @ 0 # rest" using assms(1) by (auto simp: at_holds_def)
  have n: "LineEnd d + 2 - SpecialAnswerStart d = ?n" "\<not> (LineEnd d < SpecialAnswerStart d \<or> SpecialAnswerStart d + ?n > length (Buffer ?m))"
    using assms(2,3) by (simp_all add: b)
  have msg: "take ?n (drop (SpecialAnswerStart d) (Buffer ?m)) = u @ eol" "take (SpecialAnswerStart d) (Buffer ?m) = txt"
    using assms(2) by (simp_all add: b)
  obtain edit req where h: "h 0 (u @ eol) (False, At_RequestID d) = (edit, req)" by (metis surj_pair)
  have q: "\<not> edit" "req \<noteq> ID_All" using quietD [OF assms(7,6) h] by auto
  obtain seen start end1 where r: "rescan txt (length txt) (False, 0, LineEnd d) = (seen, start, end1)" by (metis prod_cases3)
  have st: "start \<in> {0, length txt}" using rescan_start [of "txt" "length txt" False 0 "LineEnd d"] r by simp
  have sn: "seen" if ne: "txt \<noteq> []"
  proof -
    obtain t where "txt = t @ eol" using assms(8) ne by (auto simp: whole_lines_def)
    then have "fst (rescan txt (length txt) (False, 0, LineEnd d))" using rescan_seen by simp
    then show ?thesis using r by simp
  qed
  define d' where "d' = d\<lparr>EditMode := edit, At_RequestID := req, At_Msg := ?m\<lparr>Msg_Length := length txt, Buffer := (Buffer ?m)[length txt := 0]\<rparr>,
      wascrlf := seen, LineStart := start, LineEnd := end1\<rparr>"
  have e: "special_end h d = (d', [Deliver 0 (u @ eol)])"
    unfolding special_end_def Let_def n(1) if_not_P [OF n(2)] msg
    using assms(2,4) h r by (simp add: at_dispatch_def blank_message_def deliver_def d'_def)
  have "(Buffer ?m)[length txt := 0] = txt @ 0 # (tl (u @ eol) @ 0 # rest)" by (cases u) (simp_all add: b list_update_append)
  then have "at_holds d' txt" using assms(1) b by (auto simp: at_holds_def d'_def)
  moreover have "boundary d' txt" using st sn assms(8) by (auto simp: boundary_def d'_def whole_lines_def)
  ultimately show ?thesis using e q assms(5) by (auto simp: at_ready_def d'_def)
qed

text \<open>The state \<^verbatim>\<open>at_line\<close> starts in: a new line \<open>l\<close> behind the text, its end marked.\<close>

definition at_marked :: "GSM_Protocol_ATData \<Rightarrow> byte list \<Rightarrow> byte list \<Rightarrow> bool" where
  "at_marked d txt l \<longleftrightarrow> at_holds d (txt @ l @ eol) \<and> LineStart d = length txt \<and> LineEnd d = length (txt @ l) \<and> wascrlf d
     \<and> \<not> EditMode d \<and> \<not> CPINNoOK d \<and> At_RequestID d \<noteq> ID_All"

lemma at_whole_line:
  assumes "at_ready d txt" "line_octets l" "length (txt @ l) + 2 < 2 ^ 62"
  shows "\<exists>d2. run (AT_StateMachine h) d (l @ eol) = at_line h d2 \<and> at_marked d2 txt l
    \<and> SpecialAnswerLines d2 = SpecialAnswerLines d \<and> SpecialAnswerStart d2 = SpecialAnswerStart d"
proof -
  obtain d1 where d1: "run (AT_StateMachine h) d l = (d1, [])" "at_holds d1 (txt @ l)" "LineStart d1 = length txt"
      "\<not> wascrlf d1" "at_same d d1"
    using at_line_run [of d "txt" l h] assms by (auto simp: at_ready_def)
  have "l \<noteq> []" using assms(2) by (simp add: line_octets_def)
  from at_crlf_run [OF d1(2) this d1(4,3) assms(3), of h] obtain d2 where
    d2: "run (AT_StateMachine h) d1 eol = at_line h d2" "at_holds d2 (txt @ l @ eol)" "LineStart d2 = length txt"
      "LineEnd d2 = length (txt @ l)" "wascrlf d2" "at_same d1 d2" by blast
  have "run (AT_StateMachine h) d (l @ eol) = at_line h d2"
    unfolding run_append [of _ d l eol] d1(1) by (simp only: Let_def split_conv d2(1) append_Nil) (simp split: prod.splits)
  then show ?thesis using d2 d1(5) assms(1) by (auto simp: at_marked_def at_same_def at_ready_def)
qed

lemma marked_has:
  assumes "at_marked d txt l" "0 \<notin> set p"
  shows "buffer_has p (At_Msg d) (LineStart d) \<longleftrightarrow> starts p (l @ eol)"
  using assms buffer_has_iff [of d "txt @ l @ eol" "length txt" p] by (simp add: at_marked_def)

lemma marked_special:
  assumes "at_marked d txt l" "e \<in> set SpecialAnswers"
  shows "buffer_has (fst e) (At_Msg d) (LineStart d) \<longleftrightarrow> starts (fst e) l"
  using marked_has [OF assms(1), of "fst e"] special_octets assms(2) starts_stop [of 13 "fst e" l "[10]"] by auto

lemma marked_status:
  assumes "at_marked d txt l"
  shows "(\<exists>s \<in> set StatusStrings. buffer_has s (At_Msg d) (LineStart d)) \<longleftrightarrow> ends_answer l"
  using marked_has [OF assms] status_octets by (auto simp: ends_answer_def)

text \<open>A line within an answer.\<close>

lemma at_line_open:
  assumes "at_marked d txt l" "\<not> ends_answer l"
  shows "at_line h d = special_step h d"
proof -
  have m: "\<not> EditMode d" "\<not> CPINNoOK d" using assms(1) by (simp_all add: at_marked_def)
  have "\<not> (\<exists>s \<in> set StatusStrings. buffer_has s (At_Msg d) (LineStart d))" using marked_status [OF assms(1)] assms(2) by simp
  then show ?thesis unfolding at_line_def Let_def using m by (simp split: prod.splits)
qed

lemma marked_ready:
  assumes "at_marked d txt l" "line_octets l"
  shows "at_ready d (txt @ l @ eol)"
proof -
  have "\<not> starts CONNECT l" using assms(2) by (simp add: line_octets_def del: bytes_of_simps)
  then have "\<not> starts CONNECT (l @ eol)" using starts_stop [of 13 CONNECT l "[10]"] connect_no_nul(2) by blast
  then show ?thesis using assms(1) by (auto simp: at_ready_def at_marked_def boundary_def simp del: bytes_of_simps)
qed

lemma at_info_line:
  assumes "at_ready d txt" "plain_line l" "\<not> ends_answer l" "SpecialAnswerLines d = 0" "length (txt @ l) + 2 < 2 ^ 62"
  shows "\<exists>d'. run (AT_StateMachine h) d (l @ eol) = (d', []) \<and> at_ready d' (txt @ l @ eol) \<and> SpecialAnswerLines d' = 0"
proof -
  have l: "line_octets l" using assms(2) by (simp add: plain_line_def)
  from at_whole_line [OF assms(1) l assms(5), of h] obtain d2 where
    d2: "run (AT_StateMachine h) d (l @ eol) = at_line h d2" "at_marked d2 txt l" "SpecialAnswerLines d2 = 0" using assms(4) by auto
  have "special_search (At_Msg d2) (LineStart d2) (At_RequestID d2) SpecialAnswers None = Some None"
    by (rule special_search_none) (use marked_special [OF d2(2)] assms(2) in \<open>auto simp: plain_line_def\<close>)
  then have "special_step h d2 = (d2, [])" using d2(3) by (simp add: special_step_def)
  then show ?thesis using d2 at_line_open [OF d2(2) assms(3), of h] marked_ready [OF d2(2) l] by auto
qed

text \<open>The first line of an unsolicited message.\<close>

lemma unsolicited_search:
  assumes "at_marked d txt l" "unsolicited n l"
  shows "special_search (At_Msg d) (LineStart d) (At_RequestID d) SpecialAnswers None = Some (Some n)"
proof -
  have "At_RequestID d \<noteq> ID_All" using assms(1) by (simp add: at_marked_def)
  moreover have "\<exists>e \<in> set SpecialAnswers. buffer_has (fst e) (At_Msg d) (LineStart d)"
    using marked_special [OF assms(1)] assms(2) by (auto simp: unsolicited_def)
  moreover have "\<forall>e \<in> set SpecialAnswers. buffer_has (fst e) (At_Msg d) (LineStart d) \<longrightarrow>
      snd e = (n, ID_All) \<and> fst e \<noteq> bytes_of ''NO CARRIER''"
    using marked_special [OF assms(1)] assms(2) unfolding unsolicited_def by blast
  ultimately show ?thesis by (subst special_search_some) auto
qed

lemma at_unsolicited_line:
  assumes "at_ready d txt" "unsolicited 1 l" "SpecialAnswerLines d = 0" "length (txt @ l) + 2 < 2 ^ 62" "quiet h" "whole_lines txt"
  shows "\<exists>d'. run (AT_StateMachine h) d (l @ eol) = (d', [Deliver 0 (l @ eol)]) \<and> at_ready d' txt \<and> SpecialAnswerLines d' = 0"
proof -
  have l: "line_octets l" "\<not> ends_answer l" using assms(2) by (simp_all add: unsolicited_def)
  from at_whole_line [OF assms(1) l(1) assms(4), of h] obtain d2 where
    d2: "run (AT_StateMachine h) d (l @ eol) = at_line h d2" "at_marked d2 txt l" by auto
  define d3 where "d3 = d2\<lparr>SpecialAnswerStart := LineStart d2, SpecialAnswerLines := 1\<rparr>"
  have e3: "At_Msg d3 = At_Msg d2" by (simp add: d3_def)
  have h3: "at_holds d3 (txt @ l @ eol)" using d2(2) at_holds_cong [of d2 d3, OF e3 [symmetric]] unfolding at_marked_def by blast
  obtain d4 where d4: "special_end h d3 = (d4, [Deliver 0 (l @ eol)])" "at_ready d4 txt" "SpecialAnswerLines d4 = SpecialAnswerLines d3"
    using special_end_run [OF h3 _ _ _ _ _ assms(5,6)] d2(2) by (auto simp: d3_def at_marked_def)
  have "special_step h d2 = (d4\<lparr>SpecialAnswerLines := 0\<rparr>, [Deliver 0 (l @ eol)])"
    using unsolicited_search [OF d2(2) assms(2)] d4(1,3) by (simp add: special_step_def d3_def [symmetric]) (simp add: d3_def)
  moreover have "at_ready (d4\<lparr>SpecialAnswerLines := 0\<rparr>) txt"
    using d4(2) at_holds_cong [of "d4\<lparr>SpecialAnswerLines := 0\<rparr>" d4] by (simp add: at_ready_def boundary_def)
  ultimately show ?thesis using d2(1) at_line_open [OF d2(2) l(2), of h] by auto
qed

lemma at_unsolicited_pair:
  assumes "at_ready d txt" "unsolicited 2 l" "plain_line v" "\<not> ends_answer v" "SpecialAnswerLines d = 0"
    "length (txt @ l @ eol @ v) + 2 < 2 ^ 62" "quiet h" "whole_lines txt"
  shows "\<exists>d'. run (AT_StateMachine h) d (l @ eol @ v @ eol) = (d', [Deliver 0 (l @ eol @ v @ eol)]) \<and> at_ready d' txt
    \<and> SpecialAnswerLines d' = 0"
proof -
  have l: "line_octets l" "\<not> ends_answer l" using assms(2) by (simp_all add: unsolicited_def)
  have v: "line_octets v" using assms(3) by (simp add: plain_line_def)
  from at_whole_line [OF assms(1) l(1), of h] assms(6) obtain d2 where
    d2: "run (AT_StateMachine h) d (l @ eol) = at_line h d2" "at_marked d2 txt l" by auto
  define d3 where "d3 = d2\<lparr>SpecialAnswerStart := length txt, SpecialAnswerLines := 1\<rparr>"
  have "LineStart d2 = length txt" using d2(2) by (simp add: at_marked_def)
  then have s1: "special_step h d2 = (d3, [])"
    using unsolicited_search [OF d2(2) assms(2)] by (simp add: special_step_def d3_def)
  then have r1: "run (AT_StateMachine h) d (l @ eol) = (d3, [])" using d2(1) at_line_open [OF d2(2) l(2), of h] by simp
  have e3: "At_Msg d3 = At_Msg d2" by (simp add: d3_def)
  have h3: "at_ready d3 (txt @ l @ eol)"
    using marked_ready [OF d2(2) l(1)] at_holds_cong [OF e3] by (simp add: at_ready_def boundary_def d3_def)
  from at_whole_line [OF h3 v, of h] assms(6) obtain d4 where
    d4: "run (AT_StateMachine h) d3 (v @ eol) = at_line h d4" "at_marked d4 (txt @ l @ eol) v"
      "SpecialAnswerLines d4 = 1" "SpecialAnswerStart d4 = length txt" by (auto simp: d3_def)
  have "special_search (At_Msg d4) (LineStart d4) (At_RequestID d4) SpecialAnswers None = Some None"
    by (rule special_search_none) (use marked_special [OF d4(2)] assms(3) in \<open>auto simp: plain_line_def\<close>)
  moreover obtain d5 where d5: "special_end h d4 = (d5, [Deliver 0 ((l @ eol @ v) @ eol)])" "at_ready d5 txt"
      "SpecialAnswerLines d5 = SpecialAnswerLines d4"
    using special_end_run [of d4 "txt" "l @ eol @ v" h] d4(2,4) assms(7,8) by (auto simp: at_marked_def)
  ultimately have s2: "special_step h d4 = (d5\<lparr>SpecialAnswerLines := 0\<rparr>, [Deliver 0 ((l @ eol @ v) @ eol)])"
    using d4(3) by (simp add: special_step_def)
  have "run (AT_StateMachine h) d ((l @ eol) @ (v @ eol)) = (d5\<lparr>SpecialAnswerLines := 0\<rparr>, [Deliver 0 ((l @ eol @ v) @ eol)])"
    unfolding run_append [of _ d "l @ eol" "v @ eol"] r1
    using d4(1) s2 at_line_open [OF d4(2) assms(4), of h] by (simp del: run.simps)
  moreover have "at_ready (d5\<lparr>SpecialAnswerLines := 0\<rparr>) txt"
    using d5(2) at_holds_cong [of "d5\<lparr>SpecialAnswerLines := 0\<rparr>" d5] by (simp add: at_ready_def boundary_def)
  ultimately show ?thesis by (intro exI [of _ "d5\<lparr>SpecialAnswerLines := 0\<rparr>"]) simp
qed

text \<open>The line that ends the answer.\<close>

lemma at_final_line:
  assumes "at_ready d txt" "plain_line l" "ends_answer l" "SpecialAnswerLines d = 0" "length (txt @ l) + 2 < 2 ^ 62" "quiet h"
  shows "\<exists>d'. run (AT_StateMachine h) d (l @ eol) = (d', [Deliver 0 (txt @ l @ eol)]) \<and> at_ready d' [] \<and> SpecialAnswerLines d' = 0"
proof -
  have l: "line_octets l" using assms(2) by (simp add: plain_line_def)
  from at_whole_line [OF assms(1) l assms(5), of h] obtain d2 where
    d2: "run (AT_StateMachine h) d (l @ eol) = at_line h d2" "at_marked d2 txt l" "SpecialAnswerLines d2 = 0" using assms(4) by auto
  obtain rest where b: "Buffer (At_Msg d2) = (txt @ l @ eol) @ 0 # rest" "Msg_Length (At_Msg d2) = length (txt @ l @ eol)" "Msg_Type (At_Msg d2) = 0"
    using d2(2) by (auto simp: at_marked_def at_holds_def)
  have p: "\<not> EditMode d2" "\<not> CPINNoOK d2" "At_RequestID d2 \<noteq> ID_All" "BufferUsed (At_Msg d2) = length (Buffer (At_Msg d2))"
    using d2(2) by (auto simp: at_marked_def at_holds_def)
  obtain edit req where h: "h 0 (txt @ l @ eol) (False, At_RequestID d2) = (edit, req)" by (metis surj_pair)
  have q: "\<not> edit" "req \<noteq> ID_All" using quietD [OF assms(6) p(3) h] by auto
  define d3 where "d3 = at_empty (d2\<lparr>EditMode := edit, At_RequestID := req\<rparr>)"
  have disp: "at_dispatch h d2 (At_Msg d2) = (d2\<lparr>EditMode := edit, At_RequestID := req\<rparr>, [Deliver 0 (txt @ l @ eol)])"
    using h p(1) b by (simp add: at_dispatch_def deliver_def)
  have "special_search (At_Msg d3) (LineStart d3) (At_RequestID d3) SpecialAnswers None = Some None"
    by (rule special_search_none)
       (use marked_special [OF d2(2)] assms(2) in \<open>auto simp: plain_line_def d3_def at_empty_def\<close>)
  then have s: "special_step h d3 = (d3, [])" using d2(3) by (simp add: special_step_def d3_def at_empty_def)
  have st: "\<exists>s \<in> set StatusStrings. buffer_has s (At_Msg d2) (LineStart d2)" using marked_status [OF d2(2)] assms(3) by simp
  have "at_line h d2 = (d3, [Deliver 0 (txt @ l @ eol)])"
    unfolding at_line_def Let_def if_P [OF st] disp using p(1,2) s
    by (simp add: d3_def [symmetric]) (simp add: d3_def at_empty_def)
  moreover have "at_ready d3 []" using p q b by (auto simp: at_ready_def at_holds_def boundary_def d3_def at_empty_def)
  moreover have "SpecialAnswerLines d3 = 0" using d2(3) by (simp add: d3_def at_empty_def)
  ultimately show ?thesis using d2(1) by auto
qed

subsection \<open>Answers\<close>

text \<open>
  An answer of a modem: lines of information, unsolicited lines and pairs of lines between them,
  and the line that ends it. \<open>kept\<close> is what stays in the answer and \<open>notices\<close> what is delivered before.
\<close>

datatype at_item = Info "byte list" | Notice "byte list" | NoticePair "byte list" "byte list"

fun item_octets :: "at_item \<Rightarrow> byte list" where
  "item_octets (Info l) = l @ eol"
| "item_octets (Notice l) = l @ eol"
| "item_octets (NoticePair l v) = l @ eol @ v @ eol"

fun kept :: "at_item \<Rightarrow> byte list" where
  "kept (Info l) = l @ eol"
| "kept _ = []"

fun notices :: "at_item \<Rightarrow> rx_event list" where
  "notices (Info l) = []"
| "notices (Notice l) = [Deliver 0 (l @ eol)]"
| "notices (NoticePair l v) = [Deliver 0 (l @ eol @ v @ eol)]"

fun item_ok :: "at_item \<Rightarrow> bool" where
  "item_ok (Info l) \<longleftrightarrow> plain_line l \<and> \<not> ends_answer l"
| "item_ok (Notice l) \<longleftrightarrow> unsolicited 1 l"
| "item_ok (NoticePair l v) \<longleftrightarrow> unsolicited 2 l \<and> plain_line v \<and> \<not> ends_answer v"

type_synonym at_answer = "at_item list \<times> byte list"

definition answer_octets :: "at_answer \<Rightarrow> byte list" where
  "answer_octets = (\<lambda>(items, status). concat (map item_octets items) @ status @ eol)"

definition answer_events :: "at_answer \<Rightarrow> rx_event list" where
  "answer_events = (\<lambda>(items, status). concat (map notices items) @ [Deliver 0 (concat (map kept items) @ status @ eol)])"

definition answer_ok :: "at_answer \<Rightarrow> bool" where
  "answer_ok = (\<lambda>(items, status). (\<forall>i \<in> set items. item_ok i) \<and> plain_line status \<and> ends_answer status
     \<and> length (answer_octets (items, status)) < 2 ^ 62)"

lemma whole_lines_step:
  assumes "whole_lines txt" "line_octets l"
  shows "whole_lines (txt @ l @ eol)"
proof -
  have c: "starts CONNECT (x @ eol) \<longleftrightarrow> starts CONNECT x" for x
    using starts_stop [of 13 CONNECT x "[10]"] connect_no_nul(2) by blast
  have "\<not> starts CONNECT (txt @ l @ eol)"
  proof (cases "txt = []")
    case True
    then show ?thesis using c [of l] assms(2) by (simp add: line_octets_def del: bytes_of_simps)
  next
    case False
    then obtain t where t: "txt = t @ eol" "\<not> starts CONNECT txt" using assms(1) by (auto simp: whole_lines_def simp del: bytes_of_simps)
    then have "\<not> starts CONNECT t" using c by blast
    then show ?thesis using starts_stop [of 13 CONNECT t "10 # l @ eol"] connect_no_nul(2) t(1) by (simp del: bytes_of_simps)
  qed
  then show ?thesis unfolding whole_lines_def by (metis append.assoc)
qed

lemma at_item_run:
  assumes "at_ready d txt" "SpecialAnswerLines d = 0" "whole_lines txt" "item_ok i" "length (txt @ item_octets i) < 2 ^ 62" "quiet h"
  shows "\<exists>d'. run (AT_StateMachine h) d (item_octets i) = (d', notices i) \<and> at_ready d' (txt @ kept i)
    \<and> SpecialAnswerLines d' = 0 \<and> whole_lines (txt @ kept i)"
proof (cases i)
  case (Info l)
  then show ?thesis using at_info_line [OF assms(1), of l h] whole_lines_step [OF assms(3), of l] assms
    by (auto simp: plain_line_def)
next
  case (Notice l)
  then show ?thesis using at_unsolicited_line [OF assms(1) _ assms(2) _ assms(6,3), of l] assms by auto
next
  case (NoticePair l v)
  then show ?thesis using at_unsolicited_pair [OF assms(1) _ _ _ assms(2) _ assms(6,3), of l v] assms by auto
qed

lemma at_items_run:
  assumes "at_ready d txt" "SpecialAnswerLines d = 0" "whole_lines txt" "\<forall>i \<in> set items. item_ok i"
    "length (txt @ concat (map item_octets items)) < 2 ^ 62" "quiet h"
  shows "\<exists>d'. run (AT_StateMachine h) d (concat (map item_octets items)) = (d', concat (map notices items))
    \<and> at_ready d' (txt @ concat (map kept items)) \<and> SpecialAnswerLines d' = 0"
  using assms
proof (induction items arbitrary: d "txt")
  case (Cons i items)
  have n: "length (kept i) \<le> length (item_octets i)" by (cases i) simp_all
  obtain d1 where d1: "run (AT_StateMachine h) d (item_octets i) = (d1, notices i)" "at_ready d1 (txt @ kept i)"
      "SpecialAnswerLines d1 = 0" "whole_lines (txt @ kept i)"
    using at_item_run [OF Cons.prems(1,2,3) _ _ Cons.prems(6), of i] Cons.prems(4,5) by auto
  obtain d' where "run (AT_StateMachine h) d1 (concat (map item_octets items)) = (d', concat (map notices items))"
      "at_ready d' ((txt @ kept i) @ concat (map kept items))" "SpecialAnswerLines d' = 0"
    using Cons.IH [OF d1(2,3,4) _ _ Cons.prems(6)] Cons.prems(4,5) n by auto
  then show ?case using d1(1) by (simp add: run_append)
qed simp

definition at_sync :: "at_handler \<Rightarrow> GSM_Protocol_ATData \<Rightarrow> bool" where
  "at_sync h d \<longleftrightarrow> at_ready d [] \<and> SpecialAnswerLines d = 0 \<and> quiet h"

lemma kept_length: "length (concat (map kept items)) \<le> length (concat (map item_octets items))"
proof (induction items)
  case (Cons i items)
  then show ?case by (cases i) simp_all
qed simp

lemma at_answer_run:
  assumes "at_sync h d" "answer_ok a"
  shows "snd (run (AT_StateMachine h) d (answer_octets a)) = answer_events a
    \<and> at_sync h (fst (run (AT_StateMachine h) d (answer_octets a)))"
proof -
  obtain items status where a: "a = (items, status)" by (cases a)
  have ok: "\<forall>i \<in> set items. item_ok i" "plain_line status" "ends_answer status"
      "length (concat (map item_octets items) @ status @ eol) < 2 ^ 62"
    using assms(2) by (simp_all add: a answer_ok_def answer_octets_def)
  have s: "at_ready d []" "SpecialAnswerLines d = 0" "quiet h" "whole_lines []"
    using assms(1) by (simp_all add: at_sync_def whole_lines_def)
  obtain d1 where d1: "run (AT_StateMachine h) d (concat (map item_octets items)) = (d1, concat (map notices items))"
      "at_ready d1 (concat (map kept items))" "SpecialAnswerLines d1 = 0"
    using at_items_run [OF s(1,2,4) ok(1) _ s(3)] ok(4) by auto
  obtain d' where "run (AT_StateMachine h) d1 (status @ eol) = (d', [Deliver 0 (concat (map kept items) @ status @ eol)])"
      "at_ready d' []" "SpecialAnswerLines d' = 0"
    using at_final_line [OF d1(2) ok(2,3) d1(3) _ s(3)] ok(4) kept_length [of items] by auto
  then show ?thesis using d1(1) s(3) unfolding a
    by (simp add: answer_octets_def answer_events_def run_append [of _ d "concat (map item_octets items)" "status @ eol"] at_sync_def)
qed

interpretation at: framing_resync "AT_StateMachine h" answer_octets answer_events "at_sync h" answer_ok "\<lambda>b. b \<in> {10, 13, 27}"
  for h
proof
  fix st and b :: byte
  assume "at_sync h st" "b \<in> {10, 13, 27}"
  moreover have "Msg_Length (At_Msg st) = 0" using \<open>at_sync h st\<close> by (simp add: at_sync_def at_ready_def at_holds_def)
  ultimately show "snd (AT_StateMachine h st b) = [] \<and> at_sync h (fst (AT_StateMachine h st b))"
    by (simp add: AT_StateMachine_def)
qed (simp_all add: at_answer_run)

text \<open>
  Claim C11. A modem's answers are delivered whole, each once and in order, when its status line
  ends; unsolicited lines, and the pairs of lines that carry messages, are delivered when they
  come and do not appear in the answer they fell into.
\<close>

theorem at_answers_delivered:
  fixes d :: GSM_Protocol_ATData
  assumes "quiet h" "At_RequestID d \<noteq> ID_All" "\<forall>b \<in> set junk. b \<in> {10, 13, 27}" "\<forall>a \<in> set answers. answer_ok a"
  shows "snd (run (AT_StateMachine h) (AT_Initialise cable d) (junk @ concat (map answer_octets answers)))
    = concat (map (\<lambda>(items, status). concat (map notices items) @ [Deliver 0 (concat (map kept items) @ status @ eol)]) answers)"
proof -
  have "at_sync h (AT_Initialise cable d)"
    using assms(1,2) by (simp add: at_sync_def at_ready_def at_holds_def boundary_def AT_Initialise_def)
  then show ?thesis using at.noise_then_stream [of h _ junk answers] assms(3,4)
    by (simp add: answer_events_def)
qed

definition at_blank :: GSM_Protocol_ATData where
  "at_blank = \<lparr>At_Msg = blank_message, wascrlf = False, LineStart = 0, LineEnd = 0, SpecialAnswerLines = 0, SpecialAnswerStart = 0,
     EditMode = False, FastWrite = False, CPINNoOK = False, At_RequestID = ID_None\<rparr>"

theorem at_answers_delivered_witness:
  "snd (run (AT_StateMachine (\<lambda>_ _ st. st)) (AT_Initialise False at_blank)
      ([13, 10] @ (bytes_of ''+CSQ: 20'' @ eol @ bytes_of ''RING'' @ eol @ bytes_of ''OK'' @ eol)))
    = [Deliver 0 (bytes_of ''RING'' @ eol), Deliver 0 (bytes_of ''+CSQ: 20'' @ eol @ bytes_of ''OK'' @ eol)]"
proof -
  let ?a = "([Info (bytes_of ''+CSQ: 20''), Notice (bytes_of ''RING'')], bytes_of ''OK'')"
  have "plain_line (bytes_of ''+CSQ: 20'')" "plain_line (bytes_of ''OK'')"
    by (simp_all add: plain_line_def line_octets_def starts_def SpecialAnswers_def)
  moreover have "unsolicited 1 (bytes_of ''RING'')"
    by (simp add: unsolicited_def line_octets_def starts_def SpecialAnswers_def ends_answer_def StatusStrings_def)
  moreover have "\<not> ends_answer (bytes_of ''+CSQ: 20'')" "ends_answer (bytes_of ''OK'')"
    by (simp_all add: ends_answer_def StatusStrings_def starts_def)
  ultimately have "answer_ok ?a" by (simp add: answer_ok_def answer_octets_def)
  then show ?thesis
    using at_answers_delivered [of "\<lambda>_ _ st. st" at_blank "[13, 10]" "[?a]" False]
    by (simp add: quiet_def at_blank_def answer_octets_def del: run.simps)
qed

end
