(* ===== verification/Dispatch.thy ===== *)
theory Dispatch imports Protocol begin

text \<open>
  The dispatcher of \<^verbatim>\<open>libgammu/gsmstate.c\<close>: the queue of deferred events, the search for a reply
  function, the handling of a received message and the wait for the answer to a request.
\<close>

subsection \<open>Deferred events\<close>

text \<open>The handlers are named by what they belong to; \<open>ev_call\<close> stands for the event data.\<close>

record EventBinding =
  ev_type :: "32 word"
  ev_before :: bool
  ev_after :: bool
  ev_cancelled :: bool
  ev_call :: nat

abbreviation GSM_EV_CALL :: "32 word" where "GSM_EV_CALL \<equiv> 1"

definition MAX_DEFERRED_EVENTS :: nat where "MAX_DEFERRED_EVENTS = 5"

record DeferredEventQueue =
  head :: nat
  tail :: nat
  entries :: nat
  event_bindings :: "EventBinding list"

definition EventQueue_Push :: "DeferredEventQueue \<Rightarrow> EventBinding \<Rightarrow> GSM_Error \<times> DeferredEventQueue" where
  "EventQueue_Push q binding =
     (if entries q = MAX_DEFERRED_EVENTS then (ERR_FULL, q)
      else (ERR_NONE, q\<lparr>event_bindings := (event_bindings q)[head q := binding],
                        head := (head q + 1) mod MAX_DEFERRED_EVENTS, entries := entries q + 1\<rparr>))"

definition EventQueue_Pop :: "DeferredEventQueue \<Rightarrow> GSM_Error \<times> EventBinding option \<times> DeferredEventQueue" where
  "EventQueue_Pop q =
     (if entries q = 0 then (ERR_EMPTY, None, q)
      else (ERR_NONE, Some (event_bindings q ! tail q),
            q\<lparr>tail := (tail q + 1) mod MAX_DEFERRED_EVENTS, entries := entries q - 1\<rparr>))"

text \<open>The loop over the ring, which ends at the head if it gets there.\<close>

definition cancel_at :: "32 word \<Rightarrow> nat \<Rightarrow> DeferredEventQueue \<Rightarrow> DeferredEventQueue" where
  "cancel_at event_types i q =
     (if ev_type (event_bindings q ! i) AND event_types \<noteq> 0
      then q\<lparr>event_bindings := (event_bindings q)[i := (event_bindings q ! i)\<lparr>ev_cancelled := True\<rparr>]\<rparr> else q)"

partial_function (option) cancel_loop :: "32 word \<Rightarrow> nat \<Rightarrow> DeferredEventQueue \<Rightarrow> DeferredEventQueue option" where
  "cancel_loop event_types i q =
     (if i = head q then Some q else cancel_loop event_types ((i + 1) mod MAX_DEFERRED_EVENTS) (cancel_at event_types i q))"

definition GSM_CancelEventsOfType :: "DeferredEventQueue \<Rightarrow> 32 word \<Rightarrow> DeferredEventQueue option" where
  "GSM_CancelEventsOfType q event_types = cancel_loop event_types (tail q) q"

text \<open>The events in the ring, oldest first, and what every operation keeps.\<close>

definition queued :: "DeferredEventQueue \<Rightarrow> EventBinding list" where
  "queued q = map (\<lambda>k. event_bindings q ! ((tail q + k) mod MAX_DEFERRED_EVENTS)) [0..<entries q]"

definition queue_inv :: "DeferredEventQueue \<Rightarrow> bool" where
  "queue_inv q \<longleftrightarrow> length (event_bindings q) = MAX_DEFERRED_EVENTS \<and> tail q < MAX_DEFERRED_EVENTS
     \<and> entries q \<le> MAX_DEFERRED_EVENTS \<and> head q = (tail q + entries q) mod MAX_DEFERRED_EVENTS"

lemma length_queued [simp]: "length (queued q) = entries q"
  by (simp add: queued_def)

lemma mod_inj: "i < 5 \<Longrightarrow> k < 5 \<Longrightarrow> (t + i) mod 5 = (t + k) mod 5 \<Longrightarrow> i = (k :: nat)"
proof -
  assume a: "i < 5" "k < 5" "(t + i) mod 5 = (t + k) mod 5"
  then have "(int t + int i) mod 5 = (int t + int k) mod 5" by (metis of_nat_add of_nat_mod of_nat_numeral)
  then have "5 dvd int i - int k" by (simp add: mod_eq_dvd_iff)
  then show ?thesis using a(1,2) by presburger
qed

lemma push_queued:
  assumes "queue_inv q" "entries q < MAX_DEFERRED_EVENTS" and q'_def: "q' = snd (EventQueue_Push q b)"
  shows "queued q' = queued q @ [b]" "queue_inv q'"
proof -
  have l: "length (event_bindings q) = 5" "tail q < 5" "entries q < 5" "head q = (tail q + entries q) mod 5"
    using assms(1,2) by (simp_all add: queue_inv_def MAX_DEFERRED_EVENTS_def)
  have q': "q' = q\<lparr>event_bindings := (event_bindings q)[head q := b], head := (head q + 1) mod 5, entries := entries q + 1\<rparr>"
    using assms(2) by (simp add: q'_def EventQueue_Push_def MAX_DEFERRED_EVENTS_def)
  have "(event_bindings q)[head q := b] ! ((tail q + k) mod 5) = event_bindings q ! ((tail q + k) mod 5)" if "k < entries q" for k
    using that l mod_inj [of k "entries q" "tail q"] by (metis less_irrefl less_trans nth_list_update_neq)
  then have "map (\<lambda>k. (event_bindings q)[head q := b] ! ((tail q + k) mod 5)) [0..<entries q] = queued q"
    by (simp add: queued_def MAX_DEFERRED_EVENTS_def)
  then show "queued q' = queued q @ [b]" using l by (simp add: q' queued_def MAX_DEFERRED_EVENTS_def)
  show "queue_inv q'" using l by (simp add: q' queue_inv_def MAX_DEFERRED_EVENTS_def mod_Suc_eq)
qed

lemma pop_queued:
  assumes "queue_inv q" "0 < entries q" and q'_def: "q' = snd (snd (EventQueue_Pop q))"
  shows "queued q = event_bindings q ! tail q # queued q'" "queue_inv q'"
proof -
  have l: "length (event_bindings q) = 5" "tail q < 5" "entries q \<le> 5" "head q = (tail q + entries q) mod 5"
    using assms(1) by (simp_all add: queue_inv_def MAX_DEFERRED_EVENTS_def)
  have q': "q' = q\<lparr>tail := (tail q + 1) mod 5, entries := entries q - 1\<rparr>"
    using assms(2) by (simp add: q'_def EventQueue_Pop_def MAX_DEFERRED_EVENTS_def)
  obtain n where n: "entries q = Suc n" using assms(2) by (cases "entries q") auto
  have "queued q = map (\<lambda>k. event_bindings q ! ((tail q + k) mod 5)) (0 # map Suc [0..<n])"
    by (simp add: queued_def MAX_DEFERRED_EVENTS_def n upt_conv_Cons map_Suc_upt del: upt_Suc)
  moreover have "queued q' = map (\<lambda>k. event_bindings q ! ((tail q + Suc k) mod 5)) [0..<n]"
    by (simp add: queued_def q' n MAX_DEFERRED_EVENTS_def mod_simps)
  ultimately show "queued q = event_bindings q ! tail q # queued q'" using l by (simp add: o_def)
  show "queue_inv q'" using l n by (simp add: q' queue_inv_def MAX_DEFERRED_EVENTS_def mod_simps)
qed

definition queue_push :: "DeferredEventQueue \<Rightarrow> EventBinding \<Rightarrow> DeferredEventQueue option" where
  "queue_push q b = (case EventQueue_Push q b of (e, q') \<Rightarrow> if e = ERR_NONE then Some q' else None)"

definition queue_pop :: "DeferredEventQueue \<Rightarrow> (EventBinding \<times> DeferredEventQueue) option" where
  "queue_pop q = (case EventQueue_Pop q of (e, b, q') \<Rightarrow> map_option (\<lambda>x. (x, q')) b)"

interpretation events: bounded_queue queue_push queue_pop queued queue_inv MAX_DEFERRED_EVENTS
proof
  fix q :: DeferredEventQueue and x :: EventBinding
  assume inv: "queue_inv q"
  have le: "entries q \<le> MAX_DEFERRED_EVENTS" using inv by (simp add: queue_inv_def)
  show "map_option queued (queue_push q x) = fifo_push MAX_DEFERRED_EVENTS (queued q) x"
  proof (cases "entries q = MAX_DEFERRED_EVENTS")
    case False
    then show ?thesis using push_queued(1) [OF inv _ refl, of x] le
      by (simp add: queue_push_def fifo_push_def EventQueue_Push_def)
  qed (simp add: queue_push_def fifo_push_def EventQueue_Push_def)
  show "map_option (map_prod id queued) (queue_pop q) = fifo_pop (queued q)"
  proof (cases "entries q = 0")
    case False
    then show ?thesis using pop_queued(1) [OF inv _ refl] by (simp add: queue_pop_def EventQueue_Pop_def)
  qed (simp add: queue_pop_def EventQueue_Pop_def queued_def)
next
  fix q q' :: DeferredEventQueue and x :: EventBinding
  assume "queue_inv q" "queue_push q x = Some q'"
  then show "queue_inv q'" using push_queued(2) [OF _ _ refl, of q x]
    by (auto simp: queue_push_def EventQueue_Push_def queue_inv_def split: if_splits)
next
  fix q q' :: DeferredEventQueue and x :: EventBinding
  assume "queue_inv q" "queue_pop q = Some (x, q')"
  then show "queue_inv q'" using pop_queued(2) [OF _ _ refl, of q]
    by (auto simp: queue_pop_def EventQueue_Pop_def split: if_splits)
qed

text \<open>
  Claim C36. Any sequence of pushes and pops on the ring gives the results of a queue of at most
  five events, first in first out, and keeps the invariant of the ring.
\<close>

theorem event_queue_refines:
  assumes "queue_inv q" "run_queue queue_push queue_pop q ops = (results, q')"
  shows "run_queue (fifo_push 5) fifo_pop (queued q) ops = (results, queued q') \<and> queue_inv q'"
  using events.simulates [OF assms] by (simp add: MAX_DEFERRED_EVENTS_def)

definition empty_queue :: DeferredEventQueue where
  "empty_queue = \<lparr>head = 0, tail = 0, entries = 0, event_bindings = replicate 5
     \<lparr>ev_type = 0, ev_before = False, ev_after = False, ev_cancelled = False, ev_call = 0\<rparr>\<rparr>"

lemma empty_queue_inv: "queue_inv empty_queue" "queued empty_queue = []"
  by (simp_all add: queue_inv_def empty_queue_def MAX_DEFERRED_EVENTS_def queued_def)

definition call_event :: "nat \<Rightarrow> EventBinding" where
  "call_event n = \<lparr>ev_type = GSM_EV_CALL, ev_before = True, ev_after = False, ev_cancelled = False, ev_call = n\<rparr>"

theorem event_queue_refines_witness:
  "fst (run_queue queue_push queue_pop empty_queue (map (\<lambda>n. Push (call_event n)) [1, 2, 3, 4, 5, 6] @ [Pop, Pop, Push (call_event 7)]))
   = [Pushed, Pushed, Pushed, Pushed, Pushed, Full, Popped (call_event 1), Popped (call_event 2), Pushed]"
proof -
  obtain results q' where r: "run_queue queue_push queue_pop empty_queue
      (map (\<lambda>n. Push (call_event n)) [1, 2, 3, 4, 5, 6] @ [Pop, Pop, Push (call_event 7)]) = (results, q')" by (metis surj_pair)
  from event_queue_refines [OF empty_queue_inv(1) r] show ?thesis unfolding r
    by (simp add: empty_queue_inv(2) fifo_push_def)
qed

subsection \<open>Cancelling\<close>

definition mark :: "32 word \<Rightarrow> EventBinding \<Rightarrow> EventBinding" where
  "mark event_types b = (if ev_type b AND event_types \<noteq> 0 then b\<lparr>ev_cancelled := True\<rparr> else b)"

lemma queued_nth: "k < entries q \<Longrightarrow> queued q ! k = event_bindings q ! ((tail q + k) mod MAX_DEFERRED_EVENTS)"
  by (simp add: queued_def)

lemma cancel_at_queued:
  assumes "queue_inv q" "j < entries q" and i: "i = (tail q + j) mod MAX_DEFERRED_EVENTS"
  shows "queued (cancel_at event_types i q) = (queued q)[j := mark event_types (queued q ! j)]"
    "queue_inv (cancel_at event_types i q)" "head (cancel_at event_types i q) = head q"
    "tail (cancel_at event_types i q) = tail q" "entries (cancel_at event_types i q) = entries q"
proof -
  have l: "length (event_bindings q) = 5" "entries q \<le> 5" using assms(1) by (simp_all add: queue_inv_def MAX_DEFERRED_EVENTS_def)
  have j: "queued q ! j = event_bindings q ! i" using queued_nth [OF assms(2)] i by simp
  have c: "cancel_at event_types i q = q\<lparr>event_bindings := (event_bindings q)[i := mark event_types (queued q ! j)]\<rparr>"
    by (simp add: cancel_at_def mark_def j)
  have m: "i = (tail q + k) mod 5 \<longleftrightarrow> j = k" if "k < entries q" for k
    using mod_inj [of j k "tail q"] assms(2) l(2) i that by (auto simp: MAX_DEFERRED_EVENTS_def)
  have "i < 5" by (simp add: i MAX_DEFERRED_EVENTS_def)
  then have "event_bindings (cancel_at event_types i q) ! ((tail q + k) mod 5) = (queued q)[j := mark event_types (queued q ! j)] ! k"
    if "k < entries q" for k
    using that m [OF that] l queued_nth [OF that] assms(2) by (simp add: c nth_list_update MAX_DEFERRED_EVENTS_def)
  then show "queued (cancel_at event_types i q) = (queued q)[j := mark event_types (queued q ! j)]"
    by (intro nth_equalityI) (simp_all add: queued_nth c MAX_DEFERRED_EVENTS_def)
  show "queue_inv (cancel_at event_types i q)" "head (cancel_at event_types i q) = head q"
    "tail (cancel_at event_types i q) = tail q" "entries (cancel_at event_types i q) = entries q"
    using assms(1) by (simp_all add: c queue_inv_def)
qed

lemma cancel_loop_run:
  assumes "queue_inv q" "entries q < MAX_DEFERRED_EVENTS" "j \<le> entries q"
  shows "\<exists>q'. cancel_loop event_types ((tail q + j) mod MAX_DEFERRED_EVENTS) q = Some q' \<and> queue_inv q'
    \<and> queued q' = take j (queued q) @ map (mark event_types) (drop j (queued q))"
  using assms
proof (induction "entries q - j" arbitrary: q j)
  case 0
  then have "j = entries q" by simp
  then show ?case using 0 by (subst cancel_loop.simps) (simp add: queue_inv_def)
next
  case (Suc n)
  then have j: "j < entries q" by simp
  define i where "i = (tail q + j) mod MAX_DEFERRED_EVENTS"
  note c = cancel_at_queued [OF Suc.prems(1) j i_def, of event_types]
  have n: "n = entries q - Suc j" using Suc.hyps(2) by simp
  have "i \<noteq> head q"
    using mod_inj [of j "entries q" "tail q"] j Suc.prems(1,2) by (auto simp: i_def queue_inv_def MAX_DEFERRED_EVENTS_def)
  moreover have "(i + 1) mod MAX_DEFERRED_EVENTS = (tail (cancel_at event_types i q) + (j + 1)) mod MAX_DEFERRED_EVENTS"
    unfolding c(4) by (simp add: i_def mod_simps)
  moreover obtain q' where q': "cancel_loop event_types ((tail (cancel_at event_types i q) + (j + 1)) mod MAX_DEFERRED_EVENTS) (cancel_at event_types i q) = Some q'"
      "queue_inv q'" "queued q' = take (j + 1) (queued (cancel_at event_types i q)) @ map (mark event_types) (drop (j + 1) (queued (cancel_at event_types i q)))"
    using Suc.hyps(1) [of "cancel_at event_types i q" "j + 1"] n Suc.prems(2) c(2,5) j by auto
  moreover have "queued q' = take j (queued q) @ map (mark event_types) (drop j (queued q))"
    using q'(3) j by (simp add: c(1) take_Suc_conv_app_nth take_update_cancel Cons_nth_drop_Suc [symmetric])
  ultimately show ?case by (subst cancel_loop.simps) (simp add: i_def [symmetric])
qed

text \<open>
  Cancelling ends, keeps the order of the queue and marks exactly the events of the
  given types, unless the ring is full: then its head meets its tail at once and nothing is marked.
\<close>

theorem cancel_events:
  assumes "queue_inv q"
  shows "\<exists>q'. GSM_CancelEventsOfType q event_types = Some q' \<and> queue_inv q'
    \<and> queued q' = (if entries q = MAX_DEFERRED_EVENTS then queued q else map (mark event_types) (queued q))"
proof (cases "entries q = MAX_DEFERRED_EVENTS")
  case True
  then have "head q = tail q" using assms by (simp add: queue_inv_def)
  then show ?thesis using assms True by (subst GSM_CancelEventsOfType_def, subst cancel_loop.simps) simp
next
  case False
  then have "entries q < MAX_DEFERRED_EVENTS" using assms by (simp add: queue_inv_def)
  moreover have "tail q mod MAX_DEFERRED_EVENTS = tail q" using assms by (simp add: queue_inv_def)
  ultimately show ?thesis using cancel_loop_run [OF assms, of 0 event_types] False by (simp add: GSM_CancelEventsOfType_def)
qed

theorem cancel_events_witness:
  "\<exists>q'. GSM_CancelEventsOfType empty_queue GSM_EV_CALL = Some q' \<and> queued q' = []"
  using cancel_events [OF empty_queue_inv(1), of GSM_EV_CALL] by (auto simp: empty_queue_inv(2))

subsection \<open>Replies\<close>

record GSM_Reply_Function =
  msgtype :: "byte list"
  subtypechar :: nat
  subtype :: int
  requestID :: GSM_Phone_RequestID

text \<open>
  The test of an entry against a message of a type and payload; \<open>behind\<close> is the octet in memory
  behind the payload, which the test for the subtype may read.
\<close>

definition reply_matches :: "byte \<Rightarrow> int \<Rightarrow> byte list \<Rightarrow> GSM_Reply_Function \<Rightarrow> bool" where
  "reply_matches behind type payload r \<longleftrightarrow>
     (if (msgtype r = []) \<and> subtypechar r = 0 then subtype r = type
      else if length (msgtype r) < 2 then
        (case msgtype r of [] \<Rightarrow> 0 | b # _ \<Rightarrow> uint b) = type
        \<and> (subtypechar r \<noteq> 0 \<longrightarrow> subtypechar r \<le> length payload \<and> uint ((payload @ [behind]) ! subtypechar r) = subtype r)
      else length (msgtype r) < length payload \<and> take (length (msgtype r)) payload = msgtype r)"

definition reply_wanted :: "GSM_Phone_RequestID \<Rightarrow> GSM_Reply_Function \<Rightarrow> bool" where
  "reply_wanted req r \<longleftrightarrow> requestID r = ID_IncomingFrame \<or> requestID r = req \<or> req = ID_EachFrame"

text \<open>The loop from entry \<open>i\<close> on, with \<open>reply\<close> and \<open>available\<close>.\<close>

fun check_replies ::
  "byte \<Rightarrow> int \<Rightarrow> byte list \<Rightarrow> GSM_Phone_RequestID \<Rightarrow> GSM_Reply_Function list \<Rightarrow> nat \<Rightarrow> nat \<Rightarrow> bool \<Rightarrow> GSM_Error \<times> nat" where
  "check_replies behind type payload req [] i reply available =
     (if available then ERR_FRAMENOTREQUESTED else ERR_UNKNOWNFRAME, reply)"
| "check_replies behind type payload req (r # rs) i reply available =
     (if requestID r = ID_None then (if available then ERR_FRAMENOTREQUESTED else ERR_UNKNOWNFRAME, reply)
      else if reply_matches behind type payload r then
        if reply_wanted req r then (ERR_NONE, i)
        else check_replies behind type payload req rs (i + 1) i True
      else check_replies behind type payload req rs (i + 1) reply available)"

definition CheckReplyFunctions ::
  "byte \<Rightarrow> int \<Rightarrow> byte list \<Rightarrow> GSM_Phone_RequestID \<Rightarrow> GSM_Reply_Function list \<Rightarrow> GSM_Error \<times> nat" where
  "CheckReplyFunctions behind type payload req Reply = check_replies behind type payload req Reply 0 0 False"

text \<open>The entries before the one without request.\<close>

definition listed :: "GSM_Reply_Function list \<Rightarrow> GSM_Reply_Function list" where
  "listed Reply = takeWhile (\<lambda>r. requestID r \<noteq> ID_None) Reply"

text \<open>The first entry that fits and is wanted, with no such entry before it; else why there is none.\<close>

definition first_reply :: "byte \<Rightarrow> int \<Rightarrow> byte list \<Rightarrow> GSM_Phone_RequestID \<Rightarrow> GSM_Reply_Function list \<Rightarrow> nat \<Rightarrow> bool" where
  "first_reply behind type payload req rs n \<longleftrightarrow>
     (\<exists>pre r post. rs = pre @ r # post \<and> n = length pre \<and> reply_matches behind type payload r \<and> reply_wanted req r
        \<and> (\<forall>x \<in> set pre. \<not> (reply_matches behind type payload x \<and> reply_wanted req x)))"

lemma check_replies_spec:
  "check_replies behind type payload req Reply i reply available = (e, n) \<Longrightarrow>
     (e = ERR_NONE \<longrightarrow> i \<le> n \<and> first_reply behind type payload req (listed Reply) (n - i))
   \<and> (e \<noteq> ERR_NONE \<longrightarrow> (\<forall>r \<in> set (listed Reply). \<not> (reply_matches behind type payload r \<and> reply_wanted req r))
        \<and> e = (if available \<or> (\<exists>r \<in> set (listed Reply). reply_matches behind type payload r) then ERR_FRAMENOTREQUESTED else ERR_UNKNOWNFRAME))"
proof (induction Reply arbitrary: i reply available)
  case (Cons r rs)
  show ?case
  proof (cases "requestID r = ID_None")
    case True
    then show ?thesis using Cons.prems by (auto simp: listed_def split: if_splits)
  next
    case False
    then have l: "listed (r # rs) = r # listed rs" by (simp add: listed_def)
    show ?thesis
    proof (cases "reply_matches behind type payload r \<and> reply_wanted req r")
      case True
      then have "e = ERR_NONE" "n = i" using Cons.prems False by simp_all
      moreover have "first_reply behind type payload req (listed (r # rs)) 0"
        unfolding first_reply_def l using True by (intro exI [of _ "[]"] exI [of _ r] exI [of _ "listed rs"]) simp
      ultimately show ?thesis by simp
    next
      case no: False
      define available' reply' where "available' \<longleftrightarrow> available \<or> reply_matches behind type payload r"
        and "reply' = (if reply_matches behind type payload r then i else reply)"
      have "check_replies behind type payload req rs (i + 1) reply' available' = (e, n)"
        using Cons.prems False no by (auto simp: available'_def reply'_def split: if_splits)
      note IH = Cons.IH [OF this]
      show ?thesis
      proof (cases "e = ERR_NONE")
        case True
        with IH obtain pre x post where f: "i + 1 \<le> n" "listed rs = pre @ x # post" "n - (i + 1) = length pre"
          "reply_matches behind type payload x" "reply_wanted req x"
          "\<forall>y \<in> set pre. \<not> (reply_matches behind type payload y \<and> reply_wanted req y)" by (auto simp: first_reply_def)
        then have "first_reply behind type payload req (listed (r # rs)) (n - i)"
          unfolding first_reply_def l using no by (intro exI [of _ "r # pre"] exI [of _ x] exI [of _ post]) auto
        then show ?thesis using True f(1) by simp
      next
        case False
        then show ?thesis using IH no unfolding l by (auto simp: available'_def)
      qed
    qed
  qed
qed (auto simp: listed_def split: if_splits)

text \<open>
  The search in a table of reply functions finds the first entry that fits the message
  and is wanted for the request; without one it tells whether some entry fits the message.
\<close>

theorem check_reply_functions:
  assumes "CheckReplyFunctions behind type payload req Reply = (e, n)"
  shows "if \<exists>r \<in> set (listed Reply). reply_matches behind type payload r \<and> reply_wanted req r
    then e = ERR_NONE \<and> first_reply behind type payload req (listed Reply) n
    else e = (if \<exists>r \<in> set (listed Reply). reply_matches behind type payload r then ERR_FRAMENOTREQUESTED else ERR_UNKNOWNFRAME)"
proof -
  note s = check_replies_spec [OF assms [unfolded CheckReplyFunctions_def]]
  show ?thesis
  proof (cases "e = ERR_NONE")
    case True
    then have f: "first_reply behind type payload req (listed Reply) n" using s by simp
    then have "\<exists>r \<in> set (listed Reply). reply_matches behind type payload r \<and> reply_wanted req r"
      unfolding first_reply_def by auto
    then show ?thesis using True f by simp
  qed (use s in auto)
qed

theorem check_reply_functions_witness:
  "fst (CheckReplyFunctions 0 0x14 [1, 2] (ID_Other 7)
     [\<lparr>msgtype = [0x14], subtypechar = 1, subtype = 3, requestID = ID_Other 7\<rparr>, \<lparr>msgtype = [0x14], subtypechar = 0, subtype = 0, requestID = ID_Other 8\<rparr>])
   = ERR_FRAMENOTREQUESTED"
proof -
  let ?t = "[\<lparr>msgtype = [0x14], subtypechar = 1, subtype = 3, requestID = ID_Other 7\<rparr>, \<lparr>msgtype = [0x14], subtypechar = 0, subtype = 0, requestID = ID_Other 8\<rparr>]"
  obtain e n where r: "CheckReplyFunctions 0 0x14 [1, 2] (ID_Other 7) ?t = (e, n)" by (metis surj_pair)
  from check_reply_functions [OF r] show ?thesis unfolding r by (simp add: listed_def reply_matches_def reply_wanted_def)
qed

text \<open>
  The octet tested for the subtype may be the one behind the message: the bound is not strict.
\<close>

lemma subtype_behind_message:
  "reply_matches behind 0x14 [1, 2] \<lparr>msgtype = [0x14], subtypechar = 2, subtype = 9, requestID = req\<rparr> \<longleftrightarrow> behind = 9"
  by (simp add: reply_matches_def word_uint_eq_iff)

subsection \<open>Messages\<close>

text \<open>
  The state a message can change, and what is called on the way: handlers of deferred events, of
  calls and the start-up information. \<open>before\<close> is the result of the hook of an event. The handlers and
  hooks are called and have no effect on the queue and on the pending request: a handler that itself defers, cancels or
  asks the phone (as one that calls \<^verbatim>\<open>GSM_CancelCall\<close>) is outside the model.
\<close>

record phone =
  RequestID :: GSM_Phone_RequestID
  DispatchError :: GSM_Error
  DeferredEvents :: DeferredEventQueue
  MessagesCount :: nat
  StartInfoCounter :: nat

datatype phone_action =
  BeforeEvent EventBinding | Handler EventBinding | AfterEvent EventBinding | IncomingCall nat | HideStartInfo

definition ProcessDeferredEvent ::
  "(EventBinding \<Rightarrow> GSM_Error) \<Rightarrow> DeferredEventQueue \<Rightarrow> GSM_Error \<times> phone_action list \<times> DeferredEventQueue" where
  "ProcessDeferredEvent before q =
     (case EventQueue_Pop q of
        (e, None, q') \<Rightarrow> (e, [], q')
      | (e, Some b, q') \<Rightarrow>
          (let (error, acts) =
             (if ev_cancelled b then (e, [])
              else let error = (if ev_before b then before b else e) in
                   (error, (if ev_before b then [BeforeEvent b] else []) @ (if error = ERR_NONE then [Handler b] else [])))
           in (error, acts @ (if ev_after b then [AfterEvent b] else []), q')))"

lemma process_pops: "ProcessDeferredEvent before q = (ERR_NONE, acts, q') \<Longrightarrow> entries q' < entries q"
  by (auto simp: ProcessDeferredEvent_def EventQueue_Pop_def Let_def split: if_splits prod.splits)

text \<open>\<^verbatim>\<open>while (ProcessDeferredEvent(s) == ERR_NONE)\<close>.\<close>

function process_deferred ::
  "(EventBinding \<Rightarrow> GSM_Error) \<Rightarrow> DeferredEventQueue \<Rightarrow> phone_action list \<times> DeferredEventQueue" where
  "process_deferred before q =
     (case ProcessDeferredEvent before q of (e, acts, q') \<Rightarrow>
        if e = ERR_NONE then let (acts', q'') = process_deferred before q' in (acts @ acts', q'') else (acts, q'))"
  by pat_completeness auto
termination
  by (relation "measure (\<lambda>(before, q). entries q)") (auto dest: process_pops [OF sym])

declare process_deferred.simps [simp del]

definition GSM_DeferIncomingCallEvent ::
  "phone \<Rightarrow> nat \<Rightarrow> bool \<Rightarrow> GSM_Error \<times> phone_action list \<times> phone" where
  "GSM_DeferIncomingCallEvent s call before_event =
     (if RequestID s = ID_None then (ERR_NONE, [IncomingCall call], s)
      else
        let (error, q) = EventQueue_Push (DeferredEvents s)
          \<lparr>ev_type = GSM_EV_CALL, ev_before = before_event, ev_after = False, ev_cancelled = False, ev_call = call\<rparr>
        in (error, [], s\<lparr>DeferredEvents := q\<rparr>))"

text \<open>
  A received message. \<open>answer\<close> is the reply function at a place of the user's or of the phone's
  table with what it does to the state; \<open>nauto\<close> says that the phone module is the automatic one.
\<close>

definition GSM_DispatchMessage ::
  "(EventBinding \<Rightarrow> GSM_Error) \<Rightarrow> GSM_Reply_Function list option \<Rightarrow> GSM_Reply_Function list
   \<Rightarrow> (bool \<Rightarrow> nat \<Rightarrow> int \<Rightarrow> byte list \<Rightarrow> phone \<Rightarrow> GSM_Error \<times> phone_action list \<times> phone) \<Rightarrow> bool \<Rightarrow> byte
   \<Rightarrow> int \<times> byte list \<Rightarrow> phone \<Rightarrow> GSM_Error \<times> phone_action list \<times> phone" where
  "GSM_DispatchMessage before user table answer nauto behind = (\<lambda>(type, payload) s0.
     let s = s0\<lparr>MessagesCount := MessagesCount s0 + 1\<rparr>;
         (e1, n1) = (case user of None \<Rightarrow> (ERR_UNKNOWNFRAME, 0) | Some t \<Rightarrow> CheckReplyFunctions behind type payload (RequestID s) t);
         (e2, n2, own) = (if e1 = ERR_UNKNOWNFRAME
                          then let (e, n) = CheckReplyFunctions behind type payload (RequestID s) table in (e, n, False)
                          else (e1, n1, True));
         (e3, acts, s1) =
           (if e2 \<noteq> ERR_NONE then (e2, [], s)
            else
              let (e, acts, s') = answer own n2 type payload s; entry = (if own then the user ! n2 else table ! n2) in
              if requestID entry \<noteq> RequestID s' then (e, acts, s')
              else if e = ERR_NEEDANOTHERANSWER then (ERR_NONE, acts, s')
              else let (acts', q) = process_deferred before (DeferredEvents s')
                   in (e, acts @ acts', s'\<lparr>RequestID := ID_None, DeferredEvents := q\<rparr>))
     in (if \<not> nauto \<and> (e3 = ERR_UNKNOWNFRAME \<or> e3 = ERR_FRAMENOTREQUESTED) then ERR_TIMEOUT else e3, acts, s1))"

text \<open>What the events of a queue call when no hook fails.\<close>

definition event_actions :: "EventBinding \<Rightarrow> phone_action list" where
  "event_actions b =
     (if ev_cancelled b then [] else (if ev_before b then [BeforeEvent b] else []) @ [Handler b])
     @ (if ev_after b then [AfterEvent b] else [])"

definition hook_ok :: "(EventBinding \<Rightarrow> GSM_Error) \<Rightarrow> EventBinding \<Rightarrow> bool" where
  "hook_ok before b \<longleftrightarrow> ev_before b \<and> \<not> ev_cancelled b \<longrightarrow> before b = ERR_NONE"

lemma process_deferred_run:
  assumes "queue_inv q"
  shows "\<exists>acts q'. process_deferred before q = (acts, q') \<and> queue_inv q'
    \<and> ((\<forall>b \<in> set (queued q). hook_ok before b) \<longrightarrow> acts = concat (map event_actions (queued q)) \<and> queued q' = [])
    \<and> (\<forall>b. Handler b \<in> set acts \<longrightarrow> b \<in> set (queued q) \<and> \<not> ev_cancelled b)"
  using assms
proof (induction "entries q" arbitrary: q)
  case 0
  then show ?case
    by (subst process_deferred.simps) (simp add: ProcessDeferredEvent_def EventQueue_Pop_def queued_def)
next
  case (Suc n)
  define b where "b = event_bindings q ! tail q"
  define q1 where "q1 = snd (snd (EventQueue_Pop q))"
  have q1: "queued q = b # queued q1" "queue_inv q1" "n = entries q1"
    using pop_queued [OF Suc.prems _ q1_def] Suc.hyps(2) by (simp_all add: b_def q1_def EventQueue_Pop_def)
  have pop: "EventQueue_Pop q = (ERR_NONE, Some b, q1)" using Suc.hyps(2) by (simp add: EventQueue_Pop_def b_def q1_def)
  from Suc.hyps(1) [OF q1(3,2)] obtain acts q' where
    r: "process_deferred before q1 = (acts, q')" "queue_inv q'"
      "(\<forall>b \<in> set (queued q1). hook_ok before b) \<longrightarrow> acts = concat (map event_actions (queued q1)) \<and> queued q' = []"
      "\<forall>b. Handler b \<in> set acts \<longrightarrow> b \<in> set (queued q1) \<and> \<not> ev_cancelled b" by auto
  show ?case
  proof (cases "hook_ok before b")
    case True
    then have "ProcessDeferredEvent before q = (ERR_NONE, event_actions b, q1)"
      by (auto simp: ProcessDeferredEvent_def pop event_actions_def hook_ok_def)
    then have "process_deferred before q = (event_actions b @ acts, q')"
      using r(1) by (subst process_deferred.simps) simp
    moreover have "\<forall>c. Handler c \<in> set (event_actions b @ acts) \<longrightarrow> c \<in> set (queued q) \<and> \<not> ev_cancelled c"
    proof (intro allI impI)
      fix c assume "Handler c \<in> set (event_actions b @ acts)"
      then show "c \<in> set (queued q) \<and> \<not> ev_cancelled c" using r(4) q1(1) by (auto simp: event_actions_def split: if_splits)
    qed
    moreover have "(\<forall>b \<in> set (queued q). hook_ok before b) \<longrightarrow>
        event_actions b @ acts = concat (map event_actions (queued q)) \<and> queued q' = []" using r(3) q1(1) by simp
    ultimately show ?thesis using r(2) by blast
  next
    case False
    define acts where "acts = BeforeEvent b # (if ev_after b then [AfterEvent b] else [])"
    have "ProcessDeferredEvent before q = (before b, acts, q1)" "before b \<noteq> ERR_NONE"
      using False by (simp_all add: ProcessDeferredEvent_def pop hook_ok_def acts_def)
    then have "process_deferred before q = (acts, q1)" by (subst process_deferred.simps) simp
    moreover have "\<forall>c. Handler c \<notin> set acts" by (simp add: acts_def)
    ultimately show ?thesis using q1 False by auto
  qed
qed

text \<open>The events whose handlers are called, in order.\<close>

definition handled :: "phone_action list \<Rightarrow> EventBinding list" where
  "handled acts = concat (map (\<lambda>a. case a of Handler b \<Rightarrow> [b] | _ \<Rightarrow> []) acts)"

lemma handled_simps [simp]:
  "handled [] = []" "handled (xs @ ys) = handled xs @ handled ys" "handled (Handler b # xs) = b # handled xs"
  "handled (BeforeEvent b # xs) = handled xs" "handled (AfterEvent b # xs) = handled xs"
  "handled (IncomingCall n # xs) = handled xs" "handled (HideStartInfo # xs) = handled xs"
  by (simp_all add: handled_def)

lemma handled_events: "handled (concat (map event_actions bs)) = filter (\<lambda>b. \<not> ev_cancelled b) bs"
  by (induction bs) (simp_all add: event_actions_def)

text \<open>
  Claim C15. The message that completes the request, and no other, runs the handlers of the
  events deferred until then, in the order they came, cancelled ones left out; afterwards the
  queue is empty and no request is pending. The handlers themselves leave the queue and the request alone.
\<close>

theorem dispatch_deferred_events:
  fixes s :: phone
  assumes "CheckReplyFunctions behind type payload (RequestID s) table = (ERR_NONE, n)"
    "answer False n type payload (s\<lparr>MessagesCount := MessagesCount s + 1\<rparr>) = (e1, acts1, s1)"
    "handled acts1 = []" "queue_inv (DeferredEvents s1)" "\<forall>b. hook_ok before b"
    "GSM_DispatchMessage before None table answer nauto behind (type, payload) s = (e, acts, s')"
  shows "if requestID (table ! n) = RequestID s1 \<and> e1 \<noteq> ERR_NEEDANOTHERANSWER
    then handled acts = filter (\<lambda>b. \<not> ev_cancelled b) (queued (DeferredEvents s1))
      \<and> queued (DeferredEvents s') = [] \<and> RequestID s' = ID_None
    else handled acts = [] \<and> DeferredEvents s' = DeferredEvents s1 \<and> RequestID s' = RequestID s1"
proof -
  obtain acts2 q where q: "process_deferred before (DeferredEvents s1) = (acts2, q)"
      "acts2 = concat (map event_actions (queued (DeferredEvents s1)))" "queued q = []"
    using process_deferred_run [OF assms(4), of before] assms(5) by auto
  have h: "handled acts2 = filter (\<lambda>b. \<not> ev_cancelled b) (queued (DeferredEvents s1))"
    unfolding q(2) by (rule handled_events)
  show ?thesis
    using assms(1,2,3,6) q(1,3) h
    by (cases "requestID (table ! n) = RequestID s1"; cases "e1 = ERR_NEEDANOTHERANSWER")
       (auto simp: GSM_DispatchMessage_def Let_def)
qed

theorem dispatch_deferred_events_witness:
  "\<exists>e acts s'. GSM_DispatchMessage (\<lambda>_. ERR_NONE) None
      [\<lparr>msgtype = [0x14], subtypechar = 0, subtype = 0, requestID = ID_Other 7\<rparr>] (\<lambda>own n type payload s. (ERR_NONE, [], s)) False 0 (0x14, [])
      \<lparr>RequestID = ID_Other 7, DispatchError = ERR_TIMEOUT, DeferredEvents = snd (EventQueue_Push empty_queue (call_event 1)),
        MessagesCount = 0, StartInfoCounter = 0\<rparr> = (e, acts, s')
    \<and> handled acts = [call_event 1] \<and> RequestID s' = ID_None"
proof -
  let ?s = "\<lparr>RequestID = ID_Other 7, DispatchError = ERR_TIMEOUT, DeferredEvents = snd (EventQueue_Push empty_queue (call_event 1)),
        MessagesCount = 0, StartInfoCounter = 0\<rparr>"
  let ?t = "[\<lparr>msgtype = [0x14 :: byte], subtypechar = 0, subtype = 0 :: int, requestID = ID_Other 7\<rparr>]"
  let ?a = "\<lambda>(own :: bool) (n :: nat) (type :: int) (payload :: byte list) (s :: phone). (ERR_NONE, [] :: phone_action list, s)"
  have inv: "queue_inv (DeferredEvents ?s)" "queued (DeferredEvents ?s) = [call_event 1]"
    using push_queued [OF empty_queue_inv(1) _ refl, of "call_event 1"] empty_queue_inv(2)
    by (simp_all add: empty_queue_def MAX_DEFERRED_EVENTS_def)
  have c: "CheckReplyFunctions 0 0x14 [] (RequestID ?s) ?t = (ERR_NONE, 0)"
    by (simp add: CheckReplyFunctions_def reply_matches_def reply_wanted_def)
  obtain e acts s' where d: "GSM_DispatchMessage (\<lambda>_. ERR_NONE) None ?t ?a False 0 (0x14, []) ?s = (e, acts, s')"
    by (metis prod_cases3)
  have "handled acts = [call_event 1] \<and> RequestID s' = ID_None"
    using dispatch_deferred_events [OF c refl _ _ _ d] inv by (simp add: hook_ok_def call_event_def)
  then show ?thesis using d by blast
qed

subsection \<open>Waiting for the answer\<close>

text \<open>
  What one \<^verbatim>\<open>GSM_ReadDevice\<close> of the waiting loop meets: the messages it delivers, whether the
  operation was aborted, and the milliseconds since the start. \<open>None\<close>: the list ended first.
\<close>

record tick =
  messages :: "(int \<times> byte list) list"
  aborted :: bool
  elapsed :: nat

definition receive_all ::
  "(int \<times> byte list \<Rightarrow> phone \<Rightarrow> GSM_Error \<times> phone_action list \<times> phone) \<Rightarrow> (int \<times> byte list) list \<Rightarrow> phone \<Rightarrow> phone" where
  "receive_all dispatch ms s = foldl (\<lambda>s m. let (e, _, s') = dispatch m s in s'\<lparr>DispatchError := e\<rparr>) s ms"

fun GSM_WaitForOnce ::
  "(int \<times> byte list \<Rightarrow> phone \<Rightarrow> GSM_Error \<times> phone_action list \<times> phone) \<Rightarrow> int \<Rightarrow> tick list \<Rightarrow> phone
   \<Rightarrow> (GSM_Error \<times> tick list \<times> phone) option" where
  "GSM_WaitForOnce dispatch timeout [] s = None"
| "GSM_WaitForOnce dispatch timeout (t # ts) s =
     (let s1 = receive_all dispatch (messages t) s in
      if aborted t then Some (ERR_ABORTED, ts, s1)
      else if RequestID s1 = ID_None then Some (DispatchError s1, ts, s1)
      else if int (elapsed t) < (if timeout > 0 then timeout * 1000 else 0) then GSM_WaitForOnce dispatch timeout ts s1
      else Some (ERR_TIMEOUT, ts, s1))"

text \<open>
  The attempts: \<open>write\<close> is the result of writing the request for the \<open>k\<close>-th time. The result has
  the number of writes, and whether all attempts ended without an answer.
\<close>

fun wait_attempts ::
  "(int \<times> byte list \<Rightarrow> phone \<Rightarrow> GSM_Error \<times> phone_action list \<times> phone) \<Rightarrow> (nat \<Rightarrow> GSM_Error) \<Rightarrow> int
   \<Rightarrow> GSM_Phone_RequestID \<Rightarrow> nat \<Rightarrow> nat \<Rightarrow> tick list \<Rightarrow> phone \<Rightarrow> (GSM_Error \<times> nat \<times> bool \<times> phone) option" where
  "wait_attempts dispatch write timeout request k 0 ts s = Some (ERR_TIMEOUT, k, True, s)"
| "wait_attempts dispatch write timeout request k (Suc left) ts s =
     (if write k \<noteq> ERR_NONE then Some (write k, k + 1, False, s)
      else if request = ID_None then Some (ERR_NONE, k + 1, False, s)
      else case GSM_WaitForOnce dispatch timeout ts s of
        None \<Rightarrow> None
      | Some (e, ts', s') \<Rightarrow>
          if e \<noteq> ERR_TIMEOUT then Some (e, k + 1, False, s')
          else wait_attempts dispatch write timeout request (k + 1) left ts' s')"

text \<open>\<open>reset_after\<close>: the model has the feature to be reset; the last component tells of a reset.\<close>

definition GSM_WaitFor ::
  "(int \<times> byte list \<Rightarrow> phone \<Rightarrow> GSM_Error \<times> phone_action list \<times> phone) \<Rightarrow> (nat \<Rightarrow> GSM_Error) \<Rightarrow> int
   \<Rightarrow> GSM_Phone_RequestID \<Rightarrow> nat \<Rightarrow> bool \<Rightarrow> bool \<Rightarrow> tick list \<Rightarrow> phone
   \<Rightarrow> (GSM_Error \<times> nat \<times> phone_action list \<times> phone \<times> bool) option" where
  "GSM_WaitFor dispatch write timeout request ReplyNum StartInfo reset_after ts s0 =
     (let hide = StartInfo \<and> StartInfoCounter s0 > 0;
          s1 = (if hide then s0\<lparr>StartInfoCounter := StartInfoCounter s0 - 1\<rparr> else s0);
          acts = (if hide \<and> StartInfoCounter s1 = 0 then [HideStartInfo] else []);
          s = s1\<lparr>RequestID := request, DispatchError := ERR_TIMEOUT\<rparr> in
      map_option (\<lambda>(e, k, exhausted, s'). (e, k, acts, s', exhausted \<and> request \<noteq> ID_Reset \<and> reset_after))
        (wait_attempts dispatch write timeout request 0 ReplyNum ts s))"

definition wait_limit :: "int \<Rightarrow> int" where
  "wait_limit timeout = (if timeout > 0 then timeout * 1000 else 0)"

text \<open>The clock gets to the limit within any \<open>n\<close> reads.\<close>

definition clock_runs :: "int \<Rightarrow> nat \<Rightarrow> tick list \<Rightarrow> bool" where
  "clock_runs timeout n ts \<longleftrightarrow>
     (\<forall>i. i + n \<le> length ts \<longrightarrow> (\<exists>j<n. wait_limit timeout \<le> int (elapsed (ts ! (i + j)))))"

lemma clock_runs_drop: "clock_runs timeout n ts \<Longrightarrow> clock_runs timeout n (drop k ts)"
  unfolding clock_runs_def
proof (intro allI impI)
  fix i assume all: "\<forall>i. i + n \<le> length ts \<longrightarrow> (\<exists>j<n. wait_limit timeout \<le> int (elapsed (ts ! (i + j))))"
    and i: "i + n \<le> length (drop k ts)"
  show "\<exists>j<n. wait_limit timeout \<le> int (elapsed (drop k ts ! (i + j)))"
  proof (cases "n = 0 \<or> length ts \<le> k")
    case True
    then show ?thesis using i all [rule_format, of 0] by auto
  next
    case False
    then have "k + i + n \<le> length ts" using i by auto
    with all obtain j where "j < n" "wait_limit timeout \<le> int (elapsed (ts ! (k + i + j)))" by blast
    then show ?thesis using i False by (auto intro!: exI [of _ j] simp: add.assoc)
  qed
qed

lemma wait_once_returns:
  assumes "j < length ts" "wait_limit timeout \<le> int (elapsed (ts ! j))"
  shows "\<exists>e k s'. GSM_WaitForOnce dispatch timeout ts s = Some (e, drop (Suc k) ts, s') \<and> k \<le> j
           \<and> (e = ERR_ABORTED \<or> e = ERR_TIMEOUT \<or> RequestID s' = ID_None \<and> DispatchError s' = e)"
  using assms
proof (induction ts arbitrary: j s)
  case (Cons t ts)
  let ?s1 = "receive_all dispatch (messages t) s"
  show ?case
  proof (cases "aborted t \<or> RequestID ?s1 = ID_None \<or> \<not> int (elapsed t) < wait_limit timeout")
    case True
    then show ?thesis by (intro exI [of _ "if aborted t then ERR_ABORTED else if RequestID ?s1 = ID_None then DispatchError ?s1 else ERR_TIMEOUT"] exI [of _ 0] exI [of _ ?s1])
       (auto simp: Let_def wait_limit_def)
  next
    case False
    then obtain i where i: "j = Suc i" "i < length ts" "wait_limit timeout \<le> int (elapsed (ts ! i))"
      using Cons.prems by (cases j) auto
    from Cons.IH [OF i(2,3), of ?s1] obtain e k s' where
      "GSM_WaitForOnce dispatch timeout ts ?s1 = Some (e, drop (Suc k) ts, s')" "k \<le> i"
      "e = ERR_ABORTED \<or> e = ERR_TIMEOUT \<or> RequestID s' = ID_None \<and> DispatchError s' = e" by blast
    then show ?thesis using False i(1)
      by (intro exI [of _ e] exI [of _ "Suc k"] exI [of _ s']) (auto simp: Let_def wait_limit_def)
  qed
qed simp

text \<open>What an outcome of the attempts says.\<close>

definition wait_outcome ::
  "(nat \<Rightarrow> GSM_Error) \<Rightarrow> GSM_Phone_RequestID \<Rightarrow> nat \<Rightarrow> GSM_Error \<times> nat \<times> bool \<times> phone \<Rightarrow> bool" where
  "wait_outcome write request n = (\<lambda>(e, k, exhausted, s).
     k \<le> n \<and> (exhausted \<longrightarrow> e = ERR_TIMEOUT \<and> k = n)
     \<and> (exhausted \<or> e = ERR_ABORTED \<or> (k > 0 \<and> e = write (k - 1) \<and> (e \<noteq> ERR_NONE \<or> request = ID_None))
        \<or> RequestID s = ID_None \<and> DispatchError s = e))"

lemma wait_attempts_return:
  assumes "clock_runs timeout n ts" "left * n \<le> length ts"
  shows "\<exists>r. wait_attempts dispatch write timeout request k left ts s = Some r \<and> wait_outcome write request (k + left) r"
  using assms
proof (induction left arbitrary: k ts s)
  case (Suc left)
  show ?case
  proof (cases "write k \<noteq> ERR_NONE \<or> request = ID_None")
    case False
    from Suc.prems obtain j where j: "j < n" "wait_limit timeout \<le> int (elapsed (ts ! j))"
      by (auto simp: clock_runs_def dest: spec [of _ 0])
    moreover have "n \<le> length ts" using Suc.prems(2) by simp
    ultimately obtain e m s' where w: "GSM_WaitForOnce dispatch timeout ts s = Some (e, drop (Suc m) ts, s')" "m \<le> j"
      "e = ERR_ABORTED \<or> e = ERR_TIMEOUT \<or> RequestID s' = ID_None \<and> DispatchError s' = e"
      using wait_once_returns [of j ts timeout dispatch s] by auto
    show ?thesis
    proof (cases "e = ERR_TIMEOUT")
      case True
      have "left * n \<le> length (drop (Suc m) ts)" using Suc.prems(2) w(2) j(1) by auto
      from Suc.IH [OF clock_runs_drop [OF Suc.prems(1)] this, of "k + 1" s'] show ?thesis
        using False w True by simp
    qed (use False w in \<open>auto simp: wait_outcome_def\<close>)
  qed (auto simp: wait_outcome_def)
qed (simp add: wait_outcome_def)

text \<open>
  Claim C16. When the clock gets to the timeout within any \<open>n\<close> reads, \<^verbatim>\<open>GSM_WaitFor\<close> returns after at most
  \<^verbatim>\<open>ReplyNum\<close> times \<open>n\<close> reads, whatever the phone sends. It has written the request at most \<^verbatim>\<open>ReplyNum\<close> times;
  it resets the phone only after as many attempts without an answer. The result is a timeout, the
  abort, the error of the last write, or the result of the handler that completed the request.
\<close>

theorem wait_for_returns:
  assumes "clock_runs timeout n ts" "ReplyNum * n \<le> length ts"
  shows "\<exists>e k acts s' reset.
           GSM_WaitFor dispatch write timeout request ReplyNum StartInfo reset_after ts s = Some (e, k, acts, s', reset)
           \<and> k \<le> ReplyNum \<and> (reset \<longrightarrow> e = ERR_TIMEOUT \<and> k = ReplyNum \<and> request \<noteq> ID_Reset)
           \<and> (e = ERR_TIMEOUT \<or> e = ERR_ABORTED \<or> (k > 0 \<and> e = write (k - 1) \<and> (e \<noteq> ERR_NONE \<or> request = ID_None))
              \<or> RequestID s' = ID_None \<and> DispatchError s' = e)"
proof -
  let ?hide = "StartInfo \<and> StartInfoCounter s > 0"
  let ?s1 = "if ?hide then s\<lparr>StartInfoCounter := StartInfoCounter s - 1\<rparr> else s"
  let ?s = "?s1\<lparr>RequestID := request, DispatchError := ERR_TIMEOUT\<rparr>"
  obtain e k exhausted s' where r: "wait_attempts dispatch write timeout request 0 ReplyNum ts ?s = Some (e, k, exhausted, s')"
    "wait_outcome write request ReplyNum (e, k, exhausted, s')"
    using wait_attempts_return [OF assms, of dispatch "write" request 0 ?s] by (metis add_0 prod_cases4)
  then show ?thesis
    by (intro exI [of _ e] exI [of _ k] exI [of _ "if ?hide \<and> StartInfoCounter ?s1 = 0 then [HideStartInfo] else []"]
        exI [of _ s'] exI [of _ "exhausted \<and> request \<noteq> ID_Reset \<and> reset_after"])
       (auto simp: GSM_WaitFor_def Let_def wait_outcome_def)
qed

definition idle_phone :: phone where
  "idle_phone = \<lparr>RequestID = ID_None, DispatchError = ERR_NONE, DeferredEvents = empty_queue, MessagesCount = 0, StartInfoCounter = 0\<rparr>"

text \<open>Two attempts of two reads each; the answer arrives with the last read.\<close>

definition answering :: "int \<times> byte list \<Rightarrow> phone \<Rightarrow> GSM_Error \<times> phone_action list \<times> phone" where
  "answering = GSM_DispatchMessage (\<lambda>_. ERR_NONE) None
     [\<lparr>msgtype = [0x14], subtypechar = 0, subtype = 0, requestID = ID_GetNetworkInfo\<rparr>]
     (\<lambda>_ _ _ _ s. (ERR_NONE, [], s)) False 0"

definition slow_ticks :: "tick list" where
  "slow_ticks = [\<lparr>messages = [], aborted = False, elapsed = 500\<rparr>, \<lparr>messages = [(0x15, [])], aborted = False, elapsed = 1001\<rparr>,
     \<lparr>messages = [], aborted = False, elapsed = 10\<rparr>, \<lparr>messages = [(0x14, [1])], aborted = False, elapsed = 1000\<rparr>]"

lemma slow_ticks_clock: "clock_runs 1 2 slow_ticks"
  unfolding clock_runs_def
proof (intro allI impI)
  fix i assume "i + 2 \<le> length slow_ticks"
  then have "i = 0 \<or> i = 1 \<or> i = 2" by (auto simp: slow_ticks_def)
  then show "\<exists>j<2. wait_limit 1 \<le> int (elapsed (slow_ticks ! (i + j)))"
    by (elim disjE) (auto simp: slow_ticks_def wait_limit_def nth_Cons' intro: exI [of _ 0] exI [of _ 1])
qed

lemma wait_two:
  "wait_attempts dispatch write timeout request k 2 ts s = wait_attempts dispatch write timeout request k (Suc (Suc 0)) ts s"
  by (simp only: numeral_2_eq_2)

theorem wait_for_returns_witness:
  "\<exists>e k acts s' reset.
     GSM_WaitFor answering (\<lambda>_. ERR_NONE) 1 ID_GetNetworkInfo 2 False True slow_ticks idle_phone = Some (e, k, acts, s', reset)
     \<and> k = 2 \<and> e = ERR_NONE \<and> RequestID s' = ID_None \<and> \<not> reset"
proof -
  have len: "2 * 2 \<le> length slow_ticks" by (simp add: slow_ticks_def)
  obtain e k acts s' reset where r:
    "GSM_WaitFor answering (\<lambda>_. ERR_NONE) 1 ID_GetNetworkInfo 2 False True slow_ticks idle_phone = Some (e, k, acts, s', reset)"
    using wait_for_returns [OF slow_ticks_clock len, of answering "\<lambda>_. ERR_NONE" ID_GetNetworkInfo False True idle_phone] by blast
  moreover have "GSM_WaitFor answering (\<lambda>_. ERR_NONE) 1 ID_GetNetworkInfo 2 False True slow_ticks idle_phone
     = Some (ERR_NONE, 2, [], idle_phone\<lparr>MessagesCount := 2\<rparr>, False)"
    by (simp add: GSM_WaitFor_def slow_ticks_def idle_phone_def answering_def receive_all_def GSM_DispatchMessage_def
        CheckReplyFunctions_def reply_matches_def reply_wanted_def wait_two process_deferred.simps
        ProcessDeferredEvent_def EventQueue_Pop_def empty_queue_def)
  moreover have "RequestID (idle_phone\<lparr>MessagesCount := 2\<rparr>) = ID_None" by (simp add: idle_phone_def)
  ultimately show ?thesis by auto
qed

end
