(* ===== verification/LinkSms.thy ===== *)
theory LinkSms imports MultiSms CLocale "HOL-Library.Multiset" begin

text \<open>
  Linking of received messages: \<^verbatim>\<open>GSM_DecodeSiemensOTASMS\<close> of \<^verbatim>\<open>libgammu/service/sms/gsmsms.c\<close> and
  \<^verbatim>\<open>GSM_LinkSMS\<close> of \<^verbatim>\<open>gsmmulti.c\<close>, which puts the parts of long messages in order.
\<close>

subsection \<open>Siemens objects\<close>

record GSM_SiemensOTASMSInfo =
  SequenceID :: nat
  PacketsNum :: nat
  PacketNum :: nat
  AllDataLen :: nat
  DataType :: "byte list"
  DataName :: "byte list"
  OTA_Data :: "byte list"

text \<open>A little-endian number of \<open>n\<close> octets.\<close>

definition le_number :: "byte list \<Rightarrow> nat \<Rightarrow> nat \<Rightarrow> nat" where
  "le_number txt pos n = foldr (\<lambda>b v. unat b + 256 * v) (take n (drop pos txt)) 0"

definition GSM_DecodeSiemensOTASMS :: "GSM_SMSMessage \<Rightarrow> GSM_SiemensOTASMSInfo option" where
  "GSM_DecodeSiemensOTASMS SMS =
     (let txt = SMS_Text SMS; n1 = unat (txt ! 20); current = 21 + n1; n2 = unat (txt ! current);
          start = current + n2 + 1; DataLen = le_number txt 6 2 in
      if PDU SMS \<noteq> SMS_Deliver \<or> Coding SMS \<noteq> SMS_Coding_8bit \<or> Class SMS \<noteq> 1 \<or> UDH_Type (UDH SMS) \<noteq> UDH_NoUDH
         \<or> SMS_Length SMS < 22 \<or> SMS_Length SMS > int GSM_MAX_SMS_LENGTH
         \<or> take 5 txt \<noteq> bytes_of ''//SEO'' \<or> txt ! 5 \<noteq> 1 \<or> n1 > 9 then None
      else if int current \<ge> SMS_Length SMS \<or> n2 > 39 \<or> int n2 > SMS_Length SMS - int current - 1 then None
      else if DataLen > 140 \<or> int DataLen > SMS_Length SMS - int start then None
      else Some \<lparr>SequenceID = le_number txt 8 4, PacketsNum = le_number txt 14 2, PacketNum = le_number txt 12 2,
             AllDataLen = le_number txt 16 4, DataType = take n1 (drop 21 txt),
             DataName = take n2 (drop (current + 1) txt), OTA_Data = take DataLen (drop start txt)\<rparr>)"

lemma siemens_needs_no_header: "UDH_Type (UDH SMS) \<noteq> UDH_NoUDH \<Longrightarrow> GSM_DecodeSiemensOTASMS SMS = None"
  by (simp add: GSM_DecodeSiemensOTASMS_def)

subsection \<open>The sender of a part\<close>

text \<open>
  \<^verbatim>\<open>DecodeUnicodeString\<close> gives a C string in the encoding of the locale. The double loop takes each
  number of one message and marks the first number of the other not yet marked that is the same.
\<close>

definition number_text :: "c_locale \<Rightarrow> uchar list \<Rightarrow> byte list" where
  "number_text loc number = cstr (DecodeUnicode loc number)"

definition numbers :: "c_locale \<Rightarrow> GSM_SMSMessage \<Rightarrow> byte list list" where
  "numbers loc SMS = map (number_text loc) (SMS_Number SMS # take (nat (OtherNumbersNum SMS)) (OtherNumbers SMS))"

fun claim_number :: "'a \<Rightarrow> (bool \<times> 'a) list \<Rightarrow> (bool \<times> 'a) list option" where
  "claim_number x [] = None"
| "claim_number x ((used, y) # ys) =
     (if \<not> used \<and> x = y then Some ((True, y) # ys) else map_option ((#) (used, y)) (claim_number x ys))"

fun claim_numbers :: "'a list \<Rightarrow> (bool \<times> 'a) list \<Rightarrow> bool" where
  "claim_numbers [] ys = True"
| "claim_numbers (x # xs) ys = (case claim_number x ys of None \<Rightarrow> False | Some ys' \<Rightarrow> claim_numbers xs ys')"

definition same_moment :: "GSM_DateTime \<Rightarrow> GSM_DateTime \<Rightarrow> bool" where
  "same_moment a b \<longleftrightarrow> Day a = Day b \<and> Month a = Month b \<and> Year a = Year b
     \<and> Hour a = Hour b \<and> Minute a = Minute b \<and> Second a = Second b"

definition same_sender :: "c_locale \<Rightarrow> GSM_SMSMessage \<Rightarrow> GSM_SMSMessage \<Rightarrow> bool" where
  "same_sender loc z i \<longleftrightarrow>
     (PDU z = SMS_Deliver \<longrightarrow>
        number_text loc (SMSC_Number (SMSC z)) = number_text loc (SMSC_Number (SMSC i))
        \<and> OtherNumbersNum z = OtherNumbersNum i
        \<and> claim_numbers (numbers loc z) (map (Pair False) (numbers loc i))
        \<and> (UnicodeLength (SMSC_Number (SMSC z)) = 0 \<and> UnicodeLength (SMS_Number z) = 0 \<longrightarrow>
             same_moment (DateTime z) (DateTime i)))"

text \<open>The marking amounts to comparing the numbers as multisets.\<close>

definition unclaimed :: "(bool \<times> 'a) list \<Rightarrow> 'a multiset" where
  "unclaimed ys = mset (map snd (filter (\<lambda>(used, _). \<not> used) ys))"

lemma unclaimed_simps [simp]:
  "unclaimed [] = {#}" "unclaimed ((used, y) # ys) = (if used then unclaimed ys else add_mset y (unclaimed ys))"
  by (simp_all add: unclaimed_def)

lemma claim_number_none: "claim_number x ys = None \<longleftrightarrow> x \<notin># unclaimed ys"
  by (induction x ys rule: claim_number.induct) auto

lemma claim_number_some: "claim_number x ys = Some ys' \<Longrightarrow> unclaimed ys = add_mset x (unclaimed ys')"
  by (induction x ys arbitrary: ys' rule: claim_number.induct) (auto split: if_splits)

lemma claim_numbers_iff: "claim_numbers xs ys \<longleftrightarrow> mset xs \<subseteq># unclaimed ys"
proof (induction xs arbitrary: ys)
  case (Cons x xs)
  show ?case
  proof (cases "claim_number x ys")
    case None
    then have "\<not> claim_numbers (x # xs) ys" by simp
    moreover have "\<not> mset (x # xs) \<subseteq># unclaimed ys"
      using None mset_subset_eqD [of "mset (x # xs)" "unclaimed ys" x] by (auto simp: claim_number_none)
    ultimately show ?thesis by blast
  next
    case (Some ys')
    then show ?thesis using Cons claim_number_some [OF Some] by simp
  qed
qed simp

lemma unclaimed_fresh [simp]: "unclaimed (map (Pair False) xs) = mset xs"
  by (induction xs) auto

lemma same_sender_numbers:
  assumes "length (numbers loc z) = length (numbers loc i)"
  shows "claim_numbers (numbers loc z) (map (Pair False) (numbers loc i)) \<longleftrightarrow> mset (numbers loc z) = mset (numbers loc i)"
proof
  assume "claim_numbers (numbers loc z) (map (Pair False) (numbers loc i))"
  then have "mset (numbers loc z) \<subseteq># mset (numbers loc i)" by (simp add: claim_numbers_iff)
  then show "mset (numbers loc z) = mset (numbers loc i)"
    using assms mset_subset_size [of "mset (numbers loc z)" "mset (numbers loc i)"]
    by (auto simp: subset_mset.le_less)
qed (simp add: claim_numbers_iff)

subsection \<open>Linking\<close>

text \<open>
  The identifiers in a header that is not of a known kind: the walk over its elements, from \<open>w\<close>.
\<close>

function user_ids :: "nat \<Rightarrow> GSM_UDHHeader \<Rightarrow> GSM_UDHHeader option" where
  "user_ids w u =
     (if \<not> int w < UDH_Length u then Some u
      else
        let n = unat (UDH_Text u ! (w + 1)); cell = (\<lambda>k. int (unat (UDH_Text u ! (w + k)))) in
        if UDH_Length u - int w < 2 \<or> int n > UDH_Length u - int w - 2 then None
        else if UDH_Text u ! w = 0x00 then
          (if n \<noteq> 3 then None
           else user_ids (w + (n + 2)) (u\<lparr>ID8bit := cell 2, ID16bit := -1, AllParts := cell 3, PartNumber := cell 4\<rparr>))
        else if UDH_Text u ! w = 0x08 then
          (if n \<noteq> 4 then None
           else user_ids (w + (n + 2)) (u\<lparr>ID8bit := -1, ID16bit := cell 2 * 256 + cell 3, AllParts := cell 4, PartNumber := cell 5\<rparr>))
        else user_ids (w + (n + 2)) u)"
  by pat_completeness auto
termination
  by (relation "measure (\<lambda>(w, u). nat (UDH_Length u) - w)") auto

declare user_ids.simps [simp del]

definition sms0 :: "GSM_MultiSMSMessage \<Rightarrow> GSM_SMSMessage" where
  "sms0 m = Multi_SMS m ! 0"

definition parts :: "GSM_MultiSMSMessage \<Rightarrow> GSM_SMSMessage list" where
  "parts m = take (Multi_Number m) (Multi_SMS m)"

definition number_user :: "GSM_MultiSMSMessage \<Rightarrow> GSM_MultiSMSMessage option" where
  "number_user m =
     (let u = UDH (sms0 m) in
      if UDH_Type u \<noteq> UDH_UserUDH then Some m
      else if UDH_Length u < 1 \<or> int (unat (UDH_Text u ! 0)) + 1 \<noteq> UDH_Length u then None
      else map_option (\<lambda>u'. m\<lparr>Multi_SMS := (Multi_SMS m)[0 := (sms0 m)\<lparr>UDH := u'\<rparr>]\<rparr>) (user_ids 1 u))"

fun number_users :: "GSM_MultiSMSMessage list \<Rightarrow> GSM_MultiSMSMessage list option" where
  "number_users [] = Some []"
| "number_users (m # ms) =
     (case number_user m of None \<Rightarrow> None | Some m' \<Rightarrow> map_option ((#) m') (number_users ms))"

text \<open>\<open>siemens_part\<close> and \<open>linked_part\<close>: the message fits as the part after \<open>j\<close> others of a first part.\<close>

definition siemens_part :: "c_locale \<Rightarrow> GSM_SiemensOTASMSInfo \<Rightarrow> GSM_SMSMessage \<Rightarrow> nat \<Rightarrow> GSM_SMSMessage \<Rightarrow> bool" where
  "siemens_part loc first i j z \<longleftrightarrow>
     (case GSM_DecodeSiemensOTASMS z of None \<Rightarrow> False
      | Some info \<Rightarrow>
          SequenceID info = SequenceID first \<and> PacketNum info = j + 1 \<and> PacketsNum info = PacketsNum first
          \<and> cstr (DataType info) = cstr (DataType first) \<and> cstr (DataName info) = cstr (DataName first)
          \<and> same_sender loc z i)"

definition own_numbering :: "GSM_UDH \<Rightarrow> bool" where
  "own_numbering t \<longleftrightarrow> t = UDH_ConcatenatedMessages \<or> t = UDH_ConcatenatedMessages16bit \<or> t = UDH_UserUDH"

definition linked_part :: "c_locale \<Rightarrow> bool \<Rightarrow> GSM_SMSMessage \<Rightarrow> nat \<Rightarrow> GSM_SMSMessage \<Rightarrow> bool" where
  "linked_part loc ems i j z \<longleftrightarrow>
     (let ui = UDH i; uz = UDH z in
      (ems \<and> \<not> own_numbering (UDH_Type ui) \<and> \<not> own_numbering (UDH_Type uz) \<longrightarrow> UDH_Type uz = UDH_Type ui)
      \<and> (\<not> ems \<longrightarrow> UDH_Type uz = UDH_Type ui)
      \<and> ID8bit uz = ID8bit ui \<and> ID16bit uz = ID16bit ui \<and> AllParts uz = AllParts ui \<and> PartNumber uz = int j + 1
      \<and> same_sender loc z i)"

text \<open>The search for the further parts, \<open>j\<close> of which are found; \<open>marks\<close> marks the messages taken.\<close>

function collect_parts ::
  "(nat \<Rightarrow> GSM_SMSMessage \<Rightarrow> bool) \<Rightarrow> int \<Rightarrow> GSM_MultiSMSMessage list \<Rightarrow> nat \<Rightarrow> bool list \<Rightarrow> bool list \<times> GSM_SMSMessage list" where
  "collect_parts fits expected inp j marks =
     (if int j = expected \<or> j \<ge> GSM_MAX_MULTI_SMS then (marks, [])
      else
        case find (\<lambda>z. \<not> marks ! z \<and> Multi_Number (inp ! z) = 1 \<and> fits j (sms0 (inp ! z))) [0..<length inp] of
          None \<Rightarrow> (marks, [])
        | Some z \<Rightarrow>
            let (marks', found) = collect_parts fits expected inp (j + 1) (marks[z := True])
            in (marks', sms0 (inp ! z) # found))"
  by pat_completeness auto
termination
  by (relation "measure (\<lambda>(_, _, _, j, _). GSM_MAX_MULTI_SMS - j)") auto

declare collect_parts.simps [simp del]

record link_state =
  lk_i :: nat
  lk_sorted :: "bool list"
  lk_out :: "GSM_MultiSMSMessage list"

text \<open>A message copied as it is, and a new one, which \<^verbatim>\<open>malloc\<close> gives as \<open>blank\<close>, of the parts found.\<close>

definition link_copy :: "GSM_MultiSMSMessage list \<Rightarrow> link_state \<Rightarrow> link_state" where
  "link_copy inp s =
     s\<lparr>lk_i := 0, lk_sorted := (lk_sorted s)[lk_i s := True], lk_out := lk_out s @ [inp ! lk_i s]\<rparr>"

definition link_group ::
  "GSM_MultiSMSMessage \<Rightarrow> (nat \<Rightarrow> GSM_SMSMessage \<Rightarrow> bool) \<Rightarrow> int \<Rightarrow> GSM_MultiSMSMessage list \<Rightarrow> link_state \<Rightarrow> link_state" where
  "link_group blank fits expected inp s =
     (let (marks, found) = collect_parts fits expected inp 1 ((lk_sorted s)[lk_i s := True]);
          ps = sms0 (inp ! lk_i s) # found in
      s\<lparr>lk_i := 0, lk_sorted := marks,
        lk_out := lk_out s @ [blank\<lparr>Multi_Number := length ps, Multi_SMS := overlay ps (Multi_SMS blank)\<rparr>]\<rparr>)"

definition link_plain :: "bool \<Rightarrow> GSM_MultiSMSMessage \<Rightarrow> bool" where
  "link_plain ems m \<longleftrightarrow>
     (let u = UDH (sms0 m) in
      Multi_Number m \<noteq> 1 \<or> UDH_Type u = UDH_NoUDH \<or> PartNumber u = -1
      \<or> (UDH_Type u = UDH_UserUDH \<and> (\<not> ems \<or> PartNumber u = -1)))"

text \<open>The later branches of the loop, \<open>None\<close> when they read behind the last message.\<close>

definition link_linked ::
  "c_locale \<Rightarrow> bool \<Rightarrow> GSM_MultiSMSMessage \<Rightarrow> GSM_MultiSMSMessage list \<Rightarrow> link_state \<Rightarrow> link_state option" where
  "link_linked loc ems blank inp s =
     (if lk_i s \<ge> length inp then None
      else
        let m = inp ! lk_i s; u = UDH (sms0 m) in
        Some (if link_plain ems m then link_copy inp s
              else if PartNumber u = 1 then link_group blank (linked_part loc ems (sms0 m)) (AllParts u) inp s
              else if PartNumber u > 1 then
                (if \<exists>j \<in> {0..<length inp}. \<not> lk_sorted s ! j \<and> PartNumber (UDH (sms0 (inp ! j))) = 1
                 then s\<lparr>lk_i := lk_i s + 1\<rparr> else link_copy inp s)
              else s))"

definition siemens_first :: "GSM_SMSMessage \<Rightarrow> bool" where
  "siemens_first SMS = (case GSM_DecodeSiemensOTASMS SMS of None \<Rightarrow> False | Some info \<Rightarrow> PacketNum info = 1)"

definition link_step ::
  "c_locale \<Rightarrow> bool \<Rightarrow> GSM_MultiSMSMessage \<Rightarrow> GSM_MultiSMSMessage list \<Rightarrow> link_state \<Rightarrow> link_state option" where
  "link_step loc ems blank inp s =
     (let m = inp ! lk_i s in
      if lk_sorted s ! lk_i s then Some (s\<lparr>lk_i := lk_i s + 1\<rparr>)
      else
        case GSM_DecodeSiemensOTASMS (sms0 m) of
          None \<Rightarrow> link_linked loc ems blank inp s
        | Some info \<Rightarrow>
            if PacketNum info = 1 then
              Some (link_group blank (siemens_part loc info (sms0 m)) (int (PacketsNum info)) inp s)
            else if PacketNum info > 1 then
              (if \<exists>j \<in> {0..<length inp}. \<not> lk_sorted s ! j \<and> siemens_first (sms0 (inp ! j))
               then link_linked loc ems blank inp (s\<lparr>lk_i := lk_i s + 1\<rparr>) else Some (link_copy inp s))
            else link_linked loc ems blank inp s)"

text \<open>The loop may run for ever; \<open>Some None\<close> is a read behind the last message.\<close>

partial_function (option) link_loop ::
  "c_locale \<Rightarrow> bool \<Rightarrow> GSM_MultiSMSMessage \<Rightarrow> GSM_MultiSMSMessage list \<Rightarrow> link_state \<Rightarrow> link_state option option" where
  "link_loop loc ems blank inp s =
     (if lk_i s \<ge> length inp then Some (Some s)
      else case link_step loc ems blank inp s of None \<Rightarrow> Some None | Some s' \<Rightarrow> link_loop loc ems blank inp s')"

definition link_valid :: "GSM_MultiSMSMessage \<Rightarrow> bool" where
  "link_valid m \<longleftrightarrow>
     1 \<le> Multi_Number m \<and> Multi_Number m \<le> GSM_MAX_MULTI_SMS
     \<and> (\<forall>sms \<in> set (parts m). 0 \<le> SMS_Length sms \<and> SMS_Length sms \<le> int GSM_MAX_SMS_LENGTH
          \<and> 0 \<le> UDH_Length (UDH sms) \<and> UDH_Length (UDH sms) \<le> int GSM_MAX_UDH_LENGTH)"

datatype link_result = Linked "GSM_MultiSMSMessage list" | Refused GSM_Error | NullRead

definition GSM_LinkSMS ::
  "c_locale \<Rightarrow> bool \<Rightarrow> GSM_MultiSMSMessage \<Rightarrow> GSM_MultiSMSMessage list \<Rightarrow> link_result option" where
  "GSM_LinkSMS loc ems blank inp =
     (if inp = [] then Some (Linked [])
      else if \<not> (\<forall>m \<in> set inp. link_valid m) then Some (Refused ERR_CORRUPTED)
      else
        case (if ems then number_users inp else Some inp) of
          None \<Rightarrow> Some (Refused ERR_CORRUPTED)
        | Some msgs \<Rightarrow>
            map_option (case_option NullRead (\<lambda>s. Linked (lk_out s)))
              (link_loop loc ems blank msgs \<lparr>lk_i = 0, lk_sorted = replicate (length msgs) False, lk_out = []\<rparr>))"

subsection \<open>Nothing is lost\<close>

text \<open>The messages not yet taken, and the messages of a list with their multiplicities.\<close>

definition pending :: "GSM_MultiSMSMessage list \<Rightarrow> bool list \<Rightarrow> GSM_MultiSMSMessage list" where
  "pending inp marks = map fst (filter (\<lambda>(m, taken). \<not> taken) (zip inp marks))"

definition content :: "GSM_MultiSMSMessage list \<Rightarrow> GSM_SMSMessage multiset" where
  "content ms = mset (concat (map parts ms))"

lemma content_simps [simp]: "content [] = {#}" "content (m # ms) = mset (parts m) + content ms"
  "content (ms @ ns) = content ms + content ns"
  by (simp_all add: content_def)

lemma content_sum: "content ms = (\<Sum>m \<in># mset ms. mset (parts m))"
  by (induction ms) auto

lemma content_mset: "mset ms = mset ns \<Longrightarrow> content ms = content ns"
  by (simp add: content_sum)

lemma pending_start [simp]: "pending inp (replicate (length inp) False) = inp"
proof -
  have "filter (\<lambda>(m, taken). \<not> taken) (zip inp (replicate (length inp) False)) = zip inp (replicate (length inp) False)"
    by (rule filter_True) (auto dest: set_zip_rightD)
  then show ?thesis by (simp add: pending_def)
qed

lemma pending_mark:
  "length marks = length inp \<Longrightarrow> k < length inp \<Longrightarrow> \<not> marks ! k \<Longrightarrow>
   mset (pending inp marks) = add_mset (inp ! k) (mset (pending inp (marks[k := True])))"
proof (induction inp arbitrary: marks k)
  case (Cons m inp)
  obtain b bs where m: "marks = b # bs" "length bs = length inp" using Cons.prems(1) by (cases marks) auto
  show ?case
  proof (cases k)
    case 0
    then show ?thesis using Cons.prems(3) m(1) by (simp add: pending_def)
  next
    case (Suc k')
    then show ?thesis using Cons.IH [of bs k'] Cons.prems(2,3) m by (auto simp: pending_def)
  qed
qed simp

lemma pending_member:
  "length marks = length inp \<Longrightarrow> m \<in> set (pending inp marks) \<longleftrightarrow> (\<exists>k<length inp. \<not> marks ! k \<and> inp ! k = m)"
  by (auto simp: pending_def set_zip image_iff)

lemma pending_Nil:
  assumes "length marks = length inp" "\<forall>k<length inp. marks ! k"
  shows "pending inp marks = []"
proof -
  have "m \<notin> set (pending inp marks)" for m using pending_member [OF assms(1), of m] assms(2) by auto
  then show ?thesis by (cases "pending inp marks") auto
qed

lemma find_part:
  assumes "find P [0..<n] = Some z"
  shows "z < n \<and> P z"
  using assms by (auto simp: find_Some_iff)

lemma collect_parts_spec:
  assumes "collect_parts fits expected inp j marks = (marks', found)" "length marks = length inp"
  shows "\<exists>ms. length marks' = length inp \<and> mset (pending inp marks) = mset ms + mset (pending inp marks')
     \<and> found = map sms0 ms \<and> (\<forall>m \<in> set ms. Multi_Number m = 1 \<and> m \<in> set inp) \<and> (\<forall>k<length ms. fits (j + k) (sms0 (ms ! k)))
     \<and> (j \<le> GSM_MAX_MULTI_SMS \<longrightarrow> j + length ms \<le> GSM_MAX_MULTI_SMS)"
  using assms
proof (induction fits expected inp j marks arbitrary: marks' found rule: collect_parts.induct)
  case (1 fits expected inp j marks)
  let ?P = "\<lambda>z. \<not> marks ! z \<and> Multi_Number (inp ! z) = 1 \<and> fits j (sms0 (inp ! z))"
  show ?case
  proof (cases "int j = expected \<or> j \<ge> GSM_MAX_MULTI_SMS \<or> find ?P [0..<length inp] = None")
    case True
    have "collect_parts fits expected inp j marks = (marks, [])" by (subst collect_parts.simps) (use True in auto)
    then have "marks' = marks" "found = []" using 1(2) by auto
    then show ?thesis using 1(3) by (intro exI [of _ "[]"]) simp
  next
    case False
    then obtain z where z: "find ?P [0..<length inp] = Some z" by auto
    then have zP: "z < length inp" "\<not> marks ! z" "Multi_Number (inp ! z) = 1" "fits j (sms0 (inp ! z))"
      using find_part [of ?P] by blast+
    obtain m' f where f': "collect_parts fits expected inp (j + 1) (marks[z := True]) = (m', f)" by force
    have "collect_parts fits expected inp j marks = (m', sms0 (inp ! z) # f)"
      by (subst collect_parts.simps) (use False z f' in auto)
    then have f: "collect_parts fits expected inp (j + 1) (marks[z := True]) = (marks', f)" "found = sms0 (inp ! z) # f"
      using 1(2) f' by auto
    obtain ms where ms: "length marks' = length inp"
      "mset (pending inp (marks[z := True])) = mset ms + mset (pending inp marks')" "f = map sms0 ms"
      "\<forall>m \<in> set ms. Multi_Number m = 1 \<and> m \<in> set inp" "\<forall>k<length ms. fits (j + 1 + k) (sms0 (ms ! k))"
      "j + 1 \<le> GSM_MAX_MULTI_SMS \<longrightarrow> j + 1 + length ms \<le> GSM_MAX_MULTI_SMS"
      using 1(1) [OF _ z f(1)] False 1(3) by (auto simp del: mset_map)
    have "\<forall>k<length (inp ! z # ms). fits (j + k) (sms0 ((inp ! z # ms) ! k))"
      using ms(5) zP(4) by (auto simp: nth_Cons' less_Suc_eq_0_disj)
    then show ?thesis using ms(1-4,6) zP(1,3) False f(2) pending_mark [OF 1(3) zP(1,2)]
      by (intro exI [of _ "inp ! z # ms"]) auto
  qed
qed


text \<open>
  Messages the loop can place: no later packet of a Siemens object, an object is a message of its
  own, and a part of a linked message has a number from 1 on.
\<close>

definition linkable :: "bool \<Rightarrow> GSM_MultiSMSMessage \<Rightarrow> bool" where
  "linkable ems m \<longleftrightarrow>
     Multi_Number m \<le> length (Multi_SMS m) \<and> 0 < length (Multi_SMS m)
     \<and> (case GSM_DecodeSiemensOTASMS (sms0 m) of
          None \<Rightarrow> link_plain ems m \<or> 1 \<le> PartNumber (UDH (sms0 m))
        | Some info \<Rightarrow> PacketNum info = 0 \<or> PacketNum info = 1 \<and> Multi_Number m = 1)"

lemma siemens_plain: "GSM_DecodeSiemensOTASMS (sms0 m) = Some info \<Longrightarrow> link_plain ems m"
  by (auto simp: GSM_DecodeSiemensOTASMS_def link_plain_def Let_def split: if_splits)

lemma parts_single: "Multi_Number m = 1 \<Longrightarrow> 0 < length (Multi_SMS m) \<Longrightarrow> parts m = [sms0 m]"
  by (cases "Multi_SMS m") (simp_all add: parts_def sms0_def)

lemma content_singles:
  "\<forall>m \<in> set ms. Multi_Number m = 1 \<and> 0 < length (Multi_SMS m) \<Longrightarrow> content ms = mset (map sms0 ms)"
  by (induction ms) (auto simp: parts_single)

lemma parts_new [simp]:
  "length ps \<le> length (Multi_SMS blank) \<Longrightarrow>
   parts (blank\<lparr>Multi_Number := length ps, Multi_SMS := overlay ps (Multi_SMS blank)\<rparr>) = ps"
  by (simp add: parts_def)

text \<open>
  The invariant: everything is in the output or pending; messages passed over are further parts, and
  then a first part is pending.
\<close>

definition link_inv :: "GSM_MultiSMSMessage list \<Rightarrow> link_state \<Rightarrow> bool" where
  "link_inv inp s \<longleftrightarrow>
     length (lk_sorted s) = length inp
     \<and> content (lk_out s) + content (pending inp (lk_sorted s)) = content inp
     \<and> (\<forall>k < lk_i s. k < length inp \<longrightarrow> \<not> lk_sorted s ! k \<longrightarrow> PartNumber (UDH (sms0 (inp ! k))) > 1
           \<and> (\<exists>j<length inp. \<not> lk_sorted s ! j \<and> PartNumber (UDH (sms0 (inp ! j))) = 1))"

definition link_left :: "GSM_MultiSMSMessage list \<Rightarrow> link_state \<Rightarrow> nat" where
  "link_left inp s = length (pending inp (lk_sorted s)) * (length inp + 1) + (length inp - lk_i s)"

lemma link_left_less:
  "length (pending inp (lk_sorted s')) < length (pending inp (lk_sorted s)) \<Longrightarrow> link_left inp s' < link_left inp s"
proof -
  assume "length (pending inp (lk_sorted s')) < length (pending inp (lk_sorted s))"
  then have "(length (pending inp (lk_sorted s')) + 1) * (length inp + 1) \<le> length (pending inp (lk_sorted s)) * (length inp + 1)"
    by (intro mult_right_mono) simp_all
  then show ?thesis by (simp add: link_left_def)
qed

lemma link_copy_inv:
  assumes "link_inv inp s" "lk_i s < length inp" "\<not> lk_sorted s ! lk_i s"
  shows "link_inv inp (link_copy inp s) \<and> link_left inp (link_copy inp s) < link_left inp s"
proof -
  have l: "length (lk_sorted s) = length inp" using assms(1) by (simp add: link_inv_def)
  note m = pending_mark [OF l assms(2,3)]
  have "content (pending inp (lk_sorted s)) = mset (parts (inp ! lk_i s)) + content (pending inp ((lk_sorted s)[lk_i s := True]))"
    using content_mset [of "pending inp (lk_sorted s)" "inp ! lk_i s # pending inp ((lk_sorted s)[lk_i s := True])"] m by simp
  then have "link_inv inp (link_copy inp s)" using assms(1) by (auto simp: link_inv_def link_copy_def ac_simps)
  moreover have "length (pending inp ((lk_sorted s)[lk_i s := True])) < length (pending inp (lk_sorted s))"
    using arg_cong [OF m, of size] by simp
  then have "link_left inp (link_copy inp s) < link_left inp s" by (intro link_left_less) (simp add: link_copy_def)
  ultimately show ?thesis by simp
qed

lemma link_group_inv:
  assumes inv: "link_inv inp s" and i: "lk_i s < length inp" "\<not> lk_sorted s ! lk_i s"
    and single: "Multi_Number (inp ! lk_i s) = 1" and cells: "\<forall>m \<in> set inp. 0 < length (Multi_SMS m)"
    and blank: "GSM_MAX_MULTI_SMS \<le> length (Multi_SMS blank)"
  shows "link_inv inp (link_group blank fits expected inp s)
     \<and> link_left inp (link_group blank fits expected inp s) < link_left inp s"
proof -
  have l: "length (lk_sorted s) = length inp" using inv by (simp add: link_inv_def)
  let ?marks = "(lk_sorted s)[lk_i s := True]"
  note m = pending_mark [OF l i]
  obtain marks' found where c: "collect_parts fits expected inp 1 ?marks = (marks', found)" by force
  obtain ms where ms: "length marks' = length inp" "mset (pending inp ?marks) = mset ms + mset (pending inp marks')"
    "found = map sms0 ms" "\<forall>m \<in> set ms. Multi_Number m = 1 \<and> m \<in> set inp" "1 + length ms \<le> GSM_MAX_MULTI_SMS"
    using collect_parts_spec [OF c] l by (auto simp: GSM_MAX_MULTI_SMS_def)
  let ?new = "link_group blank fits expected inp s"
  obtain ps where ps: "ps = sms0 (inp ! lk_i s) # found" by simp
  have new: "?new = s\<lparr>lk_i := 0, lk_sorted := marks',
       lk_out := lk_out s @ [blank\<lparr>Multi_Number := length ps, Multi_SMS := overlay ps (Multi_SMS blank)\<rparr>]\<rparr>"
    using c by (simp add: link_group_def ps)
  have all: "mset (pending inp (lk_sorted s)) = mset (inp ! lk_i s # ms @ pending inp marks')" using m ms(2) by simp
  have first: "parts (inp ! lk_i s) = [sms0 (inp ! lk_i s)]" using single cells i(1) by (simp add: parts_single)
  have "content ms = mset found" using content_singles [of ms] ms(3,4) cells by auto
  then have "content (pending inp (lk_sorted s)) = mset ps + content (pending inp marks')"
    using content_mset [OF all] first ps by simp
  moreover have "length ps \<le> length (Multi_SMS blank)" using ms(3,5) blank ps by simp
  ultimately have "link_inv inp ?new" using inv ms(1) unfolding new link_inv_def by (auto simp: ac_simps)
  moreover have "length (pending inp marks') < length (pending inp (lk_sorted s))"
    using arg_cong [OF all, of size] by simp
  then have "link_left inp ?new < link_left inp s" by (intro link_left_less) (simp add: new)
  ultimately show ?thesis by simp
qed

lemma link_skip_inv:
  assumes "link_inv inp s" "lk_i s < length inp"
    and "lk_sorted s ! lk_i s \<or> PartNumber (UDH (sms0 (inp ! lk_i s))) > 1
           \<and> (\<exists>j<length inp. \<not> lk_sorted s ! j \<and> PartNumber (UDH (sms0 (inp ! j))) = 1)"
  shows "link_inv inp (s\<lparr>lk_i := lk_i s + 1\<rparr>) \<and> link_left inp (s\<lparr>lk_i := lk_i s + 1\<rparr>) < link_left inp s"
  using assms by (auto simp: link_inv_def link_left_def less_Suc_eq)

lemma link_linked_inv:
  assumes inv: "link_inv inp s" and i: "lk_i s < length inp" "\<not> lk_sorted s ! lk_i s"
    and ok: "link_plain ems (inp ! lk_i s) \<or> 1 \<le> PartNumber (UDH (sms0 (inp ! lk_i s)))"
    and cells: "\<forall>m \<in> set inp. 0 < length (Multi_SMS m)" and blank: "GSM_MAX_MULTI_SMS \<le> length (Multi_SMS blank)"
  shows "\<exists>s'. link_linked loc ems blank inp s = Some s' \<and> link_inv inp s' \<and> link_left inp s' < link_left inp s"
proof -
  let ?u = "UDH (sms0 (inp ! lk_i s))"
  consider "link_plain ems (inp ! lk_i s)" | "\<not> link_plain ems (inp ! lk_i s)" "PartNumber ?u = 1"
    | "\<not> link_plain ems (inp ! lk_i s)" "PartNumber ?u > 1" using ok by fastforce
  then show ?thesis
  proof cases
    case 1
    then show ?thesis using i link_copy_inv [OF inv i] by (simp add: link_linked_def Let_def)
  next
    case 2
    then have "Multi_Number (inp ! lk_i s) = 1" by (simp add: link_plain_def Let_def)
    then show ?thesis using 2 i link_group_inv [OF inv i _ cells blank] by (simp add: link_linked_def Let_def)
  next
    case 3
    show ?thesis
    proof (cases "\<exists>j \<in> {0..<length inp}. \<not> lk_sorted s ! j \<and> PartNumber (UDH (sms0 (inp ! j))) = 1")
      case True
      then have "link_linked loc ems blank inp s = Some (s\<lparr>lk_i := lk_i s + 1\<rparr>)"
        using 3 i by (simp add: link_linked_def Let_def)
      moreover have "\<exists>j<length inp. \<not> lk_sorted s ! j \<and> PartNumber (UDH (sms0 (inp ! j))) = 1" using True by auto
      ultimately show ?thesis using 3 link_skip_inv [OF inv i(1)] by blast
    next
      case False
      then have "link_linked loc ems blank inp s = Some (link_copy inp s)"
        using 3 i by (auto simp: link_linked_def Let_def)
      then show ?thesis using link_copy_inv [OF inv i] by blast
    qed
  qed
qed

lemma link_step_inv:
  assumes "link_inv inp s" "lk_i s < length inp" "\<forall>m \<in> set inp. linkable ems m" "GSM_MAX_MULTI_SMS \<le> length (Multi_SMS blank)"
  shows "\<exists>s'. link_step loc ems blank inp s = Some s' \<and> link_inv inp s' \<and> link_left inp s' < link_left inp s"
proof (cases "lk_sorted s ! lk_i s")
  case True
  then show ?thesis using link_skip_inv [OF assms(1,2)] by (simp add: link_step_def)
next
  case False
  have ok: "linkable ems (inp ! lk_i s)" and cells: "\<forall>m \<in> set inp. 0 < length (Multi_SMS m)"
    using assms(2,3) by (auto simp: linkable_def)
  show ?thesis
  proof (cases "GSM_DecodeSiemensOTASMS (sms0 (inp ! lk_i s))")
    case None
    then show ?thesis using False ok link_linked_inv [OF assms(1,2) False _ cells assms(4)]
      by (simp add: link_step_def linkable_def)
  next
    case (Some info)
    consider "PacketNum info = 0" | "PacketNum info = 1" "Multi_Number (inp ! lk_i s) = 1"
      using ok Some by (auto simp: linkable_def)
    then show ?thesis
    proof cases
      case 1
      then show ?thesis using False Some siemens_plain [OF Some] link_linked_inv [OF assms(1,2) False _ cells assms(4)]
        by (simp add: link_step_def)
    next
      case 2
      then show ?thesis using False Some link_group_inv [OF assms(1,2) False _ cells assms(4)] by (simp add: link_step_def)
    qed
  qed
qed

lemma link_loop_ends:
  assumes "link_inv inp s" "\<forall>m \<in> set inp. linkable ems m" "GSM_MAX_MULTI_SMS \<le> length (Multi_SMS blank)"
  shows "\<exists>s'. link_loop loc ems blank inp s = Some (Some s') \<and> link_inv inp s' \<and> length inp \<le> lk_i s'"
  using assms(1)
proof (induction "link_left inp s" arbitrary: s rule: less_induct)
  case less
  show ?case
  proof (cases "length inp \<le> lk_i s")
    case True
    then show ?thesis using less.prems by (simp add: link_loop.simps)
  next
    case False
    then obtain s1 where s1: "link_step loc ems blank inp s = Some s1" "link_inv inp s1" "link_left inp s1 < link_left inp s"
      using link_step_inv [OF less.prems _ assms(2,3)] by auto
    from less.hyps [OF s1(3,2)] show ?thesis using False s1(1) by (simp add: link_loop.simps [of loc ems blank inp s])
  qed
qed

lemma link_inv_end:
  assumes "link_inv inp s" "length inp \<le> lk_i s"
  shows "content (lk_out s) = content inp"
proof -
  have "lk_sorted s ! k" if k: "k < length inp" for k
  proof (rule ccontr)
    assume "\<not> lk_sorted s ! k"
    then obtain j where "j < length inp" "\<not> lk_sorted s ! j" "PartNumber (UDH (sms0 (inp ! j))) = 1"
      using assms k unfolding link_inv_def by (meson order.strict_trans2)
    then show False using assms unfolding link_inv_def by (metis order.strict_trans2 less_irrefl)
  qed
  then have "pending inp (lk_sorted s) = []" using assms(1) by (intro pending_Nil) (auto simp: link_inv_def)
  then show ?thesis using assms(1) by (simp add: link_inv_def)
qed

lemma link_inv_start: "link_inv inp \<lparr>lk_i = 0, lk_sorted = replicate (length inp) False, lk_out = []\<rparr>"
  by (simp add: link_inv_def)

text \<open>
  Claim C20. Linking of valid messages ends, and loses or doubles nothing: the parts of
  the linked messages are the parts of the messages given, each as often as before. Every message must be one the loop can place
  (\<open>linkable\<close>): with a header of a known linked kind, it has a part number from 1 on, and of the packets of Siemens phones
  it is a first one on its own, or one without a number. Otherwise the loop may not end (\<open>link_part_zero_hangs\<close>,
  \<open>link_siemens_copies_forever\<close>).
\<close>

theorem link_keeps_messages:
  assumes valid: "\<forall>m \<in> set inp. link_valid m" and msgs: "(if ems then number_users inp else Some inp) = Some msgs"
    and ok: "\<forall>m \<in> set msgs. linkable ems m" and blank: "length (Multi_SMS blank) = GSM_MAX_MULTI_SMS"
  shows "\<exists>out. GSM_LinkSMS loc ems blank inp = Some (Linked out) \<and> mset (concat (map parts out)) = mset (concat (map parts msgs))"
proof (cases "inp = []")
  case True
  then show ?thesis using msgs by (auto simp: GSM_LinkSMS_def split: if_splits)
next
  case False
  obtain s where s: "link_loop loc ems blank msgs \<lparr>lk_i = 0, lk_sorted = replicate (length msgs) False, lk_out = []\<rparr> = Some (Some s)"
    "link_inv msgs s" "length msgs \<le> lk_i s"
    using link_loop_ends [OF link_inv_start ok, of blank loc] blank by auto
  then show ?thesis using False valid msgs link_inv_end [OF s(2,3)]
    by (simp add: GSM_LinkSMS_def content_def)
qed


subsection \<open>Order is restored\<close>

text \<open>
  The parts of one message as they are numbered when it is split, received from one sender; and what
  tells the parts of two messages apart: their identifiers, their number of parts, their kind, or, where
  two messages have the same of each, that they are deliveries of different senders (the number of the
  service centre, the numbers they came from or, without any number, the moment). The identifiers are
  those the two senders have chosen, each for itself: nothing keeps them from being the same.
\<close>

definition numbered_parts :: "c_locale \<Rightarrow> GSM_SMSMessage list \<Rightarrow> bool" where
  "numbered_parts loc g \<longleftrightarrow>
     g \<noteq> [] \<and> length g \<le> GSM_MAX_MULTI_SMS
     \<and> (\<forall>k<length g. let u = UDH (g ! k); u0 = UDH (g ! 0) in
          UDH_Type u = UDH_Type u0 \<and> ID8bit u = ID8bit u0 \<and> ID16bit u = ID16bit u0 \<and> AllParts u = int (length g)
          \<and> PartNumber u = int k + 1 \<and> UDH_Type u \<noteq> UDH_NoUDH \<and> UDH_Type u \<noteq> UDH_UserUDH
          \<and> same_sender loc (g ! k) (g ! 0))"

definition part_id :: "GSM_SMSMessage \<Rightarrow> int \<times> int \<times> int" where
  "part_id m = (ID8bit (UDH m), ID16bit (UDH m), AllParts (UDH m))"

definition other_kind :: "bool \<Rightarrow> GSM_SMSMessage \<Rightarrow> GSM_SMSMessage \<Rightarrow> bool" where
  "other_kind ems m n \<longleftrightarrow> UDH_Type (UDH m) \<noteq> UDH_Type (UDH n)
     \<and> (ems \<longrightarrow> \<not> own_numbering (UDH_Type (UDH m)) \<and> \<not> own_numbering (UDH_Type (UDH n)))"

definition moment :: "GSM_SMSMessage \<Rightarrow> int \<times> int \<times> int \<times> int \<times> int \<times> int" where
  "moment m = (let d = DateTime m in (Year d, Month d, Day d, Hour d, Minute d, Second d))"

definition other_sender :: "c_locale \<Rightarrow> GSM_SMSMessage \<Rightarrow> GSM_SMSMessage \<Rightarrow> bool" where
  "other_sender loc m n \<longleftrightarrow> PDU m = SMS_Deliver
     \<and> (number_text loc (SMSC_Number (SMSC m)) \<noteq> number_text loc (SMSC_Number (SMSC n))
         \<or> OtherNumbersNum m \<noteq> OtherNumbersNum n
         \<or> \<not> mset (numbers loc m) \<subseteq># mset (numbers loc n)
         \<or> UnicodeLength (SMSC_Number (SMSC m)) = 0 \<and> UnicodeLength (SMS_Number m) = 0 \<and> moment m \<noteq> moment n)"

definition told_apart :: "c_locale \<Rightarrow> bool \<Rightarrow> GSM_SMSMessage list list \<Rightarrow> bool" where
  "told_apart loc ems gs \<longleftrightarrow>
     distinct gs \<and> (\<forall>g \<in> set gs. \<forall>h \<in> set gs. \<forall>m \<in> set h. g \<noteq> h \<longrightarrow>
       part_id m \<noteq> part_id (g ! 0) \<or> other_kind ems m (g ! 0) \<or> other_sender loc m (g ! 0))"

definition one_sms :: "GSM_MultiSMSMessage \<Rightarrow> bool" where
  "one_sms m \<longleftrightarrow> Multi_Number m = 1 \<and> 0 < length (Multi_SMS m)"

lemma numbered_part:
  assumes "numbered_parts loc g" "k < length g"
  shows "UDH_Type (UDH (g ! k)) = UDH_Type (UDH (g ! 0))" "ID8bit (UDH (g ! k)) = ID8bit (UDH (g ! 0))"
    "ID16bit (UDH (g ! k)) = ID16bit (UDH (g ! 0))" "AllParts (UDH (g ! k)) = int (length g)"
    "PartNumber (UDH (g ! k)) = int k + 1" "UDH_Type (UDH (g ! k)) \<noteq> UDH_NoUDH" "UDH_Type (UDH (g ! k)) \<noteq> UDH_UserUDH"
    "same_sender loc (g ! k) (g ! 0)"
  using assms unfolding numbered_parts_def Let_def by blast+

lemma numbered_partsD:
  assumes "numbered_parts loc g" "m \<in> set g"
  shows "1 \<le> PartNumber (UDH m)" "AllParts (UDH m) = int (length g)"
    "UDH_Type (UDH m) \<noteq> UDH_NoUDH" "UDH_Type (UDH m) \<noteq> UDH_UserUDH"
    "g ! nat (PartNumber (UDH m) - 1) = m"
proof -
  obtain k where k: "k < length g" "m = g ! k" using assms(2) by (auto simp: in_set_conv_nth)
  show "1 \<le> PartNumber (UDH m)" "AllParts (UDH m) = int (length g)" "UDH_Type (UDH m) \<noteq> UDH_NoUDH"
    "UDH_Type (UDH m) \<noteq> UDH_UserUDH" "g ! nat (PartNumber (UDH m) - 1) = m"
    using numbered_part(4-7) [OF assms(1) k(1)] k(2) by simp_all
qed

lemma other_sender_not_same: "other_sender loc z i \<Longrightarrow> \<not> same_sender loc z i"
proof
  assume other: "other_sender loc z i" and same: "same_sender loc z i"
  then have n: "OtherNumbersNum z = OtherNumbersNum i"
    and claim: "claim_numbers (numbers loc z) (map (Pair False) (numbers loc i))"
    by (auto simp: same_sender_def other_sender_def)
  have "mset (numbers loc z) \<subseteq># mset (numbers loc i)" using claim by (simp add: claim_numbers_iff)
  then show False using other same by (auto simp: same_sender_def other_sender_def same_moment_def moment_def Let_def)
qed

lemma apart_does_not_fit:
  "part_id z \<noteq> part_id i \<or> other_kind ems z i \<or> other_sender loc z i \<Longrightarrow> \<not> linked_part loc ems i j z"
  using other_sender_not_same [of loc z i] by (auto simp: linked_part_def part_id_def other_kind_def Let_def)

lemma numbered_part_fits:
  assumes "numbered_parts loc g" "k < length g"
  shows "linked_part loc ems (g ! 0) j (g ! k) \<longleftrightarrow> j = k"
proof -
  have "AllParts (UDH (g ! 0)) = int (length g)" using numbered_part(4) [OF assms(1), of 0] assms(2) by (cases g) auto
  then show ?thesis using numbered_part [OF assms] by (simp add: linked_part_def Let_def) auto
qed

text \<open>The messages pending are those of the groups \<open>gs\<close>.\<close>

definition waiting :: "GSM_MultiSMSMessage list \<Rightarrow> bool list \<Rightarrow> GSM_SMSMessage multiset" where
  "waiting inp marks = mset (map sms0 (pending inp marks))"

lemma waiting_mark:
  "length marks = length inp \<Longrightarrow> k < length inp \<Longrightarrow> \<not> marks ! k \<Longrightarrow>
   waiting inp marks = add_mset (sms0 (inp ! k)) (waiting inp (marks[k := True]))"
  unfolding waiting_def mset_map by (simp add: pending_mark)

lemma waiting_member:
  "length marks = length inp \<Longrightarrow> m \<in># waiting inp marks \<longleftrightarrow> (\<exists>k<length inp. \<not> marks ! k \<and> sms0 (inp ! k) = m)"
proof -
  assume l: "length marks = length inp"
  have "m \<in># waiting inp marks \<longleftrightarrow> (\<exists>x \<in> set (pending inp marks). sms0 x = m)" by (auto simp: waiting_def)
  also have "\<dots> \<longleftrightarrow> (\<exists>k<length inp. \<not> marks ! k \<and> sms0 (inp ! k) = m)"
    unfolding Bex_def pending_member [OF l] by auto
  finally show ?thesis .
qed

lemma mset_concat_sum: "mset (concat gs) = (\<Sum>g \<in># mset gs. mset g)"
  by (induction gs) auto

lemma collect_group:
  assumes inp: "\<forall>m \<in> set inp. one_sms m" and g: "numbered_parts loc g" and j: "0 < j" "j \<le> length g"
    and marks: "length marks = length inp" "waiting inp marks = mset (drop j g) + R"
    and other: "\<forall>m \<in># R. \<forall>j. \<not> linked_part loc ems (g ! 0) j m"
  shows "\<exists>marks'. collect_parts (linked_part loc ems (g ! 0)) (int (length g)) inp j marks = (marks', drop j g)
           \<and> length marks' = length inp \<and> waiting inp marks' = R"
  using j marks
proof (induction "length g - j" arbitrary: j marks)
  case 0
  then show ?case by (intro exI [of _ marks]) (simp add: collect_parts.simps)
next
  case (Suc n)
  then have jl: "j < length g" by simp
  then have cons: "drop j g = g ! j # drop (Suc j) g" by (simp add: Cons_nth_drop_Suc)
  let ?P = "\<lambda>z. \<not> marks ! z \<and> Multi_Number (inp ! z) = 1 \<and> linked_part loc ems (g ! 0) j (sms0 (inp ! z))"
  have "g ! j \<in># waiting inp marks" using Suc.prems(4) cons by simp
  then obtain k where k: "k < length inp" "\<not> marks ! k" "sms0 (inp ! k) = g ! j"
    using waiting_member [OF Suc.prems(3)] by blast
  have "?P k" using k numbered_part_fits [OF g jl] inp by (simp add: one_sms_def)
  then have "find ?P [0..<length inp] \<noteq> None" using k(1) by (auto simp: find_None_iff)
  then obtain z where z: "find ?P [0..<length inp] = Some z" by blast
  then have zP: "z < length inp" "\<not> marks ! z" "linked_part loc ems (g ! 0) j (sms0 (inp ! z))"
    using find_part [of ?P] by blast+
  have "sms0 (inp ! z) \<in># mset (drop j g) + R" using zP Suc.prems waiting_member [OF Suc.prems(3)] by metis
  moreover have "sms0 (inp ! z) \<notin># R" using other zP(3) by blast
  ultimately have "sms0 (inp ! z) \<in> set g" by (auto dest: in_set_dropD)
  then obtain k' where "k' < length g" "sms0 (inp ! z) = g ! k'" by (auto simp: in_set_conv_nth)
  then have here: "sms0 (inp ! z) = g ! j" using zP(3) numbered_part_fits [OF g] by metis
  let ?marks = "marks[z := True]"
  have "waiting inp ?marks = mset (drop (Suc j) g) + R"
    using waiting_mark [OF Suc.prems(3) zP(1,2)] Suc.prems(4) here cons by simp
  then obtain marks' where m: "collect_parts (linked_part loc ems (g ! 0)) (int (length g)) inp (Suc j) ?marks = (marks', drop (Suc j) g)"
    "length marks' = length inp" "waiting inp marks' = R"
    using Suc.hyps(1) [of "Suc j" ?marks] Suc.hyps(2) jl Suc.prems(3) by fastforce
  have "\<not> (int j = int (length g) \<or> j \<ge> GSM_MAX_MULTI_SMS)" using jl g by (simp add: numbered_parts_def)
  then show ?case using m z here cons
    by (intro exI [of _ marks']) (subst collect_parts.simps, simp)
qed

text \<open>The invariant: groups put out, groups to come, and first parts pending for messages passed over.\<close>

definition group_inv ::
  "GSM_SMSMessage list list \<Rightarrow> GSM_MultiSMSMessage list \<Rightarrow> GSM_SMSMessage list list \<Rightarrow> link_state \<Rightarrow> bool" where
  "group_inv all inp gs s \<longleftrightarrow>
     link_inv inp s \<and> mset (map parts (lk_out s)) + mset gs = mset all \<and> waiting inp (lk_sorted s) = mset (concat gs)"

lemma group_step:
  assumes inv: "group_inv all inp gs s" and i: "lk_i s < length inp"
    and inp: "\<forall>m \<in> set inp. one_sms m" and all: "\<forall>g \<in> set all. numbered_parts loc g" "told_apart loc ems all"
    and blank: "GSM_MAX_MULTI_SMS \<le> length (Multi_SMS blank)"
  shows "\<exists>s' gs'. link_step loc ems blank inp s = Some s' \<and> group_inv all inp gs' s' \<and> link_left inp s' < link_left inp s"
proof (cases "lk_sorted s ! lk_i s")
  case True
  then show ?thesis using inv link_skip_inv [of inp s] i
    by (intro exI [of _ "s\<lparr>lk_i := lk_i s + 1\<rparr>"] exI [of _ gs]) (auto simp: group_inv_def link_step_def)
next
  case False
  let ?m = "sms0 (inp ! lk_i s)"
  have li: "link_inv inp s" and len: "length (lk_sorted s) = length inp" using inv by (auto simp: group_inv_def link_inv_def)
  have "?m \<in># waiting inp (lk_sorted s)" using waiting_member [OF len] i False by blast
  then obtain g where g: "g \<in> set gs" "?m \<in> set g" using inv by (auto simp: group_inv_def)
  have sub: "set gs \<subseteq> set all" using inv unfolding group_inv_def by (metis mset_subset_eq_add_right set_mset_mono set_mset_mset)
  have ng: "numbered_parts loc g" using g sub all by blast
  note D = numbered_partsD [OF ng g(2)]
  have one: "one_sms (inp ! lk_i s)" using inp i by simp
  have nosiemens: "GSM_DecodeSiemensOTASMS ?m = None" using D(3) by (rule siemens_needs_no_header)
  have notplain: "\<not> link_plain ems (inp ! lk_i s)" using D one by (auto simp: link_plain_def one_sms_def Let_def)
  have cells: "\<forall>m \<in> set inp. 0 < length (Multi_SMS m)" using inp by (auto simp: one_sms_def)
  show ?thesis
  proof (cases "PartNumber (UDH ?m) = 1")
    case True
    then have m0: "?m = g ! 0" using D(5) by simp
    obtain gs' where gs': "mset gs = add_mset g (mset gs')" using g(1) by (metis mset_set_set in_multiset_in_set multi_member_split ex_mset)
    have "waiting inp (lk_sorted s) = mset g + mset (concat gs')"
      using inv gs' unfolding group_inv_def by (simp add: mset_concat_sum)
    moreover have "mset g = add_mset ?m (mset (drop 1 g))" using m0 ng by (cases g) (auto simp: numbered_parts_def)
    ultimately have w: "waiting inp ((lk_sorted s)[lk_i s := True]) = mset (drop 1 g) + mset (concat gs')"
      using waiting_mark [OF len i False] by simp
    have distinct: "g \<notin> set gs'"
    proof -
      have "distinct all" using all(2) by (simp add: told_apart_def)
      moreover have "mset all = mset (map parts (lk_out s)) + add_mset g (mset gs')" using inv gs' by (simp add: group_inv_def)
      ultimately have "count (mset (map parts (lk_out s)) + add_mset g (mset gs')) g \<le> 1"
        by (metis distinct_count_atmost_1 less_or_eq_imp_le zero_le_one)
      then show ?thesis by (auto simp: count_eq_zero_iff)
    qed
    have "\<not> linked_part loc ems (g ! 0) j m" if m: "m \<in># mset (concat gs')" for j m
    proof -
      obtain h where h: "h \<in> set gs'" "m \<in> set h" using m by auto
      then have "h \<in> set gs" using gs' by (metis set_mset_mset set_mset_add_mset_insert insertI2)
      moreover have "g \<noteq> h" using h(1) distinct by blast
      ultimately have "part_id m \<noteq> part_id (g ! 0) \<or> other_kind ems m (g ! 0) \<or> other_sender loc m (g ! 0)"
        using all(2) subsetD [OF sub] g(1) h(2) unfolding told_apart_def by blast
      then show ?thesis by (rule apart_does_not_fit)
    qed
    then obtain marks' where c: "collect_parts (linked_part loc ems ?m) (int (length g)) inp 1 ((lk_sorted s)[lk_i s := True]) = (marks', drop 1 g)"
      "length marks' = length inp" "waiting inp marks' = mset (concat gs')"
      using collect_group [OF inp ng _ _ _ w] m0 len ng by (force simp: numbered_parts_def Suc_le_eq)
    have whole: "?m # drop 1 g = g" using m0 ng by (cases g) (auto simp: numbered_parts_def)
    let ?new = "link_group blank (linked_part loc ems ?m) (AllParts (UDH ?m)) inp s"
    have new: "?new = s\<lparr>lk_i := 0, lk_sorted := marks',
        lk_out := lk_out s @ [blank\<lparr>Multi_Number := length g, Multi_SMS := overlay g (Multi_SMS blank)\<rparr>]\<rparr>"
      using c(1) D(2) by (simp only: link_group_def Let_def prod.case whole)
    have "length g \<le> length (Multi_SMS blank)" using ng blank by (simp add: numbered_parts_def)
    then have "mset (map parts (lk_out ?new)) + mset gs' = mset all" using inv gs' unfolding new by (simp add: group_inv_def)
    moreover have "link_step loc ems blank inp s = Some ?new"
      using False nosiemens notplain True i by (simp add: link_step_def link_linked_def Let_def)
    moreover have "link_inv inp ?new \<and> link_left inp ?new < link_left inp s"
      using link_group_inv [OF li i False _ cells blank] one by (simp add: one_sms_def)
    moreover have "waiting inp (lk_sorted ?new) = mset (concat gs')" unfolding new using c(3) by simp
    ultimately show ?thesis by (auto simp: group_inv_def)
  next
    case later: False
    have "g ! 0 \<in># waiting inp (lk_sorted s)" using inv g(1) ng unfolding group_inv_def
      by (auto simp: numbered_parts_def intro!: bexI [of _ g])
    then obtain k where k: "k < length inp" "\<not> lk_sorted s ! k" "sms0 (inp ! k) = g ! 0" using waiting_member [OF len] by blast
    have "PartNumber (UDH (g ! 0)) = 1" using ng by (auto simp: numbered_parts_def Let_def dest: spec [of _ 0])
    then have first: "\<exists>j<length inp. \<not> lk_sorted s ! j \<and> PartNumber (UDH (sms0 (inp ! j))) = 1" using k by metis
    have "1 < PartNumber (UDH ?m)" using later D(1) by simp
    then show ?thesis using False nosiemens notplain i first inv link_skip_inv [OF li i] later
      by (intro exI [of _ "s\<lparr>lk_i := lk_i s + 1\<rparr>"] exI [of _ gs])
         (auto simp: link_step_def link_linked_def Let_def group_inv_def)
  qed
qed


lemma group_loop:
  assumes "group_inv all inp gs s" "\<forall>m \<in> set inp. one_sms m" "\<forall>g \<in> set all. numbered_parts loc g" "told_apart loc ems all"
    and "GSM_MAX_MULTI_SMS \<le> length (Multi_SMS blank)"
  shows "\<exists>s' gs'. link_loop loc ems blank inp s = Some (Some s') \<and> group_inv all inp gs' s' \<and> length inp \<le> lk_i s'"
  using assms(1)
proof (induction "link_left inp s" arbitrary: s gs rule: less_induct)
  case less
  show ?case
  proof (cases "length inp \<le> lk_i s")
    case True
    then show ?thesis using less.prems by (auto simp: link_loop.simps)
  next
    case False
    then obtain s1 gs1 where s1: "link_step loc ems blank inp s = Some s1" "group_inv all inp gs1 s1" "link_left inp s1 < link_left inp s"
      using group_step [OF less.prems _ assms(2-5)] by force
    from less.hyps [OF s1(3,2)] show ?thesis using False s1(1) by (simp add: link_loop.simps [of loc ems blank inp s])
  qed
qed

lemma number_users_none: "\<forall>m \<in> set ms. UDH_Type (UDH (sms0 m)) \<noteq> UDH_UserUDH \<Longrightarrow> number_users ms = Some ms"
  by (induction ms) (auto simp: number_user_def)

lemma one_sms_parts: "one_sms m \<Longrightarrow> parts m = [sms0 m]"
  by (simp add: one_sms_def parts_single)

lemma link_order:
  assumes gs: "\<forall>g \<in> set gs. numbered_parts loc g" "told_apart loc ems gs"
    and inp: "\<forall>m \<in> set inp. one_sms m \<and> link_valid m" "mset (map sms0 inp) = mset (concat gs)"
    and blank: "length (Multi_SMS blank) = GSM_MAX_MULTI_SMS"
  shows "\<exists>out. GSM_LinkSMS loc ems blank inp = Some (Linked out) \<and> mset (map parts out) = mset gs"
proof (cases "inp = []")
  case True
  then have "concat gs = []" using inp(2) by simp
  moreover have "[] \<notin> set gs" using gs(1) by (auto simp: numbered_parts_def)
  ultimately have "gs = []" by (cases gs) auto
  then show ?thesis using True by (simp add: GSM_LinkSMS_def)
next
  case False
  have member: "\<exists>g \<in> set gs. sms0 m \<in> set g" if "m \<in> set inp" for m
    using that arg_cong [OF inp(2), of set_mset] by auto
  have "number_users inp = Some inp"
    by (rule number_users_none) (use member gs(1) numbered_partsD(4) in blast)
  then have users: "(if ems then number_users inp else Some inp) = Some inp" by simp
  let ?s = "\<lparr>lk_i = 0, lk_sorted = replicate (length inp) False, lk_out = []\<rparr>"
  have "group_inv gs inp gs ?s" using link_inv_start inp(2) by (simp add: group_inv_def waiting_def)
  then obtain s gs' where s: "link_loop loc ems blank inp ?s = Some (Some s)" "group_inv gs inp gs' s" "length inp \<le> lk_i s"
    using group_loop [OF _ _ gs] inp(1) blank by (metis order_refl)
  have "content (lk_out s) = content inp" using link_inv_end s(2,3) by (auto simp: group_inv_def)
  then have "pending inp (lk_sorted s) = []"
  proof -
    assume c: "content (lk_out s) = content inp"
    then have "content (pending inp (lk_sorted s)) = {#}" using s(2) by (auto simp: group_inv_def link_inv_def)
    moreover have "parts m \<noteq> []" if "m \<in> set (pending inp (lk_sorted s))" for m
    proof -
      have "m \<in> set inp" using that by (auto simp: pending_def dest: set_zip_leftD)
      then show ?thesis using inp(1) by (simp add: one_sms_parts)
    qed
    ultimately show ?thesis by (cases "pending inp (lk_sorted s)") auto
  qed
  then have "concat gs' = []" using s(2) by (simp add: group_inv_def waiting_def)
  moreover have "[] \<notin> set gs'"
    using s(2) gs(1) unfolding group_inv_def numbered_parts_def by (metis mset_subset_eq_add_right set_mset_mono set_mset_mset subsetD)
  ultimately have "gs' = []" by (cases gs') auto
  then have "mset (map parts (lk_out s)) = mset gs" using s(2) by (simp add: group_inv_def)
  then show ?thesis using False inp(1) s(1) users by (auto simp: GSM_LinkSMS_def)
qed


text \<open>The parts a split message has been cut into are numbered parts, when received from one sender.\<close>

lemma split_numbered:
  assumes parts: "\<forall>j < n. numbered type n j (ps ! j) \<and> identified type u h (ps ! j)" "0 < n" "n \<le> GSM_MAX_MULTI_SMS"
    and type: "type \<noteq> UDH_NoUDH" "type \<noteq> UDH_UserUDH" "PartNumber (row_of type) \<noteq> -1" "AllParts (row_of type) \<noteq> -1"
    and rs: "length rs = n" "\<forall>j < n. UDH (rs ! j) = UDH (ps ! j) \<and> same_sender loc (rs ! j) (rs ! 0)"
  shows "numbered_parts loc rs"
proof -
  have id: "ID8bit (UDH (rs ! j)) = (if ID8bit (row_of type) = -1 then -1 else u)"
    "ID16bit (UDH (rs ! j)) = (if ID16bit (row_of type) = -1 then -1 else u + 256 * h)"
    "UDH_Type (UDH (rs ! j)) = type" "PartNumber (UDH (rs ! j)) = int j + 1" "AllParts (UDH (rs ! j)) = int n" if "j < n" for j
    using parts(1) rs(2) type that by (auto simp: numbered_def identified_def)
  show ?thesis unfolding numbered_parts_def Let_def
    using assms(2,3) type(1,2) rs id id [OF assms(2)] by auto
qed

text \<open>
  Claim C4. A text split into parts of a linked type is put together from its parts when they have been
  received from one sender in any order: linking gives one message, with the parts in their order.
\<close>

theorem split_then_linked:
  assumes split: "GSM_MakeMultiPartSMS now M0 (data @ [0, 0]) MessageLength type coding cls replace = Go M"
    and type: "type \<noteq> UDH_NoUDH" "type \<noteq> UDH_UserUDH" "PartNumber (row_of type) \<noteq> -1" "AllParts (row_of type) \<noteq> -1"
    and data: "message_data coding data" "length data = unit_size coding * MessageLength"
    and M0: "Multi_Number M0 = 0" "length (Multi_SMS M0) = 50" "\<forall>S \<in> set (Multi_SMS M0). sms_arrays S"
    and rs: "length rs = Multi_Number M"
      "\<forall>j < Multi_Number M. UDH (rs ! j) = UDH (Multi_SMS M ! j) \<and> same_sender loc (rs ! j) (rs ! 0)"
    and inp: "\<forall>m \<in> set inp. one_sms m \<and> link_valid m" "mset (map sms0 inp) = mset rs"
    and blank: "length (Multi_SMS blank) = GSM_MAX_MULTI_SMS"
  shows "\<exists>m. GSM_LinkSMS loc ems blank inp = Some (Linked [m]) \<and> parts m = rs"
proof -
  from multipart_parts [OF type(2) data M0, of now cls replace] split have
    "\<forall>j < Multi_Number M. numbered type (Multi_Number M) j (Multi_SMS M ! j)
       \<and> identified type (GSM_MakeSMSIDFromTime now) (Hour now) (Multi_SMS M ! j)"
    "0 < Multi_Number M" "Multi_Number M \<le> GSM_MAX_MULTI_SMS" by (auto simp: GSM_MAX_MULTI_SMS_def)
  from split_numbered [OF this type rs] have "\<forall>g \<in> set [rs]. numbered_parts loc g" by simp
  from link_order [OF this _ inp(1) _ blank, of ems] inp(2)
  obtain out where out: "GSM_LinkSMS loc ems blank inp = Some (Linked out)" "mset (map parts out) = {#rs#}"
    by (auto simp: told_apart_def)
  then obtain m where "out = [m]" "parts m = rs" by (cases out) auto
  then show ?thesis using out by blast
qed

subsection \<open>Endless linking\<close>

text \<open>
  States from which the loop never leaves a set of states: no result can be derived.
\<close>

definition link_trap ::
  "link_state set \<Rightarrow> c_locale \<Rightarrow> bool \<Rightarrow> GSM_MultiSMSMessage \<Rightarrow> GSM_MultiSMSMessage list \<Rightarrow> bool" where
  "link_trap S loc ems blank inp \<longleftrightarrow>
     (\<forall>s \<in> S. lk_i s < length inp \<and> (\<exists>s' \<in> S. link_step loc ems blank inp s = Some s'))"

lemma link_loop_trap:
  assumes "link_trap S loc ems blank inp" "s \<in> S"
  shows "link_loop loc ems blank inp s = None"
proof (rule ccontr)
  assume "link_loop loc ems blank inp s \<noteq> None"
  then obtain r where r: "link_loop loc ems blank inp s = Some r" by blast
  have "link_trap S loc ems blank inp \<longrightarrow> s \<in> S \<longrightarrow> False"
  proof (rule link_loop.raw_induct [where P = "\<lambda>loc ems blank inp s r. link_trap S loc ems blank inp \<longrightarrow> s \<in> S \<longrightarrow> False", OF _ r], intro impI)
    fix loop loc ems blank inp s r
    assume IH: "\<And>loc ems blank inp s r. loop loc ems blank inp s = Some r \<Longrightarrow> link_trap S loc ems blank inp \<longrightarrow> s \<in> S \<longrightarrow> False"
      and body: "(if lk_i s \<ge> length inp then Some (Some s)
             else case link_step loc ems blank inp s of None \<Rightarrow> Some None | Some s' \<Rightarrow> loop loc ems blank inp s') = Some r"
      and trap: "link_trap S loc ems blank inp" "s \<in> S"
    obtain s' where "lk_i s < length inp" "s' \<in> S" "link_step loc ems blank inp s = Some s'"
      using trap by (auto simp: link_trap_def)
    then show False using IH [of loc ems blank inp s' r] body trap(1) by simp
  qed
  then show False using assms by blast
qed

text \<open>
  A part with the number 0 of a known kind of linked message, as \<^verbatim>\<open>GSM_DecodeUDHHeader\<close> reads it from six
  octets: the loop stays at it.
\<close>

lemma link_part_zero_hangs:
  assumes "link_valid m" "Multi_Number m = 1" "UDH (sms0 m) = GSM_DecodeUDHHeader (u\<lparr>UDH_Text := [5, 0, 3, ref, n, 0] @ rest\<rparr>)"
  shows "GSM_LinkSMS loc False blank [m] = None"
proof -
  have u: "UDH_Type (UDH (sms0 m)) = UDH_ConcatenatedMessages" "PartNumber (UDH (sms0 m)) = 0"
    unfolding assms(3) by (simp_all add: GSM_DecodeUDHHeader_def UDHHeaders_def udh_row_def udh_matches_def udh_compared_def
        udh_read_def udh_cell_def Let_def)
  let ?s = "\<lparr>lk_i = 0, lk_sorted = replicate (length [m]) False, lk_out = []\<rparr>"
  have "link_step loc False blank [m] ?s = Some ?s"
    using assms(2) u siemens_needs_no_header [of "sms0 m"]
    by (simp add: link_step_def link_linked_def link_plain_def Let_def)
  then have "link_trap {?s} loc False blank [m]" by (simp add: link_trap_def)
  from link_loop_trap [OF this] show ?thesis using assms(1) by (simp add: GSM_LinkSMS_def)
qed

text \<open>
  A later Siemens packet, an ordinary message and a first packet: the ordinary message is copied over
  and over again.
\<close>

definition copying :: "GSM_MultiSMSMessage \<Rightarrow> link_state set" where
  "copying m = {s. lk_i s = 0 \<and> (\<exists>n taken. lk_out s = replicate n m \<and> lk_sorted s = [False, taken, False])}"

lemma link_siemens_copies_forever:
  assumes "GSM_DecodeSiemensOTASMS (sms0 later) = Some info" "PacketNum info > 1" "siemens_first (sms0 one)"
    "link_plain ems m"
  shows "link_loop loc ems blank [later, m, one] \<lparr>lk_i = 0, lk_sorted = [False, False, False], lk_out = []\<rparr> = None"
proof (rule link_loop_trap)
  have step: "link_step loc ems blank [later, m, one] s
      = Some (s\<lparr>lk_i := 0, lk_sorted := [False, True, False], lk_out := lk_out s @ [m]\<rparr>)" if "s \<in> copying m" for s
  proof -
    have "\<exists>j \<in> {0..<3}. \<not> lk_sorted s ! j \<and> siemens_first (sms0 ([later, m, one] ! j))"
      using that assms(3) by (intro bexI [of _ 2]) (auto simp: copying_def)
    then show ?thesis using that assms by (auto simp: copying_def link_step_def link_linked_def link_copy_def Let_def)
  qed
  have "\<exists>n'. replicate n m @ [m] = replicate n' m" for n by (intro exI [of _ "Suc n"]) (simp add: replicate_append_same)
  then show "link_trap (copying m) loc ems blank [later, m, one]"
    unfolding link_trap_def using step by (auto simp: copying_def)
  show "\<lparr>lk_i = 0, lk_sorted = [False, False, False], lk_out = []\<rparr> \<in> copying m" by (auto simp: copying_def)
qed

subsection \<open>Examples\<close>

definition part_sms :: "int \<Rightarrow> int \<Rightarrow> int \<Rightarrow> GSM_SMSMessage" where
  "part_sms ref n k = blank_sms\<lparr>PDU := SMS_Deliver, SMS_Number := [0x31],
     UDH := (UDH blank_sms)\<lparr>UDH_Type := UDH_ConcatenatedMessages, UDH_Length := 6, ID8bit := ref, ID16bit := -1,
              AllParts := n, PartNumber := k\<rparr>\<rparr>"

definition received :: "GSM_SMSMessage \<Rightarrow> GSM_MultiSMSMessage" where
  "received m = \<lparr>Multi_Number = 1, Multi_SMS = m # replicate 49 blank_sms, Multi_Processed = False\<rparr>"

lemma received_simps [simp]: "Multi_Number (received m) = 1" "sms0 (received m) = m" "parts (received m) = [m]"
  "length (Multi_SMS (received m)) = 50" "Multi_SMS (received m) \<noteq> []"
  by (simp_all add: received_def sms0_def parts_def)

lemma part_sms_simps [simp]:
  "PartNumber (UDH (part_sms ref n k)) = k" "AllParts (UDH (part_sms ref n k)) = n" "ID8bit (UDH (part_sms ref n k)) = ref"
  "ID16bit (UDH (part_sms ref n k)) = -1" "UDH_Type (UDH (part_sms ref n k)) = UDH_ConcatenatedMessages"
  by (simp_all add: part_sms_def)

lemma part_sms_sender: "same_sender loc (part_sms ref n k) (part_sms ref' n' k')"
  by (simp add: same_sender_def part_sms_def blank_sms_def numbers_def same_moment_def)

lemma part_sms_valid: "link_valid (received (part_sms ref n k))"
  by (simp add: link_valid_def part_sms_def blank_sms_def sms_limits GSM_MAX_MULTI_SMS_def)

definition from_other :: "GSM_SMSMessage \<Rightarrow> GSM_SMSMessage" where
  "from_other m = m\<lparr>SMS_Number := [0x32]\<rparr>"

lemma from_other_simps [simp]: "UDH (from_other m) = UDH m"
  by (simp add: from_other_def)

lemma from_other_sender: "same_sender loc (from_other (part_sms ref n k)) (from_other (part_sms ref' n' k'))"
  by (simp add: same_sender_def from_other_def part_sms_def blank_sms_def numbers_def same_moment_def)

lemma from_other_valid: "link_valid (received (from_other (part_sms ref n k)))"
  by (simp add: link_valid_def from_other_def part_sms_def blank_sms_def sms_limits GSM_MAX_MULTI_SMS_def)

lemma other_senders:
  "other_sender posix_locale (from_other (part_sms ref n k)) (part_sms ref' n' k')"
  "other_sender posix_locale (part_sms ref n k) (from_other (part_sms ref' n' k'))"
proof -
  have "number_text posix_locale [0x31] \<noteq> number_text posix_locale [0x32]"
    by (simp add: number_text_def posix_locale_def DecodeWithUnicodeAlphabet_def high_surrogate_def cstr_def)
  then show "other_sender posix_locale (from_other (part_sms ref n k)) (part_sms ref' n' k')"
    "other_sender posix_locale (part_sms ref n k) (from_other (part_sms ref' n' k'))"
    by (simp_all add: other_sender_def from_other_def part_sms_def blank_sms_def numbers_def)
qed

lemma not_same: "part_sms ref n k \<noteq> from_other (part_sms ref' n' k')"
  by (auto simp: part_sms_def from_other_def dest: arg_cong [where f = SMS_Number])


theorem link_keeps_messages_witness:
  "\<exists>out. GSM_LinkSMS posix_locale False blank_multi [received (part_sms 7 2 2), received (part_sms 7 3 1)] = Some (Linked out)
    \<and> mset (concat (map parts out)) = {#part_sms 7 2 2, part_sms 7 3 1#}"
proof -
  have "linkable False (received (part_sms 7 2 2))" "linkable False (received (part_sms 7 3 1))"
    by (simp_all add: linkable_def siemens_needs_no_header)
  then show ?thesis
    using link_keeps_messages [of "[received (part_sms 7 2 2), received (part_sms 7 3 1)]" False
        "[received (part_sms 7 2 2), received (part_sms 7 3 1)]" blank_multi posix_locale]
    by (simp add: part_sms_valid blank_multi GSM_MAX_MULTI_SMS_def)
qed


theorem split_then_linked_witness:
  "\<exists>M m. GSM_MakeMultiPartSMS zerodt blank_multi (bytes_of_units [0x48] @ [0, 0]) 1 UDH_ConcatenatedMessages
      SMS_Coding_Unicode_No_Compression (-1) 0 = Go M
    \<and> GSM_LinkSMS posix_locale False blank_multi
        (rev (map (\<lambda>j. received (blank_sms\<lparr>UDH := UDH (Multi_SMS M ! j)\<rparr>)) [0..<Multi_Number M])) = Some (Linked [m])
    \<and> parts m = map (\<lambda>j. blank_sms\<lparr>UDH := UDH (Multi_SMS M ! j)\<rparr>) [0..<Multi_Number M]"
proof -
  have d: "message_data SMS_Coding_Unicode_No_Compression (bytes_of_units [0x48])"
    unfolding message_data_def by (intro disjI2 conjI exI [of _ "[0x48]"]) simp_all
  have l: "length (bytes_of_units [0x48]) = unit_size SMS_Coding_Unicode_No_Compression * 1" by (simp add: unit_size_def)
  have t: "UDH_ConcatenatedMessages \<noteq> UDH_NoUDH" "UDH_ConcatenatedMessages \<noteq> UDH_UserUDH"
    "PartNumber (row_of UDH_ConcatenatedMessages) \<noteq> -1" "AllParts (row_of UDH_ConcatenatedMessages) \<noteq> -1"
    by (simp_all add: row_of_def UDHHeaders_def udh_row_def)
  obtain M chunks where M: "GSM_MakeMultiPartSMS zerodt blank_multi (bytes_of_units [0x48] @ [0, 0]) 1
      UDH_ConcatenatedMessages SMS_Coding_Unicode_No_Compression (-1) 0 = Go M"
    "1 \<le> Multi_Number M" "length chunks = Multi_Number M" "concat chunks = bytes_of_units [0x48]"
    "\<forall>j < Multi_Number M. carries UDH_ConcatenatedMessages SMS_Coding_Unicode_No_Compression (Multi_SMS M ! j) (chunks ! j)"
    using multipart_parts [OF t(2) d l blank_multi, of zerodt "-1" 0] by auto
  let ?rs = "map (\<lambda>j. blank_sms\<lparr>UDH := UDH (Multi_SMS M ! j)\<rparr>) [0..<Multi_Number M]"
  let ?inp = "rev (map (\<lambda>j. received (blank_sms\<lparr>UDH := UDH (Multi_SMS M ! j)\<rparr>)) [0..<Multi_Number M])"
  have "length ?rs = Multi_Number M" "\<forall>j < Multi_Number M. UDH (?rs ! j) = UDH (Multi_SMS M ! j) \<and> same_sender posix_locale (?rs ! j) (?rs ! 0)"
    by (simp_all add: same_sender_def blank_sms_def)
  moreover have "UDH_Length (UDH (Multi_SMS M ! j)) = 6" if "j < Multi_Number M" for j
    using M(5) that by (auto simp: carries_def header_length_def row_of_def UDHHeaders_def udh_row_def)
  then have "\<forall>m \<in> set ?inp. one_sms m \<and> link_valid m"
    by (auto simp: one_sms_def link_valid_def blank_sms_def sms_limits GSM_MAX_MULTI_SMS_def)
  moreover have "mset (map sms0 ?inp) = mset ?rs" by (simp add: image_mset.compositionality comp_def)
  ultimately show ?thesis
    using split_then_linked [OF M(1) t d l blank_multi, of ?rs posix_locale ?inp blank_multi False] blank_multi(2) M(1)
    by (auto simp: GSM_MAX_MULTI_SMS_def)
qed

end
