(* ===== verification/Md5.thy ===== *)
theory Md5 imports Prelude begin

text \<open>
  The MD5 code of \<^verbatim>\<open>libgammu/misc/coding/md5.c\<close>, in the order of the file, on a machine that stores the least
  significant octet of a word first. (On other machines \<^verbatim>\<open>byteReverse\<close> makes words of the octets of a block, but
  \<^verbatim>\<open>MD5Final\<close> leaves out the two words of the length it stores with \<^verbatim>\<open>putu32\<close>, so its digest is another one there.)
\<close>

type_synonym uint32 = "32 word"
type_synonym md5_words = "uint32 \<times> uint32 \<times> uint32 \<times> uint32"

record MD5Context =
  md5_buf :: md5_words
  md5_bits :: "uint32 \<times> uint32"
  md5_in :: "byte list"

definition putu32 :: "uint32 \<Rightarrow> byte list" where
  "putu32 data = [ucast data, ucast (drop_bit 8 data), ucast (drop_bit 16 data), ucast (drop_bit 24 data)]"

fun get_words :: "byte list \<Rightarrow> uint32 list" where
  "get_words (b0 # b1 # b2 # b3 # bs) =
     (push_bit 16 (push_bit 8 (ucast b3) OR ucast b2) OR (push_bit 8 (ucast b1) OR ucast b0)) # get_words bs"
| "get_words _ = []"

subsection \<open>The transformation\<close>

definition F1 :: "uint32 \<Rightarrow> uint32 \<Rightarrow> uint32 \<Rightarrow> uint32" where "F1 x y z = z XOR (x AND (y XOR z))"
definition F2 :: "uint32 \<Rightarrow> uint32 \<Rightarrow> uint32 \<Rightarrow> uint32" where "F2 x y z = F1 z x y"
definition F3 :: "uint32 \<Rightarrow> uint32 \<Rightarrow> uint32 \<Rightarrow> uint32" where "F3 x y z = x XOR y XOR z"
definition F4 :: "uint32 \<Rightarrow> uint32 \<Rightarrow> uint32 \<Rightarrow> uint32" where "F4 x y z = y XOR (x OR NOT z)"

text \<open>
  One step gives the arguments of the next: \<open>w\<close>, \<open>x\<close>, \<open>y\<close>, \<open>z\<close> become \<open>z\<close>, the new \<open>w\<close>, \<open>x\<close>, \<open>y\<close>.
\<close>

definition MD5STEP ::
  "uint32 list \<Rightarrow> (uint32 \<Rightarrow> uint32 \<Rightarrow> uint32 \<Rightarrow> uint32) \<times> nat \<times> uint32 \<times> nat \<Rightarrow> md5_words \<Rightarrow> md5_words" where
  "MD5STEP inw = (\<lambda>(f, k, constant, s) (w, x, y, z).
     let v = w + (f x y z + (inw ! k + constant)) in (z, (push_bit s v OR drop_bit (32 - s) v) + x, x, y))"

definition md5_steps :: "((uint32 \<Rightarrow> uint32 \<Rightarrow> uint32 \<Rightarrow> uint32) \<times> nat \<times> uint32 \<times> nat) list" where
  "md5_steps = [
    (F1, 0, 0xd76aa478, 7), (F1, 1, 0xe8c7b756, 12), (F1, 2, 0x242070db, 17), (F1, 3, 0xc1bdceee, 22),
    (F1, 4, 0xf57c0faf, 7), (F1, 5, 0x4787c62a, 12), (F1, 6, 0xa8304613, 17), (F1, 7, 0xfd469501, 22),
    (F1, 8, 0x698098d8, 7), (F1, 9, 0x8b44f7af, 12), (F1, 10, 0xffff5bb1, 17), (F1, 11, 0x895cd7be, 22),
    (F1, 12, 0x6b901122, 7), (F1, 13, 0xfd987193, 12), (F1, 14, 0xa679438e, 17), (F1, 15, 0x49b40821, 22),
    (F2, 1, 0xf61e2562, 5), (F2, 6, 0xc040b340, 9), (F2, 11, 0x265e5a51, 14), (F2, 0, 0xe9b6c7aa, 20),
    (F2, 5, 0xd62f105d, 5), (F2, 10, 0x02441453, 9), (F2, 15, 0xd8a1e681, 14), (F2, 4, 0xe7d3fbc8, 20),
    (F2, 9, 0x21e1cde6, 5), (F2, 14, 0xc33707d6, 9), (F2, 3, 0xf4d50d87, 14), (F2, 8, 0x455a14ed, 20),
    (F2, 13, 0xa9e3e905, 5), (F2, 2, 0xfcefa3f8, 9), (F2, 7, 0x676f02d9, 14), (F2, 12, 0x8d2a4c8a, 20),
    (F3, 5, 0xfffa3942, 4), (F3, 8, 0x8771f681, 11), (F3, 11, 0x6d9d6122, 16), (F3, 14, 0xfde5380c, 23),
    (F3, 1, 0xa4beea44, 4), (F3, 4, 0x4bdecfa9, 11), (F3, 7, 0xf6bb4b60, 16), (F3, 10, 0xbebfbc70, 23),
    (F3, 13, 0x289b7ec6, 4), (F3, 0, 0xeaa127fa, 11), (F3, 3, 0xd4ef3085, 16), (F3, 6, 0x04881d05, 23),
    (F3, 9, 0xd9d4d039, 4), (F3, 12, 0xe6db99e5, 11), (F3, 15, 0x1fa27cf8, 16), (F3, 2, 0xc4ac5665, 23),
    (F4, 0, 0xf4292244, 6), (F4, 7, 0x432aff97, 10), (F4, 14, 0xab9423a7, 15), (F4, 5, 0xfc93a039, 21),
    (F4, 12, 0x655b59c3, 6), (F4, 3, 0x8f0ccc92, 10), (F4, 10, 0xffeff47d, 15), (F4, 1, 0x85845dd1, 21),
    (F4, 8, 0x6fa87e4f, 6), (F4, 15, 0xfe2ce6e0, 10), (F4, 6, 0xa3014314, 15), (F4, 13, 0x4e0811a1, 21),
    (F4, 4, 0xf7537e82, 6), (F4, 11, 0xbd3af235, 10), (F4, 2, 0x2ad7d2bb, 15), (F4, 9, 0xeb86d391, 21)]"

definition MD5Transform :: "byte list \<Rightarrow> md5_words \<Rightarrow> md5_words" where
  "MD5Transform block = (\<lambda>(a0, b0, c0, d0).
     let (a, b, c, d) = fold (MD5STEP (get_words block)) md5_steps (a0, b0, c0, d0) in (a0 + a, b0 + b, c0 + c, d0 + d))"

subsection \<open>The context\<close>

definition md5_start :: md5_words where
  "md5_start = (0x67452301, 0xefcdab89, 0x98badcfe, 0x10325476)"

definition MD5Init :: "MD5Context \<Rightarrow> MD5Context" where
  "MD5Init ctx = ctx\<lparr>md5_buf := md5_start, md5_bits := (0, 0)\<rparr>"

text \<open>The loop over blocks of 64 octets, and the rest that is kept.\<close>

function md5_chunks :: "MD5Context \<Rightarrow> byte list \<Rightarrow> MD5Context" where
  "md5_chunks ctx buf =
     (if length buf \<ge> 64
      then md5_chunks (ctx\<lparr>md5_in := take 64 buf, md5_buf := MD5Transform (take 64 buf) (md5_buf ctx)\<rparr>) (drop 64 buf)
      else ctx\<lparr>md5_in := buf @ drop (length buf) (md5_in ctx)\<rparr>)"
  by pat_completeness auto
termination
  by (relation "measure (\<lambda>(ctx, buf). length buf)") auto

declare md5_chunks.simps [simp del]

definition MD5Update :: "MD5Context \<Rightarrow> byte list \<Rightarrow> MD5Context" where
  "MD5Update ctx buf =
     (let len = word_of_nat (length buf) :: uint32; (lo, hi) = md5_bits ctx; lo1 = lo + push_bit 3 len;
          hi1 = (if lo1 < lo then hi + 1 else hi) + drop_bit 29 len;
          ctx1 = ctx\<lparr>md5_bits := (lo1, hi1)\<rparr>;
          used = unat (drop_bit 3 lo AND 0x3f); room = 64 - used in
      if used = 0 then md5_chunks ctx1 buf
      else if length buf < room
      then ctx1\<lparr>md5_in := take used (md5_in ctx) @ buf @ drop (used + length buf) (md5_in ctx)\<rparr>
      else
        let block = take used (md5_in ctx) @ take room buf in
        md5_chunks (ctx1\<lparr>md5_in := block, md5_buf := MD5Transform block (md5_buf ctx)\<rparr>) (drop room buf))"

definition MD5Final :: "MD5Context \<Rightarrow> byte list" where
  "MD5Final ctx =
     (let (lo, hi) = md5_bits ctx; used = unat (drop_bit 3 lo AND 0x3f); room = 64 - 1 - used;
          head = take used (md5_in ctx) @ [0x80]; lengths = putu32 lo @ putu32 hi;
          (a, b, c, d) =
            (if room < 8
             then MD5Transform (replicate 56 0 @ lengths) (MD5Transform (head @ replicate room 0) (md5_buf ctx))
             else MD5Transform (head @ replicate (room - 8) 0 @ lengths) (md5_buf ctx))
      in putu32 a @ putu32 b @ putu32 c @ putu32 d)"

definition hex_upper :: "byte \<Rightarrow> string" where
  "hex_upper b =
     (let digit = (\<lambda>n. ''0123456789ABCDEF'' ! n) in [digit (unat b div 16), digit (unat b mod 16)])"

definition md5_garbage :: MD5Context where
  "md5_garbage = \<lparr>md5_buf = (0, 0, 0, 0), md5_bits = (0, 0), md5_in = replicate 64 0\<rparr>"

text \<open>The context is a local variable; what it holds before \<^verbatim>\<open>MD5Init\<close> is an argument.\<close>

definition CalculateMD5 :: "MD5Context \<Rightarrow> byte list \<Rightarrow> string" where
  "CalculateMD5 junk buffer = concat (map hex_upper (MD5Final (MD5Update (MD5Init junk) buffer)))"

subsection \<open>The reference\<close>

text \<open>
  The digest as RFC 1321 defines it, written from the RFC: the message, a 0x80, zeros up to 56 octets modulo 64, the
  length in bits as 64 bits, least significant octet first; a block is sixteen words of four octets,
  least significant first, and goes through four rounds of sixteen operations
  \<open>a = b + ((a + f (b, c, d) + X [k] + T [i]) <<< s)\<close> on the four words, which change their places after each.
  \<open>T [i]\<close> is the integer part of 4294967296 times \<open>abs (sin i)\<close>.
\<close>

definition rfc_value :: "byte list \<Rightarrow> uint32" where
  "rfc_value bs = (\<Sum>i \<leftarrow> [0..<4]. 256 ^ i * ucast (bs ! i))"

definition rfc_octets :: "uint32 \<Rightarrow> byte list" where
  "rfc_octets w = map (\<lambda>i. word_of_nat (unat w div 256 ^ i)) [0..<4]"

definition rfc_T :: "uint32 list" where
  "rfc_T = [
    3614090360, 3905402710, 606105819, 3250441966, 4118548399, 1200080426, 2821735955, 4249261313,
    1770035416, 2336552879, 4294925233, 2304563134, 1804603682, 4254626195, 2792965006, 1236535329,
    4129170786, 3225465664, 643717713, 3921069994, 3593408605, 38016083, 3634488961, 3889429448,
    568446438, 3275163606, 4107603335, 1163531501, 2850285829, 4243563512, 1735328473, 2368359562,
    4294588738, 2272392833, 1839030562, 4259657740, 2763975236, 1272893353, 4139469664, 3200236656,
    681279174, 3936430074, 3572445317, 76029189, 3654602809, 3873151461, 530742520, 3299628645,
    4096336452, 1126891415, 2878612391, 4237533241, 1700485571, 2399980690, 4293915773, 2240044497,
    1873313359, 4264355552, 2734768916, 1309151649, 4149444226, 3174756917, 718787259, 3951481745]"

definition rfc_function :: "nat \<Rightarrow> uint32 \<Rightarrow> uint32 \<Rightarrow> uint32 \<Rightarrow> uint32" where
  "rfc_function round x y z =
     (if round = 0 then (x AND y) OR (NOT x AND z)
      else if round = 1 then (x AND z) OR (y AND NOT z)
      else if round = 2 then x XOR y XOR z
      else y XOR (x OR NOT z))"

definition rfc_word :: "nat \<Rightarrow> nat \<Rightarrow> nat" where
  "rfc_word round i =
     (if round = 0 then i else if round = 1 then 5 * i + 1 else if round = 2 then 3 * i + 5 else 7 * i) mod 16"

definition rfc_shifts :: "nat list list" where
  "rfc_shifts = [[7, 12, 17, 22], [5, 9, 14, 20], [4, 11, 16, 23], [6, 10, 15, 21]]"

definition rfc_operation :: "uint32 list \<Rightarrow> nat \<Rightarrow> md5_words \<Rightarrow> md5_words" where
  "rfc_operation X i = (\<lambda>(a, b, c, d).
     let round = i div 16
     in (d, b + word_rotl (rfc_shifts ! round ! (i mod 4)) (a + rfc_function round b c d + X ! rfc_word round i + rfc_T ! i), b, c))"

definition rfc_block :: "byte list \<Rightarrow> md5_words \<Rightarrow> md5_words" where
  "rfc_block block = (\<lambda>(a0, b0, c0, d0).
     let X = map (\<lambda>j. rfc_value (drop (4 * j) block)) [0..<16];
         (a, b, c, d) = fold (rfc_operation X) [0..<64] (a0, b0, c0, d0)
     in (a + a0, b + b0, c + c0, d + d0))"

definition rfc_start :: md5_words where
  "rfc_start = (rfc_value [0x01, 0x23, 0x45, 0x67], rfc_value [0x89, 0xab, 0xcd, 0xef],
     rfc_value [0xfe, 0xdc, 0xba, 0x98], rfc_value [0x76, 0x54, 0x32, 0x10])"

function blocks :: "byte list \<Rightarrow> byte list list" where
  "blocks m = (if length m < 64 then [] else take 64 m # blocks (drop 64 m))"
  by pat_completeness auto
termination
  by (relation "measure length") auto

declare blocks.simps [simp del]

definition md5_pad :: "byte list \<Rightarrow> byte list" where
  "md5_pad m =
     m @ [0x80] @ replicate ((119 - length m mod 64) mod 64) 0
       @ map (\<lambda>i. word_of_nat (8 * length m div 256 ^ i)) [0..<8]"

definition md5_reference :: "byte list \<Rightarrow> byte list" where
  "md5_reference m =
     (let (a, b, c, d) = fold rfc_block (blocks (md5_pad m)) rfc_start in concat (map rfc_octets [a, b, c, d]))"

subsection \<open>The transformation is that of the RFC\<close>

lemma rotated: "0 < s \<Longrightarrow> s < 32 \<Longrightarrow> push_bit s v OR drop_bit (32 - s) v = word_rotl s v" for v :: uint32
proof (rule bit_word_eqI)
  fix n assume s: "0 < s" "s < 32" and "n < LENGTH(32)"
  then have n: "n < 32" by simp
  show "bit (push_bit s v OR drop_bit (32 - s) v) n \<longleftrightarrow> bit (word_rotl s v) n"
  proof (cases "s \<le> n")
    case True
    have "(n + (32 - s mod 32)) mod 32 = n - s" using s n True by (simp add: mod_if)
    moreover have "\<not> bit v (32 - s + n)" using True s by (auto dest: bit_imp_le_length)
    ultimately show ?thesis using True n s by (simp add: bit_simps)
  next
    case False
    have "(n + (32 - s mod 32)) mod 32 = 32 - s + n" using s n False by simp
    then show ?thesis using False n s by (simp add: bit_simps)
  qed
qed

lemma round_functions: "F1 x y z = (x AND y) OR (NOT x AND z)" "F2 x y z = (x AND z) OR (y AND NOT z)"
  by (rule bit_word_eqI; auto simp: F1_def F2_def bit_simps)+

lemma md5_steps_rfc:
  "md5_steps = map (\<lambda>i. ([F1, F2, F3, F4] ! (i div 16), rfc_word (i div 16) i, rfc_T ! i, rfc_shifts ! (i div 16) ! (i mod 4))) [0..<64]"
  by (simp add: md5_steps_def upt_rec rfc_word_def rfc_T_def rfc_shifts_def)


lemma transform_operation:
  assumes "i < 64"
  shows "MD5STEP X (md5_steps ! i) w = rfc_operation X i w"
proof -
  obtain a b c d where w: "w = (a, b, c, d)" by (cases w)
  have i: "i div 16 = 0 \<or> i div 16 = 1 \<or> i div 16 = 2 \<or> i div 16 = 3" "i mod 4 = 0 \<or> i mod 4 = 1 \<or> i mod 4 = 2 \<or> i mod 4 = 3"
    using assms by auto
  have s: "0 < rfc_shifts ! (i div 16) ! (i mod 4)" "rfc_shifts ! (i div 16) ! (i mod 4) < 32"
    using i by (auto simp: rfc_shifts_def)
  have f: "([F1, F2, F3, F4] ! (i div 16)) x y z = rfc_function (i div 16) x y z" for x y z
    using i(1) by (auto simp: rfc_function_def round_functions F3_def F4_def)
  show ?thesis using assms
    by (simp add: w md5_steps_rfc MD5STEP_def rfc_operation_def rotated [OF s] f Let_def add.assoc add.commute add.left_commute)
qed

lemma octets_joined:
  fixes b0 b1 b2 b3 :: byte
  shows "push_bit 16 (push_bit 8 (ucast b3) OR ucast b2) OR (push_bit 8 (ucast b1) OR ucast b0) =
    (ucast b0 + (256 * ucast b1 + (65536 * ucast b2 + 16777216 * ucast b3)) :: uint32)"
proof -
  have join: "x OR y = x + y" if "\<And>n. \<not> (bit x n \<and> bit y n)" for x y :: uint32
    using that by (intro disjunctive_add_eq_or [symmetric] bit_word_eqI) (auto simp: bit_simps)
  have "push_bit 8 (ucast b3) OR ucast b2 = (push_bit 8 (ucast b3) + ucast b2 :: uint32)"
    "push_bit 8 (ucast b1) OR ucast b0 = (push_bit 8 (ucast b1) + ucast b0 :: uint32)"
    "push_bit 16 (push_bit 8 (ucast b3) OR ucast b2) OR (push_bit 8 (ucast b1) OR ucast b0)
      = (push_bit 16 (push_bit 8 (ucast b3) OR ucast b2) + (push_bit 8 (ucast b1) OR ucast b0) :: uint32)"
    by (intro join; auto simp: bit_simps dest: bit_imp_le_length)+
  then show ?thesis by (simp add: push_bit_eq_mult algebra_simps)
qed

lemma get_words_value: "length bs = 4 * n \<Longrightarrow> get_words bs = map (\<lambda>j. rfc_value (drop (4 * j) bs)) [0..<n]"
proof (induction n arbitrary: bs)
  case 0
  then show ?case by simp
next
  case (Suc n)
  then have "length bs = Suc (Suc (Suc (Suc (4 * n))))" by simp
  then obtain b0 b1 b2 b3 r where bs: "bs = b0 # b1 # b2 # b3 # r" "length r = 4 * n"
    unfolding length_Suc_conv by blast
  have "push_bit 16 (push_bit 8 (ucast b3) OR ucast b2) OR (push_bit 8 (ucast b1) OR ucast b0) = rfc_value bs"
    unfolding octets_joined by (simp add: bs(1) rfc_value_def upt_rec)
  moreover have "drop (4 + k) (b0 # b1 # b2 # b3 # r) = drop k r" for k by (simp add: eval_nat_numeral)
  then have "map (\<lambda>j. rfc_value (drop (4 * j) bs)) [0..<Suc n]
      = rfc_value bs # map (\<lambda>j. rfc_value (drop (4 * j) r)) [0..<n]"
    by (simp add: bs(1) map_upt_Suc del: upt_Suc)
  ultimately show ?case using Suc.IH [OF bs(2)] by (simp add: bs(1) del: upt_Suc)
qed

lemma transform_rfc: "length block = 64 \<Longrightarrow> MD5Transform block = rfc_block block"
proof
  fix w :: md5_words
  assume len: "length block = 64"
  obtain a b c d where w: "w = (a, b, c, d)" by (cases w)
  have words: "get_words block = map (\<lambda>j. rfc_value (drop (4 * j) block)) [0..<16]"
    by (rule get_words_value) (simp add: len)
  have "fold (MD5STEP X) md5_steps = fold (rfc_operation X) [0..<64]" for X
  proof -
    have "length md5_steps = 64" by (simp add: md5_steps_def)
    then have "md5_steps = map (\<lambda>i. md5_steps ! i) [0..<64]" using map_nth [of md5_steps] by simp
    then have "fold (MD5STEP X) md5_steps = fold (MD5STEP X) (map (\<lambda>i. md5_steps ! i) [0..<64])" by (rule arg_cong)
    also have "\<dots> = fold (\<lambda>i. MD5STEP X (md5_steps ! i)) [0..<64]" by (simp add: fold_map comp_def del: upt.simps)
    also have "\<dots> = fold (rfc_operation X) [0..<64]"
      by (rule ext, rule List.fold_cong) (auto intro!: transform_operation)
    finally show ?thesis .
  qed
  then show "MD5Transform block w = rfc_block block w"
    by (simp add: MD5Transform_def rfc_block_def w words add.commute split: prod.splits)
qed

lemma start_rfc: "md5_start = rfc_start"
  by (simp add: md5_start_def rfc_start_def rfc_value_def upt_rec)

subsection \<open>Blocks\<close>

text \<open>What is left after the blocks.\<close>

definition remainder :: "byte list \<Rightarrow> byte list" where
  "remainder m = drop (length m - length m mod 64) m"

lemma length_remainder [simp]: "length (remainder m) = length m mod 64"
  by (simp add: remainder_def)

lemma blocks_short: "length m < 64 \<Longrightarrow> blocks m = []"
  by (simp add: blocks.simps)

lemma blocks_block: "length b = 64 \<Longrightarrow> blocks (b @ m) = b # blocks m"
  by (simp add: blocks.simps [of "b @ m"])

lemma blocks_append: "blocks (m @ x) = blocks m @ blocks (remainder m @ x)"
proof (induction m rule: blocks.induct)
  case (1 m)
  show ?case
  proof (cases "length m < 64")
    case True
    then show ?thesis by (simp add: blocks_short remainder_def)
  next
    case False
    have m: "m = take 64 m @ drop 64 m" "length (take 64 m) = 64" using False by simp_all
    have "remainder m = remainder (drop 64 m)"
      using False by (simp add: remainder_def le_mod_geq)
    then show ?thesis using 1 [OF False] False m blocks_block [OF m(2)] by (metis append.assoc append_Cons)
  qed
qed

lemma blocks_full: "x \<in> set (blocks m) \<Longrightarrow> length x = 64"
proof (induction m rule: blocks.induct)
  case (1 m)
  then show ?case by (cases "length m < 64") (auto simp: blocks.simps [of m])
qed

lemma blocks_rfc: "fold MD5Transform (blocks m) w = fold rfc_block (blocks m) w"
  by (rule List.fold_cong) (auto simp: transform_rfc dest: blocks_full)

lemma remainder_append: "remainder (m @ x) = remainder (remainder m @ x)"
proof -
  have "(length m + length x) mod 64 = (length m mod 64 + length x) mod 64" by (simp add: mod_add_left_eq)
  moreover have "length m mod 64 \<le> length m" by simp
  ultimately show ?thesis
    by (cases "length x < (length m + length x) mod 64") (auto simp: remainder_def drop_append add.commute)
qed


subsection \<open>The context represents the message\<close>

definition md5_counted :: "nat \<Rightarrow> uint32 \<times> uint32 \<Rightarrow> bool" where
  "md5_counted n bits \<longleftrightarrow> bits = (word_of_nat (8 * n), word_of_nat (8 * n div 2 ^ 32))"

definition md5_rep :: "MD5Context \<Rightarrow> byte list \<Rightarrow> bool" where
  "md5_rep ctx m \<longleftrightarrow>
     md5_counted (length m) (md5_bits ctx) \<and> md5_buf ctx = fold MD5Transform (blocks m) md5_start
     \<and> length (md5_in ctx) = 64 \<and> take (length m mod 64) (md5_in ctx) = remainder m"

lemma md5_init_rep: "length (md5_in ctx) = 64 \<Longrightarrow> md5_rep (MD5Init ctx) []"
  by (simp add: md5_rep_def MD5Init_def md5_counted_def remainder_def blocks_short)

lemma md5_used:
  assumes "md5_counted n (lo, hi)"
  shows "unat (drop_bit 3 lo AND 0x3f) = n mod 64"
proof -
  have "lo = word_of_nat (8 * n)" using assms by (simp add: md5_counted_def del: of_nat_mult)
  then have "unat lo = 8 * n mod (8 * 2 ^ 29)" by (simp only: unsigned_of_nat take_bit_eq_mod) simp
  then have lo: "unat lo = 8 * (n mod 2 ^ 29)" by (simp only: mod_mult_mult1)
  have "unat (drop_bit 3 lo AND 0x3f) = unat (drop_bit 3 lo) mod 64"
    by (simp add: unat_and_masks)
  also have "unat (drop_bit 3 lo) = unat lo div 8" by (simp only: unat_drop_bit) simp
  finally show ?thesis using lo by (simp add: mod_mod_cancel)
qed

lemma wrapped_sum:
  fixes a b N :: nat
  assumes "a < N" "b < N"
  shows "(a + b) mod N < a \<longleftrightarrow> N \<le> a + b" "(a + b) div N = (if N \<le> a + b then 1 else 0)"
proof -
  show "(a + b) mod N < a \<longleftrightarrow> N \<le> a + b"
    using assms by (cases "N \<le> a + b") (auto simp: le_mod_geq)
  show "(a + b) div N = (if N \<le> a + b then 1 else 0)"
    using assms by (cases "N \<le> a + b") (auto simp: le_div_geq)
qed

lemma md5_count_add:
  assumes "md5_counted n (lo, hi)" "k < 2 ^ 32"
  shows "md5_counted (n + k)
     (lo + push_bit 3 (word_of_nat k), (if lo + push_bit 3 (word_of_nat k) < lo then hi + 1 else hi) + drop_bit 29 (word_of_nat k))"
proof -
  let ?K = "push_bit 3 (word_of_nat k) :: uint32"
  have lo: "lo = word_of_nat (8 * n)" and hi: "hi = word_of_nat (8 * n div 2 ^ 32)"
    using assms(1) by (simp_all add: md5_counted_def del: of_nat_mult)
  have K: "?K = word_of_nat (8 * k)" by (simp add: push_bit_eq_mult)
  have sum: "lo + ?K = word_of_nat (8 * (n + k))" unfolding lo K by (simp add: algebra_simps)
  have u: "unat (word_of_nat m :: uint32) = m mod 2 ^ 32" for m by (simp add: unsigned_of_nat take_bit_eq_mod)
  have ulo: "unat lo = 8 * n mod 2 ^ 32" "unat ?K = 8 * k mod 2 ^ 32" "unat (lo + ?K) = (8 * n + 8 * k) mod 2 ^ 32"
    unfolding sum by (unfold lo K, simp_all only: u distrib_left)
  have high: "drop_bit 29 (word_of_nat k :: uint32) = word_of_nat (8 * k div 2 ^ 32)"
  proof -
    have "unat (drop_bit 29 (word_of_nat k :: uint32)) = k div 2 ^ 29"
      using assms(2) by (simp only: unat_drop_bit u) simp
    moreover have "8 * k div 2 ^ 32 = k div 2 ^ 29" by simp
    moreover have "drop_bit 29 (word_of_nat k :: uint32) = word_of_nat (unat (drop_bit 29 (word_of_nat k :: uint32)))" by simp
    ultimately show ?thesis by simp
  qed
  have less: "8 * n mod 2 ^ 32 < 2 ^ 32" "8 * k mod 2 ^ 32 < (2 ^ 32 :: nat)" by simp_all
  have carry: "lo + ?K < lo \<longleftrightarrow> 2 ^ 32 \<le> 8 * n mod 2 ^ 32 + 8 * k mod 2 ^ 32"
    unfolding word_less_nat_alt ulo mod_add_eq [symmetric, of "8 * n"] by (rule wrapped_sum [OF less])
  have "(8 * n + 8 * k) div 2 ^ 32 = 8 * n div 2 ^ 32 + 8 * k div 2 ^ 32 + (8 * n mod 2 ^ 32 + 8 * k mod 2 ^ 32) div 2 ^ 32"
    by (rule div_add1_eq)
  moreover have "(8 * n mod 2 ^ 32 + 8 * k mod 2 ^ 32) div 2 ^ 32 = (if lo + ?K < lo then 1 else 0)"
    unfolding carry by (rule wrapped_sum [OF less])
  ultimately have "word_of_nat ((8 * n + 8 * k) div 2 ^ 32)
      = (if lo + ?K < lo then hi + 1 else hi) + (drop_bit 29 (word_of_nat k) :: uint32)"
    unfolding high hi by (simp only: of_nat_add) simp
  then show ?thesis using sum by (simp add: md5_counted_def distrib_left)
qed
lemma md5_chunks_spec:
  "md5_bits (md5_chunks ctx x) = md5_bits ctx
   \<and> md5_buf (md5_chunks ctx x) = fold MD5Transform (blocks x) (md5_buf ctx)
   \<and> (length (md5_in ctx) = 64 \<longrightarrow> length (md5_in (md5_chunks ctx x)) = 64
        \<and> take (length x mod 64) (md5_in (md5_chunks ctx x)) = remainder x)"
proof (induction ctx x rule: md5_chunks.induct)
  case (1 ctx x)
  show ?case
  proof (cases "length x < 64")
    case True
    then show ?thesis by (simp add: md5_chunks.simps [of ctx x] blocks_short remainder_def)
  next
    case False
    have "remainder x = remainder (drop 64 x)" using False by (simp add: remainder_def le_mod_geq)
    then show ?thesis using 1 False
      by (simp add: md5_chunks.simps [of ctx x] blocks.simps [of x] le_mod_geq [of 64 "length x"])
  qed
qed

lemma md5_update_rep:
  assumes "md5_rep ctx m" "length x < 2 ^ 32"
  shows "md5_rep (MD5Update ctx x) (m @ x)"
proof -
  obtain lo hi where bits: "md5_bits ctx = (lo, hi)" by (cases "md5_bits ctx")
  have count: "md5_counted (length m) (lo, hi)" using assms(1) bits by (simp add: md5_rep_def)
  let ?u = "length m mod 64"
  note used = md5_used [OF count]
  define ctx1 where "ctx1 = ctx\<lparr>md5_bits := (lo + push_bit 3 (word_of_nat (length x)),
      (if lo + push_bit 3 (word_of_nat (length x)) < lo then hi + 1 else hi) + drop_bit 29 (word_of_nat (length x)))\<rparr>"
  have c1: "md5_counted (length (m @ x)) (md5_bits ctx1)" "md5_buf ctx1 = fold MD5Transform (blocks m) md5_start"
    "length (md5_in ctx1) = 64" "take ?u (md5_in ctx1) = remainder m"
    using md5_count_add [OF count assms(2)] assms(1) by (simp_all add: ctx1_def md5_rep_def)
  consider "?u = 0" | "?u \<noteq> 0" "length x < 64 - ?u" | "?u \<noteq> 0" "\<not> length x < 64 - ?u" by blast
  then show ?thesis
  proof cases
    case 1
    then have "MD5Update ctx x = md5_chunks ctx1 x" by (simp add: MD5Update_def bits used ctx1_def Let_def)
    moreover have "remainder m = []" using 1 by (metis length_remainder length_0_conv)
    moreover have "length (m @ x) mod 64 = length x mod 64" using 1 by (simp add: mod_add_left_eq [of "length m", symmetric])
    ultimately show ?thesis using c1 md5_chunks_spec [of ctx1 x]
      by (simp add: md5_rep_def blocks_append [of m x] remainder_append [of m x])
  next
    case 2
    then have "MD5Update ctx x = ctx1\<lparr>md5_in := take ?u (md5_in ctx) @ x @ drop (?u + length x) (md5_in ctx)\<rparr>"
      by (simp add: MD5Update_def bits used ctx1_def Let_def)
    moreover have "blocks (remainder m @ x) = []" "remainder (remainder m @ x) = remainder m @ x"
      using 2 by (simp_all add: blocks_short remainder_def [of "remainder m @ x"])
    moreover have "length (m @ x) mod 64 = ?u + length x" using 2 by (simp add: mod_add_left_eq [of "length m", symmetric])
    ultimately show ?thesis using c1 assms(1)
      by (simp add: md5_rep_def blocks_append [of m x] remainder_append [of m x] ctx1_def)
  next
    case 3
    let ?block = "remainder m @ take (64 - ?u) x" and ?rest = "drop (64 - ?u) x"
    let ?ctx2 = "ctx1\<lparr>md5_in := ?block, md5_buf := MD5Transform ?block (md5_buf ctx)\<rparr>"
    have up: "MD5Update ctx x = md5_chunks ?ctx2 ?rest"
      using 3 assms(1) by (simp add: MD5Update_def bits used ctx1_def Let_def md5_rep_def)
    have block: "length ?block = 64" using 3 by simp
    have split: "remainder m @ x = ?block @ ?rest" by simp
    have "remainder (remainder m @ x) = remainder ?rest" unfolding split
      using block by (subst remainder_append) (simp add: remainder_def)
    then have "blocks (m @ x) = blocks m @ ?block # blocks ?rest" "remainder (m @ x) = remainder ?rest"
      using blocks_block [OF block, of ?rest] unfolding blocks_append [of m x] remainder_append [of m x] split by simp_all
    moreover have "length (m @ x) mod 64 = length ?rest mod 64"
      by (metis calculation(2) length_remainder)
    ultimately show ?thesis using c1 assms(1) block md5_chunks_spec [of ?ctx2 ?rest] unfolding up
      by (simp add: md5_rep_def ctx1_def)
  qed
qed


subsection \<open>The last block\<close>

lemma putu32_bytes:
  "putu32 (word_of_nat n) = map (\<lambda>i. word_of_nat (n div 256 ^ i)) [0..<4]"
proof -
  have "ucast (drop_bit (8 * i) (word_of_nat n :: uint32)) = (word_of_nat (n div 256 ^ i) :: byte)" if "i < 4" for i
  proof (rule bit_word_eqI)
    fix k assume "k < LENGTH(8)"
    moreover have "n div 256 ^ i = drop_bit (8 * i) n" by (simp add: drop_bit_eq_div power_mult)
    ultimately show "bit (ucast (drop_bit (8 * i) (word_of_nat n :: uint32)) :: byte) k = bit (word_of_nat (n div 256 ^ i) :: byte) k"
      using that by (simp add: bit_simps)
  qed
  from this [of 0] this [of 1] this [of 2] this [of 3] show ?thesis by (simp add: putu32_def upt_rec)
qed

lemma putu32_rfc: "putu32 w = rfc_octets w"
  using putu32_bytes [of "unat w"] by (simp add: rfc_octets_def)

lemma length_octets64:
  "md5_counted n (lo, hi) \<Longrightarrow> putu32 lo @ putu32 hi = map (\<lambda>i. word_of_nat (8 * n div 256 ^ i)) [0..<8]"
proof -
  assume "md5_counted n (lo, hi)"
  then have l: "lo = word_of_nat (8 * n)" "hi = word_of_nat (8 * n div 256 ^ 4)"
    by (simp_all add: md5_counted_def del: of_nat_mult)
  have u: "[0..<8] = [0..<4] @ map (\<lambda>i. 4 + i) [0..<4]" by (simp add: upt_rec)
  show ?thesis unfolding l putu32_bytes u by (simp add: comp_def power_add div_mult2_eq del: of_nat_mult)
qed

lemma md5_final_rep:
  assumes "md5_rep ctx m"
  shows "MD5Final ctx = md5_reference m"
proof -
  obtain lo hi where bits: "md5_bits ctx = (lo, hi)" by (cases "md5_bits ctx")
  have count: "md5_counted (length m) (lo, hi)" using assms bits by (simp add: md5_rep_def)
  let ?u = "length m mod 64"
  let ?head = "remainder m @ [0x80]" and ?lengths = "putu32 lo @ putu32 hi"
  have len: "length ?lengths = 8" by (simp add: putu32_def)
  have pad: "md5_pad m = m @ [0x80] @ replicate ((119 - ?u) mod 64) 0 @ ?lengths"
    by (simp only: md5_pad_def length_octets64 [OF count])
  have folded: "fold MD5Transform (blocks (md5_pad m)) md5_start
      = fold MD5Transform (blocks (?head @ replicate ((119 - ?u) mod 64) 0 @ ?lengths)) (md5_buf ctx)"
    unfolding pad blocks_append [of m] using assms by (simp add: md5_rep_def)
  have u64: "?u < 64" by simp
  have in_head: "take ?u (md5_in ctx) = remainder m" using assms by (simp add: md5_rep_def)
  have "fold MD5Transform (blocks (md5_pad m)) md5_start =
     (if 64 - 1 - ?u < 8
      then MD5Transform (replicate 56 0 @ ?lengths) (MD5Transform (?head @ replicate (64 - 1 - ?u) 0) (md5_buf ctx))
      else MD5Transform (?head @ replicate (64 - 1 - ?u - 8) 0 @ ?lengths) (md5_buf ctx))"
  proof (cases "64 - 1 - ?u < 8")
    case True
    then have "(119 - ?u) mod 64 = (64 - 1 - ?u) + 56" using u64 by simp
    then have split: "?head @ replicate ((119 - ?u) mod 64) 0 @ ?lengths
        = (?head @ replicate (64 - 1 - ?u) 0) @ (replicate 56 0 @ ?lengths) @ []"
      by (simp only: replicate_add append_assoc append_Nil2)
    have "length (?head @ replicate (64 - 1 - ?u) 0) = 64" "length (replicate 56 0 @ ?lengths) = 64" using u64 len by simp_all
    then show ?thesis unfolding folded split using True by (simp only: blocks_block) (simp add: blocks_short)
  next
    case False
    then have "(119 - ?u) mod 64 = 64 - 1 - ?u - 8" using u64 by (simp add: le_mod_geq)
    moreover have "length (?head @ replicate (64 - 1 - ?u - 8) 0 @ ?lengths) = 64" using False len by simp
    then have "blocks (?head @ replicate (64 - 1 - ?u - 8) 0 @ ?lengths) = [?head @ replicate (64 - 1 - ?u - 8) 0 @ ?lengths]"
      using blocks_block [of "?head @ replicate (64 - 1 - ?u - 8) 0 @ ?lengths" "[]"] by (simp add: blocks_short)
    ultimately show ?thesis unfolding folded using False by simp
  qed
  then have "md5_reference m = (let (a, b, c, d) =
     (if 64 - 1 - ?u < 8
      then MD5Transform (replicate 56 0 @ ?lengths) (MD5Transform (?head @ replicate (64 - 1 - ?u) 0) (md5_buf ctx))
      else MD5Transform (?head @ replicate (64 - 1 - ?u - 8) 0 @ ?lengths) (md5_buf ctx))
      in concat (map rfc_octets [a, b, c, d]))"
    by (simp only: md5_reference_def blocks_rfc [symmetric] start_rfc [symmetric])
  then show ?thesis
    by (simp add: MD5Final_def bits md5_used [OF count] in_head Let_def putu32_rfc split: prod.splits)
qed

text \<open>
  Claim C40. The digest of a message given to the context in any pieces, each of less than 2^32 octets, is the
  one RFC 1321 defines of the whole message, with the functions, words, shifts and constants of the RFC; in particular \<^verbatim>\<open>CalculateMD5\<close> writes its hexadecimal digits.
\<close>

theorem md5_digest:
  assumes "length (md5_in junk) = 64" "\<forall>x \<in> set xs. length x < 2 ^ 32" "length buffer < 2 ^ 31"
  shows "MD5Final (fold (\<lambda>x ctx. MD5Update ctx x) xs (MD5Init junk)) = md5_reference (concat xs)
    \<and> CalculateMD5 junk buffer = concat (map hex_upper (md5_reference buffer))"
proof
  have "md5_rep (fold (\<lambda>x ctx. MD5Update ctx x) xs ctx) (m @ concat xs)" if "md5_rep ctx m" for ctx m
    using assms(2) that
  proof (induction xs arbitrary: ctx m)
    case (Cons x xs)
    then show ?case using md5_update_rep [OF Cons.prems(2), of x] Cons.IH [of "MD5Update ctx x" "m @ x"] by simp
  qed simp
  from this [OF md5_init_rep [OF assms(1)]]
  show "MD5Final (fold (\<lambda>x ctx. MD5Update ctx x) xs (MD5Init junk)) = md5_reference (concat xs)"
    by (simp add: md5_final_rep)
  show "CalculateMD5 junk buffer = concat (map hex_upper (md5_reference buffer))"
    using md5_final_rep [OF md5_update_rep [OF md5_init_rep [OF assms(1)]], of buffer] assms(3) by (simp add: CalculateMD5_def)
qed

theorem md5_digest_witness:
  "MD5Final (MD5Update (MD5Update (MD5Init md5_garbage) [0x61]) [0x62, 0x63]) = md5_reference [0x61, 0x62, 0x63]"
  using md5_digest [of md5_garbage "[[0x61], [0x62, 0x63]]" "[]"] by (simp add: md5_garbage_def)

end
