(* ===== verification/SmsdCache.thy ===== *)
theory SmsdCache imports MultiSms Md5 "HOL-Library.Multiset" begin

text \<open>
  The cache of processed messages of \<^verbatim>\<open>smsd/core.c\<close>: messages handed over by a callback are remembered
  by a digest, so that their stored copies are only deleted. The part of \<^verbatim>\<open>GSM_SMSDConfig\<close> used is a
  record; the arrays of digests and of poll numbers are one list of pairs, as long as
  \<^verbatim>\<open>ProcessedSMSUsed\<close>.
\<close>

definition SMSD_PROCESSED_SMS_CACHE_SIZE :: nat where "SMSD_PROCESSED_SMS_CACHE_SIZE = 100"
definition SMSD_PROCESSED_SMS_POLL_CYCLES :: "64 word" where "SMSD_PROCESSED_SMS_POLL_CYCLES = 2"

record smsd_cache =
  ProcessedSMS :: "(string \<times> 64 word) list"
  ReceivePollCount :: "64 word"
  ReceivePollInProgress :: bool

subsection \<open>Fingerprints\<close>

text \<open>The octets of a fingerprint; \<open>None\<close>: they do not fit the array of \<open>fingerprint_size\<close> octets.\<close>

definition fingerprint_size :: nat where
  "fingerprint_size = (200 + 1) * 2 + GSM_MAX_UDH_LENGTH + (GSM_MAX_SMS_LENGTH + 1) * 2 + 256"

definition SMSD_FingerprintAppend :: "byte list option \<Rightarrow> byte list \<Rightarrow> byte list option" where
  "SMSD_FingerprintAppend fingerprint data =
     (case fingerprint of None \<Rightarrow> None
      | Some f \<Rightarrow> if length data > fingerprint_size - length f then None else Some (f @ data))"

definition SMSD_FingerprintAppendUInt32 :: "byte list option \<Rightarrow> uint32 \<Rightarrow> byte list option" where
  "SMSD_FingerprintAppendUInt32 fingerprint v =
     SMSD_FingerprintAppend fingerprint
       [ucast (drop_bit 24 v AND 0xff), ucast (drop_bit 16 v AND 0xff), ucast (drop_bit 8 v AND 0xff), ucast (v AND 0xff)]"

definition SMSD_FingerprintAppendBytes :: "byte list option \<Rightarrow> byte list \<Rightarrow> byte list option" where
  "SMSD_FingerprintAppendBytes fingerprint data =
     SMSD_FingerprintAppend (SMSD_FingerprintAppendUInt32 fingerprint (word_of_nat (length data))) data"

function unicode_bytes :: "byte list \<Rightarrow> nat \<Rightarrow> nat" where
  "unicode_bytes txt pos =
     (if pos + 1 < length txt then if txt ! pos = 0 \<and> txt ! (pos + 1) = 0 then pos else unicode_bytes txt (pos + 2)
      else length txt)"
  by pat_completeness auto
termination
  by (relation "measure (\<lambda>(txt, pos). length txt - pos)") auto

declare unicode_bytes.simps [simp del]

definition SMSD_UnicodeBytes :: "byte list \<Rightarrow> nat" where
  "SMSD_UnicodeBytes txt = unicode_bytes txt 0"

definition SMSD_FingerprintAppendDateTime :: "byte list option \<Rightarrow> GSM_DateTime \<Rightarrow> byte list option" where
  "SMSD_FingerprintAppendDateTime fingerprint date =
     foldl SMSD_FingerprintAppendUInt32 fingerprint
       (map word_of_int [Timezone date, Second date, Minute date, Hour date, Day date, Month date, Year date])"

definition pdu_number_of :: "GSM_SMSMessageType \<Rightarrow> uint32" where
  "pdu_number_of t = (case t of SMS_Deliver \<Rightarrow> 1 | SMS_Status_Report \<Rightarrow> 2 | SMS_Submit \<Rightarrow> 3)"

definition coding_number :: "GSM_Coding_Type \<Rightarrow> uint32" where
  "coding_number c =
     (case c of SMS_Coding_Unicode_No_Compression \<Rightarrow> 1 | SMS_Coding_Unicode_Compression \<Rightarrow> 2
      | SMS_Coding_Default_No_Compression \<Rightarrow> 3 | SMS_Coding_Default_Compression \<Rightarrow> 4 | SMS_Coding_8bit \<Rightarrow> 5)"

text \<open>The sender as octets: numbers are kept without their terminators.\<close>

definition number_octets :: "GSM_SMSMessage \<Rightarrow> byte list" where
  "number_octets sms = bytes_of_units (cstr (SMS_Number sms))"

text \<open>The octets \<^verbatim>\<open>SMSD_ComputeSMSChecksum\<close> digests.\<close>

definition sms_fingerprint :: "GSM_SMSMessage \<Rightarrow> byte list option" where
  "sms_fingerprint sms =
     (let len = (if Coding sms = SMS_Coding_8bit then nat (SMS_Length sms) else SMSD_UnicodeBytes (SMS_Text sms)) in
      if UDH_Length (UDH sms) < 0 \<or> UDH_Length (UDH sms) > int GSM_MAX_UDH_LENGTH then None
      else if Coding sms = SMS_Coding_8bit \<and> (SMS_Length sms < 0 \<or> SMS_Length sms > int (length (SMS_Text sms))) then None
      else
        let f1 = foldl SMSD_FingerprintAppendUInt32 (Some [])
               [pdu_number_of (PDU sms), coding_number (Coding sms), ucast (ReplaceMessage sms), ucast (MessageReference sms),
                ucast (DeliveryStatus sms)];
            f2 = SMSD_FingerprintAppendDateTime f1 (DateTime sms);
            f3 = SMSD_FingerprintAppendBytes f2 (number_octets sms);
            f4 = SMSD_FingerprintAppendBytes f3 (take (nat (UDH_Length (UDH sms))) (UDH_Text (UDH sms)));
            f5 = SMSD_FingerprintAppendBytes f4 (take len (SMS_Text sms))
        in if PDU sms = SMS_Status_Report then SMSD_FingerprintAppendDateTime f5 (SMSCTime sms) else f5)"

definition SMSD_ComputeSMSChecksum :: "GSM_SMSMessage \<Rightarrow> string option" where
  "SMSD_ComputeSMSChecksum sms = map_option (CalculateMD5 md5_garbage) (sms_fingerprint sms)"

definition SMSD_SMSHasStableIdentity :: "GSM_SMSMessage \<Rightarrow> bool" where
  "SMSD_SMSHasStableIdentity sms \<longleftrightarrow> 0 < length (number_octets sms) \<and> Year (DateTime sms) \<noteq> 0"

subsection \<open>The cache\<close>

definition SMSD_CurrentReceivePoll :: "smsd_cache \<Rightarrow> 64 word" where
  "SMSD_CurrentReceivePoll c = ReceivePollCount c + (if ReceivePollInProgress c then 1 else 0)"

definition SMSD_PruneProcessedSMS :: "smsd_cache \<Rightarrow> smsd_cache" where
  "SMSD_PruneProcessedSMS c =
     (let current_poll = SMSD_CurrentReceivePoll c in
      c\<lparr>ProcessedSMS := filter (\<lambda>(_, poll). \<not> (poll \<le> current_poll \<and> current_poll - poll > SMSD_PROCESSED_SMS_POLL_CYCLES))
                          (ProcessedSMS c)\<rparr>)"

definition SMSD_CacheProcessedSMS :: "smsd_cache \<Rightarrow> GSM_SMSMessage \<Rightarrow> bool \<times> smsd_cache" where
  "SMSD_CacheProcessedSMS c sms =
     (if \<not> SMSD_SMSHasStableIdentity sms then (False, c)
      else case SMSD_ComputeSMSChecksum sms of None \<Rightarrow> (False, c)
      | Some checksum \<Rightarrow>
          let c1 = SMSD_PruneProcessedSMS c; es = ProcessedSMS c1;
              kept = (if length es = SMSD_PROCESSED_SMS_CACHE_SIZE then tl es else es)
          in (True, c1\<lparr>ProcessedSMS := kept @ [(checksum, SMSD_CurrentReceivePoll c1)]\<rparr>))"

text \<open>The first entry of a digest that is not reserved.\<close>

definition SMSD_FindProcessedSMS :: "smsd_cache \<Rightarrow> string \<Rightarrow> bool list option \<Rightarrow> nat option" where
  "SMSD_FindProcessedSMS c checksum reserved =
     find (\<lambda>i. (case reserved of None \<Rightarrow> True | Some r \<Rightarrow> \<not> r ! i) \<and> fst (ProcessedSMS c ! i) = checksum)
       [0..<length (ProcessedSMS c)]"

text \<open>The digest of a message that has a stable identity.\<close>

definition identity :: "GSM_SMSMessage \<Rightarrow> string option" where
  "identity sms = (if SMSD_SMSHasStableIdentity sms then SMSD_ComputeSMSChecksum sms else None)"

fun mark_messages :: "smsd_cache \<Rightarrow> GSM_SMSMessage list \<Rightarrow> bool list \<Rightarrow> bool list \<times> bool list" where
  "mark_messages c [] reserved = ([], reserved)"
| "mark_messages c (sms # rest) reserved =
     (case (case identity sms of None \<Rightarrow> None | Some checksum \<Rightarrow> SMSD_FindProcessedSMS c checksum (Some reserved)) of
        None \<Rightarrow> (let (ps, r) = mark_messages c rest reserved in (False # ps, r))
      | Some position \<Rightarrow> (let (ps, r) = mark_messages c rest (reserved[position := True]) in (True # ps, r)))"

text \<open>The flags of the messages, and the cache in which the entries matched have the current poll.\<close>

definition SMSD_MarkProcessedSMS :: "smsd_cache \<Rightarrow> GSM_MultiSMSMessage \<Rightarrow> nat \<times> bool list \<times> smsd_cache" where
  "SMSD_MarkProcessedSMS c0 sms =
     (let c = SMSD_PruneProcessedSMS c0 in
      if Multi_Number sms < 1 \<or> Multi_Number sms > GSM_MAX_MULTI_SMS then (0, replicate GSM_MAX_MULTI_SMS False, c)
      else
        let (ps, reserved) = mark_messages c (take (Multi_Number sms) (Multi_SMS sms))
                               (replicate SMSD_PROCESSED_SMS_CACHE_SIZE False);
            now = SMSD_CurrentReceivePoll c
        in (length (filter id ps), ps @ replicate (GSM_MAX_MULTI_SMS - length ps) False,
            c\<lparr>ProcessedSMS := map (\<lambda>((checksum, poll), r). (checksum, if r then now else poll)) (zip (ProcessedSMS c) reserved)\<rparr>))"

definition SMSD_AllSMSProcessed :: "smsd_cache \<Rightarrow> GSM_MultiSMSMessage \<Rightarrow> bool \<times> smsd_cache" where
  "SMSD_AllSMSProcessed c sms =
     (if Multi_Number sms < 1 \<or> Multi_Number sms > GSM_MAX_MULTI_SMS then (False, c)
      else let (n, _, c') = SMSD_MarkProcessedSMS c sms in (n = Multi_Number sms, c'))"

definition SMSD_ConsumeProcessedSMS :: "smsd_cache \<Rightarrow> GSM_SMSMessage \<Rightarrow> smsd_cache" where
  "SMSD_ConsumeProcessedSMS c0 sms =
     (let c = SMSD_PruneProcessedSMS c0 in
      case identity sms of None \<Rightarrow> c
      | Some checksum \<Rightarrow>
          (case SMSD_FindProcessedSMS c checksum None of None \<Rightarrow> c
           | Some i \<Rightarrow> c\<lparr>ProcessedSMS := take i (ProcessedSMS c) @ drop (i + 1) (ProcessedSMS c)\<rparr>))"


subsection \<open>Fingerprints tell messages apart\<close>

definition be32 :: "uint32 \<Rightarrow> byte list" where
  "be32 v = [ucast (drop_bit 24 v AND 0xff), ucast (drop_bit 16 v AND 0xff), ucast (drop_bit 8 v AND 0xff), ucast (v AND 0xff)]"

lemma length_be32 [simp]: "length (be32 v) = 4"
  by (simp add: be32_def)

lemma be32_inj: "be32 v = be32 w \<longleftrightarrow> v = w"
proof
  assume eq: "be32 v = be32 w"
  have byte: "bit (ucast (drop_bit n u AND 0xff) :: byte) k \<longleftrightarrow> k < 8 \<and> bit u (n + k)" for u :: uint32 and n k
  proof -
    have "bit (0xff :: uint32) k \<longleftrightarrow> k < 8" for k by (simp add: and_mask_numeral(8) [symmetric] bit_mask_iff) arith
    then show ?thesis by (auto simp: bit_simps)
  qed
  show "v = w"
  proof (rule bit_word_eqI)
    fix k assume "k < LENGTH(32)"
    then have "k < 8 \<or> (8 \<le> k \<and> k < 16) \<or> (16 \<le> k \<and> k < 24) \<or> (24 \<le> k \<and> k < 32)" by auto
    moreover have "bit (ucast (drop_bit n v AND 0xff) :: byte) (k - n) = bit (ucast (drop_bit n w AND 0xff) :: byte) (k - n)"
      if "n \<in> {0, 8, 16, 24}" for n
      using eq that by (auto simp: be32_def)
    ultimately show "bit v k = bit w k" unfolding byte by fastforce
  qed
qed simp

lemma concat_be32_inj: "concat (map be32 vs) = concat (map be32 ws) \<Longrightarrow> length vs = length ws \<Longrightarrow> vs = ws"
proof (induction vs arbitrary: ws)
  case (Cons v vs)
  then obtain w ws' where "ws = w # ws'" by (cases ws) auto
  then show ?case using Cons by (auto simp: be32_inj)
qed simp

lemma length_be32s: "length (concat (map be32 vs)) = 4 * length vs"
  by (induction vs) simp_all

lemma append_uint32: "SMSD_FingerprintAppendUInt32 f v = SMSD_FingerprintAppend f (be32 v)"
  by (simp add: SMSD_FingerprintAppendUInt32_def be32_def)

lemma append_some:
  "SMSD_FingerprintAppend f d = Some g \<longleftrightarrow> (\<exists>f0. f = Some f0 \<and> g = f0 @ d \<and> length d \<le> fingerprint_size - length f0)"
  by (auto simp: SMSD_FingerprintAppend_def split: option.splits if_splits)

lemma append_words_some:
  "foldl SMSD_FingerprintAppendUInt32 f vs = Some g \<Longrightarrow> \<exists>f0. f = Some f0 \<and> g = f0 @ concat (map be32 vs)"
proof (induction vs arbitrary: f)
  case (Cons v vs)
  then obtain f1 where "SMSD_FingerprintAppendUInt32 f v = Some f1" "g = f1 @ concat (map be32 vs)" by auto
  then show ?case by (auto simp: append_uint32 append_some)
qed simp

lemma append_bytes_some:
  "SMSD_FingerprintAppendBytes f d = Some g \<Longrightarrow>
   \<exists>f0. f = Some f0 \<and> g = f0 @ be32 (word_of_nat (length d)) @ d \<and> length d < 2 ^ 32"
  by (auto simp: SMSD_FingerprintAppendBytes_def append_uint32 append_some fingerprint_size_def sms_limits)

text \<open>What of a message its fingerprint depends on. The numbers of dates count as 32-bit values.\<close>

definition date_words :: "GSM_DateTime \<Rightarrow> uint32 list" where
  "date_words d = map word_of_int [Timezone d, Second d, Minute d, Hour d, Day d, Month d, Year d]"

definition text_octets :: "GSM_SMSMessage \<Rightarrow> byte list" where
  "text_octets sms =
     take (if Coding sms = SMS_Coding_8bit then nat (SMS_Length sms) else SMSD_UnicodeBytes (SMS_Text sms)) (SMS_Text sms)"

definition udh_octets :: "GSM_SMSMessage \<Rightarrow> byte list" where
  "udh_octets sms = take (nat (UDH_Length (UDH sms))) (UDH_Text (UDH sms))"

definition same_canonical :: "GSM_SMSMessage \<Rightarrow> GSM_SMSMessage \<Rightarrow> bool" where
  "same_canonical a b \<longleftrightarrow>
     PDU a = PDU b \<and> Coding a = Coding b \<and> ReplaceMessage a = ReplaceMessage b \<and> MessageReference a = MessageReference b
     \<and> DeliveryStatus a = DeliveryStatus b \<and> date_words (DateTime a) = date_words (DateTime b)
     \<and> number_octets a = number_octets b \<and> udh_octets a = udh_octets b \<and> text_octets a = text_octets b
     \<and> (PDU a = SMS_Status_Report \<longrightarrow> date_words (SMSCTime a) = date_words (SMSCTime b))"

definition fixed_words :: "GSM_SMSMessage \<Rightarrow> uint32 list" where
  "fixed_words sms = [pdu_number_of (PDU sms), coding_number (Coding sms), ucast (ReplaceMessage sms), ucast (MessageReference sms),
     ucast (DeliveryStatus sms)] @ date_words (DateTime sms)"

lemma fingerprint_octets:
  assumes "sms_fingerprint sms = Some bs"
  shows "bs = concat (map be32 (fixed_words sms))
     @ be32 (word_of_nat (length (number_octets sms))) @ number_octets sms
     @ be32 (word_of_nat (length (udh_octets sms))) @ udh_octets sms
     @ be32 (word_of_nat (length (text_octets sms))) @ text_octets sms
     @ (if PDU sms = SMS_Status_Report then concat (map be32 (date_words (SMSCTime sms))) else [])"
    and "length (number_octets sms) < 2 ^ 32" "length (udh_octets sms) < 2 ^ 32" "length (text_octets sms) < 2 ^ 32"
proof -
  define f1 where "f1 = foldl SMSD_FingerprintAppendUInt32 (Some [])
     [pdu_number_of (PDU sms), coding_number (Coding sms), ucast (ReplaceMessage sms), ucast (MessageReference sms), ucast (DeliveryStatus sms)]"
  define f2 where "f2 = foldl SMSD_FingerprintAppendUInt32 f1 (date_words (DateTime sms))"
  define f3 where "f3 = SMSD_FingerprintAppendBytes f2 (number_octets sms)"
  define f4 where "f4 = SMSD_FingerprintAppendBytes f3 (udh_octets sms)"
  define f5 where "f5 = SMSD_FingerprintAppendBytes f4 (text_octets sms)"
  have all: "Some bs = (if PDU sms = SMS_Status_Report then foldl SMSD_FingerprintAppendUInt32 f5 (date_words (SMSCTime sms)) else f5)"
    using assms unfolding sms_fingerprint_def Let_def SMSD_FingerprintAppendDateTime_def date_words_def [symmetric]
      udh_octets_def [symmetric] text_octets_def [symmetric] f1_def [symmetric] f2_def [symmetric] f3_def [symmetric]
      f4_def [symmetric] f5_def [symmetric]
    by (simp split: if_splits)
  obtain b5 where b5: "f5 = Some b5"
    "bs = b5 @ (if PDU sms = SMS_Status_Report then concat (map be32 (date_words (SMSCTime sms))) else [])"
    using all append_words_some [of f5 "date_words (SMSCTime sms)" bs] by (auto split: if_splits)
  obtain b4 where b4: "f4 = Some b4" "b5 = b4 @ be32 (word_of_nat (length (text_octets sms))) @ text_octets sms"
    "length (text_octets sms) < 2 ^ 32" using append_bytes_some b5(1) unfolding f5_def by blast
  obtain b3 where b3: "f3 = Some b3" "b4 = b3 @ be32 (word_of_nat (length (udh_octets sms))) @ udh_octets sms"
    "length (udh_octets sms) < 2 ^ 32" using append_bytes_some b4(1) unfolding f4_def by blast
  obtain b2 where b2: "f2 = Some b2" "b3 = b2 @ be32 (word_of_nat (length (number_octets sms))) @ number_octets sms"
    "length (number_octets sms) < 2 ^ 32" using append_bytes_some b3(1) unfolding f3_def by blast
  obtain b1 where b1: "f1 = Some b1" "b2 = b1 @ concat (map be32 (date_words (DateTime sms)))"
    using append_words_some b2(1) unfolding f2_def by blast
  have "b1 @ concat (map be32 (date_words (DateTime sms))) = concat (map be32 (fixed_words sms))"
    using append_words_some [OF b1(1) [unfolded f1_def]] by (auto simp: fixed_words_def)
  then show "bs = concat (map be32 (fixed_words sms))
     @ be32 (word_of_nat (length (number_octets sms))) @ number_octets sms
     @ be32 (word_of_nat (length (udh_octets sms))) @ udh_octets sms
     @ be32 (word_of_nat (length (text_octets sms))) @ text_octets sms
     @ (if PDU sms = SMS_Status_Report then concat (map be32 (date_words (SMSCTime sms))) else [])"
    unfolding b5(2) b4(2) b3(2) b2(2) b1(2) by simp
  show "length (number_octets sms) < 2 ^ 32" "length (udh_octets sms) < 2 ^ 32" "length (text_octets sms) < 2 ^ 32"
    by (fact b2(3) b3(3) b4(3))+
qed

lemma prefixed_inj:
  assumes "be32 (word_of_nat (length xs)) @ xs @ as = be32 (word_of_nat (length ys)) @ ys @ bs"
    "length xs < 2 ^ 32" "length ys < 2 ^ 32"
  shows "xs = ys \<and> as = bs"
proof -
  have w: "word_of_nat (length xs) = (word_of_nat (length ys) :: uint32)" and r: "xs @ as = ys @ bs"
    using assms(1) by (simp_all add: be32_inj)
  have "unat (word_of_nat n :: uint32) = n" if "n < 2 ^ 32" for n using that by (simp add: unat_of_nat)
  from this [OF assms(2)] this [OF assms(3)] w have "length xs = length ys" by metis
  with r show ?thesis by simp
qed

text \<open>
  Two messages have the same fingerprint exactly when they agree in type, coding, the three
  octets, time, sender, header and text, and, as reports, in the time of the center.
\<close>

theorem fingerprint_canonical:
  assumes "sms_fingerprint a \<noteq> None" "sms_fingerprint b \<noteq> None"
  shows "sms_fingerprint a = sms_fingerprint b \<longleftrightarrow> same_canonical a b"
proof -
  obtain x y where x: "sms_fingerprint a = Some x" and y: "sms_fingerprint b = Some y" using assms by blast
  note X = fingerprint_octets [OF x] and Y = fingerprint_octets [OF y]
  have fixed: "fixed_words a = fixed_words b \<longleftrightarrow> PDU a = PDU b \<and> Coding a = Coding b \<and> ReplaceMessage a = ReplaceMessage b
      \<and> MessageReference a = MessageReference b \<and> DeliveryStatus a = DeliveryStatus b \<and> date_words (DateTime a) = date_words (DateTime b)"
  proof -
    have "pdu_number_of s = pdu_number_of t \<longleftrightarrow> s = t" for s t by (cases s; cases t) (simp_all add: pdu_number_of_def)
    moreover have "coding_number s = coding_number t \<longleftrightarrow> s = t" for s t by (cases s; cases t) (simp_all add: coding_number_def)
    moreover have "(ucast u :: uint32) = ucast v \<longleftrightarrow> u = v" for u v :: byte
      by (metis ucast_byte_twice(1))
    ultimately show ?thesis by (simp add: fixed_words_def)
  qed
  show ?thesis
  proof
    assume "same_canonical a b"
    then have "x = y" unfolding X(1) Y(1) using fixed by (simp add: same_canonical_def)
    then show "sms_fingerprint a = sms_fingerprint b" by (simp add: x y)
  next
    assume "sms_fingerprint a = sms_fingerprint b"
    then have eq: "x = y" by (simp add: x y)
    have l: "length (fixed_words a) = length (fixed_words b)" by (simp add: fixed_words_def date_words_def)
    then have "length (concat (map be32 (fixed_words a))) = length (concat (map be32 (fixed_words b)))"
      by (simp only: length_be32s)
    note split = append_eq_append_conv [OF disjI1, OF this]
    from eq [unfolded X(1) Y(1) split] have fw: "concat (map be32 (fixed_words a)) = concat (map be32 (fixed_words b))"
      and r1: "be32 (word_of_nat (length (number_octets a))) @ number_octets a
        @ be32 (word_of_nat (length (udh_octets a))) @ udh_octets a
        @ be32 (word_of_nat (length (text_octets a))) @ text_octets a
        @ (if PDU a = SMS_Status_Report then concat (map be32 (date_words (SMSCTime a))) else [])
      = be32 (word_of_nat (length (number_octets b))) @ number_octets b
        @ be32 (word_of_nat (length (udh_octets b))) @ udh_octets b
        @ be32 (word_of_nat (length (text_octets b))) @ text_octets b
        @ (if PDU b = SMS_Status_Report then concat (map be32 (date_words (SMSCTime b))) else [])"
      by simp_all
    have f: "fixed_words a = fixed_words b" by (rule concat_be32_inj [OF fw l])
    note r2 = prefixed_inj [OF r1 X(2) Y(2)]
    note r3 = prefixed_inj [OF conjunct2 [OF r2] X(3) Y(3)]
    note r4 = prefixed_inj [OF conjunct2 [OF r3] X(4) Y(4)]
    have "PDU a = SMS_Status_Report \<longrightarrow> date_words (SMSCTime a) = date_words (SMSCTime b)"
      using r4 f fixed concat_be32_inj [of "date_words (SMSCTime a)" "date_words (SMSCTime b)"] by (auto simp: date_words_def)
    then show "same_canonical a b" using f fixed r2 r3 r4 by (simp add: same_canonical_def)
  qed
qed


subsection \<open>Every entry of the cache accounts for one message\<close>

definition free_entries :: "smsd_cache \<Rightarrow> bool list \<Rightarrow> string \<Rightarrow> nat set" where
  "free_entries c reserved d = {i. i < length (ProcessedSMS c) \<and> \<not> reserved ! i \<and> fst (ProcessedSMS c ! i) = d}"

lemma finite_free [simp]: "finite (free_entries c reserved d)"
  by (simp add: free_entries_def)

lemma find_processed_some:
  "SMSD_FindProcessedSMS c d (Some reserved) = Some i \<Longrightarrow> i \<in> free_entries c reserved d"
  by (auto simp: SMSD_FindProcessedSMS_def free_entries_def find_Some_iff)

lemma find_processed_none:
  "SMSD_FindProcessedSMS c d (Some reserved) = None \<Longrightarrow> free_entries c reserved d = {}"
  by (auto simp: SMSD_FindProcessedSMS_def free_entries_def find_None_iff)

lemma free_reserve:
  assumes "i \<in> free_entries c reserved d" "length (ProcessedSMS c) \<le> length reserved"
  shows "free_entries c (reserved[i := True]) e = (if e = d then free_entries c reserved d - {i} else free_entries c reserved e)"
  using assms by (auto simp: free_entries_def nth_list_update)

definition flagged :: "GSM_SMSMessage list \<Rightarrow> bool list \<Rightarrow> GSM_SMSMessage list" where
  "flagged msgs flags = map fst (filter snd (zip msgs flags))"

definition with_identity :: "string \<Rightarrow> GSM_SMSMessage list \<Rightarrow> nat" where
  "with_identity d msgs = length (filter (\<lambda>sms. identity sms = Some d) msgs)"

lemma flagged_simps [simp]:
  "flagged [] flags = []" "flagged (sms # msgs) (f # flags) = (if f then sms # flagged msgs flags else flagged msgs flags)"
  by (simp_all add: flagged_def)

lemma with_identity_simps [simp]:
  "with_identity d [] = 0" "with_identity d (sms # msgs) = of_bool (identity sms = Some d) + with_identity d msgs"
  by (simp_all add: with_identity_def)

lemma mark_messages_cases:
  assumes "mark_messages c (sms # rest) reserved = (flags, r)" "length (ProcessedSMS c) \<le> length reserved"
  obtains (unmarked) fs where "flags = False # fs" "mark_messages c rest reserved = (fs, r)"
      "\<And>d. identity sms = Some d \<Longrightarrow> card (free_entries c reserved d) = 0"
  | (marked) fs e i where "flags = True # fs" "mark_messages c rest (reserved[i := True]) = (fs, r)" "identity sms = Some e"
      "\<And>d. card (free_entries c reserved d) = of_bool (d = e) + card (free_entries c (reserved[i := True]) d)"
proof (cases "case identity sms of None \<Rightarrow> None | Some checksum \<Rightarrow> SMSD_FindProcessedSMS c checksum (Some reserved)")
  case None
  obtain fs where fs: "flags = False # fs" "mark_messages c rest reserved = (fs, r)"
    using assms(1) None by (auto split: prod.splits)
  show ?thesis by (rule that(1) [OF fs]) (use None in \<open>simp add: find_processed_none\<close>)
next
  case (Some i)
  then obtain e where e: "identity sms = Some e" "SMSD_FindProcessedSMS c e (Some reserved) = Some i"
    by (auto split: option.splits)
  have i: "i \<in> free_entries c reserved e" by (rule find_processed_some [OF e(2)])
  have "card (free_entries c reserved d) = of_bool (d = e) + card (free_entries c (reserved[i := True]) d)" for d
    using card_Suc_Diff1 [OF finite_free i] unfolding free_reserve [OF i assms(2)] by simp
  then show ?thesis using assms(1) Some that(2) e(1) by (auto split: prod.splits)
qed

lemma mark_messages_flags:
  "mark_messages c msgs reserved = (flags, r) \<Longrightarrow> length flags = length msgs \<and> length r = length reserved
    \<and> (\<forall>sms \<in> set (flagged msgs flags). identity sms \<noteq> None)"
  by (induction c msgs reserved arbitrary: flags r rule: mark_messages.induct)
    (auto split: option.splits prod.splits)

lemma mark_messages_left:
  assumes "mark_messages c msgs reserved = (flags, r)" "length (ProcessedSMS c) \<le> length reserved"
  shows "card (free_entries c reserved d) = with_identity d (flagged msgs flags) + card (free_entries c r d)"
  using assms
proof (induction msgs arbitrary: flags reserved)
  case (Cons sms rest)
  then show ?case by (cases rule: mark_messages_cases [OF Cons.prems]) auto
qed simp

lemma mark_messages_min:
  assumes "mark_messages c msgs reserved = (flags, r)" "length (ProcessedSMS c) \<le> length reserved"
  shows "with_identity d (flagged msgs flags) = min (with_identity d msgs) (card (free_entries c reserved d))"
  using assms
proof (induction msgs arbitrary: flags reserved)
  case (Cons sms rest)
  show ?case
  proof (cases rule: mark_messages_cases [OF Cons.prems, case_names unmarked marked])
    case (unmarked fs)
    then show ?thesis using Cons.IH [OF unmarked(2) Cons.prems(2)] by (cases "identity sms = Some d") simp_all
  next
    case (marked fs e i)
    then show ?thesis using Cons.IH [OF marked(2)] Cons.prems(2) by (cases "d = e") simp_all
  qed
qed simp


lemma prune_simps [simp]:
  "ReceivePollCount (SMSD_PruneProcessedSMS c) = ReceivePollCount c"
  "ReceivePollInProgress (SMSD_PruneProcessedSMS c) = ReceivePollInProgress c"
  "SMSD_CurrentReceivePoll (SMSD_PruneProcessedSMS c) = SMSD_CurrentReceivePoll c"
  by (simp_all add: SMSD_PruneProcessedSMS_def SMSD_CurrentReceivePoll_def Let_def)

text \<open>A digest is expired when more than the given number of polls has passed since its last use.\<close>

definition live :: "64 word \<Rightarrow> 64 word \<Rightarrow> bool" where
  "live now poll \<longleftrightarrow> \<not> (poll \<le> now \<and> now - poll > SMSD_PROCESSED_SMS_POLL_CYCLES)"

lemma prune_live: "ProcessedSMS (SMSD_PruneProcessedSMS c) = filter (\<lambda>e. live (SMSD_CurrentReceivePoll c) (snd e)) (ProcessedSMS c)"
  by (auto simp: SMSD_PruneProcessedSMS_def Let_def live_def split_beta intro: filter_cong)

lemma live_now [simp]: "live now now"
  by (simp add: live_def)

text \<open>What the cache holds: a bounded number of entries.\<close>

definition cache_inv :: "smsd_cache \<Rightarrow> bool" where
  "cache_inv c \<longleftrightarrow> length (ProcessedSMS c) \<le> SMSD_PROCESSED_SMS_CACHE_SIZE"

lemma prune_inv: "cache_inv c \<Longrightarrow> cache_inv (SMSD_PruneProcessedSMS c)"
  unfolding cache_inv_def prune_live by (rule order_trans [OF length_filter_le])

lemma cache_processed_inv: "cache_inv c \<Longrightarrow> cache_inv (snd (SMSD_CacheProcessedSMS c sms))"
  using prune_inv [of c]
  by (auto simp: SMSD_CacheProcessedSMS_def Let_def cache_inv_def SMSD_PROCESSED_SMS_CACHE_SIZE_def split: option.splits)

lemma mark_inv: "cache_inv c \<Longrightarrow> cache_inv (snd (snd (SMSD_MarkProcessedSMS c sms)))"
  using prune_inv [of c] by (auto simp: SMSD_MarkProcessedSMS_def Let_def cache_inv_def split: prod.splits)

lemma all_processed_inv: "cache_inv c \<Longrightarrow> cache_inv (snd (SMSD_AllSMSProcessed c sms))"
  using mark_inv [of c sms] by (auto simp: SMSD_AllSMSProcessed_def split: prod.splits)

lemma consume_inv: "cache_inv c \<Longrightarrow> cache_inv (SMSD_ConsumeProcessedSMS c sms)"
  using prune_inv [of c] by (auto simp: SMSD_ConsumeProcessedSMS_def Let_def cache_inv_def split: option.splits)

subsection \<open>Marking and consuming\<close>

definition digests :: "smsd_cache \<Rightarrow> string multiset" where
  "digests c = mset (map fst (ProcessedSMS c))"

lemma card_free_count: "card (free_entries c (replicate n False) d) = count (digests c) d" if "length (ProcessedSMS c) \<le> n"
proof -
  have "free_entries c (replicate n False) d = {i. i < length (map fst (ProcessedSMS c)) \<and> map fst (ProcessedSMS c) ! i = d}"
    using that by (auto simp: free_entries_def)
  then show ?thesis unfolding digests_def count_mset count_list_eq_length_filter length_filter_conv_card
    by (simp add: eq_commute)
qed

lemma length_mark:
  assumes "SMSD_MarkProcessedSMS c sms = (n, flags, c')" "1 \<le> Multi_Number sms" "Multi_Number sms \<le> GSM_MAX_MULTI_SMS"
    "cache_inv c"
  obtains ps reserved where
    "mark_messages (SMSD_PruneProcessedSMS c) (take (Multi_Number sms) (Multi_SMS sms))
       (replicate SMSD_PROCESSED_SMS_CACHE_SIZE False) = (ps, reserved)"
    "n = length (filter id ps)" "flags = ps @ replicate (GSM_MAX_MULTI_SMS - length ps) False"
    "ProcessedSMS c' = map (\<lambda>((checksum, poll), r). (checksum, if r then SMSD_CurrentReceivePoll c else poll))
       (zip (ProcessedSMS (SMSD_PruneProcessedSMS c)) reserved)"
    "SMSD_CurrentReceivePoll c' = SMSD_CurrentReceivePoll c"
    "length (ProcessedSMS (SMSD_PruneProcessedSMS c)) \<le> length reserved"
proof -
  obtain ps reserved where m: "mark_messages (SMSD_PruneProcessedSMS c) (take (Multi_Number sms) (Multi_SMS sms))
       (replicate SMSD_PROCESSED_SMS_CACHE_SIZE False) = (ps, reserved)" by fastforce
  moreover have "length (ProcessedSMS (SMSD_PruneProcessedSMS c)) \<le> length reserved"
    using prune_inv [OF assms(4)] mark_messages_flags [OF m] by (simp add: cache_inv_def)
  ultimately show ?thesis
    by (rule_tac that) (use assms m in \<open>auto simp: SMSD_MarkProcessedSMS_def Let_def SMSD_CurrentReceivePoll_def\<close>)
qed

text \<open>All entries are live: none is dropped by the next look at the cache.\<close>

definition all_live :: "smsd_cache \<Rightarrow> bool" where
  "all_live c \<longleftrightarrow> (\<forall>e \<in> set (ProcessedSMS c). live (SMSD_CurrentReceivePoll c) (snd e))"

lemma all_live_prune: "all_live c \<Longrightarrow> SMSD_PruneProcessedSMS c = c"
  using prune_live [of c] by (intro smsd_cache.equality) (simp_all add: all_live_def)

lemma all_live_subset: "all_live c \<Longrightarrow> set es \<subseteq> set (ProcessedSMS c) \<Longrightarrow> all_live (c\<lparr>ProcessedSMS := es\<rparr>)"
  unfolding all_live_def SMSD_CurrentReceivePoll_def by (cases "ReceivePollInProgress c") (simp_all, blast+)

lemma consume_one:
  assumes "all_live c" "identity sms = Some d"
  shows "digests (SMSD_ConsumeProcessedSMS c sms) = digests c - {#d#} \<and> all_live (SMSD_ConsumeProcessedSMS c sms)"
proof (cases "SMSD_FindProcessedSMS c d None")
  case None
  then have "d \<notin># digests c" by (auto simp: SMSD_FindProcessedSMS_def find_None_iff digests_def in_set_conv_nth) (metis fst_conv)
  then show ?thesis using None assms by (simp add: SMSD_ConsumeProcessedSMS_def all_live_prune diff_single_trivial)
next
  case (Some i)
  let ?es = "ProcessedSMS c"
  have i: "i < length ?es" "fst (?es ! i) = d" using Some by (auto simp: SMSD_FindProcessedSMS_def find_Some_iff)
  have "?es = take i ?es @ ?es ! i # drop (i + 1) ?es" using i(1) id_take_nth_drop by fastforce
  then have "digests c = mset (map fst (take i ?es @ ?es ! i # drop (i + 1) ?es))" unfolding digests_def by presburger
  then have "digests (c\<lparr>ProcessedSMS := take i ?es @ drop (i + 1) ?es\<rparr>) = digests c - {#d#}"
    using i(2) by (simp add: digests_def)
  moreover have "all_live (c\<lparr>ProcessedSMS := take i ?es @ drop (i + 1) ?es\<rparr>)"
    by (rule all_live_subset [OF assms(1)]) (auto dest: in_set_takeD in_set_dropD)
  ultimately show ?thesis using Some assms by (simp add: SMSD_ConsumeProcessedSMS_def all_live_prune)
qed

lemma consume_all:
  assumes "all_live c" "\<forall>sms \<in> set msgs. identity sms \<noteq> None"
  shows "digests (foldl SMSD_ConsumeProcessedSMS c msgs) = digests c - mset (map (the \<circ> identity) msgs)"
  using assms
proof (induction msgs arbitrary: c)
  case (Cons sms msgs)
  then obtain d where "identity sms = Some d" by auto
  then show ?case using Cons consume_one [of c sms d] by simp
qed simp

lemma flagged_padded: "length ps = length msgs \<Longrightarrow> flagged msgs (ps @ fs) = flagged msgs ps"
  by (simp add: flagged_def zip_append2)

lemma length_flagged: "length ps = length msgs \<Longrightarrow> length (flagged msgs ps) = length (filter id ps)"
  by (induction ps msgs rule: list_induct2) simp_all

lemma count_identities:
  "\<forall>sms \<in> set msgs. identity sms \<noteq> None \<Longrightarrow> count (mset (map (the \<circ> identity) msgs)) d = with_identity d msgs"
  by (induction msgs) auto

lemma mark_digests:
  assumes "SMSD_MarkProcessedSMS c sms = (n, flags, c')" "1 \<le> Multi_Number sms" "Multi_Number sms \<le> GSM_MAX_MULTI_SMS"
    "cache_inv c"
  shows "digests c' = digests (SMSD_PruneProcessedSMS c)" "all_live c'"
proof -
  from assms obtain ps reserved where
    es: "ProcessedSMS c' = map (\<lambda>((checksum, poll), r). (checksum, if r then SMSD_CurrentReceivePoll c else poll))
       (zip (ProcessedSMS (SMSD_PruneProcessedSMS c)) reserved)"
    and now: "SMSD_CurrentReceivePoll c' = SMSD_CurrentReceivePoll c"
    and len: "length (ProcessedSMS (SMSD_PruneProcessedSMS c)) \<le> length (reserved :: bool list)"
    by (rule length_mark)
  have "map fst (ProcessedSMS c') = map fst (map fst (zip (ProcessedSMS (SMSD_PruneProcessedSMS c)) reserved))"
    unfolding es by (simp add: comp_def split_beta)
  moreover have "map fst (zip (ProcessedSMS (SMSD_PruneProcessedSMS c)) reserved) = ProcessedSMS (SMSD_PruneProcessedSMS c)"
    using len by (simp add: map_fst_zip_take)
  ultimately show "digests c' = digests (SMSD_PruneProcessedSMS c)" by (simp only: digests_def)
  show "all_live c'" unfolding all_live_def now es
    by (auto simp: prune_live split: if_splits dest!: set_zip_leftD)
qed

text \<open>
  Claim C21. Of the messages of one identity, as many are taken for processed as the cache has entries for
  it, and no more; marking keeps every entry. When the messages marked are then deleted and their
  entries consumed, the cache has lost exactly one entry for each of them.
\<close>

theorem cache_accounts_messages:
  assumes "SMSD_MarkProcessedSMS c sms = (n, flags, c')" "1 \<le> Multi_Number sms" "Multi_Number sms \<le> GSM_MAX_MULTI_SMS"
    "cache_inv c"
  defines "msgs \<equiv> take (Multi_Number sms) (Multi_SMS sms)"
  shows "n = length (flagged msgs flags)
    \<and> with_identity d (flagged msgs flags) = min (with_identity d msgs) (count (digests (SMSD_PruneProcessedSMS c)) d)
    \<and> digests c' = digests (SMSD_PruneProcessedSMS c)
    \<and> digests (foldl SMSD_ConsumeProcessedSMS c' (flagged msgs flags)) + mset (map (the \<circ> identity) (flagged msgs flags))
      = digests c'"
proof -
  from assms(1-4) obtain ps reserved where
    m: "mark_messages (SMSD_PruneProcessedSMS c) msgs (replicate SMSD_PROCESSED_SMS_CACHE_SIZE False) = (ps, reserved)"
    and n: "n = length (filter id ps)" and flags: "flags = ps @ replicate (GSM_MAX_MULTI_SMS - length ps) False"
    unfolding msgs_def by (rule length_mark)
  note l = mark_messages_flags [OF m]
  have len: "length (ProcessedSMS (SMSD_PruneProcessedSMS c)) \<le> SMSD_PROCESSED_SMS_CACHE_SIZE"
    using prune_inv [OF assms(4)] by (simp add: cache_inv_def)
  have fl: "flagged msgs flags = flagged msgs ps" using l by (simp add: flags flagged_padded)
  have counts: "with_identity e (flagged msgs ps) = min (with_identity e msgs) (count (digests (SMSD_PruneProcessedSMS c)) e)" for e
    using mark_messages_min [OF m, of e] len by (simp add: card_free_count [OF len])
  note d = mark_digests [OF assms(1-4)]
  have "mset (map (the \<circ> identity) (flagged msgs ps)) \<subseteq># digests c'"
    unfolding subseteq_mset_def count_identities [OF conjunct2 [OF conjunct2 [OF l]]] counts d(1) by simp
  then show ?thesis using consume_all [OF d(2)] l d(1) by (simp add: fl n length_flagged counts)
qed


definition example_sms :: GSM_SMSMessage where
  "example_sms = blank_sms\<lparr>SMS_Number := [0x2B, 0x34], DateTime := zerodt\<lparr>Year := 2024\<rparr>\<rparr>"

lemma example_fingerprint: "sms_fingerprint example_sms \<noteq> None"
  by code_simp

lemma example_identity: "\<exists>d. identity example_sms = Some d"
proof -
  have "SMSD_SMSHasStableIdentity example_sms" by code_simp
  then show ?thesis using example_fingerprint by (auto simp: identity_def SMSD_ComputeSMSChecksum_def)
qed

theorem fingerprint_canonical_witness:
  "sms_fingerprint example_sms = sms_fingerprint (example_sms\<lparr>Class := 7\<rparr>)
   \<and> sms_fingerprint example_sms \<noteq> sms_fingerprint (example_sms\<lparr>DeliveryStatus := 1\<rparr>)"
proof -
  have "sms_fingerprint (example_sms\<lparr>Class := 7\<rparr>) \<noteq> None" "sms_fingerprint (example_sms\<lparr>DeliveryStatus := 1\<rparr>) \<noteq> None"
    by code_simp+
  then show ?thesis
    using fingerprint_canonical [OF example_fingerprint, of "example_sms\<lparr>Class := 7\<rparr>"]
      fingerprint_canonical [OF example_fingerprint, of "example_sms\<lparr>DeliveryStatus := 1\<rparr>"]
    by (simp add: same_canonical_def number_octets_def udh_octets_def text_octets_def example_sms_def blank_sms_def)
qed

text \<open>Two copies of a message and one entry for it: one copy is taken for processed.\<close>

theorem cache_accounts_messages_witness:
  "\<exists>d flags. identity example_sms = Some d
    \<and> flagged [example_sms, example_sms] flags = [example_sms]"
proof -
  obtain d where d: "identity example_sms = Some d" using example_identity by blast
  let ?c = "\<lparr>ProcessedSMS = [(d, 0)], ReceivePollCount = 1, ReceivePollInProgress = True\<rparr>"
  let ?m = "\<lparr>Multi_Number = 2, Multi_SMS = [example_sms, example_sms], Multi_Processed = False\<rparr>"
  obtain n flags c' where m: "SMSD_MarkProcessedSMS ?c ?m = (n, flags, c')" by (metis prod_cases3)
  have "digests (SMSD_PruneProcessedSMS ?c) = {#d#}"
    by (simp add: digests_def prune_live live_def SMSD_CurrentReceivePoll_def SMSD_PROCESSED_SMS_POLL_CYCLES_def)
  then have "with_identity d (flagged [example_sms, example_sms] flags) = 1"
    using cache_accounts_messages [OF m, of d] d
    by (simp add: GSM_MAX_MULTI_SMS_def cache_inv_def SMSD_PROCESSED_SMS_CACHE_SIZE_def)
  moreover have "flagged [example_sms, example_sms] flags \<in> {[], [example_sms], [example_sms, example_sms]}"
    by (cases flags; cases "tl flags") (auto simp: flagged_def)
  ultimately show ?thesis using d by (auto simp: with_identity_def)
qed

end
