(* ===== verification/SmsdReceive.thy ===== *)
theory SmsdReceive imports SmsdCache LinkSms begin

text \<open>
  The receiving side of the daemon, \<^verbatim>\<open>smsd/core.c\<close>: which messages are accepted, how they are handed
  to the storage service and deleted from the phone, the wait for missing parts, and the
  callbacks that run while the phone is asked. The phone driver, the storage service, the clock
  and the shutdown flag answer with what an environment gives for the history so far, and each
  call is written to that history.
\<close>

text \<open>A callback has got a notice of a stored message (\<open>State\<close> 0) or a whole message.\<close>

datatype incoming = Notice GSM_SMSMessage | Whole GSM_SMSMessage

datatype action =
    NextSMS bool GSM_Error GSM_MultiSMSMessage
  | GotSMS GSM_SMSMessage GSM_Error
  | AskedStatus GSM_Error
  | Deleted GSM_SMSMessage GSM_Error
  | Saved GSM_MultiSMSMessage GSM_Error
  | RanReceive GSM_MultiSMSMessage
  | ReadClock

text \<open>
  Beside its result a call of the driver gives the callbacks that run during the call; \<open>env_delete\<close>
  also what it leaves in the message. \<open>env_blank\<close> is what a message buffer holds before it is filled.
\<close>

record environment =
  env_next :: "action list \<Rightarrow> bool \<Rightarrow> GSM_Error \<times> GSM_MultiSMSMessage \<times> incoming list"
  env_get :: "action list \<Rightarrow> GSM_SMSMessage \<Rightarrow> GSM_Error \<times> GSM_MultiSMSMessage \<times> incoming list"
  env_status :: "action list \<Rightarrow> GSM_Error \<times> int \<times> incoming list"
  env_delete :: "action list \<Rightarrow> GSM_SMSMessage \<Rightarrow> GSM_Error \<times> GSM_SMSMessage \<times> incoming list"
  env_save :: "action list \<Rightarrow> GSM_MultiSMSMessage \<Rightarrow> GSM_Error"
  env_time :: "action list \<Rightarrow> int"
  env_shutdown :: "action list \<Rightarrow> bool"
  env_locale :: c_locale
  env_blank :: GSM_MultiSMSMessage

text \<open>
  \<open>smsInfo_records\<close> are the used entries of the array of notices, \<open>cache_size\<close> what is allocated for it, and
  \<open>generation\<close> counts its allocations: pointers into an earlier one are stale.
\<close>

record smsd =
  IncludeNumbersList :: "byte list list"
  ExcludeNumbersList :: "byte list list"
  IncludeSMSCList :: "byte list list"
  ExcludeSMSCList :: "byte list list"
  RunOnReceive :: bool
  multiparttimeout :: int
  IncompleteMessageID :: int
  IncompleteMessageTime :: int
  ProcessingIncompleteMessage :: bool
  IgnoredMessages :: int
  Received :: int
  processed_cache :: smsd_cache
  smsInfo_records :: "GSM_SMSMessage list"
  cache_size :: nat
  generation :: nat
  trace :: "action list"

datatype 'a outcome = Overrun | Stale | Done 'a

definition log_action :: "action \<Rightarrow> smsd \<Rightarrow> smsd" where
  "log_action a s = s\<lparr>trace := trace s @ [a]\<rparr>"

subsection \<open>What is accepted\<close>

definition GSM_StringArray_Find :: "byte list list \<Rightarrow> byte list \<Rightarrow> bool" where
  "GSM_StringArray_Find strings string = (\<exists>s \<in> set strings. s = string)"

definition SMSD_CheckRemoteNumber :: "smsd \<Rightarrow> byte list \<Rightarrow> bool" where
  "SMSD_CheckRemoteNumber s number =
     (if 0 < length (IncludeNumbersList s) then GSM_StringArray_Find (IncludeNumbersList s) number
      else if 0 < length (ExcludeNumbersList s) then \<not> GSM_StringArray_Find (ExcludeNumbersList s) number
      else True)"

definition SMSD_CheckSMSCNumber :: "smsd \<Rightarrow> byte list \<Rightarrow> bool" where
  "SMSD_CheckSMSCNumber s number =
     (if 0 < length (IncludeSMSCList s) then GSM_StringArray_Find (IncludeSMSCList s) number
      else if 0 < length (ExcludeSMSCList s) then \<not> GSM_StringArray_Find (ExcludeSMSCList s) number
      else True)"

text \<open>\<open>None\<close>: a number does not fit the buffer of 100 octets.\<close>

definition number_buffer :: "c_locale \<Rightarrow> uchar list \<Rightarrow> byte list option" where
  "number_buffer loc number =
     (let buffer = DecodeUnicode loc (cstr number) in if length buffer + 1 > 100 then None else Some buffer)"

definition SMSD_ValidMessage :: "c_locale \<Rightarrow> smsd \<Rightarrow> GSM_MultiSMSMessage \<Rightarrow> bool option" where
  "SMSD_ValidMessage loc s m =
     (if \<not> InboxFolder (sms0 m) then Some False
      else case number_buffer loc (SMSC_Number (SMSC (sms0 m))) of None \<Rightarrow> None
      | Some smsc \<Rightarrow>
          if \<not> SMSD_CheckSMSCNumber s smsc then Some False
          else map_option (SMSD_CheckRemoteNumber s) (number_buffer loc (SMS_Number (sms0 m))))"

subsection \<open>Saving, callbacks and deleting\<close>

definition SMSD_ProcessSMS :: "environment \<Rightarrow> GSM_MultiSMSMessage \<Rightarrow> smsd \<Rightarrow> GSM_Error \<times> smsd" where
  "SMSD_ProcessSMS env m s =
     (let s1 = s\<lparr>Received := Received s + int (Multi_Number m)\<rparr>;
          error = env_save env (trace s1) m;
          s2 = (log_action (Saved m error) s1)\<lparr>ProcessingIncompleteMessage := False\<rparr>
      in (error, if RunOnReceive s2 \<and> error = ERR_NONE then log_action (RanReceive m) s2 else s2))"

definition SMSD_IncomingSMSInfoCallback :: "GSM_SMSMessage \<Rightarrow> smsd \<Rightarrow> smsd" where
  "SMSD_IncomingSMSInfoCallback sms s =
     (let s1 = (if cache_size s \<le> length (smsInfo_records s)
                then s\<lparr>cache_size := (if cache_size s = 0 then 10 else cache_size s * 2), generation := generation s + 1\<rparr> else s)
      in s1\<lparr>smsInfo_records := smsInfo_records s1 @ [sms]\<rparr>)"

definition one_message :: "environment \<Rightarrow> GSM_SMSMessage \<Rightarrow> GSM_MultiSMSMessage" where
  "one_message env sms = (env_blank env)\<lparr>Multi_Number := 1, Multi_SMS := (Multi_SMS (env_blank env))[0 := sms]\<rparr>"

definition SMSD_IncomingSMSCallback :: "environment \<Rightarrow> incoming \<Rightarrow> smsd \<Rightarrow> smsd" where
  "SMSD_IncomingSMSCallback env incoming s =
     (case incoming of Notice sms \<Rightarrow> SMSD_IncomingSMSInfoCallback sms s
      | Whole sms \<Rightarrow>
          let (error, s1) = SMSD_ProcessSMS env (one_message env sms) s in
          if error \<noteq> ERR_NONE then s1
          else s1\<lparr>processed_cache := snd (SMSD_CacheProcessedSMS (processed_cache s1) sms)\<rparr>)"

definition callbacks :: "environment \<Rightarrow> incoming list \<Rightarrow> smsd \<Rightarrow> smsd" where
  "callbacks env incomings s = fold (SMSD_IncomingSMSCallback env) incomings s"

definition GSM_GetNextSMS :: "environment \<Rightarrow> bool \<Rightarrow> smsd \<Rightarrow> GSM_Error \<times> GSM_MultiSMSMessage \<times> smsd" where
  "GSM_GetNextSMS env start s =
     (let (error, m, incomings) = env_next env (trace s) start
      in (error, m, callbacks env incomings (log_action (NextSMS start error m) s)))"

definition GSM_GetSMS :: "environment \<Rightarrow> GSM_SMSMessage \<Rightarrow> smsd \<Rightarrow> GSM_Error \<times> GSM_MultiSMSMessage \<times> smsd" where
  "GSM_GetSMS env sms s =
     (let (error, m, incomings) = env_get env (trace s) sms
      in (error, m, callbacks env incomings (log_action (GotSMS sms error) s)))"

definition GSM_DeleteSMS :: "environment \<Rightarrow> GSM_SMSMessage \<Rightarrow> smsd \<Rightarrow> GSM_Error \<times> GSM_SMSMessage \<times> smsd" where
  "GSM_DeleteSMS env sms s =
     (let (error, left, incomings) = env_delete env (trace s) sms
      in (error, left, callbacks env incomings (log_action (Deleted sms error) s)))"

definition GSM_GetSMSStatus :: "environment \<Rightarrow> smsd \<Rightarrow> GSM_Error \<times> int \<times> smsd" where
  "GSM_GetSMSStatus env s =
     (let (error, used, incomings) = env_status env (trace s)
      in (error, used, callbacks env incomings (log_action (AskedStatus error) s)))"

definition consume :: "GSM_SMSMessage \<Rightarrow> smsd \<Rightarrow> smsd" where
  "consume sms s = s\<lparr>processed_cache := SMSD_ConsumeProcessedSMS (processed_cache s) sms\<rparr>"

fun delete_parts :: "environment \<Rightarrow> bool \<Rightarrow> GSM_SMSMessage list \<Rightarrow> smsd \<Rightarrow> GSM_Error \<times> smsd" where
  "delete_parts env consume_tokens [] s = (ERR_NONE, s)"
| "delete_parts env consume_tokens (sms # rest) s =
     (let (error, left, s1) = GSM_DeleteSMS env (sms\<lparr>Folder := 0\<rparr>) s in
      if error \<noteq> ERR_NONE \<and> error \<noteq> ERR_EMPTY then (error, s1)
      else delete_parts env consume_tokens rest (if consume_tokens then consume left s1 else s1))"

definition SMSD_DeleteSMSParts :: "environment \<Rightarrow> bool \<Rightarrow> GSM_MultiSMSMessage \<Rightarrow> smsd \<Rightarrow> GSM_Error \<times> smsd" where
  "SMSD_DeleteSMSParts env consume_tokens m s = delete_parts env consume_tokens (parts m) s"

subsection \<open>The wait for missing parts\<close>

definition read_clock :: "environment \<Rightarrow> smsd \<Rightarrow> int \<times> smsd" where
  "read_clock env s = (env_time env (trace s), log_action ReadClock s)"

definition current_id :: "GSM_MultiSMSMessage \<Rightarrow> int" where
  "current_id m = (if ID16bit (UDH (sms0 m)) \<noteq> -1 then ID16bit (UDH (sms0 m)) else ID8bit (UDH (sms0 m)))"

definition SMSD_CheckMultipart :: "environment \<Rightarrow> GSM_MultiSMSMessage \<Rightarrow> smsd \<Rightarrow> bool \<times> smsd" where
  "SMSD_CheckMultipart env m s0 =
     (let s = s0\<lparr>ProcessingIncompleteMessage := False\<rparr>; u = UDH (sms0 m) in
      if UDH_Type u = UDH_NoUDH \<or> AllParts u = -1 then (True, s)
      else
        let same_id = (IncompleteMessageID s \<noteq> -1 \<and> IncompleteMessageID s = current_id m);
            success = (\<lambda>s. (True, if same_id then s\<lparr>IncompleteMessageTime := 0, IncompleteMessageID := -1\<rparr> else s))
        in if AllParts u = int (Multi_Number m) then success s
           else if same_id then
             (if IncompleteMessageTime s = 0 then (False, s)
              else let (now, s1) = read_clock env s in
                   if now - IncompleteMessageTime s1 \<ge> multiparttimeout s1
                   then success (s1\<lparr>IncompleteMessageID := -1, ProcessingIncompleteMessage := True\<rparr>)
                   else (False, s1))
           else if IncompleteMessageTime s = 0 then
             (let (now, s1) = read_clock env s
              in (False, s1\<lparr>IncompleteMessageID := current_id m, IncompleteMessageTime := now\<rparr>))
           else (False, s))"

subsection \<open>Notices\<close>

text \<open>
  The loop over the notices, which callbacks may extend and move: \<^verbatim>\<open>sms\<close> points into the array as it was when
  the entry was taken. The loop ends with the first error; a step gives the result (\<open>Inl\<close>) or goes on.
\<close>

definition info_step :: "environment \<Rightarrow> bool \<Rightarrow> nat \<Rightarrow> smsd \<Rightarrow> (GSM_Error \<times> smsd) outcome + smsd" where
  "info_step env consume_tokens i s =
     (if Memory (smsInfo_records s ! i) = MEM_INVALID then Inr s
      else
        let (error, m, s1) = GSM_GetSMS env (smsInfo_records s ! i) s in
        if error \<noteq> ERR_NONE then Inl (if generation s1 \<noteq> generation s then Stale else Done (error, s1))
        else
          let (known, c) = SMSD_AllSMSProcessed (processed_cache s1) m; s2 = s1\<lparr>processed_cache := c\<rparr>;
              (error2, s3) = (if known then (ERR_NONE, s2) else SMSD_ProcessSMS env m s2) in
          if error2 \<noteq> ERR_NONE then Inl (Done (error2, s3))
          else
            let (error3, s4) = SMSD_DeleteSMSParts env consume_tokens m s3 in
            if error3 \<noteq> ERR_NONE then Inl (Done (error3, s4))
            else if generation s4 \<noteq> generation s then Inl Stale
            else Inr (s4\<lparr>smsInfo_records := (smsInfo_records s4)[i := (smsInfo_records s4 ! i)\<lparr>Memory := MEM_INVALID\<rparr>]\<rparr>))"

partial_function (option) info_loop :: "environment \<Rightarrow> bool \<Rightarrow> nat \<Rightarrow> smsd \<Rightarrow> (GSM_Error \<times> smsd) outcome option" where
  "info_loop env consume_tokens i s =
     (if i \<ge> length (smsInfo_records s) then Some (Done (ERR_NONE, s))
      else case info_step env consume_tokens i s of
        Inl r \<Rightarrow> Some r | Inr s' \<Rightarrow> info_loop env consume_tokens (i + 1) s')"

definition SMSD_ProcessSMSInfoCacheInternal :: "environment \<Rightarrow> bool \<Rightarrow> smsd \<Rightarrow> (GSM_Error \<times> smsd) outcome option" where
  "SMSD_ProcessSMSInfoCacheInternal env consume_tokens s =
     (case info_loop env consume_tokens 0 s of
        Some (Done (error, s1)) \<Rightarrow> Some (Done (error, if error = ERR_NONE then s1\<lparr>smsInfo_records := []\<rparr> else s1))
      | r \<Rightarrow> r)"

definition SMSD_ProcessSMSInfoCache :: "environment \<Rightarrow> smsd \<Rightarrow> (GSM_Error \<times> smsd) outcome option" where
  "SMSD_ProcessSMSInfoCache env s = SMSD_ProcessSMSInfoCacheInternal env True s"

subsection \<open>A poll of the phone\<close>

text \<open>
  Reading until the phone has no more messages: the messages taken (\<open>None\<close> after an error, when the code
  returns) or the next round.
\<close>

definition read_step ::
  "environment \<Rightarrow> bool \<Rightarrow> GSM_MultiSMSMessage list \<Rightarrow> smsd
   \<Rightarrow> ((GSM_MultiSMSMessage list option \<times> smsd) outcome + GSM_MultiSMSMessage list \<times> smsd) option" where
  "read_step env start got s =
     (let (error, m, s1) = GSM_GetNextSMS env start s in
      if error \<noteq> ERR_NONE \<and> error \<noteq> ERR_EMPTY then Some (Inl (Done (None, s1)))
      else
        case (if error = ERR_NONE then SMSD_ValidMessage (env_locale env) s1 m else Some False) of None \<Rightarrow> Some (Inl Overrun)
        | Some valid \<Rightarrow>
            case SMSD_ProcessSMSInfoCacheInternal env False
                   (if error = ERR_NONE \<and> \<not> valid then s1\<lparr>IgnoredMessages := IgnoredMessages s1 + 1\<rparr> else s1) of
              None \<Rightarrow> None | Some Overrun \<Rightarrow> Some (Inl Overrun) | Some Stale \<Rightarrow> Some (Inl Stale)
            | Some (Done (_, s2)) \<Rightarrow>
                Some (if error = ERR_EMPTY then Inl (Done (Some got, s2)) else Inr (if valid then got @ [m] else got, s2)))"

partial_function (option) read_loop ::
  "environment \<Rightarrow> bool \<Rightarrow> GSM_MultiSMSMessage list \<Rightarrow> smsd \<Rightarrow> (GSM_MultiSMSMessage list option \<times> smsd) outcome option" where
  "read_loop env start got s =
     (if env_shutdown env (trace s) then Some (Done (Some got, s))
      else case read_step env start got s of
        None \<Rightarrow> None | Some (Inl r) \<Rightarrow> Some r | Some (Inr (got', s')) \<Rightarrow> read_loop env False got' s')"

text \<open>The parts of a message that no callback has handed over yet.\<close>

definition remaining_parts :: "environment \<Rightarrow> GSM_MultiSMSMessage \<Rightarrow> bool list \<Rightarrow> GSM_MultiSMSMessage" where
  "remaining_parts env m processed =
     (let rest = map fst (filter (\<lambda>(_, p). \<not> p) (zip (parts m) processed))
      in (env_blank env)\<lparr>Multi_Number := length rest, Multi_SMS := overlay rest (Multi_SMS (env_blank env))\<rparr>)"

definition cache_parts :: "GSM_SMSMessage list \<Rightarrow> smsd \<Rightarrow> smsd" where
  "cache_parts smss s =
     s\<lparr>processed_cache := fold (\<lambda>sms c. snd (SMSD_CacheProcessedSMS c sms)) smss (processed_cache s)\<rparr>"

text \<open>One linked message. \<open>None\<close>: the poll goes on; \<open>Some\<close>: it has failed.\<close>

definition process_linked :: "environment \<Rightarrow> GSM_MultiSMSMessage \<Rightarrow> smsd \<Rightarrow> bool \<times> smsd" where
  "process_linked env m s =
     (let (processed_count, processed, c) = SMSD_MarkProcessedSMS (processed_cache s) m; s1 = s\<lparr>processed_cache := c\<rparr>;
          remove = (\<lambda>s. let (error, s') = SMSD_DeleteSMSParts env True m s in (error = ERR_NONE, s'))
      in if processed_count = Multi_Number m then remove s1
         else if processed_count = 0 then
           (let (go_on, s2) = SMSD_CheckMultipart env m s1 in
            if \<not> go_on then (True, s2)
            else let (error, s3) = SMSD_ProcessSMS env m s2 in if error \<noteq> ERR_NONE then (False, s3) else remove s3)
         else
           let rest = remaining_parts env m processed; (error, s2) = SMSD_ProcessSMS env rest s1 in
           if error \<noteq> ERR_NONE then (False, s2) else remove (cache_parts (parts rest) s2))"

fun process_sorted :: "environment \<Rightarrow> GSM_MultiSMSMessage list \<Rightarrow> smsd \<Rightarrow> bool \<times> smsd" where
  "process_sorted env [] s = (True, s)"
| "process_sorted env (m # ms) s =
     (let (ok, s1) = process_linked env m s in if ok then process_sorted env ms s1 else (False, s1))"

definition SMSD_ReadDeleteSMS :: "environment \<Rightarrow> smsd \<Rightarrow> (bool \<times> smsd) outcome option" where
  "SMSD_ReadDeleteSMS env s =
     (case read_loop env True [] (s\<lparr>IgnoredMessages := 0\<rparr>) of
        None \<Rightarrow> None | Some Overrun \<Rightarrow> Some Overrun | Some Stale \<Rightarrow> Some Stale
      | Some (Done (None, s1)) \<Rightarrow> Some (Done (False, s1))
      | Some (Done (Some got, s1)) \<Rightarrow>
          if got = [] then Some (Done (True, s1))
          else case GSM_LinkSMS (env_locale env) True (env_blank env) got of
            None \<Rightarrow> None | Some NullRead \<Rightarrow> Some Overrun
          | Some (Refused error) \<Rightarrow> Some (Done (False, s1))
          | Some (Linked out) \<Rightarrow> Some (Done (process_sorted env out s1)))"

definition poll_in_progress :: "bool \<Rightarrow> smsd \<Rightarrow> smsd" where
  "poll_in_progress b s = s\<lparr>processed_cache := (processed_cache s)\<lparr>ReceivePollInProgress := b\<rparr>\<rparr>"

definition end_poll :: "bool \<Rightarrow> smsd \<Rightarrow> smsd" where
  "end_poll result s =
     poll_in_progress False
       (if result then s\<lparr>processed_cache := (processed_cache s)\<lparr>ReceivePollCount := ReceivePollCount (processed_cache s) + 1\<rparr>\<rparr>
        else s)"

definition SMSD_CheckSMSStatus :: "environment \<Rightarrow> smsd \<Rightarrow> (bool \<times> smsd) outcome option" where
  "SMSD_CheckSMSStatus env s =
     (let (error, used, s1) = GSM_GetSMSStatus env (poll_in_progress True s);
          fallback = (error = ERR_NOTSUPPORTED \<or> error = ERR_NOTIMPLEMENTED);
          (error2, _, s2) = (if fallback then GSM_GetNextSMS env True s1 else (error, env_blank env, s1));
          new_message = (if fallback then error2 = ERR_NONE else used - IgnoredMessages s1 > 0)
      in if error \<noteq> ERR_NONE \<and> \<not> fallback then Some (Done (False, end_poll False s1))
         else if new_message then
           (case SMSD_ReadDeleteSMS env s2 of
              Some (Done (result, s3)) \<Rightarrow> Some (Done (result, end_poll result s3)) | r \<Rightarrow> r)
         else Some (Done (True, end_poll True s2)))"

subsection \<open>Only what was saved is deleted\<close>

text \<open>
  A message is accounted for when the storage service had taken it, or a message of the same identity,
  before; \<open>D\<close> are the digests of messages that were saved before the history began.
\<close>

definition saved_part :: "action list \<Rightarrow> GSM_SMSMessage \<Rightarrow> bool" where
  "saved_part t part \<longleftrightarrow> (\<exists>m. Saved m ERR_NONE \<in> set t \<and> part \<in> set (parts m))"

definition known_digest :: "string set \<Rightarrow> action list \<Rightarrow> string \<Rightarrow> bool" where
  "known_digest D t d \<longleftrightarrow> d \<in> D \<or> (\<exists>part. saved_part t part \<and> identity part = Some d)"

definition accounted :: "string set \<Rightarrow> action list \<Rightarrow> GSM_SMSMessage \<Rightarrow> bool" where
  "accounted D t sms \<longleftrightarrow>
     (\<exists>part. saved_part t part \<and> sms = part\<lparr>Folder := 0\<rparr>) \<or> (\<exists>d. identity sms = Some d \<and> known_digest D t d)"

definition safe_trace :: "string set \<Rightarrow> action list \<Rightarrow> bool" where
  "safe_trace D t \<longleftrightarrow> (\<forall>k<length t. \<forall>sms error. t ! k = Deleted sms error \<longrightarrow> accounted D (take k t) sms)"

definition receive_inv :: "string set \<Rightarrow> smsd \<Rightarrow> bool" where
  "receive_inv D s \<longleftrightarrow> safe_trace D (trace s) \<and> (\<forall>d \<in># digests (processed_cache s). known_digest D (trace s) d)"

definition keeps :: "string set \<Rightarrow> smsd \<Rightarrow> smsd \<Rightarrow> bool" where
  "keeps D s s' \<longleftrightarrow> (receive_inv D s \<longrightarrow> receive_inv D s' \<and> (\<exists>t. trace s' = trace s @ t))"

lemma keeps_refl [simp]: "keeps D s s"
  by (simp add: keeps_def)

lemma keeps_trans: "keeps D s s1 \<Longrightarrow> keeps D s1 s2 \<Longrightarrow> keeps D s s2"
  by (auto simp: keeps_def)

lemma saved_mono [intro]: "saved_part t part \<Longrightarrow> saved_part (t @ u) part"
  by (auto simp: saved_part_def)

lemma known_mono [intro]: "known_digest D t d \<Longrightarrow> known_digest D (t @ u) d"
  by (auto simp: known_digest_def)

lemma accounted_mono: "accounted D t sms \<Longrightarrow> accounted D (t @ u) sms"
  unfolding accounted_def by blast

lemma safe_trace_snoc:
  "safe_trace D (t @ [a]) \<longleftrightarrow> safe_trace D t \<and> (\<forall>sms error. a = Deleted sms error \<longrightarrow> accounted D t sms)"
  unfolding safe_trace_def by (auto simp: nth_append less_Suc_eq)

lemma keepsI: "(receive_inv D s \<Longrightarrow> keeps D s s') \<Longrightarrow> keeps D s s'"
  by (auto simp: keeps_def)

lemma keeps_accounted: "receive_inv D s \<Longrightarrow> keeps D s s' \<Longrightarrow> accounted D (trace s) sms \<Longrightarrow> accounted D (trace s') sms"
  by (auto simp: keeps_def intro: accounted_mono)

lemma identity_folder [simp]: "identity (sms\<lparr>Folder := f\<rparr>) = identity sms"
  by (simp add: identity_def SMSD_SMSHasStableIdentity_def SMSD_ComputeSMSChecksum_def sms_fingerprint_def number_octets_def Let_def)

text \<open>A state that differs in the cache only, whose new entries are known.\<close>

lemma keeps_cache:
  assumes "trace s' = trace s"
    "\<And>d. d \<in># digests (processed_cache s') \<Longrightarrow> d \<in># digests (processed_cache s) \<or> known_digest D (trace s) d"
  shows "keeps D s s'"
  using assms by (auto simp: keeps_def receive_inv_def)

lemma keeps_same: "trace s' = trace s \<Longrightarrow> processed_cache s' = processed_cache s \<Longrightarrow> keeps D s s'"
  by (rule keeps_cache) auto

lemma keeps_log:
  assumes "\<And>sms error. a = Deleted sms error \<Longrightarrow> accounted D (trace s) sms"
  shows "keeps D s (log_action a s)"
  using assms by (auto simp: keeps_def receive_inv_def log_action_def safe_trace_snoc)

lemma in_digests: "d \<in># digests c \<longleftrightarrow> (\<exists>poll. (d, poll) \<in> set (ProcessedSMS c))"
  by (force simp: digests_def)

lemma in_set_tl: "x \<in> set (tl xs) \<Longrightarrow> x \<in> set xs"
  by (cases xs) auto

lemma digests_prune: "d \<in># digests (SMSD_PruneProcessedSMS c) \<Longrightarrow> d \<in># digests c"
  by (auto simp: in_digests prune_live)

lemma digests_cache: "d \<in># digests (snd (SMSD_CacheProcessedSMS c sms)) \<Longrightarrow> d \<in># digests c \<or> identity sms = Some d"
  by (auto simp: SMSD_CacheProcessedSMS_def Let_def identity_def in_digests prune_live dest!: in_set_tl split: option.splits if_splits)

lemma digests_consume: "d \<in># digests (SMSD_ConsumeProcessedSMS c sms) \<Longrightarrow> d \<in># digests c"
  by (auto simp: SMSD_ConsumeProcessedSMS_def Let_def in_digests prune_live dest!: in_set_takeD in_set_dropD split: option.splits)

lemma digests_mark:
  assumes "SMSD_MarkProcessedSMS c m = (n, flags, c')" "d \<in># digests c'"
  shows "d \<in># digests c"
proof -
  have "\<exists>r. ProcessedSMS c' = map (\<lambda>((checksum, poll), r). (checksum, if r then SMSD_CurrentReceivePoll c else poll))
      (zip (ProcessedSMS (SMSD_PruneProcessedSMS c)) r) \<or> c' = SMSD_PruneProcessedSMS c"
    using assms(1) by (auto simp: SMSD_MarkProcessedSMS_def Let_def split: if_splits prod.splits)
  then have "d \<in># digests (SMSD_PruneProcessedSMS c)"
    using assms(2) by (auto simp: in_digests) (meson set_zip_leftD)
  then show ?thesis by (rule digests_prune)
qed

lemma mark_messages_known:
  "mark_messages c msgs reserved = (flags, r) \<Longrightarrow> sms \<in> set (flagged msgs flags) \<Longrightarrow>
   \<exists>d. identity sms = Some d \<and> d \<in># digests c"
  by (induction c msgs reserved arbitrary: flags r rule: mark_messages.induct)
    (auto simp: digests_def free_entries_def dest!: find_processed_some split: option.splits prod.splits)

lemma mark_known:
  assumes "SMSD_MarkProcessedSMS c m = (n, flags, c')" "(sms, True) \<in> set (zip (parts m) flags)"
  shows "\<exists>d. identity sms = Some d \<and> d \<in># digests c"
proof (cases "1 \<le> Multi_Number m \<and> Multi_Number m \<le> GSM_MAX_MULTI_SMS")
  case True
  then obtain ps r where m: "mark_messages (SMSD_PruneProcessedSMS c) (parts m) (replicate SMSD_PROCESSED_SMS_CACHE_SIZE False) = (ps, r)"
    and flags: "flags = ps @ replicate (GSM_MAX_MULTI_SMS - length ps) False"
    using assms(1) by (auto simp: SMSD_MarkProcessedSMS_def Let_def parts_def split: prod.splits)
  have "sms \<in> set (flagged (parts m) ps)"
    using assms(2) mark_messages_flags [OF m] by (force simp: flags flagged_def zip_append2)
  then show ?thesis using mark_messages_known [OF m] digests_prune by blast
next
  case False
  then have "flags = replicate GSM_MAX_MULTI_SMS False" using assms(1) by (auto simp: SMSD_MarkProcessedSMS_def Let_def)
  then show ?thesis using assms(2) by (auto simp: in_set_zip)
qed

lemma flagged_all: "length flags = length msgs \<Longrightarrow> \<forall>b \<in> set flags. b \<Longrightarrow> flagged msgs flags = msgs"
  by (induction flags msgs rule: list_induct2) auto

lemma mark_all:
  assumes "SMSD_MarkProcessedSMS c m = (Multi_Number m, flags, c')" "sms \<in> set (parts m)"
  shows "\<exists>d. identity sms = Some d \<and> d \<in># digests c"
proof (cases "1 \<le> Multi_Number m \<and> Multi_Number m \<le> GSM_MAX_MULTI_SMS")
  case True
  then obtain ps r where m: "mark_messages (SMSD_PruneProcessedSMS c) (parts m) (replicate SMSD_PROCESSED_SMS_CACHE_SIZE False) = (ps, r)"
    and n: "length (filter id ps) = Multi_Number m"
    using assms(1) by (auto simp: SMSD_MarkProcessedSMS_def Let_def parts_def split: prod.splits)
  have "length ps \<le> Multi_Number m" using mark_messages_flags [OF m] by (simp add: parts_def)
  then have "length (filter id ps) = length ps" using n length_filter_le [of id ps] by linarith
  then have "\<forall>b \<in> set ps. b" by (metis filter_id_conv id_apply length_filter_less less_irrefl)
  then have "flagged (parts m) ps = parts m"
    by (simp add: flagged_all mark_messages_flags [OF m])
  then show ?thesis using assms(2) mark_messages_known [OF m] digests_prune by fastforce
next
  case False
  then have "Multi_Number m = 0" using assms(1) by (auto simp: SMSD_MarkProcessedSMS_def Let_def split: if_splits)
  then show ?thesis using assms(2) by (simp add: parts_def)
qed

lemma keeps_process: 
  assumes "SMSD_ProcessSMS env m s = (error, s')"
  shows "keeps D s s'" "error = ERR_NONE \<Longrightarrow> part \<in> set (parts m) \<Longrightarrow> saved_part (trace s') part"
proof -
  let ?s1 = "s\<lparr>Received := Received s + int (Multi_Number m)\<rparr>"
  let ?s2 = "(log_action (Saved m error) ?s1)\<lparr>ProcessingIncompleteMessage := False\<rparr>"
  have s': "s' = (if RunOnReceive ?s2 \<and> error = ERR_NONE then log_action (RanReceive m) ?s2 else ?s2)"
    using assms by (auto simp: SMSD_ProcessSMS_def Let_def)
  have "keeps D s ?s1" by (rule keeps_same) simp_all
  moreover have "keeps D ?s1 (log_action (Saved m error) ?s1)" by (rule keeps_log) simp
  moreover have "keeps D (log_action (Saved m error) ?s1) ?s2" by (rule keeps_same) simp_all
  ultimately have "keeps D s ?s2" by (blast intro: keeps_trans)
  moreover have "keeps D ?s2 s'" unfolding s' by (auto intro: keeps_log)
  ultimately show "keeps D s s'" by (rule keeps_trans)
  show "error = ERR_NONE \<Longrightarrow> part \<in> set (parts m) \<Longrightarrow> saved_part (trace s') part"
    unfolding s' by (auto simp: log_action_def saved_part_def)
qed

lemma parts_one [simp]: "0 < length (Multi_SMS (env_blank env)) \<Longrightarrow> parts (one_message env sms) = [sms]"
  by (cases "Multi_SMS (env_blank env)") (simp_all add: parts_def one_message_def)

lemma keeps_callback:
  assumes blank: "0 < length (Multi_SMS (env_blank env))"
  shows "keeps D s (SMSD_IncomingSMSCallback env incoming s)"
proof (cases incoming)
  case (Notice sms)
  then show ?thesis
    by (auto simp: SMSD_IncomingSMSCallback_def SMSD_IncomingSMSInfoCallback_def Let_def intro: keeps_same)
next
  case (Whole sms)
  obtain error s1 where s1: "SMSD_ProcessSMS env (one_message env sms) s = (error, s1)" by fastforce
  note k = keeps_process [OF s1]
  show ?thesis
  proof (cases "error = ERR_NONE")
    case True
    then have saved: "saved_part (trace s1) sms" using k(2) blank by simp
    have "keeps D s1 (s1\<lparr>processed_cache := snd (SMSD_CacheProcessedSMS (processed_cache s1) sms)\<rparr>)"
      by (rule keeps_cache) (use saved in \<open>auto dest!: digests_cache simp: known_digest_def\<close>)
    then show ?thesis using True s1 Whole keeps_trans [OF k(1)] by (simp add: SMSD_IncomingSMSCallback_def)
  qed (use k s1 Whole in \<open>simp add: SMSD_IncomingSMSCallback_def\<close>)
qed

lemma keeps_callbacks:
  assumes "0 < length (Multi_SMS (env_blank env))"
  shows "keeps D s (callbacks env incomings s)"
proof (induction incomings arbitrary: s)
  case (Cons incoming incomings)
  show ?case using keeps_trans [OF keeps_callback [OF assms] Cons.IH] by (simp add: callbacks_def)
qed (simp add: callbacks_def)

lemma keeps_call:
  assumes "0 < length (Multi_SMS (env_blank env))" "\<And>sms error. a = Deleted sms error \<Longrightarrow> accounted D (trace s) sms"
  shows "keeps D s (callbacks env incomings (log_action a s))"
  by (rule keeps_trans [OF keeps_log keeps_callbacks]) (use assms in auto)

lemma keeps_get_next: "0 < length (Multi_SMS (env_blank env)) \<Longrightarrow> GSM_GetNextSMS env start s = (error, m, s') \<Longrightarrow> keeps D s s'"
  by (auto simp: GSM_GetNextSMS_def intro!: keeps_call split: prod.splits)

lemma keeps_get: "0 < length (Multi_SMS (env_blank env)) \<Longrightarrow> GSM_GetSMS env sms s = (error, m, s') \<Longrightarrow> keeps D s s'"
  by (auto simp: GSM_GetSMS_def intro!: keeps_call split: prod.splits)

lemma keeps_status: "0 < length (Multi_SMS (env_blank env)) \<Longrightarrow> GSM_GetSMSStatus env s = (error, used, s') \<Longrightarrow> keeps D s s'"
  by (auto simp: GSM_GetSMSStatus_def intro!: keeps_call split: prod.splits)

lemma keeps_delete:
  "0 < length (Multi_SMS (env_blank env)) \<Longrightarrow> GSM_DeleteSMS env sms s = (error, left, s') \<Longrightarrow> accounted D (trace s) sms \<Longrightarrow> keeps D s s'"
  by (auto simp: GSM_DeleteSMS_def intro!: keeps_call split: prod.splits)

lemma keeps_consume: "keeps D s (consume sms s)"
  by (rule keeps_cache) (auto simp: consume_def dest: digests_consume)

lemma keeps_delete_parts:
  "0 < length (Multi_SMS (env_blank env)) \<Longrightarrow> 
   delete_parts env tokens smss s = (error, s') \<Longrightarrow> \<forall>sms \<in> set smss. accounted D (trace s) (sms\<lparr>Folder := 0\<rparr>) \<Longrightarrow> keeps D s s'"
proof (induction smss arbitrary: s)
  case (Cons sms smss)
  show ?case
  proof (rule keepsI)
  assume inv: "receive_inv D s"
  obtain e left s1 where s1: "GSM_DeleteSMS env (sms\<lparr>Folder := 0\<rparr>) s = (e, left, s1)" by (metis prod_cases3)
  have k1: "keeps D s s1" by (rule keeps_delete [OF Cons.prems(1) s1]) (use Cons.prems(3) in simp)
  define s2 where "s2 = (if tokens then consume left s1 else s1)"
  have k2: "keeps D s s2" using keeps_trans [OF k1 keeps_consume] k1 by (simp add: s2_def)
  then have "\<forall>sms \<in> set smss. accounted D (trace s2) (sms\<lparr>Folder := 0\<rparr>)"
    using Cons.prems(3) keeps_accounted [OF inv] by auto
  then show "keeps D s s'"
    using Cons.prems(1,2) Cons.IH [of s2] k1 keeps_trans [OF k2] by (auto simp: s1 s2_def split: if_splits)
  qed
qed simp

lemma keeps_delete_message:
  "0 < length (Multi_SMS (env_blank env)) \<Longrightarrow> 
   SMSD_DeleteSMSParts env tokens m s = (error, s') \<Longrightarrow> \<forall>sms \<in> set (parts m). accounted D (trace s) (sms\<lparr>Folder := 0\<rparr>) \<Longrightarrow>
   keeps D s s'"
  unfolding SMSD_DeleteSMSParts_def by (rule keeps_delete_parts)

lemma saved_accounted: "saved_part t sms \<Longrightarrow> accounted D t (sms\<lparr>Folder := 0\<rparr>)"
  by (auto simp: accounted_def)

lemma keeps_read_clock: "read_clock env s = (now, s') \<Longrightarrow> keeps D s s'"
  by (auto simp: read_clock_def intro: keeps_log)

lemma keeps_check: "SMSD_CheckMultipart env m s = (go_on, s') \<Longrightarrow> keeps D s s'"
proof -
  assume c: "SMSD_CheckMultipart env m s = (go_on, s')"
  have "processed_cache s' = processed_cache s \<and> (trace s' = trace s \<or> trace s' = trace s @ [ReadClock])"
    using c by (auto simp: SMSD_CheckMultipart_def Let_def read_clock_def log_action_def split: if_splits)
  moreover have "keeps D s (log_action ReadClock s)" by (rule keeps_log) simp
  ultimately show ?thesis
    using keeps_same [of s' s] keeps_trans [OF _ keeps_same [of s' "log_action ReadClock s"]]
    by (auto simp: log_action_def)
qed

lemma digests_all: "SMSD_AllSMSProcessed c m = (known, c') \<Longrightarrow> d \<in># digests c' \<Longrightarrow> d \<in># digests c"
  by (auto simp: SMSD_AllSMSProcessed_def dest: digests_mark split: if_splits prod.splits)

lemma all_known:
  assumes "SMSD_AllSMSProcessed c m = (True, c')" "sms \<in> set (parts m)"
  shows "\<exists>d. identity sms = Some d \<and> d \<in># digests c"
proof -
  obtain flags where "SMSD_MarkProcessedSMS c m = (Multi_Number m, flags, c')"
    using assms(1) by (auto simp: SMSD_AllSMSProcessed_def split: if_splits prod.splits)
  then show ?thesis using assms(2) by (rule mark_all)
qed

text \<open>With the invariant, a message the cache knows is accounted for.\<close>

lemma known_accounted:
  "receive_inv D s \<Longrightarrow> identity sms = Some d \<Longrightarrow> d \<in># digests (processed_cache s) \<Longrightarrow> accounted D (trace s) (sms\<lparr>Folder := 0\<rparr>)"
  by (auto simp: receive_inv_def accounted_def)

lemma keeps_info_step:
  assumes blank: "0 < length (Multi_SMS (env_blank env))"
  shows "info_step env tokens i s = Inl (Done (error, s')) \<Longrightarrow> keeps D s s'"
    and "info_step env tokens i s = Inr s' \<Longrightarrow> keeps D s s'"
proof -
  obtain e m s1 where s1: "GSM_GetSMS env (smsInfo_records s ! i) s = (e, m, s1)" by (metis prod_cases3)
  obtain known c where c: "SMSD_AllSMSProcessed (processed_cache s1) m = (known, c)" by fastforce
  define s2 where "s2 = s1\<lparr>processed_cache := c\<rparr>"
  obtain e2 s3 where s3: "(if known then (ERR_NONE, s2) else SMSD_ProcessSMS env m s2) = (e2, s3)" by fastforce
  obtain e3 s4 where s4: "SMSD_DeleteSMSParts env tokens m s3 = (e3, s4)" by fastforce
  have k1: "keeps D s s1" by (rule keeps_get [OF blank s1])
  have k2: "keeps D s1 s2" by (rule keeps_cache) (auto simp: s2_def dest: digests_all [OF c])
  have k3: "keeps D s2 s3" using s3 keeps_process(1) by (auto split: if_splits)
  have k4: "keeps D s3 s4" if "e2 = ERR_NONE" "receive_inv D s"
  proof (rule keeps_delete_message [OF blank s4], intro ballI)
    fix sms assume sms: "sms \<in> set (parts m)"
    show "accounted D (trace s3) (sms\<lparr>Folder := 0\<rparr>)"
    proof (cases known)
      case True
      then obtain d where "identity sms = Some d" "d \<in># digests (processed_cache s1)" using all_known [OF _ sms, of "processed_cache s1" c] c by auto
      moreover have "receive_inv D s1" using k1 that(2) by (simp add: keeps_def)
      moreover have "trace s3 = trace s1" using True s3 by (auto simp: s2_def)
      ultimately show ?thesis using known_accounted by simp
    next
      case False
      then show ?thesis using keeps_process(2) [of env m s2 e2 s3 sms] s3 that(1) sms saved_accounted by simp
    qed
  qed
  have k: "keeps D s s3" using keeps_trans [OF keeps_trans [OF k1 k2] k3] .
  have k': "keeps D s s4" if "e2 = ERR_NONE"
    by (rule keepsI) (rule keeps_trans [OF k k4 [OF that]])
  note [simp] = s1 c s2_def [symmetric] s3 s4
  show "keeps D s s'" if "info_step env tokens i s = Inl (Done (error, s'))"
    using that k1 k k' by (auto simp: info_step_def split: if_splits)
  show "keeps D s s'" if "info_step env tokens i s = Inr s'"
  proof (cases "Memory (smsInfo_records s ! i) = MEM_INVALID")
    case False
    then have "e2 = ERR_NONE" "processed_cache s' = processed_cache s4" "trace s' = trace s4"
      using that by (auto simp: info_step_def split: if_splits)
    then show ?thesis using keeps_trans [OF k' keeps_same] by blast
  qed (use that in \<open>simp add: info_step_def\<close>)
qed

lemma keeps_info_loop:
  assumes blank: "0 < length (Multi_SMS (env_blank env))" and r: "info_loop env tokens i s = Some (Done (error, s'))"
  shows "keeps D s s'"
proof -
  have "0 < length (Multi_SMS (env_blank env)) \<longrightarrow> (\<forall>error s'. r = Done (error, s') \<longrightarrow> keeps D s s')"
    if "info_loop env tokens i s = Some r" for r
  proof (rule info_loop.raw_induct [where P = "\<lambda>env tokens i s r. 0 < length (Multi_SMS (env_blank env)) \<longrightarrow>
       (\<forall>error s'. r = Done (error, s') \<longrightarrow> keeps D s s')", OF _ that], intro impI allI)
    fix loop env tokens i s r error s'
    assume IH: "\<And>env tokens i s r. loop env tokens i s = Some r \<Longrightarrow> 0 < length (Multi_SMS (env_blank env)) \<longrightarrow>
        (\<forall>error s'. r = Done (error, s') \<longrightarrow> keeps D s s')"
      and body: "(if i \<ge> length (smsInfo_records s) then Some (Done (ERR_NONE, s))
        else case info_step env tokens i s of Inl r \<Rightarrow> Some r | Inr s' \<Rightarrow> loop env tokens (i + 1) s') = Some r"
      and blank: "0 < length (Multi_SMS (env_blank env))" and r: "r = Done (error, s')"
    show "keeps D s s'"
    proof (cases "i \<ge> length (smsInfo_records s)")
      case False
      show ?thesis
      proof (cases "info_step env tokens i s")
        case (Inl x)
        then show ?thesis using keeps_info_step(1) [OF blank] False body r by simp
      next
        case (Inr s1)
        then have "keeps D s1 s'" using IH [of env tokens "i + 1" s1 r] False body r blank by simp
        then show ?thesis using keeps_info_step(2) [OF blank Inr] keeps_trans by blast
      qed
    qed (use body r in simp)
  qed
  then show ?thesis using assms by blast
qed

lemma keeps_info:
  assumes blank: "0 < length (Multi_SMS (env_blank env))"
    and r: "SMSD_ProcessSMSInfoCacheInternal env tokens s = Some (Done (error, s'))"
  shows "keeps D s s'"
proof -
  obtain s1 where s1: "info_loop env tokens 0 s = Some (Done (error, s1))"
    and s': "s' = (if error = ERR_NONE then s1\<lparr>smsInfo_records := []\<rparr> else s1)"
    using r by (auto simp: SMSD_ProcessSMSInfoCacheInternal_def split: option.splits outcome.splits)
  have "keeps D s1 s'" by (rule keeps_same) (simp_all add: s')
  with keeps_info_loop [OF blank s1] show ?thesis by (rule keeps_trans)
qed

lemma keeps_read_step:
  assumes blank: "0 < length (Multi_SMS (env_blank env))"
  shows "read_step env start got s = Some (Inl (Done (res, s'))) \<Longrightarrow> keeps D s s'"
    and "read_step env start got s = Some (Inr (got', s')) \<Longrightarrow> keeps D s s'"
proof -
  obtain e m s1 where s1: "GSM_GetNextSMS env start s = (e, m, s1)" by (metis prod_cases3)
  have k1: "keeps D s s1" by (rule keeps_get_next [OF blank s1])
  have ig: "keeps D s (if b then s1\<lparr>IgnoredMessages := n\<rparr> else s1)" for b n
    using keeps_trans [OF k1 keeps_same] k1 by simp
  have k2: "keeps D s s2" if "SMSD_ProcessSMSInfoCacheInternal env False (if b then s1\<lparr>IgnoredMessages := n\<rparr> else s1) = Some (Done (x, s2))"
    for b n x s2 by (rule keeps_trans [OF ig keeps_info [OF blank that]])
  show "keeps D s s'" if "read_step env start got s = Some (Inl (Done (res, s')))"
    using that k1 by (auto simp: read_step_def s1 split: if_splits option.splits outcome.splits intro: k2)
  show "keeps D s s'" if "read_step env start got s = Some (Inr (got', s'))"
    using that k1 by (auto simp: read_step_def s1 split: if_splits option.splits outcome.splits intro: k2)
qed

lemma keeps_read_loop:
  assumes blank: "0 < length (Multi_SMS (env_blank env))" and r: "read_loop env start got s = Some (Done (res, s'))"
  shows "keeps D s s'"
proof -
  have "0 < length (Multi_SMS (env_blank env)) \<longrightarrow> (\<forall>res s'. r = Done (res, s') \<longrightarrow> keeps D s s')"
    if "read_loop env start got s = Some r" for r
  proof (rule read_loop.raw_induct [where P = "\<lambda>env start got s r. 0 < length (Multi_SMS (env_blank env)) \<longrightarrow>
       (\<forall>res s'. r = Done (res, s') \<longrightarrow> keeps D s s')", OF _ that], intro impI allI)
    fix loop env start got s r res s'
    assume IH: "\<And>env start got s r. loop env start got s = Some r \<Longrightarrow> 0 < length (Multi_SMS (env_blank env)) \<longrightarrow>
        (\<forall>res s'. r = Done (res, s') \<longrightarrow> keeps D s s')"
      and body: "(if env_shutdown env (trace s) then Some (Done (Some got, s))
        else case read_step env start got s of None \<Rightarrow> None | Some (Inl r) \<Rightarrow> Some r
          | Some (Inr (got', s')) \<Rightarrow> loop env False got' s') = Some r"
      and blank: "0 < length (Multi_SMS (env_blank env))" and r: "r = Done (res, s')"
    show "keeps D s s'"
    proof (cases "env_shutdown env (trace s)")
      case False
      then consider "read_step env start got s = Some (Inl r)"
        | got' s1 where "read_step env start got s = Some (Inr (got', s1))" "loop env False got' s1 = Some r"
        using body by (auto split: option.splits sum.splits)
      then show ?thesis
      proof cases
        case 1
        then show ?thesis using keeps_read_step(1) [OF blank] r by blast
      next
        case 2
        then show ?thesis using keeps_read_step(2) [OF blank 2(1)] IH [OF 2(2)] blank r keeps_trans by blast
      qed
    qed (use body r in simp)
  qed
  then show ?thesis using assms by blast
qed

lemma parts_remaining:
  "parts (remaining_parts env m processed) = map fst (filter (\<lambda>(_, p). \<not> p) (zip (parts m) processed))"
  by (simp add: parts_def remaining_parts_def Let_def)

lemma keeps_cache_parts:
  assumes "\<forall>sms \<in> set smss. saved_part (trace s) sms"
  shows "keeps D s (cache_parts smss s)"
proof (rule keeps_cache)
  fix d assume "d \<in># digests (processed_cache (cache_parts smss s))"
  then have "d \<in># digests (fold (\<lambda>sms c. snd (SMSD_CacheProcessedSMS c sms)) smss (processed_cache s))"
    by (simp add: cache_parts_def)
  then have "d \<in># digests (processed_cache s) \<or> (\<exists>sms \<in> set smss. identity sms = Some d)"
  proof (induction smss rule: rev_induct)
    case (snoc sms smss)
    then show ?case using digests_cache by fastforce
  qed simp
  then show "d \<in># digests (processed_cache s) \<or> known_digest D (trace s) d"
    using assms by (auto simp: known_digest_def)
qed (simp add: cache_parts_def)

lemma length_flags:
  "SMSD_MarkProcessedSMS c m = (n, flags, c') \<Longrightarrow> GSM_MAX_MULTI_SMS \<le> length flags \<and> (n \<noteq> 0 \<longrightarrow> Multi_Number m \<le> GSM_MAX_MULTI_SMS)"
  by (auto simp: SMSD_MarkProcessedSMS_def Let_def split: if_splits prod.splits)

lemma keeps_process_linked:
  assumes blank: "0 < length (Multi_SMS (env_blank env))" and r: "process_linked env m s = (ok, s')"
  shows "keeps D s s'"
proof (rule keepsI)
  assume inv: "receive_inv D s"
  obtain n flags c where mark: "SMSD_MarkProcessedSMS (processed_cache s) m = (n, flags, c)" by (metis prod_cases3)
  define s1 where "s1 = s\<lparr>processed_cache := c\<rparr>"
  have k1: "keeps D s s1" by (rule keeps_cache) (auto simp: s1_def dest: digests_mark [OF mark])
  have known: "accounted D (trace s) (sms\<lparr>Folder := 0\<rparr>)" if "identity sms = Some d" "d \<in># digests (processed_cache s)" for sms d
    using known_accounted [OF inv that] .
  show "keeps D s s'"
  proof (cases "n = Multi_Number m")
    case True
    obtain e s2 where s2: "SMSD_DeleteSMSParts env True m s1 = (e, s2)" by fastforce
    have "keeps D s1 s2"
      by (rule keeps_delete_message [OF blank s2]) (use mark_all [OF mark [unfolded True]] known in \<open>fastforce simp: s1_def\<close>)
    moreover have "s' = s2" using r True mark s2 by (auto simp: process_linked_def s1_def)
    ultimately show ?thesis using keeps_trans [OF k1] by simp
  next
    case not_all: False
    show ?thesis
    proof (cases "n = 0")
      case True
      obtain go s2 where s2: "SMSD_CheckMultipart env m s1 = (go, s2)" by fastforce
      obtain e s3 where s3: "SMSD_ProcessSMS env m s2 = (e, s3)" by fastforce
      obtain e2 s4 where s4: "SMSD_DeleteSMSParts env True m s3 = (e2, s4)" by fastforce
      have k2: "keeps D s s2" by (rule keeps_trans [OF k1 keeps_check [OF s2]])
      have k3: "keeps D s s3" by (rule keeps_trans [OF k2 keeps_process(1) [OF s3]])
      have "keeps D s3 s4" if "e = ERR_NONE"
        by (rule keeps_delete_message [OF blank s4]) (use keeps_process(2) [OF s3 that] saved_accounted in blast)
      then have k4: "keeps D s s4" if "e = ERR_NONE" using keeps_trans [OF k3] that by blast
      have "s' = (if \<not> go then s2 else if e \<noteq> ERR_NONE then s3 else s4)"
        using r not_all True mark s2 s3 s4 by (auto simp: process_linked_def s1_def split: if_splits)
      then show ?thesis using k2 k3 k4 by simp
    next
      case False
      let ?rest = "remaining_parts env m flags"
      obtain e s2 where s2: "SMSD_ProcessSMS env ?rest s1 = (e, s2)" by fastforce
      obtain e2 s4 where s4: "SMSD_DeleteSMSParts env True m (cache_parts (parts ?rest) s2) = (e2, s4)" by fastforce
      have k2: "keeps D s s2" by (rule keeps_trans [OF k1 keeps_process(1) [OF s2]])
      have "keeps D s s4" if e: "e = ERR_NONE"
      proof -
        have k3: "keeps D s (cache_parts (parts ?rest) s2)"
          by (rule keeps_trans [OF k2 keeps_cache_parts]) (use keeps_process(2) [OF s2 e] in blast)
        have "accounted D (trace s2) (sms\<lparr>Folder := 0\<rparr>)" if sms: "sms \<in> set (parts m)" for sms
        proof -
          have "length (parts m) \<le> length flags" using length_flags [OF mark] False by (auto simp: parts_def)
          moreover obtain k where "k < length (parts m)" "parts m ! k = sms" using sms by (auto simp: in_set_conv_nth)
          ultimately have "(sms, flags ! k) \<in> set (zip (parts m) flags)" by (auto simp: in_set_zip)
          then obtain b where b: "(sms, b) \<in> set (zip (parts m) flags)" by blast
          show ?thesis
          proof (cases b)
            case True
            then obtain d where "identity sms = Some d" "d \<in># digests (processed_cache s)" using mark_known [OF mark] b by auto
            then show ?thesis using known keeps_accounted [OF inv k2] by blast
          next
            case False
            then have "sms \<in> set (parts ?rest)" using b by (force simp: parts_remaining)
            then show ?thesis using keeps_process(2) [OF s2 e] saved_accounted by blast
          qed
        qed
        then have "keeps D (cache_parts (parts ?rest) s2) s4"
          by (intro keeps_delete_message [OF blank s4]) (simp add: cache_parts_def)
        then show ?thesis using keeps_trans [OF k3] by blast
      qed
      moreover have "s' = (if e \<noteq> ERR_NONE then s2 else s4)"
        using r not_all False mark s2 s4 by (auto simp: process_linked_def s1_def Let_def split: if_splits)
      ultimately show ?thesis using k2 by simp
    qed
  qed
qed

lemma keeps_process_sorted:
  "0 < length (Multi_SMS (env_blank env)) \<Longrightarrow>
   process_sorted env ms s = (ok, s') \<Longrightarrow> keeps D s s'"
proof (induction ms arbitrary: s)
  case (Cons m ms)
  obtain ok1 s1 where s1: "process_linked env m s = (ok1, s1)" by fastforce
  have k: "keeps D s s1" by (rule keeps_process_linked [OF Cons.prems(1) s1])
  then show ?case using Cons keeps_trans [OF k] s1 by (auto split: if_splits)
qed simp

lemma keeps_read_delete:
  assumes blank: "0 < length (Multi_SMS (env_blank env))" and r: "SMSD_ReadDeleteSMS env s = Some (Done (result, s'))"
  shows "keeps D s s'"
proof -
  have k0: "keeps D s (s\<lparr>IgnoredMessages := 0\<rparr>)" by (rule keeps_same) simp_all
  obtain got s1 where s1: "read_loop env True [] (s\<lparr>IgnoredMessages := 0\<rparr>) = Some (Done (got, s1))"
    using r by (auto simp: SMSD_ReadDeleteSMS_def split: option.splits outcome.splits)
  have k1: "keeps D s s1" by (rule keeps_trans [OF k0 keeps_read_loop [OF blank s1]])
  have "s' = s1 \<or> (\<exists>out. process_sorted env out s1 = (result, s'))"
    using r s1 by (auto simp: SMSD_ReadDeleteSMS_def split: option.splits if_splits link_result.splits)
  then show ?thesis using k1 keeps_trans [OF k1 keeps_process_sorted [OF blank]] by blast
qed

lemma keeps_poll: "keeps D s (poll_in_progress b s)" "keeps D s (end_poll b s)"
  by (auto simp: poll_in_progress_def end_poll_def digests_def intro!: keeps_cache)

lemma keeps_check_status:
  assumes blank: "0 < length (Multi_SMS (env_blank env))" and r: "SMSD_CheckSMSStatus env s = Some (Done (result, s'))"
  shows "keeps D s s'"
proof -
  obtain e used s1 where s1: "GSM_GetSMSStatus env (poll_in_progress True s) = (e, used, s1)" by (metis prod_cases3)
  obtain e2 m s2 where s2: "GSM_GetNextSMS env True s1 = (e2, m, s2)" by (metis prod_cases3)
  have k1: "keeps D s s1" by (rule keeps_trans [OF keeps_poll(1) keeps_status [OF blank s1]])
  have k2: "keeps D s s2" by (rule keeps_trans [OF k1 keeps_get_next [OF blank s2]])
  have k3: "keeps D s s4" if "SMSD_ReadDeleteSMS env s3 = Some (Done (b, s4))" "s3 = s1 \<or> s3 = s2" for s3 s4 b
    using keeps_trans [OF k1] keeps_trans [OF k2] keeps_read_delete [OF blank that(1)] that(2) by blast
  have "\<exists>s3 b. keeps D s s3 \<and> s' = end_poll b s3"
    using r k1 k2 k3
    by (auto simp: SMSD_CheckSMSStatus_def s1 s2 Let_def split: if_splits option.splits outcome.splits)
  then show ?thesis using keeps_trans keeps_poll(2) by blast
qed

text \<open>What the daemon does about incoming messages: polls, notices worked off, and callbacks between them.\<close>

inductive receive_step :: "environment \<Rightarrow> smsd \<Rightarrow> smsd \<Rightarrow> bool" for env where
  poll: "SMSD_CheckSMSStatus env s = Some (Done (result, s')) \<Longrightarrow> receive_step env s s'"
| notices: "SMSD_ProcessSMSInfoCache env s = Some (Done (error, s')) \<Longrightarrow> receive_step env s s'"
| callback: "receive_step env s (SMSD_IncomingSMSCallback env incoming s)"

inductive_cases receive_stepE: "receive_step env s s'"

lemma keeps_receive_step: "receive_step env s s' \<Longrightarrow> 0 < length (Multi_SMS (env_blank env)) \<Longrightarrow> keeps D s s'"
  by (auto simp: SMSD_ProcessSMSInfoCache_def elim!: receive_stepE intro: keeps_check_status keeps_info keeps_callback)

lemma keeps_receive_steps: "(receive_step env)\<^sup>*\<^sup>* s s' \<Longrightarrow> 0 < length (Multi_SMS (env_blank env)) \<Longrightarrow> keeps D s s'"
  by (induction rule: rtranclp_induct) (auto intro: keeps_trans keeps_receive_step)

text \<open>
  Claim C6. From its start on, whatever the phone answers and whichever callbacks run meanwhile, the daemon
  deletes a message only after the storage service had taken it, or had taken a message with the same
  identity: sender, times, header and text.
\<close>

theorem receive_deletes_saved_only:
  assumes "(receive_step env)\<^sup>*\<^sup>* s s'" "0 < length (Multi_SMS (env_blank env))"
    "trace s = []" "ProcessedSMS (processed_cache s) = []"
    "k < length (trace s')" "trace s' ! k = Deleted sms error"
  shows "\<exists>j<k. \<exists>m. trace s' ! j = Saved m ERR_NONE
    \<and> (\<exists>part \<in> set (parts m). sms = part\<lparr>Folder := 0\<rparr> \<or> identity sms \<noteq> None \<and> identity part = identity sms)"
proof -
  have "receive_inv {} s" using assms(3,4) by (simp add: receive_inv_def safe_trace_def digests_def)
  then have "receive_inv {} s'" using keeps_receive_steps [OF assms(1,2), of "{}"] by (simp add: keeps_def)
  then have "accounted {} (take k (trace s')) sms" using assms(5,6) by (auto simp: receive_inv_def safe_trace_def)
  then obtain part where "saved_part (take k (trace s')) part"
    "sms = part\<lparr>Folder := 0\<rparr> \<or> identity sms \<noteq> None \<and> identity part = identity sms"
    unfolding accounted_def known_digest_def by auto
  then show ?thesis using assms(5) by (fastforce simp: saved_part_def in_set_conv_nth)
qed


subsection \<open>Waiting for missing parts\<close>

text \<open>
  What the wait promises: at most one incomplete message is waited for, from the time it was first
  seen; it is given up to what has come when the time is over.
\<close>

datatype wait = Idle | Waiting int int

fun await :: "int \<Rightarrow> int \<Rightarrow> GSM_MultiSMSMessage \<Rightarrow> wait \<Rightarrow> bool \<times> wait" where
  "await timeout now m w =
     (if UDH_Type (UDH (sms0 m)) = UDH_NoUDH \<or> AllParts (UDH (sms0 m)) = -1 then (True, w)
      else if AllParts (UDH (sms0 m)) = int (Multi_Number m) then
        (True, case w of Waiting i since \<Rightarrow> (if i = current_id m then Idle else w) | Idle \<Rightarrow> Idle)
      else case w of Idle \<Rightarrow> (False, Waiting (current_id m) now)
           | Waiting i since \<Rightarrow> if i = current_id m \<and> now - since \<ge> timeout then (True, Idle) else (False, w))"

definition wait_of :: "smsd \<Rightarrow> wait" where
  "wait_of s = (if IncompleteMessageTime s = 0 then Idle else Waiting (IncompleteMessageID s) (IncompleteMessageTime s))"

definition wait_inv :: "smsd \<Rightarrow> bool" where
  "wait_inv s \<longleftrightarrow> (IncompleteMessageTime s = 0 \<longleftrightarrow> IncompleteMessageID s = -1)"

text \<open>
  Claim C22. The check of a possibly incomplete message does what \<open>await\<close> says: complete messages pass at
  once, an incomplete one is waited for and passes when it is seen after the time is over, and one whose turn
  has not come is left. Messages without a number and the clock value 0 aside.
\<close>

theorem multipart_wait_refines:
  assumes "wait_inv s" "current_id m \<noteq> -1" "env_time env (trace s) \<noteq> 0"
  shows "case SMSD_CheckMultipart env m s of (go_on, s') \<Rightarrow>
    await (multiparttimeout s) (env_time env (trace s)) m (wait_of s) = (go_on, wait_of s')
    \<and> wait_inv s' \<and> multiparttimeout s' = multiparttimeout s"
  using assms by (auto simp: SMSD_CheckMultipart_def Let_def wait_inv_def wait_of_def read_clock_def log_action_def)

text \<open>An incomplete message is not looked at while another one is waited for, however long that takes.\<close>

lemma incomplete_starves:
  assumes "UDH_Type (UDH (sms0 m)) \<noteq> UDH_NoUDH" "AllParts (UDH (sms0 m)) \<notin> {-1, int (Multi_Number m)}"
    "IncompleteMessageTime s \<noteq> 0" "IncompleteMessageID s \<noteq> current_id m"
  shows "SMSD_CheckMultipart env m s = (False, s\<lparr>ProcessingIncompleteMessage := False\<rparr>)"
  using assms by (simp add: SMSD_CheckMultipart_def Let_def)

subsection \<open>A poll that meets no trouble\<close>

text \<open>The phone holds the messages \<open>ms\<close> and gives them one after the other; nothing fails, and no callback runs.\<close>

definition since_start :: "action list \<Rightarrow> nat" where
  "since_start t = foldl (\<lambda>n a. case a of NextSMS start _ _ \<Rightarrow> (if start then 1 else n + 1) | _ \<Rightarrow> n) 0 t"

definition untroubled :: "environment \<Rightarrow> GSM_MultiSMSMessage list \<Rightarrow> bool" where
  "untroubled env ms \<longleftrightarrow>
     (\<forall>t start. env_next env t start =
        (let k = (if start then 0 else since_start t) in if k < length ms then (ERR_NONE, ms ! k, []) else (ERR_EMPTY, env_blank env, [])))
     \<and> (\<forall>t sms. env_delete env t sms = (ERR_NONE, sms, [])) \<and> (\<forall>t m. env_save env t m = ERR_NONE) \<and> (\<forall>t. \<not> env_shutdown env t)"

fun readings :: "environment \<Rightarrow> bool \<Rightarrow> GSM_MultiSMSMessage list \<Rightarrow> action list" where
  "readings env start [] = [NextSMS start ERR_EMPTY (env_blank env)]"
| "readings env start (m # ms) = NextSMS start ERR_NONE m # readings env False ms"

definition handling :: "bool \<Rightarrow> GSM_MultiSMSMessage \<Rightarrow> action list" where
  "handling runs m = Saved m ERR_NONE # (if runs then [RanReceive m] else [])
     @ map (\<lambda>sms. Deleted (sms\<lparr>Folder := 0\<rparr>) ERR_NONE) (parts m)"

definition complete :: "GSM_MultiSMSMessage \<Rightarrow> bool" where
  "complete m \<longleftrightarrow> Multi_Number m \<noteq> 0
     \<and> (UDH_Type (UDH (sms0 m)) = UDH_NoUDH \<or> AllParts (UDH (sms0 m)) = -1 \<or> AllParts (UDH (sms0 m)) = int (Multi_Number m))"

lemma info_loop_none: "smsInfo_records s = [] \<Longrightarrow> SMSD_ProcessSMSInfoCacheInternal env tokens s = Some (Done (ERR_NONE, s))"
  by (simp add: SMSD_ProcessSMSInfoCacheInternal_def info_loop.simps)

lemma valid_same:
  assumes "IncludeNumbersList s' = IncludeNumbersList s" "ExcludeNumbersList s' = ExcludeNumbersList s"
    "IncludeSMSCList s' = IncludeSMSCList s" "ExcludeSMSCList s' = ExcludeSMSCList s"
  shows "SMSD_ValidMessage loc s' m = SMSD_ValidMessage loc s m"
proof -
  have "SMSD_CheckSMSCNumber s' = SMSD_CheckSMSCNumber s" "SMSD_CheckRemoteNumber s' = SMSD_CheckRemoteNumber s"
    using assms by (simp_all add: SMSD_CheckSMSCNumber_def SMSD_CheckRemoteNumber_def fun_eq_iff)
  then show ?thesis by (simp only: SMSD_ValidMessage_def)
qed

lemma read_loop_untroubled:
  assumes "untroubled env ms" "smsInfo_records s = []"
    "\<forall>m \<in> set ms. SMSD_ValidMessage (env_locale env) s m = Some True"
    "k \<le> length ms" "k = (if start then 0 else since_start (trace s))"
  shows "read_loop env start got s = Some (Done (Some (got @ drop k ms), s\<lparr>trace := trace s @ readings env start (drop k ms)\<rparr>))"
  using assms(2-)
proof (induction "length ms - k" arbitrary: k start got s)
  case 0
  then show ?case using assms(1)
    by (simp add: read_loop.simps [of env start] read_step_def GSM_GetNextSMS_def untroubled_def callbacks_def log_action_def
        info_loop_none)
next
  case (Suc n)
  let ?s = "log_action (NextSMS start ERR_NONE (ms ! k)) s"
  have k: "k < length ms" using Suc.hyps(2) by linarith
  have "read_step env start got s = Some (Inr (got @ [ms ! k], ?s))"
    using assms(1) Suc.prems k valid_same [of ?s s "env_locale env" "ms ! k"]
    by (simp add: read_step_def GSM_GetNextSMS_def untroubled_def callbacks_def log_action_def info_loop_none)
  then have "read_loop env start got s = read_loop env False (got @ [ms ! k]) ?s"
    using assms(1) by (simp add: read_loop.simps [of env start] untroubled_def)
  also have "\<dots> = Some (Done (Some ((got @ [ms ! k]) @ drop (k + 1) ms), ?s\<lparr>trace := trace ?s @ readings env False (drop (k + 1) ms)\<rparr>))"
    by (rule Suc.hyps(1))
      (use Suc.hyps(2) Suc.prems k valid_same [of ?s s] in \<open>auto simp: log_action_def since_start_def\<close>)
  finally show ?case using k by (simp add: log_action_def Cons_nth_drop_Suc [symmetric])
qed

lemma prune_empty: "ProcessedSMS c = [] \<Longrightarrow> SMSD_PruneProcessedSMS c = c"
  by (cases c) (simp add: SMSD_PruneProcessedSMS_def)

lemma delete_parts_untroubled:
  assumes "untroubled env ms" "ProcessedSMS (processed_cache s) = []"
  shows "delete_parts env tokens smss s =
    (ERR_NONE, s\<lparr>trace := trace s @ map (\<lambda>sms. Deleted (sms\<lparr>Folder := 0\<rparr>) ERR_NONE) smss\<rparr>)"
  using assms(2)
proof (induction smss arbitrary: s)
  case (Cons sms smss)
  have "SMSD_ConsumeProcessedSMS c left = c" if "ProcessedSMS c = []" for c left
    using that by (simp add: SMSD_ConsumeProcessedSMS_def prune_empty SMSD_FindProcessedSMS_def split: option.split)
  then have "consume left s' = s'" if "ProcessedSMS (processed_cache s') = []" for s' left
    using that by (simp add: consume_def)
  then show ?case
    using Cons assms(1) by (simp add: GSM_DeleteSMS_def untroubled_def callbacks_def log_action_def)
qed simp

lemma mark_empty: "ProcessedSMS c = [] \<Longrightarrow> \<exists>flags. SMSD_MarkProcessedSMS c m = (0, flags, c)"
proof -
  assume c: "ProcessedSMS c = []"
  have none: "\<exists>ps. mark_messages c msgs r = (ps, r) \<and> filter id ps = []" for msgs r
  proof (induction msgs)
    case (Cons sms msgs)
    then show ?case using c by (auto simp: SMSD_FindProcessedSMS_def split: option.splits)
  qed simp
  show ?thesis
    using prune_empty [OF c] none [of "take (Multi_Number m) (Multi_SMS m)" "replicate SMSD_PROCESSED_SMS_CACHE_SIZE False"] c
    by (auto simp: SMSD_MarkProcessedSMS_def Let_def)
qed

lemma process_linked_untroubled:
  assumes "untroubled env ms" "ProcessedSMS (processed_cache s) = []" "complete m"
  shows "\<exists>s'. process_linked env m s = (True, s') \<and> trace s' = trace s @ handling (RunOnReceive s) m
    \<and> ProcessedSMS (processed_cache s') = [] \<and> RunOnReceive s' = RunOnReceive s"
proof -
  obtain flags where mark: "SMSD_MarkProcessedSMS (processed_cache s) m = (0, flags, processed_cache s)"
    using mark_empty [OF assms(2)] by blast
  obtain b s1 where c: "SMSD_CheckMultipart env m s = (b, s1)" by fastforce
  then have s1: "SMSD_CheckMultipart env m s = (True, s1)" "trace s1 = trace s" "processed_cache s1 = processed_cache s"
    "RunOnReceive s1 = RunOnReceive s"
    using assms(3) by (auto simp: SMSD_CheckMultipart_def Let_def complete_def split: if_splits)
  have save: "env_save env t m = ERR_NONE" for t using assms(1) by (simp add: untroubled_def)
  obtain s2 where s2: "SMSD_ProcessSMS env m s1 = (ERR_NONE, s2)"
    "trace s2 = trace s @ Saved m ERR_NONE # (if RunOnReceive s then [RanReceive m] else [])"
    "processed_cache s2 = processed_cache s" "RunOnReceive s2 = RunOnReceive s"
    using s1 save by (simp add: SMSD_ProcessSMS_def Let_def log_action_def)
  show ?thesis
    using mark s1 s2 assms(2,3) delete_parts_untroubled [OF assms(1), of s2 True "parts m"]
    by (simp add: process_linked_def SMSD_DeleteSMSParts_def handling_def complete_def Let_def)
qed

lemma process_sorted_untroubled:
  assumes "untroubled env ms" "ProcessedSMS (processed_cache s) = []" "\<forall>m \<in> set out. complete m"
  shows "\<exists>s'. process_sorted env out s = (True, s') \<and> trace s' = trace s @ concat (map (handling (RunOnReceive s)) out)"
  using assms(2,3)
proof (induction out arbitrary: s)
  case (Cons m out)
  then obtain s1 where s1: "process_linked env m s = (True, s1)" "trace s1 = trace s @ handling (RunOnReceive s) m"
    "ProcessedSMS (processed_cache s1) = []" "RunOnReceive s1 = RunOnReceive s"
    using process_linked_untroubled [OF assms(1)] by (metis list.set_intros(1))
  then show ?case using Cons.IH [of s1] Cons.prems by auto
qed simp

lemma untroubled_poll:
  assumes "untroubled env ms" "ms \<noteq> []" "\<forall>m \<in> set ms. SMSD_ValidMessage (env_locale env) s m = Some True"
    "GSM_LinkSMS (env_locale env) True (env_blank env) ms = Some (Linked out)" "\<forall>m \<in> set out. complete m"
    "smsInfo_records s = []" "ProcessedSMS (processed_cache s) = []"
  shows "\<exists>s'. SMSD_ReadDeleteSMS env s = Some (Done (True, s'))
    \<and> trace s' = trace s @ readings env True ms @ concat (map (handling (RunOnReceive s)) out)"
proof -
  let ?s = "s\<lparr>IgnoredMessages := 0\<rparr>"
  have "\<forall>m \<in> set ms. SMSD_ValidMessage (env_locale env) ?s m = Some True"
    using assms(3) valid_same [of ?s s] by simp
  then have "read_loop env True [] ?s = Some (Done (Some ms, ?s\<lparr>trace := trace s @ readings env True ms\<rparr>))"
    using read_loop_untroubled [OF assms(1), of ?s 0 True "[]"] assms(6) by simp
  moreover obtain s' where "process_sorted env out (?s\<lparr>trace := trace s @ readings env True ms\<rparr>) = (True, s')"
    "trace s' = (trace s @ readings env True ms) @ concat (map (handling (RunOnReceive s)) out)"
    using process_sorted_untroubled [OF assms(1) _ assms(5), of "?s\<lparr>trace := trace s @ readings env True ms\<rparr>"] assms(7) by auto
  ultimately show ?thesis using assms(2,4) by (simp add: SMSD_ReadDeleteSMS_def)
qed

text \<open>
  Claim C13. A poll that meets no trouble reads all messages of the phone, links them, and hands each linked
  message over to the storage service once and in order, each directly followed by the deletion of its parts;
  nothing else is saved or deleted.
\<close>

theorem poll_handles_messages:
  assumes "untroubled env ms" "ms \<noteq> []" "\<forall>m \<in> set ms. SMSD_ValidMessage (env_locale env) s m = Some True"
    "GSM_LinkSMS (env_locale env) True (env_blank env) ms = Some (Linked out)" "\<forall>m \<in> set out. complete m"
    "smsInfo_records s = []" "ProcessedSMS (processed_cache s) = []"
  shows "\<exists>s'. SMSD_ReadDeleteSMS env s = Some (Done (True, s'))
    \<and> trace s' = trace s @ readings env True ms @ concat (map (handling (RunOnReceive s)) out)"
  using untroubled_poll [OF assms] .

subsection \<open>A phone with one message\<close>

definition inbox_sms :: GSM_SMSMessage where
  "inbox_sms = blank_sms\<lparr>InboxFolder := True, PDU := SMS_Deliver, Coding := SMS_Coding_Default_No_Compression\<rparr>"

definition mailbox :: "GSM_MultiSMSMessage list \<Rightarrow> environment" where
  "mailbox ms =
     \<lparr>env_next = (\<lambda>t start. let k = (if start then 0 else since_start t) in
        if k < length ms then (ERR_NONE, ms ! k, []) else (ERR_EMPTY, blank_multi, [])),
      env_get = (\<lambda>t sms. (ERR_EMPTY, blank_multi, [])), env_status = (\<lambda>t. (ERR_NONE, int (length ms), [])),
      env_delete = (\<lambda>t sms. (ERR_NONE, sms, [])), env_save = (\<lambda>t m. ERR_NONE), env_time = (\<lambda>t. 1000),
      env_shutdown = (\<lambda>t. False), env_locale = posix_locale, env_blank = blank_multi\<rparr>"

definition fresh_smsd :: smsd where
  "fresh_smsd =
     \<lparr>IncludeNumbersList = [], ExcludeNumbersList = [], IncludeSMSCList = [], ExcludeSMSCList = [], RunOnReceive = True,
      multiparttimeout = 600, IncompleteMessageID = -1, IncompleteMessageTime = 0, ProcessingIncompleteMessage = False,
      IgnoredMessages = 0, Received = 0,
      processed_cache = \<lparr>ProcessedSMS = [], ReceivePollCount = 0, ReceivePollInProgress = False\<rparr>,
      smsInfo_records = [], cache_size = 0, generation = 0, trace = []\<rparr>"

lemma mailbox_simps [simp]:
  "env_next (mailbox ms) t start = (let k = (if start then 0 else since_start t) in
     if k < length ms then (ERR_NONE, ms ! k, []) else (ERR_EMPTY, blank_multi, []))"
  "env_status (mailbox ms) t = (ERR_NONE, int (length ms), [])" "env_delete (mailbox ms) t sms = (ERR_NONE, sms, [])"
  "env_save (mailbox ms) t m = ERR_NONE" "env_time (mailbox ms) t = 1000" "env_shutdown (mailbox ms) t = False"
  "env_locale (mailbox ms) = posix_locale" "env_blank (mailbox ms) = blank_multi"
  by (simp_all add: mailbox_def)

lemma untroubled_mailbox: "untroubled (mailbox ms) ms"
  by (simp add: untroubled_def Let_def)

lemma inbox_plain: "GSM_DecodeSiemensOTASMS inbox_sms = None" "UDH_Type (UDH inbox_sms) = UDH_NoUDH"
  by code_simp+

lemma inbox_linked: "GSM_LinkSMS loc True blank [received inbox_sms] = Some (Linked [received inbox_sms])"
proof -
  have "link_valid (received inbox_sms)"
    by (simp add: link_valid_def inbox_sms_def blank_sms_def sms_limits GSM_MAX_MULTI_SMS_def udh_row_def)
  moreover have "number_users [received inbox_sms] = Some [received inbox_sms]"
    by (simp add: number_user_def inbox_plain)
  ultimately show ?thesis
    by (simp add: GSM_LinkSMS_def link_loop.simps link_step_def link_linked_def link_plain_def link_copy_def inbox_plain)
qed

lemma inbox_valid: "InboxFolder inbox_sms" "SMSC_Number (SMSC inbox_sms) = []" "SMS_Number inbox_sms = []"
  by (simp_all add: inbox_sms_def blank_sms_def)

lemma fresh_valid: "SMSD_ValidMessage loc fresh_smsd (received inbox_sms) = Some True"
  by (simp add: SMSD_ValidMessage_def inbox_valid number_buffer_def SMSD_CheckSMSCNumber_def SMSD_CheckRemoteNumber_def fresh_smsd_def)

lemma fresh_simps [simp]: "ProcessedSMS (processed_cache fresh_smsd) = []" "smsInfo_records fresh_smsd = []" "trace fresh_smsd = []"
  "RunOnReceive fresh_smsd = True"
  by (simp_all add: fresh_smsd_def)

theorem poll_handles_messages_witness:
  "\<exists>s'. SMSD_ReadDeleteSMS (mailbox [received inbox_sms]) fresh_smsd = Some (Done (True, s'))
    \<and> trace s' = [NextSMS True ERR_NONE (received inbox_sms), NextSMS False ERR_EMPTY blank_multi,
        Saved (received inbox_sms) ERR_NONE, RanReceive (received inbox_sms), Deleted (inbox_sms\<lparr>Folder := 0\<rparr>) ERR_NONE]"
  using poll_handles_messages [OF untroubled_mailbox, of "[received inbox_sms]" fresh_smsd "[received inbox_sms]"]
  by (simp add: fresh_valid inbox_linked complete_def inbox_plain handling_def)

theorem receive_deletes_saved_only_witness:
  "\<exists>s' k. (receive_step (mailbox [received inbox_sms]))\<^sup>*\<^sup>* fresh_smsd s' \<and> trace s' ! k = Deleted (inbox_sms\<lparr>Folder := 0\<rparr>) ERR_NONE
    \<and> (\<exists>j<k. \<exists>m. trace s' ! j = Saved m ERR_NONE)"
proof -
  let ?env = "mailbox [received inbox_sms]"
  let ?s = "log_action (AskedStatus ERR_NONE) (poll_in_progress True fresh_smsd)"
  have "SMSD_ValidMessage posix_locale ?s (received inbox_sms) = Some True"
    using fresh_valid valid_same [of ?s fresh_smsd] by (simp add: log_action_def poll_in_progress_def)
  then obtain s' where s': "SMSD_ReadDeleteSMS ?env ?s = Some (Done (True, s'))"
    "trace s' = trace ?s @ readings ?env True [received inbox_sms] @ handling True (received inbox_sms)"
    using untroubled_poll [OF untroubled_mailbox, of "[received inbox_sms]" ?s "[received inbox_sms]"]
    by (auto simp: inbox_linked complete_def inbox_plain log_action_def poll_in_progress_def)
  have "SMSD_CheckSMSStatus ?env fresh_smsd = Some (Done (True, end_poll True s'))"
    using s'(1) by (simp add: SMSD_CheckSMSStatus_def GSM_GetSMSStatus_def callbacks_def log_action_def poll_in_progress_def
        fresh_smsd_def)
  then have steps: "(receive_step ?env)\<^sup>*\<^sup>* fresh_smsd (end_poll True s')" by (blast intro: receive_step.poll)
  moreover have t: "trace (end_poll True s') ! 5 = Deleted (inbox_sms\<lparr>Folder := 0\<rparr>) ERR_NONE" "5 < length (trace (end_poll True s'))"
    using s'(2) by (simp_all add: end_poll_def poll_in_progress_def handling_def log_action_def numeral_eq_Suc)
  ultimately show ?thesis
    using receive_deletes_saved_only [OF steps _ _ _ t(2,1)] by (auto simp: blank_multi)
qed

theorem multipart_wait_refines_witness:
  "case SMSD_CheckMultipart (mailbox []) (received (part_sms 7 2 1)) fresh_smsd of (go_on, s') \<Rightarrow>
     \<not> go_on \<and> wait_of s' = Waiting 7 1000"
  using multipart_wait_refines [of fresh_smsd "received (part_sms 7 2 1)" "mailbox []"]
  by (auto simp: wait_inv_def fresh_smsd_def current_id_def wait_of_def split: prod.splits)

subsection \<open>Where the code goes wrong\<close>

text \<open>
  A notice that arrives while a stored message is read may move the array of notices; the entry in work is then
  used through the old pointer, here for the message about a failed read.
\<close>

lemma notice_moves_array:
  assumes "i < length (smsInfo_records s)" "Memory (smsInfo_records s ! i) \<noteq> MEM_INVALID"
    "cache_size s \<le> length (smsInfo_records s)" "env_get env (trace s) (smsInfo_records s ! i) = (error, m, [Notice sms])"
    "error \<noteq> ERR_NONE"
  shows "info_loop env tokens i s = Some Stale"
  using assms
  by (simp add: info_loop.simps [of env tokens i s] info_step_def GSM_GetSMS_def callbacks_def log_action_def
      SMSD_IncomingSMSCallback_def SMSD_IncomingSMSInfoCallback_def)

text \<open>A sender of 100 octets or more, of which a message can have 200, is written behind the buffer.\<close>

lemma long_sender_overruns:
  assumes "InboxFolder (sms0 m)" "number_buffer loc (SMSC_Number (SMSC (sms0 m))) = Some smsc" "SMSD_CheckSMSCNumber s smsc"
    "100 \<le> length (DecodeUnicode loc (cstr (SMS_Number (sms0 m))))"
  shows "SMSD_ValidMessage loc s m = None"
  using assms by (simp add: SMSD_ValidMessage_def number_buffer_def [of loc "SMS_Number (sms0 m)"])

end
