(* ===== verification/SmsdSend.thy ===== *)
theory SmsdSend imports SmsdReceive Unicode begin

text \<open>
  The sending side of the daemon, \<^verbatim>\<open>SMSD_SendSMS\<close> of \<^verbatim>\<open>smsd/core.c\<close>: one message of the outbox is looked up, its parts
  are handed to the phone one after the other, each is waited for and recorded, and the message is moved.
  The storage service, the phone and the clock are an environment as for receiving, with a history of
  their own. Whenever the phone is asked or read, the driver may call back: with the status of a part
  handed over, which the history notes, or with a message that has come in, which goes to the receiving
  side; that side has a part in it also because notices are worked off between parts.
\<close>

datatype GSM_SMSDSendingError =
    SMSD_SEND_OK | SMSD_SEND_SENDING_ERROR | SMSD_SEND_DELIVERY_PENDING | SMSD_SEND_DELIVERY_FAILED
  | SMSD_SEND_DELIVERY_OK | SMSD_SEND_DELIVERY_UNKNOWN | SMSD_SEND_ERROR

datatype send_action =
    LookedUp GSM_Error
  | AskedSMSC int GSM_Error
  | Submitted nat GSM_SMSMessage GSM_Error
  | Dialled nat bool "byte list" GSM_Error
  | Refreshed
  | Polled
  | Reported int int int
  | Recorded nat GSM_SMSDSendingError int GSM_Error
  | Moved bool bool GSM_Error
  | UpdatedRetries int int
  | RanSent
  | RanFailure

text \<open>What \<^verbatim>\<open>FindOutboxSMS\<close> sets: the message, its name and the fields of the configuration that belong to it.\<close>

record outbox =
  ob_SMSID :: string
  ob_sms :: GSM_MultiSMSMessage
  ob_retries :: "32 word"
  ob_SkipMessage :: "bool list"
  ob_currdeliveryreport :: int
  ob_relativevalidity :: int

text \<open>
  What the driver calls back with: the status and the reference of the part under way, or what has come
  in. While the phone is asked for a center no part is under way.
\<close>

datatype phone_event = SendStatus int int | Incoming incoming

record send_environment =
  service_find :: "send_action list \<Rightarrow> GSM_Error \<times> outbox"
  service_record :: "send_action list \<Rightarrow> nat \<Rightarrow> GSM_SMSDSendingError \<Rightarrow> int \<Rightarrow> GSM_Error"
  service_move :: "send_action list \<Rightarrow> bool \<Rightarrow> bool \<Rightarrow> GSM_Error"
  modem_smsc :: "send_action list \<Rightarrow> int \<Rightarrow> GSM_Error \<times> GSM_SMSC \<times> incoming list"
  modem_send :: "send_action list \<Rightarrow> GSM_SMSMessage \<Rightarrow> GSM_Error \<times> phone_event list"
  modem_dial :: "send_action list \<Rightarrow> bool \<Rightarrow> byte list \<Rightarrow> GSM_Error \<times> phone_event list"
  modem_read :: "send_action list \<Rightarrow> phone_event list"
  clock_second :: "send_action list \<Rightarrow> int"
  send_shutdown :: "send_action list \<Rightarrow> bool"
  receive_env :: environment

record sender =
  maxretries :: "32 word"
  sendtimeout :: "32 word"
  deliveryreport :: string
  RunOnSent :: bool
  RunOnFailure :: bool
  SMSID :: string
  prevSMSID :: string
  retries :: "32 word"
  SkipMessage :: "bool list"
  currdeliveryreport :: int
  relativevalidity :: int
  ConfigSMSC :: GSM_SMSC
  SMSCCache :: GSM_SMSC
  TPMR :: int
  StatusCode :: int
  Part :: int
  SendingSMSStatus :: GSM_Error
  Sent :: int
  Failed :: int
  receiver :: smsd
  sends :: "send_action list"

definition note_send :: "send_action \<Rightarrow> sender \<Rightarrow> sender" where
  "note_send a s = s\<lparr>sends := sends s @ [a]\<rparr>"

subsection \<open>The status of a part\<close>

text \<open>The history notes the part the configuration names as under way, from 1, with its status and reference.\<close>

definition SMSD_SendSMSStatusCallback :: "int \<Rightarrow> int \<Rightarrow> sender \<Rightarrow> sender" where
  "SMSD_SendSMSStatusCallback status mr s =
     note_send (Reported (Part s) status mr)
       (s\<lparr>TPMR := mr, SendingSMSStatus := (if status = 0 then ERR_NONE else ERR_UNKNOWN), StatusCode := status\<rparr>)"

definition called_back :: "send_environment \<Rightarrow> phone_event \<Rightarrow> sender \<Rightarrow> sender" where
  "called_back env event s =
     (case event of SendStatus status mr \<Rightarrow> SMSD_SendSMSStatusCallback status mr s
      | Incoming incoming \<Rightarrow> s\<lparr>receiver := SMSD_IncomingSMSCallback (receive_env env) incoming (receiver s)\<rparr>)"

definition phone_events :: "send_environment \<Rightarrow> phone_event list \<Rightarrow> sender \<Rightarrow> sender" where
  "phone_events env events s = fold (called_back env) events s"

text \<open>The wait for the clock to leave the second \<open>z\<close>, reading from the device, and the seconds waited for.\<close>

partial_function (option) wait_second :: "send_environment \<Rightarrow> int \<Rightarrow> sender \<Rightarrow> sender option" where
  "wait_second env z s =
     (let now = clock_second env (sends s); s1 = phone_events env (modem_read env (sends s)) (note_send Polled s) in
      if SendingSMSStatus s1 \<noteq> ERR_TIMEOUT \<or> z \<noteq> now then Some s1 else wait_second env z s1)"

partial_function (option) wait_status :: "send_environment \<Rightarrow> 32 word \<Rightarrow> sender \<Rightarrow> sender option" where
  "wait_status env j s =
     (if send_shutdown env (sends s) then Some s
      else
        let s1 = note_send Refreshed s; z = clock_second env (sends s1) in
        case wait_second env z (note_send Polled s1) of None \<Rightarrow> None
        | Some s2 \<Rightarrow>
            if SendingSMSStatus s2 \<noteq> ERR_TIMEOUT \<or> j + 1 > sendtimeout s2 then Some s2
            else wait_status env (j + 1) s2)"

subsection \<open>One part\<close>

definition with_validity :: "sender \<Rightarrow> GSM_SMSC \<Rightarrow> GSM_SMSC" where
  "with_validity s c =
     (if relativevalidity s \<noteq> -1
      then c\<lparr>Validity := \<lparr>Validity_Format = SMS_Validity_RelativeFormat, Relative = word_of_int (relativevalidity s)\<rparr>\<rparr> else c)"

text \<open>The center a part is sent through; \<open>None\<close>: the phone did not give it.\<close>

definition choose_smsc :: "send_environment \<Rightarrow> GSM_SMSC \<Rightarrow> sender \<Rightarrow> GSM_SMSC option \<times> sender" where
  "choose_smsc env c0 s =
     (let c1 = (if SMSC_Location c0 = 0 \<and> UnicodeLength (SMSC_Number c0) = 0 \<and> SMSC_Location (ConfigSMSC s) = 0
                then with_validity s (ConfigSMSC s) else c0);
          c2 = (if SMSC_Location c1 = 0 \<and> UnicodeLength (SMSC_Number c1) = 0 then c1\<lparr>SMSC_Location := 1\<rparr> else c1)
      in if SMSC_Location c2 = 0 then (Some c2, s)
         else
           let fetch = (SMSC_Location (SMSCCache s) \<noteq> SMSC_Location c2);
               (error, got, arrived) = (if fetch then modem_smsc env (sends s) (SMSC_Location c2) else (ERR_NONE, SMSCCache s, []));
               s1 = (if fetch
                     then note_send (AskedSMSC (SMSC_Location c2) error)
                       (phone_events env (map Incoming arrived) (s\<lparr>SMSCCache := got\<lparr>SMSC_Location := SMSC_Location c2\<rparr>\<rparr>))
                     else s)
           in if error \<noteq> ERR_NONE then (None, s1\<lparr>StatusCode := -1, Part := -1\<rparr>)
              else (Some (with_validity s1 ((SMSCCache s1)\<lparr>SMSC_Location := 0\<rparr>)), s1))"

definition report_pdu :: "sender \<Rightarrow> GSM_SMSMessage \<Rightarrow> GSM_SMSMessage" where
  "report_pdu s sms =
     (if currdeliveryreport s = 1 \<or> currdeliveryreport s = -1 \<and> deliveryreport s \<noteq> ''no'' then sms\<lparr>PDU := SMS_Status_Report\<rparr>
      else sms)"

abbreviation GSM_SMS_USSD :: int where "GSM_SMS_USSD \<equiv> 127"

definition dial :: "send_environment \<Rightarrow> nat \<Rightarrow> bool \<Rightarrow> byte list \<Rightarrow> sender \<Rightarrow> GSM_Error \<times> sender" where
  "dial env i voice number s =
     (let (error, events) = modem_dial env (sends s) voice number
      in (error, note_send (Dialled i voice number error) (phone_events env events s)))"

text \<open>A part is handed to the phone, or dialled when it is a service request.\<close>

definition submit :: "send_environment \<Rightarrow> nat \<Rightarrow> GSM_SMSMessage \<Rightarrow> sender \<Rightarrow> GSM_Error \<times> sender" where
  "submit env i sms s0 =
     (let s = s0\<lparr>TPMR := -1, SendingSMSStatus := ERR_TIMEOUT, StatusCode := -1, Part := int i + 1\<rparr> in
      if Class sms = GSM_SMS_USSD then
        let number = fst (EncodeUTF8 (SMS_Number sms));
            (error1, s1) = dial env i False number s;
            (error2, s2) = (if error1 = ERR_NOTIMPLEMENTED \<or> error1 = ERR_NOTSUPPORTED then dial env i True number s1
                            else (error1, s1))
        in (error2, if error2 = ERR_NONE then s2\<lparr>SendingSMSStatus := ERR_NONE\<rparr> else s2)
      else
        let (error, events) = modem_send env (sends s) sms
        in (error, phone_events env events (note_send (Submitted i sms error) s)))"

datatype part_end = PartSent | FailureUnsent | FailureSent

definition add_sent ::
  "send_environment \<Rightarrow> nat \<Rightarrow> GSM_SMSDSendingError \<Rightarrow> int \<Rightarrow> sender \<Rightarrow> GSM_Error \<times> sender" where
  "add_sent env i result reference s =
     (let error = service_record env (sends s) (i + 1) result reference
      in (error, note_send (Recorded (i + 1) result reference error) s))"

definition send_part ::
  "send_environment \<Rightarrow> nat \<Rightarrow> GSM_MultiSMSMessage \<Rightarrow> sender \<Rightarrow> (part_end \<times> GSM_MultiSMSMessage \<times> sender) outcome option" where
  "send_part env i m s =
     (if SkipMessage s ! i then Some (Done (PartSent, m, s))
      else
        let (center, s1) = choose_smsc env (SMSC (Multi_SMS m ! i)) s in
        case center of None \<Rightarrow> Some (Done (FailureSent, m, s1))
        | Some c \<Rightarrow>
            let sms = report_pdu s1 ((Multi_SMS m ! i)\<lparr>SMSC := c\<rparr>); m1 = m\<lparr>Multi_SMS := (Multi_SMS m)[i := sms]\<rparr>;
                (error, s2) = submit env i sms s1 in
            if error \<noteq> ERR_NONE then Some (Done (FailureUnsent, m1, s2\<lparr>TPMR := -1\<rparr>))
            else
              case wait_status env 0 s2 of None \<Rightarrow> None
              | Some s3 \<Rightarrow>
                  if SendingSMSStatus s3 \<noteq> ERR_NONE then Some (Done (FailureUnsent, m1, s3))
                  else
                    let (error2, s4) = add_sent env i SMSD_SEND_OK (TPMR s3) (s3\<lparr>Sent := Sent s3 + 1\<rparr>) in
                    if error2 \<noteq> ERR_NONE then Some (Done (FailureSent, m1, s4))
                    else
                      case SMSD_ProcessSMSInfoCache (receive_env env) (receiver s4) of
                        None \<Rightarrow> None | Some Overrun \<Rightarrow> Some Overrun | Some Stale \<Rightarrow> Some Stale
                      | Some (Done (_, r)) \<Rightarrow> Some (Done (PartSent, m1, s4\<lparr>receiver := r\<rparr>)))"

fun send_parts ::
  "send_environment \<Rightarrow> nat list \<Rightarrow> GSM_MultiSMSMessage \<Rightarrow> sender \<Rightarrow> (part_end \<times> GSM_MultiSMSMessage \<times> sender) outcome option" where
  "send_parts env [] m s = Some (Done (PartSent, m, s))"
| "send_parts env (i # rest) m s =
     (case send_part env i m s of
        Some (Done (result, m', s')) \<Rightarrow> (if result = PartSent then send_parts env rest m' s' else Some (Done (result, m', s')))
      | r \<Rightarrow> r)"

subsection \<open>The message\<close>

definition move_sms :: "send_environment \<Rightarrow> bool \<Rightarrow> bool \<Rightarrow> sender \<Rightarrow> GSM_Error \<times> sender" where
  "move_sms env always_delete was_sent s =
     (let error = service_move env (sends s) always_delete was_sent in (error, note_send (Moved always_delete was_sent error) s))"

definition update_retries :: "sender \<Rightarrow> sender" where
  "update_retries s = note_send (UpdatedRetries (StatusCode s) (Part s)) s"

definition record_failed :: "send_environment \<Rightarrow> GSM_SMSDSendingError \<Rightarrow> int option \<Rightarrow> nat list \<Rightarrow> sender \<Rightarrow> sender" where
  "record_failed env result reference is s =
     fold (\<lambda>i s. snd (add_sent env i result (case reference of Some r \<Rightarrow> r | None \<Rightarrow> TPMR s) (s\<lparr>Failed := Failed s + 1\<rparr>))) is s"

definition finish_failed :: "part_end \<Rightarrow> sender \<Rightarrow> sender" where
  "finish_failed result s =
     update_retries
       (if result = FailureUnsent
        then (let s1 = (if RunOnFailure s then note_send RanFailure s else s) in s1\<lparr>Failed := Failed s1 + 1\<rparr>) else s)"

definition SMSD_SendSMS :: "send_environment \<Rightarrow> sender \<Rightarrow> (GSM_Error \<times> sender) outcome option" where
  "SMSD_SendSMS env s0 =
     (let (error, ob) = service_find env (sends s0);
          s = note_send (LookedUp error) (s0\<lparr>SMSID := ob_SMSID ob, retries := ob_retries ob, SkipMessage := ob_SkipMessage ob,
                currdeliveryreport := ob_currdeliveryreport ob, relativevalidity := ob_relativevalidity ob\<rparr>);
          sms = ob_sms ob; n = Multi_Number sms in
      if error = ERR_EMPTY \<or> error = ERR_NOTSUPPORTED then Some (Done (error, s))
      else if error = ERR_FILEALREADYEXIST \<or> error = ERR_BUSY then
        Some (Done (error, update_retries (s\<lparr>StatusCode := -1, Part := -1\<rparr>)))
      else if error \<noteq> ERR_NONE then
        Some (Done (error, if SMSID s \<noteq> [] then snd (move_sms env True False (record_failed env SMSD_SEND_ERROR (Some (-1)) [0..<n] s))
                           else s))
      else if send_shutdown env (sends s) then Some (Done (ERR_NONE, s))
      else if SMSID s \<noteq> [] \<and> retries s > maxretries s then
        Some (Done (ERR_UNKNOWN, snd (move_sms env True False
          (record_failed env SMSD_SEND_SENDING_ERROR None (filter (\<lambda>i. \<not> SkipMessage s ! i) [0..<n]) s))))
      else
        case send_parts env [0..<n] sms (s\<lparr>retries := retries s + 1\<rparr>) of None \<Rightarrow> None
        | Some Overrun \<Rightarrow> Some Overrun | Some Stale \<Rightarrow> Some Stale
        | Some (Done (result, m, s1)) \<Rightarrow>
            if result \<noteq> PartSent then Some (Done (ERR_UNKNOWN, finish_failed result s1))
            else
              let (error2, s2) = move_sms env False True (s1\<lparr>prevSMSID := []\<rparr>);
                  s3 = (if error2 \<noteq> ERR_NONE then snd (move_sms env True False s2) else s2)
              in Some (Done (ERR_NONE, if RunOnSent s3 \<and> error2 = ERR_NONE then note_send RanSent s3 else s3)))"

subsection \<open>What a call does, in order\<close>

text \<open>The parts handed to the phone, and the parts recorded as sent, in a piece of the history.\<close>

definition submitted :: "send_action list \<Rightarrow> nat list" where
  "submitted t = List.map_filter (\<lambda>a. case a of Submitted i _ _ \<Rightarrow> Some i
     | Dialled i voice _ _ \<Rightarrow> (if voice then None else Some i) | _ \<Rightarrow> None) t"

definition confirmed :: "send_action list \<Rightarrow> nat list" where
  "confirmed t = List.map_filter (\<lambda>a. case a of Recorded k result _ error \<Rightarrow>
     (if result = SMSD_SEND_OK \<and> error = ERR_NONE then Some (k - 1) else None) | _ \<Rightarrow> None) t"

definition moves :: "send_action list \<Rightarrow> bool list" where
  "moves t = List.map_filter (\<lambda>a. case a of Moved _ was_sent _ \<Rightarrow> Some was_sent | _ \<Rightarrow> None) t"

text \<open>The parts recorded as sent, whatever the service made of the record.\<close>

definition recorded :: "send_action list \<Rightarrow> nat list" where
  "recorded t = List.map_filter (\<lambda>a. case a of Recorded k result _ _ \<Rightarrow>
     (if result = SMSD_SEND_OK then Some (k - 1) else None) | _ \<Rightarrow> None) t"

text \<open>
  What the phone made of a part: the answer when the part was handed over, and the last status it has
  reported since; a service request that could be dialled counts as reported. The phone took the part
  when it accepted it and the last status says that it is sent.
\<close>

fun phone_word :: "nat \<Rightarrow> send_action \<Rightarrow> GSM_Error \<times> GSM_Error \<Rightarrow> GSM_Error \<times> GSM_Error" where
  "phone_word i (Submitted k _ error) w = (if k = i then (error, ERR_TIMEOUT) else w)"
| "phone_word i (Dialled k _ _ error) w = (if k = i then (error, if error = ERR_NONE then ERR_NONE else ERR_TIMEOUT) else w)"
| "phone_word i (Reported part status _) w =
     (if part = int i + 1 then (fst w, if status = 0 then ERR_NONE else ERR_UNKNOWN) else w)"
| "phone_word i _ w = w"

definition phone_took :: "nat \<Rightarrow> send_action list \<Rightarrow> bool" where
  "phone_took i t \<longleftrightarrow> fold (phone_word i) t (ERR_TIMEOUT, ERR_TIMEOUT) = (ERR_NONE, ERR_NONE)"

lemmas histories = submitted_def recorded_def confirmed_def moves_def List.map_filter_def

lemma histories_append [simp]:
  "submitted (t @ u) = submitted t @ submitted u" "recorded (t @ u) = recorded t @ recorded u"
  "confirmed (t @ u) = confirmed t @ confirmed u" "moves (t @ u) = moves t @ moves u"
  by (simp_all add: histories)

text \<open>Steps on the way of the part \<open>i\<close>: the status kept is the status reported.\<close>

definition during :: "nat \<Rightarrow> sender \<Rightarrow> sender \<Rightarrow> bool" where
  "during i s s' \<longleftrightarrow> Part s = int i + 1 \<longrightarrow>
     Part s' = Part s \<and> SkipMessage s' = SkipMessage s
     \<and> (\<exists>new. sends s' = sends s @ new \<and> submitted new = [] \<and> recorded new = [] \<and> confirmed new = [] \<and> moves new = []
          \<and> (\<forall>k w. k \<noteq> i \<longrightarrow> fold (phone_word k) new w = w)
          \<and> (\<forall>e. fold (phone_word i) new (e, SendingSMSStatus s) = (e, SendingSMSStatus s')))"

lemma during_refl:
  "sends s' = sends s \<Longrightarrow> SkipMessage s' = SkipMessage s \<Longrightarrow> Part s' = Part s \<Longrightarrow> SendingSMSStatus s' = SendingSMSStatus s \<Longrightarrow>
   during i s s'"
  by (simp add: during_def histories)

lemma during_trans:
  assumes "during i s s1" "during i s1 s2"
  shows "during i s s2"
  unfolding during_def
proof
  assume part: "Part s = int i + 1"
  then obtain new where new: "Part s1 = Part s" "SkipMessage s1 = SkipMessage s" "sends s1 = sends s @ new"
    "submitted new = []" "recorded new = []" "confirmed new = []" "moves new = []"
    "\<forall>k w. k \<noteq> i \<longrightarrow> fold (phone_word k) new w = w"
    "\<forall>e. fold (phone_word i) new (e, SendingSMSStatus s) = (e, SendingSMSStatus s1)"
    using assms(1) by (auto simp: during_def)
  then obtain more where more: "Part s2 = Part s" "SkipMessage s2 = SkipMessage s" "sends s2 = sends s1 @ more"
    "submitted more = []" "recorded more = []" "confirmed more = []" "moves more = []"
    "\<forall>k w. k \<noteq> i \<longrightarrow> fold (phone_word k) more w = w"
    "\<forall>e. fold (phone_word i) more (e, SendingSMSStatus s1) = (e, SendingSMSStatus s2)"
    using assms(2) part by (auto simp: during_def)
  show "Part s2 = Part s \<and> SkipMessage s2 = SkipMessage s
     \<and> (\<exists>new. sends s2 = sends s @ new \<and> submitted new = [] \<and> recorded new = [] \<and> confirmed new = [] \<and> moves new = []
          \<and> (\<forall>k w. k \<noteq> i \<longrightarrow> fold (phone_word k) new w = w)
          \<and> (\<forall>e. fold (phone_word i) new (e, SendingSMSStatus s) = (e, SendingSMSStatus s2)))"
    using new more by (intro conjI exI [of _ "new @ more"]) simp_all
qed

lemma during_callback: "during i s (called_back env event s)"
  by (cases event) (auto simp: during_def called_back_def SMSD_SendSMSStatusCallback_def note_send_def histories)

lemma during_events: "during i s (phone_events env events s)"
proof (induction events arbitrary: s)
  case (Cons e events)
  then show ?case using during_trans [OF during_callback, of i env e s] by (simp add: phone_events_def)
qed (simp add: phone_events_def during_refl)

lemma during_note: "a \<in> {Polled, Refreshed} \<Longrightarrow> during i s (note_send a s)"
  by (auto simp: during_def note_send_def histories)

lemma wait_second_during:
  assumes "wait_second env z s = Some s'"
  shows "during i s s'"
proof (rule wait_second.raw_induct [where P = "\<lambda>env z s s'. during i s s'", OF _ assms])
  fix wait env z s s'
  assume IH: "\<And>env z s s'. wait env z s = Some s' \<Longrightarrow> during i s s'"
    and body: "(let now = clock_second env (sends s); s1 = phone_events env (modem_read env (sends s)) (note_send Polled s) in
      if SendingSMSStatus s1 \<noteq> ERR_TIMEOUT \<or> z \<noteq> now then Some s1 else wait env z s1) = Some s'"
  let ?s1 = "phone_events env (modem_read env (sends s)) (note_send Polled s)"
  have "during i s ?s1" by (rule during_trans [OF during_note during_events]) simp
  then show "during i s s'" using body IH [of env z ?s1 s'] during_trans by (auto simp: Let_def split: if_splits)
qed

lemma wait_status_during:
  assumes "wait_status env j s = Some s'"
  shows "during i s s'"
proof (rule wait_status.raw_induct [where P = "\<lambda>env j s s'. during i s s'", OF _ assms])
  fix wait env j s s'
  assume IH: "\<And>env j s s'. wait env j s = Some s' \<Longrightarrow> during i s s'"
    and body: "(if send_shutdown env (sends s) then Some s
      else let s1 = note_send Refreshed s; z = clock_second env (sends s1) in
        case wait_second env z (note_send Polled s1) of None \<Rightarrow> None
        | Some s2 \<Rightarrow> if SendingSMSStatus s2 \<noteq> ERR_TIMEOUT \<or> j + 1 > sendtimeout s2 then Some s2
            else wait env (j + 1) s2) = Some s'"
  let ?s1 = "note_send Polled (note_send Refreshed s)"
  have "during i s ?s1" by (rule during_trans [OF during_note during_note]) simp_all
  then have second: "during i s s2" if "wait_second env z ?s1 = Some s2" for z s2
    using wait_second_during [OF that] by (rule during_trans)
  show "during i s s'"
  proof (cases "send_shutdown env (sends s)")
    case False
    then obtain s2 where s2: "wait_second env (clock_second env (sends (note_send Refreshed s))) ?s1 = Some s2"
      "s' = s2 \<or> wait env (j + 1) s2 = Some s'"
      using body by (auto simp: Let_def split: if_splits option.splits)
    then show ?thesis using second [OF s2(1)] IH [of env "j + 1" s2 s'] during_trans by blast
  qed (use body in \<open>simp add: during_refl\<close>)
qed


text \<open>
  The way from one state to another: the parts given to the phone, those recorded as sent and those of
  them the service has stored. The parts recorded are those the phone took.
\<close>

definition progress :: "nat list \<Rightarrow> nat list \<Rightarrow> nat list \<Rightarrow> sender \<Rightarrow> sender \<Rightarrow> bool" where
  "progress given ok done s s' \<longleftrightarrow> SkipMessage s' = SkipMessage s \<and>
     (\<exists>new. sends s' = sends s @ new \<and> submitted new = given \<and> recorded new = ok \<and> confirmed new = done \<and> moves new = []
        \<and> set ok \<subseteq> set given \<and> (\<forall>i w. i \<notin> set given \<longrightarrow> fold (phone_word i) new w = w)
        \<and> (\<forall>i \<in> set given. phone_took i new \<longleftrightarrow> i \<in> set ok))"

lemma progress_refl: "sends s' = sends s \<Longrightarrow> SkipMessage s' = SkipMessage s \<Longrightarrow> progress [] [] [] s s'"
  by (simp add: progress_def histories)

lemma progress_trans:
  assumes "progress g r d s s1" "progress g' r' d' s1 s2" "set g \<inter> set g' = {}"
  shows "progress (g @ g') (r @ r') (d @ d') s s2"
proof -
  obtain new where new: "sends s1 = sends s @ new" "submitted new = g" "recorded new = r" "confirmed new = d" "moves new = []"
    "set r \<subseteq> set g" "\<And>i w. i \<notin> set g \<Longrightarrow> fold (phone_word i) new w = w" "\<And>i. i \<in> set g \<Longrightarrow> phone_took i new \<longleftrightarrow> i \<in> set r"
    "SkipMessage s1 = SkipMessage s"
    using assms(1) unfolding progress_def by blast
  obtain more where more: "sends s2 = sends s1 @ more" "submitted more = g'" "recorded more = r'" "confirmed more = d'" "moves more = []"
    "set r' \<subseteq> set g'" "\<And>i w. i \<notin> set g' \<Longrightarrow> fold (phone_word i) more w = w" "\<And>i. i \<in> set g' \<Longrightarrow> phone_took i more \<longleftrightarrow> i \<in> set r'"
    "SkipMessage s2 = SkipMessage s1"
    using assms(2) unfolding progress_def by blast
  have "phone_took i (new @ more) \<longleftrightarrow> i \<in> set (r @ r')" if i: "i \<in> set (g @ g')" for i
  proof (cases "i \<in> set g")
    case True
    then have "i \<notin> set g'" using assms(3) by blast
    then show ?thesis using True new(8) more(6,7) by (auto simp: phone_took_def)
  next
    case False
    then show ?thesis using i new(6,7) more(8) by (auto simp: phone_took_def)
  qed
  moreover have "fold (phone_word i) (new @ more) w = w" if "i \<notin> set (g @ g')" for i w
    using that new(7) more(7) by simp
  ultimately show ?thesis unfolding progress_def
    using new more by (intro conjI exI [of _ "new @ more"]) auto
qed

lemma progress_quiet: "progress [] [] [] s s1 \<Longrightarrow> progress g r d s1 s2 \<Longrightarrow> progress g r d s s2"
  using progress_trans by fastforce

lemma incoming_sends [simp]:
  "sends (phone_events env (map Incoming arrived) s) = sends s"
  "SkipMessage (phone_events env (map Incoming arrived) s) = SkipMessage s"
  by (induction arrived arbitrary: s) (auto simp: phone_events_def called_back_def)

lemma choose_smsc_progress: "choose_smsc env c s = (center, s') \<Longrightarrow> progress [] [] [] s s'"
  by (auto simp: choose_smsc_def Let_def note_send_def progress_def histories split: if_splits prod.splits)

lemma dial_during:
  assumes "dial env i voice number s = (error, s')" "Part s = int i + 1"
  shows "Part s' = Part s \<and> SkipMessage s' = SkipMessage s
     \<and> (\<exists>new. sends s' = sends s @ new \<and> submitted new = (if voice then [] else [i]) \<and> recorded new = [] \<and> confirmed new = [] \<and> moves new = []
          \<and> (\<forall>k w. k \<noteq> i \<longrightarrow> fold (phone_word k) new w = w)
          \<and> (\<forall>w. fold (phone_word i) new w = (error, if error = ERR_NONE then ERR_NONE else ERR_TIMEOUT)))"
proof -
  obtain events where e: "modem_dial env (sends s) voice number = (error, events)" "s' = note_send (Dialled i voice number error) (phone_events env events s)"
    using assms(1) by (auto simp: dial_def split: prod.splits)
  from during_events [of i s env events] assms(2) obtain new where new: "Part (phone_events env events s) = Part s"
    "SkipMessage (phone_events env events s) = SkipMessage s" "sends (phone_events env events s) = sends s @ new"
    "submitted new = []" "recorded new = []" "confirmed new = []" "moves new = []" "\<forall>k w. k \<noteq> i \<longrightarrow> fold (phone_word k) new w = w"
    unfolding during_def by blast
  have "submitted [Dialled i voice number error] = (if voice then [] else [i])" "recorded [Dialled i voice number error] = []"
    "confirmed [Dialled i voice number error] = []" "moves [Dialled i voice number error] = []" by (simp_all add: histories)
  then show ?thesis using new e(2)
    by (intro conjI exI [of _ "new @ [Dialled i voice number error]"]) (simp_all add: note_send_def)
qed

text \<open>The part \<open>i\<close> is handed over, with the answer \<open>answer\<close> and the last status kept.\<close>

definition handed :: "nat \<Rightarrow> GSM_Error \<Rightarrow> sender \<Rightarrow> sender \<Rightarrow> bool" where
  "handed i answer s s' \<longleftrightarrow> SkipMessage s' = SkipMessage s \<and> Part s' = int i + 1
     \<and> (\<exists>new. sends s' = sends s @ new \<and> submitted new = [i] \<and> recorded new = [] \<and> confirmed new = [] \<and> moves new = []
          \<and> (\<forall>k w. k \<noteq> i \<longrightarrow> fold (phone_word k) new w = w)
          \<and> (\<forall>w. \<exists>status. fold (phone_word i) new w = (answer, status) \<and> (answer = ERR_NONE \<longrightarrow> status = SendingSMSStatus s')))"

lemma handed_during:
  assumes "handed i answer s s1" "during i s1 s2" "answer = ERR_NONE"
  shows "handed i answer s s2"
proof -
  obtain new where new: "SkipMessage s1 = SkipMessage s" "Part s1 = int i + 1" "sends s1 = sends s @ new" "submitted new = [i]" "recorded new = []"
    "confirmed new = []" "moves new = []" "\<forall>k w. k \<noteq> i \<longrightarrow> fold (phone_word k) new w = w"
    "\<forall>w. fold (phone_word i) new w = (answer, SendingSMSStatus s1)"
    using assms(1) unfolding handed_def by (auto simp: assms(3))
  then obtain more where "Part s2 = Part s1" "SkipMessage s2 = SkipMessage s1" "sends s2 = sends s1 @ more"
    "submitted more = []" "recorded more = []" "confirmed more = []" "moves more = []"
    "\<forall>k w. k \<noteq> i \<longrightarrow> fold (phone_word k) more w = w"
    "\<forall>e. fold (phone_word i) more (e, SendingSMSStatus s1) = (e, SendingSMSStatus s2)"
    using assms(2) unfolding during_def by auto
  with new show ?thesis unfolding handed_def by (intro conjI exI [of _ "new @ more"]) simp_all
qed

lemma submit_dialled:
  assumes "submit env i sms s = (error, s')" "Class sms = GSM_SMS_USSD"
  shows "handed i error s s'"
proof -
  let ?s = "s\<lparr>TPMR := -1, SendingSMSStatus := ERR_TIMEOUT, StatusCode := -1, Part := int i + 1\<rparr>"
  let ?n = "fst (EncodeUTF8 (SMS_Number sms))"
  obtain e1 s1 where s1: "dial env i False ?n ?s = (e1, s1)" by fastforce
  define fallback where "fallback \<longleftrightarrow> e1 = ERR_NOTIMPLEMENTED \<or> e1 = ERR_NOTSUPPORTED"
  obtain s2 where s2: "(if fallback then dial env i True ?n s1 else (e1, s1)) = (error, s2)"
    "s' = (if error = ERR_NONE then s2\<lparr>SendingSMSStatus := ERR_NONE\<rparr> else s2)"
    using assms s1 by (auto simp: submit_def fallback_def Let_def split: prod.splits)
  from dial_during [OF s1] obtain new where new: "Part s1 = int i + 1" "SkipMessage s1 = SkipMessage s" "sends s1 = sends s @ new"
    "submitted new = [i]" "recorded new = []" "confirmed new = []" "moves new = []"
    "\<forall>k w. k \<noteq> i \<longrightarrow> fold (phone_word k) new w = w"
    "\<forall>w. fold (phone_word i) new w = (e1, if e1 = ERR_NONE then ERR_NONE else ERR_TIMEOUT)" by auto
  show ?thesis
  proof (cases fallback)
    case True
    then have "dial env i True ?n s1 = (error, s2)" using s2 by simp
    from dial_during [OF this new(1)] obtain more where "Part s2 = int i + 1" "SkipMessage s2 = SkipMessage s1" "sends s2 = sends s1 @ more"
      "submitted more = []" "recorded more = []" "confirmed more = []" "moves more = []"
      "\<forall>k w. k \<noteq> i \<longrightarrow> fold (phone_word k) more w = w"
      "\<forall>w. fold (phone_word i) more w = (error, if error = ERR_NONE then ERR_NONE else ERR_TIMEOUT)" using new(1) by auto
    with new s2(2) show ?thesis unfolding handed_def by (intro conjI exI [of _ "new @ more"]) auto
  next
    case False
    then have "error = e1" "s2 = s1" using s2(1) by simp_all
    with new s2(2) show ?thesis unfolding handed_def by (intro conjI exI [of _ new]) auto
  qed
qed

lemma submit_handed:
  assumes "submit env i sms s = (error, s')"
  shows "handed i error s s'"
proof (cases "Class sms = GSM_SMS_USSD")
  case True
  then show ?thesis by (rule submit_dialled [OF assms])
next
  case False
  let ?s = "s\<lparr>TPMR := -1, SendingSMSStatus := ERR_TIMEOUT, StatusCode := -1, Part := int i + 1\<rparr>"
  obtain events where e: "modem_send env (sends ?s) sms = (error, events)" "s' = phone_events env events (note_send (Submitted i sms error) ?s)"
    using assms False by (auto simp: submit_def Let_def split: prod.splits)
  let ?s1 = "note_send (Submitted i sms error) ?s"
  obtain new where new: "Part s' = Part ?s1" "SkipMessage s' = SkipMessage s" "sends s' = sends ?s1 @ new"
    "submitted new = []" "recorded new = []" "confirmed new = []" "moves new = []"
    "\<forall>k w. k \<noteq> i \<longrightarrow> fold (phone_word k) new w = w"
    "\<forall>e. fold (phone_word i) new (e, SendingSMSStatus ?s1) = (e, SendingSMSStatus s')"
    using during_events [of i ?s1 env events] unfolding e(2) during_def by (auto simp: note_send_def)
  have "submitted [Submitted i sms error] = [i]" "recorded [Submitted i sms error] = []"
    "confirmed [Submitted i sms error] = []" "moves [Submitted i sms error] = []" by (simp_all add: histories)
  then show ?thesis using new unfolding handed_def
    by (intro conjI exI [of _ "[Submitted i sms error] @ new"]) (simp_all only: histories_append, simp_all add: note_send_def)
qed

lemma handed_failed:
  assumes "handed i answer s s1" "answer \<noteq> ERR_NONE \<or> SendingSMSStatus s1 \<noteq> ERR_NONE" "sends s2 = sends s1" "SkipMessage s2 = SkipMessage s1"
  shows "progress [i] [] [] s s2"
proof -
  obtain new where new: "SkipMessage s2 = SkipMessage s" "sends s2 = sends s @ new" "submitted new = [i]" "recorded new = []"
    "confirmed new = []" "moves new = []" "\<forall>k w. k \<noteq> i \<longrightarrow> fold (phone_word k) new w = w"
    "\<forall>w. \<exists>status. fold (phone_word i) new w = (answer, status) \<and> (answer = ERR_NONE \<longrightarrow> status = SendingSMSStatus s1)"
    using assms(1,3,4) unfolding handed_def by auto
  from new(8) assms(2) have "\<not> phone_took i new" unfolding phone_took_def by (metis Pair_inject)
  then show ?thesis unfolding progress_def using new by (intro conjI exI [of _ new]) simp_all
qed

lemma handed_recorded:
  assumes "handed i ERR_NONE s s1" "SendingSMSStatus s1 = ERR_NONE"
    and "add_sent env i SMSD_SEND_OK reference (s1\<lparr>Sent := n\<rparr>) = (error, s2)" "sends s3 = sends s2" "SkipMessage s3 = SkipMessage s2"
  shows "progress [i] [i] (if error = ERR_NONE then [i] else []) s s3"
proof -
  obtain new where new: "SkipMessage s1 = SkipMessage s" "sends s1 = sends s @ new" "submitted new = [i]" "recorded new = []"
    "confirmed new = []" "moves new = []" "\<forall>k w. k \<noteq> i \<longrightarrow> fold (phone_word k) new w = w"
    "\<forall>w. fold (phone_word i) new w = (ERR_NONE, ERR_NONE)"
    using assms(1,2) unfolding handed_def by auto
  let ?r = "Recorded (i + 1) SMSD_SEND_OK reference error"
  have s3: "sends s3 = sends s @ new @ [?r]" "SkipMessage s3 = SkipMessage s"
    using assms(3-5) new(1,2) by (auto simp: add_sent_def note_send_def Let_def)
  have r: "submitted [?r] = []" "recorded [?r] = [i]" "confirmed [?r] = (if error = ERR_NONE then [i] else [])" "moves [?r] = []"
    by (simp_all add: histories)
  have "phone_took i (new @ [?r])" using new(8) by (simp add: phone_took_def)
  then show ?thesis unfolding progress_def using new s3 r by (intro conjI exI [of _ "new @ [?r]"]) simp_all
qed

lemma send_part_progress:
  assumes "send_part env i m s = Some (Done (result, m', s'))"
  shows "if SkipMessage s ! i then result = PartSent \<and> progress [] [] [] s s'
    else if result = PartSent then progress [i] [i] [i] s s'
    else \<exists>(given, ok) \<in> {([], []), ([i], []), ([i], [i])}. progress given ok [] s s'"
proof (cases "SkipMessage s ! i")
  case True
  then show ?thesis using assms by (simp add: send_part_def progress_refl)
next
  case False
  obtain center s1 where s1: "choose_smsc env (SMSC (Multi_SMS m ! i)) s = (center, s1)" by fastforce
  note quiet = progress_quiet [OF choose_smsc_progress [OF s1]]
  show ?thesis
  proof (cases center)
    case None
    then show ?thesis using assms False s1 choose_smsc_progress [OF s1] by (auto simp: send_part_def)
  next
    case (Some c)
    let ?sms = "report_pdu s1 ((Multi_SMS m ! i)\<lparr>SMSC := c\<rparr>)"
    obtain error s2 where s2: "submit env i ?sms s1 = (error, s2)" by fastforce
    note h2 = submit_handed [OF s2]
    show ?thesis
    proof (cases "error = ERR_NONE")
      case unsent: False
      have "progress [i] [] [] s (s2\<lparr>TPMR := -1\<rparr>)" by (rule quiet [OF handed_failed [OF h2]]) (use unsent in simp_all)
      then show ?thesis using assms False s1 Some s2 unsent by (auto simp: send_part_def Let_def)
    next
      case sent: True
      then obtain s3 where s3: "wait_status env 0 s2 = Some s3"
        using assms False s1 Some s2 by (auto simp: send_part_def Let_def split: option.splits)
      note h3 = handed_during [OF h2 wait_status_during [OF s3] sent, unfolded sent]
      show ?thesis
      proof (cases "SendingSMSStatus s3 = ERR_NONE")
        case failed: False
        have "progress [i] [] [] s s3" by (rule quiet [OF handed_failed [OF h3]]) (use failed in simp_all)
        then show ?thesis using assms False s1 Some s2 sent s3 failed by (auto simp: send_part_def Let_def)
      next
        case ok: True
        obtain error2 s4 where s4: "add_sent env i SMSD_SEND_OK (TPMR s3) (s3\<lparr>Sent := Sent s3 + 1\<rparr>) = (error2, s4)" by fastforce
        have p: "progress [i] [i] (if error2 = ERR_NONE then [i] else []) s s5"
          if "sends s5 = sends s4" "SkipMessage s5 = SkipMessage s4" for s5
          by (rule quiet [OF handed_recorded [OF h3 ok s4 that]])
        show ?thesis
          using assms False s1 Some s2 sent s3 ok s4 p [of s4] p
          by (auto simp: send_part_def Let_def split: if_splits option.splits outcome.splits)
      qed
    qed
  qed
qed

lemma send_parts_progress:
  assumes "send_parts env is m s = Some (Done (result, m', s'))" "distinct is"
  shows "\<exists>given ok done. progress given ok done s s' \<and> (\<exists>k. given = take k (filter (\<lambda>i. \<not> SkipMessage s ! i) is))
     \<and> (\<exists>k. ok = take k given)
     \<and> (if result = PartSent then given = filter (\<lambda>i. \<not> SkipMessage s ! i) is \<and> ok = given \<and> done = given
        else length done < length (filter (\<lambda>i. \<not> SkipMessage s ! i) is))"
  using assms
proof (induction "is" arbitrary: m s)
  case Nil
  then show ?case using progress_refl by fastforce
next
  case (Cons i rest)
  let ?todo = "filter (\<lambda>i. \<not> SkipMessage s ! i) rest"
  obtain r m1 s1 where s1: "send_part env i m s = Some (Done (r, m1, s1))"
    using Cons.prems by (auto split: option.splits outcome.splits if_splits)
  note P = send_part_progress [OF s1]
  have skip: "SkipMessage s1 = SkipMessage s" using P by (auto simp: progress_def split: if_splits)
  show ?case
  proof (cases "r = PartSent")
    case True
    have rest: "send_parts env rest m1 s1 = Some (Done (result, m', s'))" using Cons.prems s1 True by simp
    obtain given ok "done" k l where IH: "progress given ok done s1 s'" "given = take k ?todo" "ok = take l given"
      "if result = PartSent then given = ?todo \<and> ok = given \<and> done = given else length done < length ?todo"
      using Cons.IH [OF rest] Cons.prems(2) unfolding skip distinct.simps by (elim conjE exE impE) metis
    show ?thesis
    proof (cases "SkipMessage s ! i")
      case skipped: True
      then have "progress given ok done s s'" using P IH(1) progress_quiet [of s s1] by simp
      moreover have "filter (\<lambda>i. \<not> SkipMessage s ! i) (i # rest) = ?todo" using skipped by simp
      ultimately show ?thesis using IH(2-4) by (metis (no_types))
    next
      case False
      then have first: "progress [i] [i] [i] s s1" using P True by simp
      have "i \<notin> set given" using IH(2) Cons.prems(2) by (auto dest: in_set_takeD)
      then have "progress (i # given) (i # ok) (i # done) s s'" using progress_trans [OF first IH(1)] by simp
      moreover have "i # given = take (Suc k) (i # ?todo)" "i # ok = take (Suc l) (i # given)" using IH by simp_all
      moreover have "filter (\<lambda>i. \<not> SkipMessage s ! i) (i # rest) = i # ?todo" using False by simp
      moreover have "if result = PartSent then i # given = i # ?todo \<and> i # ok = i # given \<and> i # done = i # given
        else length (i # done) < length (i # ?todo)" using IH(4) by (cases "result = PartSent") simp_all
      ultimately show ?thesis by (metis (no_types))
    qed
  next
    case False
    then have "\<not> SkipMessage s ! i" using P by (auto split: if_splits)
    then obtain given ok where g: "(given, ok) \<in> {([], []), ([i], []), ([i], [i])}" "progress given ok [] s s1"
      using P False by (auto split: if_splits)
    have "s' = s1" "result = r" using Cons.prems s1 False by auto
    moreover have "given = take (length given) (filter (\<lambda>i. \<not> SkipMessage s ! i) (i # rest))" "ok = take (length ok) given"
      using g(1) \<open>\<not> SkipMessage s ! i\<close> by auto
    ultimately show ?thesis using g(2) False \<open>\<not> SkipMessage s ! i\<close>
      by (intro exI [of _ given] exI [of _ ok] exI [of _ "[]"] conjI exI [of _ "length given"] exI [of _ "length ok"]) auto
  qed
qed

text \<open>What is left after the parts has no effect on what the phone took.\<close>

fun closing :: "send_action \<Rightarrow> bool" where
  "closing RanSent = True"
| "closing RanFailure = True"
| "closing (Moved _ _ _) = True"
| "closing (UpdatedRetries _ _) = True"
| "closing _ = False"

lemma phone_took_rest:
  assumes "list_all closing rest"
  shows "phone_took i (new @ rest) = phone_took i new \<and> submitted rest = [] \<and> recorded rest = [] \<and> confirmed rest = []"
proof -
  have "fold (phone_word i) rest w = w \<and> submitted rest = [] \<and> recorded rest = [] \<and> confirmed rest = []" for w
    using assms by (induction rest arbitrary: w) (auto simp: histories elim!: closing.elims)
  then show ?thesis by (simp add: phone_took_def)
qed

lemma progress_recorded:
  assumes "progress given ok done s s'" "given = take k todo" "ok = take l given" "distinct todo"
  shows "\<exists>new. sends s' = sends s @ new \<and> submitted new = given \<and> recorded new = filter (\<lambda>i. phone_took i new) todo
    \<and> confirmed new = done \<and> moves new = [] \<and> recorded new = ok"
proof -
  obtain new where new: "sends s' = sends s @ new" "submitted new = given" "recorded new = ok" "confirmed new = done" "moves new = []"
    "\<And>i w. i \<notin> set given \<Longrightarrow> fold (phone_word i) new w = w" "\<And>i. i \<in> set given \<Longrightarrow> phone_took i new \<longleftrightarrow> i \<in> set ok"
    using assms(1) unfolding progress_def by blast
  have ok: "ok = take (min l k) todo" using assms(2,3) by simp
  have "phone_took i new \<longleftrightarrow> i \<in> set ok" for i
  proof (cases "i \<in> set given")
    case False
    then show ?thesis using new(6) assms(3) by (auto simp: phone_took_def dest: in_set_takeD)
  qed (rule new(7))
  then have "filter (\<lambda>i. phone_took i new) todo = filter (\<lambda>i. i \<in> set (take (min l k) todo)) (take (min l k) todo @ drop (min l k) todo)"
    unfolding ok by simp
  also have "\<dots> = ok" unfolding ok filter_append
    using set_take_disj_set_drop_if_distinct [OF assms(4), of "min l k" "min l k"] by (auto simp: filter_empty_conv)
  finally show ?thesis using new by auto
qed

text \<open>
  Claim C7. A message the service gives for sending, whatever the service, the phone and the clock do: the parts
  that are not to be skipped are handed to the phone in order and each at most once, as far as the first that fails. The
  parts recorded as sent are exactly those the phone took: it accepted the part and the last status it reported for it
  says that it is sent. The message is moved to the sent ones exactly when all its parts were handed over, taken and
  recorded without an error; otherwise nothing is moved, and the call ends by counting one more try.
\<close>

theorem send_in_order:
  assumes "SMSD_SendSMS env s = Some (Done (error, s'))" "service_find env (sends s) = (ERR_NONE, ob)"
    "\<not> send_shutdown env (sends s @ [LookedUp ERR_NONE])" "ob_SMSID ob = [] \<or> ob_retries ob \<le> maxretries s"
  defines "todo \<equiv> filter (\<lambda>i. \<not> ob_SkipMessage ob ! i) [0..<Multi_Number (ob_sms ob)]"
  shows "\<exists>new. sends s' = sends s @ LookedUp ERR_NONE # new \<and> (\<exists>k. submitted new = take k todo)
    \<and> recorded new = filter (\<lambda>i. phone_took i new) todo
    \<and> (error = ERR_NONE \<and> submitted new = todo \<and> recorded new = todo \<and> confirmed new = todo \<and> (\<exists>e. Moved False True e \<in> set new)
       \<or> error = ERR_UNKNOWN \<and> confirmed new \<noteq> todo \<and> moves new = [] \<and> (\<exists>status part. last new = UpdatedRetries status part))"
proof -
  define s0 where "s0 = note_send (LookedUp ERR_NONE) (s\<lparr>SMSID := ob_SMSID ob, retries := ob_retries ob, SkipMessage := ob_SkipMessage ob,
      currdeliveryreport := ob_currdeliveryreport ob, relativevalidity := ob_relativevalidity ob\<rparr>)"
  define s1 where "s1 = s0\<lparr>retries := retries s0 + 1\<rparr>"
  have run: "SMSD_SendSMS env s =
    (case send_parts env [0..<Multi_Number (ob_sms ob)] (ob_sms ob) s1 of None \<Rightarrow> None
     | Some Overrun \<Rightarrow> Some Overrun | Some Stale \<Rightarrow> Some Stale
     | Some (Done (result, m, s1)) \<Rightarrow>
         if result \<noteq> PartSent then Some (Done (ERR_UNKNOWN, finish_failed result s1))
         else
           let (error2, s2) = move_sms env False True (s1\<lparr>prevSMSID := []\<rparr>);
               s3 = (if error2 \<noteq> ERR_NONE then snd (move_sms env True False s2) else s2)
           in Some (Done (ERR_NONE, if RunOnSent s3 \<and> error2 = ERR_NONE then note_send RanSent s3 else s3)))"
    using assms(2-4) by (auto simp: SMSD_SendSMS_def Let_def note_send_def s0_def s1_def)
  obtain result m s2 where s2: "send_parts env [0..<Multi_Number (ob_sms ob)] (ob_sms ob) s1 = Some (Done (result, m, s2))"
    using assms(1) unfolding run by (auto split: option.splits outcome.splits)
  have base: "sends s1 = sends s @ [LookedUp ERR_NONE]" "SkipMessage s1 = ob_SkipMessage ob"
    by (simp_all add: s1_def s0_def note_send_def)
  obtain given ok "done" k l where P: "progress given ok done s1 s2" "given = take k todo" "ok = take l given"
    "if result = PartSent then given = todo \<and> ok = given \<and> done = given else length done < length todo"
    using send_parts_progress [OF s2 distinct_upt] unfolding base(2) todo_def [symmetric] by metis
  obtain new where new: "sends s2 = sends s @ LookedUp ERR_NONE # new" "submitted new = given" "recorded new = filter (\<lambda>i. phone_took i new) todo"
    "confirmed new = done" "moves new = []" "recorded new = ok"
    using progress_recorded [OF P(1-3)] base(1) by (auto simp: todo_def)
  show ?thesis
  proof (cases "result = PartSent")
    case True
    obtain e2 rest where r: "error = ERR_NONE" "sends s' = sends s2 @ Moved False True e2 # rest" "list_all closing rest"
      using assms(1) unfolding run s2 by (auto simp: True Let_def move_sms_def note_send_def split: if_splits)
    have "list_all closing (Moved False True e2 # rest)" using r(3) by simp
    note tail = phone_took_rest [OF this, of _ new]
    have "submitted new = todo" "recorded new = todo" "confirmed new = todo" using P(4) new True by auto
    then show ?thesis using new(1,3) r(1,2) tail
      by (intro exI [of _ "new @ Moved False True e2 # rest"]) (auto intro: exI [of _ "length todo"])
  next
    case False
    then have "error = ERR_UNKNOWN" "s' = finish_failed result s2" using assms(1) unfolding run s2 by auto
    then obtain rest status part where r: "error = ERR_UNKNOWN" "sends s' = sends s2 @ rest @ [UpdatedRetries status part]"
      "list_all closing rest \<and> moves rest = []"
      by (auto simp: finish_failed_def update_retries_def note_send_def Let_def histories split: if_splits)
    have "list_all closing (rest @ [UpdatedRetries status part])" using r(3) by simp
    note tail = phone_took_rest [OF this, of _ new]
    have "moves (rest @ [UpdatedRetries status part]) = []" using r(3) by (simp add: histories)
    moreover have "confirmed new \<noteq> todo" using P(4) new(4) False by auto
    ultimately show ?thesis using new(1-3,5) P(2) r(1,2) tail
      by (intro exI [of _ "new @ rest @ [UpdatedRetries status part]"]) auto
  qed
qed

text \<open>
  Claim C38. A message that has used up its tries is given up: none of its parts is handed to the phone, each part
  not skipped is recorded and counted as failed, and the message is moved to the failed ones.
\<close>

theorem send_gives_up:
  assumes "service_find env (sends s) = (ERR_NONE, ob)" "\<not> send_shutdown env (sends s @ [LookedUp ERR_NONE])"
    "ob_SMSID ob \<noteq> []" "maxretries s < ob_retries ob"
  defines "todo \<equiv> filter (\<lambda>i. \<not> ob_SkipMessage ob ! i) [0..<Multi_Number (ob_sms ob)]"
  shows "\<exists>s' errors e. SMSD_SendSMS env s = Some (Done (ERR_UNKNOWN, s')) \<and> length errors = length todo
    \<and> sends s' = sends s @ LookedUp ERR_NONE # map2 (\<lambda>i error. Recorded (i + 1) SMSD_SEND_SENDING_ERROR (TPMR s) error) todo errors
        @ [Moved True False e]
    \<and> Failed s' = Failed s + int (length todo)"
proof -
  have failed: "\<exists>errors. length errors = length is
      \<and> sends (record_failed env result None is s) = sends s @ map2 (\<lambda>i error. Recorded (i + 1) result (TPMR s) error) is errors
      \<and> Failed (record_failed env result None is s) = Failed s + int (length is)" for "is" result s
  proof (induction "is" arbitrary: s)
    case (Cons i rest)
    let ?s = "snd (add_sent env i result (TPMR s) (s\<lparr>Failed := Failed s + 1\<rparr>))"
    obtain errors where "length errors = length rest"
      "sends (record_failed env result None rest ?s) = sends ?s @ map2 (\<lambda>i error. Recorded (i + 1) result (TPMR ?s) error) rest errors"
      "Failed (record_failed env result None rest ?s) = Failed ?s + int (length rest)"
      using Cons by blast
    then show ?case
      by (intro exI [of _ "service_record env (sends s) (i + 1) result (TPMR s) # errors"])
        (simp add: record_failed_def add_sent_def note_send_def Let_def)
  qed (simp add: record_failed_def)
  let ?s = "note_send (LookedUp ERR_NONE) (s\<lparr>SMSID := ob_SMSID ob, retries := ob_retries ob, SkipMessage := ob_SkipMessage ob,
      currdeliveryreport := ob_currdeliveryreport ob, relativevalidity := ob_relativevalidity ob\<rparr>)"
  obtain errors where "length errors = length todo"
    "sends (record_failed env SMSD_SEND_SENDING_ERROR None todo ?s)
      = sends ?s @ map2 (\<lambda>i error. Recorded (i + 1) SMSD_SEND_SENDING_ERROR (TPMR ?s) error) todo errors"
    "Failed (record_failed env SMSD_SEND_SENDING_ERROR None todo ?s) = Failed ?s + int (length todo)"
    using failed by blast
  then show ?thesis
    using assms(1-4) by (auto simp: SMSD_SendSMS_def Let_def note_send_def move_sms_def todo_def not_le)
qed

text \<open>The wait for the status of a part ends: a clock that goes on is all it needs.\<close>

lemma events_timeout [simp]: "sendtimeout (phone_events env events s) = sendtimeout s"
proof (induction events arbitrary: s)
  case (Cons e events)
  have "sendtimeout (called_back env e s) = sendtimeout s"
    by (cases e) (simp_all add: called_back_def SMSD_SendSMSStatusCallback_def note_send_def)
  then show ?case using Cons by (simp add: phone_events_def)
qed (simp add: phone_events_def)

lemma status_settled: "SendingSMSStatus s \<noteq> ERR_TIMEOUT \<Longrightarrow> SendingSMSStatus (phone_events env events s) \<noteq> ERR_TIMEOUT"
proof (induction events arbitrary: s)
  case (Cons e events)
  have "SendingSMSStatus (called_back env e s) \<noteq> ERR_TIMEOUT"
    using Cons.prems by (cases e) (simp_all add: called_back_def SMSD_SendSMSStatusCallback_def note_send_def)
  then show ?case using Cons.IH by (simp add: phone_events_def)
qed (simp add: phone_events_def)

lemma unsettled_history:
  "SendingSMSStatus (phone_events env events s) = ERR_TIMEOUT \<Longrightarrow> sends (phone_events env events s) = sends s"
proof (induction events arbitrary: s)
  case (Cons e events)
  show ?case
  proof (cases e)
    case (SendStatus status mr)
    then have "SendingSMSStatus (called_back env e s) \<noteq> ERR_TIMEOUT"
      by (simp add: called_back_def SMSD_SendSMSStatusCallback_def note_send_def)
    then show ?thesis using Cons.prems status_settled by (simp add: phone_events_def)
  next
    case (Incoming incoming)
    then show ?thesis using Cons by (simp add: phone_events_def called_back_def)
  qed
qed (simp add: phone_events_def)

lemma wait_second_returns:
  "clock_second env (sends s @ replicate n Polled) \<noteq> z \<Longrightarrow> \<exists>s'. wait_second env z s = Some s' \<and> sendtimeout s' = sendtimeout s"
proof (induction n arbitrary: s)
  case 0
  then show ?case by (subst wait_second.simps) (simp add: note_send_def)
next
  case (Suc n)
  let ?s1 = "phone_events env (modem_read env (sends s)) (note_send Polled s)"
  have limit: "sendtimeout ?s1 = sendtimeout s" by (simp add: note_send_def)
  show ?case
  proof (cases "SendingSMSStatus ?s1 = ERR_TIMEOUT")
    case True
    then have "sends ?s1 @ replicate n Polled = sends s @ replicate (Suc n) Polled"
      using unsettled_history [OF True] by (simp add: note_send_def)
    then obtain s' where "wait_second env z ?s1 = Some s'" "sendtimeout s' = sendtimeout s"
      using Suc.IH [of ?s1] Suc.prems limit by auto
    then show ?thesis using limit by (subst wait_second.simps) (auto simp: Let_def)
  next
    case False
    then show ?thesis using limit by (subst wait_second.simps) (simp add: Let_def)
  qed
qed

lemma wait_status_ends:
  assumes "\<forall>t. \<exists>n. clock_second env (t @ replicate n Polled) \<noteq> clock_second env t"
  shows "sendtimeout s < -1 \<Longrightarrow> j \<le> sendtimeout s \<Longrightarrow> \<exists>s'. wait_status env j s = Some s'"
proof (induction "unat (sendtimeout s - j)" arbitrary: j s rule: less_induct)
  case less
  let ?s1 = "note_send Refreshed s"
  let ?z = "clock_second env (sends ?s1)"
  obtain n where n: "clock_second env (sends ?s1 @ replicate n Polled) \<noteq> ?z" using assms by blast
  then obtain k where "n = Suc k" by (cases n) auto
  with n have "clock_second env (sends (note_send Polled ?s1) @ replicate k Polled) \<noteq> ?z" by (simp add: note_send_def)
  from wait_second_returns [OF this] obtain s2 where s2: "wait_second env ?z (note_send Polled ?s1) = Some s2"
    "sendtimeout s2 = sendtimeout s" by (auto simp: note_send_def)
  have "\<exists>s'. wait_status env (j + 1) s2 = Some s'" if go: "\<not> j + 1 > sendtimeout s2"
  proof (rule less.hyps)
    have "1 + sendtimeout s \<noteq> 0" using less.prems(1) by (metis add.commute eq_neg_iff_add_eq_0 less_irrefl)
    then have "unat (1 + sendtimeout s) = Suc (unat (sendtimeout s))" by (rule unatSuc)
    then have "j \<noteq> sendtimeout s" using go s2(2) by (auto simp: not_less word_le_nat_alt add.commute)
    then have j: "j < sendtimeout s" using less.prems(2) by simp
    then have "1 + j \<noteq> 0" by (metis add.commute eq_neg_iff_add_eq_0 less.prems(1) less_trans less_irrefl)
    then have "unat (j + 1) = Suc (unat j)" using unatSuc [of j] by (simp add: add.commute)
    then show "unat (sendtimeout s2 - (j + 1)) < unat (sendtimeout s - j)" unfolding s2(2)
      using j by (simp add: unat_sub word_le_nat_alt word_less_nat_alt)
  qed (use go s2(2) less.prems in auto)
  then show ?case using s2 by (subst wait_status.simps) (auto simp: Let_def)
qed

text \<open>
  Claim C39. The wait for the status of a part handed to the phone ends, whether or not the phone ever reports it:
  with any clock that does not stand still, and any time limit but the largest number there is.
\<close>

theorem send_wait_returns:
  assumes "\<forall>t. \<exists>n. clock_second env (t @ replicate n Polled) \<noteq> clock_second env t" "sendtimeout s < -1"
  shows "\<exists>s'. wait_status env 0 s = Some s'"
  by (rule wait_status_ends [OF assms]) simp

text \<open>
  A center the phone did not give is taken for cached by the next try, which sends through whatever the failed
  request left.
\<close>

lemma failed_center_is_reused:
  assumes "SMSC_Location c = l" "l \<noteq> 0" "SMSC_Location (SMSCCache s) \<noteq> l" "modem_smsc env (sends s) l = (error, got, [])" "error \<noteq> ERR_NONE"
  shows "\<exists>s1. choose_smsc env c s = (None, s1)
    \<and> choose_smsc env c s1 = (Some (with_validity s1 (got\<lparr>SMSC_Location := 0\<rparr>)), s1)"
  using assms by (auto simp: choose_smsc_def Let_def note_send_def with_validity_def phone_events_def)

subsection \<open>A phone that sends\<close>

definition example_outbox :: "32 word \<Rightarrow> outbox" where
  "example_outbox tries =
     \<lparr>ob_SMSID = ''A'', ob_sms = (received inbox_sms)\<lparr>Multi_Number := 3\<rparr>, ob_retries = tries, ob_SkipMessage = [False, True, False],
      ob_currdeliveryreport = 0, ob_relativevalidity = -1\<rparr>"

definition willing :: "32 word \<Rightarrow> send_environment" where
  "willing tries =
     \<lparr>service_find = (\<lambda>t. (ERR_NONE, example_outbox tries)), service_record = (\<lambda>t i r ref. ERR_NONE), service_move = (\<lambda>t d b. ERR_NONE),
      modem_smsc = (\<lambda>t l. (ERR_NONE, SMSC inbox_sms, [])), modem_send = (\<lambda>t sms. (ERR_NONE, [SendStatus 0 7])),
      modem_dial = (\<lambda>t v n. (ERR_NOTSUPPORTED, [])), modem_read = (\<lambda>t. []), clock_second = (\<lambda>t. int (length t)),
      send_shutdown = (\<lambda>t. False), receive_env = mailbox []\<rparr>"

definition fresh_sender :: sender where
  "fresh_sender =
     \<lparr>maxretries = 1, sendtimeout = 30, deliveryreport = ''no'', RunOnSent = True, RunOnFailure = False, SMSID = [], prevSMSID = [],
      retries = 0, SkipMessage = [], currdeliveryreport = 0, relativevalidity = -1, ConfigSMSC = SMSC inbox_sms, SMSCCache = SMSC inbox_sms,
      TPMR = 0, StatusCode = 0, Part = 0, SendingSMSStatus = ERR_NONE, Sent = 0, Failed = 0, receiver = fresh_smsd, sends = []\<rparr>"

theorem send_gives_up_witness:
  "\<exists>s'. SMSD_SendSMS (willing 2) fresh_sender = Some (Done (ERR_UNKNOWN, s')) \<and> Failed s' = 2"
  using send_gives_up [of "willing 2" fresh_sender "example_outbox 2"]
  by (auto simp: willing_def fresh_sender_def example_outbox_def numeral_eq_Suc)

lemma willing_wait:
  assumes "SendingSMSStatus s = ERR_NONE"
  shows "wait_status (willing tries) 0 s = Some (s\<lparr>sends := sends s @ [Refreshed, Polled, Polled]\<rparr>)"
  using assms by (simp add: wait_status.simps wait_second.simps willing_def note_send_def phone_events_def Let_def)

lemma willing_notices:
  "smsInfo_records r = [] \<Longrightarrow> SMSD_ProcessSMSInfoCache env r = Some (Done (ERR_NONE, r))"
  by (simp add: SMSD_ProcessSMSInfoCache_def info_loop_none)

lemma willing_smsc:
  "\<exists>c' s1. choose_smsc (willing n) c s = (Some c', s1) \<and> receiver s1 = receiver s \<and> SkipMessage s1 = SkipMessage s"
  by (auto simp: choose_smsc_def willing_def note_send_def phone_events_def Let_def)

lemma willing_part:
  assumes "smsInfo_records (receiver s) = []" "SkipMessage s ! i \<or> Class (Multi_SMS m ! i) \<noteq> GSM_SMS_USSD"
  shows "\<exists>m' s'. send_part (willing n) i m s = Some (Done (PartSent, m', s')) \<and> receiver s' = receiver s
    \<and> SkipMessage s' = SkipMessage s \<and> (\<forall>k. k \<noteq> i \<longrightarrow> Multi_SMS m' ! k = Multi_SMS m ! k)"
proof (cases "SkipMessage s ! i")
  case False
  obtain c s1 where s1: "choose_smsc (willing n) (SMSC (Multi_SMS m ! i)) s = (Some c, s1)" "receiver s1 = receiver s"
    "SkipMessage s1 = SkipMessage s" using willing_smsc by blast
  define sms where "sms = report_pdu s1 ((Multi_SMS m ! i)\<lparr>SMSC := c\<rparr>)"
  have "Class sms \<noteq> GSM_SMS_USSD" using assms(2) False by (simp add: sms_def report_pdu_def)
  then obtain s2 where s2: "submit (willing n) i sms s1 = (ERR_NONE, s2)" "receiver s2 = receiver s" "SkipMessage s2 = SkipMessage s"
    "SendingSMSStatus s2 = ERR_NONE"
    using s1 by (simp add: submit_def willing_def phone_events_def called_back_def SMSD_SendSMSStatusCallback_def note_send_def Let_def)
  have "wait_status (willing n) 0 s2 = Some (s2\<lparr>sends := sends s2 @ [Refreshed, Polled, Polled]\<rparr>)"
    by (rule willing_wait [OF s2(4)])
  moreover have "service_record (willing n) t k r ref = ERR_NONE" for t k r ref by (simp add: willing_def)
  ultimately show ?thesis
    using False s1 s2 assms(1) willing_notices [of "receiver s"]
    by (simp add: send_part_def Let_def sms_def [symmetric] add_sent_def note_send_def)
qed (simp add: send_part_def)

lemma willing_parts:
  assumes "smsInfo_records (receiver s) = []" "distinct is" "\<forall>i \<in> set is. SkipMessage s ! i \<or> Class (Multi_SMS m ! i) \<noteq> GSM_SMS_USSD"
  shows "\<exists>m' s'. send_parts (willing n) is m s = Some (Done (PartSent, m', s'))"
  using assms
proof (induction "is" arbitrary: m s)
  case (Cons i rest)
  have "SkipMessage s ! i \<or> Class (Multi_SMS m ! i) \<noteq> GSM_SMS_USSD" using Cons.prems(3) by simp
  from willing_part [OF Cons.prems(1) this, of n] obtain m1 s1 where s1:
    "send_part (willing n) i m s = Some (Done (PartSent, m1, s1))" "receiver s1 = receiver s"
    "SkipMessage s1 = SkipMessage s" "\<forall>k. k \<noteq> i \<longrightarrow> Multi_SMS m1 ! k = Multi_SMS m ! k"
    by blast
  have "\<forall>k \<in> set rest. SkipMessage s1 ! k \<or> Class (Multi_SMS m1 ! k) \<noteq> GSM_SMS_USSD"
    using Cons.prems(2,3) s1(3,4) by fastforce
  then show ?case using Cons.IH [of s1 m1] Cons.prems s1 by simp
qed simp

lemma willing_run: "\<exists>s'. SMSD_SendSMS (willing 0) fresh_sender = Some (Done (ERR_NONE, s'))"
proof -
  define s0 where "s0 = note_send (LookedUp ERR_NONE) (fresh_sender\<lparr>SMSID := ''A'', retries := 0, SkipMessage := [False, True, False],
      currdeliveryreport := 0, relativevalidity := -1\<rparr>)\<lparr>retries := 1\<rparr>"
  let ?m = "ob_sms (example_outbox 0)"
  have "\<forall>i \<in> set [0..<3]. SkipMessage s0 ! i \<or> Class (Multi_SMS ?m ! i) \<noteq> GSM_SMS_USSD"
    by (simp add: upt_rec example_outbox_def received_def inbox_sms_def blank_sms_def s0_def numeral_eq_Suc)
  moreover have "smsInfo_records (receiver s0) = []" by (simp add: s0_def note_send_def fresh_sender_def)
  ultimately obtain m' s' where "send_parts (willing 0) [0..<3] ?m s0 = Some (Done (PartSent, m', s'))"
    using willing_parts [of s0 "[0..<3]" ?m 0] by auto
  then show ?thesis
    by (simp add: SMSD_SendSMS_def willing_def example_outbox_def fresh_sender_def s0_def note_send_def move_sms_def Let_def)
qed

theorem send_in_order_witness:
  "\<exists>s' new. SMSD_SendSMS (willing 0) fresh_sender = Some (Done (ERR_NONE, s')) \<and> sends s' = LookedUp ERR_NONE # new
    \<and> submitted new = [0, 2] \<and> recorded new = [0, 2] \<and> confirmed new = [0, 2]"
proof -
  obtain s' where s': "SMSD_SendSMS (willing 0) fresh_sender = Some (Done (ERR_NONE, s'))" using willing_run by blast
  show ?thesis
    using send_in_order [OF s', of "example_outbox 0"] s'
    by (simp add: willing_def example_outbox_def fresh_sender_def upt_rec numeral_eq_Suc) blast
qed

theorem send_wait_returns_witness: "\<exists>s'. wait_status (willing 0) 0 fresh_sender = Some s'"
proof (rule send_wait_returns)
  show "\<forall>t. \<exists>n. clock_second (willing 0) (t @ replicate n Polled) \<noteq> clock_second (willing 0) t"
    by (auto simp: willing_def intro!: exI [of _ 1])
qed (simp add: fresh_sender_def)

end
