(* ===== verification/CNumbers.thy ===== *)
theory CNumbers imports Prelude begin

text \<open>
  The character classes and the reading of numbers of the C library, in its own locale, and the
  decimal text of a number. Strings are octets that end at their first zero, or at the end of the list.
\<close>

definition isspace :: "byte \<Rightarrow> bool" where "isspace b \<longleftrightarrow> b \<in> {9, 10, 11, 12, 13, 32}"
definition isdigit :: "byte \<Rightarrow> bool" where "isdigit b \<longleftrightarrow> 48 \<le> b \<and> b \<le> 57"
definition isxdigit :: "byte \<Rightarrow> bool" where
  "isxdigit b \<longleftrightarrow> isdigit b \<or> 65 \<le> b \<and> b \<le> 70 \<or> 97 \<le> b \<and> b \<le> 102"
definition tolower :: "byte \<Rightarrow> byte" where "tolower b = (if 65 \<le> b \<and> b \<le> 90 then b + 32 else b)"

definition digits_value :: "byte list \<Rightarrow> nat" where
  "digits_value ds = foldl (\<lambda>v d. v * 10 + (unat d - 48)) 0 ds"

text \<open>
  \<^verbatim>\<open>strtol\<close> with base 10: the number, the octets read (0 when there is no number), and whether it was
  out of the range of \<^verbatim>\<open>long\<close>, of 64 bits, and was cut to it.
\<close>

definition LONG_MAX :: int where "LONG_MAX = 2 ^ 63 - 1"
definition LONG_MIN :: int where "LONG_MIN = - (2 ^ 63)"

definition strtol :: "byte list \<Rightarrow> int \<times> nat \<times> bool" where
  "strtol s =
     (let blanks = length (takeWhile isspace s); r = drop blanks s;
          signed = (case r of [] \<Rightarrow> False | b # _ \<Rightarrow> b = 45 \<or> b = 43);
          negative = (case r of [] \<Rightarrow> False | b # _ \<Rightarrow> b = 45);
          digits = takeWhile isdigit (if signed then tl r else r);
          v = (if negative then - int (digits_value digits) else int (digits_value digits))
      in if digits = [] then (0, 0, False)
         else (max LONG_MIN (min LONG_MAX v), blanks + of_bool signed + length digits, v < LONG_MIN \<or> LONG_MAX < v))"

text \<open>\<^verbatim>\<open>atoi\<close>, and any store of a \<^verbatim>\<open>long\<close> in an \<^verbatim>\<open>int\<close>: the lower 32 bits.\<close>

definition to_int :: "int \<Rightarrow> int" where
  "to_int v = sint (word_of_int v :: 32 word)"

definition atoi :: "byte list \<Rightarrow> int" where
  "atoi s = to_int (fst (strtol s))"

subsection \<open>Decimal numbers\<close>

fun decimal :: "nat \<Rightarrow> byte list" where
  "decimal n = (if n < 10 then [48 + word_of_nat n] else decimal (n div 10) @ [48 + word_of_nat (n mod 10)])"

declare decimal.simps [simp del]

definition decimal_int :: "int \<Rightarrow> byte list" where
  "decimal_int v = (if v < 0 then 45 # decimal (nat (- v)) else decimal (nat v))"

lemma digit_octet: "n < 10 \<Longrightarrow> isdigit (48 + word_of_nat n) \<and> unat (48 + word_of_nat n :: byte) = 48 + n"
  by (simp add: isdigit_def word_le_nat_alt unat_word_ariths unat_of_nat)

lemma decimal_digits: "decimal n \<noteq> [] \<and> (\<forall>d \<in> set (decimal n). isdigit d)"
proof (induction n rule: decimal.induct)
  case (1 n)
  then show ?case using digit_octet [of n] digit_octet [of "n mod 10"]
    by (subst (1 2) decimal.simps) auto
qed

lemma decimal_value: "digits_value (decimal n) = n"
proof (induction n rule: decimal.induct)
  case (1 n)
  then show ?case using digit_octet [of n] digit_octet [of "n mod 10"]
    by (subst decimal.simps) (simp add: digits_value_def)
qed

lemma digit_not: "isdigit d \<Longrightarrow> \<not> isspace d \<and> d \<noteq> 45 \<and> d \<noteq> 43 \<and> d \<noteq> 0 \<and> d \<noteq> 44 \<and> d \<noteq> 34"
  by (auto simp: isdigit_def isspace_def)

text \<open>A decimal number is read back, up to what ends it.\<close>

definition ends_number :: "byte list \<Rightarrow> bool" where
  "ends_number r \<longleftrightarrow> (case r of [] \<Rightarrow> True | b # _ \<Rightarrow> \<not> isdigit b)"

lemma takeWhile_digits:
  "\<forall>d \<in> set ds. isdigit d \<Longrightarrow> ends_number r \<Longrightarrow> takeWhile isdigit (ds @ r) = ds"
  by (induction ds) (auto simp: ends_number_def split: list.splits)

lemma strtol_decimal:
  assumes "ends_number r" "LONG_MIN \<le> v" "v \<le> LONG_MAX"
  shows "strtol (decimal_int v @ r) = (v, length (decimal_int v), False)"
proof (cases "v < 0")
  case True
  let ?ds = "decimal (nat (- v))"
  have "takeWhile isdigit (?ds @ r) = ?ds" using decimal_digits assms(1) by (intro takeWhile_digits) auto
  then show ?thesis using True assms(2) decimal_digits [of "nat (- v)"] decimal_value [of "nat (- v)"]
    by (simp add: strtol_def decimal_int_def isspace_def LONG_MAX_def)
next
  case False
  let ?ds = "decimal (nat v)"
  obtain d ds where d: "?ds = d # ds" "isdigit d" using decimal_digits [of "nat v"] by (cases ?ds) auto
  have "takeWhile isdigit (?ds @ r) = ?ds" using decimal_digits assms(1) by (intro takeWhile_digits) auto
  then show ?thesis using False assms(3) d digit_not [OF d(2)] decimal_value [of "nat v"]
    by (simp add: strtol_def decimal_int_def LONG_MIN_def)
qed

lemma to_int_id: "- (2 ^ 31) \<le> v \<Longrightarrow> v < 2 ^ 31 \<Longrightarrow> to_int v = v"
  by (simp add: to_int_def sint_sbintrunc' signed_take_bit_int_eq_self)

end
