(* ===== verification/AtErrors.thy ===== *)
theory AtErrors imports AtErrorTables CNumbers "HOL-Library.List_Lexorder" begin

text \<open>
  Errors of AT phones, \<^verbatim>\<open>phone/at/at-error.c\<close>: a code or a description is looked up in the table of the
  vendor, then among the standard codes.
\<close>

datatype GSM_AT_Manufacturer =
    AT_Nokia | AT_Alcatel | AT_Siemens | AT_HP | AT_Falcom | AT_Ericsson | AT_Sagem | AT_Samsung | AT_Mitsubishi | AT_Sharp
  | AT_Option | AT_Motorola | AT_Wavecom | AT_Philips | AT_Huawei | AT_Qualcomm | AT_Telit | AT_ZTE | AT_Unknown | AT_Quectel
  | AT_SIMCom | AT_Sierra | AT_UBlox | AT_ITegno

datatype GSM_AT_Reply_State =
    AT_Reply_OK | AT_Reply_Connect | AT_Reply_Error | AT_Reply_Unknown | AT_Reply_CMSError | AT_Reply_CMEError | AT_Reply_SMSEdit

record GSM_Phone_ATGENData =
  Lines :: "nat list"
  Manufacturer :: GSM_AT_Manufacturer
  ReplyState :: GSM_AT_Reply_State
  ErrorCode :: int
  ErrorCodeValid :: bool
  ErrorText :: "string option"

text \<open>A table that is not there is empty: both hold no code.\<close>

definition vendors :: "(GSM_AT_Manufacturer \<times> at_error_code list \<times> at_error_code list) list" where
  "vendors = [
     (AT_Ericsson, ericsson_cme, []), (AT_Falcom, falcom_cme, []), (AT_Huawei, huawei_cme, []), (AT_ITegno, itegno_cme, itegno_cms),
     (AT_Motorola, motorola_cme, motorola_cms), (AT_Quectel, quectel_cme, quectel_cms), (AT_SIMCom, simcom_cme, simcom_cms),
     (AT_Samsung, samsung_cme, []), (AT_Siemens, siemens_cme, siemens_cms), (AT_Sierra, sierra_cme, sierra_cms),
     (AT_Telit, telit_cme, telit_cms), (AT_UBlox, ublox_cme, ublox_cms), (AT_Wavecom, wavecom_cme, wavecom_cms)]"

definition vendor_table :: "GSM_Phone_ATGENData \<Rightarrow> at_error_code list" where
  "vendor_table priv =
     (case find (\<lambda>(m, _). m = Manufacturer priv) vendors of None \<Rightarrow> []
      | Some (_, cme, cms) \<Rightarrow> if ReplyState priv = AT_Reply_CMEError then cme else cms)"

definition standard_table :: "GSM_Phone_ATGENData \<Rightarrow> at_error_code list" where
  "standard_table priv = (if ReplyState priv = AT_Reply_CMEError then standard_cme else standard_cms)"

definition find_code :: "at_error_code list \<Rightarrow> int \<Rightarrow> at_error_code option" where
  "find_code codes code = find (\<lambda>(c, _). c = code) codes"

definition lookup_code :: "GSM_Phone_ATGENData \<Rightarrow> int \<Rightarrow> at_error_code option" where
  "lookup_code priv code =
     (case find_code (vendor_table priv) code of None \<Rightarrow> find_code (standard_table priv) code | Some e \<Rightarrow> Some e)"

definition text_equal :: "byte list \<Rightarrow> string \<Rightarrow> bool" where
  "text_equal txt expected \<longleftrightarrow>
     length expected = length txt \<and> (\<forall>i \<in> {0..<length txt}. tolower (txt ! i) = tolower (of_char (expected ! i)))"

definition stripped :: "byte list \<Rightarrow> byte list" where
  "stripped txt = rev (dropWhile isspace (rev (dropWhile isspace (cstr txt))))"

definition find_text :: "GSM_Phone_ATGENData \<Rightarrow> byte list \<Rightarrow> at_error_code option" where
  "find_text priv txt =
     (case find (\<lambda>(_, t, _). text_equal txt t) (vendor_table priv) of Some e \<Rightarrow> Some e
      | None \<Rightarrow> find (\<lambda>(c, t, _). find_code (vendor_table priv) c = None \<and> text_equal txt t) (standard_table priv))"

definition ATGEN_ParseError :: "GSM_Phone_ATGENData \<Rightarrow> byte list \<Rightarrow> GSM_Phone_ATGENData" where
  "ATGEN_ParseError priv0 text0 =
     (let priv = priv0\<lparr>ErrorCode := -1, ErrorCodeValid := False, ErrorText := None\<rparr>; txt = stripped text0 in
      if txt = [] then priv
      else if isdigit (hd txt) \<or> hd txt = 45 \<or> hd txt = 43 then
        let (code, used, erange) = strtol txt in
        if used = 0 \<or> erange \<or> code < - (2 ^ 31) \<or> code > 2 ^ 31 - 1 \<or> used \<noteq> length txt then priv
        else priv\<lparr>ErrorCode := code, ErrorCodeValid := True, ErrorText := map_option (fst \<circ> snd) (lookup_code priv code)\<rparr>
      else
        case find_text priv txt of None \<Rightarrow> priv
        | Some (code, text', _) \<Rightarrow> priv\<lparr>ErrorCode := code, ErrorCodeValid := True, ErrorText := Some text'\<rparr>)"

definition ATGEN_ErrorResult :: "GSM_Phone_ATGENData \<Rightarrow> GSM_Error" where
  "ATGEN_ErrorResult priv =
     (if \<not> ErrorCodeValid priv then ERR_UNKNOWN
      else case lookup_code priv (ErrorCode priv) of None \<Rightarrow> ERR_UNKNOWN | Some (_, _, error) \<Rightarrow> error)"

subsection \<open>What the tables say\<close>

text \<open>
  The standard tables are checked once: their codes ascend, and their descriptions, sorted by the letters
  without case, differ. A list whose keys ascend has one entry of each key.
\<close>

fun in_order :: "('k::linorder \<times> 'e) list \<Rightarrow> bool" where
  "in_order (x # y # rest) \<longleftrightarrow> (fst x < fst y \<or> fst x = fst y \<and> snd x = snd y) \<and> in_order (y # rest)"
| "in_order rest \<longleftrightarrow> True"

lemma in_order_first:
  "in_order (x # rest) \<Longrightarrow> y \<in> set rest \<Longrightarrow> fst x < fst y \<or> fst x = fst y \<and> snd x = snd y"
proof (induction rest arbitrary: x)
  case (Cons z rest)
  then have "fst x < fst z \<or> fst x = fst z \<and> snd x = snd z" "in_order (z # rest)" "y = z \<or> y \<in> set rest" by simp_all
  with Cons.IH [of z] show ?case by (metis less_trans)
qed simp

lemma in_order_Cons: "in_order (x # rest) \<Longrightarrow> in_order rest"
  by (cases rest) simp_all

lemma in_order_unique:
  "in_order xs \<Longrightarrow> x \<in> set xs \<Longrightarrow> y \<in> set xs \<Longrightarrow> fst x = fst y \<Longrightarrow> snd x = snd y"
proof (induction xs)
  case (Cons z zs)
  then show ?case using in_order_first [OF Cons.prems(1)] in_order_Cons [OF Cons.prems(1)]
    by (metis less_irrefl set_ConsD)
qed simp

fun merged :: "('k::linorder \<times> 'e) list \<Rightarrow> ('k \<times> 'e) list \<Rightarrow> ('k \<times> 'e) list" where
  "merged [] ys = ys"
| "merged xs [] = xs"
| "merged (x # xs) (y # ys) = (if fst x \<le> fst y then x # merged xs (y # ys) else y # merged (x # xs) ys)"

fun pairwise :: "('k::linorder \<times> 'e) list list \<Rightarrow> ('k \<times> 'e) list list" where
  "pairwise (xs # ys # rest) = merged xs ys # pairwise rest"
| "pairwise rest = rest"

fun merge_all :: "nat \<Rightarrow> ('k::linorder \<times> 'e) list list \<Rightarrow> ('k \<times> 'e) list" where
  "merge_all n [] = []"
| "merge_all n [xs] = xs"
| "merge_all 0 rest = concat rest"
| "merge_all (Suc n) rest = merge_all n (pairwise rest)"

lemma set_merged [simp]: "set (merged xs ys) = set xs \<union> set ys"
  by (induction xs ys rule: merged.induct) auto

lemma set_pairwise [simp]: "\<Union> (set ` set (pairwise rest)) = \<Union> (set ` set rest)"
  by (induction rest rule: pairwise.induct) auto

lemma set_merge_all: "set (merge_all n rest) = \<Union> (set ` set rest)"
proof (induction n rest rule: merge_all.induct)
  case (4 n xs ys rest)
  then show ?case using set_pairwise [of "xs # ys # rest"] by simp
qed auto

fun letters :: "string \<Rightarrow> bool list" where
  "letters [] = []"
| "letters (Char b0 b1 b2 b3 b4 b5 b6 b7 # t) = b4 # b3 # b2 # b1 # b0 # letters t"

definition sorted_texts :: "at_error_code list \<Rightarrow> (bool list \<times> GSM_Error) list" where
  "sorted_texts codes = merge_all 7 (map (\<lambda>(_, t, e). [(letters t, e)]) codes)"

definition plain_text :: "string \<Rightarrow> bool" where
  "plain_text t \<longleftrightarrow> t \<noteq> [] \<and> \<not> isspace (of_char (last t)) \<and> CHR 0x00 \<notin> set t \<and>
     (let b = of_char (hd t) in \<not> isspace b \<and> \<not> isdigit b \<and> b \<noteq> 45 \<and> b \<noteq> 43)"

lemma standard_codes_ascend:
  "in_order standard_cme" "in_order standard_cms"
  "list_all (\<lambda>(c, _). - (2 ^ 31) \<le> c \<and> c < 2 ^ 31) (standard_cme @ standard_cms)"
  by code_simp+

lemma standard_texts_ascend: "in_order (sorted_texts standard_cme)" "in_order (sorted_texts standard_cms)"
  by code_simp+

lemma standard_texts_plain: "list_all (\<lambda>(_, t, _). plain_text t) (standard_cme @ standard_cms)"
  by code_simp

subsection \<open>Text without case\<close>

lemma text_equal_iff: "text_equal txt t \<longleftrightarrow> map tolower txt = map tolower (bytes_of t)"
  unfolding text_equal_def bytes_of_def list_eq_iff_nth_eq length_map atLeastLessThan_iff Ball_def
  by (metis length_map nth_map zero_le)

lemma upper_cases:
  assumes "65 \<le> b" "b \<le> (90 :: byte)"
  shows "b \<in> {65, 66, 67, 68, 69, 70, 71, 72, 73, 74, 75, 76, 77, 78, 79, 80, 81, 82, 83, 84, 85, 86, 87, 88, 89, 90}"
proof -
  have "unat b \<in> {65..90}" using assms by (simp add: word_le_nat_alt)
  moreover have "{65..90::nat} = {65, 66, 67, 68, 69, 70, 71, 72, 73, 74, 75, 76, 77, 78, 79, 80, 81, 82, 83, 84, 85, 86, 87, 88, 89, 90}"
    by (simp add: atLeastAtMost_insertL [symmetric] del: atLeastAtMost_insertL)
  ultimately show ?thesis by (simp add: word_unat_eq_iff)
qed

lemma tolower_facts:
  "isspace (tolower b) \<longleftrightarrow> isspace b" "isdigit (tolower b) \<longleftrightarrow> isdigit b" "tolower b = 0 \<longleftrightarrow> b = 0"
  "tolower b = 45 \<longleftrightarrow> b = 45" "tolower b = 43 \<longleftrightarrow> b = 43"
  "n \<le> 4 \<Longrightarrow> bit (tolower b) n = bit b n"
proof -
  have *: "isspace (b + 32) = isspace b" "isdigit (b + 32) = isdigit b" "(b + 32 = 0) = (b = 0)" "(b + 32 = 45) = (b = 45)"
      "(b + 32 = 43) = (b = 43)" "b + 32 = b OR 32" if "65 \<le> b" "b \<le> 90"
    using upper_cases [OF that] by (elim insertE emptyE; hypsubst; simp add: isspace_def isdigit_def)+
  show "isspace (tolower b) \<longleftrightarrow> isspace b" "isdigit (tolower b) \<longleftrightarrow> isdigit b" "tolower b = 0 \<longleftrightarrow> b = 0"
    "tolower b = 45 \<longleftrightarrow> b = 45" "tolower b = 43 \<longleftrightarrow> b = 43" unfolding tolower_def using *(1-5) by (cases "65 \<le> b \<and> b \<le> 90"; simp only: if_True if_False simp_thms)+
  assume n: "n \<le> 4"
  have "(32 :: byte) = push_bit 5 1" by simp
  then have "\<not> bit (32 :: byte) n" using n by (simp only: bit_simps) simp
  then show "bit (tolower b) n = bit b n" using *(6) n by (auto simp: tolower_def bit_or_iff)
qed

lemma char_bits:
  "bit (of_char (Char b0 b1 b2 b3 b4 b5 b6 b7) :: byte) 0 = b0" "bit (of_char (Char b0 b1 b2 b3 b4 b5 b6 b7) :: byte) 1 = b1"
  "bit (of_char (Char b0 b1 b2 b3 b4 b5 b6 b7) :: byte) 2 = b2" "bit (of_char (Char b0 b1 b2 b3 b4 b5 b6 b7) :: byte) 3 = b3"
  "bit (of_char (Char b0 b1 b2 b3 b4 b5 b6 b7) :: byte) 4 = b4"
  by (simp_all add: of_char_Char bit_horner_sum_bit_word_iff)

lemma letters_cong: "map tolower (bytes_of t) = map tolower (bytes_of t') \<Longrightarrow> letters t = letters t'"
proof (induction t arbitrary: t')
  case Nil
  then show ?case by (cases t') simp_all
next
  case (Cons c t)
  then obtain c' r where t': "t' = c' # r" by (cases t') simp_all
  have "tolower (of_char c) = tolower (of_char c')" using Cons.prems t' by simp
  then have bits: "bit (of_char c :: byte) n = bit (of_char c' :: byte) n" if "n \<le> 4" for n
    using tolower_facts(6) [OF that] by metis
  obtain b0 b1 b2 b3 b4 b5 b6 b7 where c: "c = Char b0 b1 b2 b3 b4 b5 b6 b7" by (cases c)
  obtain d0 d1 d2 d3 d4 d5 d6 d7 where c': "c' = Char d0 d1 d2 d3 d4 d5 d6 d7" by (cases c')
  show ?case using Cons.IH [of r] Cons.prems bits [of 0] bits [of 1] bits [of 2] bits [of 3] bits [of 4]
    unfolding c c' t' char_bits by simp
qed

lemma of_char_zero: "(of_char c :: byte) = 0 \<longleftrightarrow> c = CHR 0x00"
proof
  assume z: "(of_char c :: byte) = 0"
  obtain b0 b1 b2 b3 b4 b5 b6 b7 where c: "c = Char b0 b1 b2 b3 b4 b5 b6 b7" by (cases c)
  have bits: "bit (of_char c :: byte) n = [b0, b1, b2, b3, b4, b5, b6, b7] ! n" if "n < 8" for n
    unfolding c of_char_Char using that by (simp only: bit_horner_sum_bit_word_iff) simp
  show "c = CHR 0x00" using bits [of 0] bits [of 1] bits [of 2] bits [of 3] bits [of 4] bits [of 5] bits [of 6] bits [of 7]
    unfolding z by (simp add: c)
qed simp

subsection \<open>Numbers and descriptions mean the same\<close>

text \<open>What remains of a word with blanks around it.\<close>

definition blank_around :: "byte list \<Rightarrow> bool" where
  "blank_around s \<longleftrightarrow> (\<forall>b \<in> set s. isspace b)"

lemma stripped_word:
  assumes "blank_around before" "blank_around after" "0 \<notin> set txt" "txt \<noteq> []" "\<not> isspace (hd txt)" "\<not> isspace (last txt)"
  shows "stripped (before @ txt @ after) = txt"
proof -
  have "0 \<notin> set (before @ txt @ after)" using assms(1-3) by (auto simp: blank_around_def isspace_def)
  then have "cstr (before @ txt @ after) = before @ txt @ after" by (rule cstr_id)
  moreover have "dropWhile isspace (before @ txt @ after) = txt @ after"
    using assms(1,4,5) by (cases "txt") (simp_all add: blank_around_def dropWhile_append)
  moreover have "dropWhile isspace (rev (txt @ after)) = rev txt"
    using assms(2,4,6) by (cases "txt" rule: rev_cases) (simp_all add: blank_around_def dropWhile_append)
  ultimately show ?thesis by (simp add: stripped_def)
qed

lemma find_SomeD: "find P xs = Some x \<Longrightarrow> x \<in> set xs \<and> P x"
  by (induction xs) (auto split: if_splits)

lemma tables_of_error [simp]:
  "lookup_code (priv\<lparr>ErrorCode := c, ErrorCodeValid := v, ErrorText := t\<rparr>) = lookup_code priv"
  "find_text (priv\<lparr>ErrorCode := c, ErrorCodeValid := v, ErrorText := t\<rparr>) = find_text priv"
proof -
  have "vendor_table (priv\<lparr>ErrorCode := c, ErrorCodeValid := v, ErrorText := t\<rparr>) = vendor_table priv"
    "standard_table (priv\<lparr>ErrorCode := c, ErrorCodeValid := v, ErrorText := t\<rparr>) = standard_table priv"
    by (simp_all add: vendor_table_def standard_table_def split: option.split)
  then show "lookup_code (priv\<lparr>ErrorCode := c, ErrorCodeValid := v, ErrorText := t\<rparr>) = lookup_code priv"
    "find_text (priv\<lparr>ErrorCode := c, ErrorCodeValid := v, ErrorText := t\<rparr>) = find_text priv"
    unfolding lookup_code_def find_text_def fun_eq_iff by (simp_all split: option.split)
qed

lemma number_parsed:
  assumes "blank_around before" "blank_around after" "- (2 ^ 31) \<le> c" "c < 2 ^ 31"
  shows "ATGEN_ParseError priv (before @ decimal_int c @ after)
    = priv\<lparr>ErrorCode := c, ErrorCodeValid := True, ErrorText := map_option (fst \<circ> snd) (lookup_code priv c)\<rparr>"
proof -
  have digits: "\<forall>d \<in> set (decimal n). isdigit d" "decimal n \<noteq> []" for n using decimal_digits by blast+
  have octets: "\<forall>d \<in> set (decimal_int c). isdigit d \<or> d = 45" using digits by (simp add: decimal_int_def)
  have "\<not> isspace d \<and> d \<noteq> 0" if "isdigit d \<or> d = 45" for d using that digit_not [of d] by (auto simp: isspace_def)
  then have "\<forall>d \<in> set (decimal_int c). \<not> isspace d \<and> d \<noteq> 0" using octets by blast
  moreover have ne: "decimal_int c \<noteq> []" using digits(2) by (simp add: decimal_int_def)
  ultimately have "stripped (before @ decimal_int c @ after) = decimal_int c"
    using assms(1,2) by (intro stripped_word) auto
  moreover have "isdigit (hd (decimal_int c)) \<or> hd (decimal_int c) = 45" using octets ne by simp
  moreover have "strtol (decimal_int c @ []) = (c, length (decimal_int c), False)"
    using assms(3,4) by (intro strtol_decimal) (simp_all add: ends_number_def LONG_MIN_def LONG_MAX_def)
  ultimately show ?thesis using assms(3,4) ne
    by (auto simp: ATGEN_ParseError_def Let_def)
qed

text \<open>A description that is a text of its own finds its entry.\<close>

lemma plain_found:
  assumes "plain_text t" "map tolower txt = map tolower (bytes_of t)" "blank_around before" "blank_around after"
  shows "ATGEN_ParseError priv (before @ txt @ after) =
    (case find_text priv txt of None \<Rightarrow> priv\<lparr>ErrorCode := -1, ErrorCodeValid := False, ErrorText := None\<rparr>
     | Some (code, t', _) \<Rightarrow> priv\<lparr>ErrorCode := code, ErrorCodeValid := True, ErrorText := Some t'\<rparr>)"
proof -
  have len: "length txt = length t" using assms(2) by (metis length_bytes_of length_map)
  then have ne: "txt \<noteq> []" "t \<noteq> []" using assms(1) by (auto simp: plain_text_def)
  have nth: "tolower (txt ! i) = tolower (of_char (t ! i))" if "i < length t" for i
    using arg_cong [OF assms(2), of "\<lambda>l. l ! i"] that len by (simp add: bytes_of_def)
  have hd: "tolower (hd txt) = tolower (of_char (hd t))" using nth [of 0] ne by (simp add: hd_conv_nth)
  have last: "tolower (last txt) = tolower (of_char (last t))" using nth [of "length t - 1"] ne len by (simp add: last_conv_nth)
  have "0 \<notin> set txt"
  proof
    assume "0 \<in> set txt"
    then obtain i where i: "i < length t" "txt ! i = 0" using len by (metis in_set_conv_nth)
    then have "t ! i = CHR 0x00" using nth [OF i(1)] tolower_facts(3) of_char_zero by metis
    then show False using assms(1) i(1) nth_mem by (fastforce simp: plain_text_def)
  qed
  moreover have hds: "\<not> isspace (hd txt)" "\<not> isdigit (hd txt)" "hd txt \<noteq> 45" "hd txt \<noteq> 43"
    using hd assms(1) tolower_facts(1,2,4,5) unfolding plain_text_def Let_def by metis+
  moreover have "\<not> isspace (last txt)" using last assms(1) tolower_facts(1) unfolding plain_text_def by metis
  ultimately have "stripped (before @ txt @ after) = txt" using assms(3,4) ne by (intro stripped_word)
  then show ?thesis using hds ne
    by (simp add: ATGEN_ParseError_def Let_def split: option.splits)
qed

text \<open>The standard tables: each code and each description stands for one error.\<close>

lemma standard_table_in: "standard_table priv = standard_cme \<or> standard_table priv = standard_cms"
  by (simp add: standard_table_def)

lemma standard_codes: "find_code (standard_table priv) c = Some e \<longleftrightarrow> e \<in> set (standard_table priv) \<and> fst e = c"
proof -
  have "in_order (standard_table priv)" using standard_table_in standard_codes_ascend by metis
  then have unique: "x = y" if "x \<in> set (standard_table priv)" "y \<in> set (standard_table priv)" "fst x = fst y" for x y
    using in_order_unique [OF _ that] that(3) by (simp add: prod_eq_iff)
  show ?thesis
  proof
    assume "find_code (standard_table priv) c = Some e"
    then show "e \<in> set (standard_table priv) \<and> fst e = c" by (auto simp: find_code_def dest!: find_SomeD)
  next
    assume e: "e \<in> set (standard_table priv) \<and> fst e = c"
    then obtain f where f: "find_code (standard_table priv) c = Some f"
      by (cases "find_code (standard_table priv) c") (auto simp: find_code_def find_None_iff, metis prod.collapse)
    then have "f \<in> set (standard_table priv)" "fst f = c" by (auto simp: find_code_def dest!: find_SomeD)
    then show "find_code (standard_table priv) c = Some e" using f e unique by metis
  qed
qed

lemma standard_texts:
  assumes "(c, t, e) \<in> set (standard_table priv)" "(c', t', e') \<in> set (standard_table priv)"
    "map tolower (bytes_of t) = map tolower (bytes_of t')"
  shows "e = e'"
proof -
  have "in_order (sorted_texts (standard_table priv))" using standard_table_in standard_texts_ascend by metis
  moreover have "(letters t, e) \<in> set (sorted_texts (standard_table priv))" "(letters t', e') \<in> set (sorted_texts (standard_table priv))"
    using assms(1,2) by (force simp: sorted_texts_def set_merge_all)+
  ultimately have "snd (letters t, e) = snd (letters t', e')" using letters_cong [OF assms(3)]
    by (intro in_order_unique [where xs = "sorted_texts (standard_table priv)"]) simp_all
  then show ?thesis by simp
qed

lemma no_vendor_table:
  "Manufacturer priv \<notin> fst ` set vendors \<Longrightarrow> vendor_table priv = []"
  by (auto simp: vendor_table_def split: option.split dest!: find_SomeD) (metis fst_conv image_eqI)+

lemma error_forms:
  assumes "Manufacturer priv \<notin> fst ` set vendors" "(c, t, error) \<in> set (standard_table priv)"
    "map tolower described = map tolower (bytes_of t)" "blank_around before" "blank_around after"
  shows "ATGEN_ParseError priv (before @ decimal_int c @ after) = priv\<lparr>ErrorCode := c, ErrorCodeValid := True, ErrorText := Some t\<rparr>"
    "ATGEN_ErrorResult (ATGEN_ParseError priv (before @ decimal_int c @ after)) = error"
    "ATGEN_ErrorResult (ATGEN_ParseError priv (before @ described @ after)) = error"
proof -
  have lookup: "lookup_code priv = find_code (standard_table priv)"
    by (simp add: fun_eq_iff lookup_code_def no_vendor_table [OF assms(1)] find_code_def)
  have code: "find_code (standard_table priv) c = Some (c, t, error)" using assms(2) standard_codes by simp
  have "(c, t, error) \<in> set (standard_cme @ standard_cms)" using assms(2) standard_table_in [of priv] by auto
  then have c: "- (2 ^ 31) \<le> c \<and> c < 2 ^ 31" and plain: "plain_text t"
    using standard_codes_ascend(3) standard_texts_plain unfolding list_all_iff by blast+
  show number: "ATGEN_ParseError priv (before @ decimal_int c @ after) = priv\<lparr>ErrorCode := c, ErrorCodeValid := True, ErrorText := Some t\<rparr>"
    using number_parsed [OF assms(4,5), of c priv] c by (simp add: lookup code)
  show "ATGEN_ErrorResult (ATGEN_ParseError priv (before @ decimal_int c @ after)) = error"
    unfolding number by (simp add: ATGEN_ErrorResult_def lookup code)
  have "\<exists>e \<in> set (standard_table priv). text_equal described (fst (snd e))"
    using assms(2,3) by (intro bexI [of _ "(c, t, error)"]) (simp_all add: text_equal_iff)
  then obtain c' t' e' where found: "find_text priv described = Some (c', t', e')"
    using find_None_iff [of "\<lambda>(_, t, _). text_equal described t" "standard_table priv"]
    by (cases "find_text priv described") (auto simp: find_text_def no_vendor_table [OF assms(1)] find_code_def split_beta, metis)
  then have "(c', t', e') \<in> set (standard_table priv)" "text_equal described t'"
    by (auto simp: find_text_def no_vendor_table [OF assms(1)] find_code_def dest!: find_SomeD)
  moreover from this have "find_code (standard_table priv) c' = Some (c', t', e')" using standard_codes by simp
  moreover have "e' = error" using standard_texts [OF calculation(1) assms(2)] calculation(2) assms(3) by (simp add: text_equal_iff)
  ultimately show "ATGEN_ErrorResult (ATGEN_ParseError priv (before @ described @ after)) = error"
    unfolding plain_found [OF plain assms(3-5)] by (simp add: found ATGEN_ErrorResult_def lookup)
qed

text \<open>
  Claim C24. A modem of a vendor without tables of its own reports an error by its number or by its description,
  in any case and with any blanks around it: the code and the description are recorded, and both give the
  error of the table.
\<close>

theorem at_error_forms_agree:
  assumes "Manufacturer priv \<notin> fst ` set vendors" "(c, t, error) \<in> set (standard_table priv)"
    "map tolower described = map tolower (bytes_of t)" "blank_around before" "blank_around after"
  shows "ATGEN_ParseError priv (before @ decimal_int c @ after) = priv\<lparr>ErrorCode := c, ErrorCodeValid := True, ErrorText := Some t\<rparr>
    \<and> ATGEN_ErrorResult (ATGEN_ParseError priv (before @ decimal_int c @ after)) = error
    \<and> ATGEN_ErrorResult (ATGEN_ParseError priv (before @ described @ after)) = error"
  using error_forms [OF assms] by blast

definition at_priv :: GSM_Phone_ATGENData where
  "at_priv = \<lparr>Lines = [], Manufacturer = AT_Nokia, ReplyState = AT_Reply_CMEError, ErrorCode = -1, ErrorCodeValid = False, ErrorText = None\<rparr>"

theorem at_error_forms_agree_witness:
  "ATGEN_ParseError at_priv (bytes_of '' 10'') = at_priv\<lparr>ErrorCode := 10, ErrorCodeValid := True, ErrorText := Some ''SIM not inserted''\<rparr>
   \<and> ATGEN_ErrorResult (ATGEN_ParseError at_priv (bytes_of '' sim NOT inserted'')) = ERR_NOSIM"
proof -
  have "Manufacturer at_priv \<notin> fst ` set vendors" by (simp add: at_priv_def vendors_def)
  moreover have "(10, ''SIM not inserted'', ERR_NOSIM) \<in> set (standard_table at_priv)"
    by (simp add: at_priv_def standard_table_def standard_cme_def)
  moreover have "map tolower (bytes_of ''sim NOT inserted'') = map tolower (bytes_of ''SIM not inserted'')" by (simp add: tolower_def)
  moreover have "blank_around [32]" "blank_around []" by (simp_all add: blank_around_def isspace_def)
  moreover have "decimal_int 10 = bytes_of ''10''" by (simp add: decimal_int_def decimal.simps [of 10] decimal.simps [of "Suc 0"])
  ultimately show ?thesis
    using at_error_forms_agree [of at_priv 10 "''SIM not inserted''" ERR_NOSIM "bytes_of ''sim NOT inserted''" "[32]" "[]"] by simp
qed

text \<open>Where a vendor's table gives one description to two codes, the description stands for the first.\<close>

lemma ublox_call_barred:
  assumes "Manufacturer priv = AT_UBlox" "ReplyState priv = AT_Reply_CMSError"
  shows "ATGEN_ErrorResult (ATGEN_ParseError priv (bytes_of ''10'')) = ERR_UNKNOWN"
    "ATGEN_ErrorResult (ATGEN_ParseError priv (bytes_of ''Call barred'')) = ERR_SECURITYERROR"
proof -
  have vendor: "vendor_table priv = ublox_cms" "standard_table priv = standard_cms"
    using assms by (simp_all add: vendor_table_def standard_table_def vendors_def)
  have "find_code ublox_cms 10 = None" "find_code standard_cms 10 = Some (10, ''Call barred'', ERR_UNKNOWN)"
    "find_code ublox_cms 352 = Some (352, ''Call barred'', ERR_SECURITYERROR)"
    "find (\<lambda>(_, t, _). text_equal (bytes_of ''Call barred'') t) ublox_cms = Some (352, ''Call barred'', ERR_SECURITYERROR)"
    by code_simp+
  note facts = this
  have "stripped (bytes_of ''10'') = bytes_of ''10''" "strtol (bytes_of ''10'') = (10, 2, False)"
    "stripped (bytes_of ''Call barred'') = bytes_of ''Call barred''"
    by code_simp+
  note texts = this
  have "lookup_code priv 10 = Some (10, ''Call barred'', ERR_UNKNOWN)" "lookup_code priv 352 = Some (352, ''Call barred'', ERR_SECURITYERROR)"
    "find_text priv (bytes_of ''Call barred'') = Some (352, ''Call barred'', ERR_SECURITYERROR)"
    unfolding lookup_code_def find_text_def vendor facts by simp_all
  with texts show "ATGEN_ErrorResult (ATGEN_ParseError priv (bytes_of ''10'')) = ERR_UNKNOWN"
    "ATGEN_ErrorResult (ATGEN_ParseError priv (bytes_of ''Call barred'')) = ERR_SECURITYERROR"
    by (simp_all add: ATGEN_ErrorResult_def ATGEN_ParseError_def Let_def isdigit_def)
qed

end
