(* ===== verification/AtText.thy ===== *)
theory AtText imports AtErrors Codings Alphabet Unicode begin

text \<open>
  The texts in the answers of AT phones, \<^verbatim>\<open>ATGEN_EncodeText\<close> and \<^verbatim>\<open>ATGEN_DecodeText\<close> of
  \<^verbatim>\<open>phone/at/atgen.c\<close>: encoding in the character set of the phone, and decoding with a guess of the set a
  phone really used.
\<close>

datatype GSM_AT_Charset =
    AT_CHARSET_HEX | AT_CHARSET_GSM | AT_CHARSET_UCS2 | AT_CHARSET_UCS_2 | AT_CHARSET_UTF8 | AT_CHARSET_UTF_8
  | AT_CHARSET_PCCP437 | AT_CHARSET_IRA | AT_CHARSET_ASCII | AT_CHARSET_ISO88591 | AT_CHARSET_ISO88592
  | AT_CHARSET_ISO88593 | AT_CHARSET_ISO88594 | AT_CHARSET_ISO88595 | AT_CHARSET_ISO88596

text \<open>
  What the conversions look at: the character set and the maker of the phone, its features, and the
  \<^verbatim>\<open>iconv\<close> library, by name of the encoding, when it was there at build time.
\<close>

record at_coding =
  Charset :: GSM_AT_Charset
  Maker :: GSM_AT_Manufacturer
  F_FORCE_UTF8 :: bool
  F_SAMSUNG_UTF8 :: bool
  IconvDecode :: "(string \<Rightarrow> byte list \<Rightarrow> nat \<Rightarrow> uchar list) option"
  IconvEncode :: "string \<Rightarrow> uchar list \<Rightarrow> nat \<Rightarrow> byte list"

definition iconv_name :: "GSM_AT_Charset \<Rightarrow> string option" where
  "iconv_name charset =
     (case charset of
        AT_CHARSET_PCCP437 \<Rightarrow> Some ''CP437''
      | AT_CHARSET_ISO88591 \<Rightarrow> Some ''ISO-8859-1''
      | AT_CHARSET_ISO88592 \<Rightarrow> Some ''ISO-8859-2''
      | AT_CHARSET_ISO88593 \<Rightarrow> Some ''ISO-8859-3''
      | AT_CHARSET_ISO88594 \<Rightarrow> Some ''ISO-8859-4''
      | AT_CHARSET_ISO88595 \<Rightarrow> Some ''ISO-8859-5''
      | AT_CHARSET_ISO88596 \<Rightarrow> Some ''ISO-8859-6''
      | _ \<Rightarrow> None)"

subsection \<open>What a text looks like\<close>

definition ATGEN_HasOnlyHexChars :: "byte list \<Rightarrow> bool" where
  "ATGEN_HasOnlyHexChars t \<longleftrightarrow> list_all isxdigit t"

definition ATGEN_HasOnlyDigits :: "byte list \<Rightarrow> bool" where
  "ATGEN_HasOnlyDigits t \<longleftrightarrow> list_all isdigit t"

definition ATGEN_IsUCS2 :: "byte list \<Rightarrow> bool" where
  "ATGEN_IsUCS2 t \<longleftrightarrow> length t > 3 \<and> length t mod 4 = 0 \<and> ATGEN_HasOnlyHexChars t"

definition ATGEN_IsHex :: "byte list \<Rightarrow> bool" where
  "ATGEN_IsHex t \<longleftrightarrow> length t > 4 \<and> length t mod 2 = 0 \<and> ATGEN_HasOnlyHexChars t"

definition ATGEN_IsNumber :: "byte list \<Rightarrow> bool" where
  "ATGEN_IsNumber t \<longleftrightarrow> ATGEN_HasOnlyDigits t"

subsection \<open>Encoding\<close>

text \<open>The octets with their count, \<^verbatim>\<open>resultlength\<close>; \<open>input\<close> is a string of \<open>inlength\<close> units.\<close>

definition ATGEN_EncodeText :: "at_coding \<Rightarrow> uchar list \<Rightarrow> nat \<Rightarrow> GSM_Error + byte list" where
  "ATGEN_EncodeText env input outlength =
     (case Charset env of
        AT_CHARSET_HEX \<Rightarrow> Inr (EncodeHexBin (EncodeDefault input (length input) True None))
      | AT_CHARSET_GSM \<Rightarrow> Inr (EncodeDefault input (length input) True None)
      | AT_CHARSET_UCS2 \<Rightarrow> Inr (EncodeHexUnicode (cstr input))
      | AT_CHARSET_UCS_2 \<Rightarrow> Inr (EncodeHexUnicode (cstr input))
      | AT_CHARSET_IRA \<Rightarrow> Inl ERR_NOTSUPPORTED
      | AT_CHARSET_ASCII \<Rightarrow> Inl ERR_NOTSUPPORTED
      | AT_CHARSET_UTF8 \<Rightarrow> Inr (fst (EncodeUTF8 input))
      | AT_CHARSET_UTF_8 \<Rightarrow> Inr (fst (EncodeUTF8 input))
      | charset \<Rightarrow>
          (case (IconvDecode env, iconv_name charset) of
             (Some _, Some name) \<Rightarrow> Inr (cstr (IconvEncode env name input outlength))
           | _ \<Rightarrow> if charset = AT_CHARSET_PCCP437 then Inr (EncodeDefault input (length input) True None)
                  else Inl ERR_SOURCENOTAVAILABLE))"

subsection \<open>Decoding\<close>

text \<open>
  The guesses, in their order: each changes one set to another when it applies. Positions 4 and 5 are looked at where the text is known to have four digits or
  more; of four digits, position 4 is the terminator.
\<close>

definition zero_at :: "byte list \<Rightarrow> nat \<Rightarrow> bool" where
  "zero_at t i \<longleftrightarrow> i < length t \<and> t ! i = 48"

definition guess_rules :: "at_coding \<Rightarrow> byte list \<Rightarrow> bool \<Rightarrow> (GSM_AT_Charset \<times> bool \<times> GSM_AT_Charset) list" where
  "guess_rules env t phone =
     (let is_hex = ATGEN_IsHex t; is_ucs = ATGEN_IsUCS2 t; is_number = ATGEN_IsNumber t;
          zeros = zero_at t 0 \<and> zero_at t 1 \<and> zero_at t 4 \<and> zero_at t 5
      in [(AT_CHARSET_HEX, \<not> is_hex, AT_CHARSET_GSM),
          (AT_CHARSET_HEX, is_number \<and> \<not> (case DecodeHexBin t of Some b \<Rightarrow> ATGEN_IsNumber (cstr b) | None \<Rightarrow> False), AT_CHARSET_GSM),
          (AT_CHARSET_HEX, is_ucs \<and> zeros, AT_CHARSET_UCS2),
          (AT_CHARSET_UCS2, \<not> is_ucs \<or> phone \<and> \<not> zeros, AT_CHARSET_GSM),
          (AT_CHARSET_GSM, phone \<and> \<not> is_ucs \<and> 64 \<in> set (cstr t), AT_CHARSET_UTF8),
          (AT_CHARSET_GSM, phone \<and> length t \<ge> 16 \<and> is_ucs, AT_CHARSET_UCS2),
          (AT_CHARSET_UCS2, is_hex \<and> Maker env = AT_Motorola \<and> zero_at t (length t - 1) \<and> zero_at t (length t - 2), AT_CHARSET_HEX)])"

definition apply_rule :: "GSM_AT_Charset \<Rightarrow> GSM_AT_Charset \<times> bool \<times> GSM_AT_Charset \<Rightarrow> GSM_AT_Charset" where
  "apply_rule c = (\<lambda>(from, applies, to). if c = from \<and> applies then to else c)"

definition guess_charset :: "at_coding \<Rightarrow> byte list \<Rightarrow> bool \<Rightarrow> GSM_AT_Charset \<Rightarrow> GSM_AT_Charset" where
  "guess_charset env t phone c0 = foldl apply_rule c0 (guess_rules env t phone)"

definition decode_charset :: "at_coding \<Rightarrow> byte list \<Rightarrow> bool \<Rightarrow> bool \<Rightarrow> GSM_AT_Charset" where
  "decode_charset env t guess phone =
     (let c0 = (if Charset env = AT_CHARSET_UCS_2 then AT_CHARSET_UCS2
                else if Charset env = AT_CHARSET_UTF_8 then AT_CHARSET_UTF8 else Charset env);
          c1 = (if guess then guess_charset env t phone c0
                else if c0 = AT_CHARSET_UCS2 \<and> \<not> ATGEN_IsUCS2 t then AT_CHARSET_GSM
                else if c0 = AT_CHARSET_HEX \<and> \<not> ATGEN_IsHex t then AT_CHARSET_GSM else c0)
      in if c1 = AT_CHARSET_GSM \<and> F_FORCE_UTF8 env then AT_CHARSET_UTF8 else c1)"

text \<open>
  Samsung phones that send UTF-8 octets as units: octets lost in the default alphabet of the phone are
  restored where a sequence is still open.
\<close>

definition samsung_octet :: "nat \<Rightarrow> byte \<Rightarrow> byte \<Rightarrow> byte \<times> nat" where
  "samsung_octet state hi lo =
     (let b = (if hi = 0x20 \<and> lo = 0xac then 0xe5 else lo) in
      if b AND 0x80 = 0 then
        (case (if state \<noteq> 0 then map_of [(0x40, 0x80), (0x5b, 0xbc), (0x5c, 0xaf), (0x5d, 0xbe), (0x5e, 0x94), (0x7b, 0xa8),
                                     (0x7d, 0xa9), (0x7e, 0xbd)] b else None) of
           Some b' \<Rightarrow> (b', state - 1)
         | None \<Rightarrow> (b, 0))
      else if b AND 0xc0 = 0x80 then (b, state - 1)
      else if b AND 0xe0 = 0xc0 then (b, 1)
      else if b AND 0xf0 = 0xe0 then (b, 2)
      else (b, 3))"

fun samsung_octets :: "nat \<Rightarrow> byte list \<Rightarrow> byte list" where
  "samsung_octets state (hi # lo # rest) = (let (b, state') = samsung_octet state hi lo in b # samsung_octets state' rest)"
| "samsung_octets state _ = []"

text \<open>
  The units stored before the terminator, or the error. The conversions of hexadecimal digits cannot fail
  here. The octets of Samsung phones are restored in place, so the buffer that is decoded has the rest of what
  was there behind their end.
\<close>

definition ATGEN_DecodeText :: "at_coding \<Rightarrow> byte list \<Rightarrow> nat \<Rightarrow> bool \<Rightarrow> bool \<Rightarrow> GSM_Error + uchar list" where
  "ATGEN_DecodeText env t outlength guess phone =
     (case decode_charset env t guess phone of
        AT_CHARSET_HEX \<Rightarrow>
          (let buffer = (case DecodeHexBin t of Some b \<Rightarrow> cstr b | None \<Rightarrow> []) in
           if 2 * length buffer \<ge> outlength then Inl ERR_MOREMEMORY else Inr (DecodeDefault buffer True None))
      | AT_CHARSET_GSM \<Rightarrow> if 2 * length t \<ge> outlength then Inl ERR_MOREMEMORY else Inr (DecodeDefault t True None)
      | AT_CHARSET_UCS2 \<Rightarrow>
          (let units = (case DecodeHexUnicode t of Some us \<Rightarrow> us | None \<Rightarrow> []) in
           if F_SAMSUNG_UTF8 env then
             if length t \<ge> outlength then Inl ERR_MOREMEMORY
             else let octets = bytes_of_units units; restored = samsung_octets 0 octets in
                  Inr (snd (DecodeUTF8Checked (restored @ 0 # drop (length restored + 1) octets)))
           else if length t div 2 \<ge> outlength then Inl ERR_MOREMEMORY else Inr units)
      | AT_CHARSET_UTF8 \<Rightarrow> if 2 * length t \<ge> outlength then Inl ERR_MOREMEMORY else Inr (snd (DecodeUTF8Checked t))
      | AT_CHARSET_IRA \<Rightarrow> if 2 * length t \<ge> outlength then Inl ERR_MOREMEMORY else Inr (snd (DecodeUTF8Checked t))
      | AT_CHARSET_ASCII \<Rightarrow> if 2 * length t \<ge> outlength then Inl ERR_MOREMEMORY else Inr (snd (DecodeUTF8Checked t))
      | charset \<Rightarrow>
          (case (IconvDecode env, iconv_name charset) of
             (Some decode, Some name) \<Rightarrow> Inr (decode name t outlength)
           | _ \<Rightarrow> if charset = AT_CHARSET_PCCP437 then
                    if 2 * length t \<ge> outlength then Inl ERR_MOREMEMORY else Inr (DecodeDefault t False None)
                  else Inl ERR_SOURCENOTAVAILABLE))"


subsection \<open>Texts come back\<close>

lemma hex_digits: "ATGEN_HasOnlyHexChars (EncodeHexBin bs)"
proof -
  have nibble: "isxdigit (EncodeWithHexBinAlphabet d)" if "0 \<le> d" "d < 16" for d
  proof -
    have "d \<in> {0, 1, 2, 3, 4, 5, 6, 7, 8, 9, 10, 11, 12, 13, 14, 15}" using that by (simp, presburger)
    then show ?thesis by (elim insertE emptyE; hypsubst; simp add: EncodeWithHexBinAlphabet_def isxdigit_def isdigit_def)
  qed
  have "unat (drop_bit 4 c) < 16" "unat (c AND 0xF) < 16" for c :: byte
    unfolding unat_drop_bit unat_and_masks using unat_byte_less [of c] by (simp_all add: less_mult_imp_div_less)
  then have "uint (drop_bit 4 c) < 16" "uint (c AND 0xF) < 16" for c :: byte
    unfolding uint_nat by (metis of_nat_less_iff of_nat_numeral)+
  then have "isxdigit (EncodeWithHexBinAlphabet (uint (drop_bit 4 c)))" "isxdigit (EncodeWithHexBinAlphabet (uint (c AND 0xF)))" for c :: byte
    by (simp_all add: nibble)
  then show ?thesis by (induction bs) (simp_all add: ATGEN_HasOnlyHexChars_def)
qed

lemma length_EncodeHexBin: "length (EncodeHexBin bs) = 2 * length bs"
  by (induction bs) simp_all

lemma ucs2_looks: "us \<noteq> [] \<Longrightarrow> ATGEN_IsUCS2 (EncodeHexUnicode us)"
  using hex_digits [of "bytes_of_units us"] by (cases us) (auto simp: ATGEN_IsUCS2_def EncodeHexUnicode_def length_EncodeHexBin)

lemma hex_first_zero:
  assumes "zero_at (EncodeHexBin (c # cs)) 0" "zero_at (EncodeHexBin (c # cs)) 1"
  shows "c = 0"
proof -
  have z: "EncodeWithHexBinAlphabet (uint (drop_bit 4 c)) = 48" "EncodeWithHexBinAlphabet (uint (c AND 0xF)) = 48"
    using assms by (simp_all add: zero_at_def)
  have "DecodeHexBin (EncodeHexBin [c]) = Some [0]" by (simp add: z DecodeWithHexBinAlphabet_def)
  then show ?thesis using decode_encode_hex [of "[c]"] by simp
qed

text \<open>
  The texts that a phone's own character set carries: in hexadecimal digits not too short to be recognised, not
  only of decimal digits, and without the commercial at, whose code is zero.
\<close>

definition text_fits :: "at_coding \<Rightarrow> nat \<Rightarrow> uchar list \<Rightarrow> bool" where
  "text_fits env outlength us \<longleftrightarrow> 0 \<notin> set us \<and>
     (let septets = EncodeDefault us (length us) True None in
      case Charset env of
        AT_CHARSET_HEX \<Rightarrow> (\<forall>u \<in> set us. gsm_unit u) \<and> 0 \<notin> set septets \<and> length septets > 2 \<and> 2 * length septets < outlength
          \<and> \<not> ATGEN_IsNumber (EncodeHexBin septets)
      | AT_CHARSET_GSM \<Rightarrow> (\<forall>u \<in> set us. gsm_unit u) \<and> 2 * length septets < outlength \<and> \<not> F_FORCE_UTF8 env
      | AT_CHARSET_UTF8 \<Rightarrow> utf16_ok us \<and> 2 * length (fst (EncodeUTF8 us)) < outlength
      | AT_CHARSET_UTF_8 \<Rightarrow> utf16_ok us \<and> 2 * length (fst (EncodeUTF8 us)) < outlength
      | AT_CHARSET_UCS2 \<Rightarrow> 2 * length us < outlength \<and> Maker env \<noteq> AT_Motorola \<and> \<not> F_SAMSUNG_UTF8 env
      | AT_CHARSET_UCS_2 \<Rightarrow> 2 * length us < outlength \<and> Maker env \<noteq> AT_Motorola \<and> \<not> F_SAMSUNG_UTF8 env
      | _ \<Rightarrow> False)"

lemma guess_ucs2:
  "ATGEN_IsUCS2 t \<Longrightarrow> Maker env \<noteq> AT_Motorola \<Longrightarrow> guess_charset env t False AT_CHARSET_UCS2 = AT_CHARSET_UCS2"
  "\<not> ATGEN_IsUCS2 t \<Longrightarrow> guess_charset env t False AT_CHARSET_UCS2 = AT_CHARSET_GSM"
  by (simp_all add: guess_charset_def guess_rules_def apply_rule_def Let_def)

lemma guess_others:
  "guess_charset env t False AT_CHARSET_GSM = AT_CHARSET_GSM" "guess_charset env t False AT_CHARSET_UTF8 = AT_CHARSET_UTF8"
  by (simp_all add: guess_charset_def guess_rules_def apply_rule_def Let_def)

lemma guess_hex:
  "ATGEN_IsHex t \<Longrightarrow> \<not> ATGEN_IsNumber t \<Longrightarrow> \<not> (zero_at t 0 \<and> zero_at t 1) \<Longrightarrow> guess_charset env t False AT_CHARSET_HEX = AT_CHARSET_HEX"
  by (auto simp: guess_charset_def guess_rules_def apply_rule_def Let_def)

text \<open>
  What is guessed: the sets of \<^verbatim>\<open>iconv\<close> are not, and a set of hexadecimal digits only where the text has the
  right digits, so that the conversions do not fail.
\<close>

lemma guessed_sets:
  "\<forall>r \<in> set rules. P (snd (snd r)) \<Longrightarrow> P c \<Longrightarrow> P (foldl apply_rule c rules)"
  by (induction rules arbitrary: c) (auto simp: apply_rule_def split: prod.splits)

lemma guessed_plain:
  assumes "P c" "P AT_CHARSET_GSM" "P AT_CHARSET_UTF8" "P AT_CHARSET_HEX" "P AT_CHARSET_UCS2"
  shows "P (guess_charset env t phone c)"
  unfolding guess_charset_def by (rule guessed_sets) (use assms in \<open>simp_all add: guess_rules_def Let_def\<close>)

definition digits_right :: "byte list \<Rightarrow> GSM_AT_Charset \<Rightarrow> bool" where
  "digits_right t c \<longleftrightarrow> (c = AT_CHARSET_UCS2 \<longrightarrow> ATGEN_IsUCS2 t) \<and> (c = AT_CHARSET_HEX \<longrightarrow> ATGEN_IsHex t)"

lemma guessed_digits: "digits_right t (guess_charset env t phone c)"
proof -
  obtain r1 r2 r3 r4 r5 r6 r7 where r: "guess_rules env t phone = [r1, r2, r3, r4, r5, r6, r7]" by (simp add: guess_rules_def Let_def)
  define c1 where "c1 = apply_rule c r1"
  define c3 where "c3 = apply_rule (apply_rule c1 r2) r3"
  define c4 where "c4 = apply_rule c3 r4"
  have "c1 = AT_CHARSET_HEX \<longrightarrow> ATGEN_IsHex t" using r by (auto simp: c1_def apply_rule_def guess_rules_def Let_def split: if_splits)
  then have "c3 = AT_CHARSET_HEX \<longrightarrow> ATGEN_IsHex t" using r by (auto simp: c3_def apply_rule_def guess_rules_def Let_def split: if_splits)
  then have c4: "digits_right t c4" using r by (auto simp: c4_def digits_right_def apply_rule_def guess_rules_def Let_def split: if_splits)
  have "digits_right t (apply_rule c' r5)" "digits_right t (apply_rule c' r6)" "digits_right t (apply_rule c' r7)" if "digits_right t c'" for c'
    using r that by (auto simp: digits_right_def apply_rule_def guess_rules_def Let_def split: if_splits)
  then show ?thesis using c4 by (simp add: guess_charset_def r c4_def c3_def c1_def)
qed

definition own_sets :: "GSM_AT_Charset list" where
  "own_sets = [AT_CHARSET_HEX, AT_CHARSET_GSM, AT_CHARSET_UCS2, AT_CHARSET_UTF8, AT_CHARSET_IRA, AT_CHARSET_ASCII]"

lemma decoded_sets:
  assumes "iconv_name (Charset env) = None"
  shows "decode_charset env t guess phone \<in> set own_sets" "digits_right t (decode_charset env t guess phone)"
proof -
  define c0 where "c0 = (if Charset env = AT_CHARSET_UCS_2 then AT_CHARSET_UCS2 else if Charset env = AT_CHARSET_UTF_8 then AT_CHARSET_UTF8 else Charset env)"
  have c0: "c0 \<in> set own_sets"
    using assms by (cases "Charset env") (simp_all add: c0_def iconv_name_def own_sets_def)
  then have "guess_charset env t phone c0 \<in> set own_sets"
    by (rule guessed_plain [where P = "\<lambda>c. c \<in> set own_sets"]) (simp_all add: own_sets_def)
  moreover define c1 where "c1 = (if guess then guess_charset env t phone c0 else if c0 = AT_CHARSET_UCS2 \<and> \<not> ATGEN_IsUCS2 t then AT_CHARSET_GSM
    else if c0 = AT_CHARSET_HEX \<and> \<not> ATGEN_IsHex t then AT_CHARSET_GSM else c0)"
  moreover have "AT_CHARSET_GSM \<in> set own_sets" "AT_CHARSET_UTF8 \<in> set own_sets" by (simp_all add: own_sets_def)
  ultimately have c1: "c1 \<in> set own_sets" "digits_right t c1"
    using guessed_digits [of t env phone c0] c0 by (auto simp: digits_right_def)
  have d: "decode_charset env t guess phone = (if c1 = AT_CHARSET_GSM \<and> F_FORCE_UTF8 env then AT_CHARSET_UTF8 else c1)"
    unfolding decode_charset_def Let_def c0_def [symmetric] c1_def [symmetric] ..
  show "decode_charset env t guess phone \<in> set own_sets" "digits_right t (decode_charset env t guess phone)"
    unfolding d using c1 by (simp_all add: digits_right_def own_sets_def)
qed

lemma ucs2_returns:
  assumes "Charset env = AT_CHARSET_UCS2 \<or> Charset env = AT_CHARSET_UCS_2" "2 * length us < outlength" "Maker env \<noteq> AT_Motorola" "\<not> F_SAMSUNG_UTF8 env"
  shows "ATGEN_DecodeText env (EncodeHexUnicode us) outlength guess False = Inr us"
proof (cases "us = []")
  case True
  then have "decode_charset env (EncodeHexUnicode us) guess False = (if F_FORCE_UTF8 env then AT_CHARSET_UTF8 else AT_CHARSET_GSM)"
    using assms(1) by (auto simp: decode_charset_def guess_ucs2 ATGEN_IsUCS2_def EncodeHexUnicode_def Let_def)
  then show ?thesis using True assms(2) by (simp add: ATGEN_DecodeText_def EncodeHexUnicode_def DecodeUTF8Checked.simps [of "[]"])
next
  case False
  then have "decode_charset env (EncodeHexUnicode us) guess False = AT_CHARSET_UCS2"
    using assms(1,3) ucs2_looks [of us] guess_ucs2(1) [of "EncodeHexUnicode us" env] by (auto simp: decode_charset_def Let_def)
  moreover have "length (EncodeHexUnicode us) = 4 * length us" by (simp add: EncodeHexUnicode_def length_EncodeHexBin)
  ultimately show ?thesis using assms(2,4) decode_encode_hex_unicode [of us] by (simp add: ATGEN_DecodeText_def)
qed

lemma utf8_returns:
  assumes "Charset env = AT_CHARSET_UTF8 \<or> Charset env = AT_CHARSET_UTF_8" "utf16_ok us" "2 * length (fst (encode_utf8_units us)) < outlength"
  shows "ATGEN_DecodeText env (fst (encode_utf8_units us)) outlength guess False = Inr us"
proof -
  have "decode_charset env t guess False = AT_CHARSET_UTF8" for t
    using assms(1) by (auto simp: decode_charset_def guess_others Let_def)
  then show ?thesis using assms(2,3) decode_encode_utf8 by (simp add: ATGEN_DecodeText_def)
qed

lemma gsm_returns:
  assumes "\<forall>u \<in> set us. gsm_unit u"
  shows "DecodeDefault (EncodeDefault us (length us) True None) True None = us"
  using gsm7.dec_concat [OF assms] by (simp add: EncodeDefault_def)

lemma hex_returns:
  assumes "Charset env = AT_CHARSET_HEX" "\<forall>u \<in> set us. gsm_unit u" "0 \<notin> set septets" "length septets > 2" "2 * length septets < outlength"
    "\<not> ATGEN_IsNumber (EncodeHexBin septets)" "septets = EncodeDefault us (length us) True None"
  shows "ATGEN_DecodeText env (EncodeHexBin septets) outlength guess False = Inr us"
proof -
  have "ATGEN_IsHex (EncodeHexBin septets)" using assms(4) hex_digits by (simp add: ATGEN_IsHex_def length_EncodeHexBin)
  moreover have "\<not> (zero_at (EncodeHexBin septets) 0 \<and> zero_at (EncodeHexBin septets) 1)"
    using hex_first_zero assms(3,4) by (cases septets) auto
  ultimately have "decode_charset env (EncodeHexBin septets) guess False = AT_CHARSET_HEX"
    using assms(1,6) by (simp add: decode_charset_def guess_hex Let_def)
  then show ?thesis using assms(2,3,5) gsm_returns by (simp add: ATGEN_DecodeText_def decode_encode_hex cstr_id assms(7))
qed

lemma text_returns:
  assumes "text_fits env outlength us"
  shows "\<exists>octets. ATGEN_EncodeText env us n = Inr octets \<and> ATGEN_DecodeText env octets outlength guess False = Inr us"
proof -
  let ?septets = "EncodeDefault us (length us) True None"
  have us: "cstr us = us" using assms by (simp add: text_fits_def cstr_id)
  show ?thesis
  proof (cases "Charset env")
    case AT_CHARSET_HEX
    then have "ATGEN_DecodeText env (EncodeHexBin ?septets) outlength guess False = Inr us"
      using assms by (intro hex_returns) (simp_all add: text_fits_def Let_def)
    then show ?thesis using AT_CHARSET_HEX by (simp add: ATGEN_EncodeText_def)
  next
    case AT_CHARSET_GSM
    with assms have a: "\<forall>u \<in> set us. gsm_unit u" "2 * length ?septets < outlength" "\<not> F_FORCE_UTF8 env" by (simp_all add: text_fits_def Let_def)
    then have "decode_charset env ?septets guess False = AT_CHARSET_GSM"
      using AT_CHARSET_GSM by (simp add: decode_charset_def guess_others Let_def)
    then show ?thesis using a gsm_returns AT_CHARSET_GSM by (simp add: ATGEN_EncodeText_def ATGEN_DecodeText_def)
  next
    case AT_CHARSET_UCS2
    then show ?thesis using assms ucs2_returns by (simp add: ATGEN_EncodeText_def text_fits_def us)
  next
    case AT_CHARSET_UCS_2
    then show ?thesis using assms ucs2_returns by (simp add: ATGEN_EncodeText_def text_fits_def us)
  next
    case AT_CHARSET_UTF8
    then show ?thesis using assms utf8_returns by (simp add: ATGEN_EncodeText_def text_fits_def EncodeUTF8_cstr us)
  next
    case AT_CHARSET_UTF_8
    then show ?thesis using assms utf8_returns by (simp add: ATGEN_EncodeText_def text_fits_def EncodeUTF8_cstr us)
  qed (use assms in \<open>simp_all add: text_fits_def\<close>)
qed


definition hex_phone :: at_coding where
  "hex_phone = \<lparr>Charset = AT_CHARSET_HEX, Maker = AT_Siemens, F_FORCE_UTF8 = False, F_SAMSUNG_UTF8 = False,
     IconvDecode = None, IconvEncode = (\<lambda>_ _ _. [])\<rparr>"


text \<open>A text with the commercial at in hexadecimal digits ends before it, and short or decimal ones are not decoded.\<close>

lemma hex_texts_lost:
  "ATGEN_EncodeText hex_phone (map of_char ''Joe@home'') 100 = Inr (bytes_of ''4A6F6500686F6D65'')"
  "ATGEN_DecodeText hex_phone (bytes_of ''4A6F6500686F6D65'') 100 False False = Inr (map of_char ''Joe'')"
  "ATGEN_DecodeText hex_phone (bytes_of ''4A6F'') 100 False False = Inr (map of_char ''4A6F'')"
  "ATGEN_DecodeText hex_phone (bytes_of ''616263'') 100 True False = Inr (map of_char ''616263'')"
  by code_simp+

end
