(* ===== verification/AtDate.thy ===== *)
theory AtDate imports AtText CLocale DateTime Checked begin

text \<open>
  Dates in the answers of AT phones, \<^verbatim>\<open>ATGEN_DecodeDateTime\<close> of \<^verbatim>\<open>phone/at/atgen.c\<close>. A pointer into a string
  is the rest of the string from there on, and an access outside the strings ends the reading.
\<close>

subsection \<open>Reading\<close>

definition strchr :: "byte \<Rightarrow> byte list \<Rightarrow> byte list option" where
  "strchr c s = (let r = dropWhile (\<lambda>b. b \<noteq> c) s in if r = [] then None else Some r)"

text \<open>
  The removal of a character at the end: the cell looked at is counted from the start of the array, the length from
  the position behind a character that was removed at the start.
\<close>

definition cell :: "byte list \<Rightarrow> nat \<Rightarrow> byte" where
  "cell buffer i = (if i < length buffer then buffer ! i else 0)"

definition strip_last :: "byte \<Rightarrow> byte list \<Rightarrow> nat \<Rightarrow> ('f, byte list) stage" where
  "strip_last c buffer pos =
     (let n = length (cstr (drop pos buffer)) in
      if n = 0 then OobRead
      else Go (if cell buffer (n - 1) = c then buffer[n - 1 := 0] else buffer))"

definition unless_empty :: "byte list \<Rightarrow> (GSM_Error, 'a) stage \<Rightarrow> (GSM_Error, 'a) stage" where
  "unless_empty buffer k = (if cell buffer 0 = 0 then Fail ERR_EMPTY else k)"

text \<open>The text between commas and quotes.\<close>

definition date_core :: "byte list \<Rightarrow> (GSM_Error, byte list) stage" where
  "date_core text0 =
     (let buffer = take 99 (cstr text0); pos = (if cell buffer 0 = 44 then 1 else 0) in
      unless_empty buffer
        (andthen (strip_last 44 buffer pos) (\<lambda>buffer1.
           unless_empty buffer1
             (let pos1 = (if cell buffer1 pos = 34 then pos + 1 else pos) in
              andthen (strip_last 34 buffer1 pos1) (\<lambda>buffer2.
                unless_empty buffer2 (Go (cstr (drop pos1 buffer2))))))))"

text \<open>Quotes in the decoded text.\<close>

definition date_unquoted :: "byte list \<Rightarrow> (GSM_Error, byte list) stage" where
  "date_unquoted buffer =
     (let pos = (if cell buffer 0 = 34 then 1 else 0); n = length (cstr (drop pos buffer)) in
      if n = 0 then Fail ERR_EMPTY
      else Go (cstr (drop pos (if cell buffer (n - 1) = 34 then buffer[n - 1 := 0] else buffer))))"

text \<open>Year, month and day.\<close>

definition fix_date :: "int \<Rightarrow> int \<Rightarrow> int \<Rightarrow> int \<times> int \<times> int" where
  "fix_date y m d =
     (let (y, m, d) = (if d > 31 then (d, y, m) else (y, m, d)) in
      (if y > 80 \<and> y < 1000 then y + 1900 else if y < 100 then y + 2000 else y, m, d))"

definition parse_date :: "byte \<Rightarrow> byte list \<Rightarrow> (GSM_Error, int \<times> int \<times> int) stage" where
  "parse_date separator s =
     (case strchr separator s of None \<Rightarrow> Fail ERR_UNKNOWN
      | Some p \<Rightarrow>
          (case strchr separator (tl p) of None \<Rightarrow> Fail ERR_UNKNOWN
           | Some q \<Rightarrow> Go (fix_date (atoi s) (atoi (tl p)) (atoi (tl q)))))"

definition timezone :: "byte list \<Rightarrow> int" where
  "timezone s =
     (case (case strchr 43 s of Some p \<Rightarrow> Some p | None \<Rightarrow> strchr 45 s) of
        Some p \<Rightarrow> (let x = to_int ((if hd p = 43 then 1 else -1) * atoi (tl p) * 3600) in if x < 0 then - (- x div 4) else x div 4)
      | None \<Rightarrow> 0)"

definition parse_time :: "byte list \<Rightarrow> int \<times> int \<times> int \<Rightarrow> (GSM_Error, GSM_DateTime) stage" where
  "parse_time s = (\<lambda>(year, month, day).
     (case strchr 58 s of None \<Rightarrow> Fail ERR_UNKNOWN
      | Some p \<Rightarrow>
          Go \<lparr>Timezone = timezone s,
              Second = (case strchr 58 (tl p) of Some q \<Rightarrow> atoi (tl q) | None \<Rightarrow> 0),
              Minute = atoi (tl p), Hour = atoi s, Day = day, Month = month, Year = year\<rparr>))"

text \<open>
  Date and time: \<open>None\<close> as the time is the position one behind \<^verbatim>\<open>NULL\<close>, where there is no comma.
\<close>

definition parse_datetime :: "byte list \<Rightarrow> (GSM_Error, GSM_DateTime) stage" where
  "parse_datetime s =
     (let (separator, found) = (case strchr 47 s of Some p \<Rightarrow> (47, Some p) | None \<Rightarrow>
                                 (case strchr 45 s of Some p \<Rightarrow> (45, Some p) | None \<Rightarrow> (0, None)));
          behind = map_option (\<lambda>p. dropWhile isspace (tl p)) (strchr 44 s);
          (date, time) =
            (case (behind, found) of
               (Some r, Some p) \<Rightarrow> if length p < length r + 1 then (Some r, Some s) else (Some s, Some r)
             | (None, Some p) \<Rightarrow> (Some s, None)
             | (_, None) \<Rightarrow> (None, Some s))
      in andthen (case date of Some d \<Rightarrow> parse_date separator d | None \<Rightarrow> Go (0, 0, 0))
           (\<lambda>ymd. case time of None \<Rightarrow> OobRead | Some t \<Rightarrow> parse_time t ymd))"

definition ATGEN_DecodeDateTime :: "at_coding \<Rightarrow> c_locale \<Rightarrow> byte list \<Rightarrow> (GSM_Error, GSM_DateTime) stage" where
  "ATGEN_DecodeDateTime env loc text0 =
     andthen (date_core text0) (\<lambda>core.
       case ATGEN_DecodeText env core 200 True False of
         Inl error \<Rightarrow> Fail error
       | Inr units \<Rightarrow>
           let buffer = DecodeUnicode loc units in
           if length buffer \<ge> 100 then OobWrite
           else andthen (date_unquoted buffer) parse_datetime)"


subsection \<open>Dates are read\<close>

lemma strchr_found [simp]: "c \<notin> set xs \<Longrightarrow> strchr c (xs @ c # r) = Some (c # r)"
  by (induction xs) (auto simp: strchr_def)

lemma strchr_missing: "c \<notin> set xs \<Longrightarrow> strchr c xs = None"
  by (induction xs) (auto simp: strchr_def)

text \<open>A number in decimal digits, with any leading zeros.\<close>

definition number_text :: "byte list \<Rightarrow> int \<Rightarrow> bool" where
  "number_text t v \<longleftrightarrow> t \<noteq> [] \<and> (\<forall>d \<in> set t. isdigit d) \<and> int (digits_value t) = v \<and> v < 2 ^ 31"

lemma number_octets: "number_text t v \<Longrightarrow> b \<in> set t \<Longrightarrow> 48 \<le> b \<and> b \<le> 57"
  by (auto simp: number_text_def isdigit_def)

lemma number_not: "number_text t v \<Longrightarrow> \<not> isdigit b \<Longrightarrow> b \<notin> set t"
  by (auto simp: number_text_def)

lemma atoi_number:
  assumes "number_text t v" "ends_number r"
  shows "atoi (t @ r) = v"
proof -
  obtain d ds where t: "t = d # ds" "isdigit d" using assms(1) by (cases t) (auto simp: number_text_def)
  have digits: "takeWhile isdigit (t @ r) = t" using assms by (intro takeWhile_digits) (auto simp: number_text_def)
  have v: "int (digits_value t) = v" "0 \<le> v" "v < 2 ^ 31" using assms(1) by (auto simp: number_text_def)
  have "fst (strtol (t @ r)) = v"
    using digits digit_not [OF t(2)] v by (simp add: strtol_def t LONG_MIN_def LONG_MAX_def)
  then show ?thesis using v by (simp add: atoi_def to_int_id)
qed

lemmas atoi_number_end = atoi_number [of _ _ "[]", simplified]

lemma ends_simps [simp]: "ends_number []" "ends_number (b # r) \<longleftrightarrow> \<not> isdigit b"
  by (simp_all add: ends_number_def)

definition date_text :: "byte \<Rightarrow> byte list \<Rightarrow> byte list \<Rightarrow> byte list \<Rightarrow> byte list" where
  "date_text separator y m d = y @ separator # m @ separator # d"

definition time_text :: "byte list \<Rightarrow> byte list \<Rightarrow> byte list \<Rightarrow> byte \<Rightarrow> byte list \<Rightarrow> byte list" where
  "time_text h mi sec sign z = h @ 58 # mi @ 58 # sec @ sign # z"

lemma not_digits [simp]: "\<not> isdigit 47" "\<not> isdigit 45" "\<not> isdigit 58" "\<not> isdigit 44" "\<not> isdigit 43"
  by (simp_all add: isdigit_def)

lemma parse_date_text:
  assumes "number_text y Y" "number_text m M" "number_text d D" "separator = 47 \<or> separator = 45"
  shows "parse_date separator (date_text separator y m d @ 44 # rest) = Go (fix_date Y M D)"
proof -
  have sep: "\<not> isdigit separator" using assms(4) by auto
  note no = number_not [OF assms(1) sep] number_not [OF assms(2) sep]
  have "atoi (y @ separator # m @ separator # d @ 44 # rest) = Y" using assms(1) sep by (intro atoi_number) simp_all
  moreover have "atoi (m @ separator # d @ 44 # rest) = M" using assms(2) sep by (intro atoi_number) simp_all
  moreover have "atoi (d @ 44 # rest) = D" using assms(3) by (intro atoi_number) simp_all
  ultimately show ?thesis using no by (simp add: parse_date_def date_text_def)
qed

lemma parse_time_text:
  assumes "number_text h H" "number_text mi Mi" "number_text sec S" "number_text z Z" "sign = 43 \<or> sign = 45" "Z < 2 ^ 19"
  shows "parse_time (time_text h mi sec sign z) (Y, M, D) =
    Go \<lparr>Timezone = (if sign = 43 then Z * 900 else - (Z * 900)), Second = S, Minute = Mi, Hour = H, Day = D, Month = M, Year = Y\<rparr>"
proof -
  have sign: "\<not> isdigit sign" using assms(5) by auto
  have c: "58 \<notin> set h" "58 \<notin> set mi" using assms(1,2) number_not by (metis not_digits(3))+
  have n: "43 \<notin> set h" "43 \<notin> set mi" "43 \<notin> set sec" "43 \<notin> set z" "45 \<notin> set h" "45 \<notin> set mi" "45 \<notin> set sec"
    using assms(1-4) number_not not_digits by metis+
  have atois: "atoi (time_text h mi sec sign z) = H" "atoi (mi @ 58 # sec @ sign # z) = Mi" "atoi (sec @ sign # z) = S" "atoi z = Z"
    using assms(1-4) sign by (simp_all add: time_text_def atoi_number atoi_number_end)
  have Z: "0 \<le> Z" using assms(4) by (auto simp: number_text_def)
  then have to: "to_int (Z * 3600) = Z * 3600" "to_int (- (Z * 3600)) = - (Z * 3600)" using assms(6) by (auto intro!: to_int_id)
  have s: "strchr 58 (time_text h mi sec sign z) = Some (58 # mi @ 58 # sec @ sign # z)" using c by (simp add: time_text_def)
  have plus: "strchr 43 (time_text h mi sec 43 z) = Some (43 # z)"
    using strchr_found [of 43 "h @ 58 # mi @ 58 # sec" z] n by (simp add: time_text_def)
  have minus: "strchr 43 (time_text h mi sec 45 z) = None" "strchr 45 (time_text h mi sec 45 z) = Some (45 # z)"
    using strchr_found [of 45 "h @ 58 # mi @ 58 # sec" z] n by (simp_all add: time_text_def strchr_missing)
  have "timezone (time_text h mi sec sign z) = (if sign = 43 then Z * 900 else - (Z * 900))"
    using assms(5) plus minus atois(4) to Z by (auto simp: timezone_def Let_def)
  then show ?thesis using s c atois by (simp add: parse_time_def)
qed


text \<open>The octets from the plus sign to the colon mean the same in every character set.\<close>

definition date_octet :: "byte \<Rightarrow> bool" where
  "date_octet b \<longleftrightarrow> 43 \<le> b \<and> b \<le> 58"

lemma date_octet_cases:
  assumes "date_octet b"
  shows "b \<in> {43, 44, 45, 46, 47, 48, 49, 50, 51, 52, 53, 54, 55, 56, 57, 58}"
proof -
  have "unat b \<in> {43..58}" using assms by (simp add: date_octet_def word_le_nat_alt)
  moreover have "{43..58::nat} = {43, 44, 45, 46, 47, 48, 49, 50, 51, 52, 53, 54, 55, 56, 57, 58}"
    by (simp add: atLeastAtMost_insertL [symmetric] del: atLeastAtMost_insertL)
  ultimately show ?thesis by (simp add: word_unat_eq_iff)
qed

lemma date_octet_plain:
  assumes "date_octet b"
  shows "b \<noteq> 0 \<and> b \<noteq> 34 \<and> b < 128 \<and> b \<noteq> 0x1b \<and> \<not> isspace b \<and> (ucast b :: gammu_char_t) AND 0x80 = 0
    \<and> decode_default_char None b = ucast b"
  using date_octet_cases [OF assms]
  by (elim insertE emptyE; hypsubst; simp add: isspace_def decode_default_char_def GSM_DefaultAlphabetUnicode_def)

lemma decode_date_default: "\<forall>b \<in> set s. date_octet b \<Longrightarrow> DecodeDefault s True None = map ucast s"
  by (induction s "True" "None :: (byte \<times> uchar) list option" rule: DecodeDefault.induct)
     (simp_all add: date_octet_plain)

lemma decode_date_utf8: "\<forall>b \<in> set s. date_octet b \<Longrightarrow> DecodeUTF8Checked s = (True, map ucast s)"
proof (induction s)
  case (Cons b s)
  then have "DecodeWithUTF8Alphabet (b # s) = Some (1, ucast b)" using date_octet_plain [of b] by (simp add: DecodeWithUTF8Alphabet.simps)
  then show ?case using Cons StoreUTF16_byte [of b] by (subst DecodeUTF8Checked.simps) simp
qed (simp add: DecodeUTF8Checked.simps)

lemma date_decodes:
  assumes "\<forall>b \<in> set s. date_octet b" "44 \<in> set s" "length s < 100" "iconv_name (Charset env) = None"
  shows "ATGEN_DecodeText env s 200 True False = Inr (map ucast s)"
proof -
  have "\<not> isxdigit 44" by (simp add: isxdigit_def isdigit_def)
  then have "\<not> ATGEN_HasOnlyHexChars s" using assms(2) by (auto simp: ATGEN_HasOnlyHexChars_def list_all_iff)
  then have no: "\<not> ATGEN_IsUCS2 s" "\<not> ATGEN_IsHex s" by (simp_all add: ATGEN_IsUCS2_def ATGEN_IsHex_def)
  have "guess_charset env s False AT_CHARSET_HEX = AT_CHARSET_GSM" using no by (simp add: guess_charset_def guess_rules_def apply_rule_def Let_def)
  moreover have "guess_charset env s False AT_CHARSET_IRA = AT_CHARSET_IRA" "guess_charset env s False AT_CHARSET_ASCII = AT_CHARSET_ASCII"
    by (simp_all add: guess_charset_def guess_rules_def apply_rule_def Let_def)
  ultimately have "decode_charset env s True False \<in> {AT_CHARSET_GSM, AT_CHARSET_UTF8, AT_CHARSET_IRA, AT_CHARSET_ASCII}"
    using assms(4) guess_ucs2(2) [OF no(1)] guess_others
    by (cases "Charset env") (simp_all add: decode_charset_def Let_def iconv_name_def)
  then show ?thesis using assms(3) decode_date_default [OF assms(1)] decode_date_utf8 [OF assms(1)]
    by (auto simp: ATGEN_DecodeText_def)
qed

lemma core_whole:
  assumes "\<forall>b \<in> set s. date_octet b" "length s < 100" "s \<noteq> []" "hd s \<noteq> 44" "last s \<noteq> 44"
  shows "date_core s = Go s" "date_unquoted s = Go s"
proof -
  have z: "0 \<notin> set s" "34 \<notin> set s" using assms(1) date_octet_plain by blast+
  have "hd s \<noteq> 0" "hd s \<noteq> 34" "last s \<noteq> 34" using assms(3) z hd_in_set last_in_set by metis+
  moreover have "cell s 0 = hd s" "cell s (length s - 1) = last s" using assms(3) by (auto simp: cell_def hd_conv_nth last_conv_nth)
  ultimately have c: "cell s 0 = hd s" "cell s (length s - 1) = last s" "hd s \<noteq> 0" "hd s \<noteq> 34" "last s \<noteq> 34" by blast+
  have "cstr s = s" using z by (simp add: cstr_id)
  then show "date_core s = Go s" "date_unquoted s = Go s" using c assms
    by (simp_all add: date_core_def date_unquoted_def strip_last_def unless_empty_def Let_def)
qed

text \<open>
  Claim C25. A date with time and time zone, with slashes or dashes, is read where the phone has a character set the
  library decodes by itself (eight of the fifteen; not those of \<^verbatim>\<open>iconv\<close>) and in a locale that extends ASCII: with each number
  of any digits below 2^31, a day of at most 31, a time zone below 2^19 quarters of an hour, and less than 100 octets in all. Years below 81
  count from 2000, others below 1000 from 1900.
\<close>

theorem at_date_read:
  assumes "number_text y Y" "number_text m M" "number_text d D" "number_text h H" "number_text mi Mi" "number_text sec S"
    "number_text z Z" "Z < 2 ^ 19" "sign = 43 \<or> sign = 45" "separator = 47 \<or> separator = 45" "D \<le> 31"
    "length (date_text separator y m d @ 44 # time_text h mi sec sign z) < 100"
    "ascii_locale loc" "iconv_name (Charset env) = None"
  shows "ATGEN_DecodeDateTime env loc (date_text separator y m d @ 44 # time_text h mi sec sign z) =
    Go \<lparr>Timezone = (if sign = 43 then Z * 900 else - (Z * 900)), Second = S, Minute = Mi, Hour = H, Day = D, Month = M,
        Year = (if Y < 81 then Y + 2000 else if Y < 1000 then Y + 1900 else Y)\<rparr>"
proof -
  define s where "s = date_text separator y m d @ 44 # time_text h mi sec sign z"
  have digit: "date_octet b" if "number_text t v" "b \<in> set t" for t v b
    using number_octets [OF that] by (auto simp: date_octet_def elim!: order_trans [rotated] order_trans)
  have octets: "\<forall>b \<in> set s. date_octet b" using assms(1-7,9,10) digit
    by (auto simp: s_def date_text_def time_text_def) (auto simp: date_octet_def)
  have first: "\<exists>b r. y = b # r \<and> isdigit b" using assms(1) by (cases y) (auto simp: number_text_def)
  have last: "z \<noteq> []" "last z \<noteq> 44" using assms(7) last_in_set number_not [OF assms(7), of 44] by (force simp: number_text_def)+
  have s: "s \<noteq> []" "hd s \<noteq> 44" "last s \<noteq> 44" using first last digit_not by (auto simp: s_def date_text_def time_text_def)
  have len: "length s < 100" using assms(12) by (simp add: s_def)
  have comma: "44 \<in> set s" by (simp add: s_def)
  have ascii: "DecodeUnicode loc (map ucast s) = s"
    using octets date_octet_plain by (intro DecodeUnicode_ascii [OF assms(13)]) (force simp: word_less_nat_alt unat_gt_0)
  have "44 \<notin> set (date_text separator y m d)" using assms(1-3,10) number_not [of _ _ 44] by (auto simp: date_text_def)
  then have behind: "strchr 44 s = Some (44 # time_text h mi sec sign z)" by (simp add: s_def)
  have "\<exists>b r. h = b # r \<and> isdigit b" using assms(4) by (cases h) (auto simp: number_text_def)
  then have blank: "dropWhile isspace (time_text h mi sec sign z) = time_text h mi sec sign z"
    using digit_not by (auto simp: time_text_def)
  have "47 \<notin> set s" if "separator = 45" using that assms(1-7,9) number_not [of _ _ 47] by (auto simp: s_def date_text_def time_text_def)
  moreover have "strchr separator s = Some (separator # m @ separator # d @ 44 # time_text h mi sec sign z)"
    using assms(1,10) number_not [of y Y separator] by (auto simp: s_def date_text_def)
  ultimately have found: "(case strchr 47 s of Some p \<Rightarrow> (47, Some p) | None \<Rightarrow> (case strchr 45 s of Some p \<Rightarrow> (45, Some p) | None \<Rightarrow> (0, None)))
    = (separator, Some (separator # m @ separator # d @ 44 # time_text h mi sec sign z))"
    using assms(10) strchr_missing by auto
  have "parse_date separator s = Go (fix_date Y M D)" using assms(1-3,10) unfolding s_def by (rule parse_date_text)
  moreover have "fix_date Y M D = (if Y < 81 then Y + 2000 else if Y < 1000 then Y + 1900 else Y, M, D)" using assms(11) by (simp add: fix_date_def)
  ultimately have "parse_datetime s = parse_time (time_text h mi sec sign z) (if Y < 81 then Y + 2000 else if Y < 1000 then Y + 1900 else Y, M, D)"
    unfolding parse_datetime_def found behind by (simp add: blank)
  then show ?thesis
    using core_whole [OF octets len s] date_decodes [OF octets comma len assms(14)] parse_time_text [OF assms(4-7,9,8)] ascii len
    unfolding ATGEN_DecodeDateTime_def s_def [symmetric] by (simp del: parse_time_def)
qed


definition gsm_phone :: at_coding where
  "gsm_phone = \<lparr>Charset = AT_CHARSET_GSM, Maker = AT_Siemens, F_FORCE_UTF8 = False, F_SAMSUNG_UTF8 = False,
     IconvDecode = None, IconvEncode = (\<lambda>_ _ _. [])\<rparr>"

theorem at_date_read_witness:
  "ATGEN_DecodeDateTime gsm_phone posix_locale (bytes_of ''04/02/29,23:59:01-08'') =
    Go \<lparr>Timezone = -7200, Second = 1, Minute = 59, Hour = 23, Day = 29, Month = 2, Year = 2004\<rparr>"
proof -
  have "number_text (bytes_of ''04'') 4" "number_text (bytes_of ''02'') 2" "number_text (bytes_of ''29'') 29" "number_text (bytes_of ''23'') 23"
    "number_text (bytes_of ''59'') 59" "number_text (bytes_of ''01'') 1" "number_text (bytes_of ''08'') 8"
    by (simp_all add: number_text_def isdigit_def digits_value_def)
  from at_date_read [OF this(1-7), of 45 47 posix_locale gsm_phone] ascii_posix show ?thesis
    by (simp add: date_text_def time_text_def gsm_phone_def iconv_name_def)
qed

text \<open>
  For a date without a time, the position behind \<^verbatim>\<open>NULL\<close> is taken for the time; a time with a negative zone
  and no date is taken for a date; for a comma alone, the cell before the array is read; and where a date
  with dashes follows the time, its first dash is taken for the zone.
\<close>

lemma dates_misread:
  "parse_datetime (bytes_of ''04/02/29'') = OobRead"
  "parse_datetime (bytes_of ''23:59:01-08'') = Fail ERR_UNKNOWN"
  "date_core (bytes_of '','') = OobRead"
  "parse_datetime (bytes_of ''23:59:01,2004-02-29'') =
    Go \<lparr>Timezone = -1800, Second = 1, Minute = 59, Hour = 23, Day = 29, Month = 2, Year = 2004\<rparr>"
  by (simp_all add: parse_datetime_def parse_date_def parse_time_def strchr_def isspace_def date_core_def unless_empty_def cell_def
      strip_last_def cstr_Cons atoi_def strtol_def isdigit_def digits_value_def LONG_MAX_def LONG_MIN_def timezone_def to_int_id fix_date_def)

end
