(* ===== verification/AtParse.thy ===== *)
theory AtParse imports AtDate begin

text \<open>
  The reading of the parameters of an answer, \<^verbatim>\<open>ATGEN_GrabString\<close>, \<^verbatim>\<open>ATGEN_ExtractOneParameter\<close> and
  \<^verbatim>\<open>ATGEN_ParseReply\<close> of \<^verbatim>\<open>phone/at/atgen.c\<close>. The variable arguments of the last are the rooms of the
  stores of its texts; what it stores is a list, in the order of the format.
\<close>

subsection \<open>One parameter\<close>

fun extract_octets :: "bool \<Rightarrow> byte list \<Rightarrow> byte list" where
  "extract_octets inside_quotes [] = []"
| "extract_octets inside_quotes (b # rest) =
     (if (b \<noteq> 44 \<or> inside_quotes) \<and> b \<noteq> 13 \<and> b \<noteq> 10 \<and> b \<noteq> 0
      then b # extract_octets (if b = 34 then \<not> inside_quotes else inside_quotes) rest else [])"

definition ATGEN_ExtractOneParameter :: "byte list \<Rightarrow> nat \<times> byte list" where
  "ATGEN_ExtractOneParameter input = (let output = extract_octets False input in (length output + 1, output))"

fun grab_octets :: "bool \<Rightarrow> byte list \<Rightarrow> byte list" where
  "grab_octets inside_quotes [] = []"
| "grab_octets inside_quotes (b # rest) =
     (if inside_quotes \<or> (b \<noteq> 44 \<and> b \<noteq> 41 \<and> b \<noteq> 13 \<and> b \<noteq> 10 \<and> b \<noteq> 0) then
        if b = 13 \<or> b = 10 \<or> b = 0 then []
        else b # grab_octets (if b = 34 then \<not> inside_quotes else inside_quotes) rest
      else [])"

definition unquoted :: "byte list \<Rightarrow> byte list" where
  "unquoted s = (if length s \<ge> 2 \<and> hd s = 34 \<and> last s = 34 then butlast (tl s) else s)"

definition ATGEN_GrabString :: "byte list \<Rightarrow> nat \<times> byte list" where
  "ATGEN_GrabString input = (let output = grab_octets False input in (length output, unquoted output))"

subsection \<open>One directive\<close>

datatype reply_value = Num int | Txt nat "uchar list" | Raw nat "byte list" | Date GSM_DateTime

type_synonym parsed = "(GSM_Error \<times> reply_value list, reply_value list \<times> byte list \<times> nat list) stage"

text \<open>
  Numbers. \<open>stored\<close> is what was stored before. The value of a text with no number is stored too.
\<close>

definition parse_number :: "(int \<Rightarrow> int) \<Rightarrow> byte list \<Rightarrow> byte list \<Rightarrow> reply_value list \<Rightarrow> nat list \<Rightarrow> parsed" where
  "parse_number convert digits rest stored rooms =
     (let (v, used, _) = strtol digits in
      if used = 0 then Fail (ERR_UNKNOWNRESPONSE, stored @ [Num (convert v)]) else Go (stored @ [Num (convert v)], rest, rooms))"

text \<open>Texts: a unit is two octets, and two more are the terminator.\<close>

definition store_text :: "nat \<Rightarrow> uchar list \<Rightarrow> byte list \<Rightarrow> reply_value list \<Rightarrow> nat list \<Rightarrow> parsed" where
  "store_text room us rest stored rooms =
     (if 2 * length us + 2 > room then OobWrite else Go (stored @ [Txt room us], rest, rooms))"

definition parse_text :: "at_coding \<Rightarrow> bool \<Rightarrow> bool \<Rightarrow> byte list \<Rightarrow> nat \<Rightarrow> byte list \<Rightarrow> reply_value list \<Rightarrow> nat list \<Rightarrow> parsed" where
  "parse_text env guess phone octets room rest stored rooms =
     (case ATGEN_DecodeText env octets room guess phone of
        Inl error \<Rightarrow> Fail (error, stored)
      | Inr us \<Rightarrow> store_text room us rest stored rooms)"

definition parse_utf8 :: "byte list \<Rightarrow> nat \<Rightarrow> byte list \<Rightarrow> reply_value list \<Rightarrow> nat list \<Rightarrow> parsed" where
  "parse_utf8 octets room rest stored rooms = store_text room (snd (DecodeUTF8Checked octets)) rest stored rooms"

text \<open>The text behind its length, as in \<^verbatim>\<open>3,abc\<close>.\<close>

definition behind_length :: "byte list \<Rightarrow> byte list option" where
  "behind_length s = (if s \<noteq> [] \<and> isdigit (hd s) then map_option tl (strchr 44 s) else None)"

definition samsung_text :: "byte list \<Rightarrow> byte list" where
  "samsung_text s = (if s \<noteq> [] \<and> hd s = 2 \<and> last s = 3 then butlast (tl s) else s)"

text \<open>Dates: the text may come in two parameters, and a missing one is left alone, with the input where it was.\<close>

definition date_parameter :: "byte list \<Rightarrow> nat \<times> byte list" where
  "date_parameter input =
     (let (n, s) = ATGEN_GrabString input in
      if n > 0 \<and> n < length input \<and> input ! n = 44 \<and> 44 \<notin> set s
      then let (n2, s2) = ATGEN_GrabString (drop (n + 1) input) in (n + 1 + n2, s @ 44 # s2)
      else (n, s))"

definition parse_dates :: "at_coding \<Rightarrow> c_locale \<Rightarrow> byte list \<Rightarrow> reply_value list \<Rightarrow> nat list \<Rightarrow> parsed" where
  "parse_dates env loc input stored rooms =
     (let (n, s) = date_parameter input in
      if s = [] then Go (stored, input, rooms)
      else case ATGEN_DecodeDateTime env loc s of
        OobRead \<Rightarrow> OobRead
      | OobWrite \<Rightarrow> OobWrite
      | Fail error \<Rightarrow> Fail (error, stored)
      | Go dt \<Rightarrow> Go (stored @ [Date dt], drop n input, rooms))"

text \<open>A directive that takes a store is not given one only by an error of the caller.\<close>

definition directive ::
  "at_coding \<Rightarrow> c_locale \<Rightarrow> byte \<Rightarrow> byte list \<Rightarrow> reply_value list \<Rightarrow> nat list \<Rightarrow> parsed" where
  "directive env loc k input stored rooms =
     (let (n, s) = ATGEN_GrabString input; rest = drop n input in
      if k = of_char CHR ''i'' then parse_number to_int input (drop (fst (snd (strtol input))) input) stored rooms
      else if k = of_char CHR ''n'' then parse_number to_int s rest stored rooms
      else if k = of_char CHR ''I'' then
        Go (stored @ [Num (to_int (fst (strtol input)))], drop (fst (snd (strtol input))) input, rooms)
      else if k = of_char CHR ''l'' then parse_number id input (drop (fst (snd (strtol input))) input) stored rooms
      else if k = of_char CHR ''d'' then parse_dates env loc input stored rooms
      else if k = of_char CHR ''@'' then
        (case input of [] \<Rightarrow> Fail (ERR_UNKNOWNRESPONSE, stored)
         | b # r \<Rightarrow> if b = 64 then Go (stored, r, rooms) else Fail (ERR_UNKNOWNRESPONSE, stored))
      else if k \<in> set (bytes_of ''pstuTeSr'') then
        (case rooms of [] \<Rightarrow> OobRead
         | room # rooms' \<Rightarrow>
           if k = of_char CHR ''p'' then parse_text env True True s room rest stored rooms'
           else if k = of_char CHR ''s'' then parse_text env True False s room rest stored rooms'
           else if k = of_char CHR ''e'' then parse_text env False False s room rest stored rooms'
           else if k = of_char CHR ''u'' then parse_utf8 s room rest stored rooms'
           else if k = of_char CHR ''S'' then parse_utf8 (samsung_text s) room rest stored rooms'
           else if k = of_char CHR ''r'' then
             if length s > room then Fail (ERR_MOREMEMORY, stored)
             else if length s + 1 > room then OobWrite
             else Go (stored @ [Raw room s], rest, rooms')
           else (case behind_length s of
               None \<Rightarrow> Fail (ERR_UNKNOWNRESPONSE, stored)
             | Some t \<Rightarrow> if k = of_char CHR ''t'' then parse_text env True False t room rest stored rooms'
                         else parse_utf8 t room rest stored rooms'))
      else Fail (ERR_BUG, stored))"

subsection \<open>A whole answer\<close>

fun parse_format ::
  "at_coding \<Rightarrow> c_locale \<Rightarrow> byte list \<Rightarrow> byte list \<Rightarrow> reply_value list \<Rightarrow> nat list
   \<Rightarrow> (GSM_Error \<times> reply_value list, reply_value list) stage" where
  "parse_format env loc [] input stored rooms =
     (if dropWhile isspace input = [] then Go stored else Fail (ERR_UNKNOWNRESPONSE, stored))"
| "parse_format env loc (c # fmt) input stored rooms =
     (if c = 64 then
        (case fmt of
           [] \<Rightarrow> Fail (ERR_BUG, stored)
         | k # fmt' \<Rightarrow>
             if k = 48 then Go stored
             else andthen (directive env loc k input stored rooms)
                    (\<lambda>(stored', input', rooms'). parse_format env loc fmt' input' stored' rooms'))
      else if c = 32 then parse_format env loc fmt (dropWhile isspace input) stored rooms
      else (case input of
          [] \<Rightarrow> Fail (ERR_UNKNOWNRESPONSE, stored)
        | b # input' \<Rightarrow> if b = c then parse_format env loc fmt input' stored rooms else Fail (ERR_UNKNOWNRESPONSE, stored)))"

definition ATGEN_ParseReply ::
  "at_coding \<Rightarrow> c_locale \<Rightarrow> byte list \<Rightarrow> byte list \<Rightarrow> nat list \<Rightarrow> (GSM_Error \<times> reply_value list, reply_value list) stage" where
  "ATGEN_ParseReply env loc input format rooms = parse_format env loc (cstr format) (cstr input) [] rooms"


subsection \<open>Texts fit into their stores\<close>

lemma StoreUTF16_length: "length (StoreUTF16 c) \<le> 2" "c < 0x10000 \<Longrightarrow> length (StoreUTF16 c) = 1"
  by (auto simp: StoreUTF16_def Let_def word_less_nat_alt word_le_nat_alt)

lemma DecodeDefault_length: "length (DecodeDefault t ext extra) \<le> length t"
  by (induction t ext extra rule: DecodeDefault.induct) (auto split: option.splits)

lemma DecodeUTF8_length: "length (snd (DecodeUTF8Checked t)) \<le> length t"
proof (induction t rule: DecodeUTF8Checked.induct)
  case (1 t)
  show ?case
  proof (cases "t = [] \<or> DecodeWithUTF8Alphabet t = None")
    case True
    then show ?thesis by (subst DecodeUTF8Checked.simps) auto
  next
    case False
    then obtain z c where d: "t \<noteq> []" "DecodeWithUTF8Alphabet t = Some (z, c)" by auto
    have z: "0 < z" "z \<le> length t" using DecodeWithUTF8Alphabet_size [OF d(2)] by auto
    have IH: "length (snd (DecodeUTF8Checked (drop z t))) \<le> length t - z" using 1 [OF d(1) d(2)] by simp
    have "length (StoreUTF16 c) \<le> z"
    proof (cases "z = 1")
      case True
      then have "\<exists>b :: byte. c = ucast b" using d(2) by (cases t) (auto simp: DecodeWithUTF8Alphabet.simps Let_def split: if_splits list.splits)
      moreover have "(ucast b :: gammu_char_t) < 0x10000" for b :: byte by (simp add: word_less_nat_alt order.strict_trans [OF unat_byte_less])
      ultimately have "c < 0x10000" by blast
      then show ?thesis using StoreUTF16_length(2) True by simp
    next
      case False
      then show ?thesis using StoreUTF16_length(1) [of c] z by simp
    qed
    then show ?thesis using d z IH by (subst DecodeUTF8Checked.simps) (simp add: Let_def)
  qed
qed

lemma DecodeHexBin_length: "DecodeHexBin t = Some b \<Longrightarrow> length b = length t div 2"
  by (induction t arbitrary: b rule: DecodeHexBin.induct) (auto simp: Let_def split: if_splits)

lemma DecodeHexUnicode_length: "DecodeHexUnicode t = Some us \<Longrightarrow> 4 * length us = length t"
  by (induction t arbitrary: us rule: DecodeHexUnicode.induct) (auto simp: Let_def split: if_splits)

lemma samsung_octets_length: "length (samsung_octets state t) = length t div 2"
  by (induction state t rule: samsung_octets.induct) (simp_all split: prod.split)

lemma hex_value: "isxdigit c \<Longrightarrow> 0 \<le> DecodeWithHexBinAlphabet c"
  by (auto simp: isxdigit_def isdigit_def DecodeWithHexBinAlphabet_def word_le_def)

lemma hex_unicode_decodes: "ATGEN_HasOnlyHexChars t \<Longrightarrow> length t mod 4 = 0 \<Longrightarrow> \<exists>us. DecodeHexUnicode t = Some us"
proof (induction t rule: DecodeHexUnicode.induct)
  case (2 c0 c1 c2 c3 src)
  have "0 \<le> DecodeWithHexBinAlphabet c" if "c \<in> {c0, c1, c2, c3}" for c
    using that 2(2) hex_value by (auto simp: ATGEN_HasOnlyHexChars_def)
  then have d: "\<not> (DecodeWithHexBinAlphabet c0 < 0 \<or> DecodeWithHexBinAlphabet c1 < 0 \<or> DecodeWithHexBinAlphabet c2 < 0 \<or> DecodeWithHexBinAlphabet c3 < 0)"
    by (meson insertI1 insertI2 linorder_not_less)
  have "\<exists>us. DecodeHexUnicode src = Some us"
    using 2 d by (simp add: ATGEN_HasOnlyHexChars_def)
  then show ?case using d by (auto simp: Let_def)
qed simp_all

text \<open>A store with an even number of octets is large enough.\<close>

lemma decoded_fits:
  assumes "ATGEN_DecodeText env t room guess phone = Inr us" "even room" "iconv_name (Charset env) = None"
  shows "2 * length us + 2 \<le> room"
proof -
  have even: "2 * length us + 2 \<le> room" if "length us \<le> n" "2 * n < room" for n using that assms(2) by presburger
  define charset where "charset = decode_charset env t guess phone"
  note d = assms(1) [unfolded ATGEN_DecodeText_def charset_def [symmetric]]
  have set: "charset \<in> set own_sets" "digits_right t charset" using decoded_sets [OF assms(3)] by (simp_all add: charset_def)
  show ?thesis
  proof (cases charset)
    case AT_CHARSET_HEX
    define b where "b = (case DecodeHexBin t of Some b \<Rightarrow> cstr b | None \<Rightarrow> [])"
    from d AT_CHARSET_HEX have "us = DecodeDefault b True None" "2 * length b < room" by (auto simp: b_def [symmetric] Let_def split: if_splits)
    then show ?thesis using even DecodeDefault_length by blast
  next
    case AT_CHARSET_GSM
    then have "us = DecodeDefault t True None" "2 * length t < room" using d by (auto split: if_splits)
    then show ?thesis using even DecodeDefault_length by blast
  next
    case AT_CHARSET_UCS2
    then have "ATGEN_IsUCS2 t" using set(2) by (simp add: digits_right_def)
    then have "length t > 3" "length t mod 4 = 0" "ATGEN_HasOnlyHexChars t" by (simp_all add: ATGEN_IsUCS2_def)
    then obtain units where u: "DecodeHexUnicode t = Some units" "length t > 3"
      using hex_unicode_decodes [of t] by auto
    then have len: "4 * length units = length t" using DecodeHexUnicode_length by blast
    show ?thesis
    proof (cases "F_SAMSUNG_UTF8 env")
      case True
      let ?o = "bytes_of_units units" let ?r = "samsung_octets 0 ?o"
      have us: "us = snd (DecodeUTF8Checked (?r @ 0 # drop (length ?r + 1) ?o))" "length t < room"
        using d AT_CHARSET_UCS2 u True by (auto simp: Let_def split: if_splits)
      have "length units > 0" using len u(2) by linarith
      then have "length us \<le> 2 * length units" unfolding us(1)
        using DecodeUTF8_length [of "?r @ 0 # drop (length ?r + 1) ?o"] by (simp add: samsung_octets_length)
      then show ?thesis using even us(2) len by simp
    next
      case False
      then have "us = units" "length t div 2 < room" using d AT_CHARSET_UCS2 u by (auto simp: Let_def split: if_splits)
      then show ?thesis using even [of "length units"] len by auto
    qed
  qed (use d set(1) even DecodeUTF8_length [of t] in \<open>auto simp: own_sets_def split: if_splits\<close>)
qed


text \<open>The formats without the directives that write texts unchecked.\<close>

definition guarded_format :: "byte list \<Rightarrow> bool" where
  "guarded_format fmt \<longleftrightarrow> set fmt \<inter> set (bytes_of ''duTSr'') = {}"

lemma directive_writes:
  assumes "k \<notin> set (bytes_of ''duTSr'')" "list_all even rooms" "iconv_name (Charset env) = None"
  shows "writes_ok (\<lambda>(stored', input', rooms'). list_all even rooms') (directive env loc k input stored rooms)"
proof -
  have decoded: "writes_ok (\<lambda>(stored', input', rooms'). list_all even rooms') (parse_text env guess phone s room rest stored rooms')"
    if "even room" "list_all even rooms'" for guess phone s room rest rooms'
    using that decoded_fits [of env s room guess phone] assms(3)
    by (auto simp: parse_text_def store_text_def split: sum.splits)
  show ?thesis using assms(1,2) decoded
    by (auto simp: directive_def parse_number_def Let_def split: prod.splits list.splits option.splits)
qed

lemma format_writes:
  "guarded_format fmt \<Longrightarrow> list_all even rooms \<Longrightarrow> iconv_name (Charset env) = None \<Longrightarrow>
   writes_ok (\<lambda>_. True) (parse_format env loc fmt input stored rooms)"
proof (induction env loc fmt input stored rooms rule: parse_format.induct)
  case (2 env loc c fmt input stored rooms)
  show ?case
  proof (cases "c = 64")
    case True
    show ?thesis
    proof (cases fmt)
      case (Cons k fmt')
      have g: "guarded_format fmt'" "k \<notin> set (bytes_of ''duTSr'')" using 2(4) by (auto simp: guarded_format_def Cons)
      have "writes_ok (\<lambda>_. True) (andthen (directive env loc k input stored rooms) (\<lambda>(stored', input', rooms'). parse_format env loc fmt' input' stored' rooms'))"
        if "k \<noteq> 48"
        by (rule writes_ok_andthen [OF directive_writes [OF g(2) 2(5,6)]]) (use 2(1) [OF True Cons that] g(1) 2(6) in auto)
      then show ?thesis using True Cons by simp
    qed (simp add: True)
  next
    case False
    have g: "guarded_format fmt" using 2(4) by (auto simp: guarded_format_def)
    show ?thesis using False 2(2) [OF False _ g 2(5,6)] 2(3) [OF False _ _ _ g 2(5,6)] by (auto split: list.splits)
  qed
qed simp

text \<open>
  Claim C18. Whatever a phone answers, the numbers and the texts that are read with a guess of their set never
  write outside a store with an even number of octets, where the character set of the phone is not one of \<^verbatim>\<open>iconv\<close>. The formats are those without
  dates (\<^verbatim>\<open>d\<close>), without the texts in UTF-8 and of the phone's sets that do not look at the size of the store (\<^verbatim>\<open>u\<close>, \<^verbatim>\<open>T\<close>, \<^verbatim>\<open>S\<close>), and without raw
  texts (\<^verbatim>\<open>r\<close>), which look at it and still overrun it when they are as long as the store (\<open>texts_overrun\<close>).
\<close>

theorem at_reply_stores:
  assumes "guarded_format format" "list_all even rooms" "iconv_name (Charset env) = None"
  shows "ATGEN_ParseReply env loc input format rooms \<noteq> OobWrite"
proof -
  have "guarded_format (cstr format)" using assms(1) set_takeWhileD unfolding guarded_format_def cstr_def by fastforce
  from format_writes [OF this assms(2,3), of loc "cstr input" "[]"] show ?thesis
    by (auto simp: ATGEN_ParseReply_def writes_ok_def)
qed

theorem at_reply_stores_witness:
  "ATGEN_ParseReply hex_phone posix_locale (bytes_of ''+CPBR: \"4A6F65\"'') (bytes_of ''+CPBR: @s'') [6] \<noteq> OobWrite"
  by (rule at_reply_stores) (simp_all add: guarded_format_def hex_phone_def iconv_name_def)

text \<open>A raw text as long as its store takes one octet more; texts in UTF-8 are not limited at all.\<close>

lemma texts_overrun:
  "ATGEN_ParseReply env loc (bytes_of ''abcd'') (bytes_of ''@r'') [4] = OobWrite"
  "ATGEN_ParseReply env loc (bytes_of ''abcd'') (bytes_of ''@u'') [4] = OobWrite"
  by (simp_all add: ATGEN_ParseReply_def cstr_Cons directive_def ATGEN_GrabString_def unquoted_def parse_utf8_def store_text_def
      DecodeUTF8Checked.simps DecodeWithUTF8Alphabet.simps StoreUTF16_def)

text \<open>An empty date between quotes is joined with the parameter behind it.\<close>

lemma empty_date_joined: "date_parameter (bytes_of ''\"\",5'') = (4, bytes_of '',5'')"
  by (simp add: date_parameter_def ATGEN_GrabString_def unquoted_def)

subsection \<open>Answers are read\<close>

text \<open>A parameter of an answer, as the format and the phone write it.\<close>

datatype field = FInt int | FText nat "uchar list"

fun field_format :: "field \<Rightarrow> byte list" where
  "field_format (FInt v) = bytes_of ''@i''"
| "field_format (FText room us) = bytes_of ''@s''"

fun field_octets :: "at_coding \<Rightarrow> field \<Rightarrow> byte list" where
  "field_octets env (FInt v) = decimal_int v"
| "field_octets env (FText room us) = 34 # (case ATGEN_EncodeText env us room of Inr octets \<Rightarrow> octets | Inl _ \<Rightarrow> []) @ [34]"

fun field_ok :: "at_coding \<Rightarrow> field \<Rightarrow> bool" where
  "field_ok env (FInt v) \<longleftrightarrow> - (2 ^ 31) \<le> v \<and> v < 2 ^ 31"
| "field_ok env (FText room us) \<longleftrightarrow> text_fits env room us \<and> even room
     \<and> (case ATGEN_EncodeText env us room of Inr octets \<Rightarrow> set octets \<inter> {0, 10, 13, 34} = {} | Inl _ \<Rightarrow> False)"

fun field_rooms :: "field \<Rightarrow> nat list" where
  "field_rooms (FInt v) = []"
| "field_rooms (FText room us) = [room]"

fun field_value :: "field \<Rightarrow> reply_value" where
  "field_value (FInt v) = Num v"
| "field_value (FText room us) = Txt room us"

lemma text_fits_sets: "text_fits env room us \<Longrightarrow> iconv_name (Charset env) = None"
  by (cases "Charset env") (simp_all add: text_fits_def iconv_name_def)

definition ends_field :: "byte list \<Rightarrow> bool" where
  "ends_field r \<longleftrightarrow> r = [] \<or> hd r = 44"

lemma grab_quoted:
  assumes "set octets \<inter> {0, 10, 13, 34} = {}" "ends_field r"
  shows "ATGEN_GrabString (34 # octets @ 34 # r) = (length octets + 2, octets)"
proof -
  have "grab_octets False r = []" using assms(2) by (cases r) (auto simp: ends_field_def)
  then have "grab_octets True (octets @ 34 # r) = octets @ [34]" using assms(1) by (induction octets) auto
  then show ?thesis by (simp add: ATGEN_GrabString_def unquoted_def)
qed

lemma field_step:
  assumes "field_ok env f" "ends_field r"
  shows "\<exists>k. field_format f = [64, k] \<and> k \<noteq> 48
    \<and> directive env loc k (field_octets env f @ r) stored (field_rooms f @ rooms) = Go (stored @ [field_value f], r, rooms)"
proof (cases f)
  case (FInt v)
  have "ends_number r" using assms(2) by (cases r) (auto simp: ends_field_def)
  then have "strtol (decimal_int v @ r) = (v, length (decimal_int v), False)"
    using assms(1) by (intro strtol_decimal) (auto simp: FInt LONG_MIN_def LONG_MAX_def)
  moreover have "decimal_int v \<noteq> []" using decimal_digits by (simp add: decimal_int_def)
  ultimately show ?thesis using assms(1)
    by (simp add: FInt directive_def parse_number_def Let_def to_int_id split: prod.split)
next
  case (FText room us)
  then obtain octets where o: "ATGEN_EncodeText env us room = Inr octets" "set octets \<inter> {0, 10, 13, 34} = {}" "text_fits env room us" "even room"
    using assms(1) by (auto split: sum.splits)
  then have d: "ATGEN_DecodeText env octets room True False = Inr us" using text_returns [OF o(3), of room True] by auto
  have "2 * length us + 2 \<le> room" by (rule decoded_fits [OF d o(4) text_fits_sets [OF o(3)]])
  then show ?thesis using grab_quoted [OF o(2) assms(2)] d
    by (simp add: FText o(1) directive_def parse_text_def store_text_def)
qed

text \<open>Parameters behind blanks, with commas between them.\<close>

fun fields_format :: "field list \<Rightarrow> byte list" where
  "fields_format [] = []"
| "fields_format [f] = 32 # field_format f"
| "fields_format (f # fs) = 32 # field_format f @ 44 # fields_format fs"

fun reply_octets :: "at_coding \<Rightarrow> (byte list \<times> field) list \<Rightarrow> byte list" where
  "reply_octets env [] = []"
| "reply_octets env [(blanks, f)] = blanks @ field_octets env f"
| "reply_octets env ((blanks, f) # fs) = blanks @ field_octets env f @ 44 # reply_octets env fs"

lemma skip_blanks:
  assumes "blank_around blanks" "field_ok env f"
  shows "dropWhile isspace (blanks @ field_octets env f @ r) = field_octets env f @ r"
proof -
  have "\<exists>b r'. field_octets env f = b # r' \<and> \<not> isspace b"
  proof (cases f)
    case (FInt v)
    obtain d ds where "decimal (nat v) = d # ds" "isdigit d" using decimal_digits [of "nat v"] by (cases "decimal (nat v)") auto
    then show ?thesis using digit_not by (auto simp: FInt decimal_int_def isspace_def)
  qed (simp add: isspace_def)
  then show ?thesis using assms(1) by (auto simp: blank_around_def dropWhile_append)
qed

lemma fields_read:
  "\<forall>(blanks, f) \<in> set fs. blank_around blanks \<and> field_ok env f \<Longrightarrow> fs \<noteq> [] \<Longrightarrow>
   parse_format env loc (fields_format (map snd fs)) (reply_octets env fs) stored (concat (map (field_rooms \<circ> snd) fs))
     = Go (stored @ map (field_value \<circ> snd) fs)"
proof (induction env fs arbitrary: stored rule: reply_octets.induct)
  case (2 env blanks f)
  obtain k where k: "field_format f = [64, k]" "k \<noteq> 48"
    "directive env loc k (field_octets env f @ []) stored (field_rooms f @ []) = Go (stored @ [field_value f], [], [])"
    using field_step [of env f "[]" loc stored "[]"] 2 by (auto simp: ends_field_def)
  show ?case using 2 k skip_blanks [of blanks env f "[]"] by simp
next
  case (3 env blanks f g fs)
  let ?rest = "44 # reply_octets env (g # fs)" and ?rooms = "concat (map (field_rooms \<circ> snd) (g # fs))"
  obtain k where k: "field_format f = [64, k]" "k \<noteq> 48"
    "directive env loc k (field_octets env f @ ?rest) stored (field_rooms f @ ?rooms) = Go (stored @ [field_value f], ?rest, ?rooms)"
    using field_step [of env f ?rest loc stored ?rooms] 3(2) by (auto simp: ends_field_def)
  have "parse_format env loc (fields_format (map snd (g # fs))) (reply_octets env (g # fs)) (stored @ [field_value f]) ?rooms
    = Go ((stored @ [field_value f]) @ map (field_value \<circ> snd) (g # fs))"
    by (rule 3(1)) (use 3(2) in auto)
  moreover have "fields_format (map snd ((blanks, f) # g # fs)) = 32 # 64 # k # 44 # fields_format (map snd (g # fs))" by (simp add: k(1))
  moreover have "dropWhile isspace (reply_octets env ((blanks, f) # g # fs)) = field_octets env f @ ?rest"
    using 3(2) skip_blanks [of blanks env f ?rest] by simp
  ultimately show ?case using k by (simp add: comp_def)
qed simp

lemma prefix_read:
  "\<forall>b \<in> set p. b \<noteq> 64 \<and> b \<noteq> 32 \<Longrightarrow>
   parse_format env loc (p @ fmt) (p @ input) stored rooms = parse_format env loc fmt input stored rooms"
  by (induction p) simp_all

lemma field_no_zero: "field_ok env f \<Longrightarrow> 0 \<notin> set (field_octets env f) \<and> 0 \<notin> set (field_format f)"
proof (cases f)
  case (FInt v)
  have "\<forall>d \<in> set (decimal n). d \<noteq> 0" for n using decimal_digits [of n] digit_not by blast
  then show ?thesis by (auto simp: FInt decimal_int_def)
qed (auto split: sum.splits)

lemma reply_no_zero:
  "\<forall>(blanks, f) \<in> set fs. blank_around blanks \<and> field_ok env f \<Longrightarrow> 0 \<notin> set (reply_octets env fs) \<and> 0 \<notin> set (fields_format (map snd fs))"
  by (induction env fs rule: reply_octets.induct) (use field_no_zero in \<open>auto simp: blank_around_def isspace_def\<close>)



end
