(* ===== verification/AtLines.thy ===== *)
theory AtLines imports Prelude begin

text \<open>
  The cutting of an answer into lines, \<^verbatim>\<open>SplitLines\<close> and its companions of \<^verbatim>\<open>misc/misc.c\<close>. The array of cut
  points of the source is a list that includes its unused cells: starts and ends alternate.
\<close>

record cut_state =
  cs_numbers :: "nat list"
  cs_allocated :: nat
  cs_whitespace :: bool
  cs_quotes :: bool
  cs_lastquote :: nat

text \<open>One character: \<open>split_at\<close> is the part from the label \<^verbatim>\<open>rollback_quote\<close> on.\<close>

definition split_at :: "byte list \<Rightarrow> byte \<Rightarrow> nat \<Rightarrow> cut_state \<Rightarrow> cut_state" where
  "split_at spaces b i s =
     (if cs_whitespace s \<noteq> (b \<in> set spaces)
      then s\<lparr>cs_numbers := cs_numbers s @ [i], cs_whitespace := \<not> cs_whitespace s\<rparr> else s)"

definition split_char :: "byte list \<Rightarrow> byte list \<Rightarrow> byte \<Rightarrow> nat \<Rightarrow> cut_state \<Rightarrow> cut_state" where
  "split_char spaces quotes b i s0 =
     (let s1 = (if length (cs_numbers s0) + 2 \<ge> cs_allocated s0 then s0\<lparr>cs_allocated := cs_allocated s0 + 20\<rparr> else s0);
          s = (if b \<in> set quotes then s1\<lparr>cs_quotes := \<not> cs_quotes s1, cs_lastquote := i\<rparr> else s1)
      in if cs_quotes s then s else split_at spaces b i s)"

fun split_chars :: "byte list \<Rightarrow> byte list \<Rightarrow> byte list \<Rightarrow> nat \<Rightarrow> cut_state \<Rightarrow> cut_state" where
  "split_chars spaces quotes [] i s = s"
| "split_chars spaces quotes (b # rest) i s = split_chars spaces quotes rest (i + 1) (split_char spaces quotes b i s)"

text \<open>The cut points with the cells behind them; quotes that stay open are not counted.\<close>

definition SplitLines :: "byte list \<Rightarrow> nat \<Rightarrow> byte list \<Rightarrow> byte list \<Rightarrow> bool \<Rightarrow> nat list" where
  "SplitLines message allocated spaces quotes eot =
     (let s1 = split_chars spaces quotes message 0
                 \<lparr>cs_numbers = [], cs_allocated = allocated, cs_whitespace = True, cs_quotes = False, cs_lastquote = 0\<rparr>;
          s2 = (if odd (length (cs_numbers s1)) \<and> cs_quotes s1
                then let q = cs_lastquote s1 in
                     split_chars spaces quotes (drop (q + 1) message) (q + 1)
                       (split_at spaces (message ! q) q (s1\<lparr>cs_quotes := False\<rparr>))
                else s1);
          numbers = (if eot \<and> \<not> cs_whitespace s2 then cs_numbers s2 @ [length message] else cs_numbers s2)
      in numbers @ replicate (cs_allocated s2 - length numbers) 0)"

text \<open>
  Lines count from 1. \<open>None\<close> is the allocation of a negative length, which fails; a length of -1 counts as one.
\<close>

definition GetLineStringPos :: "nat list \<Rightarrow> nat \<Rightarrow> nat" where
  "GetLineStringPos numbers start = numbers ! (start * 2 - 2)"

definition GetLineLength :: "nat list \<Rightarrow> nat \<Rightarrow> int" where
  "GetLineLength numbers start = int (numbers ! (start * 2 - 2 + 1)) - int (numbers ! (start * 2 - 2))"

definition GetLineString :: "byte list \<Rightarrow> nat list \<Rightarrow> nat \<Rightarrow> byte list option" where
  "GetLineString message numbers start =
     (let len = GetLineLength numbers start in
      if len < 0 then None else Some (take (nat len) (drop (GetLineStringPos numbers start) message)))"

definition CopyLineString :: "byte list \<Rightarrow> nat list \<Rightarrow> nat \<Rightarrow> byte list option" where
  "CopyLineString src numbers start =
     (let len = GetLineLength numbers start in
      if len < 0 then None else Some (take (nat len) (drop (GetLineStringPos numbers start) src) @ [0]))"

subsection \<open>The cut points of whole lines\<close>

lemma split_chars_append:
  "split_chars sp q (xs @ ys) i s = split_chars sp q ys (i + length xs) (split_chars sp q xs i s)"
  by (induction xs arbitrary: i s) simp_all

text \<open>A line: no white space, quotes closed, and the first octet no quote.\<close>

definition good_line :: "byte list \<Rightarrow> byte list \<Rightarrow> byte list \<Rightarrow> bool" where
  "good_line sp q l \<longleftrightarrow> l \<noteq> [] \<and> set l \<inter> set sp = {} \<and> hd l \<notin> set q \<and> even (length (filter (\<lambda>b. b \<in> set q) l))"

text \<open>What matters of a state between lines: the cut points, and that there is room for two more.\<close>

definition between :: "nat list \<Rightarrow> cut_state \<Rightarrow> bool" where
  "between ns s \<longleftrightarrow> cs_numbers s = ns \<and> cs_whitespace s \<and> \<not> cs_quotes s \<and> (ns \<noteq> [] \<longrightarrow> length ns + 2 \<le> cs_allocated s)"

definition within :: "nat list \<Rightarrow> bool \<Rightarrow> cut_state \<Rightarrow> bool" where
  "within ns quoted s \<longleftrightarrow> cs_numbers s = ns \<and> \<not> cs_whitespace s \<and> (cs_quotes s = quoted) \<and> length ns + 2 \<le> cs_allocated s"

lemma within_step:
  assumes "within ns quoted s" "b \<notin> set sp"
  shows "within ns (quoted \<noteq> (b \<in> set q)) (split_char sp q b i s)"
  using assms by (auto simp: within_def split_char_def split_at_def Let_def)

lemma within_run:
  "within ns quoted s \<Longrightarrow> set l \<inter> set sp = {} \<Longrightarrow>
   within ns (quoted \<noteq> odd (length (filter (\<lambda>b. b \<in> set q) l))) (split_chars sp q l i s)"
proof (induction l arbitrary: i s quoted)
  case (Cons b l)
  then have "within ns (quoted \<noteq> (b \<in> set q)) (split_char sp q b i s)" using within_step [of ns quoted s b sp q i] by simp
  from Cons.IH [OF this, of "i + 1"] Cons.prems(2) show ?case by (cases "b \<in> set q") simp_all
qed simp

lemma line_starts:
  assumes "between ns s" "good_line sp q l"
  shows "within (ns @ [i]) False (split_chars sp q l i s)"
proof -
  obtain b r where l: "l = b # r" using assms(2) by (cases l) (auto simp: good_line_def)
  have "within (ns @ [i]) False (split_char sp q b i s)"
    using assms by (cases "ns = []") (auto simp: l good_line_def between_def within_def split_char_def split_at_def Let_def)
  from within_run [OF this, of r sp q "i + 1"] assms(2) show ?thesis by (auto simp: l good_line_def)
qed

lemma blanks_run:
  "between ns s \<Longrightarrow> set bs \<subseteq> set sp - set q \<Longrightarrow> between ns (split_chars sp q bs i s)"
proof (induction bs arbitrary: i s)
  case (Cons b bs)
  then have "between ns (split_char sp q b i s)" by (auto simp: between_def split_char_def split_at_def Let_def)
  then show ?case using Cons by simp
qed simp

lemma line_ends:
  assumes "within ns False s" "bs \<noteq> []" "set bs \<subseteq> set sp - set q"
  shows "between (ns @ [i]) (split_chars sp q bs i s)"
proof -
  obtain b r where bs: "bs = b # r" using assms(2) by (cases bs) auto
  have "between (ns @ [i]) (split_char sp q b i s)"
    using assms by (auto simp: bs between_def within_def split_char_def split_at_def Let_def)
  then show ?thesis using blanks_run assms(3) by (simp add: bs)
qed

fun cuts :: "nat \<Rightarrow> nat \<Rightarrow> byte list list \<Rightarrow> nat list" where
  "cuts e i [] = []"
| "cuts e i (l # ls) = i # (i + length l) # cuts e (i + length l + e) ls"

lemma length_cuts [simp]: "length (cuts e i ls) = 2 * length ls"
  by (induction ls arbitrary: i) auto

lemma lines_run:
  assumes "eol \<noteq> []" "set eol \<subseteq> set sp - set q"
  shows "between ns s \<Longrightarrow> \<forall>l \<in> set ls. good_line sp q l \<Longrightarrow>
    between (ns @ cuts (length eol) i ls) (split_chars sp q (concat (map (\<lambda>l. l @ eol) ls)) i s)"
proof (induction ls arbitrary: i s ns)
  case (Cons l ls)
  have "between ((ns @ [i]) @ [i + length l]) (split_chars sp q eol (i + length l) (split_chars sp q l i s))"
    by (rule line_ends [OF line_starts assms]) (use Cons.prems in auto)
  from Cons.IH [OF this, of "i + length l + length eol"] Cons.prems show ?case
    by (simp add: split_chars_append add.assoc)
qed simp

lemma cuts_nth:
  "k < length ls \<Longrightarrow> cuts e i ls ! (2 * k + 1) = cuts e i ls ! (2 * k) + length (ls ! k)
    \<and> cuts e i ls ! (2 * k) = i + sum_list (map (\<lambda>l. length l + e) (take k ls))"
proof (induction ls arbitrary: i k)
  case (Cons l ls)
  then show ?case by (cases k) auto
qed simp

text \<open>The octets of whole lines.\<close>

definition joined :: "byte list \<Rightarrow> byte list list \<Rightarrow> byte list" where
  "joined eol ls = concat (map (\<lambda>l. l @ eol) ls)"

lemma joined_simps [simp]: "joined eol [] = []" "joined eol (l # ls) = l @ eol @ joined eol ls"
  "joined eol (ls @ ms) = joined eol ls @ joined eol ms"
  by (simp_all add: joined_def)

lemma length_joined: "length (joined eol ls) = sum_list (map (\<lambda>l. length l + length eol) ls)"
  by (induction ls) simp_all

text \<open>The array grows by twenty cells.\<close>

lemma split_char_allocated: "20 dvd cs_allocated s \<Longrightarrow> 20 dvd cs_allocated (split_char sp q b i s)"
  by (simp add: split_char_def split_at_def Let_def)

lemma split_chars_allocated: "20 dvd cs_allocated s \<Longrightarrow> 20 dvd cs_allocated (split_chars sp q bs i s)"
  by (induction bs arbitrary: i s) (simp_all add: split_char_allocated)

lemma split_lines_table:
  assumes "eol \<noteq> []" "set eol \<subseteq> set sp - set q" "\<forall>l \<in> set ls. good_line sp q l" "ls \<noteq> []"
  shows "\<exists>n \<ge> 2. SplitLines (joined eol ls) allocated sp q eot = cuts (length eol) 0 ls @ replicate n 0
    \<and> (20 dvd allocated \<longrightarrow> 20 dvd 2 * length ls + n)"
proof -
  let ?s0 = "\<lparr>cs_numbers = [], cs_allocated = allocated, cs_whitespace = True, cs_quotes = False, cs_lastquote = 0\<rparr>"
  have "between [] ?s0" by (simp add: between_def)
  from lines_run [OF assms(1,2) this assms(3), of 0]
  have "between (cuts (length eol) 0 ls) (split_chars sp q (joined eol ls) 0 ?s0)" by (simp add: joined_def)
  moreover have "cuts (length eol) 0 ls \<noteq> []" using assms(4) by (cases ls) auto
  moreover define s1 where "s1 = split_chars sp q (joined eol ls) 0 ?s0"
  ultimately have s1: "cs_numbers s1 = cuts (length eol) 0 ls" "cs_whitespace s1" "\<not> cs_quotes s1"
    "2 * length ls + 2 \<le> cs_allocated s1" by (simp_all add: between_def)
  then have "SplitLines (joined eol ls) allocated sp q eot = cuts (length eol) 0 ls @ replicate (cs_allocated s1 - 2 * length ls) 0"
    by (simp add: SplitLines_def Let_def s1_def [symmetric])
  moreover have "20 dvd allocated \<Longrightarrow> 20 dvd cs_allocated s1" unfolding s1_def by (rule split_chars_allocated) simp
  ultimately show ?thesis using s1(4) by (intro exI [of _ "cs_allocated s1 - 2 * length ls"]) simp
qed

text \<open>A table of the lines \<open>ls\<close> that follow the octets \<open>before\<close> in the buffer.\<close>

lemma table_line:
  assumes "numbers = cuts (length eol) (length before) ls @ rest" "k < length ls"
  shows "GetLineString (before @ joined eol ls) numbers (k + 1) = Some (ls ! k)"
proof -
  have take: "joined eol ls = joined eol (take k ls) @ ls ! k @ eol @ joined eol (drop (k + 1) ls)"
    using id_take_nth_drop [OF assms(2)] joined_simps(3) [of eol "take k ls" "ls ! k # drop (k + 1) ls"] by simp
  have "drop (length before + length (joined eol (take k ls))) (before @ joined eol ls) = ls ! k @ eol @ joined eol (drop (k + 1) ls)"
    by (subst take) simp
  moreover have "k * 2 = 2 * k" "Suc (2 * k) < 2 * length ls" using assms(2) by simp_all
  ultimately show ?thesis
    using cuts_nth [OF assms(2), of "length eol" "length before"] assms(2)
    by (simp add: assms(1) GetLineString_def GetLineLength_def GetLineStringPos_def nth_append length_joined mult.commute [of k 2])
qed

text \<open>
  A message of whole lines is cut into just these lines: white space in balanced quotes does not end
  a line, and each line is read back as it was.
\<close>

theorem split_lines_reads_back:
  assumes "eol \<noteq> []" "set eol \<subseteq> set sp - set q" "\<forall>l \<in> set ls. good_line sp q l" "k < length ls"
  shows "GetLineString (joined eol ls) (SplitLines (joined eol ls) allocated sp q eot) (k + 1) = Some (ls ! k)"
proof -
  have "ls \<noteq> []" using assms(4) by auto
  from split_lines_table [OF assms(1-3) this, of allocated eot] obtain n where
    "SplitLines (joined eol ls) allocated sp q eot = cuts (length eol) 0 ls @ replicate n 0"by blast
  then show ?thesis using table_line [of _ eol "[]" ls _ k] assms(4) by simp
qed

theorem split_lines_reads_back_witness:
  "GetLineString (bytes_of ''+CPMS: \"SM\"'' @ [13, 10] @ bytes_of ''OK'' @ [13, 10])
     (SplitLines (bytes_of ''+CPMS: \"SM\"'' @ [13, 10] @ bytes_of ''OK'' @ [13, 10]) 0 [13, 10] [34] True) 1
   = Some (bytes_of ''+CPMS: \"SM\"'')"
  using split_lines_reads_back [of "[13, 10]" "[13, 10]" "[34]" "[bytes_of ''+CPMS: \"SM\"'', bytes_of ''OK'']" 0 0 True]
  by (simp add: good_line_def)

text \<open>A line that begins with a quote is recorded from its closing quote on.\<close>

lemma quoted_line_is_cut:
  "GetLineString (bytes_of ''\"A B\"'' @ [13, 10]) (SplitLines (bytes_of ''\"A B\"'' @ [13, 10]) 0 [13, 10] [34] True) 1 = Some [34]"
  by code_simp

end
