(* ===== verification/AtReplies.thy ===== *)
theory AtReplies imports AtLines AtErrors AtProto begin

text \<open>
  What the AT phone module makes of an answer, \<^verbatim>\<open>ATGEN_DispatchMessage\<close> of \<^verbatim>\<open>phone/at/atgen.c\<close> and the
  reply functions that only look at the outcome. \<open>Lines\<close> is the table of the cut points with its unused
  cells, so its length is \<^verbatim>\<open>Lines.allocated\<close>.
\<close>

subsection \<open>The outcome of an answer\<close>

text \<open>The count of the lines; the table has a zero behind them.\<close>

function count_lines :: "nat list \<Rightarrow> nat \<Rightarrow> nat" where
  "count_lines numbers i =
     (if i * 2 + 1 < length numbers \<and> numbers ! (i * 2 + 1) \<noteq> 0 then count_lines numbers (i + 1) else i)"
  by pat_completeness auto
termination
  by (relation "measure (\<lambda>(numbers, i). length numbers - i)") auto

declare count_lines.simps [simp del]

definition ATGEN_PrintReplyLines :: "nat list \<Rightarrow> nat" where
  "ATGEN_PrintReplyLines numbers = count_lines numbers 0"

text \<open>
  A command that is echoed twice. The move of \<^verbatim>\<open>(allocated - 2) * sizeof(int)\<close> bytes takes half as many
  cells, as they are of type \<^verbatim>\<open>size_t\<close>, of eight bytes.
\<close>

definition forget_first_line :: "nat list \<Rightarrow> nat list" where
  "forget_first_line numbers =
     (let k = (length numbers - 2) * 4 div 8 in take k (drop 2 numbers) @ drop k numbers)"

definition echoed_twice :: "byte list \<Rightarrow> nat list \<Rightarrow> nat \<Rightarrow> bool option" where
  "echoed_twice buffer numbers i =
     (if i < 2 then Some False
      else case (GetLineString buffer numbers 1, GetLineString buffer numbers 2) of
        (Some line1, Some line2) \<Rightarrow> Some (take 2 (cstr line1) = bytes_of ''AT'' \<and> cstr line1 = cstr line2)
      | _ \<Rightarrow> None)"

text \<open>The last line that is not empty, or the empty text.\<close>

fun status_line :: "byte list \<Rightarrow> nat list \<Rightarrow> nat \<Rightarrow> byte list" where
  "status_line buffer numbers 0 = []"
| "status_line buffer numbers (Suc i) =
     (case GetLineString buffer numbers (Suc i) of
        Some line \<Rightarrow> if cstr line \<noteq> [] then cstr line else status_line buffer numbers i
      | None \<Rightarrow> status_line buffer numbers i)"

definition reply_state :: "bool \<Rightarrow> byte list \<Rightarrow> GSM_AT_Reply_State" where
  "reply_state cpin_no_ok line =
     (let s0 = AT_Reply_Unknown;
          s1 = (if line = bytes_of ''OK'' then AT_Reply_OK else s0);
          s2 = (if starts (bytes_of ''+CPIN:'') line \<and> cpin_no_ok then AT_Reply_OK else s1);
          s3 = (if line = bytes_of ''> '' \<or> line = bytes_of ''>'' then AT_Reply_SMSEdit else s2);
          s4 = (if line = bytes_of ''CONNECT'' then AT_Reply_Connect else s3);
          s5 = (if line = bytes_of ''ERROR'' then AT_Reply_Error else s4);
          s6 = (if line = bytes_of ''NO CARRIER'' then AT_Reply_Error else s5);
          s7 = (if starts (bytes_of ''+CME ERROR:'') line then AT_Reply_CMEError else s6);
          s8 = (if starts (bytes_of ''+CMS ERROR:'') line then AT_Reply_CMSError else s7);
          s9 = (if starts (bytes_of ''COMMAND NOT SUPPORT'') line then AT_Reply_Error else s8)
      in if starts (bytes_of ''MODEM ERROR:'') line then AT_Reply_Error else s9)"

text \<open>
  Up to the call of \<^verbatim>\<open>GSM_DispatchMessage\<close>: the state of the module, or the failure of an allocation.
\<close>

definition ATGEN_DispatchMessage :: "bool \<Rightarrow> byte list \<Rightarrow> GSM_Phone_ATGENData \<Rightarrow> GSM_Error + GSM_Phone_ATGENData" where
  "ATGEN_DispatchMessage cpin_no_ok buffer priv =
     (let numbers = SplitLines buffer (length (Lines priv)) [13, 10] [34] True;
          i = ATGEN_PrintReplyLines numbers
      in case echoed_twice buffer numbers i of
           None \<Rightarrow> Inl ERR_MOREMEMORY
         | Some twice \<Rightarrow>
             let numbers' = (if twice then forget_first_line numbers else numbers);
                 i' = (if twice then i - 1 else i);
                 line = status_line buffer numbers' i';
                 priv' = priv\<lparr>Lines := numbers', ReplyState := reply_state cpin_no_ok line,
                              ErrorText := None, ErrorCode := -1, ErrorCodeValid := False\<rparr>
             in Inr (if ReplyState priv' = AT_Reply_CMEError \<or> ReplyState priv' = AT_Reply_CMSError
                     then ATGEN_ParseError priv' (drop 11 line) else priv'))"

subsection \<open>Reply functions that look at the outcome\<close>

definition ATGEN_HandleError :: "GSM_Phone_ATGENData \<Rightarrow> GSM_Error" where
  "ATGEN_HandleError priv = ATGEN_ErrorResult priv"

definition ATGEN_HandleCMEError :: "GSM_Phone_ATGENData \<Rightarrow> GSM_Error" where
  "ATGEN_HandleCMEError priv = ATGEN_HandleError priv"

definition ATGEN_HandleCMSError :: "GSM_Phone_ATGENData \<Rightarrow> GSM_Error" where
  "ATGEN_HandleCMSError priv = ATGEN_HandleError priv"

definition ATGEN_GenericReply :: "GSM_Phone_ATGENData \<Rightarrow> GSM_Error" where
  "ATGEN_GenericReply priv =
     (case ReplyState priv of
        AT_Reply_OK \<Rightarrow> ERR_NONE
      | AT_Reply_Connect \<Rightarrow> ERR_NONE
      | AT_Reply_Error \<Rightarrow> ERR_UNKNOWN
      | AT_Reply_CMSError \<Rightarrow> ATGEN_HandleCMSError priv
      | AT_Reply_CMEError \<Rightarrow> ATGEN_HandleCMEError priv
      | _ \<Rightarrow> ERR_UNKNOWNRESPONSE)"

definition ATGEN_ReplyVerifyEcho :: "byte list \<Rightarrow> GSM_Phone_ATGENData \<Rightarrow> GSM_Error option" where
  "ATGEN_ReplyVerifyEcho buffer priv =
     (let error = ATGEN_GenericReply priv in
      if error \<noteq> ERR_NONE then Some error
      else case GetLineString buffer (Lines priv) 1 of
        None \<Rightarrow> None
      | Some line \<Rightarrow> Some (if cstr line = bytes_of ''OK'' then ERR_NOECHO else error))"

subsection \<open>Answers of whole lines\<close>

definition at_line_ok :: "byte list \<Rightarrow> bool" where
  "at_line_ok l \<longleftrightarrow> good_line [13, 10] [34] l \<and> 0 \<notin> set l"

lemma cuts_end_pos: "k < length ls \<Longrightarrow> \<forall>l \<in> set ls. l \<noteq> [] \<Longrightarrow> cuts e i ls ! (2 * k + 1) \<noteq> 0"
  using cuts_nth [of k ls e i] by (metis add_is_0 length_0_conv nth_mem)

lemma count_lines_table:
  assumes "numbers = cuts e i0 ls @ 0 # 0 # rest" "\<forall>l \<in> set ls. l \<noteq> []" "i \<le> length ls"
  shows "count_lines numbers i = length ls"
  using assms(3)
proof (induction "length ls - i" arbitrary: i)
  case 0
  then have "i = length ls" by simp
  then show ?case using assms(1) by (subst count_lines.simps) (simp add: nth_append)
next
  case (Suc n)
  then have "i < length ls" by simp
  then have "numbers ! (i * 2 + 1) \<noteq> 0" "i * 2 + 1 < length numbers"
    using cuts_end_pos [of i ls e i0] assms(1,2) by (simp_all add: nth_append mult.commute)
  moreover have "count_lines numbers (i + 1) = length ls" by (rule Suc.hyps) (use Suc in auto)
  ultimately show ?case by (subst count_lines.simps) simp
qed

lemma status_line_last:
  assumes "numbers = cuts (length eol') (length before) ls @ rest" "ls \<noteq> []" "last ls \<noteq> []" "0 \<notin> set (last ls)"
  shows "status_line (before @ joined eol' ls) numbers (length ls) = last ls"
proof -
  obtain k where k: "length ls = Suc k" using assms(2) by (cases ls) auto
  have "GetLineString (before @ joined eol' ls) numbers (Suc k) = Some (last ls)"
    using table_line [OF assms(1), of k] k assms(2) by (simp add: last_conv_nth)
  then show ?thesis using assms(3,4) by (simp add: k cstr_id)
qed


text \<open>The second echo of a command is not a line of the answer.\<close>

definition after_echo :: "byte list list \<Rightarrow> byte list list" where
  "after_echo ls = (if 2 \<le> length ls \<and> ls ! 0 = ls ! 1 \<and> take 2 (ls ! 0) = bytes_of ''AT'' then tl ls else ls)"

lemma forget_first_table:
  assumes "numbers = cuts e 0 (l # ls) @ replicate n 0" "20 dvd 2 * length (l # ls) + n" "length ls \<le> 3" "2 \<le> n"
  shows "\<exists>rest. forget_first_line numbers = cuts e (length l + e) ls @ 0 # 0 # rest"
proof -
  define k where "k = (length numbers - 2) * 4 div 8"
  have "20 dvd length numbers" "length numbers \<noteq> 0" using assms(1,2) by simp_all
  then have "20 \<le> length numbers" by (simp add: dvd_imp_le)
  then have k: "9 \<le> k" "k \<le> length numbers - 2" by (simp_all add: k_def)
  define m where "m = k - 2 * length ls"
  have m: "k = 2 * length ls + (m - 2 + 2)" "m \<le> n" using k assms(1,3) by (simp_all add: m_def)
  have "drop 2 numbers = cuts e (length l + e) ls @ replicate n 0" by (simp add: assms(1))
  then have "take k (drop 2 numbers) = cuts e (length l + e) ls @ replicate m 0"
    using m(2) k assms(3) by (simp add: m_def min_absorb1)
  moreover have "m = Suc (Suc (m - 2))" using k assms(3) by (simp add: m_def)
  ultimately have "take k (drop 2 numbers) = cuts e (length l + e) ls @ 0 # 0 # replicate (m - 2) 0"
    by (metis replicate_Suc)
  then show ?thesis by (auto simp: forget_first_line_def Let_def k_def [symmetric])
qed

lemma echoed_twice_lines:
  assumes "numbers = cuts (length eol') 0 ls @ rest" "\<forall>l \<in> set ls. 0 \<notin> set l"
  shows "echoed_twice (joined eol' ls) numbers (length ls) = Some (after_echo ls \<noteq> ls)"
proof (cases "2 \<le> length ls")
  case True
  then obtain a b r where ls: "ls = a # b # r" by (cases ls; cases "tl ls") auto
  have "GetLineString ([] @ joined eol' ls) numbers (0 + 1) = Some a" "GetLineString ([] @ joined eol' ls) numbers (1 + 1) = Some b"
    using table_line [of numbers eol' "[]" ls rest 0] table_line [of numbers eol' "[]" ls rest 1] assms(1) by (simp_all add: ls)
  moreover have "cstr a = a" "cstr b = b" using assms(2) by (simp_all add: ls cstr_id)
  ultimately show ?thesis by (auto simp: echoed_twice_def after_echo_def ls numeral_2_eq_2)
qed (simp add: echoed_twice_def after_echo_def)

lemma parse_error_keeps: "Lines (ATGEN_ParseError priv t) = Lines priv" "ReplyState (ATGEN_ParseError priv t) = ReplyState priv"
  "Manufacturer (ATGEN_ParseError priv t) = Manufacturer priv"
  by (simp_all add: ATGEN_ParseError_def Let_def split: option.splits prod.splits)

definition at_lines_of :: "byte list \<Rightarrow> GSM_Phone_ATGENData \<Rightarrow> byte list list \<Rightarrow> bool" where
  "at_lines_of buffer priv ls \<longleftrightarrow> ATGEN_PrintReplyLines (Lines priv) = length ls
     \<and> (\<forall>k < length ls. GetLineString buffer (Lines priv) (k + 1) = Some (ls ! k))"

lemma at_dispatch_lines:
  assumes ls: "\<forall>l \<in> set ls. at_line_ok l" "ls \<noteq> []" "20 dvd length (Lines priv)" "after_echo ls \<noteq> ls \<Longrightarrow> length ls \<le> 4"
  shows "\<exists>numbers. at_lines_of (joined eol ls) (priv\<lparr>Lines := numbers\<rparr>) (after_echo ls)
    \<and> ATGEN_DispatchMessage cpin (joined eol ls) priv =
      (let priv' = priv\<lparr>Lines := numbers, ReplyState := reply_state cpin (last ls), ErrorText := None, ErrorCode := -1, ErrorCodeValid := False\<rparr> in
       Inr (if ReplyState priv' = AT_Reply_CMEError \<or> ReplyState priv' = AT_Reply_CMSError then ATGEN_ParseError priv' (drop 11 (last ls)) else priv'))"
proof -
  have good: "\<forall>l \<in> set ls. good_line [13, 10] [34] l" "\<forall>l \<in> set ls. 0 \<notin> set l" "\<forall>l \<in> set ls. l \<noteq> []"
    using ls(1) by (auto simp: at_line_ok_def good_line_def)
  have "\<exists>n \<ge> 2. SplitLines (joined eol ls) (length (Lines priv)) [13, 10] [34] True = cuts (length eol) 0 ls @ replicate n 0
    \<and> (20 dvd length (Lines priv) \<longrightarrow> 20 dvd 2 * length ls + n)"
    by (rule split_lines_table) (use good ls(2) in auto)
  then obtain n where n: "2 \<le> n" "SplitLines (joined eol ls) (length (Lines priv)) [13, 10] [34] True = cuts (length eol) 0 ls @ replicate n 0"
    "20 dvd 2 * length ls + n" using ls(3) by blast
  define numbers where "numbers = cuts (length eol) 0 ls @ replicate n 0"
  obtain r where r: "replicate n (0::nat) = 0 # 0 # r" using n(1) by (cases n; cases "n - 1") auto
  have split_n: "SplitLines (joined eol ls) (length (Lines priv)) [13, 10] [34] True = numbers" using n(2) by (simp add: numbers_def)
  have count: "ATGEN_PrintReplyLines numbers = length ls" unfolding ATGEN_PrintReplyLines_def
    by (rule count_lines_table) (use good r in \<open>simp_all add: numbers_def\<close>)
  have twice: "echoed_twice (joined eol ls) numbers (length ls) = Some (after_echo ls \<noteq> ls)"
    by (rule echoed_twice_lines) (use good in \<open>simp_all add: numbers_def\<close>)
  have last: "last ls \<noteq> []" "0 \<notin> set (last ls)" using good(2,3) ls(2) last_in_set by blast+
  show ?thesis
  proof (cases "after_echo ls = ls")
    case True
    have "at_lines_of (joined eol ls) (priv\<lparr>Lines := numbers\<rparr>) (after_echo ls)"
      using table_line [of numbers eol "[]" ls] count by (simp add: at_lines_of_def True numbers_def)
    moreover have "status_line ([] @ joined eol ls) numbers (length ls) = last ls"
      by (rule status_line_last) (use last ls(2) in \<open>simp_all add: numbers_def\<close>)
    ultimately show ?thesis using twice
      by (intro exI [of _ numbers]) (simp add: ATGEN_DispatchMessage_def split_n count True Let_def)
  next
    case False
    then have len: "length ls \<le> 4" by (rule ls(4))
    have "2 \<le> length ls \<and> ls ! 0 = ls ! 1 \<and> take 2 (ls ! 0) = bytes_of ''AT''"
      using False if_not_P [of "2 \<le> length ls \<and> ls ! 0 = ls ! 1 \<and> take 2 (ls ! 0) = bytes_of ''AT''" "tl ls" ls] unfolding after_echo_def by blast
    then have echo: "after_echo ls = tl ls" "2 \<le> length ls" unfolding after_echo_def by (metis (full_types))+
    then obtain l ls' where l: "ls = l # ls'" "ls' \<noteq> []" by (cases ls; cases "tl ls") auto
    have "\<exists>rest. forget_first_line numbers = cuts (length eol) (length l + length eol) ls' @ 0 # 0 # rest"
      by (rule forget_first_table) (use n(1,3) len in \<open>simp_all add: numbers_def l\<close>)
    then obtain rest where rest: "forget_first_line numbers = cuts (length eol) (length (l @ eol)) ls' @ 0 # 0 # rest" by auto
    have len': "length ls - Suc 0 = length ls'" by (simp add: l)
    have split: "joined eol ls = (l @ eol) @ joined eol ls'" by (simp add: l)
    have "ATGEN_PrintReplyLines (forget_first_line numbers) = length ls'" unfolding ATGEN_PrintReplyLines_def
      by (rule count_lines_table [OF rest]) (use good l in auto)
    then have "at_lines_of (joined eol ls) (priv\<lparr>Lines := forget_first_line numbers\<rparr>) (after_echo ls)"
      unfolding at_lines_of_def split using table_line [OF rest] echo(1) l(1) by simp
    moreover have "status_line (joined eol ls) (forget_first_line numbers) (length ls') = last ls"
      unfolding split using status_line_last [OF rest] last l by simp
    ultimately show ?thesis using twice False
      by (intro exI [of _ "forget_first_line numbers"]) (simp add: ATGEN_DispatchMessage_def split_n count Let_def len')
  qed
qed


subsection \<open>Answers are understood\<close>

definition infos :: "at_item list \<Rightarrow> byte list list" where
  "infos items = concat (map (\<lambda>i. case i of Info l \<Rightarrow> [l] | _ \<Rightarrow> []) items)"

lemma kept_lines: "concat (map kept items) @ status @ eol = joined eol (infos items @ [status])"
proof -
  have "concat (map kept items) = joined eol (infos items)"
    by (induction items) (auto simp: infos_def split: at_item.splits)
  then show ?thesis by simp
qed

text \<open>
  What the final line means: \<open>OK\<close>, a numbered error of a standard table, or a plain error.
\<close>

inductive outcome :: "byte list \<Rightarrow> GSM_Error \<Rightarrow> bool" where
  outcome_ok: "outcome (bytes_of ''OK'') ERR_NONE"
| outcome_error: "outcome (bytes_of ''ERROR'') ERR_UNKNOWN"
| outcome_cme: "(c, t, e) \<in> set standard_cme \<Longrightarrow> outcome (bytes_of ''+CME ERROR: '' @ decimal_int c) e"
| outcome_cms: "(c, t, e) \<in> set standard_cms \<Longrightarrow> outcome (bytes_of ''+CMS ERROR: '' @ decimal_int c) e"

lemma reply_state_simps:
  "reply_state cpin (bytes_of ''OK'') = AT_Reply_OK" "reply_state cpin (bytes_of ''ERROR'') = AT_Reply_Error"
  "reply_state cpin (bytes_of ''+CME ERROR: '' @ r) = AT_Reply_CMEError" "reply_state cpin (bytes_of ''+CMS ERROR: '' @ r) = AT_Reply_CMSError"
  by (simp_all add: reply_state_def starts_def Let_def)

lemma numbered_error:
  assumes "Manufacturer priv \<notin> fst ` set vendors" "(c, t, e) \<in> set (standard_table priv)"
  shows "ATGEN_ErrorResult (ATGEN_ParseError priv (32 # decimal_int c)) = e"
proof -
  have lookup: "lookup_code priv = find_code (standard_table priv)"
    by (simp add: fun_eq_iff lookup_code_def no_vendor_table [OF assms(1)] find_code_def)
  have code: "find_code (standard_table priv) c = Some (c, t, e)" using assms(2) standard_codes by simp
  have "(c, t, e) \<in> set (standard_cme @ standard_cms)" using assms(2) standard_table_in [of priv] by auto
  then have "- (2 ^ 31) \<le> c \<and> c < 2 ^ 31" using standard_codes_ascend(3) unfolding list_all_iff by blast
  then have "ATGEN_ParseError priv ([32] @ decimal_int c @ []) = priv\<lparr>ErrorCode := c, ErrorCodeValid := True, ErrorText := Some t\<rparr>"
    using number_parsed [of "[32]" "[]" c priv] by (simp add: lookup code blank_around_def isspace_def)
  then show ?thesis by (simp add: ATGEN_ErrorResult_def lookup code)
qed

text \<open>
  Claim C23. Of an answer, each line can be read by its number, a command
  that is echoed twice but for its first echo, the final line decides the state of the reply, and a code is kept
  only of an error line. The lines are not empty, do not begin with a quote and have an even number of quotes (a
  line that begins with one is cut, \<open>quoted_line_is_cut\<close>), and of a command that is echoed twice the answer has at most
  four lines with both echoes and the final line (of a longer one the lines are mixed up, \<open>long_answer_lost\<close>).
\<close>

theorem at_reply_lines:
  assumes "\<forall>l \<in> set ls. at_line_ok l" "ls \<noteq> []" "20 dvd length (Lines priv)" "after_echo ls \<noteq> ls \<Longrightarrow> length ls \<le> 4"
  shows "\<exists>priv'. ATGEN_DispatchMessage cpin (joined eol ls) priv = Inr priv' \<and> at_lines_of (joined eol ls) priv' (after_echo ls)
    \<and> ReplyState priv' = reply_state cpin (last ls)
    \<and> (ErrorCodeValid priv' \<longrightarrow> reply_state cpin (last ls) \<in> {AT_Reply_CMEError, AT_Reply_CMSError})"
proof -
  from at_dispatch_lines [OF assms(1-3)] assms(4) obtain numbers where
    n: "at_lines_of (joined eol ls) (priv\<lparr>Lines := numbers\<rparr>) (after_echo ls)" and d: "ATGEN_DispatchMessage cpin (joined eol ls) priv =
      (let priv' = priv\<lparr>Lines := numbers, ReplyState := reply_state cpin (last ls), ErrorText := None, ErrorCode := -1, ErrorCodeValid := False\<rparr> in
       Inr (if ReplyState priv' = AT_Reply_CMEError \<or> ReplyState priv' = AT_Reply_CMSError then ATGEN_ParseError priv' (drop 11 (last ls)) else priv'))"
    by blast
  show ?thesis using n unfolding d Let_def
    by (auto simp: at_lines_of_def parse_error_keeps)
qed

theorem at_reply_lines_witness:
  "\<exists>priv'. ATGEN_DispatchMessage False (joined eol [bytes_of ''AT+CSQ'', bytes_of ''AT+CSQ'', bytes_of ''+CSQ: 20'', bytes_of ''OK'']) at_priv = Inr priv'
    \<and> ReplyState priv' = AT_Reply_OK
    \<and> GetLineString (joined eol [bytes_of ''AT+CSQ'', bytes_of ''AT+CSQ'', bytes_of ''+CSQ: 20'', bytes_of ''OK'']) (Lines priv') 2 = Some (bytes_of ''+CSQ: 20'')"
proof -
  let ?ls = "[bytes_of ''AT+CSQ'', bytes_of ''AT+CSQ'', bytes_of ''+CSQ: 20'', bytes_of ''OK'']"
  have "\<forall>l \<in> set ?ls. at_line_ok l" by (simp add: at_line_ok_def good_line_def)
  moreover have after: "after_echo ?ls = tl ?ls" by (simp add: after_echo_def)
  ultimately obtain priv' where p: "ATGEN_DispatchMessage False (joined eol ?ls) at_priv = Inr priv'"
    "at_lines_of (joined eol ?ls) priv' (after_echo ?ls)" "ReplyState priv' = reply_state False (last ?ls)"
    using at_reply_lines [of ?ls at_priv False] by (auto simp: at_priv_def simp del: joined_simps)
  from p(2) have "GetLineString (joined eol ?ls) (Lines priv') (1 + 1) = Some (tl ?ls ! 1)"
    unfolding at_lines_of_def after by (elim conjE allE [of _ 1]) simp
  with p(1,3) show ?thesis
    by (intro exI [of _ priv']) (simp add: reply_state_simps [simplified] one_add_one numeral_2_eq_2 del: joined_simps)
qed



text \<open>Of a longer answer to a command that was echoed twice, the lines are mixed up, and it is not understood.\<close>

lemma long_answer_lost:
  "map_sum id ReplyState (ATGEN_DispatchMessage False
     (joined eol (map bytes_of [''AT+GMM'', ''AT+GMM'', ''a'', ''b'', ''c'', ''OK''])) at_priv) = Inr AT_Reply_Unknown"
  by code_simp

end
