(* ===== verification/AtMemory.thy ===== *)
theory AtMemory imports AtParse AtReplies SmsDecode begin

text \<open>
  The memories for messages of an AT phone, \<^verbatim>\<open>phone/at/at-sms.c\<close>: which there are, which one is selected, how
  full they are, and how a location of the library names a cell of one. A step gives the state, or
  an error with the state it left, or an access out of range.
\<close>

subsection \<open>Data\<close>

type_synonym GSM_MemoryType = int

definition MEM_ME :: GSM_MemoryType where "MEM_ME = 1"
definition MEM_SM :: GSM_MemoryType where "MEM_SM = 2"
definition MEM_MT :: GSM_MemoryType where "MEM_MT = 7"
definition MEM_SR :: GSM_MemoryType where "MEM_SR = 12"

definition memory_names :: "(GSM_MemoryType \<times> byte list) list" where
  "memory_names = [(1, bytes_of ''ME''), (2, bytes_of ''SM''), (3, bytes_of ''ON''), (4, bytes_of ''DC''),
     (5, bytes_of ''RC''), (6, bytes_of ''MC''), (7, bytes_of ''MT''), (8, bytes_of ''FD''), (9, bytes_of ''VM''),
     (10, bytes_of ''SL''), (11, bytes_of ''QD''), (12, bytes_of ''SR'')]"

definition GSM_MemoryTypeToString :: "GSM_MemoryType \<Rightarrow> byte list" where
  "GSM_MemoryTypeToString x = (case map_of memory_names x of Some n \<Rightarrow> n | None \<Rightarrow> bytes_of ''XX'')"

definition GSM_StringToMemoryType :: "byte list \<Rightarrow> GSM_MemoryType" where
  "GSM_StringToMemoryType s = (case find (\<lambda>(x, n). n = s) memory_names of Some (x, n) \<Rightarrow> x | None \<Rightarrow> 0)"

text \<open>\<open>AT_UNTESTED\<close> and \<open>SMS_AT_UNSET\<close> are the zeros of structures that were just cleared.\<close>

datatype GSM_AT_Feature = AT_UNTESTED | AT_AVAILABLE | AT_NOTAVAILABLE

datatype GSM_AT_SMS_Modes = SMS_AT_UNSET | SMS_AT_PDU | SMS_AT_TXT

datatype GSM_Feature =
    F_SMS_LOCATION_0 | F_SMSME900 | F_SMS_SM | F_SMS_ME | F_SMS_SR | F_SMS_NO_SR | F_SMS_NO_ME | F_SMS_NO_SM
  | F_READ_SMSTEXTMODE | F_USE_SMSTEXTMODE | F_DISABLE_CMGL | F_BROKEN_CMGL | F_CPIN_NO_OK | F_SMS_UTF8_ENCODED

record GSM_SMSMemoryStatus =
  SIMUnRead :: int
  SIMUsed :: int
  SIMSize :: int
  TemplatesUsed :: int
  PhoneUnRead :: int
  PhoneUsed :: int
  PhoneSize :: int

record GSM_AT_SMS_Cache =
  Cache_Location :: int
  Cache_State :: int
  Cache_PDU :: "byte list"

text \<open>
  The state of the module for messages; \<open>Core\<close> is its part that reads answers, and \<open>Link\<close> the state of the
  phone at the other end. \<open>Got\<close> is the message of the caller, \<^verbatim>\<open>sms->SMS[0]\<close>, and \<open>SMSCache\<close> the cells in use
  of the cache, if there is one: their count is \<^verbatim>\<open>SMSCount\<close>. The status asked for is \<^verbatim>\<open>LastSMSStatus\<close>.
\<close>

record 'p at_sms =
  Link :: 'p
  Core :: GSM_Phone_ATGENData
  EncodedCommands :: bool
  NumFolders :: int
  LastSMSStatus :: GSM_SMSMemoryStatus
  LastSMSRead :: int
  SIMSaveSMS :: GSM_AT_Feature
  PhoneSaveSMS :: GSM_AT_Feature
  SRSaveSMS :: GSM_AT_Feature
  PhoneSMSMemory :: GSM_AT_Feature
  SIMSMSMemory :: GSM_AT_Feature
  SRSMSMemory :: GSM_AT_Feature
  MotorolaSMS :: bool
  SMSMemory :: GSM_MemoryType
  SMSMemoryWrite :: bool
  SMSMode :: GSM_AT_SMS_Modes
  SMSTextDetails :: bool
  SMSCache :: "GSM_AT_SMS_Cache list option"
  SMSLocationFirst :: int
  SMSLocationLast :: int
  SMSLocationPos :: int
  SMSLocationTarget :: int
  SMSLocationMemory :: GSM_MemoryType
  SMSLocationLegacy :: bool
  SMSReadFolder :: int
  CPMSReceiveMemory :: bool
  CPMSReceiveMemories :: "bool list"
  Got :: GSM_SMSMessage
  Got_Number :: int

type_synonym ('p, 'a) at_result = "(GSM_Error \<times> 'p at_sms, 'a) stage"
type_synonym 'p at_step = "'p at_sms \<Rightarrow> ('p, 'p at_sms) at_result"

text \<open>
  What the module finds at the other end: the answer to a command, as the protocol delivers it, or the
  error the wait for it ended with, the change of mode before it that Motorola phones need included; and the change to the normal character set.
\<close>

record 'p at_phone =
  Ask :: "'p \<Rightarrow> byte list \<Rightarrow> (GSM_Error + byte list) \<times> 'p"
  SetCharsetNormal :: "'p \<Rightarrow> GSM_Error \<times> 'p"
  Features :: "GSM_Feature set"
  Texts :: at_coding
  Loc :: c_locale

abbreviation GSM_IsPhoneFeatureAvailable :: "'p at_phone \<Rightarrow> GSM_Feature \<Rightarrow> bool" where
  "GSM_IsPhoneFeatureAvailable ph f \<equiv> f \<in> Features ph"

subsection \<open>Steps\<close>

fun handle :: "('f \<Rightarrow> ('g, 'b) stage) \<Rightarrow> ('a \<Rightarrow> ('g, 'b) stage) \<Rightarrow> ('f, 'a) stage \<Rightarrow> ('g, 'b) stage" where
  "handle f g OobRead = OobRead"
| "handle f g OobWrite = OobWrite"
| "handle f g (Fail x) = f x"
| "handle f g (Go a) = g a"

definition returned :: "GSM_Error \<Rightarrow> 'p at_step" where
  "returned e s = (if e = ERR_NONE then Go s else Fail (e, s))"

text \<open>A step whose error is ignored.\<close>

definition ignoring :: "('p, 'p at_sms) at_result \<Rightarrow> ('p at_sms \<Rightarrow> ('p, 'a) at_result) \<Rightarrow> ('p, 'a) at_result" where
  "ignoring r k = handle (\<lambda>(e, s). k s) k r"

definition command :: "string \<Rightarrow> byte list" where "command c = bytes_of c @ [13]"

text \<open>The exchange of a command with its answer, which the reply function takes apart.\<close>

definition ATGEN_WaitFor :: "'p at_phone \<Rightarrow> byte list \<Rightarrow> (byte list \<Rightarrow> 'p at_step) \<Rightarrow> 'p at_step" where
  "ATGEN_WaitFor ph cmd reply s =
     (case Ask ph (Link s) cmd of
        (Inl e, l) \<Rightarrow> Fail (e, s\<lparr>Link := l\<rparr>)
      | (Inr msg, l) \<Rightarrow>
          (case ATGEN_DispatchMessage (GSM_IsPhoneFeatureAvailable ph F_CPIN_NO_OK) msg (Core s) of
             Inl e \<Rightarrow> Fail (e, s\<lparr>Link := l\<rparr>)
           | Inr core \<Rightarrow> reply msg (s\<lparr>Link := l, Core := core\<rparr>)))"

definition generic_reply :: "byte list \<Rightarrow> 'p at_step" where
  "generic_reply msg s = returned (ATGEN_GenericReply (Core s)) s"

definition set_charset_normal :: "'p at_phone \<Rightarrow> 'p at_step" where
  "set_charset_normal ph s = (case SetCharsetNormal ph (Link s) of (e, l) \<Rightarrow> returned e (s\<lparr>Link := l\<rparr>))"

definition encoded_commands :: "'p at_phone \<Rightarrow> 'p at_step" where
  "encoded_commands ph s = (if EncodedCommands s then set_charset_normal ph s else Go s)"

text \<open>A line of the answer; a missing one is a null pointer the code reads from.\<close>

definition reply_line :: "byte list \<Rightarrow> 'p at_sms \<Rightarrow> nat \<Rightarrow> (byte list \<Rightarrow> ('f, 'a) stage) \<Rightarrow> ('f, 'a) stage" where
  "reply_line msg s i k = (case GetLineString msg (Lines (Core s)) i of None \<Rightarrow> OobRead | Some line \<Rightarrow> k (cstr line))"

subsection \<open>The memories of the phone\<close>

definition ATGEN_IsMemoryAvailable :: "'p at_sms \<Rightarrow> GSM_MemoryType \<Rightarrow> bool" where
  "ATGEN_IsMemoryAvailable s type \<longleftrightarrow>
     (type = MEM_ME \<and> PhoneSMSMemory s = AT_AVAILABLE) \<or>
     (type = MEM_SM \<and> SIMSMSMemory s = AT_AVAILABLE) \<or>
     (type = MEM_MT \<and> (PhoneSMSMemory s = AT_AVAILABLE \<or> SIMSMSMemory s = AT_AVAILABLE)) \<or>
     (type = MEM_SR \<and> SRSMSMemory s = AT_AVAILABLE)"

definition ATGEN_IsMemoryWriteable :: "'p at_sms \<Rightarrow> GSM_MemoryType \<Rightarrow> bool" where
  "ATGEN_IsMemoryWriteable s type \<longleftrightarrow>
     (type = MEM_ME \<and> PhoneSaveSMS s = AT_AVAILABLE) \<or>
     (type = MEM_SM \<and> SIMSaveSMS s = AT_AVAILABLE) \<or>
     (type = MEM_MT \<and> (PhoneSaveSMS s = AT_AVAILABLE \<or> SIMSaveSMS s = AT_AVAILABLE)) \<or>
     (type = MEM_SR \<and> SRSaveSMS s = AT_AVAILABLE)"

text \<open>The rest of a text from the first occurrence of another on.\<close>

fun strstr_from :: "byte list \<Rightarrow> byte list \<Rightarrow> byte list option" where
  "strstr_from needle [] = (if needle = [] then Some [] else None)"
| "strstr_from needle (b # r) = (if starts needle (b # r) then Some (b # r) else strstr_from needle r)"

definition strstr :: "byte list \<Rightarrow> string \<Rightarrow> byte list option" where
  "strstr text needle = strstr_from (bytes_of needle) (cstr text)"

text \<open>A text before \<open>stop\<close>, which is the rest of the same text at a place behind.\<close>

definition listed :: "byte list \<Rightarrow> byte list \<Rightarrow> byte list \<Rightarrow> bool" where
  "listed name start stop = (case strstr_from ([34] @ name @ [34]) start of None \<Rightarrow> False | Some p \<Rightarrow> length stop < length p)"

definition feature :: "bool \<Rightarrow> GSM_AT_Feature" where
  "feature b = (if b then AT_AVAILABLE else AT_NOTAVAILABLE)"

text \<open>Where the list of the memories that can be written starts, in either form.\<close>

definition second_list :: "byte list \<Rightarrow> byte list option" where
  "second_list buffer =
     (let (wide, narrow) = (if strchr 40 (cstr buffer) = None then (''\", \"'', ''\",\"'') else (''), ('', ''),(''))
      in case strstr buffer wide of Some p \<Rightarrow> Some p | None \<Rightarrow> strstr buffer narrow)"

definition saving_memories :: "byte list \<Rightarrow> 'p at_sms \<Rightarrow> 'p at_sms" where
  "saving_memories pos_start s =
     (let pos_end = dropWhile (\<lambda>b. b \<noteq> 41) (tl pos_start);
          s1 = (if listed (bytes_of ''SM'') pos_start pos_end then s\<lparr>SIMSaveSMS := AT_AVAILABLE\<rparr> else s);
          s2 = (if listed (bytes_of ''ME'') pos_start pos_end then s1\<lparr>PhoneSaveSMS := AT_AVAILABLE\<rparr> else s1);
          s3 = (if listed (bytes_of ''SR'') pos_start pos_end then s2\<lparr>SRSaveSMS := AT_AVAILABLE\<rparr> else s2)
      in case strchr 40 pos_end of
           None \<Rightarrow> s3
         | Some receive_start \<Rightarrow>
             (case strchr 41 receive_start of
                None \<Rightarrow> s3
              | Some receive_end \<Rightarrow>
                  s3\<lparr>CPMSReceiveMemory := True,
                     CPMSReceiveMemories := False # map (\<lambda>m. listed (GSM_MemoryTypeToString m) receive_start receive_end) [1..12]\<rparr>))"

definition reading_memories :: "byte list \<Rightarrow> 'p at_sms \<Rightarrow> 'p at_sms" where
  "reading_memories buffer s =
     (let s1 = s\<lparr>SIMSMSMemory := feature (strstr buffer ''\"SM\"'' \<noteq> None), SRSMSMemory := feature (strstr buffer ''\"SR\"'' \<noteq> None),
                 PhoneSMSMemory := feature (strstr buffer ''\"ME\"'' \<noteq> None)\<rparr>
      in if strstr buffer ''\"ME\"'' = None \<and> strstr buffer ''\"MT\"'' \<noteq> None \<and> strstr buffer ''\"OM\"'' \<noteq> None
         then s1\<lparr>PhoneSMSMemory := AT_AVAILABLE, PhoneSaveSMS := AT_AVAILABLE, MotorolaSMS := True\<rparr> else s1)"

definition ATGEN_ReplyGetSMSMemories :: "byte list \<Rightarrow> 'p at_step" where
  "ATGEN_ReplyGetSMSMemories msg s0 =
     (case ReplyState (Core s0) of
        AT_Reply_OK \<Rightarrow>
          (let s = s0\<lparr>PhoneSaveSMS := AT_NOTAVAILABLE, SIMSaveSMS := AT_NOTAVAILABLE, SRSaveSMS := AT_NOTAVAILABLE,
                      CPMSReceiveMemory := False, CPMSReceiveMemories := replicate 13 False\<rparr>
           in reply_line msg s 2 (\<lambda>line2. reply_line msg s (if line2 = [] then 3 else 2) (\<lambda>line.
                if line = bytes_of ''+CPMS: '' \<and> Manufacturer (Core s) = AT_Samsung
                then Go (s\<lparr>PhoneSMSMemory := AT_AVAILABLE, SIMSMSMemory := AT_AVAILABLE,
                           PhoneSaveSMS := AT_AVAILABLE, SIMSaveSMS := AT_AVAILABLE\<rparr>)
                else Go (reading_memories msg
                       (case second_list msg of Some pos_start \<Rightarrow> saving_memories pos_start s | None \<Rightarrow> s)))))
      | AT_Reply_Error \<Rightarrow> Fail (ERR_NOTSUPPORTED, s0)
      | AT_Reply_CMSError \<Rightarrow> returned (ATGEN_HandleCMSError (Core s0)) s0
      | AT_Reply_CMEError \<Rightarrow> returned (ATGEN_HandleCMEError (Core s0)) s0
      | _ \<Rightarrow> Fail (ERR_UNKNOWNRESPONSE, s0))"

definition forced_memories :: "'p at_phone \<Rightarrow> 'p at_sms \<Rightarrow> 'p at_sms" where
  "forced_memories ph s =
     (let s1 = (if F_SMS_SM \<in> Features ph then s\<lparr>SIMSaveSMS := AT_AVAILABLE, SIMSMSMemory := AT_AVAILABLE\<rparr> else s);
          s2 = (if F_SMS_ME \<in> Features ph then s1\<lparr>PhoneSMSMemory := AT_AVAILABLE, PhoneSaveSMS := AT_AVAILABLE\<rparr> else s1);
          s3 = (if F_SMS_SR \<in> Features ph then s2\<lparr>SRSMSMemory := AT_AVAILABLE\<rparr> else s2);
          s4 = (if F_SMS_NO_SR \<in> Features ph then s3\<lparr>SRSMSMemory := AT_NOTAVAILABLE\<rparr> else s3);
          s5 = (if F_SMS_NO_ME \<in> Features ph then s4\<lparr>PhoneSMSMemory := AT_NOTAVAILABLE, PhoneSaveSMS := AT_NOTAVAILABLE\<rparr> else s4);
          s6 = (if F_SMS_NO_SM \<in> Features ph then s5\<lparr>SIMSMSMemory := AT_NOTAVAILABLE, SIMSaveSMS := AT_NOTAVAILABLE\<rparr> else s5)
      in s6\<lparr>NumFolders := of_bool (ATGEN_IsMemoryAvailable s6 MEM_SM) + of_bool (ATGEN_IsMemoryAvailable s6 MEM_ME)\<rparr>)"

definition ATGEN_GetSMSMemories :: "'p at_phone \<Rightarrow> 'p at_step" where
  "ATGEN_GetSMSMemories ph s =
     andthen (ATGEN_WaitFor ph (command ''AT+CPMS=?'') ATGEN_ReplyGetSMSMemories s) (\<lambda>s. Go (forced_memories ph s))"


subsection \<open>Selecting a memory\<close>

definition quoted_name :: "byte list \<Rightarrow> byte list" where "quoted_name n = [34] @ n @ [34]"

definition ATGEN_BuildCPMSCommand :: "'p at_sms \<Rightarrow> byte list \<Rightarrow> bool \<Rightarrow> nat \<Rightarrow> byte list option" where
  "ATGEN_BuildCPMSCommand s memory_str writeable command_size =
     (let memory = GSM_StringToMemoryType memory_str;
          q = quoted_name memory_str;
          cmd = bytes_of ''AT+CPMS='' @
            (if writeable \<and> CPMSReceiveMemory s \<and> memory > 0 \<and> memory < MEM_INVALID \<and> CPMSReceiveMemories s ! nat memory
             then q @ [44] @ q @ [44] @ q
             else if writeable then q @ [44] @ q else q) @ [13]
      in if length cmd \<ge> command_size then None else Some cmd)"

text \<open>A command to select a memory was sent: \<open>m\<close> is selected when it was accepted.\<close>

definition selected :: "GSM_MemoryType \<Rightarrow> bool \<Rightarrow> 'p at_sms \<Rightarrow> 'p at_sms" where
  "selected m for_write s = s\<lparr>SMSMemory := m, SMSMemoryWrite := for_write\<rparr>"

definition select_sim :: "'p at_phone \<Rightarrow> bool \<Rightarrow> 'p at_step" where
  "select_sim ph for_write s =
     (if SMSMemory s = MEM_SM \<and> (SMSMemoryWrite s \<or> \<not> for_write) then Go s
      else if SIMSMSMemory s = AT_NOTAVAILABLE then Fail (ERR_NOTSUPPORTED, s)
      else case ATGEN_BuildCPMSCommand s (bytes_of ''SM'') for_write 50 of
        None \<Rightarrow> Fail (ERR_UNKNOWN, s)
      | Some cmd \<Rightarrow>
          handle (\<lambda>(e, s1).
              let s2 = (if SIMSMSMemory s1 = AT_UNTESTED then s1\<lparr>SIMSMSMemory := AT_AVAILABLE\<rparr> else s1)
              in Fail (if e = ERR_NOTSUPPORTED then ERR_SECURITYERROR else e, s2))
            (\<lambda>s1. Go (selected MEM_SM for_write s1)) (ATGEN_WaitFor ph cmd generic_reply s))"

definition phone_memory_command :: "bool \<Rightarrow> bool \<Rightarrow> 'p at_sms \<Rightarrow> byte list option" where
  "phone_memory_command for_write outbox s =
     (if MotorolaSMS s then
        (let cmd = command (if for_write then if outbox then ''AT+CPMS=\"MT\",\"OM\"'' else ''AT+CPMS=\"MT\",\"IM\"'' else ''AT+CPMS=\"MT\"'')
         in if length cmd \<ge> 50 then None else Some cmd)
      else ATGEN_BuildCPMSCommand s (bytes_of ''ME'') for_write 50)"

definition select_phone :: "'p at_phone \<Rightarrow> bool \<Rightarrow> bool \<Rightarrow> 'p at_step" where
  "select_phone ph for_write outbox s =
     (if SMSMemory s = MEM_ME \<and> (SMSMemoryWrite s \<or> \<not> for_write) then Go s
      else if PhoneSMSMemory s = AT_NOTAVAILABLE then Fail (ERR_NOTSUPPORTED, s)
      else case phone_memory_command for_write outbox s of
        None \<Rightarrow> Fail (ERR_UNKNOWN, s)
      | Some cmd \<Rightarrow>
          andthen (ATGEN_WaitFor ph cmd generic_reply s) (\<lambda>s1.
            Go (selected MEM_ME for_write
              (if PhoneSMSMemory s1 = AT_UNTESTED then s1\<lparr>PhoneSMSMemory := AT_AVAILABLE\<rparr> else s1))))"

definition ATGEN_SetSMSMemory :: "'p at_phone \<Rightarrow> bool \<Rightarrow> bool \<Rightarrow> bool \<Rightarrow> 'p at_step" where
  "ATGEN_SetSMSMemory ph SIM for_write outbox s =
     andthen (encoded_commands ph s) (\<lambda>s.
     ignoring (if SIM \<and> SIMSMSMemory s = AT_UNTESTED \<or> \<not> SIM \<and> PhoneSMSMemory s = AT_UNTESTED
               then ATGEN_GetSMSMemories ph s else Go s) (\<lambda>s.
       if for_write \<and> SIM \<and> SIMSaveSMS s = AT_NOTAVAILABLE then Fail (ERR_NOTSUPPORTED, s)
       else if for_write \<and> \<not> SIM \<and> PhoneSaveSMS s = AT_NOTAVAILABLE then Fail (ERR_NOTSUPPORTED, s)
       else if SIM then select_sim ph for_write s
       else select_phone ph for_write outbox s))"

definition ATGEN_SetRequestedSMSMemory :: "'p at_phone \<Rightarrow> GSM_MemoryType \<Rightarrow> bool \<Rightarrow> 'p at_step" where
  "ATGEN_SetRequestedSMSMemory ph memoryType writeable s =
     (if memoryType = 0 \<or> memoryType = MEM_INVALID then Fail (ERR_INVALID_OPERATION, s)
      else if \<not> ATGEN_IsMemoryAvailable s memoryType \<or> writeable \<and> \<not> ATGEN_IsMemoryWriteable s memoryType
      then Fail (ERR_MEMORY_NOT_AVAILABLE, s)
      else if SMSMemory s = memoryType \<and> SMSMemoryWrite s = writeable then Go s
      else case ATGEN_BuildCPMSCommand s (GSM_MemoryTypeToString memoryType) writeable 50 of
        None \<Rightarrow> Fail (ERR_UNKNOWN, s)
      | Some cmd \<Rightarrow>
          andthen (encoded_commands ph s) (\<lambda>s.
          andthen (ATGEN_WaitFor ph cmd generic_reply s) (\<lambda>s. Go (selected memoryType writeable s))))"

subsection \<open>The mode\<close>

definition ATGEN_SetSMSMode :: "'p at_phone \<Rightarrow> GSM_AT_SMS_Modes \<Rightarrow> 'p at_step" where
  "ATGEN_SetSMSMode ph mode s =
     (if mode = SMS_AT_PDU
      then andthen (ATGEN_WaitFor ph (command ''AT+CMGF=0'') generic_reply s) (\<lambda>s. Go (s\<lparr>SMSMode := SMS_AT_PDU\<rparr>))
      else andthen (ATGEN_WaitFor ph (command ''AT+CMGF=1'') generic_reply s) (\<lambda>s.
             handle (\<lambda>(e, s). Go s) (\<lambda>s. Go (s\<lparr>SMSTextDetails := True\<rparr>))
               (ATGEN_WaitFor ph (command ''AT+CSDH=1'') generic_reply (s\<lparr>SMSMode := SMS_AT_TXT\<rparr>))))"

definition ATGEN_GetSMSMode :: "'p at_phone \<Rightarrow> 'p at_step" where
  "ATGEN_GetSMSMode ph s =
     (if SMSMode s \<noteq> SMS_AT_UNSET then Go s
      else if F_USE_SMSTEXTMODE \<in> Features ph then ignoring (ATGEN_SetSMSMode ph SMS_AT_TXT s) Go
      else handle (\<lambda>(e, s). ignoring (ATGEN_SetSMSMode ph SMS_AT_TXT s) Go) Go (ATGEN_SetSMSMode ph SMS_AT_PDU s))"

subsection \<open>Locations\<close>

definition GSM_PHONE_MAXSMSINFOLDER :: int where "GSM_PHONE_MAXSMSINFOLDER = 100000"

definition c_div :: "int \<Rightarrow> int \<Rightarrow> int" where "c_div a b = sgn a * sgn b * (\<bar>a\<bar> div \<bar>b\<bar>)"

text \<open>The folder of the phone and the location in it, or the refusal.\<close>

definition at_location :: "GSM_Feature set \<Rightarrow> bool \<Rightarrow> GSM_SMSMessage \<Rightarrow> (byte \<times> int) option" where
  "at_location features both sms =
     (let maxfolder = (if both then 4 else 2);
          ifolderid = c_div (Location sms) GSM_PHONE_MAXSMSINFOLDER;
          place = (if Folder sms = 0
                   then if ifolderid + 1 > maxfolder then None
                        else Some (word_of_int (ifolderid + 1), Location sms - ifolderid * GSM_PHONE_MAXSMSINFOLDER)
                   else if Folder sms > 2 * maxfolder then None
                        else Some (if Folder sms \<le> 2 then 1 else 2, Location sms))
      in map_option (\<lambda>(folderid, location). (folderid, if F_SMS_LOCATION_0 \<in> features then location - 1 else location)) place)"

definition set_location_memory :: "'p at_phone \<Rightarrow> byte \<Rightarrow> bool \<Rightarrow> 'p at_step" where
  "set_location_memory ph folderid for_write s =
     (let sms = Got s in
      if Memory sms \<noteq> 0 \<and> Memory sms \<noteq> MEM_INVALID then ATGEN_SetRequestedSMSMemory ph (Memory sms) for_write s
      else if SIMSMSMemory s = AT_AVAILABLE \<and> folderid = 1
      then ATGEN_SetSMSMemory ph True for_write (even (Folder sms)) (s\<lparr>Got := sms\<lparr>Memory := MEM_SM\<rparr>\<rparr>)
      else ATGEN_SetSMSMemory ph False for_write (even (Folder sms)) (s\<lparr>Got := sms\<lparr>Memory := MEM_ME\<rparr>\<rparr>))"

definition ATGEN_GetSMSLocation :: "'p at_phone \<Rightarrow> bool \<Rightarrow> 'p at_sms \<Rightarrow> ('p, (byte \<times> int) \<times> 'p at_sms) at_result" where
  "ATGEN_GetSMSLocation ph for_write s =
     andthen (if PhoneSMSMemory s = AT_UNTESTED \<or> SIMSMSMemory s = AT_UNTESTED \<or> SRSMSMemory s = AT_UNTESTED
              then ATGEN_GetSMSMemories ph s else Go s) (\<lambda>s.
       if SIMSMSMemory s \<noteq> AT_AVAILABLE \<and> PhoneSMSMemory s \<noteq> AT_AVAILABLE then Fail (ERR_NOTSUPPORTED, s)
       else case at_location (Features ph) (SIMSMSMemory s = AT_AVAILABLE \<and> PhoneSMSMemory s = AT_AVAILABLE) (Got s) of
         None \<Rightarrow> Fail (ERR_NOTSUPPORTED, s)
       | Some (folderid, location) \<Rightarrow>
           andthen (set_location_memory ph folderid for_write s) (\<lambda>s. Go ((folderid, location), s)))"

definition flat_location :: "GSM_Feature set \<Rightarrow> byte \<Rightarrow> int \<Rightarrow> int" where
  "flat_location features folderid location =
     (let l = (uint folderid - 1) * GSM_PHONE_MAXSMSINFOLDER + location
      in if F_SMS_LOCATION_0 \<in> features then l + 1 else l)"

definition ATGEN_SetSMSLocation :: "GSM_Feature set \<Rightarrow> byte \<Rightarrow> int \<Rightarrow> GSM_SMSMessage \<Rightarrow> GSM_SMSMessage" where
  "ATGEN_SetSMSLocation features folderid location sms = sms\<lparr>Folder := 0, Location := flat_location features folderid location\<rparr>"

subsection \<open>How full the memories are\<close>

text \<open>The counters of an answer, in one of the forms phones give them, and the text \<open>buffer\<close> holds then.\<close>

definition counters :: "reply_value list \<Rightarrow> int \<times> int" where
  "counters vs = (case vs of [Num used, Num all] \<Rightarrow> (used, all) | [t, Num used, Num all] \<Rightarrow> (used, all) | _ \<Rightarrow> (0, 0))"

definition stored_name :: "reply_value list \<Rightarrow> byte list" where
  "stored_name vs = (case vs of Txt room us # _ \<Rightarrow> cstr (bytes_of_units us @ [0, 0]) | _ \<Rightarrow> [])"

definition parse_status :: "'p at_phone \<Rightarrow> byte list \<Rightarrow> (GSM_Error, byte list \<times> int \<times> int) stage" where
  "parse_status ph line =
     handle (\<lambda>_. handle (\<lambda>(e, vs).
           handle (\<lambda>(e', _). Fail e') (\<lambda>vs'. Go (stored_name vs, counters vs'))
             (ATGEN_ParseReply (Texts ph) (Loc ph) line (bytes_of ''+CPMS: @i, @i'') []))
         (\<lambda>vs. Go (stored_name vs, counters vs))
         (ATGEN_ParseReply (Texts ph) (Loc ph) line (bytes_of ''+CPMS: @s, @i, @i, @0'') [50]))
       (\<lambda>vs. Go ([], counters vs))
       (ATGEN_ParseReply (Texts ph) (Loc ph) line (bytes_of ''+CPMS: @i, @i, @0'') [])"

definition of_phone_memory :: "byte list \<Rightarrow> byte list \<Rightarrow> 'p at_sms \<Rightarrow> bool" where
  "of_phone_memory msg buffer s \<longleftrightarrow>
     buffer = bytes_of ''ME'' \<or> buffer = bytes_of ''MT'' \<or> strstr msg ''CPMS=\"ME'' \<noteq> None
     \<or> strstr msg ''CPMS?'' \<noteq> None \<and> SMSMemory s = MEM_ME
     \<or> MotorolaSMS s \<and> strstr msg ''CPMS=\"MT'' \<noteq> None"

definition ATGEN_ReplyGetSMSStatus :: "'p at_phone \<Rightarrow> byte list \<Rightarrow> 'p at_step" where
  "ATGEN_ReplyGetSMSStatus ph msg s =
     (case ReplyState (Core s) of
        AT_Reply_OK \<Rightarrow> reply_line msg s 2 (\<lambda>line.
          handle (\<lambda>e. Fail (e, s)) (\<lambda>(buffer, used, all).
              Go (s\<lparr>LastSMSStatus := (if of_phone_memory msg buffer s
                      then (LastSMSStatus s)\<lparr>PhoneUsed := used, PhoneSize := all\<rparr>
                      else (LastSMSStatus s)\<lparr>SIMUsed := used, SIMSize := all\<rparr>)\<rparr>))
            (parse_status ph line))
      | AT_Reply_Error \<Rightarrow> Fail (if strstr msg ''SM'' \<noteq> None then ERR_SECURITYERROR else ERR_NOTSUPPORTED, s)
      | AT_Reply_CMSError \<Rightarrow> returned (ATGEN_HandleCMSError (Core s)) s
      | AT_Reply_CMEError \<Rightarrow> returned (ATGEN_HandleCMEError (Core s)) s
      | _ \<Rightarrow> Fail (ERR_UNKNOWNRESPONSE, s))"

definition ATGEN_QuerySMSMemoryStatus :: "'p at_phone \<Rightarrow> GSM_MemoryType \<Rightarrow> bool \<Rightarrow> 'p at_step" where
  "ATGEN_QuerySMSMemoryStatus ph memory writeable s =
     andthen (ATGEN_SetRequestedSMSMemory ph memory writeable s) (\<lambda>s.
       ATGEN_WaitFor ph (command ''AT+CPMS?'') (ATGEN_ReplyGetSMSStatus ph) s)"

text \<open>A command whose answer has the counters; \<open>w\<close> is what is noted of it, before or after the exchange.\<close>

definition sim_status :: "'p at_phone \<Rightarrow> 'p at_step" where
  "sim_status ph s =
     (let writeable = (SIMSaveSMS s = AT_AVAILABLE);
          noted = (\<lambda>s. s\<lparr>SMSMemoryWrite := writeable\<rparr>);
          r = (if CPMSReceiveMemory s then ATGEN_QuerySMSMemoryStatus ph MEM_SM writeable s
               else case ATGEN_BuildCPMSCommand s (bytes_of ''SM'') writeable 50 of
                 None \<Rightarrow> Fail (ERR_UNKNOWN, s)
               | Some cmd \<Rightarrow> handle (\<lambda>(e, s). Fail (e, noted s)) (\<lambda>s. Go (noted s))
                   (ATGEN_WaitFor ph cmd (ATGEN_ReplyGetSMSStatus ph) s))
      in andthen r (\<lambda>s. Go (s\<lparr>SMSMemory := MEM_SM\<rparr>)))"

definition phone_status :: "'p at_phone \<Rightarrow> 'p at_step" where
  "phone_status ph s =
     (let writeable = (PhoneSaveSMS s = AT_AVAILABLE);
          r = (if \<not> MotorolaSMS s \<and> CPMSReceiveMemory s then ATGEN_QuerySMSMemoryStatus ph MEM_ME writeable s
               else if writeable \<and> MotorolaSMS s
               then ATGEN_WaitFor ph (command ''AT+CPMS=\"MT\"'') (ATGEN_ReplyGetSMSStatus ph) (s\<lparr>SMSMemoryWrite := False\<rparr>)
               else case ATGEN_BuildCPMSCommand s (bytes_of ''ME'') writeable 50 of
                 None \<Rightarrow> Fail (ERR_UNKNOWN, s)
               | Some cmd \<Rightarrow> ATGEN_WaitFor ph cmd (ATGEN_ReplyGetSMSStatus ph) (s\<lparr>SMSMemoryWrite := writeable\<rparr>))
      in andthen r (\<lambda>s. Go (s\<lparr>SMSMemory := MEM_ME\<rparr>)))"

text \<open>A memory that is not known yet is tried.\<close>

definition try_memory :: "'p at_phone \<Rightarrow> bool \<Rightarrow> 'p at_step" where
  "try_memory ph SIM s =
     (if (if SIM then SIMSMSMemory s else PhoneSMSMemory s) = AT_UNTESTED
      then handle (\<lambda>(e, s). if e = ERR_NOTSUPPORTED then Go s else Fail (e, s)) Go (ATGEN_SetSMSMemory ph SIM False False s)
      else Go s)"

definition ATGEN_GetSMSStatus :: "'p at_phone \<Rightarrow> 'p at_step" where
  "ATGEN_GetSMSStatus ph s0 =
     (let s = s0\<lparr>LastSMSStatus := (LastSMSStatus s0)\<lparr>TemplatesUsed := 0, SIMUsed := 0, SIMUnRead := 0, SIMSize := 0\<rparr>\<rparr> in
      ignoring (if SIMSMSMemory s = AT_UNTESTED \<or> PhoneSMSMemory s = AT_UNTESTED then ATGEN_GetSMSMemories ph s else Go s) (\<lambda>s.
      andthen (try_memory ph False s) (\<lambda>s.
      andthen (try_memory ph True s) (\<lambda>s.
      andthen (if SIMSMSMemory s = AT_AVAILABLE then sim_status ph s else Go s) (\<lambda>s.
        let s1 = s\<lparr>LastSMSStatus := (LastSMSStatus s)\<lparr>PhoneUsed := 0, PhoneUnRead := 0, PhoneSize := 0\<rparr>\<rparr>
        in if PhoneSMSMemory s1 = AT_AVAILABLE then phone_status ph s1 else Go s1)))))"

end
