(* ===== verification/AtTextMode.thy ===== *)
theory AtTextMode imports AtMemory begin

text \<open>
  Messages in text mode: the part of \<^verbatim>\<open>ATGEN_ReplyGetSMSMessage\<close> (\<^verbatim>\<open>phone/at/at-sms.c\<close>) behind
  \<^verbatim>\<open>case SMS_AT_TXT\<close>. \<open>current\<close> is a place in the answer and \<open>buffer\<close> the array of 3000 octets the parameters are
  copied to; what a parameter leaves of an earlier one stays in it.
\<close>

subsection \<open>Texts\<close>

definition put_text_at :: "nat \<Rightarrow> byte list \<Rightarrow> GSM_SMSMessage \<Rightarrow> GSM_SMSMessage decoding" where
  "put_text_at n bs SMS =
     (if n + length bs \<le> length (SMS_Text SMS)
      then Go (SMS\<lparr>SMS_Text := take n (SMS_Text SMS) @ bs @ drop (n + length bs) (SMS_Text SMS)\<rparr>) else OobWrite)"

definition new_line :: "GSM_SMSMessage \<Rightarrow> GSM_SMSMessage decoding" where
  "new_line sms = andthen (put_text_at (2 * nat (SMS_Length sms)) [0, 10, 0, 0] sms) (\<lambda>sms. Go (sms\<lparr>SMS_Length := SMS_Length sms + 1\<rparr>))"

text \<open>The lines from number \<open>i\<close> on, up to the final one.\<close>

function read_text_lines :: "at_coding \<Rightarrow> byte list \<Rightarrow> nat list \<Rightarrow> nat \<Rightarrow> GSM_SMSMessage \<Rightarrow> GSM_SMSMessage decoding" where
  "read_text_lines env msg numbers i sms =
     (if length numbers \<le> i * 2 - 1 then OobRead
      else case GetLineString msg numbers i of
        None \<Rightarrow> OobRead
      | Some line \<Rightarrow>
          if cstr line = bytes_of ''OK'' then Go sms
          else andthen (if i > 3 then new_line sms else Go sms) (\<lambda>sms.
            case ATGEN_DecodeText env line (length (SMS_Text sms) - 2 * nat (SMS_Length sms)) True False of
              Inl e \<Rightarrow> Fail (e, sms)
            | Inr us \<Rightarrow> andthen (put_text_at (2 * nat (SMS_Length sms)) (ucs2z us) sms) (\<lambda>sms.
                read_text_lines env msg numbers (i + 1) (sms\<lparr>SMS_Length := SMS_Length sms + GetLineLength numbers i\<rparr>))))"
  by pat_completeness auto
termination
  by (relation "measure (\<lambda>(env, msg, numbers, i, sms). length numbers - i)") auto

declare read_text_lines.simps [simp del]

definition ATGEN_ReadSMSText :: "at_coding \<Rightarrow> byte list \<Rightarrow> nat list \<Rightarrow> GSM_SMSMessage \<Rightarrow> GSM_SMSMessage decoding" where
  "ATGEN_ReadSMSText env msg numbers sms = read_text_lines env msg numbers 3 sms"

subsection \<open>Parameters\<close>

text \<open>
  The next parameter, and the place behind its separator. An answer ends with a zero; behind it is
  nothing of the answer.
\<close>

definition parameter :: "byte list \<Rightarrow> nat \<Rightarrow> nat \<Rightarrow> byte list \<Rightarrow> (nat \<Rightarrow> byte list \<Rightarrow> ('f, 'a) stage) \<Rightarrow> ('f, 'a) stage" where
  "parameter msg current i buffer k =
     (if length msg < current then OobRead
      else let (n, out) = ATGEN_ExtractOneParameter (drop current msg) in
        if length buffer < i + length out + 1 then OobWrite
        else k (current + n) (take i buffer @ overlay (out @ [0]) (drop i buffer)))"

text \<open>A number without its quotes; a parameter shorter than these is taken for an endless one.\<close>

definition quoted_number :: "c_locale \<Rightarrow> byte list \<Rightarrow> (uchar list \<Rightarrow> ('f, 'a) stage) \<Rightarrow> ('f, 'a) stage" where
  "quoted_number loc buffer k =
     (let s = cstr buffer in
      if length s < 2 then OobWrite
      else let us = EncodeUnicode loc (take (length s - 2) (tl s)) in
        if length us > GSM_MAX_NUMBER_LENGTH then OobWrite else k us)"

definition atob :: "byte list \<Rightarrow> byte" where "atob buffer = word_of_int (atoi (cstr buffer))"

definition date_of :: "at_coding \<Rightarrow> c_locale \<Rightarrow> byte list \<Rightarrow> GSM_SMSMessage \<Rightarrow> (GSM_DateTime \<Rightarrow> 'a decoding) \<Rightarrow> 'a decoding" where
  "date_of env loc buffer sms k = handle (\<lambda>e. Fail (e, sms)) k (ATGEN_DecodeDateTime env loc (cstr buffer))"

subsection \<open>The kind of the message\<close>

definition stored_kinds :: "(string \<times> string \<times> GSM_SMS_State \<times> GSM_SMSMessageType) list" where
  "stored_kinds = [(''0'', ''REC UNREAD'', SMS_UnRead, SMS_Deliver), (''1'', ''REC READ'', SMS_Read, SMS_Deliver),
     (''2'', ''STO UNSENT'', SMS_UnSent, SMS_Submit), (''3'', ''STO SENT'', SMS_Sent, SMS_Submit)]"

definition text_kind :: "bool \<Rightarrow> byte list \<Rightarrow> GSM_SMSMessage \<Rightarrow> GSM_SMSMessage decoding" where
  "text_kind on_sim kind sms =
     (case find (\<lambda>(digit, name, _). kind = bytes_of digit \<or> kind = bytes_of name) stored_kinds of
        None \<Rightarrow> Fail (ERR_UNKNOWN, sms)
      | Some (_, _, st, pdu) \<Rightarrow>
          Go (sms\<lparr>State := st, PDU := pdu, InboxFolder := (pdu = SMS_Deliver),
                 Folder := (if pdu = SMS_Deliver then if on_sim then 1 else 3 else if on_sim then 2 else 4)\<rparr>))"

text \<open>The quotes around the first parameter are removed where it is.\<close>

definition strip_quotes :: "byte list \<Rightarrow> byte list" where
  "strip_quotes buffer =
     (let s = dropWhile (\<lambda>b. b = 34) (cstr buffer);
          moved = (if s = cstr buffer then buffer else overlay (s @ [0]) buffer)
      in moved[length (dropWhile (\<lambda>b. b = 34) (rev s)) := 0])"

subsection \<open>Layouts\<close>

definition PHONE_SMSDeliver :: GSM_SMSMessageLayout where
  "PHONE_SMSDeliver = \<lparr>Layout_Text = 35, Layout_Number = 16, Layout_SMSCNumber = 0, Layout_TPDCS = 14, Layout_DateTime = 28,
     Layout_SMSCTime = 255, Layout_TPStatus = 255, Layout_TPUDL = 15, Layout_TPVP = 255, Layout_firstbyte = 12,
     Layout_TPMR = 255, Layout_TPPID = 13\<rparr>"

definition PHONE_SMSStatusReport :: GSM_SMSMessageLayout where
  "PHONE_SMSStatusReport = \<lparr>Layout_Text = 255, Layout_Number = 15, Layout_SMSCNumber = 0, Layout_TPDCS = 255, Layout_DateTime = 27,
     Layout_SMSCTime = 34, Layout_TPStatus = 14, Layout_TPUDL = 255, Layout_TPVP = 255, Layout_firstbyte = 12,
     Layout_TPMR = 13, Layout_TPPID = 255\<rparr>"

subsection \<open>Delivery reports\<close>

definition text_report :: "at_coding \<Rightarrow> c_locale \<Rightarrow> byte list \<Rightarrow> nat \<Rightarrow> byte list \<Rightarrow> GSM_SMSMessage \<Rightarrow> GSM_SMSMessage decoding" where
  "text_report env loc msg c b sms =
     parameter msg c 0 b (\<lambda>c b. parameter msg c 0 b (\<lambda>c b.
     quoted_number loc b (\<lambda>number. let sms = sms\<lparr>SMS_Number := number\<rparr> in
     parameter msg c 0 b (\<lambda>c b. let firstbyte = atob b in
     parameter msg c 0 b (\<lambda>c b.
     date_of env loc b sms (\<lambda>t. let sms = sms\<lparr>DateTime := t\<rparr> in
     parameter msg c 0 b (\<lambda>c b. let i = length (cstr b) in
     parameter msg c (i + 1) (b[i := 44]) (\<lambda>c b.
     date_of env loc b sms (\<lambda>t. let sms = sms\<lparr>SMSCTime := t\<rparr> in
     parameter msg c 0 b (\<lambda>c b.
       let b = b[Layout_firstbyte PHONE_SMSDeliver := firstbyte, Layout_TPStatus PHONE_SMSStatusReport := atob b] in
       rd b (Layout_TPStatus PHONE_SMSStatusReport) (\<lambda>st.
       andthen (GSM_DecodeSMSStatusReportData loc st sms) (\<lambda>sms.
         Go (sms\<lparr>SMSC := (SMSC sms)\<lparr>SMSC_Number := []\<rparr>, PDU := SMS_Status_Report, ReplyViaSameSMSC := False\<rparr>)))))))))))))"

subsection \<open>Text and data\<close>

text \<open>Octets are stored up to the first pair of cells that is not hexadecimal; a zero follows when there is none.\<close>

fun hex_cells :: "nat \<Rightarrow> byte list \<Rightarrow> byte list" where
  "hex_cells 0 src = [0]"
| "hex_cells (Suc n) (a # b # src) = (case DecodeHexBin [a, b] of Some [v] \<Rightarrow> v # hex_cells n src | _ \<Rightarrow> [])"
| "hex_cells (Suc n) src = []"

text \<open>The text of a frame, from a buffer whose cells for it are filled.\<close>

definition frame_in_buffer :: "byte list \<Rightarrow> byte \<Rightarrow> byte \<Rightarrow> byte \<Rightarrow> byte list \<Rightarrow> GSM_SMSMessage \<Rightarrow> GSM_SMSMessage decoding" where
  "frame_in_buffer buffer firstbyte tpdcs tpudl cells sms =
     (if length buffer < Layout_Text PHONE_SMSDeliver + length cells then OobWrite
      else GSM_DecodeSMSFrameText
        ((take (Layout_Text PHONE_SMSDeliver) buffer @ overlay cells (drop (Layout_Text PHONE_SMSDeliver) buffer))
           [Layout_firstbyte PHONE_SMSDeliver := firstbyte, Layout_TPDCS PHONE_SMSDeliver := tpdcs, Layout_TPUDL PHONE_SMSDeliver := tpudl])
        PHONE_SMSDeliver sms)"

text \<open>With the length of data taken from the place of the next comma, when there is one.\<close>

definition text_data_upto_comma :: "byte list \<Rightarrow> nat \<Rightarrow> byte list \<Rightarrow> byte \<Rightarrow> byte \<Rightarrow> byte \<Rightarrow> GSM_SMSMessage \<Rightarrow> GSM_SMSMessage decoding" where
  "text_data_upto_comma msg c b firstbyte tpdcs tpudl sms =
     (let septets = (Coding sms = SMS_Coding_Default_No_Compression);
          expected = (if septets then (7 * unat tpudl + 7) div 8 * 2 else unat tpudl * 2);
          s = cstr (drop c msg);
          comma = (if strchr 44 s = None then expected else length (takeWhile (\<lambda>x. x \<noteq> 44) s));
          tpudl' = (if comma = expected then tpudl else word_of_nat (if septets then comma * 4 div 7 else comma div 2))
      in frame_in_buffer b firstbyte tpdcs tpudl' (hex_cells (comma div 2) (drop c msg)) sms)"

definition text_data :: "GSM_Feature set \<Rightarrow> byte list \<Rightarrow> nat \<Rightarrow> byte list \<Rightarrow> byte \<Rightarrow> byte \<Rightarrow> byte \<Rightarrow> GSM_SMSMessage \<Rightarrow> GSM_SMSMessage decoding" where
  "text_data features msg c b firstbyte tpdcs tpudl sms =
     (if length msg < c then OobRead
      else if firstbyte AND 0x40 = 0x40 \<and> F_SMS_UTF8_ENCODED \<in> features then text_data_upto_comma msg c b firstbyte tpdcs tpudl sms
      else if Coding sms = SMS_Coding_Unicode_No_Compression \<and> F_SMS_UTF8_ENCODED \<in> features
      then rds (msg @ [0]) c (unat tpudl) (\<lambda>octets.
             let us = snd (DecodeUTF8Checked octets)
             in frame_in_buffer b firstbyte tpdcs (word_of_nat (2 * UnicodeLength us)) (ucs2z us) sms)
      else frame_in_buffer b firstbyte tpdcs tpudl (hex_cells (unat tpudl) (drop c msg)) sms)"

text \<open>Four characters too many whose first and third are commas are cut off.\<close>

definition cut_tail :: "int \<Rightarrow> GSM_SMSMessage \<Rightarrow> GSM_SMSMessage decoding" where
  "cut_tail tpudl sms =
     (let n = UnicodeLength (units_of_bytes (SMS_Text sms)) in
      if SMS_Length sms \<noteq> tpudl + 4 then Go sms
      else if n < 4 then OobRead
      else rds (SMS_Text sms) (2 * (n - 4)) 6 (\<lambda>tail.
        if tail ! 0 = 0 \<and> tail ! 1 = 44 \<and> tail ! 4 = 0 \<and> tail ! 5 = 44
        then Go (sms\<lparr>SMS_Text := (SMS_Text sms)[2 * (n - 4) + 1 := 0], SMS_Length := tpudl\<rparr>) else Go sms))"

definition text_body :: "GSM_Feature set \<Rightarrow> at_coding \<Rightarrow> byte list \<Rightarrow> nat list \<Rightarrow> nat \<Rightarrow> byte list \<Rightarrow> byte \<Rightarrow> byte \<Rightarrow> byte
     \<Rightarrow> GSM_SMSMessage \<Rightarrow> GSM_SMSMessage decoding" where
  "text_body features env msg numbers c b firstbyte tpdcs tpudl sms =
     (if Coding sms = SMS_Coding_Default_No_Compression \<and> firstbyte AND 0x40 \<noteq> 0x40
      then handle (\<lambda>(e, sms). cut_tail (uint tpudl) sms) (cut_tail (uint tpudl))
             (ATGEN_ReadSMSText env msg numbers (sms\<lparr>UDH := (UDH sms)\<lparr>UDH_Type := UDH_NoUDH\<rparr>\<rparr>))
      else if Coding sms \<in> {SMS_Coding_Default_No_Compression, SMS_Coding_Unicode_No_Compression, SMS_Coding_8bit}
      then text_data features msg c b firstbyte tpdcs tpudl sms
      else Go sms)"

subsection \<open>Messages\<close>

text \<open>The date, for messages that were received: one that is empty is cleared and decoded all the same.\<close>

definition text_date :: "at_coding \<Rightarrow> c_locale \<Rightarrow> byte list \<Rightarrow> nat \<Rightarrow> byte list \<Rightarrow> GSM_SMSMessage
     \<Rightarrow> (nat \<Rightarrow> byte list \<Rightarrow> GSM_SMSMessage \<Rightarrow> 'a decoding) \<Rightarrow> 'a decoding" where
  "text_date env loc msg c b sms k =
     (if Folder sms = 1 \<or> Folder sms = 3 then
        parameter msg c 0 b (\<lambda>c b.
        andthen (if cstr b \<noteq> [] then date_of env loc b sms (\<lambda>t. Go (sms\<lparr>DateTime := t\<rparr>)) else Go (sms\<lparr>DateTime := zerodt\<rparr>)) (\<lambda>sms.
        date_of env loc b sms (\<lambda>t. k c b (sms\<lparr>DateTime := t\<rparr>))))
      else k c b sms)"

definition text_class :: "byte \<Rightarrow> int" where
  "text_class tpdcs = (if tpdcs AND 0xD0 = 0x10 \<or> tpdcs AND 0xF0 = 0xF0 then uint (tpdcs AND 3) else -1)"

definition text_message :: "GSM_Feature set \<Rightarrow> at_coding \<Rightarrow> c_locale \<Rightarrow> byte list \<Rightarrow> nat list \<Rightarrow> nat \<Rightarrow> byte list
     \<Rightarrow> GSM_SMSMessage \<Rightarrow> GSM_SMSMessage decoding" where
  "text_message features env loc msg numbers c b sms =
     quoted_number loc b (\<lambda>number. let sms = sms\<lparr>SMS_Number := number\<rparr> in
     parameter msg c 0 b (\<lambda>c b.
     text_date env loc msg c b sms (\<lambda>c b sms.
     parameter msg c 0 b (\<lambda>c b.
     parameter msg c 0 b (\<lambda>c b. let firstbyte = atob b; sms = sms\<lparr>ReplyViaSameSMSC := False\<rparr> in
     parameter msg c 0 b (\<lambda>c b. let tppid = atob b; sms = sms\<lparr>ReplaceMessage := 0\<rparr> in
     parameter msg c 0 b (\<lambda>c b. let tpdcs = atob b in
     parameter msg c 0 b (\<lambda>c b.
     (\<lambda>k. if cstr b \<noteq> [] \<and> hd (cstr b) \<noteq> 34 then parameter msg c 0 b k else k c b) (\<lambda>c b.
     quoted_number loc b (\<lambda>center.
       let sms = sms\<lparr>SMSC := (SMSC sms)\<lparr>SMSC_Number := center\<rparr>, ReplyViaSameSMSC := (firstbyte AND 128 = 128),
                     ReplaceMessage := (if 0x40 < tppid \<and> tppid < 0x48 then tppid - 0x40 else 0)\<rparr> in
     parameter msg c 0 b (\<lambda>c b.
     parameter msg c 0 b (\<lambda>c b. let tpudl = atob b in
       text_body features env msg numbers (c + 1) b firstbyte tpdcs tpudl
         (sms\<lparr>Coding := GSM_GetMessageCoding tpdcs, Class := text_class tpdcs\<rparr>)))))))))))))"

definition text_plain :: "at_coding \<Rightarrow> byte list \<Rightarrow> nat list \<Rightarrow> GSM_SMSMessage \<Rightarrow> GSM_SMSMessage decoding" where
  "text_plain env msg numbers sms =
     ATGEN_ReadSMSText env msg numbers
       (sms\<lparr>Class := 1, Coding := SMS_Coding_Default_No_Compression, UDH := (UDH sms)\<lparr>UDH_Type := UDH_NoUDH\<rparr>,
            SMS_Length := 0, SMSC := (SMSC sms)\<lparr>SMSC_Number := []\<rparr>, ReplyViaSameSMSC := False\<rparr>)"

text \<open>The whole case. \<open>details\<close> is \<^verbatim>\<open>SMSTextDetails\<close>, and \<open>on_sim\<close> whether the memory is that of the card.\<close>

definition read_text_mode :: "GSM_Feature set \<Rightarrow> at_coding \<Rightarrow> c_locale \<Rightarrow> bool \<Rightarrow> bool \<Rightarrow> byte list \<Rightarrow> nat list \<Rightarrow> byte list
     \<Rightarrow> GSM_SMSMessage \<Rightarrow> GSM_SMSMessage decoding" where
  "read_text_mode features env loc on_sim details msg numbers b sms0 =
     (let sms = GSM_SetDefaultReceivedSMSData sms0;
          behind = dropWhile (\<lambda>x. x \<noteq> 58) msg;
          c = length msg - length (dropWhile (\<lambda>x. x = 32) (tl behind))
      in if behind = [] then OobRead
         else parameter msg c 0 b (\<lambda>c b. let b = strip_quotes b in
           andthen (text_kind on_sim (cstr b) sms) (\<lambda>sms.
             if \<not> details then text_plain env msg numbers sms
             else parameter msg c 0 b (\<lambda>c b.
               if (Folder sms = 1 \<or> Folder sms = 3) \<and> cstr b \<noteq> [] \<and> hd (cstr b) \<noteq> 34
               then text_report env loc msg c b sms
               else text_message features env loc msg numbers c b sms))))"

end
