(* ===== verification/AtRead.thy ===== *)
theory AtRead imports AtTextMode begin

text \<open>
  Reading a message from an AT phone: \<^verbatim>\<open>ATGEN_DecodePDUMessage\<close>, \<^verbatim>\<open>ATGEN_ReplyGetSMSMessage\<close> and \<^verbatim>\<open>ATGEN_GetSMS\<close>
  of \<^verbatim>\<open>phone/at/at-sms.c\<close>.
\<close>

subsection \<open>A PDU\<close>

text \<open>Any number of \<^verbatim>\<open>,0\<close> at the end is taken off.\<close>

fun strip_comma_zero :: "byte list \<Rightarrow> byte list" where
  "strip_comma_zero (b # c # r) = (if b = 48 \<and> c = 44 then strip_comma_zero r else b # c # r)"
| "strip_comma_zero r = r"

definition pdu_state :: "int \<Rightarrow> GSM_SMS_State" where
  "pdu_state state = (if state = 0 then SMS_UnRead else if state = 1 then SMS_Read else if state = 2 then SMS_UnSent else SMS_Sent)"

definition pdu_folder :: "bool \<Rightarrow> GSM_SMSMessage \<Rightarrow> GSM_SMSMessage" where
  "pdu_folder on_sim sms =
     (case PDU sms of
        SMS_Deliver \<Rightarrow> sms\<lparr>State := (if State sms = SMS_Sent then SMS_Read else State sms),
                          Folder := (if on_sim then 1 else 3), InboxFolder := True\<rparr>
      | SMS_Submit \<Rightarrow> sms\<lparr>Folder := (if on_sim then 2 else 4), InboxFolder := False\<rparr>
      | SMS_Status_Report \<Rightarrow> sms\<lparr>Folder := 1, InboxFolder := True\<rparr>)"

definition full_memory_pdu :: "byte list" where
  "full_memory_pdu = bytes_of ''00'' @ replicate 348 70"

definition ATGEN_DecodePDUMessage :: "c_locale \<Rightarrow> bool \<Rightarrow> byte list \<Rightarrow> int \<Rightarrow> GSM_SMSMessage \<Rightarrow> GSM_SMSMessage decoding" where
  "ATGEN_DecodePDUMessage loc on_sim PDU0 state sms =
     (let pdu = cstr PDU0 in
      if pdu = full_memory_pdu then Fail (ERR_CORRUPTED, sms)
      else if pdu = bytes_of ''00'' then Fail (ERR_EMPTY, sms)
      else case DecodeHexBin (rev (strip_comma_zero (rev pdu))) of
        None \<Rightarrow> Fail (ERR_CORRUPTED, sms)
      | Some buffer \<Rightarrow>
          andthen (GSM_DecodePDUFrame loc (sms\<lparr>State := pdu_state state\<rparr>) buffer (length buffer) True) (\<lambda>(sms, parse_len).
            if parse_len \<noteq> length buffer
            then rd buffer parse_len (\<lambda>b.
                   if b = 0xff \<or> b = 0x89 \<or> PDU sms = SMS_Status_Report then Go (pdu_folder on_sim sms)
                   else Fail (ERR_UNKNOWN, sms))
            else Go (pdu_folder on_sim sms)))"

subsection \<open>The reply\<close>

definition last_number :: "reply_value list \<Rightarrow> int \<Rightarrow> int" where
  "last_number vs state = (case vs of Num n # _ \<Rightarrow> n | _ \<Rightarrow> state)"

text \<open>Formats are tried while the answer has another shape; a value that was stored on the way stays.\<close>

fun read_state :: "at_coding \<Rightarrow> c_locale \<Rightarrow> byte list \<Rightarrow> string list \<Rightarrow> int \<Rightarrow> (GSM_Error, int) stage" where
  "read_state env loc line [] state = Fail ERR_UNKNOWNRESPONSE"
| "read_state env loc line (f # fs) state =
     handle (\<lambda>(e, vs). if e = ERR_UNKNOWNRESPONSE then read_state env loc line fs (last_number vs state) else Fail e)
       (\<lambda>vs. Go (last_number vs state)) (ATGEN_ParseReply env loc line (bytes_of f) [])"

definition looks_like_text_mode :: "byte list \<Rightarrow> bool" where
  "looks_like_text_mode line =
     (case strstr line ''+CMGR:'' of None \<Rightarrow> False
      | Some p \<Rightarrow> (case dropWhile (\<lambda>b. b = 32) (drop 6 p) of [] \<Rightarrow> False | b # _ \<Rightarrow> b = 34))"

definition got :: "'p at_sms \<Rightarrow> GSM_SMSMessage decoding \<Rightarrow> ('p, 'p at_sms) at_result" where
  "got s r = handle (\<lambda>(e, sms). Fail (e, s\<lparr>Got := sms\<rparr>)) (\<lambda>sms. Go (s\<lparr>Got := sms\<rparr>)) r"

definition reply_text_mode :: "'p at_phone \<Rightarrow> byte list \<Rightarrow> byte list \<Rightarrow> 'p at_step" where
  "reply_text_mode ph msg buffer s =
     got s (read_text_mode (Features ph) (Texts ph) (Loc ph) (SMSMemory s = MEM_SM) (SMSTextDetails s) msg (Lines (Core s)) buffer (Got s))"

definition reply_pdu_mode :: "'p at_phone \<Rightarrow> byte list \<Rightarrow> 'p at_step" where
  "reply_pdu_mode ph msg s =
     (case CopyLineString msg (Lines (Core s)) 2 of
        None \<Rightarrow> OobWrite
      | Some line \<Rightarrow>
          if length line > 3000 then OobWrite
          else let buffer = overlay line (replicate 3000 0) in
            handle (\<lambda>e. if looks_like_text_mode buffer then reply_text_mode ph msg buffer s else Fail (e, s))
              (\<lambda>state. if cstr buffer = bytes_of ''+CMGR: 0,,0'' then Fail (ERR_EMPTY, s)
                 else reply_line msg s 3 (\<lambda>pdu. got s (ATGEN_DecodePDUMessage (Loc ph) (SMSMemory s = MEM_SM) pdu state (Got s))))
              (read_state (Texts ph) (Loc ph) buffer [''+CMGR: @i, @0'', ''+CMGR: ,@0'', ''+CMGR: @i'', ''+CMGR: ,,@i''] 0))"

definition ATGEN_ReplyGetSMSMessage :: "'p at_phone \<Rightarrow> byte list \<Rightarrow> 'p at_step" where
  "ATGEN_ReplyGetSMSMessage ph msg s0 =
     (case ReplyState (Core s0) of
        AT_Reply_OK \<Rightarrow>
          if Lines (Core s0) ! 4 = 0 then Fail (ERR_EMPTY, s0)
          else let s = s0\<lparr>Got_Number := 1, Got := (Got s0)\<lparr>SMS_Name := []\<rparr>\<rparr> in
            (case SMSMode s of
               SMS_AT_PDU \<Rightarrow> reply_pdu_mode ph msg s
             | SMS_AT_TXT \<Rightarrow> reply_text_mode ph msg (replicate 3000 0) s
             | SMS_AT_UNSET \<Rightarrow> Fail (ERR_BUG, s))
      | AT_Reply_CMSError \<Rightarrow>
          if ErrorCode (Core s0) = 320 \<or> ErrorCode (Core s0) = 500 then Fail (ERR_EMPTY, s0)
          else returned (ATGEN_HandleCMSError (Core s0)) s0
      | AT_Reply_CMEError \<Rightarrow> returned (ATGEN_HandleCMEError (Core s0)) s0
      | AT_Reply_Error \<Rightarrow> Fail (ERR_EMPTY, s0)
      | _ \<Rightarrow> Fail (ERR_UNKNOWNRESPONSE, s0))"

subsection \<open>Reading a message\<close>

definition read_command :: "int \<Rightarrow> byte list" where
  "read_command location = bytes_of ''AT+CMGR='' @ decimal_int location @ [13]"

text \<open>What is noted of a message that was read, also of one that is corrupted.\<close>

definition noted_message :: "GSM_Feature set \<Rightarrow> byte \<Rightarrow> int \<Rightarrow> 'p at_sms \<Rightarrow> 'p at_sms" where
  "noted_message features folderid location s =
     (let getfolder = Folder (Got s);
          sms = (ATGEN_SetSMSLocation features folderid location (Got s))\<lparr>Folder := getfolder\<rparr>
      in s\<lparr>Got := (if Memory sms \<noteq> MEM_SR then sms\<lparr>Memory := (if getfolder > 2 then MEM_ME else MEM_SM)\<rparr> else sms)\<rparr>)"

definition read_located :: "'p at_phone \<Rightarrow> byte \<Rightarrow> int \<Rightarrow> 'p at_step" where
  "read_located ph folderid location s =
     (let add = (if SMSMemory s = MEM_ME \<and> F_SMSME900 \<in> Features ph then 899 else 0);
          req = read_command (location + add)
      in if length req \<ge> 20 then OobWrite
         else andthen (if SMSMode s = SMS_AT_TXT then set_charset_normal ph s else Go s) (\<lambda>s.
           handle (\<lambda>(e, s). Fail (e, if e = ERR_CORRUPTED then noted_message (Features ph) folderid location s else s))
             (\<lambda>s. Go (noted_message (Features ph) folderid location s))
             (ATGEN_WaitFor ph req (ATGEN_ReplyGetSMSMessage ph) s)))"

definition restore_mode :: "'p at_phone \<Rightarrow> GSM_AT_SMS_Modes \<Rightarrow> ('p at_sms \<Rightarrow> ('p, 'p at_sms) at_result) \<Rightarrow> 'p at_step" where
  "restore_mode ph oldmode k s = ignoring (if oldmode \<noteq> SMSMode s then ATGEN_SetSMSMode ph oldmode s else Go s) k"

definition ATGEN_GetSMS :: "'p at_phone \<Rightarrow> 'p at_step" where
  "ATGEN_GetSMS ph s =
     andthen (ATGEN_GetSMSMode ph s) (\<lambda>s. let oldmode = SMSMode s in
     ignoring (if F_READ_SMSTEXTMODE \<in> Features ph then ATGEN_SetSMSMode ph SMS_AT_TXT s else Go s) (\<lambda>s.
     handle (\<lambda>(e, s). restore_mode ph oldmode (\<lambda>s. Fail (e, s)) s) (restore_mode ph oldmode Go)
       (andthen (ATGEN_GetSMSLocation ph False (s\<lparr>Got := GSM_SetDefaultReceivedSMSData (Got s)\<rparr>)) (\<lambda>((folderid, location), s).
         read_located ph folderid location s))))"

end
