(* ===== verification/AtScan.thy ===== *)
theory AtScan imports AtRead begin

text \<open>
  Reading all messages of an AT phone, one call after the other: \<^verbatim>\<open>ATGEN_GetNextSMS\<close> of
  \<^verbatim>\<open>phone/at/at-sms.c\<close>, with the listing of a memory, the range of its locations, and the search for
  messages without either.
\<close>

subsection \<open>The listing of a memory\<close>

definition cache_entry :: "GSM_Feature set \<Rightarrow> int \<Rightarrow> nat \<Rightarrow> int \<Rightarrow> GSM_AT_SMS_Cache" where
  "cache_entry features folder count cur =
     \<lparr>Cache_Location = flat_location features (word_of_int folder) (if F_BROKEN_CMGL \<in> features then int count else cur),
      Cache_State = -1, Cache_PDU = []\<rparr>"

definition first_number :: "reply_value list \<Rightarrow> int" where
  "first_number vs = (case vs of Num n # _ \<Rightarrow> n | _ \<Rightarrow> 0)"

definition second_number :: "reply_value list \<Rightarrow> int" where
  "second_number vs = (case vs of _ # Num n # _ \<Rightarrow> n | _ \<Rightarrow> -1)"

definition GSM_AT_MAXPDULEN :: nat where "GSM_AT_MAXPDULEN = 400"

text \<open>An entry with the line behind it; and whether that line has the start of another entry.\<close>

definition fill_entry :: "byte list \<Rightarrow> int \<Rightarrow> GSM_AT_SMS_Cache \<Rightarrow> GSM_AT_SMS_Cache \<times> bool" where
  "fill_entry str state entry =
     (if length str \<ge> GSM_AT_MAXPDULEN then (entry\<lparr>Cache_State := -1\<rparr>, False)
      else case strstr str ''+CMGL:'' of
        None \<Rightarrow> (entry\<lparr>Cache_State := state, Cache_PDU := str\<rparr>, False)
      | Some tmp \<Rightarrow> (entry\<lparr>Cache_State := state, Cache_PDU := take (length str - length tmp) str\<rparr>, True))"

function list_messages :: "GSM_Feature set \<Rightarrow> at_coding \<Rightarrow> c_locale \<Rightarrow> bool \<Rightarrow> int \<Rightarrow> byte list \<Rightarrow> nat list \<Rightarrow> nat
    \<Rightarrow> GSM_AT_SMS_Cache list \<Rightarrow> (GSM_Error \<times> GSM_AT_SMS_Cache list, GSM_AT_SMS_Cache list) stage" where
  "list_messages features env loc pdu_mode folder msg numbers line cache =
     (if length numbers \<le> line * 2 - 1 then OobRead
      else case GetLineString msg numbers line of
        None \<Rightarrow> OobRead
      | Some str0 \<Rightarrow>
          if cstr str0 = bytes_of ''OK'' then Go cache
          else case strstr str0 ''+CMGL:'' of
            None \<Rightarrow> list_messages features env loc pdu_mode folder msg numbers (line + 1) cache
          | Some str \<Rightarrow>
              handle (\<lambda>(e, _). Fail (e, cache)) (\<lambda>vs.
                  let entry = cache_entry features folder (length cache + 1) (first_number vs) in
                  if \<not> pdu_mode then list_messages features env loc pdu_mode folder msg numbers (line + 2) (cache @ [entry])
                  else andthen (handle (\<lambda>_. Go (-1)) (\<lambda>vs. Go (second_number vs))
                                 (ATGEN_ParseReply env loc str (bytes_of ''+CMGL: @i, @i, @0'') [])) (\<lambda>state.
                    if length numbers \<le> (line + 1) * 2 - 1 then OobRead
                    else case GetLineString msg numbers (line + 1) of
                      None \<Rightarrow> OobRead
                    | Some pdu \<Rightarrow>
                        let (entry, again) = fill_entry (cstr pdu) state entry in
                        list_messages features env loc pdu_mode folder msg numbers (if again then line + 1 else line + 2) (cache @ [entry])))
                (ATGEN_ParseReply env loc str (bytes_of ''+CMGL: @i, @0'') []))"
  by pat_completeness auto
termination
  by (relation "measure (\<lambda>(features, env, loc, pdu_mode, folder, msg, numbers, line, cache). length numbers - line)") auto

declare list_messages.simps [simp del]

definition listed_cache :: "GSM_AT_SMS_Cache list \<Rightarrow> 'p at_sms \<Rightarrow> 'p at_sms" where
  "listed_cache cache s = s\<lparr>SMSCache := (if cache = [] then None else Some cache)\<rparr>"

definition ATGEN_ReplyGetMessageList :: "'p at_phone \<Rightarrow> byte list \<Rightarrow> 'p at_step" where
  "ATGEN_ReplyGetMessageList ph msg s =
     (case ReplyState (Core s) of
        AT_Reply_OK \<Rightarrow>
          handle (\<lambda>(e, cache). Fail (e, listed_cache cache s)) (\<lambda>cache. Go (listed_cache cache s))
            (list_messages (Features ph) (Texts ph) (Loc ph) (SMSMode s = SMS_AT_PDU) (SMSReadFolder s) msg (Lines (Core s)) 2 [])
      | AT_Reply_Error \<Rightarrow> Fail (ERR_NOTSUPPORTED, s)
      | AT_Reply_CMSError \<Rightarrow>
          if ErrorCode (Core s) = 320 \<or> ErrorCode (Core s) = 500 then Fail (ERR_EMPTY, s)
          else returned (ATGEN_HandleCMSError (Core s)) s
      | AT_Reply_CMEError \<Rightarrow> returned (ATGEN_HandleCMEError (Core s)) s
      | _ \<Rightarrow> Fail (ERR_UNKNOWNRESPONSE, s))"

text \<open>The memory a listing is made of, and the messages in it according to its counter.\<close>

definition list_memory :: "'p at_phone \<Rightarrow> bool \<Rightarrow> 'p at_sms \<Rightarrow> ('p, int \<times> 'p at_sms) at_result" where
  "list_memory ph first s0 =
     (let s = s0\<lparr>SMSReadFolder := (if first then 1 else 2)\<rparr> in
      if first \<and> SIMSMSMemory s = AT_AVAILABLE
      then andthen (ATGEN_SetSMSMemory ph True False False s) (\<lambda>s. Go (SIMUsed (LastSMSStatus s), s))
      else if PhoneSMSMemory s = AT_AVAILABLE
      then andthen (ATGEN_SetSMSMemory ph False False False s) (\<lambda>s. Go (PhoneUsed (LastSMSStatus s), s))
      else Fail (ERR_NOTSUPPORTED, s))"

definition sms_count :: "'p at_sms \<Rightarrow> int" where
  "sms_count s = (case SMSCache s of None \<Rightarrow> 0 | Some cache \<Rightarrow> int (length cache))"

definition list_checked :: "'p at_phone \<Rightarrow> int \<Rightarrow> GSM_Error \<Rightarrow> 'p at_step" where
  "list_checked ph used e s0 =
     (let s = (if e = ERR_NONE \<and> SMSCache s0 = None then s0\<lparr>SMSCache := Some []\<rparr> else s0) in
      if used \<noteq> sms_count s \<and> (e = ERR_NONE \<or> e = ERR_EMPTY)
      then if sms_count s < used then Fail (ERR_UNKNOWNRESPONSE, s) else Go s
      else returned e s)"

definition ATGEN_GetSMSList :: "'p at_phone \<Rightarrow> bool \<Rightarrow> 'p at_step" where
  "ATGEN_GetSMSList ph first s =
     (if F_DISABLE_CMGL \<in> Features ph then Fail (ERR_NOTSUPPORTED, s)
      else andthen (ATGEN_GetSMSMode ph s) (\<lambda>s.
        andthen (ATGEN_GetSMSStatus ph s) (\<lambda>s.
        andthen (if Manufacturer (Core s) = AT_Huawei \<and> first \<and> SIMUsed (LastSMSStatus s) + PhoneUsed (LastSMSStatus s) = 0
                 then ATGEN_GetSMSStatus ph s else Go s) (\<lambda>s.
        andthen (list_memory ph first s) (\<lambda>(used, s).
          let reply = ATGEN_ReplyGetMessageList ph;
              ask = (if SMSMode s = SMS_AT_TXT then command ''AT+CMGL=\"ALL\"'' else command ''AT+CMGL=4'')
          in handle (\<lambda>(e, s).
                 if e = ERR_NOTSUPPORTED
                 then handle (\<lambda>(e, s). list_checked ph used e s) (list_checked ph used ERR_NONE)
                        (ATGEN_WaitFor ph (command ''AT+CMGL'') reply s)
                 else list_checked ph used e s)
               (list_checked ph used ERR_NONE) (ATGEN_WaitFor ph ask reply (s\<lparr>LastSMSRead := 0, SMSCache := None\<rparr>)))))))"

subsection \<open>The range of the locations\<close>

definition ATGEN_ResetSMSLocationRange :: "'p at_sms \<Rightarrow> 'p at_sms" where
  "ATGEN_ResetSMSLocationRange s = s\<lparr>SMSLocationFirst := 0, SMSLocationLast := -1, SMSLocationPos := 0,
     SMSLocationTarget := 0, SMSLocationMemory := MEM_INVALID, SMSLocationLegacy := False\<rparr>"

definition location_number :: "byte list \<Rightarrow> (int \<times> byte list) option" where
  "location_number s = (let (v, used, _) = strtol s in if used = 0 then None else Some (v, dropWhile isspace (drop used s)))"

text \<open>A location, or a first and a final one.\<close>

definition one_range :: "byte list \<Rightarrow> (int \<times> int \<times> byte list) option" where
  "one_range s =
     (case location_number s of
        None \<Rightarrow> None
      | Some (first, []) \<Rightarrow> Some (first, first, [])
      | Some (first, b # r) \<Rightarrow>
          if b = 45 then map_option (\<lambda>(final, r'). (first, final, r')) (location_number (dropWhile isspace r))
          else Some (first, first, b # r))"

definition joined_range :: "(int \<times> int) option \<Rightarrow> int \<Rightarrow> int \<Rightarrow> (int \<times> int) option" where
  "joined_range found first final =
     (case found of None \<Rightarrow> Some (first, final) | Some (f, l) \<Rightarrow> Some (if first < f then first else f, if final > l then final else l))"

lemma location_number_rest:
  assumes "location_number s = Some (v, r)"
  shows "length r \<le> length s" "s \<noteq> [] \<Longrightarrow> length r < length s"
proof -
  obtain used e where u: "strtol s = (v, used, e)" "used \<noteq> 0" "r = dropWhile isspace (drop used s)"
    using assms by (cases "strtol s") (auto simp: location_number_def split: if_splits)
  then have "length r \<le> length s - used" by (metis length_dropWhile_le length_drop)
  then show "length r \<le> length s" "s \<noteq> [] \<Longrightarrow> length r < length s" using u(2) by (cases s; simp)+
qed

lemma one_range_rest: "one_range s = Some (f, l, r) \<Longrightarrow> s \<noteq> [] \<Longrightarrow> length r < length s"
proof (cases "location_number s")
  case (Some p)
  moreover assume o: "one_range s = Some (f, l, r)" and s: "s \<noteq> []"
  moreover obtain v t where p: "p = (v, t)" by (cases p)
  ultimately have t: "length t < length s" using location_number_rest(2) by simp
  show ?thesis
  proof (cases "t \<noteq> [] \<and> hd t = 45")
    case True
    then obtain t' where t': "t = 45 # t'" by (cases t) auto
    then obtain w where "location_number (dropWhile isspace t') = Some (w, r)"
      using o Some p by (auto simp: one_range_def)
    then have "length r \<le> length t'" using location_number_rest(1) length_dropWhile_le le_trans by metis
    then show ?thesis using t t' by simp
  next
    case False
    then show ?thesis using o Some p t by (cases t) (auto simp: one_range_def)
  qed
qed (simp add: one_range_def)

lemma behind_comma: "one_range s = Some (f, l, r) \<Longrightarrow> s \<noteq> [] \<Longrightarrow> length (dropWhile isspace (tl r)) < length s"
  using one_range_rest [of s f l r] length_dropWhile_le [of isspace "tl r"] by auto

text \<open>What was found by the end of the list, or by the place where it is not one.\<close>

function parse_ranges :: "int \<Rightarrow> byte list \<Rightarrow> (int \<times> int) option \<Rightarrow> bool \<times> (int \<times> int) option" where
  "parse_ranges max_location s found =
     (if s = [] then (False, found)
      else if hd s = 41 then (found \<noteq> None, found)
      else case one_range s of
        None \<Rightarrow> (False, found)
      | Some (first, final, r) \<Rightarrow>
          if first < 0 \<or> final < first \<or> final \<ge> max_location then (False, found)
          else let found' = joined_range found first final in
            if r \<noteq> [] \<and> hd r = 44 then parse_ranges max_location (dropWhile isspace (tl r)) found'
            else if r \<noteq> [] \<and> hd r = 41 then (True, found')
            else (False, found'))"
  by pat_completeness auto
termination
  by (relation "measure (\<lambda>(m, s, found). length s)") (auto dest: behind_comma)

declare parse_ranges.simps [simp del]

definition ATGEN_ParseSMSLocationRange :: "'p at_phone \<Rightarrow> byte list \<Rightarrow> 'p at_step" where
  "ATGEN_ParseSMSLocationRange ph buffer s =
     (case Option.bind (strstr buffer ''+CMGD:'') (strchr 40) of
        None \<Rightarrow> Fail (ERR_UNKNOWNRESPONSE, s)
      | Some current \<Rightarrow>
          let max_location = (if F_SMS_LOCATION_0 \<in> Features ph then GSM_PHONE_MAXSMSINFOLDER - 1 else GSM_PHONE_MAXSMSINFOLDER);
              (ok, found) = parse_ranges max_location (dropWhile isspace (tl current)) None;
              s' = (case found of None \<Rightarrow> s | Some (f, l) \<Rightarrow> s\<lparr>SMSLocationFirst := f, SMSLocationLast := l\<rparr>)
          in if ok then Go (s'\<lparr>SMSLocationPos := SMSLocationFirst s'\<rparr>) else Fail (ERR_UNKNOWNRESPONSE, s'))"

function range_line :: "byte list \<Rightarrow> nat list \<Rightarrow> nat \<Rightarrow> ('f, byte list option) stage" where
  "range_line msg numbers i =
     (if length numbers \<le> i * 2 - 1 then OobRead
      else case GetLineString msg numbers i of
        None \<Rightarrow> OobRead
      | Some line \<Rightarrow>
          if cstr line = bytes_of ''OK'' then Go None
          else if strstr line ''+CMGD:'' \<noteq> None then Go (Some line)
          else range_line msg numbers (i + 1))"
  by pat_completeness auto
termination
  by (relation "measure (\<lambda>(msg, numbers, i). length numbers - i)") auto

declare range_line.simps [simp del]

definition ATGEN_ReplyGetSMSLocationRange :: "'p at_phone \<Rightarrow> byte list \<Rightarrow> 'p at_step" where
  "ATGEN_ReplyGetSMSLocationRange ph msg s =
     (case ReplyState (Core s) of
        AT_Reply_OK \<Rightarrow> andthen (range_line msg (Lines (Core s)) 2) (\<lambda>found.
          case found of None \<Rightarrow> Fail (ERR_UNKNOWNRESPONSE, s) | Some line \<Rightarrow> ATGEN_ParseSMSLocationRange ph (cstr line) s)
      | AT_Reply_Error \<Rightarrow> Fail (ERR_NOTSUPPORTED, s)
      | AT_Reply_CMSError \<Rightarrow>
          if ErrorCode (Core s) = 302 then Fail (ERR_NOTSUPPORTED, s) else returned (ATGEN_HandleCMSError (Core s)) s
      | AT_Reply_CMEError \<Rightarrow>
          if ErrorCode (Core s) = 3 then Fail (ERR_NOTSUPPORTED, s) else returned (ATGEN_HandleCMEError (Core s)) s
      | _ \<Rightarrow> Fail (ERR_UNKNOWNRESPONSE, s))"

definition ATGEN_CanUseLegacySMSLocationScan :: "GSM_Error \<Rightarrow> bool" where
  "ATGEN_CanUseLegacySMSLocationScan error \<longleftrightarrow>
     error \<in> {ERR_NOTSUPPORTED, ERR_UNKNOWNRESPONSE, ERR_INVALIDLOCATION, ERR_UNKNOWN}"

definition normalized_range :: "GSM_Feature set \<Rightarrow> GSM_MemoryType \<Rightarrow> 'p at_sms \<Rightarrow> 'p at_sms" where
  "normalized_range features memory s =
     (if memory = MEM_ME \<and> F_SMSME900 \<in> features \<and> SMSLocationFirst s \<ge> 900
      then s\<lparr>SMSLocationFirst := SMSLocationFirst s - 899, SMSLocationLast := SMSLocationLast s - 899,
             SMSLocationPos := SMSLocationFirst s - 899\<rparr>
      else s)"

definition ATGEN_GetSMSLocationRange :: "'p at_phone \<Rightarrow> GSM_MemoryType \<Rightarrow> 'p at_step" where
  "ATGEN_GetSMSLocationRange ph memory s0 =
     (let s = s0\<lparr>SMSLocationFirst := 0, SMSLocationLast := -1, SMSLocationPos := 0,
                 SMSLocationTarget := (if memory = MEM_SM then SIMUsed (LastSMSStatus s0) else PhoneUsed (LastSMSStatus s0)),
                 SMSLocationMemory := MEM_INVALID\<rparr>
      in andthen (ATGEN_SetSMSMemory ph (memory = MEM_SM) False False s) (\<lambda>s.
         andthen (ATGEN_WaitFor ph (command ''AT+CMGD=?'') (ATGEN_ReplyGetSMSLocationRange ph) s) (\<lambda>s.
           Go ((normalized_range (Features ph) memory s)\<lparr>SMSLocationMemory := memory\<rparr>))))"

definition ATGEN_GetSMSLocationFolder :: "'p at_sms \<Rightarrow> GSM_MemoryType \<Rightarrow> byte" where
  "ATGEN_GetSMSLocationFolder s memory = (if memory = MEM_ME \<and> SIMSMSMemory s = AT_AVAILABLE then 2 else 1)"

definition ATGEN_GetFirstSMSLocationMemory :: "'p at_sms \<Rightarrow> int \<Rightarrow> GSM_MemoryType" where
  "ATGEN_GetFirstSMSLocationMemory s location =
     (if SIMSMSMemory s = AT_AVAILABLE \<and> (PhoneSMSMemory s \<noteq> AT_AVAILABLE \<or> location < GSM_PHONE_MAXSMSINFOLDER)
      then MEM_SM else MEM_ME)"

subsection \<open>The next message in the range\<close>

text \<open>The locations left of the range, up to the next message: whether there is one.\<close>

fun scan_locations :: "'p at_phone \<Rightarrow> GSM_MemoryType \<Rightarrow> byte \<Rightarrow> int list \<Rightarrow> 'p at_sms \<Rightarrow> ('p, bool \<times> 'p at_sms) at_result" where
  "scan_locations ph memory folder [] s = Go (False, s)"
| "scan_locations ph memory folder (location # locations) s =
     (if LastSMSRead s \<ge> SMSLocationTarget s then Go (False, s)
      else handle (\<lambda>(e, s). if e = ERR_EMPTY \<or> e = ERR_INVALIDLOCATION then scan_locations ph memory folder locations s else Fail (e, s))
        (\<lambda>s. Go (True, s\<lparr>LastSMSRead := LastSMSRead s + 1\<rparr>))
        (ATGEN_GetSMS ph (s\<lparr>SMSLocationPos := location + 1, Got_Number := 1,
           Got := ATGEN_SetSMSLocation (Features ph) folder location ((Got s)\<lparr>Memory := memory\<rparr>)\<rparr>)))"

definition scan_memory :: "'p at_phone \<Rightarrow> 'p at_sms \<Rightarrow> ('p, bool \<times> 'p at_sms) at_result" where
  "scan_memory ph s =
     scan_locations ph (SMSLocationMemory s) (ATGEN_GetSMSLocationFolder s (SMSLocationMemory s)) [SMSLocationPos s..SMSLocationLast s] s"

definition open_range :: "'p at_phone \<Rightarrow> GSM_MemoryType \<Rightarrow> 'p at_step" where
  "open_range ph memory s =
     handle (\<lambda>(e, s). if ATGEN_CanUseLegacySMSLocationScan e then Fail (ERR_NOTSUPPORTED, s\<lparr>SMSLocationLegacy := True\<rparr>) else Fail (e, s))
       Go (ATGEN_GetSMSLocationRange ph memory s)"

text \<open>The loop runs once or twice: only the card is followed by another memory.\<close>

definition phone_location :: "'p at_sms \<Rightarrow> 'p at_sms" where
  "phone_location s = s\<lparr>LastSMSRead := 0, Got := (Got s)\<lparr>Location := GSM_PHONE_MAXSMSINFOLDER\<rparr>\<rparr>"

definition scan_ranges :: "'p at_phone \<Rightarrow> 'p at_step" where
  "scan_ranges ph s0 =
     andthen (scan_memory ph s0) (\<lambda>(found, s).
       if found then Go s
       else if SMSLocationMemory s0 = MEM_SM \<and> PhoneSMSMemory s = AT_AVAILABLE then
         let s = phone_location s in
         if PhoneUsed (LastSMSStatus s) = 0 then Fail (ERR_EMPTY, s)
         else andthen (open_range ph MEM_ME s) (\<lambda>s.
           andthen (scan_memory ph s) (\<lambda>(found, s). if found then Go s else Fail (ERR_EMPTY, s)))
       else Fail (ERR_EMPTY, s))"

definition ATGEN_GetNextSMSFromLocationRange :: "'p at_phone \<Rightarrow> 'p at_step" where
  "ATGEN_GetNextSMSFromLocationRange ph s0 =
     (if SMSLocationMemory s0 = MEM_INVALID then
        let first = ATGEN_GetFirstSMSLocationMemory s0 (Location (Got s0));
            skip = (first = MEM_SM \<and> SIMUsed (LastSMSStatus s0) = 0 \<and> PhoneSMSMemory s0 = AT_AVAILABLE);
            s = (if skip then phone_location s0 else s0);
            memory = (if skip then MEM_ME else first)
        in if memory = MEM_SM \<and> SIMUsed (LastSMSStatus s) = 0 \<or> memory = MEM_ME \<and> PhoneUsed (LastSMSStatus s) = 0
           then Fail (ERR_EMPTY, s)
           else andthen (open_range ph memory s) (scan_ranges ph)
      else scan_ranges ph s0)"

subsection \<open>The search without a range\<close>

text \<open>One location; the result tells whether a message was there.\<close>

definition legacy_step :: "'p at_phone \<Rightarrow> 'p at_sms \<Rightarrow> ('p, bool \<times> 'p at_sms) at_result" where
  "legacy_step ph s0 =
     (let location = Location (Got s0) + 1;
          s = s0\<lparr>Got := (Got s0)\<lparr>Location := location\<rparr>\<rparr>;
          status = LastSMSStatus s;
          usedsms = (if SIMSMSMemory s = AT_AVAILABLE then SIMUsed status else PhoneUsed status);
          read = (\<lambda>s. handle (\<lambda>(e, s). if e = ERR_EMPTY \<or> e = ERR_INVALIDLOCATION then Go (False, s) else Fail (e, s))
                    (\<lambda>s. Go (True, s\<lparr>LastSMSRead := LastSMSRead s + 1\<rparr>))
                    (ATGEN_GetSMS ph (s\<lparr>Got := (Got s)\<lparr>Folder := 0, Memory := MEM_INVALID\<rparr>\<rparr>)))
      in if location < GSM_PHONE_MAXSMSINFOLDER then
           if LastSMSRead s \<ge> usedsms then
             if PhoneSMSMemory s = AT_NOTAVAILABLE \<or> PhoneUsed status = 0 then Fail (ERR_EMPTY, s)
             else read (s\<lparr>LastSMSRead := 0, Got := (Got s)\<lparr>Location := GSM_PHONE_MAXSMSINFOLDER + 1\<rparr>\<rparr>)
           else read s
         else if PhoneSMSMemory s = AT_NOTAVAILABLE then Fail (ERR_EMPTY, s)
         else if LastSMSRead s \<ge> PhoneUsed status then Fail (ERR_EMPTY, s)
         else read s)"

partial_function (option) legacy_scan :: "'p at_phone \<Rightarrow> 'p at_sms \<Rightarrow> ('p, 'p at_sms) at_result option" where
  "legacy_scan ph s =
     (case legacy_step ph s of
        OobRead \<Rightarrow> Some OobRead
      | OobWrite \<Rightarrow> Some OobWrite
      | Fail x \<Rightarrow> Some (Fail x)
      | Go (found, s') \<Rightarrow> if found then Some (Go s') else legacy_scan ph s')"

subsection \<open>The next message\<close>

text \<open>The entry behind a location, or behind the closest one before it.\<close>

fun find_location :: "int \<Rightarrow> GSM_AT_SMS_Cache list \<Rightarrow> nat \<Rightarrow> (nat \<times> int) option \<Rightarrow> nat option" where
  "find_location location [] i closest = map_option fst closest"
| "find_location location (c # cache) i closest =
     (if Cache_Location c = location then Some (i + 1)
      else find_location location cache (i + 1)
        (if Cache_Location c < location
             \<and> (case closest of None \<Rightarrow> True | Some (_, l) \<Rightarrow> location - Cache_Location c < location - l)
         then Some (i + 1, Cache_Location c) else closest))"

definition read_cached :: "'p at_phone \<Rightarrow> GSM_AT_SMS_Cache list \<Rightarrow> nat \<Rightarrow> 'p at_step" where
  "read_cached ph cache found s0 =
     (let entry = cache ! found;
          s = s0\<lparr>Got_Number := 1, Got := (Got s0)\<lparr>Folder := 0, Memory := SMSMemory s0, Location := Cache_Location entry\<rparr>\<rparr>
      in if Cache_State entry = -1 then ATGEN_GetSMS ph s
         else handle (\<lambda>(e, s). if e \<noteq> ERR_CORRUPTED then Fail (e, s)
                  else ATGEN_GetSMS ph (s\<lparr>SMSCache := Some (cache[found := entry\<lparr>Cache_State := -1\<rparr>])\<rparr>))
                Go (got s (ATGEN_DecodePDUMessage (Loc ph) (SMSMemory s = MEM_SM) (Cache_PDU entry) (Cache_State entry)
                             (GSM_SetDefaultReceivedSMSData (Got s)))))"

definition get_locations :: "'p at_phone \<Rightarrow> 'p at_sms \<Rightarrow> ('p, 'p at_sms) at_result option" where
  "get_locations ph s0 =
     (let s = s0\<lparr>SMSCache := None\<rparr> in
      if SMSLocationLegacy s then legacy_scan ph s
      else case ATGEN_GetNextSMSFromLocationRange ph s of
        Fail (e, s') \<Rightarrow> if e \<noteq> ERR_NOTSUPPORTED \<or> \<not> SMSLocationLegacy s' then Some (Fail (e, s')) else legacy_scan ph s'
      | r \<Rightarrow> Some r)"

definition without_listing :: "'p at_phone \<Rightarrow> 'p at_sms \<Rightarrow> ('p, 'p at_sms) at_result option" where
  "without_listing ph s =
     (case ATGEN_GetSMSStatus ph s of Go s' \<Rightarrow> get_locations ph s' | r \<Rightarrow> Some r)"

text \<open>From the listing, going on to that of the next memory behind its end.\<close>

definition from_listing :: "'p at_phone \<Rightarrow> nat \<Rightarrow> GSM_AT_SMS_Cache list \<Rightarrow> 'p at_sms \<Rightarrow> ('p, 'p at_sms) at_result option" where
  "from_listing ph found cache s =
     (if found < length cache then Some (read_cached ph cache found s)
      else if SMSReadFolder s = NumFolders s then Some (Fail (ERR_EMPTY, s))
      else case ATGEN_GetSMSList ph False s of
        OobRead \<Rightarrow> Some OobRead
      | OobWrite \<Rightarrow> Some OobWrite
      | Fail (e, s') \<Rightarrow>
          if e = ERR_NOTSUPPORTED \<or> e = ERR_UNKNOWNRESPONSE
          then get_locations ph ((ATGEN_ResetSMSLocationRange s')\<lparr>Got := (Got s')\<lparr>Location := GSM_PHONE_MAXSMSINFOLDER\<rparr>\<rparr>)
          else Some (Fail (e, s'))
      | Go s' \<Rightarrow>
          (case SMSCache s' of
             None \<Rightarrow> without_listing ph s'
           | Some [] \<Rightarrow> Some (Fail (ERR_EMPTY, s'))
           | Some cache' \<Rightarrow> Some (read_cached ph cache' 0 s')))"

definition ATGEN_GetNextSMS :: "'p at_phone \<Rightarrow> bool \<Rightarrow> 'p at_sms \<Rightarrow> ('p, 'p at_sms) at_result option" where
  "ATGEN_GetNextSMS ph start s0 =
     (case andthen (try_memory ph False s0) (try_memory ph True) of
        Go s \<Rightarrow>
          if SIMSMSMemory s = AT_NOTAVAILABLE \<and> PhoneSMSMemory s = AT_NOTAVAILABLE then Some (Fail (ERR_NOTSUPPORTED, s))
          else if start then
            (case ATGEN_GetSMSList ph True (ATGEN_ResetSMSLocationRange (s\<lparr>LastSMSRead := 0, Got := (Got s)\<lparr>Location := 0\<rparr>\<rparr>)) of
               Go s' \<Rightarrow> (case SMSCache s' of None \<Rightarrow> without_listing ph s' | Some cache \<Rightarrow> from_listing ph 0 cache s')
             | Fail (e, s') \<Rightarrow> without_listing ph s'
             | r \<Rightarrow> Some r)
          else (case SMSCache s of
             None \<Rightarrow> without_listing ph s
           | Some cache \<Rightarrow>
               (case find_location (Location (Got s)) cache 0 None of
                  None \<Rightarrow> Some (Fail (ERR_INVALIDLOCATION, s))
                | Some found \<Rightarrow> from_listing ph found cache s))
      | r \<Rightarrow> Some r)"

end
