(* ===== verification/AtAnswers.thy ===== *)
theory AtAnswers imports AtScan begin

text \<open>
  Exchanges with a phone that answers in whole lines, and what the steps of the module make of them.
\<close>

subsection \<open>Answers\<close>

lemma CopyLineString_get: "CopyLineString src numbers i = map_option (\<lambda>l. l @ [0]) (GetLineString src numbers i)"
  by (simp add: CopyLineString_def GetLineString_def Let_def)

text \<open>The state of the reader behind an answer of the lines \<open>ls\<close>.\<close>

definition read_lines :: "byte list list \<Rightarrow> GSM_Phone_ATGENData \<Rightarrow> GSM_Phone_ATGENData \<Rightarrow> bool" where
  "read_lines ls core core' \<longleftrightarrow> (\<exists>n \<ge> 2. Lines core' = cuts (length eol) 0 ls @ replicate n 0 \<and> 20 dvd 2 * length ls + n)
     \<and> Manufacturer core' = Manufacturer core"

lemma plain_dispatch:
  assumes "\<forall>l \<in> set ls. at_line_ok l" "ls \<noteq> []" "after_echo ls = ls"
  shows "\<exists>n \<ge> 2. (20 dvd length (Lines priv) \<longrightarrow> 20 dvd 2 * length ls + n) \<and> ATGEN_DispatchMessage cpin (joined eol ls) priv =
      (let priv' = priv\<lparr>Lines := cuts (length eol) 0 ls @ replicate n 0, ReplyState := reply_state cpin (last ls),
                        ErrorText := None, ErrorCode := -1, ErrorCodeValid := False\<rparr> in
       Inr (if ReplyState priv' = AT_Reply_CMEError \<or> ReplyState priv' = AT_Reply_CMSError then ATGEN_ParseError priv' (drop 11 (last ls)) else priv'))"
proof -
  have good: "\<forall>l \<in> set ls. good_line [13, 10] [34] l" "\<forall>l \<in> set ls. 0 \<notin> set l" "\<forall>l \<in> set ls. l \<noteq> []"
    using assms(1) by (auto simp: at_line_ok_def good_line_def)
  have "\<exists>n \<ge> 2. SplitLines (joined eol ls) (length (Lines priv)) [13, 10] [34] True = cuts (length eol) 0 ls @ replicate n 0
    \<and> (20 dvd length (Lines priv) \<longrightarrow> 20 dvd 2 * length ls + n)"
    by (rule split_lines_table) (use good assms(2) in auto)
  then obtain n where n: "2 \<le> n" "SplitLines (joined eol ls) (length (Lines priv)) [13, 10] [34] True = cuts (length eol) 0 ls @ replicate n 0"
    "20 dvd length (Lines priv) \<longrightarrow> 20 dvd 2 * length ls + n" by blast
  define numbers where "numbers = cuts (length eol) 0 ls @ replicate n 0"
  obtain r where r: "replicate n (0::nat) = 0 # 0 # r" using n(1) by (cases n; cases "n - 1") auto
  have count: "ATGEN_PrintReplyLines numbers = length ls" unfolding ATGEN_PrintReplyLines_def
    by (rule count_lines_table) (use good r in \<open>simp_all add: numbers_def\<close>)
  have twice: "echoed_twice (joined eol ls) numbers (length ls) = Some False"
    using echoed_twice_lines [of numbers eol ls "replicate n 0"] good(2) assms(3) by (simp add: numbers_def)
  have last: "last ls \<noteq> []" "0 \<notin> set (last ls)" using good(2,3) assms(2) last_in_set by blast+
  have "status_line ([] @ joined eol ls) numbers (length ls) = last ls"
    by (rule status_line_last) (use last assms(2) in \<open>simp_all add: numbers_def\<close>)
  moreover have "SplitLines (joined eol ls) (length (Lines priv)) [13, 10] [34] True = numbers" using n(2) by (simp add: numbers_def)
  ultimately have "ATGEN_DispatchMessage cpin (joined eol ls) priv =
      (let priv' = priv\<lparr>Lines := numbers, ReplyState := reply_state cpin (last ls), ErrorText := None, ErrorCode := -1, ErrorCodeValid := False\<rparr> in
       Inr (if ReplyState priv' = AT_Reply_CMEError \<or> ReplyState priv' = AT_Reply_CMSError then ATGEN_ParseError priv' (drop 11 (last ls)) else priv'))"
    using twice count by (simp add: ATGEN_DispatchMessage_def Let_def)
  then show ?thesis using n(1,3) unfolding numbers_def by blast
qed

lemma read_line:
  assumes "read_lines ls core core'" "k < length ls"
  shows "GetLineString (joined eol ls) (Lines core') (k + 1) = Some (ls ! k)"
  using assms table_line [of "Lines core'" eol "[]" ls _ k] by (auto simp: read_lines_def)

lemma third_line: "read_lines ls core core' \<Longrightarrow> Lines core' ! 4 = 0 \<longleftrightarrow> length ls < 3"
  if "\<forall>l \<in> set ls. l \<noteq> []" "ls \<noteq> []"
proof -
  assume "read_lines ls core core'"
  then obtain n where n: "2 \<le> n" "Lines core' = cuts (length eol) 0 ls @ replicate n 0" "20 dvd 2 * length ls + n" by (auto simp: read_lines_def)
  have "20 \<le> 2 * length ls + n" using n(1,3) by (auto elim!: dvdE)
  then show ?thesis
  proof (cases "length ls < 3")
    case True
    then have "2 * length ls \<le> 4" by simp
    then show ?thesis using \<open>20 \<le> 2 * length ls + n\<close> True by (simp add: n(2) nth_append)
  next
    case False
    then have "cuts (length eol) 0 ls ! (2 * 2) = 0 + sum_list (map (\<lambda>l. length l + length eol) (take 2 ls))"
      using cuts_nth [of 2 ls "length eol" 0] by simp
    then show ?thesis using False that by (cases ls) (auto simp: n(2) nth_append)
  qed
qed

text \<open>The outcome of such an answer is that of its last line, whatever was read before.\<close>

lemma plain_outcome:
  assumes "\<forall>l \<in> set ls. at_line_ok l" "ls \<noteq> []" "after_echo ls = ls"
  shows "\<exists>core. ATGEN_DispatchMessage cpin (joined eol ls) priv = Inr core \<and> ReplyState core = reply_state cpin (last ls)"
  using plain_dispatch [OF assms, of priv cpin] by (auto simp: Let_def parse_error_keeps)

subsection \<open>Exchanges\<close>

definition core_ok :: "'p at_sms \<Rightarrow> bool" where
  "core_ok s \<longleftrightarrow> 20 dvd length (Lines (Core s)) \<and> Manufacturer (Core s) \<notin> fst ` set vendors"

definition good_answer :: "byte list list \<Rightarrow> bool" where
  "good_answer ls \<longleftrightarrow> ls \<noteq> [] \<and> (\<forall>l \<in> set ls. at_line_ok l) \<and> after_echo ls = ls"

lemma read_core_ok: "read_lines ls (Core s) core \<Longrightarrow> core_ok s \<Longrightarrow> core_ok (s\<lparr>Link := l, Core := core\<rparr>)"
  by (auto simp: read_lines_def core_ok_def)

lemma wait_answer:
  assumes "Ask ph (Link s) cmd = (Inr (joined eol ls), l)" "good_answer ls" "core_ok s"
  shows "\<exists>core. read_lines ls (Core s) core \<and> (\<forall>reply. ATGEN_WaitFor ph cmd reply s = reply (joined eol ls) (s\<lparr>Link := l, Core := core\<rparr>))
    \<and> ReplyState core = reply_state (F_CPIN_NO_OK \<in> Features ph) (last ls)
    \<and> (\<exists>p. core = (if ReplyState core = AT_Reply_CMEError \<or> ReplyState core = AT_Reply_CMSError then ATGEN_ParseError p (drop 11 (last ls)) else p)
         \<and> ReplyState p = ReplyState core \<and> Manufacturer p = Manufacturer (Core s))"
proof -
  let ?r = "reply_state (F_CPIN_NO_OK \<in> Features ph) (last ls)"
  from plain_dispatch [of ls "Core s" "F_CPIN_NO_OK \<in> Features ph"] assms(2,3) obtain n where
    n: "2 \<le> n" "20 dvd 2 * length ls + n" and d: "ATGEN_DispatchMessage (F_CPIN_NO_OK \<in> Features ph) (joined eol ls) (Core s) =
      (let priv' = (Core s)\<lparr>Lines := cuts (length eol) 0 ls @ replicate n 0, ReplyState := ?r, ErrorText := None, ErrorCode := -1, ErrorCodeValid := False\<rparr> in
       Inr (if ReplyState priv' = AT_Reply_CMEError \<or> ReplyState priv' = AT_Reply_CMSError then ATGEN_ParseError priv' (drop 11 (last ls)) else priv'))"
    by (auto simp: good_answer_def core_ok_def)
  define p where "p = (Core s)\<lparr>Lines := cuts (length eol) 0 ls @ replicate n 0, ReplyState := ?r, ErrorText := None, ErrorCode := -1, ErrorCodeValid := False\<rparr>"
  define core where "core = (if ?r = AT_Reply_CMEError \<or> ?r = AT_Reply_CMSError then ATGEN_ParseError p (drop 11 (last ls)) else p)"
  have core: "ReplyState core = ?r" "Lines core = cuts (length eol) 0 ls @ replicate n 0" "Manufacturer core = Manufacturer (Core s)"
    by (simp_all add: core_def p_def parse_error_keeps)
  have "ATGEN_DispatchMessage (F_CPIN_NO_OK \<in> Features ph) (joined eol ls) (Core s) = Inr core"
    unfolding d Let_def p_def [symmetric] by (simp add: core_def p_def)
  moreover have "read_lines ls (Core s) core" using n core by (auto simp: read_lines_def)
  moreover have "core = (if ReplyState core = AT_Reply_CMEError \<or> ReplyState core = AT_Reply_CMSError then ATGEN_ParseError p (drop 11 (last ls)) else p)"
    unfolding core(1) by (rule core_def)
  moreover have "ReplyState p = ReplyState core" "Manufacturer p = Manufacturer (Core s)" using core(1) by (simp_all add: p_def)
  ultimately show ?thesis using assms(1) core(1)
    by (intro exI [of _ core]) (auto simp: ATGEN_WaitFor_def)
qed

lemma wait_ok:
  assumes "Ask ph (Link s) cmd = (Inr (joined eol ls), l)" "good_answer ls" "core_ok s" "last ls = bytes_of ''OK''"
  shows "\<exists>core. read_lines ls (Core s) core \<and> ReplyState core = AT_Reply_OK
    \<and> (\<forall>reply. ATGEN_WaitFor ph cmd reply s = reply (joined eol ls) (s\<lparr>Link := l, Core := core\<rparr>))"
  using wait_answer [OF assms(1-3)] assms(4) reply_state_simps(1) by metis

lemma wait_cms:
  assumes "Ask ph (Link s) cmd = (Inr (joined eol ls), l)" "good_answer ls" "core_ok s"
    "last ls = bytes_of ''+CMS ERROR: '' @ decimal_int c" "(c, t, e) \<in> set standard_cms"
  shows "\<exists>core. read_lines ls (Core s) core \<and> ReplyState core = AT_Reply_CMSError \<and> ErrorCode core = c \<and> ATGEN_HandleCMSError core = e
    \<and> (\<forall>reply. ATGEN_WaitFor ph cmd reply s = reply (joined eol ls) (s\<lparr>Link := l, Core := core\<rparr>))"
proof -
  from wait_answer [OF assms(1-3)] obtain core p where
    r: "read_lines ls (Core s) core" "\<forall>reply. ATGEN_WaitFor ph cmd reply s = reply (joined eol ls) (s\<lparr>Link := l, Core := core\<rparr>)"
    and st: "ReplyState core = reply_state (F_CPIN_NO_OK \<in> Features ph) (last ls)"
    and c: "core = (if ReplyState core = AT_Reply_CMEError \<or> ReplyState core = AT_Reply_CMSError then ATGEN_ParseError p (drop 11 (last ls)) else p)"
    and p: "ReplyState p = ReplyState core" "Manufacturer p = Manufacturer (Core s)" by blast
  have cms: "ReplyState core = AT_Reply_CMSError" using st reply_state_simps(4) unfolding assms(4) by simp
  have "drop 11 (last ls) = [32] @ decimal_int c @ []" by (simp add: assms(4))
  then have core: "core = ATGEN_ParseError p ([32] @ decimal_int c @ [])" using c cms by simp
  have "(c, t, e) \<in> set (standard_table p)" using p(1) cms assms(5) by (simp add: standard_table_def)
  moreover have "Manufacturer p \<notin> fst ` set vendors" using p(2) assms(3) by (simp add: core_ok_def)
  moreover have "blank_around [32]" "blank_around []" by (simp_all add: blank_around_def isspace_def)
  ultimately have "core = p\<lparr>ErrorCode := c, ErrorCodeValid := True, ErrorText := Some t\<rparr>" "ATGEN_ErrorResult core = e"
    using error_forms(1,2) [of p c t e "bytes_of t" "[32]" "[]"] unfolding core by auto
  then show ?thesis using r cms
    by (intro exI [of _ core]) (simp add: ATGEN_HandleCMSError_def ATGEN_HandleError_def)
qed

lemma generic_ok: "ReplyState (Core s) = AT_Reply_OK \<Longrightarrow> generic_reply msg s = Go s"
  by (simp add: generic_reply_def ATGEN_GenericReply_def returned_def)

end
