(* ===== verification/AtSelect.thy ===== *)
theory AtSelect imports AtMemory begin

text \<open>
  The memory the module takes for selected is the one the phone has selected. The phone is any that
  selects a memory when it accepts the command for it, and at no other time; \<open>sel\<close> is its selection. The
  operations may end well or with any error.
\<close>

subsection \<open>Phones that select what they accept\<close>

text \<open>The memory a command selects. \<^verbatim>\<open>MT\<close> is the name Motorola phones have for their own memory.\<close>

definition names_memory :: "byte list \<Rightarrow> GSM_MemoryType option" where
  "names_memory cmd =
     map_option (\<lambda>(m, n). if m = MEM_MT then MEM_ME else m)
       (find (\<lambda>(m, n). starts (bytes_of ''AT+CPMS='' @ quoted_name n) cmd) memory_names)"

definition accepted :: "'p at_phone \<Rightarrow> byte list \<Rightarrow> bool" where
  "accepted ph msg \<longleftrightarrow> (\<exists>core core'. ATGEN_DispatchMessage (F_CPIN_NO_OK \<in> Features ph) msg core = Inr core' \<and> ATGEN_GenericReply core' = ERR_NONE)"

definition refused :: "'p at_phone \<Rightarrow> byte list \<Rightarrow> bool" where
  "refused ph msg \<longleftrightarrow>
     (\<exists>core. case ATGEN_DispatchMessage (F_CPIN_NO_OK \<in> Features ph) msg core of
        Inl e \<Rightarrow> True | Inr core' \<Rightarrow> ATGEN_GenericReply core' \<noteq> ERR_NONE)"

text \<open>A phone that selects the memory a command names when it accepts the command, and none for another command.\<close>

definition selecting_phone :: "'p at_phone \<Rightarrow> ('p \<Rightarrow> GSM_MemoryType) \<Rightarrow> bool" where
  "selecting_phone ph sel \<longleftrightarrow>
     (\<forall>p cmd r p'. Ask ph p cmd = (r, p') \<longrightarrow>
        (case names_memory cmd of
           None \<Rightarrow> sel p' = sel p
         | Some m \<Rightarrow> (\<forall>msg. r = Inr msg \<and> accepted ph msg \<longrightarrow> sel p' = m)))
     \<and> (\<forall>p. sel (snd (SetCharsetNormal ph p)) = sel p)"

text \<open>One that also keeps its selection when it refuses the command or does not answer.\<close>

definition keeping_phone :: "'p at_phone \<Rightarrow> ('p \<Rightarrow> GSM_MemoryType) \<Rightarrow> bool" where
  "keeping_phone ph sel \<longleftrightarrow> selecting_phone ph sel
     \<and> (\<forall>p cmd r p'. Ask ph p cmd = (r, p') \<longrightarrow> names_memory cmd \<noteq> None \<longrightarrow>
          (case r of Inl e \<Rightarrow> True | Inr msg \<Rightarrow> refused ph msg) \<longrightarrow> sel p' = sel p)"

lemma keeping_selects: "keeping_phone ph sel \<Longrightarrow> selecting_phone ph sel"
  by (simp add: keeping_phone_def)

definition tracks :: "('p \<Rightarrow> GSM_MemoryType) \<Rightarrow> 'p at_sms \<Rightarrow> bool" where
  "tracks sel s \<longleftrightarrow> (SMSMemory s = MEM_SM \<or> SMSMemory s = MEM_ME \<longrightarrow> sel (Link s) = SMSMemory s)"

subsection \<open>Steps that select nothing\<close>

lemma ignoring_Go: "ignoring r k = Go b \<longleftrightarrow> (\<exists>e s. r = Fail (e, s) \<and> k s = Go b) \<or> (\<exists>s. r = Go s \<and> k s = Go b)"
  by (cases r) (auto simp: ignoring_def)

text \<open>Every state a step leaves, also with an error.\<close>

fun states :: "('p at_sms \<Rightarrow> bool) \<Rightarrow> ('p, 'p at_sms) at_result \<Rightarrow> bool" where
  "states P OobRead = True"
| "states P OobWrite = True"
| "states P (Fail (e, s)) = P s"
| "states P (Go s) = P s"

lemma states_andthen: "states P r \<Longrightarrow> (\<And>s. P s \<Longrightarrow> states Q (k s)) \<Longrightarrow> (\<And>s. P s \<Longrightarrow> Q s) \<Longrightarrow> states Q (andthen r k)"
  by (cases r) auto

lemma states_ignoring: "states P r \<Longrightarrow> (\<And>s. P s \<Longrightarrow> states Q (k s)) \<Longrightarrow> states Q (ignoring r k)"
  by (cases r) (auto simp: ignoring_def)

lemma states_returned: "P s \<Longrightarrow> states P (returned e s)"
  by (simp add: returned_def)

definition same_memory :: "('p \<Rightarrow> GSM_MemoryType) \<Rightarrow> 'p at_sms \<Rightarrow> 'p at_sms \<Rightarrow> bool" where
  "same_memory sel s s' \<longleftrightarrow> SMSMemory s' = SMSMemory s \<and> sel (Link s') = sel (Link s) \<and> Got s' = Got s"

lemma same_memory_refl [simp]: "same_memory sel s s"
  by (simp add: same_memory_def)

lemma same_memory_trans: "same_memory sel s s' \<Longrightarrow> same_memory sel s' s'' \<Longrightarrow> same_memory sel s s''"
  by (simp add: same_memory_def)

lemma same_memory_tracks: "same_memory sel s s' \<Longrightarrow> tracks sel s \<Longrightarrow> tracks sel s'"
  by (simp add: same_memory_def tracks_def)

lemma wait_same:
  assumes "selecting_phone ph sel" "names_memory cmd = None" "\<And>msg s. states (same_memory sel s) (reply msg s)"
  shows "states (same_memory sel s) (ATGEN_WaitFor ph cmd reply s)"
proof -
  obtain r l where r: "Ask ph (Link s) cmd = (r, l)" by (cases "Ask ph (Link s) cmd")
  then have l: "sel l = sel (Link s)" using assms(1,2) unfolding selecting_phone_def by fastforce
  have "states (same_memory sel s) (reply msg (s\<lparr>Link := l, Core := core\<rparr>))" for msg core
  proof -
    have "same_memory sel s (s\<lparr>Link := l, Core := core\<rparr>)" using l by (simp add: same_memory_def)
    moreover have "states (same_memory sel (s\<lparr>Link := l, Core := core\<rparr>)) (reply msg (s\<lparr>Link := l, Core := core\<rparr>))" by (rule assms(3))
    ultimately show ?thesis
      by (cases "reply msg (s\<lparr>Link := l, Core := core\<rparr>)") (auto simp: same_memory_def)
  qed
  moreover have "same_memory sel s (s\<lparr>Link := l\<rparr>)" using l by (simp add: same_memory_def)
  ultimately show ?thesis by (simp add: ATGEN_WaitFor_def r split: sum.split)
qed

lemma saving_same: "same_memory sel s (saving_memories p s')" if "same_memory sel s s'"
  using that by (simp add: saving_memories_def same_memory_def Let_def split: option.split)

lemma reading_same: "same_memory sel s (reading_memories b s')" if "same_memory sel s s'"
  using that by (simp add: reading_memories_def same_memory_def Let_def)

lemma reply_memories_same: "states (same_memory sel s) (ATGEN_ReplyGetSMSMemories msg s)"
proof -
  let ?s = "s\<lparr>PhoneSaveSMS := AT_NOTAVAILABLE, SIMSaveSMS := AT_NOTAVAILABLE, SRSaveSMS := AT_NOTAVAILABLE,
                      CPMSReceiveMemory := False, CPMSReceiveMemories := replicate 13 False\<rparr>"
  have s: "same_memory sel s ?s" by (simp add: same_memory_def)
  have "same_memory sel s (reading_memories msg (case second_list msg of Some pos_start \<Rightarrow> saving_memories pos_start ?s | None \<Rightarrow> ?s))"
    by (rule reading_same) (use s in \<open>simp add: saving_same split: option.split\<close>)
  then show ?thesis
    by (simp add: ATGEN_ReplyGetSMSMemories_def reply_line_def states_returned Let_def same_memory_def
        split: GSM_AT_Reply_State.split option.split)
qed

lemma forced_same: "same_memory sel s (forced_memories ph s') \<longleftrightarrow> same_memory sel s s'"
  by (simp add: forced_memories_def same_memory_def Let_def)

lemma no_names [simp]: "names_memory (command ''AT+CPMS=?'') = None"
  by (simp add: names_memory_def memory_names_def quoted_name_def command_def starts_def)

lemma memories_same: "selecting_phone ph sel \<Longrightarrow> states (same_memory sel s) (ATGEN_GetSMSMemories ph s)"
  unfolding ATGEN_GetSMSMemories_def
  by (rule states_andthen [OF wait_same]) (simp_all add: reply_memories_same forced_same)

lemma charset_same: "selecting_phone ph sel \<Longrightarrow> states (same_memory sel s) (encoded_commands ph s)"
proof -
  assume p: "selecting_phone ph sel"
  obtain e l where l: "SetCharsetNormal ph (Link s) = (e, l)" by (cases "SetCharsetNormal ph (Link s)")
  then have "sel l = sel (Link s)" using p unfolding selecting_phone_def by (metis snd_conv)
  then show ?thesis by (simp add: encoded_commands_def set_charset_normal_def l states_returned same_memory_def)
qed

subsection \<open>Steps that select a memory\<close>

text \<open>A reply that goes on only with an answer that was accepted.\<close>

definition accepting :: "(byte list \<Rightarrow> 'p at_step) \<Rightarrow> bool" where
  "accepting reply \<longleftrightarrow> (\<forall>msg s s'. reply msg s = Go s' \<longrightarrow>
     ATGEN_GenericReply (Core s) = ERR_NONE \<and> Link s' = Link s \<and> Got s' = Got s \<and> SMSMemory s' = SMSMemory s)"

lemma accepting_generic: "accepting generic_reply"
  by (auto simp: accepting_def generic_reply_def returned_def split: if_splits)

lemma handle_Go: "handle f g r = Go b \<longleftrightarrow> (\<exists>x. r = Fail x \<and> f x = Go b) \<or> (\<exists>a. r = Go a \<and> g a = Go b)"
  by (cases r) auto

lemma accepting_status: "accepting (ATGEN_ReplyGetSMSStatus ph)"
  unfolding accepting_def
proof (intro allI impI)
  fix msg and s s' :: "'a at_sms"
  assume r: "ATGEN_ReplyGetSMSStatus ph msg s = Go s'"
  show "ATGEN_GenericReply (Core s) = ERR_NONE \<and> Link s' = Link s \<and> Got s' = Got s \<and> SMSMemory s' = SMSMemory s"
  proof (cases "ReplyState (Core s)")
    case AT_Reply_OK
    then show ?thesis using r
      by (auto simp: ATGEN_ReplyGetSMSStatus_def reply_line_def ATGEN_GenericReply_def handle_Go split: option.splits prod.splits)
  qed (use r in \<open>auto simp: ATGEN_ReplyGetSMSStatus_def ATGEN_GenericReply_def returned_def split: if_splits\<close>)
qed

lemma wait_selects:
  assumes "selecting_phone ph sel" "names_memory cmd = Some m" "accepting reply" "ATGEN_WaitFor ph cmd reply s = Go s'"
  shows "sel (Link s') = m \<and> Got s' = Got s \<and> SMSMemory s' = SMSMemory s"
proof -
  obtain r l where r: "Ask ph (Link s) cmd = (r, l)" by (cases "Ask ph (Link s) cmd")
  then obtain msg core where m: "r = Inr msg" "ATGEN_DispatchMessage (F_CPIN_NO_OK \<in> Features ph) msg (Core s) = Inr core"
    and s': "reply msg (s\<lparr>Link := l, Core := core\<rparr>) = Go s'"
    using assms(4) by (auto simp: ATGEN_WaitFor_def split: sum.splits)
  then have g: "ATGEN_GenericReply core = ERR_NONE" "Link s' = l" "Got s' = Got s" "SMSMemory s' = SMSMemory s"
    using assms(3) unfolding accepting_def by fastforce+
  then have "accepted ph msg" using m(2) unfolding accepted_def by blast
  then have "sel l = m" using assms(1,2) r m(1) unfolding selecting_phone_def by fastforce
  then show ?thesis using g by simp
qed

lemma build_named:
  assumes "ATGEN_BuildCPMSCommand s n w room = Some cmd"
  shows "starts (bytes_of ''AT+CPMS='' @ quoted_name n) cmd"
  using assms by (auto simp: ATGEN_BuildCPMSCommand_def starts_iff Let_def split: if_splits)

lemma quoted_starts: "starts (bytes_of ''AT+CPMS='' @ quoted_name n) (bytes_of ''AT+CPMS='' @ quoted_name m @ r) \<longleftrightarrow> n = m"
  if "34 \<notin> set n" "34 \<notin> set m"
proof
  assume "starts (bytes_of ''AT+CPMS='' @ quoted_name n) (bytes_of ''AT+CPMS='' @ quoted_name m @ r)"
  then obtain t where "n @ 34 # t = m @ 34 # r" by (auto simp: starts_iff quoted_name_def)
  moreover have "takeWhile (\<lambda>b. b \<noteq> 34) (x @ 34 # y) = x" if "34 \<notin> set x" for x y :: "byte list" using that by (induction x) auto
  ultimately show "n = m" using that by metis
qed (simp add: starts_iff)

lemma name_unique: "(m, n) \<in> set memory_names \<Longrightarrow> find (\<lambda>(m', n'). n' = n) memory_names = Some (m, n)"
proof -
  have "list_all (\<lambda>(m, n). find (\<lambda>(m', n'). n' = n) memory_names = Some (m, n)) memory_names"
    by (simp add: memory_names_def)
  then show "(m, n) \<in> set memory_names \<Longrightarrow> ?thesis" by (auto simp: list_all_iff)
qed

lemma names_of:
  assumes "(m, n) \<in> set memory_names" "starts (bytes_of ''AT+CPMS='' @ quoted_name n) cmd"
  shows "names_memory cmd = Some (if m = MEM_MT then MEM_ME else m)"
proof -
  obtain r where r: "cmd = bytes_of ''AT+CPMS='' @ quoted_name n @ r" using assms(2) by (auto simp: starts_iff)
  have plain: "\<forall>(m, n) \<in> set memory_names. 34 \<notin> set n" by (simp add: memory_names_def)
  have "find (\<lambda>(m', n'). starts (bytes_of ''AT+CPMS='' @ quoted_name n') cmd) memory_names = find (\<lambda>(m', n'). n' = n) memory_names"
    by (rule find_cong [OF refl]) (use plain assms(1) in \<open>auto simp: r simp del: bytes_of_simps intro!: quoted_starts\<close>)
  also have "\<dots> = Some (m, n)" by (rule name_unique [OF assms(1)])
  finally show ?thesis by (simp add: names_memory_def)
qed

lemma built_names:
  assumes "ATGEN_BuildCPMSCommand s n w room = Some cmd" "(m, n) \<in> set memory_names"
  shows "names_memory cmd = Some (if m = MEM_MT then MEM_ME else m)"
  using names_of [OF assms(2) build_named [OF assms(1)]] .

lemma motorola_names: "phone_memory_command w out s = Some cmd \<Longrightarrow> names_memory cmd = Some MEM_ME"
proof (cases "MotorolaSMS s")
  case True
  assume c: "phone_memory_command w out s = Some cmd"
  have "starts (bytes_of ''AT+CPMS='' @ quoted_name (bytes_of ''MT'')) cmd"
    using c True by (auto simp: phone_memory_command_def command_def quoted_name_def starts_def Let_def split: if_splits)
  from names_of [OF _ this, of 7] show ?thesis by (simp add: memory_names_def MEM_MT_def)
next
  case False
  assume "phone_memory_command w out s = Some cmd"
  with False built_names [of s "bytes_of ''ME''" w 50 cmd 1] show ?thesis
    by (simp add: phone_memory_command_def memory_names_def MEM_ME_def MEM_MT_def)
qed

lemma sim_selected:
  assumes "selecting_phone ph sel" "tracks sel s" "select_sim ph w s = Go s'"
  shows "sel (Link s') = MEM_SM \<and> SMSMemory s' = MEM_SM \<and> Got s' = Got s"
proof (cases "SMSMemory s = MEM_SM \<and> (SMSMemoryWrite s \<or> \<not> w)")
  case True
  then show ?thesis using assms(2,3) by (simp add: select_sim_def tracks_def)
next
  case False
  then obtain cmd s1 where c: "ATGEN_BuildCPMSCommand s (bytes_of ''SM'') w 50 = Some cmd"
    "ATGEN_WaitFor ph cmd generic_reply s = Go s1" "s' = selected MEM_SM w s1"
    using assms(3) by (auto simp: select_sim_def Let_def split: option.splits if_splits elim!: handle.elims)
  have "names_memory cmd = Some MEM_SM"
    using built_names [OF c(1), of 2] by (simp add: memory_names_def MEM_SM_def MEM_MT_def)
  from wait_selects [OF assms(1) this accepting_generic c(2)] show ?thesis by (simp add: c(3) selected_def)
qed

lemma phone_selected:
  assumes "selecting_phone ph sel" "tracks sel s" "select_phone ph w out s = Go s'"
  shows "sel (Link s') = MEM_ME \<and> SMSMemory s' = MEM_ME \<and> Got s' = Got s"
proof (cases "SMSMemory s = MEM_ME \<and> (SMSMemoryWrite s \<or> \<not> w)")
  case True
  then show ?thesis using assms(2,3) by (simp add: select_phone_def tracks_def)
next
  case False
  then obtain cmd s1 where c: "phone_memory_command w out s = Some cmd" "ATGEN_WaitFor ph cmd generic_reply s = Go s1"
    "s' = selected MEM_ME w (if PhoneSMSMemory s1 = AT_UNTESTED then s1\<lparr>PhoneSMSMemory := AT_AVAILABLE\<rparr> else s1)"
    using assms(3) by (auto simp: select_phone_def split: option.splits if_splits elim!: andthen.elims)
  from wait_selects [OF assms(1) motorola_names [OF c(1)] accepting_generic c(2)] show ?thesis by (simp add: c(3) selected_def)
qed

lemma set_memory_selects:
  assumes "selecting_phone ph sel" "tracks sel s" "ATGEN_SetSMSMemory ph SIM w out s = Go s'"
  shows "sel (Link s') = (if SIM then MEM_SM else MEM_ME) \<and> SMSMemory s' = (if SIM then MEM_SM else MEM_ME) \<and> Got s' = Got s"
proof -
  from assms(3) obtain s1 where s1: "encoded_commands ph s = Go s1"
    and rest: "ignoring (if SIM \<and> SIMSMSMemory s1 = AT_UNTESTED \<or> \<not> SIM \<and> PhoneSMSMemory s1 = AT_UNTESTED
               then ATGEN_GetSMSMemories ph s1 else Go s1) (\<lambda>s.
       if w \<and> SIM \<and> SIMSaveSMS s = AT_NOTAVAILABLE then Fail (ERR_NOTSUPPORTED, s)
       else if w \<and> \<not> SIM \<and> PhoneSaveSMS s = AT_NOTAVAILABLE then Fail (ERR_NOTSUPPORTED, s)
       else if SIM then select_sim ph w s else select_phone ph w out s) = Go s'"
    unfolding ATGEN_SetSMSMemory_def andthen_Go by blast
  have m1: "same_memory sel s s1" using charset_same [OF assms(1), of s] by (simp add: s1)
  define r where "r = (if SIM \<and> SIMSMSMemory s1 = AT_UNTESTED \<or> \<not> SIM \<and> PhoneSMSMemory s1 = AT_UNTESTED
      then ATGEN_GetSMSMemories ph s1 else Go s1)"
  have "states (same_memory sel s1) r" using memories_same [OF assms(1), of s1] by (simp add: r_def)
  with rest obtain s2 where s2: "same_memory sel s1 s2" and s': "(if SIM then select_sim ph w s2 else select_phone ph w out s2) = Go s'"
    unfolding r_def [symmetric] ignoring_Go by (auto split: if_split_asm)
  have m: "same_memory sel s s2" using same_memory_trans [OF m1 s2] .
  then have "tracks sel s2" "Got s2 = Got s" using same_memory_tracks assms(2) by (auto simp: same_memory_def)
  then show ?thesis using s' sim_selected [OF assms(1), of s2 w s'] phone_selected [OF assms(1), of s2 w out s'] by (cases SIM) auto
qed

lemma requested_selects:
  assumes "selecting_phone ph sel" "tracks sel s" "ATGEN_SetRequestedSMSMemory ph m w s = Go s'"
  shows "tracks sel s' \<and> SMSMemory s' = m \<and> Got s' = Got s"
proof (cases "SMSMemory s = m \<and> SMSMemoryWrite s = w")
  case True
  then show ?thesis using assms(2,3) by (auto simp: ATGEN_SetRequestedSMSMemory_def split: if_splits)
next
  case False
  then obtain cmd where a: "ATGEN_IsMemoryAvailable s m" and c: "ATGEN_BuildCPMSCommand s (GSM_MemoryTypeToString m) w 50 = Some cmd"
    and r: "andthen (encoded_commands ph s) (\<lambda>s. andthen (ATGEN_WaitFor ph cmd generic_reply s) (\<lambda>s. Go (selected m w s))) = Go s'"
    using assms(3) by (auto simp: ATGEN_SetRequestedSMSMemory_def split: if_splits option.splits)
  from r obtain s1 s2 where s1: "encoded_commands ph s = Go s1" "ATGEN_WaitFor ph cmd generic_reply s1 = Go s2" "s' = selected m w s2"
    unfolding andthen_Go by auto
  have "m \<in> {1, 2, 7, 12}"
    using a by (auto simp: ATGEN_IsMemoryAvailable_def MEM_ME_def MEM_SM_def MEM_MT_def MEM_SR_def)
  then have "(m, GSM_MemoryTypeToString m) \<in> set memory_names" by (auto simp: GSM_MemoryTypeToString_def memory_names_def)
  note n = built_names [OF c this]
  have "same_memory sel s s1" using charset_same [OF assms(1), of s] by (simp add: s1(1))
  with wait_selects [OF assms(1) n accepting_generic s1(2)] show ?thesis
    by (auto simp: s1(3) selected_def tracks_def same_memory_def MEM_MT_def MEM_SM_def MEM_ME_def)
qed


subsection \<open>Locations and counters\<close>

lemma location_memory:
  assumes "selecting_phone ph sel" "tracks sel s" "ATGEN_GetSMSLocation ph w s = Go (place, s')"
  shows "tracks sel s' \<and> SMSMemory s' = Memory (Got s')"
proof -
  define r where "r = (if PhoneSMSMemory s = AT_UNTESTED \<or> SIMSMSMemory s = AT_UNTESTED \<or> SRSMSMemory s = AT_UNTESTED
              then ATGEN_GetSMSMemories ph s else Go s)"
  have same: "states (same_memory sel s) r" using memories_same [OF assms(1), of s] by (simp add: r_def)
  from assms(3) obtain s1 folderid location where s1: "r = Go s1" and s': "set_location_memory ph folderid w s1 = Go s'"
    unfolding ATGEN_GetSMSLocation_def r_def [symmetric] andthen_Go
    by (auto simp: andthen_Go split: if_splits option.splits)
  have t: "tracks sel s1" "Got s1 = Got s" using same same_memory_tracks [OF _ assms(2)] by (auto simp: s1 same_memory_def)
  then have "tracks sel (s1\<lparr>Got := sms\<rparr>)" for sms by (simp add: tracks_def)
  with s' t show ?thesis unfolding set_location_memory_def Let_def
    using requested_selects [OF assms(1), of s1 "Memory (Got s1)" w s']
      set_memory_selects [OF assms(1), of "s1\<lparr>Got := (Got s1)\<lparr>Memory := MEM_SM\<rparr>\<rparr>" True w "even (Folder (Got s1))" s']
      set_memory_selects [OF assms(1), of "s1\<lparr>Got := (Got s1)\<lparr>Memory := MEM_ME\<rparr>\<rparr>" False w "even (Folder (Got s1))" s']
    by (auto simp: tracks_def split: if_splits)
qed

lemma no_names_query [simp]: "names_memory (command ''AT+CPMS?'') = None"
  by (simp add: names_memory_def memory_names_def quoted_name_def command_def starts_def)

lemma status_reply_same: "states (same_memory sel s) (ATGEN_ReplyGetSMSStatus ph msg s)"
proof -
  have "states (same_memory sel s) (handle (\<lambda>e. Fail (e, s)) (\<lambda>(buffer, used, all).
              Go (s\<lparr>LastSMSStatus := (if of_phone_memory msg buffer s
                      then (LastSMSStatus s)\<lparr>PhoneUsed := used, PhoneSize := all\<rparr>
                      else (LastSMSStatus s)\<lparr>SIMUsed := used, SIMSize := all\<rparr>)\<rparr>)) r)" for r
    by (cases r) (auto simp: same_memory_def split: prod.split)
  then show ?thesis
    by (simp add: ATGEN_ReplyGetSMSStatus_def reply_line_def states_returned split: GSM_AT_Reply_State.split option.split)
qed

lemma query_selects:
  assumes "selecting_phone ph sel" "tracks sel s" "ATGEN_QuerySMSMemoryStatus ph m w s = Go s'"
  shows "tracks sel s' \<and> SMSMemory s' = m"
proof -
  from assms(3) obtain s1 where s1: "ATGEN_SetRequestedSMSMemory ph m w s = Go s1"
    "ATGEN_WaitFor ph (command ''AT+CPMS?'') (ATGEN_ReplyGetSMSStatus ph) s1 = Go s'"
    unfolding ATGEN_QuerySMSMemoryStatus_def andthen_Go by blast
  have "states (same_memory sel s1) (ATGEN_WaitFor ph (command ''AT+CPMS?'') (ATGEN_ReplyGetSMSStatus ph) s1)"
    by (rule wait_same [OF assms(1)]) (simp_all add: status_reply_same)
  then have "same_memory sel s1 s'" by (simp add: s1(2))
  then show ?thesis using requested_selects [OF assms(1,2) s1(1)] by (auto simp: same_memory_def tracks_def)
qed

lemma sim_status_tracks:
  assumes "selecting_phone ph sel" "tracks sel s" "sim_status ph s = Go s'"
  shows "tracks sel s'"
proof (cases "CPMSReceiveMemory s")
  case True
  then obtain s1 where "ATGEN_QuerySMSMemoryStatus ph MEM_SM (SIMSaveSMS s = AT_AVAILABLE) s = Go s1" "s' = s1\<lparr>SMSMemory := MEM_SM\<rparr>"
    using assms(3) by (auto simp: sim_status_def Let_def andthen_Go)
  with query_selects [OF assms(1,2) this(1)] show ?thesis by (auto simp: tracks_def)
next
  case False
  with assms(3) obtain cmd s1 where c: "ATGEN_BuildCPMSCommand s (bytes_of ''SM'') (SIMSaveSMS s = AT_AVAILABLE) 50 = Some cmd"
    "ATGEN_WaitFor ph cmd (ATGEN_ReplyGetSMSStatus ph) s = Go s1" "Link s' = Link s1" "SMSMemory s' = MEM_SM"
    by (auto simp: sim_status_def Let_def andthen_Go handle_Go split: option.splits)
  have "names_memory cmd = Some MEM_SM"
    using built_names [OF c(1), of 2] by (simp add: memory_names_def MEM_SM_def MEM_MT_def)
  from wait_selects [OF assms(1) this accepting_status c(2)] show ?thesis by (simp add: tracks_def c)
qed

lemma motorola_status_names: "names_memory (command ''AT+CPMS=\"MT\"'') = Some MEM_ME"
  using names_of [of 7 "bytes_of ''MT''" "command ''AT+CPMS=\"MT\"''"]
  by (simp add: memory_names_def command_def quoted_name_def starts_def MEM_MT_def)

lemma phone_status_tracks:
  assumes "selecting_phone ph sel" "tracks sel s" "phone_status ph s = Go s'"
  shows "tracks sel s'"
proof (cases "\<not> MotorolaSMS s \<and> CPMSReceiveMemory s")
  case True
  then obtain s1 where "ATGEN_QuerySMSMemoryStatus ph MEM_ME (PhoneSaveSMS s = AT_AVAILABLE) s = Go s1" "s' = s1\<lparr>SMSMemory := MEM_ME\<rparr>"
    using assms(3) by (auto simp: phone_status_def Let_def andthen_Go)
  with query_selects [OF assms(1,2) this(1)] show ?thesis by (auto simp: tracks_def)
next
  case False
  have "\<exists>cmd s0 s1. names_memory cmd = Some MEM_ME \<and> ATGEN_WaitFor ph cmd (ATGEN_ReplyGetSMSStatus ph) s0 = Go s1 \<and> s' = s1\<lparr>SMSMemory := MEM_ME\<rparr>"
  proof (cases "PhoneSaveSMS s = AT_AVAILABLE \<and> MotorolaSMS s")
    case True
    then show ?thesis using False assms(3) motorola_status_names by (auto simp: phone_status_def Let_def andthen_Go)
  next
    case f: False
    with False assms(3) obtain cmd s1 where c: "ATGEN_BuildCPMSCommand s (bytes_of ''ME'') (PhoneSaveSMS s = AT_AVAILABLE) 50 = Some cmd"
      "ATGEN_WaitFor ph cmd (ATGEN_ReplyGetSMSStatus ph) (s\<lparr>SMSMemoryWrite := (PhoneSaveSMS s = AT_AVAILABLE)\<rparr>) = Go s1"
      "s' = s1\<lparr>SMSMemory := MEM_ME\<rparr>"
      by (auto simp: phone_status_def Let_def andthen_Go split: option.splits if_splits)
    have "names_memory cmd = Some MEM_ME"
      using built_names [OF c(1), of 1] by (simp add: memory_names_def MEM_ME_def MEM_MT_def)
    then show ?thesis using c by blast
  qed
  then obtain cmd s0 s1 where c: "names_memory cmd = Some MEM_ME" "ATGEN_WaitFor ph cmd (ATGEN_ReplyGetSMSStatus ph) s0 = Go s1"
    "s' = s1\<lparr>SMSMemory := MEM_ME\<rparr>" by blast
  from wait_selects [OF assms(1) c(1) accepting_status c(2)] show ?thesis by (simp add: tracks_def c(3))
qed

subsection \<open>Errors\<close>

text \<open>A command that selects and ends with an error has selected nothing.\<close>

lemma wait_refused:
  assumes "keeping_phone ph sel" "names_memory cmd = Some m" "ATGEN_WaitFor ph cmd reply s = Fail (e, s')"
    and reply: "\<And>p msg l core s e s'. Ask ph p cmd = (Inr msg, l) \<Longrightarrow>
      ATGEN_DispatchMessage (F_CPIN_NO_OK \<in> Features ph) msg core = Inr (Core s) \<Longrightarrow> reply msg s = Fail (e, s') \<Longrightarrow>
      same_memory sel s s' \<and> ATGEN_GenericReply (Core s) \<noteq> ERR_NONE"
  shows "same_memory sel s s'"
proof -
  obtain r l where r: "Ask ph (Link s) cmd = (r, l)" by (cases "Ask ph (Link s) cmd")
  show ?thesis
  proof (cases r)
    case (Inl e')
    then have "sel l = sel (Link s)" using assms(1,2) r unfolding keeping_phone_def by fastforce
    then show ?thesis using assms(3) r Inl by (auto simp: ATGEN_WaitFor_def same_memory_def)
  next
    case (Inr msg)
    have keep: "refused ph msg \<Longrightarrow> sel l = sel (Link s)" using assms(1,2) r Inr unfolding keeping_phone_def by fastforce
    show ?thesis
    proof (cases "ATGEN_DispatchMessage (F_CPIN_NO_OK \<in> Features ph) msg (Core s)")
      case (Inl e')
      then have "refused ph msg" unfolding refused_def by (intro exI [of _ "Core s"]) simp
      then show ?thesis using keep assms(3) r Inr Inl by (auto simp: ATGEN_WaitFor_def same_memory_def)
    next
      case d: (Inr core)
      let ?s = "s\<lparr>Link := l, Core := core\<rparr>"
      have "reply msg ?s = Fail (e, s')" using assms(3) r Inr d by (simp add: ATGEN_WaitFor_def)
      with reply [of "Link s" msg l "Core s" ?s] r Inr d have f: "same_memory sel ?s s'" "ATGEN_GenericReply core \<noteq> ERR_NONE" by auto
      then have "refused ph msg" unfolding refused_def using d by (intro exI [of _ "Core s"]) simp
      then show ?thesis using keep f(1) by (simp add: same_memory_def)
    qed
  qed
qed

lemma generic_refused:
  assumes "keeping_phone ph sel" "names_memory cmd = Some m" "ATGEN_WaitFor ph cmd generic_reply s = Fail (e, s')"
  shows "same_memory sel s s'"
  by (rule wait_refused [OF assms]) (auto simp: generic_reply_def returned_def split: if_splits)

text \<open>What a step leaves, seen from its two ends.\<close>

lemma states_iff: "states P r \<longleftrightarrow> (\<forall>s'. r = Go s' \<longrightarrow> P s') \<and> (\<forall>e s'. r = Fail (e, s') \<longrightarrow> P s')"
  by (cases r) auto

lemma handle_Fail: "handle f g r = Fail b \<longleftrightarrow> (\<exists>x. r = Fail x \<and> f x = Fail b) \<or> (\<exists>a. r = Go a \<and> g a = Fail b)"
  by (cases r) auto

lemma andthen_Fail: "andthen r k = Fail b \<longleftrightarrow> r = Fail b \<or> (\<exists>a. r = Go a \<and> k a = Fail b)"
  by (cases r) auto

lemma states_same_tracks: "states (same_memory sel s) r \<Longrightarrow> tracks sel s \<Longrightarrow> states (tracks sel) r"
  by (cases r) (auto intro: same_memory_tracks)

lemma sim_tracks:
  assumes "keeping_phone ph sel" "tracks sel s"
  shows "states (tracks sel) (select_sim ph w s)"
  unfolding states_iff
proof (intro conjI allI impI)
  fix s'
  assume "select_sim ph w s = Go s'"
  from sim_selected [OF keeping_selects [OF assms(1)] assms(2) this] show "tracks sel s'" by (simp add: tracks_def)
next
  fix e s'
  assume f: "select_sim ph w s = Fail (e, s')"
  then have new: "\<not> (SMSMemory s = MEM_SM \<and> (SMSMemoryWrite s \<or> \<not> w))"
    unfolding select_sim_def by (metis stage.distinct(11))
  show "tracks sel s'"
  proof (cases "SIMSMSMemory s = AT_NOTAVAILABLE \<or> ATGEN_BuildCPMSCommand s (bytes_of ''SM'') w 50 = None")
    case True
    then have "s' = s" using f new by (auto simp: select_sim_def split: if_split_asm option.split_asm)
    then show ?thesis using assms(2) by simp
  next
    case False
    then obtain cmd where cmd: "ATGEN_BuildCPMSCommand s (bytes_of ''SM'') w 50 = Some cmd" by auto
    define t where "t s1 = (if SIMSMSMemory s1 = AT_UNTESTED then s1\<lparr>SIMSMSMemory := AT_AVAILABLE\<rparr> else s1)" for s1 :: "'a at_sms"
    have "handle (\<lambda>(e, s1). Fail (if e = ERR_NOTSUPPORTED then ERR_SECURITYERROR else e, t s1))
            (\<lambda>s1. Go (selected MEM_SM w s1)) (ATGEN_WaitFor ph cmd generic_reply s) = Fail (e, s')"
      using f new False cmd unfolding select_sim_def t_def Let_def by simp
    then obtain e1 s1 where w: "ATGEN_WaitFor ph cmd generic_reply s = Fail (e1, s1)" "s' = t s1" by (auto simp: handle_Fail)
    have "names_memory cmd = Some MEM_SM"
      using built_names [OF cmd, of 2] by (simp add: memory_names_def MEM_SM_def MEM_MT_def)
    from same_memory_tracks [OF generic_refused [OF assms(1) this w(1)] assms(2)] show ?thesis by (simp add: w(2) t_def tracks_def)
  qed
qed

lemma phone_tracks:
  assumes "keeping_phone ph sel" "tracks sel s"
  shows "states (tracks sel) (select_phone ph w out s)"
  unfolding states_iff
proof (intro conjI allI impI)
  fix s'
  assume "select_phone ph w out s = Go s'"
  from phone_selected [OF keeping_selects [OF assms(1)] assms(2) this] show "tracks sel s'" by (simp add: tracks_def)
next
  fix e s'
  assume f: "select_phone ph w out s = Fail (e, s')"
  then consider "s' = s" | cmd where "phone_memory_command w out s = Some cmd" "ATGEN_WaitFor ph cmd generic_reply s = Fail (e, s')"
    by (auto simp: select_phone_def andthen_Fail split: if_splits option.splits)
  then show "tracks sel s'"
  proof cases
    case 2
    from generic_refused [OF assms(1) motorola_names [OF 2(1)] 2(2)] show ?thesis using assms(2) by (rule same_memory_tracks)
  qed (use assms(2) in simp)
qed

lemma set_memory_tracks:
  assumes "keeping_phone ph sel" "tracks sel s"
  shows "states (tracks sel) (ATGEN_SetSMSMemory ph SIM w out s)"
  unfolding ATGEN_SetSMSMemory_def
proof (rule states_andthen [OF states_same_tracks [OF charset_same [OF keeping_selects [OF assms(1)]] assms(2)]])
  fix s1
  assume t: "tracks sel s1"
  have "states (tracks sel) (ATGEN_GetSMSMemories ph s1)" by (rule states_same_tracks [OF memories_same [OF keeping_selects [OF assms(1)]] t])
  then have "states (tracks sel) (if SIM \<and> SIMSMSMemory s1 = AT_UNTESTED \<or> \<not> SIM \<and> PhoneSMSMemory s1 = AT_UNTESTED
      then ATGEN_GetSMSMemories ph s1 else Go s1)" using t by simp
  then show "states (tracks sel) (ignoring (if SIM \<and> SIMSMSMemory s1 = AT_UNTESTED \<or> \<not> SIM \<and> PhoneSMSMemory s1 = AT_UNTESTED
               then ATGEN_GetSMSMemories ph s1 else Go s1) (\<lambda>s.
       if w \<and> SIM \<and> SIMSaveSMS s = AT_NOTAVAILABLE then Fail (ERR_NOTSUPPORTED, s)
       else if w \<and> \<not> SIM \<and> PhoneSaveSMS s = AT_NOTAVAILABLE then Fail (ERR_NOTSUPPORTED, s)
       else if SIM then select_sim ph w s else select_phone ph w out s))"
    by (rule states_ignoring) (simp add: sim_tracks [OF assms(1)] phone_tracks [OF assms(1)])
qed simp

lemma requested_tracks:
  assumes "keeping_phone ph sel" "tracks sel s"
  shows "states (tracks sel) (ATGEN_SetRequestedSMSMemory ph m w s)"
  unfolding states_iff
proof (intro conjI allI impI)
  fix s'
  assume "ATGEN_SetRequestedSMSMemory ph m w s = Go s'"
  from requested_selects [OF keeping_selects [OF assms(1)] assms(2) this] show "tracks sel s'" by simp
next
  fix e s'
  assume f: "ATGEN_SetRequestedSMSMemory ph m w s = Fail (e, s')"
  then consider "s' = s" | cmd where "ATGEN_IsMemoryAvailable s m" "ATGEN_BuildCPMSCommand s (GSM_MemoryTypeToString m) w 50 = Some cmd"
      "andthen (encoded_commands ph s) (\<lambda>s. andthen (ATGEN_WaitFor ph cmd generic_reply s) (\<lambda>s. Go (selected m w s))) = Fail (e, s')"
    by (auto simp: ATGEN_SetRequestedSMSMemory_def split: if_splits option.splits)
  then show "tracks sel s'"
  proof cases
    case 2
    have "m \<in> {1, 2, 7, 12}"
      using 2(1) by (auto simp: ATGEN_IsMemoryAvailable_def MEM_ME_def MEM_SM_def MEM_MT_def MEM_SR_def)
    then have "(m, GSM_MemoryTypeToString m) \<in> set memory_names" by (auto simp: GSM_MemoryTypeToString_def memory_names_def)
    note n = built_names [OF 2(2) this]
    have c: "states (same_memory sel s) (encoded_commands ph s)" by (rule charset_same [OF keeping_selects [OF assms(1)]])
    from 2(3) consider "encoded_commands ph s = Fail (e, s')"
      | s1 where "encoded_commands ph s = Go s1" "ATGEN_WaitFor ph cmd generic_reply s1 = Fail (e, s')"
      unfolding andthen_Fail by auto
    then have "same_memory sel s s'"
    proof cases
      case 1
      then show ?thesis using c by simp
    next
      case w: 2
      then show ?thesis using c same_memory_trans generic_refused [OF assms(1) n w(2)] by simp blast
    qed
    then show ?thesis using assms(2) by (rule same_memory_tracks)
  qed (use assms(2) in simp)
qed

lemma location_tracks:
  assumes "keeping_phone ph sel" "tracks sel s"
  shows "\<forall>e s'. ATGEN_GetSMSLocation ph w s = Fail (e, s') \<longrightarrow> tracks sel s'"
proof (intro allI impI)
  fix e s'
  define r where "r = (if PhoneSMSMemory s = AT_UNTESTED \<or> SIMSMSMemory s = AT_UNTESTED \<or> SRSMSMemory s = AT_UNTESTED
              then ATGEN_GetSMSMemories ph s else Go s)"
  have same: "states (tracks sel) r"
    using states_same_tracks [OF memories_same [OF keeping_selects [OF assms(1)]] assms(2)] assms(2) by (simp add: r_def)
  assume "ATGEN_GetSMSLocation ph w s = Fail (e, s')"
  then consider "r = Fail (e, s')" | "r = Go s'"
    | s1 folderid where "r = Go s1" "set_location_memory ph folderid w s1 = Fail (e, s')"
    unfolding ATGEN_GetSMSLocation_def r_def [symmetric] andthen_Fail
    by (auto simp: andthen_Fail split: if_splits option.splits)
  then show "tracks sel s'"
  proof cases
    case 3
    then have t: "tracks sel s1" using same by simp
    then have "tracks sel (s1\<lparr>Got := sms\<rparr>)" for sms by (simp add: tracks_def)
    then have "states (tracks sel) (set_location_memory ph folderid w s1)"
      unfolding set_location_memory_def Let_def using requested_tracks [OF assms(1) t] set_memory_tracks [OF assms(1)] by simp
    then show ?thesis using 3(2) by simp
  qed (use same in auto)
qed

text \<open>
  The status is asked for with the commands that select, and the memory is noted when the counters have
  been read from the answer: a phone that accepts the command and leaves the counters out has selected
  a memory that is not noted. Phones that count do not.
\<close>

definition counting_phone :: "'p at_phone \<Rightarrow> bool" where
  "counting_phone ph \<longleftrightarrow>
     (\<forall>p cmd msg p' core s e s'. Ask ph p cmd = (Inr msg, p') \<longrightarrow> names_memory cmd \<noteq> None \<longrightarrow>
        ATGEN_DispatchMessage (F_CPIN_NO_OK \<in> Features ph) msg core = Inr (Core s) \<longrightarrow> ATGEN_GenericReply (Core s) = ERR_NONE \<longrightarrow>
        ATGEN_ReplyGetSMSStatus ph msg s \<noteq> Fail (e, s'))"

lemma status_refused:
  assumes "keeping_phone ph sel" "counting_phone ph" "names_memory cmd = Some m"
    "ATGEN_WaitFor ph cmd (ATGEN_ReplyGetSMSStatus ph) s = Fail (e, s')"
  shows "same_memory sel s s'"
proof (rule wait_refused [OF assms(1,3,4)])
  fix p msg l core and t t' :: "'a at_sms" and e
  assume a: "Ask ph p cmd = (Inr msg, l)" "ATGEN_DispatchMessage (F_CPIN_NO_OK \<in> Features ph) msg core = Inr (Core t)"
    "ATGEN_ReplyGetSMSStatus ph msg t = Fail (e, t')"
  then have "ATGEN_GenericReply (Core t) \<noteq> ERR_NONE" using assms(2,3) unfolding counting_phone_def by blast
  then show "same_memory sel t t' \<and> ATGEN_GenericReply (Core t) \<noteq> ERR_NONE"
    using status_reply_same [of sel t ph msg] a(3) by simp
qed

text \<open>Without the counters the memory is selected and not noted.\<close>

lemma uncounted_memory:
  assumes "selecting_phone ph sel" "names_memory cmd = Some m" "Ask ph (Link s) cmd = (Inr msg, l)"
    "ATGEN_DispatchMessage (F_CPIN_NO_OK \<in> Features ph) msg (Core s) = Inr core" "ATGEN_GenericReply core = ERR_NONE"
    "ATGEN_WaitFor ph cmd (ATGEN_ReplyGetSMSStatus ph) s = Fail (e, s')"
  shows "sel (Link s') = m \<and> SMSMemory s' = SMSMemory s"
proof -
  have "accepted ph msg" using assms(4,5) unfolding accepted_def by blast
  then have l: "sel l = m" using assms(1-3) unfolding selecting_phone_def by fastforce
  have "ATGEN_ReplyGetSMSStatus ph msg (s\<lparr>Link := l, Core := core\<rparr>) = Fail (e, s')"
    using assms(3,4,6) by (simp add: ATGEN_WaitFor_def)
  then have "same_memory sel (s\<lparr>Link := l, Core := core\<rparr>) s'"
    using status_reply_same [of sel "s\<lparr>Link := l, Core := core\<rparr>" ph msg] by simp
  then show ?thesis using l by (simp add: same_memory_def)
qed

lemma query_tracks:
  assumes "keeping_phone ph sel" "tracks sel s"
  shows "states (tracks sel) (ATGEN_QuerySMSMemoryStatus ph m w s)"
  unfolding ATGEN_QuerySMSMemoryStatus_def
proof (rule states_andthen [OF requested_tracks [OF assms]])
  fix s1
  assume t: "tracks sel s1"
  have "states (same_memory sel s1) (ATGEN_WaitFor ph (command ''AT+CPMS?'') (ATGEN_ReplyGetSMSStatus ph) s1)"
    by (rule wait_same [OF keeping_selects [OF assms(1)]]) (simp_all add: status_reply_same)
  then show "states (tracks sel) (ATGEN_WaitFor ph (command ''AT+CPMS?'') (ATGEN_ReplyGetSMSStatus ph) s1)" using t by (rule states_same_tracks)
qed simp

lemma tracks_noted [simp]: "tracks sel (s\<lparr>SMSMemoryWrite := w\<rparr>) = tracks sel s" "tracks sel (s\<lparr>LastSMSStatus := st\<rparr>) = tracks sel s"
  by (simp_all add: tracks_def)

lemma sim_status_states:
  assumes "keeping_phone ph sel" "tracks sel s" "counting_phone ph"
  shows "states (tracks sel) (sim_status ph s)"
  unfolding states_iff
proof (intro conjI allI impI)
  fix s'
  assume "sim_status ph s = Go s'"
  then show "tracks sel s'" by (rule sim_status_tracks [OF keeping_selects [OF assms(1)] assms(2)])
next
  fix e s'
  assume f: "sim_status ph s = Fail (e, s')"
  then consider "s' = s" | "ATGEN_QuerySMSMemoryStatus ph MEM_SM (SIMSaveSMS s = AT_AVAILABLE) s = Fail (e, s')"
    | cmd s1 where "ATGEN_BuildCPMSCommand s (bytes_of ''SM'') (SIMSaveSMS s = AT_AVAILABLE) 50 = Some cmd"
      "ATGEN_WaitFor ph cmd (ATGEN_ReplyGetSMSStatus ph) s = Fail (e, s1)" "s' = s1\<lparr>SMSMemoryWrite := (SIMSaveSMS s = AT_AVAILABLE)\<rparr>"
    by (auto simp: sim_status_def Let_def andthen_Fail handle_Fail split: if_splits option.splits)
  then show "tracks sel s'"
  proof cases
    case 2
    then show ?thesis using query_tracks [OF assms(1,2)] by (metis states.simps(3))
  next
    case 3
    have "names_memory cmd = Some MEM_SM"
      using built_names [OF 3(1), of 2] by (simp add: memory_names_def MEM_SM_def MEM_MT_def)
    from same_memory_tracks [OF status_refused [OF assms(1,3) this 3(2)] assms(2)] show ?thesis by (simp add: 3(3))
  qed (use assms(2) in simp)
qed

lemma phone_status_states:
  assumes "keeping_phone ph sel" "tracks sel s" "counting_phone ph"
  shows "states (tracks sel) (phone_status ph s)"
  unfolding states_iff
proof (intro conjI allI impI)
  fix s'
  assume "phone_status ph s = Go s'"
  then show "tracks sel s'" by (rule phone_status_tracks [OF keeping_selects [OF assms(1)] assms(2)])
next
  fix e s'
  assume f: "phone_status ph s = Fail (e, s')"
  then consider "s' = s" | "ATGEN_QuerySMSMemoryStatus ph MEM_ME (PhoneSaveSMS s = AT_AVAILABLE) s = Fail (e, s')"
    | w where "ATGEN_WaitFor ph (command ''AT+CPMS=\"MT\"'') (ATGEN_ReplyGetSMSStatus ph) (s\<lparr>SMSMemoryWrite := w\<rparr>) = Fail (e, s')"
    | cmd w where "ATGEN_BuildCPMSCommand s (bytes_of ''ME'') w 50 = Some cmd"
      "ATGEN_WaitFor ph cmd (ATGEN_ReplyGetSMSStatus ph) (s\<lparr>SMSMemoryWrite := w\<rparr>) = Fail (e, s')"
    by (auto simp: phone_status_def Let_def andthen_Fail split: if_splits option.splits)
  then show "tracks sel s'"
  proof cases
    case 2
    then show ?thesis using query_tracks [OF assms(1,2)] by (metis states.simps(3))
  next
    case 3
    from same_memory_tracks [OF status_refused [OF assms(1,3) motorola_status_names 3]] show ?thesis using assms(2) by simp
  next
    case 4
    have "names_memory cmd = Some MEM_ME"
      using built_names [OF 4(1), of 1] by (simp add: memory_names_def MEM_ME_def MEM_MT_def)
    from same_memory_tracks [OF status_refused [OF assms(1,3) this 4(2)]] show ?thesis using assms(2) by simp
  qed (use assms(2) in simp)
qed

lemma try_memory_tracks:
  assumes "keeping_phone ph sel" "tracks sel s"
  shows "states (tracks sel) (try_memory ph SIM s)"
proof -
  have "states (tracks sel) (ATGEN_SetSMSMemory ph SIM False False s)" by (rule set_memory_tracks [OF assms])
  then show ?thesis using assms(2)
    by (cases "ATGEN_SetSMSMemory ph SIM False False s") (auto simp: try_memory_def)
qed

lemma status_states:
  assumes "keeping_phone ph sel" "tracks sel s" "counting_phone ph"
  shows "states (tracks sel) (ATGEN_GetSMSStatus ph s)"
  unfolding ATGEN_GetSMSStatus_def Let_def
proof (rule states_ignoring [where P = "tracks sel"], goal_cases)
  case 1
  then show ?case using states_same_tracks [OF memories_same [OF keeping_selects [OF assms(1)]]] assms(2) by simp
next
  case (2 t)
  then show ?case
  proof (rule states_andthen [OF try_memory_tracks [OF assms(1)]], goal_cases)
    case (1 t)
    then show ?case
    proof (rule states_andthen [OF try_memory_tracks [OF assms(1)]], goal_cases)
      case (1 t)
      then have "states (tracks sel) (if SIMSMSMemory t = AT_AVAILABLE then sim_status ph t else Go t)"
        using sim_status_states [OF assms(1) _ assms(3)] by simp
      then show ?case
        by (rule states_andthen) (use phone_status_states [OF assms(1) _ assms(3)] in simp_all)
    qed
  qed
qed

lemma status_goes:
  assumes "keeping_phone ph sel" "tracks sel s" "ATGEN_GetSMSStatus ph s = Go s'"
  shows "tracks sel s'"
proof -
  define s0 where "s0 = s\<lparr>LastSMSStatus := (LastSMSStatus s)\<lparr>TemplatesUsed := 0, SIMUsed := 0, SIMUnRead := 0, SIMSize := 0\<rparr>\<rparr>"
  define r where "r = (if SIMSMSMemory s0 = AT_UNTESTED \<or> PhoneSMSMemory s0 = AT_UNTESTED then ATGEN_GetSMSMemories ph s0 else Go s0)"
  have "tracks sel s0" using assms(2) by (simp add: s0_def)
  then have r: "states (tracks sel) r" using states_same_tracks [OF memories_same [OF keeping_selects [OF assms(1)]], of s0] by (simp add: r_def)
  obtain t1 t2 t3 t4 where t: "(\<exists>e. r = Fail (e, t1)) \<or> r = Go t1" "try_memory ph False t1 = Go t2" "try_memory ph True t2 = Go t3"
    "(if SIMSMSMemory t3 = AT_AVAILABLE then sim_status ph t3 else Go t3) = Go t4"
    "(let s1 = t4\<lparr>LastSMSStatus := (LastSMSStatus t4)\<lparr>PhoneUsed := 0, PhoneUnRead := 0, PhoneSize := 0\<rparr>\<rparr>
      in if PhoneSMSMemory s1 = AT_AVAILABLE then phone_status ph s1 else Go s1) = Go s'"
    using assms(3) unfolding ATGEN_GetSMSStatus_def s0_def [symmetric] Let_def r_def [symmetric] ignoring_Go andthen_Go by blast
  have "tracks sel t1" using t(1) r by auto
  then have "tracks sel t2" using try_memory_tracks [OF assms(1), of t1 False] t(2) by simp
  then have t3: "tracks sel t3" using try_memory_tracks [OF assms(1), of t2 True] t(3) by simp
  then have "tracks sel t4" using t(4) sim_status_tracks [OF keeping_selects [OF assms(1)] t3] by (auto split: if_splits)
  moreover define t5 where "t5 = t4\<lparr>LastSMSStatus := (LastSMSStatus t4)\<lparr>PhoneUsed := 0, PhoneUnRead := 0, PhoneSize := 0\<rparr>\<rparr>"
  ultimately have t5: "tracks sel t5" by simp
  have "(if PhoneSMSMemory t5 = AT_AVAILABLE then phone_status ph t5 else Go t5) = Go s'" using t(5) unfolding t5_def [symmetric] Let_def .
  with phone_status_tracks [OF keeping_selects [OF assms(1)] t5] t5 show ?thesis by (auto split: if_split_asm)
qed

subsection \<open>Any order of operations\<close>

text \<open>
  What the module does to its state: each operation, with the state it leaves when it ends well and when it ends with an error,
  and changes that leave the selection alone, such as a new message of the caller. Asking for the status may fail only
  with a phone that counts.
\<close>

inductive memory_step :: "'p at_phone \<Rightarrow> ('p \<Rightarrow> GSM_MemoryType) \<Rightarrow> 'p at_sms \<Rightarrow> 'p at_sms \<Rightarrow> bool" for ph sel where
  step_set: "ATGEN_SetSMSMemory ph SIM w out s = r \<Longrightarrow> r = Go s' \<or> r = Fail (e, s') \<Longrightarrow> memory_step ph sel s s'"
| step_requested: "ATGEN_SetRequestedSMSMemory ph m w s = r \<Longrightarrow> r = Go s' \<or> r = Fail (e, s') \<Longrightarrow> memory_step ph sel s s'"
| step_location: "ATGEN_GetSMSLocation ph w s = r \<Longrightarrow> r = Go (place, s') \<or> r = Fail (e, s') \<Longrightarrow> memory_step ph sel s s'"
| step_memories: "ATGEN_GetSMSMemories ph s = r \<Longrightarrow> r = Go s' \<or> r = Fail (e, s') \<Longrightarrow> memory_step ph sel s s'"
| step_status: "ATGEN_GetSMSStatus ph s = r \<Longrightarrow> r = Go s' \<or> r = Fail (e, s') \<and> counting_phone ph \<Longrightarrow> memory_step ph sel s s'"
| step_other: "SMSMemory s' = SMSMemory s \<Longrightarrow> sel (Link s') = sel (Link s) \<Longrightarrow> memory_step ph sel s s'"

lemma memory_step_tracks:
  assumes "keeping_phone ph sel" "memory_step ph sel s s'" "tracks sel s"
  shows "tracks sel s'"
  using assms(2)
proof cases
  case (step_set SIM w out r)
  then show ?thesis using set_memory_tracks [OF assms(1,3), of SIM w out] by auto
next
  case (step_requested m w r)
  then show ?thesis using requested_tracks [OF assms(1,3), of m w] by auto
next
  case (step_location w r)
  then show ?thesis using location_memory [OF keeping_selects [OF assms(1)] assms(3), of w] location_tracks [OF assms(1,3), of w] by (metis prod.exhaust)
next
  case (step_memories r)
  then show ?thesis using states_same_tracks [OF memories_same [OF keeping_selects [OF assms(1)]] assms(3)] by auto
next
  case (step_status r)
  then show ?thesis using status_goes [OF assms(1,3)] status_states [OF assms(1,3)] by auto
next
  case step_other
  then show ?thesis using assms(3) by (simp add: tracks_def)
qed

lemma memory_steps_track:
  "(memory_step ph sel)\<^sup>*\<^sup>* s0 s \<Longrightarrow> keeping_phone ph sel \<Longrightarrow> tracks sel s0 \<Longrightarrow> tracks sel s"
  by (induction rule: rtranclp_induct) (auto intro: memory_step_tracks)

end
