(* ===== verification/AtRange.thy ===== *)
theory AtRange imports AtScan begin

text \<open>
  The range of locations a phone reports, and the names the library gives to them.
\<close>

subsection \<open>Bounds\<close>

definition max_location :: "GSM_Feature set \<Rightarrow> int" where
  "max_location features = (if F_SMS_LOCATION_0 \<in> features then GSM_PHONE_MAXSMSINFOLDER - 1 else GSM_PHONE_MAXSMSINFOLDER)"

definition range_ok :: "int \<Rightarrow> (int \<times> int) option \<Rightarrow> bool" where
  "range_ok m found \<longleftrightarrow> (case found of None \<Rightarrow> True | Some (f, l) \<Rightarrow> 0 \<le> f \<and> f \<le> l \<and> l < m)"

lemma joined_range_ok:
  "range_ok m found \<Longrightarrow> 0 \<le> first \<Longrightarrow> first \<le> final \<Longrightarrow> final < m \<Longrightarrow> range_ok m (joined_range found first final)"
  by (auto simp: range_ok_def joined_range_def split: option.splits)

lemma parse_ranges_ok: "range_ok m found \<Longrightarrow> range_ok m (snd (parse_ranges m s found))"
proof (induction m s found rule: parse_ranges.induct)
  case (1 m s found)
  show ?case
  proof (cases "s \<noteq> [] \<and> hd s \<noteq> 41")
    case True
    show ?thesis
    proof (cases "one_range s")
      case (Some p)
      obtain first final r where p: "p = (first, final, r)" by (cases p)
      show ?thesis
      proof (cases "first < 0 \<or> final < first \<or> final \<ge> m")
        case False
        then have ok: "range_ok m (joined_range found first final)" using joined_range_ok "1.prems" by simp
        show ?thesis
        proof (cases "r \<noteq> [] \<and> hd r = 44")
          case comma: True
          have "range_ok m (snd (parse_ranges m (dropWhile isspace (tl r)) (joined_range found first final)))"
            by (rule "1.IH" [OF _ _ Some p [symmetric] refl _ refl]) (use False True comma ok in auto)
          then show ?thesis using True Some p False comma by (subst parse_ranges.simps) simp
        qed (use True Some p False ok in \<open>subst parse_ranges.simps; auto simp: Let_def\<close>)
      qed (use True Some p "1.prems" in \<open>subst parse_ranges.simps; auto simp: Let_def\<close>)
    qed (use True "1.prems" in \<open>subst parse_ranges.simps; auto simp: Let_def\<close>)
  qed (use "1.prems" in \<open>subst parse_ranges.simps; auto simp: Let_def\<close>)
qed

lemma parse_ranges_found: "fst (parse_ranges m s found) \<Longrightarrow> snd (parse_ranges m s found) \<noteq> None"
proof (induction m s found rule: parse_ranges.induct)
  case (1 m s found)
  have joined: "joined_range found f l \<noteq> None" for f l by (simp add: joined_range_def split: option.split)
  show ?case
  proof (cases "s \<noteq> [] \<and> hd s \<noteq> 41")
    case True
    show ?thesis
    proof (cases "one_range s")
      case (Some p)
      obtain first final r where p: "p = (first, final, r)" by (cases p)
      show ?thesis
      proof (cases "\<not> (first < 0 \<or> final < first \<or> final \<ge> m) \<and> r \<noteq> [] \<and> hd r = 44")
        case comma: True
        have u: "parse_ranges m s found = parse_ranges m (dropWhile isspace (tl r)) (joined_range found first final)"
          using True Some p comma by (subst parse_ranges.simps) simp
        show ?thesis unfolding u by (rule "1.IH" [OF _ _ Some p [symmetric] refl _ refl]) (use True comma "1.prems" u in auto)
      qed (use True Some p "1.prems" joined in \<open>subst (asm) parse_ranges.simps; subst parse_ranges.simps; auto simp: Let_def split: if_splits\<close>)
    qed (use True "1.prems" in \<open>subst (asm) parse_ranges.simps; auto\<close>)
  qed (use "1.prems" in \<open>subst (asm) parse_ranges.simps; subst parse_ranges.simps; auto simp: Let_def split: if_splits\<close>)
qed

subsection \<open>Names of locations\<close>

lemma location_returns:
  assumes "folderid = 1 \<or> folderid = 2" "0 \<le> location" "location < max_location features"
  shows "at_location features both (ATGEN_SetSMSLocation features folderid location sms) = Some (folderid, location)"
proof -
  define x where "x = (if F_SMS_LOCATION_0 \<in> features then location + 1 else location)"
  have x: "0 \<le> x" "x < 100000" using assms(2,3) by (auto simp: x_def max_location_def GSM_PHONE_MAXSMSINFOLDER_def)
  have l: "flat_location features folderid location = (uint folderid - 1) * 100000 + x"
    by (simp add: flat_location_def GSM_PHONE_MAXSMSINFOLDER_def x_def)
  have "c_div x 100000 = 0" "c_div (100000 + x) 100000 = 1" using x by (simp_all add: c_div_def sgn_if)
  then show ?thesis using assms(1)
    by (auto simp: at_location_def ATGEN_SetSMSLocation_def GSM_PHONE_MAXSMSINFOLDER_def l) (simp_all add: x_def)
qed

end
