(* ===== verification/AtStore.thy ===== *)
theory AtStore imports AtAnswers AtSelect AtRange begin

text \<open>
  All messages of a phone that keeps to the standard are read, each once. The phone is described by what it
  answers: the counters of a memory when it is selected, the range of its locations, and a message or none
  for a location.
\<close>

subsection \<open>A phone with a store\<close>

text \<open>A message as the phone holds it: its status, the rest of the line with the status, and the PDU in hexadecimal.\<close>

type_synonym cell = "int \<times> byte list \<times> byte list"

definition status_head :: "cell \<Rightarrow> byte list" where
  "status_head c = (case c of (st, tail, pdu) \<Rightarrow> bytes_of ''+CMGR: '' @ decimal_int st @ 44 # tail)"

definition cell_lines :: "int \<Rightarrow> cell \<Rightarrow> byte list list" where
  "cell_lines location c = [butlast (read_command location), status_head c, snd (snd c), bytes_of ''OK'']"

definition no_cell_lines :: "int \<Rightarrow> byte list list set" where
  "no_cell_lines location = {[butlast (read_command location), bytes_of ''OK''],
     [butlast (read_command location), bytes_of ''+CMS ERROR: '' @ decimal_int 321]}"

definition range_lines :: "int \<times> int \<Rightarrow> byte list \<Rightarrow> byte list list" where
  "range_lines r tail = [bytes_of ''AT+CMGD=?'', bytes_of ''+CMGD: ('' @ decimal_int (fst r) @ 45 # decimal_int (snd r) @ 41 # tail, bytes_of ''OK'']"

definition counter_lines :: "byte list \<Rightarrow> int \<Rightarrow> int \<Rightarrow> byte list \<Rightarrow> byte list list" where
  "counter_lines cmd used all tail = [butlast cmd, bytes_of ''+CPMS: '' @ decimal_int used @ 44 # decimal_int all @ 44 # tail, bytes_of ''OK'']"

definition counter_tail :: "byte list \<Rightarrow> bool" where
  "counter_tail tail \<longleftrightarrow> (\<forall>b \<in> set tail. b = 44 \<or> isdigit b)"

definition memory_commands :: "GSM_MemoryType \<Rightarrow> byte list set" where
  "memory_commands m = (let q = quoted_name (GSM_MemoryTypeToString m) in
     {bytes_of ''AT+CPMS='' @ q @ [13], bytes_of ''AT+CPMS='' @ q @ 44 # q @ [13]})"

abbreviation two_memories :: "GSM_MemoryType set" where "two_memories \<equiv> {MEM_SM, MEM_ME}"

definition standard_phone :: "'p at_phone \<Rightarrow> ('p \<Rightarrow> GSM_MemoryType) \<Rightarrow> (GSM_MemoryType \<Rightarrow> int \<Rightarrow> cell option)
    \<Rightarrow> (GSM_MemoryType \<Rightarrow> int \<times> int) \<Rightarrow> (GSM_MemoryType \<Rightarrow> int) \<Rightarrow> bool" where
  "standard_phone ph sel cells bounds used \<longleftrightarrow>
     (\<forall>p. \<forall>m \<in> two_memories. \<forall>cmd \<in> memory_commands m. \<exists>all tail p'. counter_tail tail \<and> 0 \<le> all \<and> all < 2 ^ 31
        \<and> Ask ph p cmd = (Inr (joined eol (counter_lines cmd (used m) all tail)), p'))
     \<and> (\<forall>p. sel p \<in> two_memories \<longrightarrow> (\<exists>tail p'. at_line_ok (41 # tail)
        \<and> Ask ph p (command ''AT+CMGD=?'') = (Inr (joined eol (range_lines (bounds (sel p)) tail)), p')))
     \<and> (\<forall>p location. sel p \<in> two_memories \<longrightarrow> (\<exists>ls p'. Ask ph p (read_command location) = (Inr (joined eol ls), p')
        \<and> (case cells (sel p) location of Some c \<Rightarrow> ls = cell_lines location c | None \<Rightarrow> ls \<in> no_cell_lines location)))"

definition cell_ok :: "c_locale \<Rightarrow> bool \<Rightarrow> cell \<Rightarrow> bool" where
  "cell_ok loc on_sim c \<longleftrightarrow> (case c of (st, tail, pdu) \<Rightarrow> - (2 ^ 31) \<le> st \<and> st < 2 ^ 31 \<and> at_line_ok (44 # tail) \<and> at_line_ok pdu
     \<and> length (status_head c) < 3000 \<and> status_head c \<noteq> bytes_of ''+CMGR: 0,,0''
     \<and> (\<forall>sms. sms_arrays sms \<longrightarrow> (\<exists>sms'. ATGEN_DecodePDUMessage loc on_sim pdu st sms = Go sms' \<and> sms_arrays sms')))"

definition store_ok :: "'p at_phone \<Rightarrow> (GSM_MemoryType \<Rightarrow> int \<Rightarrow> cell option) \<Rightarrow> (GSM_MemoryType \<Rightarrow> int \<times> int)
    \<Rightarrow> (GSM_MemoryType \<Rightarrow> int) \<Rightarrow> bool" where
  "store_ok ph cells bounds used \<longleftrightarrow> (\<forall>m \<in> two_memories.
     0 \<le> fst (bounds m) \<and> fst (bounds m) \<le> snd (bounds m) \<and> snd (bounds m) < max_location (Features ph)
     \<and> 0 \<le> used m \<and> used m < 2 ^ 31
     \<and> (\<forall>location c. cells m location = Some c \<longrightarrow> cell_ok (Loc ph) (m = MEM_SM) c))"

text \<open>The locations in use.\<close>

definition occupied :: "(GSM_MemoryType \<Rightarrow> int \<Rightarrow> cell option) \<Rightarrow> GSM_MemoryType \<Rightarrow> int \<Rightarrow> int \<Rightarrow> int list" where
  "occupied cells m first final = filter (\<lambda>l. cells m l \<noteq> None) [first..final]"

subsection \<open>Whole lines\<close>

lemma decimal_line: "\<forall>b \<in> set (decimal_int v). isdigit b \<or> b = 45"
  using decimal_digits by (auto simp: decimal_int_def)

lemma decimal_not [simp]:
  "0 \<notin> set (decimal_int v)" "10 \<notin> set (decimal_int v)" "13 \<notin> set (decimal_int v)" "32 \<notin> set (decimal_int v)"
  "34 \<notin> set (decimal_int v)" "44 \<notin> set (decimal_int v)" "67 \<notin> set (decimal_int v)" "decimal_int v \<noteq> []"
proof -
  have "b \<notin> set (decimal_int v)" if "\<not> isdigit b" "b \<noteq> 45" for b using decimal_line [of v] that by blast
  then show "0 \<notin> set (decimal_int v)" "10 \<notin> set (decimal_int v)" "13 \<notin> set (decimal_int v)" "32 \<notin> set (decimal_int v)"
    "34 \<notin> set (decimal_int v)" "44 \<notin> set (decimal_int v)" "67 \<notin> set (decimal_int v)" by (simp_all add: isdigit_def)
qed (use decimal_digits in \<open>simp add: decimal_int_def\<close>)

text \<open>A line of a start without quotes, and more octets that neither end it nor leave a quote open.\<close>

lemma line_ok_parts:
  assumes "l = p @ r" "p \<noteq> []" "set p \<inter> {0, 10, 13, 34} = {}" "at_line_ok (44 # r) \<or> at_line_ok (41 # r)"
  shows "at_line_ok l"
proof -
  have "filter (\<lambda>b. b = 34) p = []" "hd (p @ r) \<noteq> 34" using assms(2,3) by (cases p; auto simp: filter_empty_conv)+
  then show ?thesis using assms by (auto simp: at_line_ok_def good_line_def)
qed

lemma line_ok_plain: "l \<noteq> [] \<Longrightarrow> set l \<inter> {0, 10, 13, 34} = {} \<Longrightarrow> at_line_ok l"
  using line_ok_parts [of l l "[]"] by (auto simp: at_line_ok_def good_line_def)

lemma echo_line: "butlast (read_command l) = bytes_of ''AT+CMGR='' @ decimal_int l"
  by (simp add: read_command_def butlast_append)

lemma final_lines: "at_line_ok (bytes_of ''OK'')" "at_line_ok (bytes_of ''+CMS ERROR: '' @ decimal_int c)"
  by (auto intro!: line_ok_plain)

lemma echo_ok: "at_line_ok (butlast (read_command l))"
  unfolding echo_line by (intro line_ok_plain) auto

lemma status_head_ok: "cell_ok loc on_sim c \<Longrightarrow> at_line_ok (status_head c)"
proof -
  assume "cell_ok loc on_sim c"
  then obtain st tail pdu where c: "c = (st, tail, pdu)" "at_line_ok (44 # tail)" by (auto simp: cell_ok_def)
  show ?thesis
    by (rule line_ok_parts [of _ "bytes_of ''+CMGR: '' @ decimal_int st @ [44]" tail])
       (use c in \<open>auto simp: status_head_def\<close>)
qed

lemma cell_answer_ok: "cell_ok loc on_sim c \<Longrightarrow> good_answer (cell_lines l c)"
  using status_head_ok [of loc on_sim c] final_lines(1) echo_ok [of l]
  by (auto simp: good_answer_def cell_lines_def after_echo_def status_head_def echo_line cell_ok_def simp del: bytes_of_simps)
     (simp_all add: status_head_def)

lemma no_cell_answer_ok: "ls \<in> no_cell_lines l \<Longrightarrow> good_answer ls"
  using final_lines echo_ok [of l]
  by (auto simp: good_answer_def no_cell_lines_def after_echo_def echo_line simp del: bytes_of_simps) simp_all

lemma range_answer_ok: "at_line_ok (41 # tail) \<Longrightarrow> good_answer (range_lines r tail)"
proof -
  assume "at_line_ok (41 # tail)"
  then have "at_line_ok (bytes_of ''+CMGD: ('' @ decimal_int (fst r) @ 45 # decimal_int (snd r) @ 41 # tail)"
    by (intro line_ok_parts [of _ "bytes_of ''+CMGD: ('' @ decimal_int (fst r) @ 45 # decimal_int (snd r) @ [41]" tail])
       auto
  moreover have "at_line_ok (bytes_of ''AT+CMGD=?'')" by (rule line_ok_plain) auto
  ultimately show ?thesis using final_lines(1) by (simp add: good_answer_def range_lines_def after_echo_def)
qed

subsection \<open>Numbers in the answers\<close>

lemma int_read:
  assumes "- (2 ^ 31) \<le> v" "v < 2 ^ 31"
  shows "directive env loc 105 (decimal_int v @ 44 # r) stored rooms = Go (stored @ [Num v], 44 # r, rooms)"
    "dropWhile isspace (32 # decimal_int v @ 44 # r) = decimal_int v @ 44 # r"
    "dropWhile isspace (decimal_int v @ 44 # r) = decimal_int v @ 44 # r"
  using field_step [of env "FInt v" "44 # r" loc stored rooms] assms
    skip_blanks [of "[32]" env "FInt v" "44 # r"] skip_blanks [of "[]" env "FInt v" "44 # r"]
  by (auto simp: ends_field_def blank_around_def isspace_def)

lemma head_read:
  assumes "- (2 ^ 31) \<le> st" "st < 2 ^ 31" "cstr line = bytes_of ''+CMGR: '' @ decimal_int st @ 44 # tail"
  shows "ATGEN_ParseReply env loc line (bytes_of ''+CMGR: @i, @0'') [] = Go [Num st]"
proof -
  have "parse_format env loc (bytes_of ''+CMGR:'' @ bytes_of '' @i, @0'') (bytes_of ''+CMGR:'' @ 32 # decimal_int st @ 44 # tail) [] [] = Go [Num st]"
    by (subst prefix_read) (use int_read [OF assms(1,2)] in simp_all)
  moreover have "cstr (bytes_of ''+CMGR: @i, @0'') = bytes_of ''+CMGR:'' @ bytes_of '' @i, @0''" by (simp add: cstr_Cons)
  ultimately show ?thesis by (simp add: ATGEN_ParseReply_def assms(3) del: parse_format.simps)
qed

lemma counters_read:
  assumes "0 \<le> used" "used < 2 ^ 31" "0 \<le> all" "all < 2 ^ 31" "cstr line = bytes_of ''+CPMS: '' @ decimal_int used @ 44 # decimal_int all @ 44 # tail"
  shows "ATGEN_ParseReply env loc line (bytes_of ''+CPMS: @i, @i, @0'') [] = Go [Num used, Num all]"
proof -
  have b: "- (2 ^ 31) \<le> used" "- (2 ^ 31) \<le> all" using assms by simp_all
  have "parse_format env loc (bytes_of ''+CPMS:'' @ bytes_of '' @i, @i, @0'') (bytes_of ''+CPMS:'' @ 32 # decimal_int used @ 44 # decimal_int all @ 44 # tail) [] []
      = Go [Num used, Num all]"
    by (subst prefix_read) (use int_read [OF b(1) assms(2)] int_read [OF b(2) assms(4)] in simp_all)
  moreover have "cstr (bytes_of ''+CPMS: @i, @i, @0'') = bytes_of ''+CPMS:'' @ bytes_of '' @i, @i, @0''" by (simp add: cstr_Cons)
  ultimately show ?thesis by (simp add: ATGEN_ParseReply_def assms(5) del: parse_format.simps)
qed

lemma range_read:
  assumes "0 \<le> f" "f \<le> l" "l < m" "m \<le> 100000"
  shows "parse_ranges m (decimal_int f @ 45 # decimal_int l @ 41 # tail) None = (True, Some (f, l))"
proof -
  have lim: "LONG_MIN \<le> f" "f \<le> LONG_MAX" "LONG_MIN \<le> l" "l \<le> LONG_MAX" using assms by (simp_all add: LONG_MIN_def LONG_MAX_def)
  have "strtol (decimal_int f @ 45 # r) = (f, length (decimal_int f), False)" "strtol (decimal_int l @ 41 # r) = (l, length (decimal_int l), False)" for r
    using lim by (auto intro!: strtol_decimal simp: ends_number_def isdigit_def)
  then have nums: "location_number (decimal_int f @ 45 # r) = Some (f, 45 # r)" "location_number (decimal_int l @ 41 # r) = Some (l, 41 # r)" for r
    by (simp_all add: location_number_def isspace_def)
  have "\<exists>b t. decimal_int x = b # t \<and> \<not> isspace b \<and> b \<noteq> 41" for x
    using decimal_line [of x] digit_not by (cases "decimal_int x") (auto simp: isspace_def isdigit_def)
  then have first: "\<not> isspace (hd (decimal_int x))" "hd (decimal_int x @ r) \<noteq> 41" "dropWhile isspace (decimal_int x @ r) = decimal_int x @ r" for x r
    by (metis list.sel(1) append_Cons dropWhile.simps(2))+
  have "one_range (decimal_int f @ 45 # decimal_int l @ 41 # tail) = Some (f, l, 41 # tail)"
    by (simp add: one_range_def nums first)
  then show ?thesis using assms first by (subst parse_ranges.simps) (simp add: joined_range_def Let_def)
qed

subsection \<open>The module between two messages\<close>

text \<open>What an exchange may change, and a state from which messages are read.\<close>

definition kept :: "'p at_sms \<Rightarrow> 'p at_sms \<Rightarrow> bool" where
  "kept s s' \<longleftrightarrow> s' = s\<lparr>Link := Link s', Core := Core s', SMSMemory := SMSMemory s', SMSMemoryWrite := SMSMemoryWrite s',
     Got := Got s', Got_Number := Got_Number s'\<rparr>"

definition scanning :: "('p \<Rightarrow> GSM_MemoryType) \<Rightarrow> 'p at_sms \<Rightarrow> bool" where
  "scanning sel s \<longleftrightarrow> SMSMode s = SMS_AT_PDU \<and> \<not> EncodedCommands s \<and> \<not> MotorolaSMS s \<and> \<not> CPMSReceiveMemory s
     \<and> SIMSMSMemory s = AT_AVAILABLE \<and> PhoneSMSMemory s = AT_AVAILABLE \<and> SRSMSMemory s \<noteq> AT_UNTESTED
     \<and> core_ok s \<and> sms_arrays (Got s) \<and> tracks sel s"

definition store_features :: "GSM_Feature set \<Rightarrow> bool" where
  "store_features fs \<longleftrightarrow> F_READ_SMSTEXTMODE \<notin> fs \<and> F_SMSME900 \<notin> fs \<and> F_DISABLE_CMGL \<in> fs"

lemma kept_refl [simp]: "kept s s"
  by (simp add: kept_def)

lemma kept_trans: "kept s s' \<Longrightarrow> kept s' s'' \<Longrightarrow> kept s s''"
  by (cases s; cases s'; cases s'') (simp add: kept_def)

lemma kept_fields:
  assumes "kept s s'"
  shows "SMSMode s' = SMSMode s" "EncodedCommands s' = EncodedCommands s" "MotorolaSMS s' = MotorolaSMS s"
    "CPMSReceiveMemory s' = CPMSReceiveMemory s" "SIMSMSMemory s' = SIMSMSMemory s" "PhoneSMSMemory s' = PhoneSMSMemory s"
    "SRSMSMemory s' = SRSMSMemory s" "LastSMSStatus s' = LastSMSStatus s" "LastSMSRead s' = LastSMSRead s"
    "SMSLocationFirst s' = SMSLocationFirst s" "SMSLocationLast s' = SMSLocationLast s" "SMSLocationPos s' = SMSLocationPos s"
    "SMSLocationTarget s' = SMSLocationTarget s" "SMSLocationMemory s' = SMSLocationMemory s"
    "SMSLocationLegacy s' = SMSLocationLegacy s" "SMSCache s' = SMSCache s"
  using assms by (cases s; cases s'; simp add: kept_def)+

lemma kept_scanning:
  "kept s s' \<Longrightarrow> scanning sel s \<Longrightarrow> core_ok s' \<Longrightarrow> sms_arrays (Got s') \<Longrightarrow> tracks sel s' \<Longrightarrow> scanning sel s'"
  by (simp add: scanning_def kept_fields)

lemma kept_exchange [simp]: "kept s (s\<lparr>Link := l, Core := core\<rparr>)"
  by (simp add: kept_def)

subsection \<open>Selecting\<close>

lemma memory_names_two: "(m, GSM_MemoryTypeToString m) \<in> set memory_names" if "m \<in> two_memories" for m
  using that by (auto simp: MEM_SM_def MEM_ME_def GSM_MemoryTypeToString_def memory_names_def)

lemma two_names: "GSM_MemoryTypeToString MEM_SM = bytes_of ''SM''" "GSM_MemoryTypeToString MEM_ME = bytes_of ''ME''"
  by (simp_all add: MEM_SM_def MEM_ME_def GSM_MemoryTypeToString_def memory_names_def)

lemma memory_command_names: "m \<in> two_memories \<Longrightarrow> cmd \<in> memory_commands m \<Longrightarrow> names_memory cmd = Some m"
  using names_of [OF memory_names_two, of m cmd]
  by (auto simp: memory_commands_def starts_iff Let_def MEM_SM_def MEM_ME_def MEM_MT_def simp del: bytes_of_simps)

lemma built_command:
  assumes "m \<in> two_memories" "\<not> CPMSReceiveMemory s"
  shows "\<exists>cmd. ATGEN_BuildCPMSCommand s (GSM_MemoryTypeToString m) w 50 = Some cmd \<and> cmd \<in> memory_commands m"
  using assms by (auto simp: ATGEN_BuildCPMSCommand_def memory_commands_def two_names quoted_name_def Let_def)

lemma counter_answer_ok:
  assumes "m \<in> two_memories" "cmd \<in> memory_commands m" "counter_tail tail"
  shows "good_answer (counter_lines cmd used all tail)"
proof -
  have t: "0 \<notin> set tail" "10 \<notin> set tail" "13 \<notin> set tail" "34 \<notin> set tail" "32 \<notin> set tail"
    using assms(3) by (auto simp: counter_tail_def isdigit_def)
  have "at_line_ok (bytes_of ''+CPMS: '' @ decimal_int used @ 44 # decimal_int all @ 44 # tail)"
    using t by (intro line_ok_plain) auto
  moreover have "at_line_ok (butlast cmd)"
    using assms(1,2) by (auto simp: memory_commands_def two_names quoted_name_def at_line_ok_def good_line_def Let_def)
  moreover have "\<exists>r. butlast cmd = 65 # r"
    using assms(1,2) by (auto simp: memory_commands_def two_names quoted_name_def Let_def)
  ultimately show ?thesis using final_lines(1) by (auto simp: good_answer_def counter_lines_def after_echo_def)
qed

text \<open>The exchange that selects a memory, with any reply that goes on.\<close>

lemma select_exchange:
  assumes "standard_phone ph sel cells bounds used" "selecting_phone ph sel" "scanning sel s" "m \<in> two_memories" "cmd \<in> memory_commands m"
  shows "\<exists>l core all tail. counter_tail tail \<and> 0 \<le> all \<and> all < 2 ^ 31 \<and> read_lines (counter_lines cmd (used m) all tail) (Core s) core
    \<and> ReplyState core = AT_Reply_OK \<and> core_ok (s\<lparr>Link := l, Core := core\<rparr>) \<and> sel l = m
    \<and> (\<forall>reply. ATGEN_WaitFor ph cmd reply s = reply (joined eol (counter_lines cmd (used m) all tail)) (s\<lparr>Link := l, Core := core\<rparr>))"
proof -
  from assms(1,4,5) obtain all tail l where a: "counter_tail tail" "0 \<le> all" "all < 2 ^ 31"
    "Ask ph (Link s) cmd = (Inr (joined eol (counter_lines cmd (used m) all tail)), l)"
    unfolding standard_phone_def by meson
  have good: "good_answer (counter_lines cmd (used m) all tail)" by (rule counter_answer_ok [OF assms(4,5) a(1)])
  have last: "last (counter_lines cmd (used m) all tail) = bytes_of ''OK''" by (simp add: counter_lines_def)
  have c: "core_ok s" using assms(3) by (simp add: scanning_def)
  obtain core where core: "read_lines (counter_lines cmd (used m) all tail) (Core s) core" "ReplyState core = AT_Reply_OK"
    "\<forall>reply. ATGEN_WaitFor ph cmd reply s = reply (joined eol (counter_lines cmd (used m) all tail)) (s\<lparr>Link := l, Core := core\<rparr>)"
    using wait_ok [OF a(4) good c last] by blast
  have "generic_reply (joined eol (counter_lines cmd (used m) all tail)) (s\<lparr>Link := l, Core := core\<rparr>) = Go (s\<lparr>Link := l, Core := core\<rparr>)"
    by (rule generic_ok) (simp add: core(2))
  then have "ATGEN_WaitFor ph cmd generic_reply s = Go (s\<lparr>Link := l, Core := core\<rparr>)" using core(3) by simp
  from wait_selects [OF assms(2) memory_command_names [OF assms(4,5)] accepting_generic this] have "sel l = m" by simp
  then show ?thesis using a core read_core_ok [OF core(1) c] by blast
qed

lemma kept_selected [simp]: "kept s (selected m w (s\<lparr>Link := l, Core := core\<rparr>))"
  by (simp add: kept_def selected_def)

lemma selected_scanning:
  assumes "scanning sel s" "core_ok (s\<lparr>Link := l, Core := core\<rparr>)" "sel l = m"
  shows "scanning sel (selected m w (s\<lparr>Link := l, Core := core\<rparr>))"
  by (rule kept_scanning [OF kept_selected assms(1)])
     (use assms in \<open>simp_all add: scanning_def selected_def core_ok_def tracks_def\<close>)

lemma generic_counters: "ReplyState core = AT_Reply_OK \<Longrightarrow> generic_reply msg (s\<lparr>Link := l, Core := core\<rparr>) = Go (s\<lparr>Link := l, Core := core\<rparr>)"
  by (simp add: generic_ok)

lemma request_memory:
  assumes "standard_phone ph sel cells bounds used" "selecting_phone ph sel" "scanning sel s" "m \<in> two_memories"
  shows "\<exists>s'. ATGEN_SetRequestedSMSMemory ph m False s = Go s' \<and> kept s s' \<and> scanning sel s' \<and> Got s' = Got s \<and> SMSMemory s' = m"
proof (cases "SMSMemory s = m \<and> \<not> SMSMemoryWrite s")
  case True
  then show ?thesis using assms(3,4)
    by (intro exI [of _ s]) (auto simp: ATGEN_SetRequestedSMSMemory_def scanning_def ATGEN_IsMemoryAvailable_def MEM_SM_def MEM_ME_def MEM_INVALID_def)
next
  case False
  have c: "\<not> CPMSReceiveMemory s" "\<not> EncodedCommands s" and av: "ATGEN_IsMemoryAvailable s m" "m \<noteq> 0" "m \<noteq> MEM_INVALID"
    using assms(3,4) by (auto simp: scanning_def ATGEN_IsMemoryAvailable_def MEM_SM_def MEM_ME_def MEM_INVALID_def)
  from built_command [OF assms(4) c(1), of False] obtain cmd where
    cmd: "ATGEN_BuildCPMSCommand s (GSM_MemoryTypeToString m) False 50 = Some cmd" "cmd \<in> memory_commands m" by blast
  from select_exchange [OF assms(1-4) cmd(2)] obtain l core where x: "ReplyState core = AT_Reply_OK"
    "core_ok (s\<lparr>Link := l, Core := core\<rparr>)" "sel l = m" "ATGEN_WaitFor ph cmd generic_reply s = Go (s\<lparr>Link := l, Core := core\<rparr>)"
    using generic_counters by metis
  have "ATGEN_SetRequestedSMSMemory ph m False s = Go (selected m False (s\<lparr>Link := l, Core := core\<rparr>))"
    using False c av cmd(1) x(4) by (auto simp: ATGEN_SetRequestedSMSMemory_def encoded_commands_def)
  then show ?thesis using selected_scanning [OF assms(3) x(2,3)] by (auto simp: selected_def intro: kept_selected [unfolded selected_def])
qed

lemma set_memory:
  assumes "standard_phone ph sel cells bounds used" "selecting_phone ph sel" "scanning sel s" "m \<in> two_memories"
  shows "\<exists>s'. ATGEN_SetSMSMemory ph (m = MEM_SM) False False s = Go s' \<and> kept s s' \<and> scanning sel s' \<and> Got s' = Got s \<and> SMSMemory s' = m"
proof -
  have c: "\<not> CPMSReceiveMemory s" "\<not> EncodedCommands s" "\<not> MotorolaSMS s" "SIMSMSMemory s = AT_AVAILABLE" "PhoneSMSMemory s = AT_AVAILABLE"
    using assms(3) by (simp_all add: scanning_def)
  have split: "ATGEN_SetSMSMemory ph (m = MEM_SM) False False s = (if m = MEM_SM then select_sim ph False s else select_phone ph False False s)"
    using c by (simp add: ATGEN_SetSMSMemory_def encoded_commands_def ignoring_def)
  show ?thesis
  proof (cases "SMSMemory s = m")
    case True
    then show ?thesis using assms(3,4) by (intro exI [of _ s]) (auto simp: split select_sim_def select_phone_def)
  next
    case False
    from built_command [OF assms(4) c(1), of False] obtain cmd where
      cmd: "ATGEN_BuildCPMSCommand s (GSM_MemoryTypeToString m) False 50 = Some cmd" "cmd \<in> memory_commands m" by blast
    from select_exchange [OF assms(1-4) cmd(2)] obtain l core where x: "ReplyState core = AT_Reply_OK"
      "core_ok (s\<lparr>Link := l, Core := core\<rparr>)" "sel l = m" "ATGEN_WaitFor ph cmd generic_reply s = Go (s\<lparr>Link := l, Core := core\<rparr>)"
      using generic_counters by metis
    have "ATGEN_SetSMSMemory ph (m = MEM_SM) False False s = Go (selected m False (s\<lparr>Link := l, Core := core\<rparr>))"
      using False c cmd(1) x(4) assms(4)
      by (auto simp: split select_sim_def select_phone_def phone_memory_command_def two_names)
    then show ?thesis using selected_scanning [OF assms(3) x(2,3)] by (auto simp: selected_def intro: kept_selected [unfolded selected_def])
  qed
qed

subsection \<open>Reading a location\<close>

text \<open>What the library gives for the message in a cell: the decoded PDU, with its location.\<close>

definition message_of :: "c_locale \<Rightarrow> GSM_Feature set \<Rightarrow> GSM_MemoryType \<Rightarrow> int \<Rightarrow> cell \<Rightarrow> GSM_SMSMessage \<Rightarrow> bool" where
  "message_of loc features m l c sms \<longleftrightarrow>
     (\<exists>sms0 d. sms_arrays sms0 \<and> ATGEN_DecodePDUMessage loc (m = MEM_SM) (snd (snd c)) (fst c) sms0 = Go d
        \<and> sms = d\<lparr>Location := flat_location features (if m = MEM_SM then 1 else 2) l, Memory := Memory sms\<rparr>)"

lemma decimal_length: "n < 10 ^ Suc k \<Longrightarrow> length (decimal n) \<le> Suc k"
proof (induction k arbitrary: n)
  case 0
  then show ?case by (subst decimal.simps) simp
next
  case (Suc k)
  have "n div 10 < 10 ^ Suc k" using Suc.prems by (simp add: less_mult_imp_div_less)
  from Suc.IH [OF this] show ?case by (subst decimal.simps) simp
qed

lemma read_command_short: "0 \<le> l \<Longrightarrow> l < 100000 \<Longrightarrow> length (read_command l) < 20"
proof -
  assume l: "0 \<le> l" "l < 100000"
  then have "length (decimal (nat l)) \<le> 5" using decimal_length [of "nat l" 4] by simp
  then show ?thesis using l by (simp add: read_command_def decimal_int_def)
qed

lemma line_no_zero: "at_line_ok l \<Longrightarrow> cstr l = l"
  by (simp add: at_line_ok_def cstr_id)

lemma pdu_reply:
  assumes "read_lines (cell_lines l c) core0 (Core s)" "cell_ok (Loc ph) (SMSMemory s = MEM_SM) c"
  shows "reply_pdu_mode ph (joined eol (cell_lines l c)) s =
    got s (ATGEN_DecodePDUMessage (Loc ph) (SMSMemory s = MEM_SM) (snd (snd c)) (fst c) (Got s))"
proof -
  obtain st tail pdu where c: "c = (st, tail, pdu)" by (cases c)
  have ok: "- (2 ^ 31) \<le> st" "st < 2 ^ 31" "at_line_ok pdu" "length (status_head c) < 3000" "status_head c \<noteq> bytes_of ''+CMGR: 0,,0''"
    using assms(2) by (simp_all add: cell_ok_def c)
  have head: "at_line_ok (status_head c)" by (rule status_head_ok [OF assms(2)])
  have lines: "GetLineString (joined eol (cell_lines l c)) (Lines (Core s)) 2 = Some (status_head c)"
    "GetLineString (joined eol (cell_lines l c)) (Lines (Core s)) 3 = Some pdu"
    using read_line [OF assms(1), of 1] read_line [OF assms(1), of 2]
    by (simp_all add: cell_lines_def c numeral_2_eq_2 numeral_3_eq_3 del: joined_simps)
  define buffer where "buffer = overlay (status_head c @ [0]) (replicate 3000 (0::byte))"
  have b: "cstr buffer = status_head c"
    using head by (simp add: buffer_def overlay_def cstr_append_zero at_line_ok_def)
  have "ATGEN_ParseReply (Texts ph) (Loc ph) buffer (bytes_of ''+CMGR: @i, @0'') [] = Go [Num st]"
    by (rule head_read [OF ok(1,2)]) (simp add: b status_head_def c)
  then have "read_state (Texts ph) (Loc ph) buffer [''+CMGR: @i, @0'', ''+CMGR: ,@0'', ''+CMGR: @i'', ''+CMGR: ,,@i''] 0 = Go st"
    by (simp add: last_number_def del: bytes_of_simps)
  moreover have "CopyLineString (joined eol (cell_lines l c)) (Lines (Core s)) 2 = Some (status_head c @ [0])"
    by (simp add: CopyLineString_get lines)
  moreover have "snd (snd c) = pdu" "fst c = st" by (simp_all add: c)
  ultimately show ?thesis using ok(4,5) line_no_zero [OF ok(3)]
    by (simp add: reply_pdu_mode_def buffer_def [symmetric] Let_def b reply_line_def lines(2) del: bytes_of_simps read_state.simps)
qed

lemma scanning_sel: "scanning sel s \<Longrightarrow> SMSMemory s = m \<Longrightarrow> m \<in> two_memories \<Longrightarrow> sel (Link s) = m"
  by (auto simp: scanning_def tracks_def)

lemma noted_fields: "kept s (noted_message fs f l s)" "Core (noted_message fs f l s) = Core s" "Link (noted_message fs f l s) = Link s"
  "SMSMemory (noted_message fs f l s) = SMSMemory s"
  "\<exists>mem. Got (noted_message fs f l s) = (Got s)\<lparr>Location := flat_location fs f l, Memory := mem\<rparr>"
proof -
  show "\<exists>mem. Got (noted_message fs f l s) = (Got s)\<lparr>Location := flat_location fs f l, Memory := mem\<rparr>"
    by (intro exI [of _ "Memory (Got (noted_message fs f l s))"], cases "Got s")
       (simp add: noted_message_def ATGEN_SetSMSLocation_def Let_def)
qed (simp_all add: noted_message_def kept_def Let_def)

lemma read_found:
  assumes "standard_phone ph sel cells bounds used" "selecting_phone ph sel" "scanning sel s" "m \<in> two_memories" "SMSMemory s = m"
    "store_ok ph cells bounds used" "store_features (Features ph)" "cells m l = Some c" "0 \<le> l" "l < 100000"
  shows "\<exists>s'. read_located ph (if m = MEM_SM then 1 else 2) l s = Go s' \<and> kept s s' \<and> scanning sel s' \<and> message_of (Loc ph) (Features ph) m l c (Got s')"
proof -
  have sel: "sel (Link s) = m" by (rule scanning_sel [OF assms(3,5,4)])
  have two: "sel (Link s) \<in> two_memories" using sel assms(4) by simp
  have "\<exists>ls p'. Ask ph (Link s) (read_command l) = (Inr (joined eol ls), p')
        \<and> (case cells (sel (Link s)) l of Some c \<Rightarrow> ls = cell_lines l c | None \<Rightarrow> ls \<in> no_cell_lines l)"
    using assms(1) two unfolding standard_phone_def by blast
  then obtain l' where ask: "Ask ph (Link s) (read_command l) = (Inr (joined eol (cell_lines l c)), l')"
    using sel assms(8) by auto
  have cok: "cell_ok (Loc ph) (m = MEM_SM) c" using assms(4,6,8) unfolding store_ok_def by blast
  have core0: "core_ok s" "sms_arrays (Got s)" "SMSMode s = SMS_AT_PDU" using assms(3) by (simp_all add: scanning_def)
  have "last (cell_lines l c) = bytes_of ''OK''" by (simp add: cell_lines_def)
  from wait_ok [OF ask cell_answer_ok [OF cok] core0(1) this] obtain core where
    core: "read_lines (cell_lines l c) (Core s) core" "ReplyState core = AT_Reply_OK"
    and wait: "\<And>reply. ATGEN_WaitFor ph (read_command l) reply s = reply (joined eol (cell_lines l c)) (s\<lparr>Link := l', Core := core\<rparr>)" by blast
  have "names_memory (read_command l) = None"
    by (simp add: names_memory_def memory_names_def quoted_name_def read_command_def starts_def)
  then have sel': "sel l' = sel (Link s)" using assms(2) ask unfolding selecting_phone_def by fastforce
  have no_empty: "\<forall>x \<in> set (cell_lines l c). x \<noteq> []" "cell_lines l c \<noteq> []"
    using cell_answer_ok [OF cok, of l] by (auto simp: good_answer_def at_line_ok_def good_line_def)
  have third: "Lines core ! 4 \<noteq> 0" using third_line [OF no_empty core(1)] by (simp add: cell_lines_def)
  define s1 where "s1 = s\<lparr>Link := l', Core := core, Got_Number := 1, Got := (Got s)\<lparr>SMS_Name := []\<rparr>\<rparr>"
  have s1: "SMSMemory s1 = m" "Core s1 = core" "sms_arrays (Got s1)" "kept s s1" "core_ok s1" "Link s1 = l'"
    using core0 assms(5) read_core_ok [OF core(1) core0(1), of l'] by (simp_all add: s1_def sms_arrays_def kept_def core_ok_def)
  obtain d where d: "ATGEN_DecodePDUMessage (Loc ph) (m = MEM_SM) (snd (snd c)) (fst c) (Got s1) = Go d" "sms_arrays d"
    using cok s1(3) by (cases c) (auto simp: cell_ok_def)
  have "ATGEN_ReplyGetSMSMessage ph (joined eol (cell_lines l c)) (s\<lparr>Link := l', Core := core\<rparr>) = reply_pdu_mode ph (joined eol (cell_lines l c)) s1"
    using core(2) third core0(3) by (simp add: ATGEN_ReplyGetSMSMessage_def s1_def)
  also have "\<dots> = Go (s1\<lparr>Got := d\<rparr>)"
    using pdu_reply [of l c "Core s" s1 ph] core(1) cok s1(1,2) d(1) by (simp add: got_def)
  finally have reply: "ATGEN_ReplyGetSMSMessage ph (joined eol (cell_lines l c)) (s\<lparr>Link := l', Core := core\<rparr>) = Go (s1\<lparr>Got := d\<rparr>)" .
  define f :: byte where "f = (if m = MEM_SM then 1 else 2)"
  define s2 where "s2 = noted_message (Features ph) f l (s1\<lparr>Got := d\<rparr>)"
  have "F_SMSME900 \<notin> Features ph" using assms(7) by (simp add: store_features_def)
  then have "read_located ph f l s = Go s2"
    using read_command_short [OF assms(9,10)] core0(3) wait [of "ATGEN_ReplyGetSMSMessage ph"] reply
    by (simp add: read_located_def Let_def s2_def)
  moreover have "kept s1 (s1\<lparr>Got := d\<rparr>)" by (simp add: kept_def)
  then have k: "kept s s2" using kept_trans [OF kept_trans [OF s1(4)] noted_fields(1)] by (simp add: s2_def)
  moreover obtain mem where got: "Got s2 = d\<lparr>Location := flat_location (Features ph) f l, Memory := mem\<rparr>"
    using noted_fields(5) [of "Features ph" f l "s1\<lparr>Got := d\<rparr>"] by (auto simp: s2_def)
  moreover have "scanning sel s2"
    by (rule kept_scanning [OF k assms(3)])
       (use noted_fields(2-4) [of "Features ph" f l "s1\<lparr>Got := d\<rparr>"] got d(2) s1 sel sel' assms(5) in
         \<open>simp_all add: s2_def sms_arrays_def core_ok_def tracks_def\<close>)
  moreover have "message_of (Loc ph) (Features ph) m l c (Got s2)"
    unfolding message_of_def using d s1(3) got by (intro exI [of _ "Got s1"] exI [of _ d]) (simp add: f_def)
  ultimately show ?thesis by (auto simp: f_def)
qed

lemma invalid_index: "(321, ''invalid memory index'', ERR_INVALIDLOCATION) \<in> set standard_cms"
  by (simp add: standard_cms_def)

lemma read_command_plain: "names_memory (read_command l) = None"
  by (simp add: names_memory_def memory_names_def quoted_name_def read_command_def starts_def)

lemma exchange_scanning:
  assumes "scanning sel s" "core_ok (s\<lparr>Link := l, Core := core\<rparr>)" "sel l = sel (Link s)"
  shows "scanning sel (s\<lparr>Link := l, Core := core\<rparr>)"
  using assms by (auto simp: scanning_def core_ok_def tracks_def)

lemma read_empty:
  assumes "standard_phone ph sel cells bounds used" "selecting_phone ph sel" "scanning sel s" "m \<in> two_memories" "SMSMemory s = m"
    "store_features (Features ph)" "cells m l = None" "0 \<le> l" "l < 100000"
  shows "\<exists>e s'. read_located ph f l s = Fail (e, s') \<and> (e = ERR_EMPTY \<or> e = ERR_INVALIDLOCATION)
    \<and> kept s s' \<and> scanning sel s' \<and> Got s' = Got s"
proof -
  have sel: "sel (Link s) = m" by (rule scanning_sel [OF assms(3,5,4)])
  have two: "sel (Link s) \<in> two_memories" using sel assms(4) by simp
  have "\<exists>ls p'. Ask ph (Link s) (read_command l) = (Inr (joined eol ls), p')
        \<and> (case cells (sel (Link s)) l of Some c \<Rightarrow> ls = cell_lines l c | None \<Rightarrow> ls \<in> no_cell_lines l)"
    using assms(1) two unfolding standard_phone_def by blast
  then obtain ls l' where ask: "Ask ph (Link s) (read_command l) = (Inr (joined eol ls), l')" and ls: "ls \<in> no_cell_lines l"
    using sel assms(7) by auto
  have core0: "core_ok s" "SMSMode s = SMS_AT_PDU" using assms(3) by (simp_all add: scanning_def)
  have good: "good_answer ls" by (rule no_cell_answer_ok [OF ls])
  have sel': "sel l' = sel (Link s)" using assms(2) ask read_command_plain [of l] unfolding selecting_phone_def by fastforce
  have "\<exists>core e. core_ok (s\<lparr>Link := l', Core := core\<rparr>) \<and> (e = ERR_EMPTY \<or> e = ERR_INVALIDLOCATION)
    \<and> ATGEN_WaitFor ph (read_command l) (ATGEN_ReplyGetSMSMessage ph) s = Fail (e, s\<lparr>Link := l', Core := core\<rparr>)"
  proof (cases "last ls = bytes_of ''OK''")
    case True
    from wait_ok [OF ask good core0(1) True] obtain core where core: "read_lines ls (Core s) core" "ReplyState core = AT_Reply_OK"
      "ATGEN_WaitFor ph (read_command l) (ATGEN_ReplyGetSMSMessage ph) s = ATGEN_ReplyGetSMSMessage ph (joined eol ls) (s\<lparr>Link := l', Core := core\<rparr>)" by blast
    have "\<forall>x \<in> set ls. x \<noteq> []" "ls \<noteq> []" "length ls < 3"
      using good ls by (auto simp: good_answer_def at_line_ok_def good_line_def no_cell_lines_def)
    then have "Lines core ! 4 = 0" using third_line core(1) by blast
    then show ?thesis using core read_core_ok [OF core(1) core0(1)]
      by (intro exI [of _ core] exI [of _ ERR_EMPTY]) (simp add: ATGEN_ReplyGetSMSMessage_def)
  next
    case False
    then have "last ls = bytes_of ''+CMS ERROR: '' @ decimal_int 321" using ls by (auto simp: no_cell_lines_def)
    from wait_cms [OF ask good core0(1) this invalid_index] obtain core where core: "read_lines ls (Core s) core"
      "ReplyState core = AT_Reply_CMSError" "ErrorCode core = 321" "ATGEN_HandleCMSError core = ERR_INVALIDLOCATION"
      "ATGEN_WaitFor ph (read_command l) (ATGEN_ReplyGetSMSMessage ph) s = ATGEN_ReplyGetSMSMessage ph (joined eol ls) (s\<lparr>Link := l', Core := core\<rparr>)" by blast
    then show ?thesis using read_core_ok [OF core(1) core0(1)]
      by (intro exI [of _ core] exI [of _ ERR_INVALIDLOCATION]) (simp add: ATGEN_ReplyGetSMSMessage_def returned_def)
  qed
  then obtain core e where c: "core_ok (s\<lparr>Link := l', Core := core\<rparr>)" "e = ERR_EMPTY \<or> e = ERR_INVALIDLOCATION"
    "ATGEN_WaitFor ph (read_command l) (ATGEN_ReplyGetSMSMessage ph) s = Fail (e, s\<lparr>Link := l', Core := core\<rparr>)" by blast
  have "F_SMSME900 \<notin> Features ph" using assms(6) by (simp add: store_features_def)
  then have "read_located ph f l s = Fail (e, s\<lparr>Link := l', Core := core\<rparr>)"
    using read_command_short [OF assms(8,9)] core0(2) c(2,3) by (auto simp: read_located_def Let_def)
  then show ?thesis using c(2) exchange_scanning [OF assms(3) c(1) sel'] by auto
qed

text \<open>The location is found and its memory selected.\<close>

definition at_cell :: "GSM_Feature set \<Rightarrow> GSM_MemoryType \<Rightarrow> int \<Rightarrow> GSM_SMSMessage \<Rightarrow> bool" where
  "at_cell features m l sms \<longleftrightarrow> Memory sms = m \<and> Folder sms = 0 \<and> Location sms = flat_location features (if m = MEM_SM then 1 else 2) l"

lemma at_location_cong: "Location a = Location b \<Longrightarrow> Folder a = Folder b \<Longrightarrow> at_location features both a = at_location features both b"
  unfolding at_location_def by (simp only:)

lemma at_cell_location:
  assumes "at_cell features m l sms" "0 \<le> l" "l < max_location features"
  shows "at_location features both sms = Some (if m = MEM_SM then 1 else 2, l)"
proof -
  let ?f = "(if m = MEM_SM then 1 else 2) :: byte"
  have "at_location features both sms = at_location features both (ATGEN_SetSMSLocation features ?f l sms)"
    by (rule at_location_cong) (use assms(1) in \<open>simp_all add: at_cell_def ATGEN_SetSMSLocation_def\<close>)
  then show ?thesis using location_returns [of ?f l features both sms] assms(2,3) by simp
qed

lemma locate:
  assumes "standard_phone ph sel cells bounds used" "selecting_phone ph sel" "scanning sel s" "m \<in> two_memories"
    "at_cell (Features ph) m l (Got s)" "0 \<le> l" "l < max_location (Features ph)"
  shows "\<exists>s'. ATGEN_GetSMSLocation ph False s = Go ((if m = MEM_SM then 1 else 2, l), s') \<and> kept s s' \<and> scanning sel s' \<and> Got s' = Got s \<and> SMSMemory s' = m"
proof -
  from request_memory [OF assms(1-4)] obtain s' where s': "ATGEN_SetRequestedSMSMemory ph m False s = Go s'"
    "kept s s'" "scanning sel s'" "Got s' = Got s" "SMSMemory s' = m" by blast
  have m: "Memory (Got s) = m" "m \<noteq> 0" "m \<noteq> MEM_INVALID"
    using assms(4,5) by (auto simp: at_cell_def MEM_SM_def MEM_ME_def MEM_INVALID_def)
  have "ATGEN_GetSMSLocation ph False s = Go ((if m = MEM_SM then 1 else 2, l), s')"
    using assms(3) m s'(1) at_cell_location [OF assms(5-7)]
    by (simp add: ATGEN_GetSMSLocation_def scanning_def set_location_memory_def)
  then show ?thesis using s' by blast
qed

lemma get_sms:
  assumes "standard_phone ph sel cells bounds used" "selecting_phone ph sel" "scanning sel s" "m \<in> two_memories"
    "store_ok ph cells bounds used" "store_features (Features ph)"
    "at_cell (Features ph) m l (Got s)" "0 \<le> l" "l < max_location (Features ph)"
  shows "case cells m l of
      Some c \<Rightarrow> \<exists>s'. ATGEN_GetSMS ph s = Go s' \<and> kept s s' \<and> scanning sel s' \<and> message_of (Loc ph) (Features ph) m l c (Got s')
    | None \<Rightarrow> \<exists>e s'. ATGEN_GetSMS ph s = Fail (e, s') \<and> (e = ERR_EMPTY \<or> e = ERR_INVALIDLOCATION) \<and> kept s s' \<and> scanning sel s'"
proof -
  define s0 where "s0 = s\<lparr>Got := GSM_SetDefaultReceivedSMSData (Got s)\<rparr>"
  have s0: "scanning sel s0" "kept s s0" "at_cell (Features ph) m l (Got s0)" "SMSMode s0 = SMS_AT_PDU" "SMSMode s = SMS_AT_PDU"
    using assms(3,7) default_arrays [of "Got s"]
    by (simp_all add: s0_def scanning_def kept_def at_cell_def GSM_SetDefaultReceivedSMSData_def core_ok_def tracks_def sms_arrays_def)
  from locate [OF assms(1,2) s0(1) assms(4) s0(3) assms(8,9)] obtain s1 where
    s1: "ATGEN_GetSMSLocation ph False s0 = Go ((if m = MEM_SM then 1 else 2, l), s1)" "kept s0 s1" "scanning sel s1" "SMSMemory s1 = m" by blast
  have l: "l < 100000" using assms(9) by (simp add: max_location_def GSM_PHONE_MAXSMSINFOLDER_def split: if_splits)
  have get: "ATGEN_GetSMS ph s = handle (\<lambda>(e, s). restore_mode ph SMS_AT_PDU (\<lambda>s. Fail (e, s)) s) (restore_mode ph SMS_AT_PDU Go)
       (read_located ph (if m = MEM_SM then 1 else 2) l s1)"
    using s0(5) s1(1) assms(6) unfolding s0_def
    by (simp add: ATGEN_GetSMS_def ATGEN_GetSMSMode_def ignoring_def store_features_def)
  have restore: "restore_mode ph SMS_AT_PDU k s' = k s'" if "scanning sel s'" for k s'
    using that by (simp add: restore_mode_def ignoring_def scanning_def)
  have k: "kept s s1" by (rule kept_trans [OF s0(2) s1(2)])
  show ?thesis
  proof (cases "cells m l")
    case None
    from read_empty [OF assms(1,2) s1(3) assms(4) s1(4) assms(6) None assms(8) l] obtain e s2 where
      "read_located ph (if m = MEM_SM then 1 else 2) l s1 = Fail (e, s2)" "e = ERR_EMPTY \<or> e = ERR_INVALIDLOCATION" "kept s1 s2" "scanning sel s2"
      by blast
    then show ?thesis using None restore kept_trans [OF k] by (simp add: get)
  next
    case (Some c)
    from read_found [OF assms(1,2) s1(3) assms(4) s1(4) assms(5,6) Some assms(8) l] obtain s2 where
      "read_located ph (if m = MEM_SM then 1 else 2) l s1 = Go s2" "kept s1 s2" "scanning sel s2" "message_of (Loc ph) (Features ph) m l c (Got s2)"
      by blast
    then show ?thesis using Some restore kept_trans [OF k] by (simp add: get)
  qed
qed

end
