(* ===== verification/AtDemo.thy ===== *)
theory AtDemo imports AtStore begin

text \<open>
  A phone that keeps to the standard, with one message on the card and one in its own memory: the concrete case to which the
  theorems on reading messages are applied.
\<close>

subsection \<open>The message\<close>

definition demo_pdu :: "byte list" where
  "demo_pdu = bytes_of ''0004028121000442209232951080'' @ bytes_of ''0141''"

abbreviation demo_frame :: "byte list" where
  "demo_frame \<equiv> [0, 4, 2, 0x81, 0x21, 0, 4, 0x42, 0x20, 0x92, 0x32, 0x95, 0x10, 0x80, 1, 0x41]"

lemma demo_octets: "DecodeHexBin (rev (strip_comma_zero (rev (cstr demo_pdu)))) = Some demo_frame"
  by code_simp

lemma demo_kind: "cstr demo_pdu \<noteq> full_memory_pdu" "cstr demo_pdu \<noteq> bytes_of ''00''"
  by code_simp+

lemma demo_decoded:
  assumes "sms_arrays sms"
  shows "\<exists>sms'. GSM_DecodePDUFrame posix_locale sms demo_frame 16 True = Go (sms', 16)"
proof -
  define d where "d = GSM_SetDefaultReceivedSMSData sms"
  have n: "\<exists>num. GSM_UnpackSemiOctetNumber posix_locale demo_frame 0 16 False = Go (ERR_NONE, num, 1)"
    by (simp add: GSM_UnpackSemiOctetNumber_def rd_def number_consumed_def)
  then obtain num where smsc: "pdu_smsc posix_locale demo_frame 16 True d = Go (store_smsc d num, 1)"
    by (auto simp: pdu_smsc_def)
  have ty: "pdu_type demo_frame 16 1 s = Go (s\<lparr>PDU := SMS_Deliver\<rparr>, 2, False, 0)" for s
    by (simp add: pdu_type_def rd_def Let_def)
  have "\<exists>num. GSM_UnpackSemiOctetNumber posix_locale demo_frame 2 16 True = Go (ERR_NONE, num, 5)"
    by (simp add: GSM_UnpackSemiOctetNumber_def rd_def number_consumed_def rds_def number_payload_def number_decoded_length_def number_text_def
      number_plan_defs bcd_digit_def Let_def)
  then obtain number where number: "pdu_number posix_locale demo_frame 16 (s, 2) = Go (s\<lparr>SMS_Number := number\<rparr>, 5)" for s
    by (auto simp: pdu_number_def)
  define t where "t = (store_smsc d num)\<lparr>PDU := SMS_Deliver, SMS_Number := number\<rparr>"
  have pid: "pdu_pid_dcs demo_frame 16 (t, 5) = Go (t\<lparr>Coding := SMS_Coding_8bit, Class := -1\<rparr>, 7)"
    by (simp add: pdu_pid_dcs_def rd_def store_pid_def t_def GSM_GetMessageCoding_def)
  define u where "u = t\<lparr>Coding := SMS_Coding_8bit, Class := -1\<rparr>"
  have u: "PDU u = SMS_Deliver" "Coding u = SMS_Coding_8bit" "sms_arrays u"
    using assms by (simp_all add: u_def t_def d_def store_smsc_def sms_arrays_def GSM_SetDefaultReceivedSMSData_def)
  define v where "v = u\<lparr>DateTime := GSM_DecodeSMSDateTime [0x42, 0x20, 0x92, 0x32, 0x95, 0x10, 0x80]\<rparr>"
  have time: "pdu_time demo_frame 16 (u, 7) = Go (v, 14)"
    using u by (simp add: pdu_time_def pdu_stamp_def rds_def v_def)
  have v: "PDU v = SMS_Deliver" "Coding v = SMS_Coding_8bit" "sms_arrays v" using u by (simp_all add: v_def sms_arrays_def)
  have "\<exists>w. pdu_data demo_frame 16 False v 14 = Go (w, 16)"
    using v by (simp add: pdu_data_def rd_def GSM_MAX_8BIT_SMS_LENGTH_def pdu_data_length_def pdu_content_def pdu_udh_def pdu_text_def
      text_8bit_def rds_def put_text_def sms_arrays_def GSM_MAX_SMS_LENGTH_def)
  then show ?thesis
    using smsc ty number [of "(store_smsc d num)\<lparr>PDU := SMS_Deliver\<rparr>"] pid time v
    by (simp add: GSM_DecodePDUFrame_def d_def [symmetric] t_def [symmetric] u_def [symmetric]
      pdu_reference_def pdu_report_def pdu_validity_def)
qed

lemma demo_message: "sms_arrays sms \<Longrightarrow> \<exists>sms'. ATGEN_DecodePDUMessage posix_locale on_sim demo_pdu 1 sms = Go sms' \<and> sms_arrays sms'"
proof -
  assume "sms_arrays sms"
  then have a: "sms_arrays (sms\<lparr>State := pdu_state 1\<rparr>)" by (simp add: sms_arrays_def)
  from demo_decoded [OF a] obtain sms' where s: "GSM_DecodePDUFrame posix_locale (sms\<lparr>State := pdu_state 1\<rparr>) demo_frame 16 True = Go (sms', 16)" by blast
  from pdu_frame_stages [OF a, of 16 demo_frame posix_locale True] s have "sms_arrays sms'" by (simp add: sms_ok_def)
  then have "sms_arrays (pdu_folder on_sim sms')" by (simp add: pdu_folder_def sms_arrays_def split: GSM_SMSMessageType.split)
  moreover have "ATGEN_DecodePDUMessage posix_locale on_sim demo_pdu 1 sms = Go (pdu_folder on_sim sms')"
    using s demo_kind by (simp add: ATGEN_DecodePDUMessage_def Let_def demo_octets eval_nat_numeral)
  ultimately show ?thesis by blast
qed

subsection \<open>The phone and the module\<close>

abbreviation demo_cell :: cell where "demo_cell \<equiv> (1, bytes_of '',20'', demo_pdu)"

definition demo_cells :: "GSM_MemoryType \<Rightarrow> int \<Rightarrow> cell option" where
  "demo_cells m l = (if m = MEM_SM \<and> l = 0 \<or> m = MEM_ME \<and> l = 3 then Some demo_cell else None)"

definition demo_ask :: "GSM_MemoryType \<Rightarrow> byte list \<Rightarrow> (GSM_Error + byte list) \<times> GSM_MemoryType" where
  "demo_ask p cmd =
     (case names_memory cmd of
        Some m \<Rightarrow>
          if m \<in> two_memories \<and> cmd \<in> memory_commands m
          then (Inr (joined eol (counter_lines cmd 1 20 (bytes_of ''1,20,1,20''))), m)
          else (Inr (joined eol [bytes_of ''AT+CPMS'', bytes_of ''ERROR'']), p)
      | None \<Rightarrow>
          if cmd = command ''AT+CMGD=?'' then (Inr (joined eol (range_lines (0, 9) (bytes_of '',(0-4)''))), p)
          else if p = MEM_SM \<and> cmd = read_command 0 then (Inr (joined eol (cell_lines 0 demo_cell)), p)
          else if p = MEM_ME \<and> cmd = read_command 3 then (Inr (joined eol (cell_lines 3 demo_cell)), p)
          else (Inr (joined eol [butlast cmd, bytes_of ''OK'']), p))"

definition demo_phone :: "GSM_MemoryType at_phone" where
  "demo_phone = \<lparr>Ask = demo_ask, SetCharsetNormal = (\<lambda>p. (ERR_NONE, p)), Features = {F_DISABLE_CMGL}, Texts = hex_phone, Loc = posix_locale\<rparr>"

definition demo_state :: "GSM_MemoryType at_sms" where
  "demo_state =
     \<lparr>Link = MEM_SM, Core = at_priv, EncodedCommands = False, NumFolders = 2,
      LastSMSStatus = \<lparr>SIMUnRead = 0, SIMUsed = 0, SIMSize = 0, TemplatesUsed = 0, PhoneUnRead = 0, PhoneUsed = 0, PhoneSize = 0\<rparr>,
      LastSMSRead = 0, SIMSaveSMS = AT_AVAILABLE, PhoneSaveSMS = AT_AVAILABLE, SRSaveSMS = AT_NOTAVAILABLE,
      PhoneSMSMemory = AT_AVAILABLE, SIMSMSMemory = AT_AVAILABLE, SRSMSMemory = AT_NOTAVAILABLE, MotorolaSMS = False,
      SMSMemory = MEM_INVALID, SMSMemoryWrite = False, SMSMode = SMS_AT_PDU, SMSTextDetails = False, SMSCache = None,
      SMSLocationFirst = 0, SMSLocationLast = -1, SMSLocationPos = 0, SMSLocationTarget = 0, SMSLocationMemory = MEM_INVALID,
      SMSLocationLegacy = False, SMSReadFolder = 0, CPMSReceiveMemory = False, CPMSReceiveMemories = [], Got = blank_sms, Got_Number = 0\<rparr>"

abbreviation demo_bounds :: "GSM_MemoryType \<Rightarrow> int \<times> int" where "demo_bounds \<equiv> \<lambda>m. (0, 9)"

abbreviation demo_used :: "GSM_MemoryType \<Rightarrow> int" where "demo_used \<equiv> \<lambda>m. 1"

lemma decimal_int_eq: "decimal_int l = decimal_int k \<Longrightarrow> l = k"
proof -
  assume e: "decimal_int l = decimal_int k"
  have minus: "decimal n \<noteq> 45 # r" for n r using decimal_digits [of n] by (auto simp: isdigit_def)
  have inj: "decimal n = decimal m \<longleftrightarrow> n = m" for n m by (metis decimal_value)
  consider "l < 0" "k < 0" | "l < 0" "\<not> k < 0" | "\<not> l < 0" "k < 0" | "\<not> l < 0" "\<not> k < 0" by blast
  then show ?thesis
  proof cases
    case 1
    then show ?thesis using e by (simp add: decimal_int_def inj)
  next
    case 2
    then show ?thesis using e minus [of "nat k" "decimal (nat (- l))"] by (simp add: decimal_int_def)
  next
    case 3
    then show ?thesis using e minus [of "nat l" "decimal (nat (- k))"] by (simp add: decimal_int_def)
  next
    case 4
    then show ?thesis using e by (simp add: decimal_int_def inj)
  qed
qed

lemma read_command_eq [simp]: "read_command l = read_command k \<longleftrightarrow> l = k"
  using decimal_int_eq [of l k] by (auto simp: read_command_def)

lemma reads_name_none: "names_memory (read_command l) = None" "names_memory (command ''AT+CMGD=?'') = None"
  by (simp_all add: names_memory_def memory_names_def quoted_name_def read_command_def command_def starts_def)

lemma demo_cell_ok: "cell_ok posix_locale on_sim demo_cell"
proof -
  have "at_line_ok (44 # bytes_of '',20'')" "at_line_ok demo_pdu" by (simp_all add: at_line_ok_def good_line_def demo_pdu_def)
  moreover have "status_head demo_cell = bytes_of ''+CMGR: 1,,20''" by (simp add: status_head_def decimal_int_def decimal.simps)
  ultimately show ?thesis using demo_message by (simp add: cell_ok_def)
qed

lemma demo_store: "store_ok demo_phone demo_cells demo_bounds demo_used"
  using demo_cell_ok by (auto simp: store_ok_def demo_cells_def demo_phone_def max_location_def GSM_PHONE_MAXSMSINFOLDER_def)

lemma demo_standard: "standard_phone demo_phone id demo_cells demo_bounds demo_used"
proof -
  have "\<exists>all tail p'. counter_tail tail \<and> 0 \<le> all \<and> all < 2 ^ 31 \<and> Ask demo_phone p cmd = (Inr (joined eol (counter_lines cmd 1 all tail)), p')"
    if "m \<in> two_memories" "cmd \<in> memory_commands m" for p m cmd
  proof -
    have "counter_tail (bytes_of ''1,20,1,20'')" by (simp add: counter_tail_def isdigit_def)
    moreover have "Ask demo_phone p cmd = (Inr (joined eol (counter_lines cmd 1 20 (bytes_of ''1,20,1,20''))), m)"
      using that memory_command_names [OF that] by (simp add: demo_phone_def demo_ask_def)
    moreover have "(0 :: int) \<le> 20" "(20 :: int) < 2 ^ 31" by simp_all
    ultimately show ?thesis by blast
  qed
  moreover have "\<exists>tail p'. at_line_ok (41 # tail) \<and> Ask demo_phone p (command ''AT+CMGD=?'') = (Inr (joined eol (range_lines (0, 9) tail)), p')" for p
    by (rule exI [of _ "bytes_of '',(0-4)''"]) (simp add: demo_phone_def demo_ask_def reads_name_none at_line_ok_def good_line_def)
  moreover have "\<exists>ls p'. Ask demo_phone p (read_command location) = (Inr (joined eol ls), p')
        \<and> (case demo_cells (id p) location of Some c \<Rightarrow> ls = cell_lines location c | None \<Rightarrow> ls \<in> no_cell_lines location)" for p location
  proof -
    have "read_command location \<noteq> command ''AT+CMGD=?''" by (simp add: read_command_def command_def)
    then have ask: "Ask demo_phone p (read_command location) =
        (Inr (joined eol (case demo_cells p location of Some c \<Rightarrow> cell_lines location c | None \<Rightarrow> [butlast (read_command location), bytes_of ''OK''])), p)"
      by (auto simp: demo_phone_def demo_ask_def reads_name_none demo_cells_def MEM_SM_def MEM_ME_def)
    then show ?thesis by (intro exI conjI, assumption) (simp add: no_cell_lines_def split: option.split)
  qed
  ultimately show ?thesis unfolding standard_phone_def by auto
qed

lemma good_outcome:
  assumes "good_answer ls" "last ls = bytes_of ''OK'' \<or> last ls = bytes_of ''ERROR''"
  shows "accepted ph (joined eol ls) \<longleftrightarrow> last ls = bytes_of ''OK''" "refused ph (joined eol ls) \<longleftrightarrow> last ls = bytes_of ''ERROR''"
proof -
  have ok: "\<forall>l \<in> set ls. at_line_ok l" "ls \<noteq> []" "after_echo ls = ls" using assms(1) by (simp_all add: good_answer_def)
  have g: "\<exists>core'. ATGEN_DispatchMessage (F_CPIN_NO_OK \<in> Features ph) (joined eol ls) core = Inr core'
      \<and> (ATGEN_GenericReply core' = ERR_NONE \<longleftrightarrow> last ls = bytes_of ''OK'')" for core
    using plain_outcome [OF ok, of "F_CPIN_NO_OK \<in> Features ph" core] assms(2)
    by (auto simp: ATGEN_GenericReply_def reply_state_def starts_def Let_def)
  show "accepted ph (joined eol ls) \<longleftrightarrow> last ls = bytes_of ''OK''"
    unfolding accepted_def using g by (metis Inr_inject)
  have "(case ATGEN_DispatchMessage (F_CPIN_NO_OK \<in> Features ph) (joined eol ls) core of
      Inl e \<Rightarrow> True | Inr core' \<Rightarrow> ATGEN_GenericReply core' \<noteq> ERR_NONE) \<longleftrightarrow> last ls \<noteq> bytes_of ''OK''" for core
    using g [of core] by auto
  then have "refused ph (joined eol ls) \<longleftrightarrow> last ls \<noteq> bytes_of ''OK''" unfolding refused_def by simp
  then show "refused ph (joined eol ls) \<longleftrightarrow> last ls = bytes_of ''ERROR''" using assms(2) by auto
qed

lemma demo_keeping: "keeping_phone demo_phone id"
proof -
  have "counter_tail (bytes_of ''1,20,1,20'')" by (simp add: counter_tail_def isdigit_def)
  then have c: "good_answer (counter_lines cmd 1 20 (bytes_of ''1,20,1,20''))" if "m \<in> two_memories" "cmd \<in> memory_commands m" for m cmd
    using counter_answer_ok that by blast
  define yes where "yes cmd = joined eol (counter_lines cmd 1 20 (bytes_of ''1,20,1,20''))" for cmd
  define no where "no = joined eol [bytes_of ''AT+CPMS'', bytes_of ''ERROR'']"
  have y: "\<not> refused demo_phone (yes cmd)" if "m \<in> two_memories" "cmd \<in> memory_commands m" for m cmd
    using good_outcome(2) [OF c [OF that], of demo_phone] by (simp add: counter_lines_def yes_def)
  have "good_answer [bytes_of ''AT+CPMS'', bytes_of ''ERROR'']"
    by (simp add: good_answer_def at_line_ok_def good_line_def after_echo_def)
  from good_outcome(1) [OF this, of demo_phone] have n: "\<not> accepted demo_phone no" by (simp add: no_def)
  have ask: "demo_ask p cmd = (if m \<in> two_memories \<and> cmd \<in> memory_commands m then (Inr (yes cmd), m) else (Inr no, p))"
    if "names_memory cmd = Some m" for p cmd m
    using that by (auto simp: demo_ask_def yes_def no_def)
  have same: "snd (demo_ask p cmd) = p" if "names_memory cmd = None" for p cmd
    using that by (simp add: demo_ask_def)
  have "selecting_phone demo_phone id"
    unfolding selecting_phone_def
  proof (intro conjI allI impI)
    fix p cmd r p'
    assume a: "Ask demo_phone p cmd = (r, p')"
    show "case names_memory cmd of None \<Rightarrow> id p' = id p | Some m \<Rightarrow> \<forall>msg. r = Inr msg \<and> accepted demo_phone msg \<longrightarrow> id p' = m"
    proof (cases "names_memory cmd")
      case None
      then show ?thesis using a same [OF None, of p] by (simp add: demo_phone_def)
    next
      case (Some m)
      then show ?thesis using a n ask [OF Some, of p] by (auto simp: demo_phone_def split: if_splits)
    qed
  qed (simp add: demo_phone_def)
  moreover have "id p' = id p"
    if a: "Ask demo_phone p cmd = (r, p')" "names_memory cmd \<noteq> None" "case r of Inl e \<Rightarrow> True | Inr msg \<Rightarrow> refused demo_phone msg" for p cmd r p'
  proof -
    obtain m where m: "names_memory cmd = Some m" using a(2) by blast
    have d: "demo_ask p cmd = (r, p')" using a(1) by (simp add: demo_phone_def)
    show ?thesis
    proof (cases "m \<in> two_memories \<and> cmd \<in> memory_commands m")
      case True
      then have "r = Inr (yes cmd)" using d ask [OF m, of p] by simp
      then show ?thesis using a(3) y True by auto
    next
      case False
      then show ?thesis using d ask [OF m, of p] by auto
    qed
  qed
  ultimately show ?thesis unfolding keeping_phone_def by blast
qed

lemma demo_selecting: "selecting_phone demo_phone id"
  by (rule keeping_selects [OF demo_keeping])

lemma demo_scanning: "scanning id demo_state"
  by (simp add: scanning_def demo_state_def core_ok_def at_priv_def vendors_def blank_arrays tracks_def MEM_INVALID_def MEM_SM_def MEM_ME_def)

end
