(* ===== verification/AtAll.thy ===== *)
theory AtAll imports AtDemo begin

text \<open>
  The calls of \<^verbatim>\<open>ATGEN_GetNextSMS\<close>, from the first to the one that finds no more: over a phone with a store they give
  every message of the card and then every message of the phone.
\<close>

subsection \<open>The range\<close>

definition same_scan :: "'p at_sms \<Rightarrow> 'p at_sms \<Rightarrow> bool" where
  "same_scan s s' \<longleftrightarrow> LastSMSStatus s' = LastSMSStatus s \<and> SMSLocationLast s' = SMSLocationLast s \<and> SMSLocationTarget s' = SMSLocationTarget s
     \<and> SMSLocationMemory s' = SMSLocationMemory s \<and> SMSLocationLegacy s' = SMSLocationLegacy s \<and> SMSCache s' = SMSCache s"

lemma kept_same_scan: "kept s s' \<Longrightarrow> same_scan s s'"
  by (simp add: same_scan_def kept_fields)

lemma same_scan_trans: "same_scan s s' \<Longrightarrow> same_scan s' s'' \<Longrightarrow> same_scan s s''"
  by (simp add: same_scan_def)

lemma strstr_start: "0 \<notin> set l \<Longrightarrow> starts (bytes_of n) l \<Longrightarrow> bytes_of n \<noteq> [] \<Longrightarrow> strstr l n = Some l"
  by (cases l) (auto simp: strstr_def cstr_id starts_def)

lemma read_lines_length: "read_lines ls core0 core \<Longrightarrow> 20 \<le> length (Lines core)"
  by (auto simp: read_lines_def dest!: dvd_imp_le)

lemma range_found:
  assumes "read_lines (range_lines b tail) core0 core" "at_line_ok (41 # tail)"
  shows "range_line (joined eol (range_lines b tail)) (Lines core) 2 = Go (Some (range_lines b tail ! 1))"
proof -
  have n: "20 \<le> length (Lines core)" by (rule read_lines_length [OF assms(1)])
  let ?l = "range_lines b tail ! 1"
  have line: "GetLineString (joined eol (range_lines b tail)) (Lines core) 2 = Some ?l"
    using read_line [OF assms(1), of 1] by (simp add: range_lines_def numeral_2_eq_2 del: joined_simps)
  have "at_line_ok ?l" using range_answer_ok [OF assms(2), of b] by (simp add: good_answer_def range_lines_def)
  then have z: "0 \<notin> set ?l" by (simp add: at_line_ok_def)
  have "cstr ?l \<noteq> bytes_of ''OK''" "strstr ?l ''+CMGD:'' = Some ?l"
    using z strstr_start [OF z, of "''+CMGD:''"] by (simp_all add: cstr_id range_lines_def starts_def)
  then show ?thesis using n line by (subst range_line.simps) simp
qed

lemma range_parsed:
  assumes "0 \<le> fst b" "fst b \<le> snd b" "snd b < max_location (Features ph)" "at_line_ok (41 # tail)"
  shows "ATGEN_ParseSMSLocationRange ph (range_lines b tail ! 1) s =
    Go (s\<lparr>SMSLocationFirst := fst b, SMSLocationLast := snd b, SMSLocationPos := fst b\<rparr>)"
proof -
  let ?l = "range_lines b tail ! 1"
  have "at_line_ok ?l" using range_answer_ok [OF assms(4), of b] by (simp add: good_answer_def range_lines_def)
  then have z: "0 \<notin> set ?l" by (simp add: at_line_ok_def)
  have s: "strstr ?l ''+CMGD:'' = Some ?l" by (rule strstr_start [OF z]) (simp_all add: range_lines_def starts_def)
  have c: "strchr 40 ?l = Some (40 # decimal_int (fst b) @ 45 # decimal_int (snd b) @ 41 # tail)"
    by (simp add: range_lines_def strchr_def)
  obtain x r where x: "decimal_int (fst b) = x # r" "\<not> isspace x"
    using decimal_line [of "fst b"] digit_not by (cases "decimal_int (fst b)") (auto simp: isspace_def isdigit_def)
  have "max_location (Features ph) \<le> 100000" by (simp add: max_location_def GSM_PHONE_MAXSMSINFOLDER_def)
  from range_read [OF assms(1-3) this, of tail]
  have p: "parse_ranges (max_location (Features ph)) (dropWhile isspace (decimal_int (fst b) @ 45 # decimal_int (snd b) @ 41 # tail)) None = (True, Some b)"
    using x by simp
  show ?thesis using s c p
    by (cases b) (simp add: ATGEN_ParseSMSLocationRange_def max_location_def [symmetric] del: One_nat_def)
qed

lemma get_range:
  assumes "standard_phone ph sel cells bounds used" "selecting_phone ph sel" "scanning sel s" "m \<in> two_memories"
    "store_ok ph cells bounds used" "store_features (Features ph)"
  shows "\<exists>s'. ATGEN_GetSMSLocationRange ph m s = Go s' \<and> scanning sel s' \<and> SMSLocationPos s' = fst (bounds m) \<and> SMSLocationLast s' = snd (bounds m)
    \<and> SMSLocationTarget s' = (if m = MEM_SM then SIMUsed (LastSMSStatus s) else PhoneUsed (LastSMSStatus s)) \<and> SMSLocationMemory s' = m
    \<and> LastSMSStatus s' = LastSMSStatus s \<and> LastSMSRead s' = LastSMSRead s \<and> SMSLocationLegacy s' = SMSLocationLegacy s \<and> SMSCache s' = SMSCache s"
proof -
  define t where "t = (if m = MEM_SM then SIMUsed (LastSMSStatus s) else PhoneUsed (LastSMSStatus s))"
  define s0 where "s0 = s\<lparr>SMSLocationFirst := 0, SMSLocationLast := -1, SMSLocationPos := 0, SMSLocationTarget := t, SMSLocationMemory := MEM_INVALID\<rparr>"
  have s0: "scanning sel s0" using assms(3) by (simp add: s0_def scanning_def core_ok_def tracks_def)
  from set_memory [OF assms(1,2) s0 assms(4)] obtain s1 where
    s1: "ATGEN_SetSMSMemory ph (m = MEM_SM) False False s0 = Go s1" "kept s0 s1" "scanning sel s1" "SMSMemory s1 = m" by blast
  have sel: "sel (Link s1) = m" by (rule scanning_sel [OF s1(3,4) assms(4)])
  then have "sel (Link s1) \<in> two_memories" using assms(4) by simp
  with assms(1) have "\<exists>tail p'. at_line_ok (41 # tail)
        \<and> Ask ph (Link s1) (command ''AT+CMGD=?'') = (Inr (joined eol (range_lines (bounds (sel (Link s1))) tail)), p')"
    unfolding standard_phone_def by blast
  then obtain tail l' where tail: "at_line_ok (41 # tail)"
    and ask: "Ask ph (Link s1) (command ''AT+CMGD=?'') = (Inr (joined eol (range_lines (bounds m) tail)), l')"
    using sel by auto
  have "core_ok s1" using s1(3) by (simp add: scanning_def)
  moreover have "last (range_lines (bounds m) tail) = bytes_of ''OK''" by (simp add: range_lines_def)
  ultimately obtain core where core: "read_lines (range_lines (bounds m) tail) (Core s1) core" "ReplyState core = AT_Reply_OK"
    and wait: "ATGEN_WaitFor ph (command ''AT+CMGD=?'') (ATGEN_ReplyGetSMSLocationRange ph) s1
      = ATGEN_ReplyGetSMSLocationRange ph (joined eol (range_lines (bounds m) tail)) (s1\<lparr>Link := l', Core := core\<rparr>)"
    using wait_ok [OF ask range_answer_ok [OF tail]] by blast
  have "names_memory (command ''AT+CMGD=?'') = None"
    by (simp add: names_memory_def memory_names_def quoted_name_def command_def starts_def)
  then have sel': "sel l' = sel (Link s1)" using assms(2) ask unfolding selecting_phone_def by fastforce
  define s2 where "s2 = s1\<lparr>Link := l', Core := core\<rparr>"
  have s2: "scanning sel s2" unfolding s2_def
    by (rule exchange_scanning [OF s1(3) read_core_ok [OF core(1)] sel']) fact
  have b: "0 \<le> fst (bounds m)" "fst (bounds m) \<le> snd (bounds m)" "snd (bounds m) < max_location (Features ph)"
    using assms(4,5) by (auto simp: store_ok_def)
  define s3 where "s3 = s2\<lparr>SMSLocationFirst := fst (bounds m), SMSLocationLast := snd (bounds m), SMSLocationPos := fst (bounds m)\<rparr>"
  have z: "cstr (range_lines (bounds m) tail ! 1) = range_lines (bounds m) tail ! 1"
    using range_answer_ok [OF tail, of "bounds m"] line_no_zero by (simp add: good_answer_def range_lines_def)
  have "ATGEN_ReplyGetSMSLocationRange ph (joined eol (range_lines (bounds m) tail)) s2 = Go s3"
    using core(2) range_parsed [OF b tail, of s2] z
    by (simp add: ATGEN_ReplyGetSMSLocationRange_def s2_def s3_def range_found [OF core(1) tail])
  moreover have "normalized_range (Features ph) m s3 = s3" using assms(6) by (simp add: normalized_range_def store_features_def)
  ultimately have "ATGEN_GetSMSLocationRange ph m s = Go (s3\<lparr>SMSLocationMemory := m\<rparr>)"
    using s1(1) wait by (simp add: ATGEN_GetSMSLocationRange_def Let_def t_def [symmetric] s0_def [symmetric] s2_def)
  moreover have "scanning sel (s3\<lparr>SMSLocationMemory := m\<rparr>)" using s2 by (simp add: s3_def scanning_def core_ok_def tracks_def)
  ultimately show ?thesis using kept_fields [OF s1(2)] by (simp add: s3_def s2_def s0_def t_def)
qed

subsection \<open>The next message of a memory\<close>

definition folder_of :: "GSM_MemoryType \<Rightarrow> byte" where "folder_of m = (if m = MEM_SM then 1 else 2)"

text \<open>Locations of one memory, up to the first with a message.\<close>

lemma scan_list:
  assumes "standard_phone ph sel cells bounds used" "selecting_phone ph sel" "m \<in> two_memories"
    "store_ok ph cells bounds used" "store_features (Features ph)"
  shows "scanning sel s \<Longrightarrow> \<forall>l \<in> set ls. 0 \<le> l \<and> l < max_location (Features ph) \<Longrightarrow>
    (filter (\<lambda>l. cells m l \<noteq> None) ls \<noteq> [] \<longrightarrow> LastSMSRead s < SMSLocationTarget s) \<Longrightarrow>
    (case filter (\<lambda>l. cells m l \<noteq> None) ls of
      [] \<Rightarrow> \<exists>s'. scan_locations ph m (folder_of m) ls s = Go (False, s') \<and> scanning sel s' \<and> same_scan s s'
    | l # rest \<Rightarrow> \<exists>s'. scan_locations ph m (folder_of m) ls s = Go (True, s') \<and> scanning sel s' \<and> same_scan s s'
        \<and> SMSLocationPos s' = l + 1 \<and> LastSMSRead s' = LastSMSRead s + 1 \<and> message_of (Loc ph) (Features ph) m l (the (cells m l)) (Got s'))"
proof (induction ls arbitrary: s)
  case Nil
  then show ?case by (simp add: same_scan_def)
next
  case (Cons l ls)
  show ?case
  proof (cases "LastSMSRead s \<ge> SMSLocationTarget s")
    case True
    then have "filter (\<lambda>l. cells m l \<noteq> None) (l # ls) = []" using Cons.prems(3) by linarith
    then show ?thesis using True Cons.prems(1) by (simp add: same_scan_def)
  next
    case False
    define s0 where "s0 = s\<lparr>SMSLocationPos := l + 1, Got_Number := 1,
           Got := ATGEN_SetSMSLocation (Features ph) (folder_of m) l ((Got s)\<lparr>Memory := m\<rparr>)\<rparr>"
    have s0: "scanning sel s0" "same_scan s s0" "at_cell (Features ph) m l (Got s0)" "SMSLocationPos s0 = l + 1" "LastSMSRead s0 = LastSMSRead s"
      using Cons.prems(1) by (simp_all add: s0_def scanning_def same_scan_def at_cell_def ATGEN_SetSMSLocation_def sms_arrays_def core_ok_def tracks_def folder_of_def)
    have l: "0 \<le> l" "l < max_location (Features ph)" using Cons.prems(2) by simp_all
    note get = get_sms [OF assms(1,2) s0(1) assms(3-5) s0(3) l]
    have step: "scan_locations ph m (folder_of m) (l # ls) s =
      handle (\<lambda>(e, s). if e = ERR_EMPTY \<or> e = ERR_INVALIDLOCATION then scan_locations ph m (folder_of m) ls s else Fail (e, s))
        (\<lambda>s. Go (True, s\<lparr>LastSMSRead := LastSMSRead s + 1\<rparr>)) (ATGEN_GetSMS ph s0)"
      using False by (simp add: s0_def)
    show ?thesis
    proof (cases "cells m l")
      case None
      then obtain e s1 where s1: "ATGEN_GetSMS ph s0 = Fail (e, s1)" "e = ERR_EMPTY \<or> e = ERR_INVALIDLOCATION" "kept s0 s1" "scanning sel s1"
        using get by auto
      have same: "same_scan s s1" "LastSMSRead s1 = LastSMSRead s" "SMSLocationTarget s1 = SMSLocationTarget s"
        using same_scan_trans [OF s0(2) kept_same_scan [OF s1(3)]] s0(5) kept_fields(9) [OF s1(3)] by (simp_all add: same_scan_def)
      have "scan_locations ph m (folder_of m) (l # ls) s = scan_locations ph m (folder_of m) ls s1" using s1(1,2) step by simp
      moreover from Cons.IH [OF s1(4)] Cons.prems(2,3) None same(2,3) have
        "case filter (\<lambda>l. cells m l \<noteq> None) ls of
          [] \<Rightarrow> \<exists>s'. scan_locations ph m (folder_of m) ls s1 = Go (False, s') \<and> scanning sel s' \<and> same_scan s1 s'
        | l # rest \<Rightarrow> \<exists>s'. scan_locations ph m (folder_of m) ls s1 = Go (True, s') \<and> scanning sel s' \<and> same_scan s1 s'
            \<and> SMSLocationPos s' = l + 1 \<and> LastSMSRead s' = LastSMSRead s1 + 1 \<and> message_of (Loc ph) (Features ph) m l (the (cells m l)) (Got s')"
        by simp
      ultimately show ?thesis using None same_scan_trans [OF same(1)] same(2)
        by (auto split: list.splits)
    next
      case (Some c)
      then obtain s1 where s1: "ATGEN_GetSMS ph s0 = Go s1" "kept s0 s1" "scanning sel s1" "message_of (Loc ph) (Features ph) m l c (Got s1)"
        using get by auto
      have "scanning sel (s1\<lparr>LastSMSRead := LastSMSRead s1 + 1\<rparr>)" using s1(3) by (simp add: scanning_def core_ok_def tracks_def)
      moreover have "same_scan s (s1\<lparr>LastSMSRead := LastSMSRead s1 + 1\<rparr>)"
        using same_scan_trans [OF s0(2) kept_same_scan [OF s1(2)]] by (simp add: same_scan_def)
      ultimately show ?thesis using Some s1 step s0(4,5) kept_fields(9,12) [OF s1(2)] by (simp del: scan_locations.simps not_None_eq)
    qed
  qed
qed

lemma occupied_rest: "occupied cells m p q = l # rest \<Longrightarrow> rest = occupied cells m (l + 1) q \<and> p \<le> l \<and> l \<le> q \<and> cells m l \<noteq> None"
proof (induction "nat (q - p + 1)" arbitrary: p)
  case 0
  then show ?case by (simp add: occupied_def)
next
  case (Suc n)
  then have p: "[p..q] = p # [p + 1..q]" by (simp add: upto_rec1)
  show ?case
  proof (cases "cells m p")
    case None
    then have "occupied cells m (p + 1) q = l # rest" using Suc.prems by (simp add: occupied_def p)
    moreover have "n = nat (q - (p + 1) + 1)" using Suc.hyps(2) by simp
    ultimately show ?thesis using Suc.hyps(1) [of "p + 1"] by auto
  next
    case (Some c)
    then have "p = l" "rest = occupied cells m (p + 1) q" "p \<le> q" using Suc by (auto simp: occupied_def p simp del: not_None_eq)
    then show ?thesis using Some by simp
  qed
qed

subsection \<open>The counters\<close>

lemma strstr_none: "67 \<notin> set r \<Longrightarrow> strstr_from (67 # n) r = None"
  by (induction r) (auto simp: starts_def)

lemma counter_lines_simps:
  "cmd \<in> memory_commands MEM_SM \<longleftrightarrow> cmd = bytes_of ''AT+CPMS=\"SM\"'' @ [13] \<or> cmd = bytes_of ''AT+CPMS=\"SM\",\"SM\"'' @ [13]"
  "cmd \<in> memory_commands MEM_ME \<longleftrightarrow> cmd = bytes_of ''AT+CPMS=\"ME\"'' @ [13] \<or> cmd = bytes_of ''AT+CPMS=\"ME\",\"ME\"'' @ [13]"
  by (auto simp: memory_commands_def two_names quoted_name_def Let_def)

lemma sim_counters:
  assumes "cmd \<in> memory_commands MEM_SM" "counter_tail tail" "\<not> MotorolaSMS s"
  shows "\<not> of_phone_memory (joined eol (counter_lines cmd used all tail)) [] s"
proof -
  have t: "67 \<notin> set tail" "0 \<notin> set tail" using assms(2) by (auto simp: counter_tail_def isdigit_def)
  then have z: "0 \<notin> set (joined eol (counter_lines cmd used all tail))"
    using assms(1) by (auto simp: counter_lines_def counter_lines_simps(1))
  have "strstr (joined eol (counter_lines cmd used all tail)) ''CPMS=\"ME'' = None" "strstr (joined eol (counter_lines cmd used all tail)) ''CPMS?'' = None"
    unfolding strstr_def cstr_id [OF z] using assms(1) t
    by (auto simp: counter_lines_def counter_lines_simps(1) starts_def strstr_none)
  then show ?thesis using assms(3) by (simp add: of_phone_memory_def)
qed

lemma phone_counters:
  assumes "cmd \<in> memory_commands MEM_ME" "counter_tail tail"
  shows "of_phone_memory (joined eol (counter_lines cmd used all tail)) [] s"
proof -
  have "0 \<notin> set tail" using assms(2) by (auto simp: counter_tail_def isdigit_def)
  then have z: "0 \<notin> set (joined eol (counter_lines cmd used all tail))"
    using assms(1) by (auto simp: counter_lines_def counter_lines_simps(2))
  have "strstr (joined eol (counter_lines cmd used all tail)) ''CPMS=\"ME'' \<noteq> None"
    unfolding strstr_def cstr_id [OF z] using assms(1) by (auto simp: counter_lines_def counter_lines_simps(2) starts_def)
  then show ?thesis by (simp add: of_phone_memory_def)
qed

lemma status_reply:
  assumes "read_lines (counter_lines cmd used all tail) core0 (Core s)" "ReplyState (Core s) = AT_Reply_OK" "m \<in> two_memories"
    "cmd \<in> memory_commands m" "counter_tail tail" "0 \<le> used" "used < 2 ^ 31" "0 \<le> all" "all < 2 ^ 31" "\<not> MotorolaSMS s"
  shows "ATGEN_ReplyGetSMSStatus ph (joined eol (counter_lines cmd used all tail)) s =
    Go (s\<lparr>LastSMSStatus := (if m = MEM_ME then (LastSMSStatus s)\<lparr>PhoneUsed := used, PhoneSize := all\<rparr>
                            else (LastSMSStatus s)\<lparr>SIMUsed := used, SIMSize := all\<rparr>)\<rparr>)"
proof -
  let ?l = "bytes_of ''+CPMS: '' @ decimal_int used @ 44 # decimal_int all @ 44 # tail"
  have line: "GetLineString (joined eol (counter_lines cmd used all tail)) (Lines (Core s)) 2 = Some ?l"
    using read_line [OF assms(1), of 1] by (simp add: counter_lines_def numeral_2_eq_2 del: joined_simps)
  have z: "cstr ?l = ?l" using assms(5) by (intro cstr_id) (auto simp: counter_tail_def isdigit_def)
  have "ATGEN_ParseReply (Texts ph) (Loc ph) ?l (bytes_of ''+CPMS: @i, @i, @0'') [] = Go [Num used, Num all]"
    by (rule counters_read [OF assms(6-9) z])
  then have p: "parse_status ph ?l = Go ([], used, all)" by (simp add: parse_status_def counters_def del: bytes_of_simps)
  have "of_phone_memory (joined eol (counter_lines cmd used all tail)) [] s \<longleftrightarrow> m = MEM_ME"
    using assms(3-5,10) sim_counters [of cmd tail s used all] phone_counters [of cmd tail used all s] by (auto simp: MEM_SM_def MEM_ME_def)
  then show ?thesis using assms(2) line z p by (simp add: ATGEN_ReplyGetSMSStatus_def reply_line_def del: bytes_of_simps)
qed

text \<open>One memory: it is selected, and its counters are those the phone gave.\<close>

lemma memory_counted:
  assumes "standard_phone ph sel cells bounds used" "selecting_phone ph sel" "scanning sel s" "m \<in> two_memories" "store_ok ph cells bounds used"
    "ATGEN_BuildCPMSCommand s (GSM_MemoryTypeToString m) w 50 = Some cmd"
  shows "\<exists>l core all. ATGEN_WaitFor ph cmd (ATGEN_ReplyGetSMSStatus ph) s =
      Go (s\<lparr>Link := l, Core := core, LastSMSStatus := (if m = MEM_ME then (LastSMSStatus s)\<lparr>PhoneUsed := used m, PhoneSize := all\<rparr>
                            else (LastSMSStatus s)\<lparr>SIMUsed := used m, SIMSize := all\<rparr>)\<rparr>)
    \<and> sel l = m \<and> core_ok (s\<lparr>Link := l, Core := core\<rparr>)"
proof -
  have "\<not> CPMSReceiveMemory s" "\<not> MotorolaSMS s" using assms(3) by (simp_all add: scanning_def)
  then have cmd: "cmd \<in> memory_commands m" using built_command [OF assms(4), of s w] assms(6) by auto
  from select_exchange [OF assms(1-4) cmd] obtain l core all tail where x: "counter_tail tail" "0 \<le> all" "all < 2 ^ 31"
    "read_lines (counter_lines cmd (used m) all tail) (Core s) core" "ReplyState core = AT_Reply_OK" "core_ok (s\<lparr>Link := l, Core := core\<rparr>)" "sel l = m"
    "ATGEN_WaitFor ph cmd (ATGEN_ReplyGetSMSStatus ph) s
      = ATGEN_ReplyGetSMSStatus ph (joined eol (counter_lines cmd (used m) all tail)) (s\<lparr>Link := l, Core := core\<rparr>)" by blast
  have "0 \<le> used m" "used m < 2 ^ 31" using assms(4,5) by (auto simp: store_ok_def)
  with status_reply [OF _ _ assms(4) cmd x(1) _ _ x(2,3), of "used m" "Core s" "s\<lparr>Link := l, Core := core\<rparr>" ph] x(4,5) \<open>\<not> MotorolaSMS s\<close>
  show ?thesis using x(6-8) by (intro exI [of _ l] exI [of _ core] exI [of _ all]) simp
qed

definition counted :: "(GSM_MemoryType \<Rightarrow> int) \<Rightarrow> 'p at_sms \<Rightarrow> bool" where
  "counted used s \<longleftrightarrow> SIMUsed (LastSMSStatus s) = used MEM_SM \<and> PhoneUsed (LastSMSStatus s) = used MEM_ME"

text \<open>The state behind a query of the counters: only what is said of the counters and the selection may differ.\<close>

definition recounted :: "'p at_sms \<Rightarrow> 'p at_sms \<Rightarrow> bool" where
  "recounted s s' \<longleftrightarrow> kept s (s'\<lparr>LastSMSStatus := LastSMSStatus s\<rparr>) \<and> Got s' = Got s"

lemma recounted_trans: "recounted s s' \<Longrightarrow> recounted s' s'' \<Longrightarrow> recounted s s''"
  by (cases s; cases s'; cases s'') (simp add: recounted_def kept_def)

lemma recounted_fields:
  assumes "recounted s s'"
  shows "SMSLocationLast s' = SMSLocationLast s" "SMSLocationPos s' = SMSLocationPos s" "SMSLocationTarget s' = SMSLocationTarget s"
    "SMSLocationMemory s' = SMSLocationMemory s" "SMSLocationLegacy s' = SMSLocationLegacy s" "SMSCache s' = SMSCache s"
    "LastSMSRead s' = LastSMSRead s" "Got s' = Got s"
  using assms kept_fields [of s "s'\<lparr>LastSMSStatus := LastSMSStatus s\<rparr>"] by (simp_all add: recounted_def)

lemma recounted_scanning:
  "recounted s s' \<Longrightarrow> scanning sel s \<Longrightarrow> core_ok s' \<Longrightarrow> tracks sel s' \<Longrightarrow> scanning sel s'"
  using kept_scanning [of s "s'\<lparr>LastSMSStatus := LastSMSStatus s\<rparr>" sel]
  by (simp add: recounted_def scanning_def core_ok_def tracks_def)

lemma sim_counted:
  assumes "standard_phone ph sel cells bounds used" "selecting_phone ph sel" "scanning sel s" "store_ok ph cells bounds used"
  shows "\<exists>s'. sim_status ph s = Go s' \<and> scanning sel s' \<and> recounted s s' \<and> SIMUsed (LastSMSStatus s') = used MEM_SM"
proof -
  have c: "\<not> CPMSReceiveMemory s" using assms(3) by (simp add: scanning_def)
  from built_command [of MEM_SM s "SIMSaveSMS s = AT_AVAILABLE"] c obtain cmd where
    cmd: "ATGEN_BuildCPMSCommand s (GSM_MemoryTypeToString MEM_SM) (SIMSaveSMS s = AT_AVAILABLE) 50 = Some cmd" by auto
  from memory_counted [OF assms(1-3) _ assms(4) cmd] obtain l core all where x:
    "ATGEN_WaitFor ph cmd (ATGEN_ReplyGetSMSStatus ph) s =
      Go (s\<lparr>Link := l, Core := core, LastSMSStatus := (LastSMSStatus s)\<lparr>SIMUsed := used MEM_SM, SIMSize := all\<rparr>\<rparr>)"
    "sel l = MEM_SM" "core_ok (s\<lparr>Link := l, Core := core\<rparr>)" by (auto simp: MEM_SM_def MEM_ME_def)
  define s' where "s' = s\<lparr>Link := l, Core := core, LastSMSStatus := (LastSMSStatus s)\<lparr>SIMUsed := used MEM_SM, SIMSize := all\<rparr>,
    SMSMemoryWrite := (SIMSaveSMS s = AT_AVAILABLE), SMSMemory := MEM_SM\<rparr>"
  have "sim_status ph s = Go s'" using c cmd x(1) by (simp add: sim_status_def two_names s'_def Let_def)
  moreover have r: "recounted s s'" by (simp add: s'_def recounted_def kept_def)
  moreover have "scanning sel s'" by (rule recounted_scanning [OF r assms(3)]) (use x in \<open>simp_all add: s'_def core_ok_def tracks_def\<close>)
  ultimately show ?thesis by (auto simp: s'_def)
qed

lemma phone_counted:
  assumes "standard_phone ph sel cells bounds used" "selecting_phone ph sel" "scanning sel s" "store_ok ph cells bounds used"
  shows "\<exists>s'. phone_status ph s = Go s' \<and> scanning sel s' \<and> recounted s s' \<and> PhoneUsed (LastSMSStatus s') = used MEM_ME
    \<and> SIMUsed (LastSMSStatus s') = SIMUsed (LastSMSStatus s)"
proof -
  define w where "w = (PhoneSaveSMS s = AT_AVAILABLE)"
  define s0 where "s0 = s\<lparr>SMSMemoryWrite := w\<rparr>"
  have c: "\<not> CPMSReceiveMemory s" "\<not> MotorolaSMS s" using assms(3) by (simp_all add: scanning_def)
  have s0: "scanning sel s0" using assms(3) by (simp add: s0_def scanning_def core_ok_def tracks_def)
  from built_command [of MEM_ME s w] c obtain cmd where
    cmd: "ATGEN_BuildCPMSCommand s (GSM_MemoryTypeToString MEM_ME) w 50 = Some cmd" by auto
  then have cmd0: "ATGEN_BuildCPMSCommand s0 (GSM_MemoryTypeToString MEM_ME) w 50 = Some cmd"
    by (simp add: s0_def ATGEN_BuildCPMSCommand_def)
  from memory_counted [OF assms(1,2) s0 _ assms(4) cmd0] obtain l core all where x:
    "ATGEN_WaitFor ph cmd (ATGEN_ReplyGetSMSStatus ph) s0 =
      Go (s0\<lparr>Link := l, Core := core, LastSMSStatus := (LastSMSStatus s0)\<lparr>PhoneUsed := used MEM_ME, PhoneSize := all\<rparr>\<rparr>)"
    "sel l = MEM_ME" "core_ok (s0\<lparr>Link := l, Core := core\<rparr>)" by (auto simp: MEM_SM_def MEM_ME_def)
  define s' where "s' = s0\<lparr>Link := l, Core := core, LastSMSStatus := (LastSMSStatus s0)\<lparr>PhoneUsed := used MEM_ME, PhoneSize := all\<rparr>, SMSMemory := MEM_ME\<rparr>"
  have "phone_status ph s = Go s'" using c cmd x(1) by (simp add: phone_status_def two_names s'_def s0_def w_def Let_def)
  moreover have r: "recounted s s'" by (simp add: s'_def s0_def recounted_def kept_def)
  moreover have "scanning sel s'" by (rule recounted_scanning [OF r assms(3)]) (use x in \<open>simp_all add: s'_def core_ok_def tracks_def\<close>)
  ultimately show ?thesis by (auto simp: s'_def s0_def)
qed

lemma status_counted:
  assumes "standard_phone ph sel cells bounds used" "selecting_phone ph sel" "scanning sel s" "store_ok ph cells bounds used"
  shows "\<exists>s'. ATGEN_GetSMSStatus ph s = Go s' \<and> scanning sel s' \<and> recounted s s' \<and> counted used s'"
proof -
  define s0 where "s0 = s\<lparr>LastSMSStatus := (LastSMSStatus s)\<lparr>TemplatesUsed := 0, SIMUsed := 0, SIMUnRead := 0, SIMSize := 0\<rparr>\<rparr>"
  have s0: "scanning sel s0" "recounted s s0" using assms(3) by (simp_all add: s0_def scanning_def core_ok_def tracks_def recounted_def kept_def)
  have av: "SIMSMSMemory s0 = AT_AVAILABLE" "PhoneSMSMemory s0 = AT_AVAILABLE" using s0(1) by (simp_all add: scanning_def)
  from sim_counted [OF assms(1,2) s0(1) assms(4)] obtain s1 where
    s1: "sim_status ph s0 = Go s1" "scanning sel s1" "recounted s0 s1" "SIMUsed (LastSMSStatus s1) = used MEM_SM" by blast
  define s2 where "s2 = s1\<lparr>LastSMSStatus := (LastSMSStatus s1)\<lparr>PhoneUsed := 0, PhoneUnRead := 0, PhoneSize := 0\<rparr>\<rparr>"
  have s2: "scanning sel s2" "recounted s1 s2" "SIMUsed (LastSMSStatus s2) = used MEM_SM" "PhoneSMSMemory s2 = AT_AVAILABLE"
    using s1(2,4) by (simp_all add: s2_def scanning_def core_ok_def tracks_def recounted_def kept_def)
  from phone_counted [OF assms(1,2) s2(1) assms(4)] obtain s3 where
    s3: "phone_status ph s2 = Go s3" "scanning sel s3" "recounted s2 s3" "counted used s3" using s2(3) by (auto simp: counted_def)
  have "ATGEN_GetSMSStatus ph s = Go s3"
    unfolding ATGEN_GetSMSStatus_def Let_def s0_def [symmetric]
    using av s1(1) s3(1) s2(4) by (simp add: ignoring_def try_memory_def s2_def)
  moreover have "recounted s s3" using s0(2) s1(3) s2(2) s3(3) recounted_trans by blast
  ultimately show ?thesis using s3(2,4) by blast
qed

subsection \<open>The next message\<close>

text \<open>What is still to come of a memory, and of both.\<close>

definition all_of :: "(GSM_MemoryType \<Rightarrow> int \<Rightarrow> cell option) \<Rightarrow> (GSM_MemoryType \<Rightarrow> int \<times> int) \<Rightarrow> GSM_MemoryType \<Rightarrow> (GSM_MemoryType \<times> int) list" where
  "all_of cells bounds m = map (Pair m) (occupied cells m (fst (bounds m)) (snd (bounds m)))"

definition to_come :: "(GSM_MemoryType \<Rightarrow> int \<Rightarrow> cell option) \<Rightarrow> (GSM_MemoryType \<Rightarrow> int \<times> int) \<Rightarrow> 'p at_sms \<Rightarrow> (GSM_MemoryType \<times> int) list" where
  "to_come cells bounds s = map (Pair (SMSLocationMemory s)) (occupied cells (SMSLocationMemory s) (SMSLocationPos s) (SMSLocationLast s))
     @ (if SMSLocationMemory s = MEM_SM then all_of cells bounds MEM_ME else [])"

definition counters_cover :: "(GSM_MemoryType \<Rightarrow> int \<Rightarrow> cell option) \<Rightarrow> (GSM_MemoryType \<Rightarrow> int \<times> int) \<Rightarrow> (GSM_MemoryType \<Rightarrow> int) \<Rightarrow> bool" where
  "counters_cover cells bounds used \<longleftrightarrow> (\<forall>m \<in> two_memories. int (length (all_of cells bounds m)) \<le> used m)"

text \<open>The state within a range.\<close>

definition in_range :: "('p \<Rightarrow> GSM_MemoryType) \<Rightarrow> (GSM_MemoryType \<Rightarrow> int \<Rightarrow> cell option) \<Rightarrow> (GSM_MemoryType \<Rightarrow> int \<times> int) \<Rightarrow> GSM_Feature set \<Rightarrow> 'p at_sms \<Rightarrow> bool" where
  "in_range sel cells bounds features s \<longleftrightarrow> scanning sel s \<and> SMSLocationMemory s \<in> two_memories \<and> 0 \<le> SMSLocationPos s
     \<and> SMSLocationLast s < max_location features \<and> SMSCache s = None \<and> \<not> SMSLocationLegacy s
     \<and> int (length (occupied cells (SMSLocationMemory s) (SMSLocationPos s) (SMSLocationLast s))) \<le> SMSLocationTarget s - LastSMSRead s"

lemma scan_memory_next:
  assumes "standard_phone ph sel cells bounds used" "selecting_phone ph sel" "store_ok ph cells bounds used" "store_features (Features ph)"
    "in_range sel cells bounds (Features ph) s" "SMSLocationMemory s = m"
  shows "case occupied cells m (SMSLocationPos s) (SMSLocationLast s) of
      [] \<Rightarrow> \<exists>s'. scan_memory ph s = Go (False, s') \<and> scanning sel s' \<and> same_scan s s'
    | l # rest \<Rightarrow> \<exists>s'. scan_memory ph s = Go (True, s') \<and> in_range sel cells bounds (Features ph) s' \<and> SMSLocationMemory s' = m
        \<and> occupied cells m (SMSLocationPos s') (SMSLocationLast s') = rest
        \<and> same_scan s s' \<and> message_of (Loc ph) (Features ph) m l (the (cells m l)) (Got s')"
proof -
  have r: "scanning sel s" "m \<in> two_memories" "0 \<le> SMSLocationPos s" "SMSLocationLast s < max_location (Features ph)" "SMSCache s = None" "\<not> SMSLocationLegacy s"
    "int (length (occupied cells m (SMSLocationPos s) (SMSLocationLast s))) \<le> SMSLocationTarget s - LastSMSRead s"
    using assms(5,6) by (simp_all add: in_range_def)
  have folder: "ATGEN_GetSMSLocationFolder s m = folder_of m"
    using r(1,2) by (auto simp: ATGEN_GetSMSLocationFolder_def folder_of_def scanning_def MEM_SM_def MEM_ME_def)
  have scan: "scan_memory ph s = scan_locations ph m (folder_of m) [SMSLocationPos s..SMSLocationLast s] s"
    by (simp add: scan_memory_def assms(6) folder)
  have ls: "\<forall>l \<in> set [SMSLocationPos s..SMSLocationLast s]. 0 \<le> l \<and> l < max_location (Features ph)" using r(3,4) by auto
  have less: "occupied cells m (SMSLocationPos s) (SMSLocationLast s) \<noteq> [] \<longrightarrow> LastSMSRead s < SMSLocationTarget s"
    using r(7) by (cases "occupied cells m (SMSLocationPos s) (SMSLocationLast s)") auto
  note list = scan_list [OF assms(1,2) r(2) assms(3,4) r(1) ls less [unfolded occupied_def], folded occupied_def]
  show ?thesis
  proof (cases "occupied cells m (SMSLocationPos s) (SMSLocationLast s)")
    case Nil
    then show ?thesis using list by (simp add: scan)
  next
    case (Cons l rest)
    then obtain s' where s': "scan_memory ph s = Go (True, s')" "scanning sel s'" "same_scan s s'" "SMSLocationPos s' = l + 1"
      "LastSMSRead s' = LastSMSRead s + 1" "message_of (Loc ph) (Features ph) m l (the (cells m l)) (Got s')" using list by (auto simp: scan)
    have rest: "rest = occupied cells m (SMSLocationPos s') (SMSLocationLast s')" "0 \<le> SMSLocationPos s'"
      using occupied_rest [OF Cons] s'(3,4) r(3) by (auto simp: same_scan_def)
    then have "in_range sel cells bounds (Features ph) s'"
      using s' r Cons assms(6) by (simp add: in_range_def same_scan_def)
    then show ?thesis using Cons s' rest(1) assms(6) by (simp add: same_scan_def)
  qed
qed

lemma opened_range:
  assumes "standard_phone ph sel cells bounds used" "selecting_phone ph sel" "store_ok ph cells bounds used" "store_features (Features ph)"
    "counters_cover cells bounds used" "scanning sel s" "counted used s" "LastSMSRead s = 0" "SMSCache s = None" "\<not> SMSLocationLegacy s" "m \<in> two_memories"
  shows "\<exists>s'. open_range ph m s = Go s' \<and> in_range sel cells bounds (Features ph) s' \<and> SMSLocationMemory s' = m
    \<and> map (Pair m) (occupied cells m (SMSLocationPos s') (SMSLocationLast s')) = all_of cells bounds m \<and> LastSMSStatus s' = LastSMSStatus s"
proof -
  from get_range [OF assms(1,2,6,11,3,4)] obtain s' where
    s': "ATGEN_GetSMSLocationRange ph m s = Go s'" "scanning sel s'" "SMSLocationPos s' = fst (bounds m)" "SMSLocationLast s' = snd (bounds m)"
    "SMSLocationTarget s' = (if m = MEM_SM then SIMUsed (LastSMSStatus s) else PhoneUsed (LastSMSStatus s))" "SMSLocationMemory s' = m"
    "LastSMSStatus s' = LastSMSStatus s" "LastSMSRead s' = LastSMSRead s" "SMSLocationLegacy s' = SMSLocationLegacy s" "SMSCache s' = SMSCache s" by blast
  have "SMSLocationTarget s' = used m" using s'(5) assms(7,11) by (auto simp: counted_def MEM_SM_def MEM_ME_def)
  moreover have "int (length (all_of cells bounds m)) \<le> used m" using assms(5,11) by (auto simp: counters_cover_def)
  moreover have "0 \<le> fst (bounds m)" "snd (bounds m) < max_location (Features ph)" using assms(3,11) by (auto simp: store_ok_def)
  ultimately have "in_range sel cells bounds (Features ph) s'"
    using s' assms(8-11) by (simp add: in_range_def all_of_def)
  then show ?thesis using s' by (simp add: open_range_def all_of_def)
qed

text \<open>A state, and what follows from it.\<close>

definition next_is :: "'p at_phone \<Rightarrow> ('p \<Rightarrow> GSM_MemoryType) \<Rightarrow> (GSM_MemoryType \<Rightarrow> int \<Rightarrow> cell option) \<Rightarrow> (GSM_MemoryType \<Rightarrow> int \<times> int)
    \<Rightarrow> (GSM_MemoryType \<times> int) list \<Rightarrow> ('p, 'p at_sms) at_result \<Rightarrow> bool" where
  "next_is ph sel cells bounds xs r \<longleftrightarrow>
     (case xs of
        [] \<Rightarrow> \<exists>s'. r = Fail (ERR_EMPTY, s')
      | (m, l) # rest \<Rightarrow> \<exists>s'. r = Go s' \<and> in_range sel cells bounds (Features ph) s' \<and> to_come cells bounds s' = rest
          \<and> message_of (Loc ph) (Features ph) m l (the (cells m l)) (Got s'))"

lemma scan_phone:
  assumes "standard_phone ph sel cells bounds used" "selecting_phone ph sel" "store_ok ph cells bounds used" "store_features (Features ph)"
    "in_range sel cells bounds (Features ph) s" "SMSLocationMemory s = MEM_ME"
  shows "next_is ph sel cells bounds (to_come cells bounds s)
    (andthen (scan_memory ph s) (\<lambda>(found, s). if found then Go s else Fail (ERR_EMPTY, s)))"
proof -
  have c: "to_come cells bounds s = map (Pair MEM_ME) (occupied cells MEM_ME (SMSLocationPos s) (SMSLocationLast s))"
    if "SMSLocationMemory s = MEM_ME" for s :: "'a at_sms" using that by (simp add: to_come_def MEM_ME_def MEM_SM_def)
  show ?thesis using scan_memory_next [OF assms] assms(6)
    by (cases "occupied cells MEM_ME (SMSLocationPos s) (SMSLocationLast s)") (auto simp: next_is_def c)
qed

lemma scan_ranges_next:
  assumes "standard_phone ph sel cells bounds used" "selecting_phone ph sel" "store_ok ph cells bounds used" "store_features (Features ph)"
    "counters_cover cells bounds used" "in_range sel cells bounds (Features ph) s" "counted used s"
  shows "next_is ph sel cells bounds (to_come cells bounds s) (scan_ranges ph s)"
proof (cases "SMSLocationMemory s = MEM_SM \<and> occupied cells MEM_SM (SMSLocationPos s) (SMSLocationLast s) = []")
  case True
  then obtain s1 where s1: "scan_memory ph s = Go (False, s1)" "scanning sel s1" "same_scan s s1"
    using scan_memory_next [OF assms(1-4,6), of MEM_SM] by auto
  have come: "to_come cells bounds s = all_of cells bounds MEM_ME" using True by (simp add: to_come_def)
  have av: "PhoneSMSMemory s1 = AT_AVAILABLE" using s1(2) by (simp add: scanning_def)
  let ?s = "phone_location s1"
  have s: "scanning sel ?s" "counted used ?s" "LastSMSRead ?s = 0" "SMSCache ?s = None" "\<not> SMSLocationLegacy ?s"
    using s1(2,3) assms(6,7) by (simp_all add: phone_location_def scanning_def sms_arrays_def core_ok_def tracks_def same_scan_def counted_def in_range_def)
  have two: "MEM_ME \<in> two_memories" by simp
  show ?thesis
  proof (cases "PhoneUsed (LastSMSStatus ?s) = 0")
    case none: True
    then have "all_of cells bounds MEM_ME = []" using assms(5) s(2) by (simp add: counters_cover_def counted_def)
    then show ?thesis using none True s1(1) av come by (simp add: scan_ranges_def next_is_def Let_def)
  next
    case False
    from opened_range [OF assms(1-5) s two] obtain s2 where s2: "open_range ph MEM_ME ?s = Go s2" "in_range sel cells bounds (Features ph) s2"
      "SMSLocationMemory s2 = MEM_ME" "map (Pair MEM_ME) (occupied cells MEM_ME (SMSLocationPos s2) (SMSLocationLast s2)) = all_of cells bounds MEM_ME" by blast
    have "to_come cells bounds s2 = all_of cells bounds MEM_ME" using s2(3,4) by (simp add: to_come_def MEM_ME_def MEM_SM_def)
    with scan_phone [OF assms(1-4) s2(2,3)] show ?thesis
      using False True s1(1) av come s2(1) by (simp add: scan_ranges_def Let_def)
  qed
next
  case False
  show ?thesis
  proof (cases "SMSLocationMemory s = MEM_SM")
    case True
    then show ?thesis using False scan_memory_next [OF assms(1-4,6), of MEM_SM]
      by (cases "occupied cells MEM_SM (SMSLocationPos s) (SMSLocationLast s)") (auto simp: next_is_def to_come_def scan_ranges_def)
  next
    case f: False
    then have "SMSLocationMemory s = MEM_ME" using assms(6) by (auto simp: in_range_def)
    moreover have "scan_ranges ph s = andthen (scan_memory ph s) (\<lambda>(found, s). if found then Go s else Fail (ERR_EMPTY, s))"
      using f by (cases "scan_memory ph s") (auto simp: scan_ranges_def)
    ultimately show ?thesis using scan_phone [OF assms(1-4,6)] by simp
  qed
qed

subsection \<open>A call\<close>

lemma next_in_range:
  assumes "standard_phone ph sel cells bounds used" "selecting_phone ph sel" "store_ok ph cells bounds used" "store_features (Features ph)"
    "counters_cover cells bounds used" "in_range sel cells bounds (Features ph) s" "counted used s"
  shows "next_is ph sel cells bounds (to_come cells bounds s) (ATGEN_GetNextSMSFromLocationRange ph s)"
proof -
  have "SMSLocationMemory s \<noteq> MEM_INVALID" using assms(6) by (auto simp: in_range_def MEM_SM_def MEM_ME_def MEM_INVALID_def)
  then show ?thesis using scan_ranges_next [OF assms] by (simp add: ATGEN_GetNextSMSFromLocationRange_def)
qed

lemma next_from_start:
  assumes "standard_phone ph sel cells bounds used" "selecting_phone ph sel" "store_ok ph cells bounds used" "store_features (Features ph)"
    "counters_cover cells bounds used" "scanning sel s" "counted used s" "LastSMSRead s = 0" "SMSCache s = None" "\<not> SMSLocationLegacy s"
    "SMSLocationMemory s = MEM_INVALID" "Location (Got s) = 0"
  shows "next_is ph sel cells bounds (all_of cells bounds MEM_SM @ all_of cells bounds MEM_ME) (ATGEN_GetNextSMSFromLocationRange ph s)"
proof -
  have av: "SIMSMSMemory s = AT_AVAILABLE" "PhoneSMSMemory s = AT_AVAILABLE" using assms(6) by (simp_all add: scanning_def)
  have first: "ATGEN_GetFirstSMSLocationMemory s 0 = MEM_SM"
    using av by (simp add: ATGEN_GetFirstSMSLocationMemory_def GSM_PHONE_MAXSMSINFOLDER_def)
  have none: "used m = 0 \<Longrightarrow> m \<in> two_memories \<Longrightarrow> all_of cells bounds m = []" for m
    using assms(5) by (auto simp: counters_cover_def)
  have ne: "MEM_ME \<noteq> MEM_SM" by (simp add: MEM_ME_def MEM_SM_def)
  have opened: "next_is ph sel cells bounds (all_of cells bounds m @ (if m = MEM_SM then all_of cells bounds MEM_ME else []))
      (andthen (open_range ph m t) (scan_ranges ph))"
    if t: "scanning sel t" "counted used t" "LastSMSRead t = 0" "SMSCache t = None" "\<not> SMSLocationLegacy t" "m \<in> two_memories" for m t
  proof -
    from opened_range [OF assms(1-5) t] obtain s' where s': "open_range ph m t = Go s'" "in_range sel cells bounds (Features ph) s'"
      "SMSLocationMemory s' = m" "map (Pair m) (occupied cells m (SMSLocationPos s') (SMSLocationLast s')) = all_of cells bounds m"
      "LastSMSStatus s' = LastSMSStatus t" by blast
    have "counted used s'" using t(2) s'(5) by (simp add: counted_def)
    from scan_ranges_next [OF assms(1-5) s'(2) this] s'(1,3,4) show ?thesis by (simp add: to_come_def)
  qed
  show ?thesis
  proof (cases "used MEM_SM = 0")
    case True
    define t where "t = phone_location s"
    have t: "scanning sel t" "counted used t" "LastSMSRead t = 0" "SMSCache t = None" "\<not> SMSLocationLegacy t"
      using assms(6-10) by (simp_all add: t_def phone_location_def scanning_def sms_arrays_def core_ok_def tracks_def counted_def)
    have from_start: "ATGEN_GetNextSMSFromLocationRange ph s =
        (if used MEM_ME = 0 then Fail (ERR_EMPTY, t) else andthen (open_range ph MEM_ME t) (scan_ranges ph))"
      using True assms(7,11,12) t(2) first av ne
      by (simp add: ATGEN_GetNextSMSFromLocationRange_def counted_def t_def [symmetric] Let_def)
    show ?thesis using none [OF True] none [of MEM_ME] opened [OF t, of MEM_ME] ne
      by (simp add: from_start next_is_def)
  next
    case False
    then have "ATGEN_GetNextSMSFromLocationRange ph s = andthen (open_range ph MEM_SM s) (scan_ranges ph)"
      using assms(7,11,12) first ne by (simp add: ATGEN_GetNextSMSFromLocationRange_def counted_def Let_def)
    then show ?thesis using opened [OF assms(6-10), of MEM_SM] by simp
  qed
qed

lemma both_tried: "scanning sel s \<Longrightarrow> andthen (try_memory ph False s) (try_memory ph True) = Go s"
  by (simp add: try_memory_def scanning_def)

lemma next_located: "next_is ph sel cells bounds xs (ATGEN_GetNextSMSFromLocationRange ph s) \<Longrightarrow> SMSCache s = None \<Longrightarrow> \<not> SMSLocationLegacy s
    \<Longrightarrow> \<exists>r. get_locations ph s = Some r \<and> next_is ph sel cells bounds xs r"
proof -
  assume n: "next_is ph sel cells bounds xs (ATGEN_GetNextSMSFromLocationRange ph s)" and c: "SMSCache s = None" "\<not> SMSLocationLegacy s"
  then have s: "s\<lparr>SMSCache := None\<rparr> = s" by (cases s) simp
  show ?thesis using n c(2) by (auto simp: get_locations_def s next_is_def split: list.splits prod.splits)
qed

lemma next_call:
  assumes "standard_phone ph sel cells bounds used" "selecting_phone ph sel" "store_ok ph cells bounds used" "store_features (Features ph)"
    "counters_cover cells bounds used" "in_range sel cells bounds (Features ph) s"
  shows "\<exists>r. ATGEN_GetNextSMS ph False s = Some r \<and> next_is ph sel cells bounds (to_come cells bounds s) r"
proof -
  have s: "scanning sel s" "SMSCache s = None" "\<not> SMSLocationLegacy s" using assms(6) by (simp_all add: in_range_def)
  from status_counted [OF assms(1,2) s(1) assms(3)] obtain s' where
    s': "ATGEN_GetSMSStatus ph s = Go s'" "scanning sel s'" "recounted s s'" "counted used s'" by blast
  have r: "in_range sel cells bounds (Features ph) s'" "to_come cells bounds s' = to_come cells bounds s"
    using assms(6) s'(2) recounted_fields [OF s'(3)] by (simp_all add: in_range_def to_come_def)
  from next_located [OF next_in_range [OF assms(1-5) r(1) s'(4)]] obtain x where
    "get_locations ph s' = Some x" "next_is ph sel cells bounds (to_come cells bounds s) x"
    using s(2,3) r(2) recounted_fields [OF s'(3)] by auto
  then show ?thesis using s s'(1) both_tried [OF s(1), of ph]
    by (simp add: ATGEN_GetNextSMS_def without_listing_def scanning_def)
qed

lemma first_call:
  assumes "standard_phone ph sel cells bounds used" "selecting_phone ph sel" "store_ok ph cells bounds used" "store_features (Features ph)"
    "counters_cover cells bounds used" "scanning sel s" "SMSCache s = None"
  shows "\<exists>r. ATGEN_GetNextSMS ph True s = Some r
    \<and> next_is ph sel cells bounds (all_of cells bounds MEM_SM @ all_of cells bounds MEM_ME) r"
proof -
  define t where "t = ATGEN_ResetSMSLocationRange (s\<lparr>LastSMSRead := 0, Got := (Got s)\<lparr>Location := 0\<rparr>\<rparr>)"
  have t: "scanning sel t" "SMSCache t = None" "\<not> SMSLocationLegacy t" "SMSLocationMemory t = MEM_INVALID" "Location (Got t) = 0" "LastSMSRead t = 0"
    using assms(6,7) by (simp_all add: t_def ATGEN_ResetSMSLocationRange_def scanning_def sms_arrays_def core_ok_def tracks_def)
  from status_counted [OF assms(1,2) t(1) assms(3)] obtain s' where
    s': "ATGEN_GetSMSStatus ph t = Go s'" "scanning sel s'" "recounted t s'" "counted used s'" by blast
  have "next_is ph sel cells bounds (all_of cells bounds MEM_SM @ all_of cells bounds MEM_ME) (ATGEN_GetNextSMSFromLocationRange ph s')"
    by (rule next_from_start [OF assms(1-5) s'(2,4)]) (use t recounted_fields [OF s'(3)] in simp_all)
  from next_located [OF this] obtain x where
    "get_locations ph s' = Some x" "next_is ph sel cells bounds (all_of cells bounds MEM_SM @ all_of cells bounds MEM_ME) x"
    using t recounted_fields [OF s'(3)] by auto
  moreover have "ATGEN_GetSMSList ph True t = Fail (ERR_NOTSUPPORTED, t)" using assms(4) by (simp add: ATGEN_GetSMSList_def store_features_def)
  ultimately show ?thesis using s'(1) both_tried [OF assms(6), of ph] assms(6)
    by (simp add: ATGEN_GetNextSMS_def without_listing_def scanning_def t_def [symmetric])
qed

subsection \<open>All calls\<close>

text \<open>The calls a client makes, up to the answer that nothing is left, and the messages they give.\<close>

inductive read_all :: "'p at_phone \<Rightarrow> bool \<Rightarrow> 'p at_sms \<Rightarrow> GSM_SMSMessage list \<Rightarrow> bool" for ph where
  read_end: "ATGEN_GetNextSMS ph start s = Some (Fail (ERR_EMPTY, s')) \<Longrightarrow> read_all ph start s []"
| read_next: "ATGEN_GetNextSMS ph start s = Some (Go s') \<Longrightarrow> read_all ph False s' sms \<Longrightarrow> read_all ph start s (Got s' # sms)"

inductive_simps read_none: "read_all ph start s []"

inductive_simps read_some: "read_all ph start s (m # ms)"

text \<open>The calls have one outcome.\<close>

lemma read_all_unique: "read_all ph start s ms \<Longrightarrow> read_all ph start s ms' \<Longrightarrow> ms = ms'"
proof (induction arbitrary: ms' rule: read_all.induct)
  case (read_end start s s')
  then show ?case by (cases ms') (simp_all add: read_none read_some)
next
  case (read_next start s s' sms)
  show ?case
  proof (cases ms')
    case Nil
    then show ?thesis using read_next.hyps(1) read_next.prems by (simp add: read_none)
  next
    case (Cons m ms)
    then show ?thesis using read_next.hyps(1) read_next.prems read_next.IH [of ms] by (simp add: read_some)
  qed
qed

definition message_at :: "'p at_phone \<Rightarrow> (GSM_MemoryType \<Rightarrow> int \<Rightarrow> cell option) \<Rightarrow> GSM_MemoryType \<times> int \<Rightarrow> GSM_SMSMessage \<Rightarrow> bool" where
  "message_at ph cells x sms \<longleftrightarrow> (case x of (m, l) \<Rightarrow> message_of (Loc ph) (Features ph) m l (the (cells m l)) sms)"

lemma read_from:
  assumes "standard_phone ph sel cells bounds used" "selecting_phone ph sel" "store_ok ph cells bounds used" "store_features (Features ph)"
    "counters_cover cells bounds used"
  shows "ATGEN_GetNextSMS ph start s = Some r \<Longrightarrow> next_is ph sel cells bounds xs r \<Longrightarrow>
    \<exists>ms. read_all ph start s ms \<and> list_all2 (message_at ph cells) xs ms"
proof (induction xs arbitrary: start s r)
  case Nil
  then show ?case by (auto simp: next_is_def intro: read_end)
next
  case (Cons x xs)
  obtain m l where x: "x = (m, l)" by (cases x)
  with Cons.prems obtain s' where s': "r = Go s'" "in_range sel cells bounds (Features ph) s'" "to_come cells bounds s' = xs"
    "message_of (Loc ph) (Features ph) m l (the (cells m l)) (Got s')" by (auto simp: next_is_def)
  from next_call [OF assms s'(2)] s'(3) obtain r' where
    "ATGEN_GetNextSMS ph False s' = Some r'" "next_is ph sel cells bounds xs r'" by auto
  from Cons.IH [OF this] obtain ms where ms: "read_all ph False s' ms" "list_all2 (message_at ph cells) xs ms" by blast
  have "ATGEN_GetNextSMS ph start s = Some (Go s')" using Cons.prems(1) s'(1) by simp
  from read_next [OF this ms(1)] have "read_all ph start s (Got s' # ms)" .
  moreover have "list_all2 (message_at ph cells) (x # xs) (Got s' # ms)" using ms(2) s'(4) by (simp add: x message_at_def)
  ultimately show ?case by blast
qed

text \<open>
  Claim C8. Reading all messages of a phone that keeps to the standard and does not list them: from a state in which both memories
  are known to be available, the calls of ATGEN_GetNextSMS, the first with the start flag, end with ERR_EMPTY after
  finitely many, and give, in order, exactly the messages of the locations in use of the card and then of the
  phone, each decoded from the PDU the phone stores there and with its flat location; no location is read twice and none is missed,
  however the locations are scattered over the range, and whether a free one is answered by a bare OK or by error 321. The counters
  of the phone must cover the messages; a phone that counts fewer is read no further than it counts. The phone is in PDU mode, has
  one name for both the memory to read and the one to write in its command (no memory for received messages), is none
  that needs encoded commands, none of Motorola and none with the location numbers of F_SMSME900.
\<close>

theorem at_read_all:
  assumes "standard_phone ph sel cells bounds used" "selecting_phone ph sel" "store_ok ph cells bounds used" "store_features (Features ph)"
    "counters_cover cells bounds used" "scanning sel s" "SMSCache s = None"
  shows "\<exists>!ms. read_all ph True s ms \<and> list_all2 (message_at ph cells) (all_of cells bounds MEM_SM @ all_of cells bounds MEM_ME) ms"
proof -
  from first_call [OF assms] obtain r where
    "ATGEN_GetNextSMS ph True s = Some r" "next_is ph sel cells bounds (all_of cells bounds MEM_SM @ all_of cells bounds MEM_ME) r" by blast
  from read_from [OF assms(1-5) this] read_all_unique [of ph True s] show ?thesis by blast
qed

theorem at_read_all_witness:
  "\<exists>!ms. read_all demo_phone True demo_state ms \<and> list_all2 (message_at demo_phone demo_cells) [(MEM_SM, 0), (MEM_ME, 3)] ms"
proof -
  have o: "occupied demo_cells MEM_SM 0 9 = [0]" "occupied demo_cells MEM_ME 0 9 = [3]"
    by (simp_all add: occupied_def demo_cells_def MEM_SM_def MEM_ME_def upto_rec1)
  then have c: "counters_cover demo_cells demo_bounds demo_used" by (simp add: counters_cover_def all_of_def)
  have "store_features (Features demo_phone)" "SMSCache demo_state = None" by (simp_all add: store_features_def demo_phone_def demo_state_def)
  from at_read_all [OF demo_standard demo_selecting demo_store this(1) c demo_scanning this(2)] show ?thesis
    by (simp add: all_of_def o)
qed

subsection \<open>Selections and ranges\<close>

text \<open>
  Claim C9. The memory the module takes for selected is the one the phone has selected. Whatever operations on the memories of the phone a module
  that has just started has carried out, in any order, each with success or with any error, what it has noted as selected (the card or the
  memory of the phone) is what the phone has selected; and when the memory of a message's location has been set, it is the memory the
  message is said to be in, and the phone has selected it. The phone is one that selects a memory exactly when it accepts a command for it, where
  a command without an answer counts as not accepted. When the question for the status has ended with an error, the phone must also give the
  counters with every command for a memory it accepts (\<open>counting_phone\<close>): if it leaves them out, the memory it has selected is not
  noted (\<open>uncounted_memory\<close>).
\<close>

theorem at_memory_selected:
  assumes "keeping_phone ph sel" "(memory_step ph sel)\<^sup>*\<^sup>* s0 s" "SMSMemory s0 = 0"
  shows "(SMSMemory s = MEM_SM \<or> SMSMemory s = MEM_ME \<longrightarrow> sel (Link s) = SMSMemory s)
    \<and> (\<forall>place s'. ATGEN_GetSMSLocation ph for_write s = Go (place, s') \<longrightarrow> SMSMemory s' = Memory (Got s')
         \<and> (Memory (Got s') = MEM_SM \<or> Memory (Got s') = MEM_ME \<longrightarrow> sel (Link s') = Memory (Got s')))"
proof -
  have "tracks sel s0" using assms(3) by (simp add: tracks_def MEM_SM_def MEM_ME_def)
  from memory_steps_track [OF assms(2,1) this] location_memory [OF keeping_selects [OF assms(1)], of s for_write] show ?thesis
    unfolding tracks_def by (metis prod.exhaust)
qed

text \<open>The phone of the example refuses to select \<^verbatim>\<open>MT\<close>, and is then asked for a message of its own memory.\<close>

theorem at_memory_selected_witness:
  "\<exists>s1 place s'. ATGEN_SetRequestedSMSMemory demo_phone MEM_MT False
      (demo_state\<lparr>SMSMemory := 0, Got := blank_sms\<lparr>Memory := MEM_ME, Location := 100003\<rparr>\<rparr>) = Fail (ERR_UNKNOWN, s1)
    \<and> ATGEN_GetSMSLocation demo_phone False s1 = Go (place, s') \<and> SMSMemory s' = Memory (Got s')
    \<and> (Memory (Got s') = MEM_SM \<or> Memory (Got s') = MEM_ME \<longrightarrow> id (Link s') = Memory (Got s'))"
proof -
  let ?s = "demo_state\<lparr>SMSMemory := 0, Got := blank_sms\<lparr>Memory := MEM_ME, Location := 100003\<rparr>\<rparr>"
  have scan: "scanning id ?s" using demo_scanning by (simp add: scanning_def core_ok_def tracks_def sms_arrays_def demo_state_def MEM_SM_def MEM_ME_def)
  let ?no = "[bytes_of ''AT+CPMS'', bytes_of ''ERROR'']"
  let ?cmd = "command ''AT+CPMS=\"MT\"''"
  have cmd: "ATGEN_BuildCPMSCommand ?s (GSM_MemoryTypeToString MEM_MT) False 50 = Some ?cmd"
    by (simp add: ATGEN_BuildCPMSCommand_def GSM_MemoryTypeToString_def memory_names_def MEM_MT_def quoted_name_def command_def Let_def)
  have "?cmd \<notin> memory_commands MEM_ME"
    by (simp add: counter_lines_simps(2) command_def)
  then have ask: "Ask demo_phone (Link ?s) ?cmd = (Inr (joined eol ?no), Link ?s)"
    by (simp add: demo_phone_def demo_ask_def motorola_status_names)
  have good: "good_answer ?no" by (simp add: good_answer_def at_line_ok_def good_line_def after_echo_def)
  from wait_answer [OF ask good] scan obtain core where core: "read_lines ?no (Core ?s) core"
    "ATGEN_WaitFor demo_phone ?cmd generic_reply ?s = generic_reply (joined eol ?no) (?s\<lparr>Link := Link ?s, Core := core\<rparr>)"
    "ReplyState core = reply_state (F_CPIN_NO_OK \<in> Features demo_phone) (last ?no)" unfolding scanning_def by blast
  have "reply_state c (bytes_of ''ERROR'') = AT_Reply_Error" for c by (simp add: reply_state_def starts_def Let_def)
  then have state: "ReplyState core = AT_Reply_Error" using core(3) by simp
  define s1 where "s1 = ?s\<lparr>Link := Link ?s, Core := core\<rparr>"
  have s1: "scanning id s1" unfolding s1_def
    by (rule exchange_scanning [OF scan read_core_ok [OF core(1)]]) (use scan in \<open>simp_all add: scanning_def\<close>)
  have "ATGEN_IsMemoryAvailable ?s MEM_MT" "SMSMemory ?s \<noteq> MEM_MT" "\<not> EncodedCommands ?s" "MEM_MT \<noteq> 0" "MEM_MT \<noteq> MEM_INVALID"
    by (simp_all add: ATGEN_IsMemoryAvailable_def demo_state_def MEM_MT_def MEM_INVALID_def)
  then have set: "ATGEN_SetRequestedSMSMemory demo_phone MEM_MT False ?s = Fail (ERR_UNKNOWN, s1)"
    using cmd core(2) state by (simp add: ATGEN_SetRequestedSMSMemory_def encoded_commands_def generic_reply_def ATGEN_GenericReply_def returned_def s1_def)
  have step: "(memory_step demo_phone id)\<^sup>*\<^sup>* ?s s1" by (rule r_into_rtranclp, rule step_requested [OF set]) simp
  have "at_cell (Features demo_phone) MEM_ME 3 (Got s1)" "(3 :: int) < max_location (Features demo_phone)"
    by (simp_all add: s1_def at_cell_def flat_location_def demo_phone_def max_location_def GSM_PHONE_MAXSMSINFOLDER_def MEM_ME_def MEM_SM_def blank_sms_def)
  from locate [OF demo_standard demo_selecting s1 _ this(1) _ this(2)] obtain place s' where
    s': "ATGEN_GetSMSLocation demo_phone False s1 = Go (place, s')" by auto
  have "SMSMemory ?s = 0" by simp
  from at_memory_selected [OF demo_keeping step this] s' set show ?thesis by blast
qed

text \<open>
  Claim C26. A range of locations that was accepted is not empty, starts the search at its first location, and stays below the
  locations of the next folder: each of its locations, in either folder, has a name of its own in the
  library, which is taken back to the folder and the location.
\<close>

theorem at_range_locations:
  assumes "ATGEN_ParseSMSLocationRange ph buffer s = Go s'"
  shows "0 \<le> SMSLocationFirst s' \<and> SMSLocationFirst s' \<le> SMSLocationLast s' \<and> SMSLocationPos s' = SMSLocationFirst s'
    \<and> (\<forall>location \<in> {SMSLocationFirst s'..SMSLocationLast s'}. \<forall>folderid \<in> {1, 2}.
         at_location (Features ph) both (ATGEN_SetSMSLocation (Features ph) folderid location sms) = Some (folderid, location))"
proof -
  define m where "m = max_location (Features ph)"
  from assms obtain current where c: "Option.bind (strstr buffer ''+CMGD:'') (strchr 40) = Some current"
    by (auto simp: ATGEN_ParseSMSLocationRange_def split: option.splits)
  let ?r = "parse_ranges m (dropWhile isspace (tl current)) None"
  have "range_ok m (snd ?r)" by (rule parse_ranges_ok) (simp add: range_ok_def)
  moreover have fst: "fst ?r"
    using assms c by (auto simp: ATGEN_ParseSMSLocationRange_def m_def max_location_def Let_def split: prod.splits if_splits)
  moreover from parse_ranges_found [OF fst] obtain f l where fl: "snd ?r = Some (f, l)" by auto
  ultimately have b: "0 \<le> f" "f \<le> l" "l < m" by (simp_all add: range_ok_def)
  have "SMSLocationFirst s' = f" "SMSLocationLast s' = l" "SMSLocationPos s' = f"
    using assms c fl fst by (auto simp: ATGEN_ParseSMSLocationRange_def m_def max_location_def Let_def split: prod.splits if_splits)
  then show ?thesis using b location_returns by (auto simp: m_def)
qed

theorem at_range_locations_witness:
  "ATGEN_ParseSMSLocationRange demo_phone (bytes_of ''+CMGD: (1-20),(0-4)'') demo_state = Go (demo_state\<lparr>SMSLocationFirst := 1, SMSLocationLast := 20, SMSLocationPos := 1\<rparr>)
   \<and> at_location (Features demo_phone) True (ATGEN_SetSMSLocation (Features demo_phone) 2 20 blank_sms) = Some (2, 20)"
proof -
  have "parse_ranges 100000 (bytes_of ''1-20),(0-4)'') None = (True, Some (1, 20))" by code_simp
  moreover have "Option.bind (strstr (bytes_of ''+CMGD: (1-20),(0-4)'') ''+CMGD:'') (strchr 40) = Some (bytes_of ''(1-20),(0-4)'')" by code_simp
  ultimately have p: "ATGEN_ParseSMSLocationRange demo_phone (bytes_of ''+CMGD: (1-20),(0-4)'') demo_state
      = Go (demo_state\<lparr>SMSLocationFirst := 1, SMSLocationLast := 20, SMSLocationPos := 1\<rparr>)"
    by (simp add: ATGEN_ParseSMSLocationRange_def demo_phone_def GSM_PHONE_MAXSMSINFOLDER_def isspace_def)
  from at_range_locations [OF this, of True blank_sms] show ?thesis using p by simp
qed

end
