(* ===== verification/Spec2Isabelle.thy ===== *)
theory Spec2Isabelle
  imports Escapes Numbers Alphabet BitBuffer DateTime SmsTypes MultiSms Phonet Obex Gnapbus
    Fbus2 Mbus2 AtProto Dispatch LinkSms Md5 SmsdCache SmsdReceive SmsdSend
    AtParse AtReplies AtAll
begin

text \<open>
  A verification development for libgammu, the library of Gammu that talks to mobile phones, and for the
  core of SMSD, the daemon over it.

  \<^bold>\<open>The program.\<close> A phone is reached through a device, over which a protocol layer exchanges messages:
  \<^verbatim>\<open>GSM_WaitFor\<close> in \<^verbatim>\<open>gsmstate.c\<close> writes a request with the protocol's \<^verbatim>\<open>WriteMessage\<close>, and
  \<^verbatim>\<open>GSM_ReadDevice\<close> gives every octet received to the protocol's state machine. When a message is
  complete, the state machine calls \<^verbatim>\<open>GSM_DispatchMessage\<close>, which looks up the reply function of the
  phone module for it. The reply functions decode what the phone sent: PDUs of messages, numbers,
  texts in one of the alphabets, dates. In the other direction texts are split into parts and encoded
  into frames. The daemon polls the phone for messages, links their parts, hands them to a storage
  service and deletes them, and sends what the service has queued.

  \<^bold>\<open>Theories.\<close>
  \<^item> \<open>Errors\<close>: the error codes and their names (\<^verbatim>\<open>gammu-error.h\<close>, \<^verbatim>\<open>gsmcomon.c\<close>). \<open>Prelude\<close>: octets, C
    strings, 16-bit units, shared word lemmas. \<open>Interfaces\<close>: the locales below.
  \<^item> \<open>Escapes\<close>, \<open>Unicode\<close>, \<open>CLocale\<close>, \<open>Codings\<close>, \<open>BitBuffer\<close>, \<open>Septets\<close>, \<open>Alphabet\<close>, \<open>Numbers\<close>:
    \<^verbatim>\<open>misc/coding/coding.c\<close>, one definition per function, with the names of the source where they are
    free. Texts of the source are octet lists or lists of 16-bit units; \<^verbatim>\<open>NUL\<close> ends them where the
    source stops there.
  \<^item> \<open>DateTime\<close>: the date checks of \<^verbatim>\<open>misc.c\<close> and the time stamps of \<^verbatim>\<open>gsmsms.c\<close>.
  \<^item> \<open>SmsTypes\<close>, \<open>SmsUdh\<close>, \<open>SmsDecode\<close>, \<open>SmsEncode\<close>, \<open>MultiSms\<close>: messages, user data headers, the PDU and
    frame decoders, the frame encoder (\<^verbatim>\<open>service/sms/gsmsms.c\<close>), and the splitting of texts into parts
    (\<^verbatim>\<open>gsmmulti.c\<close>). Decoders and encoders are written over \<open>Checked\<close>: every read of the octets
    received and every store to the arrays of a message and a frame is checked, the terminator behind a
    Unicode text in a frame included, and a result tells an access out of range from an error code. The
    text to be encoded must end within its array, or the encoder's result is the read behind it.
  \<^item> \<open>Protocol\<close>: the message record, the buffer cells, the checksums and the events of a receiver, shared
    by \<open>Phonet\<close>, \<open>Obex\<close>, \<open>Gnapbus\<close>, \<open>Fbus2\<close>, \<open>Mbus2\<close> and \<open>AtProto\<close> (\<^verbatim>\<open>libgammu/protocol\<close>). A state machine
    is a function from its record and an octet to the record and the events: deliveries to the
    dispatcher, octets sent, accesses out of range.
  \<^item> \<open>Dispatch\<close>: the ring of deferred events, the search for a reply function, the dispatch of a message
    and the wait for an answer (\<^verbatim>\<open>gsmstate.c\<close>). The handlers of deferred events have
    no effect on the ring and the request there: a handler that cancels events itself is not modelled.

  \<^item> \<open>LinkSms\<close>: the linking of received parts, with the Siemens OTA headers (\<^verbatim>\<open>gsmmulti.c\<close>, \<^verbatim>\<open>gsmsms.c\<close>). The loop
    of \<^verbatim>\<open>GSM_LinkSMS\<close> is a step function under \<open>partial_function\<close>, because it does not always end: \<open>linkable\<close> names the
    messages for which it does. A part belongs to a message by its kind, its identifiers and number of parts, and its sender.
  \<^item> \<open>Md5\<close>: the digest of \<^verbatim>\<open>misc/coding/md5.c\<close> on a little-endian machine, and the digest of RFC 1321 stated
    by itself, its rounds by their formulas and its constants as a table.
  \<^item> \<open>SmsdCache\<close>, \<open>SmsdReceive\<close>, \<open>SmsdSend\<close>: the daemon, \<^verbatim>\<open>smsd/core.c\<close>: the cache of messages callbacks handed over, the
    receiving and the sending side. The phone, the storage service and the clock are environments:
    functions from the history so far to an answer, and every call is written to the history. Whenever the
    phone is read, it may report the status of a sent part or an incoming message, in any number and
    order (\<open>phone_events\<close>), and the callbacks of the daemon run.
  \<^item> \<open>CNumbers\<close>: the character classes and number readers of the C library the AT module uses. \<open>AtErrorTables\<close>
    and \<open>AtErrors\<close>: the tables of \<^verbatim>\<open>phone/at/at-error.c\<close> and their search. \<open>AtLines\<close>: the cutting of an answer
    into lines (\<^verbatim>\<open>misc.c\<close>). \<open>AtReplies\<close>, \<open>AtText\<close>, \<open>AtDate\<close>, \<open>AtParse\<close>: what \<^verbatim>\<open>phone/at/atgen.c\<close> makes of an
    answer: its outcome and error, its texts in the character set of the phone or the one guessed, its
    dates, and the parameters \<^verbatim>\<open>ATGEN_ParseReply\<close> stores for a format.
  \<^item> \<open>AtMemory\<close>, \<open>AtTextMode\<close>, \<open>AtRead\<close>, \<open>AtScan\<close>: reading messages from an AT phone (\<^verbatim>\<open>phone/at/at-sms.c\<close>): the memories, their
    selection and counters, locations, messages in text and PDU mode, and \<^verbatim>\<open>ATGEN_GetNextSMS\<close> with its listing, its
    range of locations and its search without either. The state is the record \<open>at_sms\<close>; the phone is a
    function from its own state and a command to an answer or the error of the wait. \<open>AtAnswers\<close>,
    \<open>AtSelect\<close>, \<open>AtRange\<close>, \<open>AtStore\<close> hold lemmas on exchanges, selections, ranges and single messages, \<open>AtDemo\<close>
    a concrete phone, and \<open>AtAll\<close> the reading of a whole store.

  \<^bold>\<open>Interfaces.\<close> \<open>framing\<close> and its extension \<open>framing_resync\<close> state what a dispatcher needs of a state
  machine: a written message is delivered, and the machine is ready for the next one, also behind
  noise. Every protocol interprets one of them, and its delivery theorem is the stream theorem of the
  locale. \<open>bounded_queue\<close> is the contract of the ring of deferred events, interpreted in \<open>Dispatch\<close>.
  The other locales of \<open>Interfaces\<close> cover the codecs of characters and the escapes.

  \<^bold>\<open>What the lemmas show.\<close> Round trips of every codec, with the inputs that break them stated; the
  decoders read and write in range on all octets; the encoders stay within their buffers; a message
  split into parts is carried whole; the state machines deliver what was sent, acknowledge it, and
  drop altered frames; the dispatcher picks the first fitting reply, runs deferred events in order and
  waiting for an answer ends. Linking loses no message and restores the order of parts, also behind the
  splitting. The daemon deletes a message only after it was saved, whatever the environment answers, and
  its steps are those of \<open>receive_step\<close>; every digest in its cache accounts for one copy; the wait for
  missing parts refines a register; parts are sent in order and at most once, those the phone took and last
  reported as sent are recorded as sent and no others, and each wait ends.
  An answer of an AT phone is cut into the lines the phone sent, and its outcome and error are understood
  in both forms the phones use; texts written in a character set of the module are read back; an
  answer with the shape of the format is parsed into the values that were written, and the stores of
  all texts that have a limit stay in their rooms.
  The memory the module believes selected is the one the phone has selected, along every sequence of
  operations, successful or refused; a range of locations stays in its folder; and from a phone that keeps to the standard
  all messages of both memories are read, each once and in order.
  The lemmas of the same theories also state where this fails: texts that overrun their store, dates
  that are misread, texts taken for hexadecimal digits.

  \<^bold>\<open>Bounds.\<close> There is no fuel: loops are structural, have a measure, or are \<open>partial_function\<close>s with a
  theorem that they return. \<^verbatim>\<open>size_t\<close> is a natural number where a wrap-around is excluded and written
  out where it is not. Memory is not exhausted.

  \<^bold>\<open>Parameters.\<close> The C locale (a record with \<^verbatim>\<open>mbtowc\<close> and \<^verbatim>\<open>wctomb\<close>), the clock, the devices, the reply
  functions and hooks of the phone modules, and the environments of the daemon are arguments.

  \<^bold>\<open>Not modelled.\<close> Debug output, waiting times, \<^verbatim>\<open>strftime\<close> and the system's time zones; the phone
  modules apart from the reading of AT answers and of messages from AT phones (saving, sending and
  deleting them there are not modelled); the backup formats, the network table, the
  configuration, reconnection and storage services of SMSD and the command line. They are listed in
  the manifest with the reason.
\<close>

end
